(* ===== verification/Prelude.thy ===== *)
theory Prelude
  imports Main "HOL-Library.Word" "HOL-Library.Monad_Syntax"
begin

text \<open>
  Shared ground of the development: the collections of simplification rules the
  component theories extend, big-endian and little-endian numbers over byte buffers
  (Node's \<open>Buffer.readUInt*\<close> family), the string operations of JavaScript the
  sources use, and the list lemmas about slices and concatenations that every
  binary-format proof needs.

  Conventions. A JavaScript number that the source uses as a count, an offset or a
  size is a \<open>nat\<close>; a byte is an \<open>8 word\<close> and a \<open>Buffer\<close> a list of bytes; a
  JavaScript string is a \<open>string\<close> whose characters are the code units up to 255; a
  thrown exception is a value of a sum type, or \<open>None\<close> where the source has exactly
  one exception to throw.
\<close>

unbundle bit_operations_syntax

named_theorems buffer_simps
named_theorems media_simps
named_theorems db_simps

type_synonym byte = "8 word"
type_synonym buffer = "byte list"

section \<open>Numbers in buffers\<close>

definition be_nat :: "buffer \<Rightarrow> nat" where
  "be_nat bs = foldl (\<lambda>acc b. acc * 256 + unat b) 0 bs"

definition le_nat :: "buffer \<Rightarrow> nat" where
  "le_nat bs = be_nat (rev bs)"

text \<open>
  \<open>subarray b i n\<close> is \<open>buffer.subarray(i, i + n)\<close>: like \<open>subarray\<close> it is cut at the
  buffer's end. \<open>byte_at b i\<close> is \<open>b[i] ?? 0\<close>, and also \<open>b[i]\<close> as an operand of a
  bitwise operator, which reads \<open>undefined\<close> as 0.
\<close>

definition subarray :: "'a list \<Rightarrow> nat \<Rightarrow> nat \<Rightarrow> 'a list" where
  "subarray b i n = take n (drop i b)"

definition byte_at :: "buffer \<Rightarrow> nat \<Rightarrow> byte" where
  "byte_at b i = (if i < length b then b ! i else 0)"

text \<open>
  Node's checked reads: \<open>None\<close> is the \<open>RangeError\<close> (\<open>ERR_OUT_OF_RANGE\<close>) an
  out-of-range offset raises.
\<close>

definition readUInt16BE :: "buffer \<Rightarrow> nat \<Rightarrow> nat option" where
  "readUInt16BE b i = (if i + 2 \<le> length b then Some (be_nat (subarray b i 2)) else None)"

definition readUInt32BE :: "buffer \<Rightarrow> nat \<Rightarrow> nat option" where
  "readUInt32BE b i = (if i + 4 \<le> length b then Some (be_nat (subarray b i 4)) else None)"

definition readBigUInt64BE :: "buffer \<Rightarrow> nat \<Rightarrow> nat option" where
  "readBigUInt64BE b i = (if i + 8 \<le> length b then Some (be_nat (subarray b i 8)) else None)"

definition readUInt16LE :: "buffer \<Rightarrow> nat \<Rightarrow> nat option" where
  "readUInt16LE b i = (if i + 2 \<le> length b then Some (le_nat (subarray b i 2)) else None)"

definition readUInt32LE :: "buffer \<Rightarrow> nat \<Rightarrow> nat option" where
  "readUInt32LE b i = (if i + 4 \<le> length b then Some (le_nat (subarray b i 4)) else None)"

text \<open>The inverse: the \<open>k\<close>-byte big-endian rendering of a number.\<close>

fun be_bytes :: "nat \<Rightarrow> nat \<Rightarrow> buffer" where
  "be_bytes 0 n = []"
| "be_bytes (Suc k) n = be_bytes k (n div 256) @ [word_of_nat n]"

section \<open>JavaScript strings\<close>

text \<open>
  \<open>String.prototype.trim\<close> removes white space and line terminators at both ends;
  within the code units up to 255 these are tab, line feed, vertical tab, form feed,
  carriage return, space and no-break space. \<open>toLowerCase\<close> and \<open>toUpperCase\<close> map
  the letters of ASCII and Latin-1; upper-casing the sharp s gives two letters, and the
  two Latin-1 letters whose capitals lie beyond code unit 255 (micro sign, y with
  diaeresis) are left alone.
\<close>

definition js_space :: "char \<Rightarrow> bool" where
  "js_space c = (of_char c \<in> ({9, 10, 11, 12, 13, 32, 160} :: nat set))"

definition js_trim :: "string \<Rightarrow> string" where
  "js_trim s = rev (dropWhile js_space (rev (dropWhile js_space s)))"

definition lower_char :: "char \<Rightarrow> char" where
  "lower_char c =
     (let n = of_char c :: nat
      in if 65 \<le> n \<and> n \<le> 90 \<or> 192 \<le> n \<and> n \<le> 222 \<and> n \<noteq> 215 then char_of (n + 32) else c)"

definition js_lower :: "string \<Rightarrow> string" where
  "js_lower s = map lower_char s"

definition upper_char :: "char \<Rightarrow> string" where
  "upper_char c =
     (let n = of_char c :: nat
      in if 97 \<le> n \<and> n \<le> 122 \<or> 224 \<le> n \<and> n \<le> 254 \<and> n \<noteq> 247 then [char_of (n - 32)]
         else if n = 223 then ''SS'' else [c])"

definition js_upper :: "string \<Rightarrow> string" where
  "js_upper s = concat (map upper_char s)"

section \<open>Trimming\<close>

lemma js_trim_id: "s \<noteq> [] \<Longrightarrow> \<not> js_space (hd s) \<Longrightarrow> \<not> js_space (last s) \<Longrightarrow> js_trim s = s"
proof -
  assume s: "s \<noteq> []" "\<not> js_space (hd s)" "\<not> js_space (last s)"
  then have 1: "dropWhile js_space s = s" by (cases s) auto
  from s have "dropWhile js_space (rev s) = rev s" by (cases s rule: rev_cases) auto
  with 1 show ?thesis by (simp add: js_trim_def)
qed

lemma hd_dropWhile_not: "dropWhile P s \<noteq> [] \<Longrightarrow> \<not> P (hd (dropWhile P s))"
  by (rule hd_dropWhile)

lemma js_trim_ends: "js_trim s \<noteq> [] \<Longrightarrow> \<not> js_space (hd (js_trim s)) \<and> \<not> js_space (last (js_trim s))"
proof -
  assume ne: "js_trim s \<noteq> []"
  let ?a = "dropWhile js_space s"
  have la: "js_trim s = rev (dropWhile js_space (rev ?a))" by (simp add: js_trim_def)
  have "\<not> js_space (last (js_trim s))"
    using ne hd_dropWhile_not [of js_space "rev ?a"] by (simp add: la last_rev)
  moreover have "\<not> js_space (hd (js_trim s))"
  proof -
    have "rev ?a = takeWhile js_space (rev ?a) @ dropWhile js_space (rev ?a)" by simp
    then have split: "?a = js_trim s @ rev (takeWhile js_space (rev ?a))"
      unfolding la by (metis rev_append rev_rev_ident)
    with ne have "hd ?a = hd (js_trim s)" by (metis hd_append2)
    moreover have "?a \<noteq> []" using split ne by (metis Nil_is_append_conv)
    ultimately show ?thesis using hd_dropWhile_not [of js_space s] by simp
  qed
  ultimately show ?thesis by blast
qed

lemma js_trim_idem [simp]: "js_trim (js_trim s) = js_trim s"
proof (cases "js_trim s = []")
  case True
  then show ?thesis by (simp only: True) (simp add: js_trim_def)
next
  case False
  then show ?thesis using js_trim_ends [OF False] by (auto intro: js_trim_id)
qed

section \<open>Sets and joins\<close>

text \<open>\<open>[...new Set(xs)]\<close> keeps the first of equal elements.\<close>

definition js_set :: "'a list \<Rightarrow> 'a list" where
  "js_set xs = rev (remdups (rev xs))"

text \<open>\<open>xs.join(sep)\<close>\<close>

fun js_join :: "string \<Rightarrow> string list \<Rightarrow> string" where
  "js_join sep [] = []"
| "js_join sep [x] = x"
| "js_join sep (x # y # xs) = x @ sep @ js_join sep (y # xs)"

lemma set_js_set [simp]: "set (js_set xs) = set xs"
  by (simp add: js_set_def)

lemma distinct_js_set [simp]: "distinct (js_set xs)"
  by (simp add: js_set_def)

lemma js_set_id: "distinct xs \<Longrightarrow> js_set xs = xs"
  by (simp add: js_set_def distinct_remdups_id)

lemma length_js_set: "length (js_set xs) \<le> length xs"
  by (simp add: js_set_def length_remdups_leq [of "rev xs", simplified])

section \<open>Slices\<close>

lemma length_subarray [simp]: "length (subarray b i n) = min n (length b - i)"
  by (simp add: subarray_def)

lemma subarray_0 [simp]: "subarray b i 0 = []"
  by (simp add: subarray_def)

lemma subarray_whole [simp]: "subarray b 0 (length b) = b"
  by (simp add: subarray_def)

lemma subarray_append_left: "i + n \<le> length a \<Longrightarrow> subarray (a @ b) i n = subarray a i n"
  by (simp add: subarray_def)

lemma subarray_append_right: "subarray (a @ b) (length a + i) n = subarray b i n"
  by (simp add: subarray_def)

lemma subarray_drop: "subarray (drop k b) i n = subarray b (k + i) n"
  by (simp add: subarray_def add.commute)

lemma subarray_take: "i + n \<le> k \<Longrightarrow> subarray (take k b) i n = subarray b i n"
  by (simp add: subarray_def drop_take min_absorb1 take_all_iff min_def)

lemma subarray_subarray: "i + n \<le> m \<Longrightarrow> subarray (subarray b k m) i n = subarray b (k + i) n"
  by (simp add: subarray_def drop_take take_all_iff min_def add.commute)

lemma subarray_split: "subarray b i (m + n) = subarray b i m @ subarray b (i + m) n"
  by (simp add: subarray_def take_add add.commute)

lemma nth_subarray: "j < n \<Longrightarrow> i + j < length b \<Longrightarrow> subarray b i n ! j = b ! (i + j)"
  by (simp add: subarray_def)

lemma byte_at_subarray: "j < n \<Longrightarrow> byte_at (subarray b i n) j = byte_at b (i + j)"
  by (auto simp: byte_at_def nth_subarray)

lemma byte_at_drop: "byte_at (drop k b) i = byte_at b (k + i)"
  by (auto simp: byte_at_def)

lemma byte_at_take: "i < k \<Longrightarrow> byte_at (take k b) i = byte_at b i"
  by (auto simp: byte_at_def)

lemma byte_at_append: "byte_at (a @ b) i = (if i < length a then byte_at a i else byte_at b (i - length a))"
  by (auto simp: byte_at_def nth_append)

section \<open>Big-endian numbers\<close>

lemma be_nat_Nil [simp]: "be_nat [] = 0"
  by (simp add: be_nat_def)

lemma be_nat_snoc [simp]: "be_nat (bs @ [b]) = be_nat bs * 256 + unat b"
  by (simp add: be_nat_def)

lemma length_be_bytes [simp]: "length (be_bytes k n) = k"
  by (induction k n rule: be_bytes.induct) auto

lemma unat_byte_less [simp]: "unat (b :: byte) < 256"
  using unsigned_less [of b] by simp

lemma byte_256: "(256 :: byte) = 0"
  by simp

lemma be_nat_less: "be_nat bs < 256 ^ length bs"
proof (induction bs rule: rev_induct)
  case Nil
  show ?case by simp
next
  case (snoc b bs)
  have "be_nat bs * 256 + unat b < be_nat bs * 256 + 256"
    by simp
  also have "\<dots> = (be_nat bs + 1) * 256"
    by simp
  also have "\<dots> \<le> 256 ^ length bs * 256"
    using snoc.IH by (intro mult_right_mono) auto
  finally show ?case
    by (simp add: mult.commute)
qed

lemma be_nat_be_bytes: "n < 256 ^ k \<Longrightarrow> be_nat (be_bytes k n) = n"
proof (induction k arbitrary: n)
  case 0
  then show ?case by simp
next
  case (Suc k)
  then have "n div 256 < 256 ^ k"
    by (simp add: less_mult_imp_div_less mult.commute)
  then have "be_nat (be_bytes k (n div 256)) = n div 256"
    by (rule Suc.IH)
  then show ?case
    by (simp add: unat_of_nat)
qed

lemma be_bytes_be_nat: "length bs = k \<Longrightarrow> be_bytes k (be_nat bs) = bs"
proof (induction bs arbitrary: k rule: rev_induct)
  case Nil
  then show ?case by simp
next
  case (snoc b bs)
  then obtain j where k: "k = Suc j" "length bs = j"
    by auto
  have "(be_nat bs * 256 + unat b) div 256 = be_nat bs"
    using unat_byte_less [of b] by (simp add: div_add1_eq)
  moreover have "(word_of_nat (be_nat bs * 256 + unat b) :: byte) = b"
    by (simp only: of_nat_add of_nat_mult of_nat_numeral byte_256 mult_zero_right add_0 of_nat_unat ucast_id)
  ultimately show ?case
    using snoc.IH [OF k(2)] k(1) by simp
qed

section \<open>Lists of frames\<close>

lemma concat_eq_Nil_lengths: "concat fs = [] \<Longrightarrow> list_all (\<lambda>f. f \<noteq> []) fs \<Longrightarrow> fs = []"
  by (cases fs) auto

lemma take_drop_append: "n \<le> length b \<Longrightarrow> b = take n b @ drop n b"
  by simp

end
