(* ===== verification/Js_Number.thy ===== *)
theory Js_Number
  imports Prelude Complex_Main
begin

text \<open>
  \<open>Number(s)\<close> of a string, as the configuration and the timestamp code uses it: \<open>Some\<close> of the exact value where
  the result is finite, \<open>None\<close> for NaN and the infinities, which that code treats alike. The rounding
  of the exact value to a double is left out.
\<close>

section \<open>Digits\<close>

definition digit_value :: "char \<Rightarrow> nat option" where
  "digit_value c =
     (let n = of_char c :: nat
      in if 48 \<le> n \<and> n \<le> 57 then Some (n - 48)
         else if 97 \<le> n \<and> n \<le> 122 then Some (n - 87)
         else if 65 \<le> n \<and> n \<le> 90 then Some (n - 55) else None)"

definition is_digit :: "nat \<Rightarrow> char \<Rightarrow> bool" where
  "is_digit base c \<longleftrightarrow> (case digit_value c of None \<Rightarrow> False | Some v \<Rightarrow> v < base)"

definition digits_value :: "nat \<Rightarrow> string \<Rightarrow> nat" where
  "digits_value base s = foldl (\<lambda>acc c. acc * base + (case digit_value c of None \<Rightarrow> 0 | Some v \<Rightarrow> v)) 0 s"

definition radix_number :: "nat \<Rightarrow> string \<Rightarrow> rat option" where
  "radix_number base s = (if s \<noteq> [] \<and> list_all (is_digit base) s then Some (of_nat (digits_value base s)) else None)"

section \<open>Decimal literals\<close>

definition exponent_value :: "string \<Rightarrow> int option" where
  "exponent_value s =
     (case s of
        [] \<Rightarrow> None
      | c # r \<Rightarrow>
          if c = CHR ''+'' then (if r \<noteq> [] \<and> list_all (is_digit 10) r then Some (int (digits_value 10 r)) else None)
          else if c = CHR ''-'' then (if r \<noteq> [] \<and> list_all (is_digit 10) r then Some (- int (digits_value 10 r)) else None)
          else if list_all (is_digit 10) s then Some (int (digits_value 10 s)) else None)"

definition scale10 :: "rat \<Rightarrow> int \<Rightarrow> rat" where
  "scale10 m e = (if e \<ge> 0 then m * 10 ^ nat e else m / 10 ^ nat (- e))"

text \<open>\<open>digits [. digits] [e exponent]\<close> or \<open>. digits [e exponent]\<close>.\<close>

definition decimal_number :: "string \<Rightarrow> rat option" where
  "decimal_number s =
     (let whole = takeWhile (is_digit 10) s; rest = dropWhile (is_digit 10) s;
          (frac, tail) = (case rest of [] \<Rightarrow> ([], [])
             | c # r \<Rightarrow> if c = CHR ''.'' then (takeWhile (is_digit 10) r, dropWhile (is_digit 10) r) else ([], c # r));
          mantissa = of_nat (digits_value 10 (whole @ frac)) / 10 ^ length frac
      in if whole = [] \<and> frac = [] then None
         else case tail of [] \<Rightarrow> Some mantissa
                | c # r \<Rightarrow> if c = CHR ''e'' \<or> c = CHR ''E''
                           then map_option (scale10 mantissa) (exponent_value r) else None)"

definition js_number :: "string \<Rightarrow> rat option" where
  "js_number s =
     (case js_trim s of
        [] \<Rightarrow> Some 0
      | c # r \<Rightarrow>
          if c = CHR ''+'' then decimal_number r
          else if c = CHR ''-'' then map_option uminus (decimal_number r)
          else (case c # r of
                  z # x # ds \<Rightarrow>
                    if z = CHR ''0'' \<and> (x = CHR ''x'' \<or> x = CHR ''X'') then radix_number 16 ds
                    else if z = CHR ''0'' \<and> (x = CHR ''o'' \<or> x = CHR ''O'') then radix_number 8 ds
                    else if z = CHR ''0'' \<and> (x = CHR ''b'' \<or> x = CHR ''B'') then radix_number 2 ds
                    else decimal_number (c # r)
                | _ \<Rightarrow> decimal_number (c # r)))"

text \<open>\<open>Number.isInteger\<close> of a finite value, and the value.\<close>

definition rat_nat :: "rat \<Rightarrow> nat option" where
  "rat_nat r = (if r \<ge> 0 \<and> of_int \<lfloor>r\<rfloor> = r then Some (nat \<lfloor>r\<rfloor>) else None)"

text \<open>\<open>s.split(",")\<close>\<close>

fun split_comma :: "string \<Rightarrow> string list" where
  "split_comma [] = [[]]"
| "split_comma (c # s) =
     (if c = CHR '','' then [] # split_comma s
      else case split_comma s of [] \<Rightarrow> [[c]] | x # xs \<Rightarrow> (c # x) # xs)"

end
