(* ===== verification/Store.thy ===== *)
theory Store
  imports Prelude
begin

text \<open>
  The tables of prisma/schema.prisma that the modelled services read and write, and the
  queries of the Prisma client they use.

  A table is a list of rows in insertion order. A row is a record with the columns the
  modelled code reads or writes; the field prefix tells the table (\<open>m_\<close> Message, \<open>e_\<close>
  MessageStatusEvent, \<open>o_\<close> OutboxEvent, \<open>c_\<close> Contact, \<open>ce_\<close> ContactConsentEvent, \<open>s_\<close>
  WhatsAppPhoneNumber, \<open>t_\<close> MessageTemplate, \<open>v_\<close> Conversation, \<open>tm_\<close> InboxTeam, \<open>ta_\<close>
  ConversationTeamAssignment, \<open>a_\<close> AuditLog, \<open>w_\<close> WebhookEvent, \<open>g_\<close> ContactSegment, \<open>k_\<close> Campaign, \<open>r_\<close>
  CampaignRecipient, \<open>ag_\<close> InboxAgent, \<open>mb_\<close> InboxTeamMember, \<open>sk_\<close> InboxSkill, \<open>as_\<close> InboxAgentSkill, \<open>sr_\<close>
  ConversationSkillRequirement, \<open>n_\<close> ConversationNote, \<open>cr_\<close>
  InboxCannedResponse, \<open>ak_\<close> ApiKey, \<open>tn_\<close> Tenant). A nullable column is an
  option; a timestamp is a number of milliseconds; an id the database or \<open>randomUUID\<close>
  generates is an argument of the operation that inserts the row.

  The locale \<open>keyed_table\<close> is what the services rely on: reads and updates by a unique column.
\<close>

section \<open>Enumerations\<close>

datatype ConsentStatus = UNKNOWN | OPTED_IN | OPTED_OUT

datatype MessageDirection = INBOUND | OUTBOUND

datatype MessageTrafficClass = OTP | TRANSACTIONAL | MARKETING

datatype CampaignStatus = DRAFT | SCHEDULED | RUNNING | PAUSED | COMPLETED | CANCELLED | FAILED

datatype CampaignRecipientStatus = PENDING | PROCESSING | QUEUED | SKIPPED | FAILED | CANCELLED

datatype MessageStatus =
  CREATED | RECEIVED | QUEUED | PROCESSING | SUBMITTED | SENT | DELIVERED | READ | FAILED | CANCELLED | EXPIRED

datatype MessageType =
  TEXT | TEMPLATE | IMAGE | VIDEO | AUDIO | DOCUMENT | INTERACTIVE | LOCATION | CONTACT | UNKNOWN

datatype ConversationStatus = OPEN | PENDING | RESOLVED

datatype ConversationPriority = LOW | NORMAL | HIGH | URGENT

datatype InboxAgentPresenceStatus = AVAILABLE | AWAY | OFFLINE

datatype TenantStatus = ACTIVE | SUSPENDED

section \<open>JSON values\<close>

text \<open>
  A JSON value as \<open>JSON.parse\<close> gives it. A number is given by its text \<open>String(n)\<close>: the
  modelled code only asks whether a value is a number and prints it. An object is the list
  of its own enumerable properties in order.
\<close>

datatype json =
    JNull
  | JBool bool
  | JNum string
  | JStr string
  | JArr "json list"
  | JObj "(string \<times> json) list"

type_synonym uuid = string
type_synonym time = nat

text \<open>Reading property \<open>k\<close> of a value the code has checked to be a non-null object.\<close>

fun json_get :: "json \<Rightarrow> string \<Rightarrow> json option" where
  "json_get (JObj kvs) k = map_of kvs k"
| "json_get _ k = None"

text \<open>\<open>value && typeof value === "object" && !Array.isArray(value)\<close>\<close>

fun is_plain_object :: "json \<Rightarrow> bool" where
  "is_plain_object (JObj kvs) = True"
| "is_plain_object _ = False"

section \<open>Rows\<close>

record message_row =
  m_id :: uuid
  m_tenantId :: "uuid option"
  m_senderId :: "uuid option"
  m_conversationId :: "uuid option"
  m_direction :: MessageDirection
  m_trafficClass :: MessageTrafficClass
  m_type :: MessageType
  m_status :: MessageStatus
  m_to :: "string option"
  m_from :: "string option"
  m_providerMessageId :: "string option"
  m_providerTimestamp :: "time option"
  m_idempotencyKey :: "string option"
  m_payload :: json
  m_providerResponse :: "json option"
  m_errorCode :: "string option"
  m_errorMessage :: "string option"
  m_attemptCount :: nat
  m_lastAttemptAt :: "time option"
  m_processingLeaseUntil :: "time option"
  m_createdAt :: time
  m_submittedAt :: "time option"
  m_sentAt :: "time option"
  m_deliveredAt :: "time option"
  m_readAt :: "time option"
  m_failedAt :: "time option"

record status_event_row =
  e_messageId :: uuid
  e_status :: MessageStatus
  e_payload :: "json option"
  e_createdAt :: time

record outbox_row =
  o_id :: uuid
  o_aggregateType :: string
  o_aggregateId :: uuid
  o_eventType :: string
  o_payload :: json
  o_attempts :: nat
  o_nextAttemptAt :: time
  o_processingLeaseUntil :: "time option"
  o_lastError :: "string option"
  o_publishedAt :: "time option"
  o_createdAt :: time

record contact_row =
  c_id :: uuid
  c_tenantId :: uuid
  c_phone :: string
  c_name :: "string option"
  c_language :: "string option"
  c_timezone :: "string option"
  c_tags :: "string list"
  c_consentStatus :: ConsentStatus
  c_consentSource :: "string option"
  c_consentAt :: "time option"
  c_optedOutAt :: "time option"
  c_lastInboundAt :: "time option"
  c_serviceWindowExpiresAt :: "time option"
  c_metadata :: "json option"
  c_createdAt :: time

record consent_event_row =
  ce_id :: uuid
  ce_tenantId :: uuid
  ce_contactId :: uuid
  ce_status :: ConsentStatus
  ce_source :: string
  ce_evidence :: "json option"
  ce_occurredAt :: time
  ce_createdAt :: time

record sender_row =
  s_id :: uuid
  s_tenantId :: uuid
  s_providerPhoneNumberId :: string
  s_wabaId :: "string option"
  s_displayPhoneNumber :: "string option"
  s_verifiedName :: "string option"
  s_credentialRef :: string
  s_rateLimitPerSecond :: "int option"
  s_active :: bool
  s_isDefault :: bool
  s_createdAt :: time

record template_row =
  t_id :: uuid
  t_tenantId :: uuid
  t_wabaId :: string
  t_providerTemplateId :: string
  t_name :: string
  t_language :: string
  t_category :: "string option"
  t_status :: string
  t_components :: "json option"
  t_qualityScore :: "json option"
  t_rejectionReason :: "string option"
  t_providerPayload :: "json option"
  t_lastSyncedAt :: "time option"

record conversation_row =
  v_id :: uuid
  v_tenantId :: uuid
  v_contactId :: uuid
  v_senderId :: uuid
  v_assignedAgentId :: "uuid option"
  v_status :: ConversationStatus
  v_priority :: ConversationPriority
  v_unreadCount :: nat
  v_lastMessageAt :: time
  v_lastInboundAt :: "time option"
  v_lastOutboundAt :: "time option"
  v_resolvedAt :: "time option"
  v_responseSlaStartedAt :: "time option"
  v_responseSlaDueAt :: "time option"
  v_responseSlaRespondedAt :: "time option"
  v_responseSlaEscalatedAt :: "time option"

record team_row =
  tm_id :: uuid
  tm_tenantId :: uuid
  tm_name :: string
  tm_description :: "string option"
  tm_active :: bool
  tm_responseSlaMinutes :: "nat option"

record team_assignment_row =
  ta_tenantId :: uuid
  ta_conversationId :: uuid
  ta_teamId :: uuid

record agent_row =
  ag_id :: uuid
  ag_tenantId :: uuid
  ag_externalId :: "string option"
  ag_name :: string
  ag_email :: "string option"
  ag_active :: bool
  ag_presenceStatus :: InboxAgentPresenceStatus
  ag_presenceUpdatedAt :: time
  ag_maxConcurrentConversations :: "nat option"
  ag_metadata :: "json option"

record team_member_row =
  mb_tenantId :: uuid
  mb_teamId :: uuid
  mb_agentId :: uuid
  mb_createdAt :: time

record skill_row =
  sk_id :: uuid
  sk_tenantId :: uuid
  sk_name :: string
  sk_description :: "string option"
  sk_active :: bool

record agent_skill_row =
  as_tenantId :: uuid
  as_skillId :: uuid
  as_agentId :: uuid
  as_level :: nat
  as_createdAt :: time

record skill_requirement_row =
  sr_tenantId :: uuid
  sr_conversationId :: uuid
  sr_skillId :: uuid
  sr_minLevel :: nat

record note_row =
  n_id :: uuid
  n_tenantId :: uuid
  n_conversationId :: uuid
  n_createdByApiKeyId :: "uuid option"
  n_body :: string
  n_createdAt :: time

text \<open>A text kept as JavaScript has it, a list of UTF-16 code units.\<close>

type_synonym utf16 = "nat list"

record canned_row =
  cr_id :: uuid
  cr_tenantId :: uuid
  cr_shortcut :: utf16
  cr_title :: utf16
  cr_body :: utf16
  cr_active :: bool
  cr_revision :: nat
  cr_createdAt :: time

record api_key_row =
  ak_id :: uuid
  ak_tenantId :: uuid
  ak_name :: string
  ak_prefix :: string
  ak_keyHash :: string
  ak_scopes :: "string list"
  ak_active :: bool
  ak_lastUsedAt :: "time option"
  ak_createdAt :: time
  ak_revokedAt :: "time option"

record tenant_row =
  tn_id :: uuid
  tn_status :: TenantStatus

record audit_row =
  a_tenantId :: uuid
  a_actorApiKeyId :: uuid
  a_action :: string
  a_entityType :: string
  a_entityId :: "string option"
  a_metadata :: "json option"
  a_ipAddress :: "string option"
  a_userAgent :: "string option"

record webhook_event_row =
  w_id :: uuid
  w_payload :: json
  w_processed :: bool
  w_attemptCount :: nat
  w_nextAttemptAt :: time
  w_processingLeaseUntil :: "time option"
  w_lastError :: "string option"
  w_receivedAt :: time
  w_processedAt :: "time option"

record segment_row =
  g_id :: uuid
  g_tenantId :: uuid
  g_name :: string
  g_description :: "string option"
  g_definition :: json
  g_active :: bool
  g_createdAt :: time
  g_updatedAt :: time

record campaign_row =
  k_id :: uuid
  k_tenantId :: uuid
  k_senderId :: uuid
  k_templateId :: uuid
  k_name :: string
  k_status :: CampaignStatus
  k_audience :: json
  k_components :: "json option"
  k_personalizationEnabled :: bool
  k_scheduledAt :: "time option"
  k_snapshotAt :: "time option"
  k_startedAt :: "time option"
  k_completedAt :: "time option"
  k_cancelledAt :: "time option"
  k_failureReason :: "string option"
  k_totalRecipients :: nat
  k_queuedRecipients :: nat
  k_skippedRecipients :: nat
  k_failedRecipients :: nat
  k_cancelledRecipients :: nat
  k_createdAt :: time

record recipient_row =
  r_id :: uuid
  r_campaignId :: uuid
  r_contactId :: uuid
  r_messageId :: "uuid option"
  r_status :: CampaignRecipientStatus
  r_attemptCount :: nat
  r_nextAttemptAt :: time
  r_processingLeaseUntil :: "time option"
  r_lastError :: "string option"
  r_queuedAt :: "time option"
  r_createdAt :: time

record db =
  messages :: "message_row list"
  statusEvents :: "status_event_row list"
  outbox :: "outbox_row list"
  contacts :: "contact_row list"
  consentEvents :: "consent_event_row list"
  senders :: "sender_row list"
  templates :: "template_row list"
  conversations :: "conversation_row list"
  teams :: "team_row list"
  teamAssignments :: "team_assignment_row list"
  auditLogs :: "audit_row list"
  webhookEvents :: "webhook_event_row list"
  segments :: "segment_row list"
  campaigns :: "campaign_row list"
  campaignRecipients :: "recipient_row list"
  agents :: "agent_row list"
  teamMembers :: "team_member_row list"
  skills :: "skill_row list"
  agentSkills :: "agent_skill_row list"
  skillRequirements :: "skill_requirement_row list"
  conversationNotes :: "note_row list"
  cannedResponses :: "canned_row list"
  apiKeys :: "api_key_row list"
  tenants :: "tenant_row list"

definition empty_db :: db where
  "empty_db = \<lparr>messages = [], statusEvents = [], outbox = [], contacts = [], consentEvents = [], senders = [],
     templates = [], conversations = [], teams = [], teamAssignments = [],
     auditLogs = [], webhookEvents = [], segments = [], campaigns = [], campaignRecipients = [],
     agents = [], teamMembers = [], skills = [], agentSkills = [], skillRequirements = [], conversationNotes = [],
     cannedResponses = [], apiKeys = [], tenants = []\<rparr>"

section \<open>Queries\<close>

text \<open>
  \<open>findFirst\<close>/\<open>findUnique\<close> (\<open>None\<close> is null), \<open>findFirst\<close> with \<open>orderBy\<close> (the list of the
  matching rows, sorted), \<open>updateMany\<close>, and the number of rows it reports.
\<close>

definition findFirst :: "('r \<Rightarrow> bool) \<Rightarrow> 'r list \<Rightarrow> 'r option" where
  "findFirst p rows = List.find p rows"

definition findFirstBy :: "('r \<Rightarrow> 'k :: linorder) \<Rightarrow> ('r \<Rightarrow> bool) \<Rightarrow> 'r list \<Rightarrow> 'r option" where
  "findFirstBy k p rows = (case sort_key k (filter p rows) of [] \<Rightarrow> None | r # _ \<Rightarrow> Some r)"

definition updateMany :: "('r \<Rightarrow> bool) \<Rightarrow> ('r \<Rightarrow> 'r) \<Rightarrow> 'r list \<Rightarrow> 'r list" where
  "updateMany p f rows = map (\<lambda>r. if p r then f r else r) rows"

definition countWhere :: "('r \<Rightarrow> bool) \<Rightarrow> 'r list \<Rightarrow> nat" where
  "countWhere p rows = length (filter p rows)"

lemma findFirst_None [db_simps]: "findFirst p rows = None \<longleftrightarrow> (\<forall>r \<in> set rows. \<not> p r)"
  by (auto simp: findFirst_def find_None_iff)

lemma findFirst_SomeD: "findFirst p rows = Some r \<Longrightarrow> r \<in> set rows \<and> p r"
  by (auto simp: findFirst_def find_Some_iff)

lemma findFirst_key:
  "distinct (map key rows) \<Longrightarrow> r \<in> set rows \<Longrightarrow> q r \<Longrightarrow> findFirst (\<lambda>x. key x = key r \<and> q x) rows = Some r"
  by (induction rows) (force simp: findFirst_def)+

lemma filter_key:
  assumes "distinct (map key rows)" and "r \<in> set rows" and "q r"
  shows "filter (\<lambda>x. q x \<and> key x = key r) rows = [r]"
  using assms
proof (induction rows)
  case (Cons a rows)
  have "key x \<noteq> key a" if "x \<in> set rows" for x using Cons.prems(1) that by (auto simp: image_iff)
  then show ?case using Cons by (auto simp: filter_empty_conv)
qed simp

lemma findFirst_append:
  "findFirst p (xs @ ys) = (case findFirst p xs of Some r \<Rightarrow> Some r | None \<Rightarrow> findFirst p ys)"
  by (induction xs) (auto simp: findFirst_def)

lemma findFirst_Cons [simp]: "findFirst p (x # xs) = (if p x then Some x else findFirst p xs)"
  by (simp add: findFirst_def)

lemma findFirst_Nil [simp]: "findFirst p [] = None"
  by (simp add: findFirst_def)

lemma findFirstBy_None: "findFirstBy k p rows = None \<longleftrightarrow> (\<forall>r \<in> set rows. \<not> p r)"
proof -
  have "sort_key k (filter p rows) = [] \<longleftrightarrow> filter p rows = []"
    by (metis length_0_conv length_sort)
  then show ?thesis by (auto simp: findFirstBy_def filter_empty_conv split: list.splits)
qed

lemma findFirstBy_SomeD:
  assumes "findFirstBy k p rows = Some r"
  shows "r \<in> set rows \<and> p r \<and> (\<forall>r' \<in> set rows. p r' \<longrightarrow> k r \<le> k r')"
proof -
  obtain rest where s: "sort_key k (filter p rows) = r # rest"
    using assms by (auto simp: findFirstBy_def split: list.splits)
  have set: "set (r # rest) = set (filter p rows)"
    unfolding s [symmetric] by simp
  have "sorted (map k (r # rest))"
    unfolding s [symmetric] by simp
  then have "\<forall>x \<in> set (r # rest). k r \<le> k x" by auto
  then have "\<forall>x \<in> set (filter p rows). k r \<le> k x" unfolding set .
  moreover have "r \<in> set (filter p rows)" unfolding set [symmetric] by simp
  ultimately show ?thesis by simp
qed

lemma set_updateMany: "set (updateMany p f rows) = (\<lambda>r. if p r then f r else r) ` set rows"
  by (simp add: updateMany_def)

lemma findFirst_updateMany:
  "(\<And>r. p (f r) = p r) \<Longrightarrow> findFirst p (updateMany q f rows) = map_option (\<lambda>r. if q r then f r else r) (findFirst p rows)"
  by (induction rows) (auto simp: updateMany_def)

lemma length_updateMany [simp]: "length (updateMany p f rows) = length rows"
  by (simp add: updateMany_def)

lemma updateMany_append [simp]: "updateMany p f (xs @ ys) = updateMany p f xs @ updateMany p f ys"
  by (simp add: updateMany_def)

lemma updateMany_none: "\<forall>r \<in> set rows. \<not> p r \<Longrightarrow> updateMany p f rows = rows"
  by (induction rows) (auto simp: updateMany_def)

lemma map_updateMany: "(\<And>r. g (f r) = g r) \<Longrightarrow> map g (updateMany p f rows) = map g rows"
  by (induction rows) (auto simp: updateMany_def)

lemma list_all_updateMany:
  "list_all P rows \<Longrightarrow> (\<And>r. P r \<Longrightarrow> p r \<Longrightarrow> P (f r)) \<Longrightarrow> list_all P (updateMany p f rows)"
  by (induction rows) (auto simp: updateMany_def)

lemma countWhere_le: "countWhere p rows \<le> length rows"
  by (simp add: countWhere_def)

lemma countWhere_updateMany:
  "(\<And>r. p r \<Longrightarrow> \<not> q (f r)) \<Longrightarrow> (\<And>r. p r \<Longrightarrow> q r) \<Longrightarrow> countWhere q (updateMany p f rows) + countWhere p rows = countWhere q rows"
  by (induction rows) (auto simp: updateMany_def countWhere_def)

section \<open>Tables with a unique column\<close>

locale keyed_table =
  fixes key :: "'r \<Rightarrow> 'k"
    and fetch :: "'k \<Rightarrow> 'r list \<Rightarrow> 'r option"
    and modify :: "'k \<Rightarrow> ('r \<Rightarrow> 'r) \<Rightarrow> 'r list \<Rightarrow> 'r list"
  assumes fetch_law: "fetch k rows = findFirst (\<lambda>r. key r = k) rows"
    and modify_law: "modify k f rows = updateMany (\<lambda>r. key r = k) f rows"
begin

lemma fetch_SomeD: "fetch k rows = Some r \<Longrightarrow> r \<in> set rows \<and> key r = k"
  unfolding fetch_law by (rule findFirst_SomeD)

lemma fetch_None: "fetch k rows = None \<longleftrightarrow> k \<notin> key ` set rows"
  by (auto simp: fetch_law findFirst_None)

lemma fetch_modify:
  assumes "\<And>r. key (f r) = key r"
  shows "fetch k (modify j f rows) = (if k = j then map_option f (fetch k rows) else fetch k rows)"
  unfolding fetch_law modify_law using assms by (induction rows) (auto simp: updateMany_def)

lemma fetch_updateMany:
  assumes "\<And>r. key (f r) = key r"
  shows "fetch k (updateMany p f rows) = map_option (\<lambda>r. if p r then f r else r) (fetch k rows)"
  unfolding fetch_law using assms by (induction rows) (auto simp: updateMany_def)

lemma fetch_updateMany_other:
  assumes "\<And>r. key (f r) = key r" and "\<And>r. r \<in> set rows \<Longrightarrow> key r = k \<Longrightarrow> \<not> p r"
  shows "fetch k (updateMany p f rows) = fetch k rows"
  unfolding fetch_law using assms by (induction rows) (auto simp: updateMany_def)

lemma keys_modify: "(\<And>r. key (f r) = key r) \<Longrightarrow> map key (modify k f rows) = map key rows"
  unfolding modify_law by (rule map_updateMany)

lemma modify_absent: "k \<notin> key ` set rows \<Longrightarrow> modify k f rows = rows"
  unfolding modify_law by (rule updateMany_none) auto

lemma fetch_unique:
  "distinct (map key rows) \<Longrightarrow> r \<in> set rows \<Longrightarrow> fetch (key r) rows = Some r"
  unfolding fetch_law by (induction rows) force+

lemma fetch_snoc: "fetch k (rows @ [r]) = (case fetch k rows of Some x \<Rightarrow> Some x | None \<Rightarrow> if key r = k then Some r else None)"
  unfolding fetch_law findFirst_append by (simp split: option.splits)

end

definition findMessage :: "uuid \<Rightarrow> message_row list \<Rightarrow> message_row option" where
  "findMessage k rows = findFirst (\<lambda>r. m_id r = k) rows"

definition updateMessage :: "uuid \<Rightarrow> (message_row \<Rightarrow> message_row) \<Rightarrow> message_row list \<Rightarrow> message_row list" where
  "updateMessage k f rows = updateMany (\<lambda>r. m_id r = k) f rows"

interpretation message_table: keyed_table m_id findMessage updateMessage
  by unfold_locales (simp_all add: findMessage_def updateMessage_def)

definition findOutbox :: "uuid \<Rightarrow> outbox_row list \<Rightarrow> outbox_row option" where
  "findOutbox k rows = findFirst (\<lambda>r. o_id r = k) rows"

definition updateOutbox :: "uuid \<Rightarrow> (outbox_row \<Rightarrow> outbox_row) \<Rightarrow> outbox_row list \<Rightarrow> outbox_row list" where
  "updateOutbox k f rows = updateMany (\<lambda>r. o_id r = k) f rows"

interpretation outbox_table: keyed_table o_id findOutbox updateOutbox
  by unfold_locales (simp_all add: findOutbox_def updateOutbox_def)

definition findContact :: "uuid \<Rightarrow> contact_row list \<Rightarrow> contact_row option" where
  "findContact k rows = findFirst (\<lambda>r. c_id r = k) rows"

definition updateContact :: "uuid \<Rightarrow> (contact_row \<Rightarrow> contact_row) \<Rightarrow> contact_row list \<Rightarrow> contact_row list" where
  "updateContact k f rows = updateMany (\<lambda>r. c_id r = k) f rows"

interpretation contact_table: keyed_table c_id findContact updateContact
  by unfold_locales (simp_all add: findContact_def updateContact_def)

definition findSender :: "uuid \<Rightarrow> sender_row list \<Rightarrow> sender_row option" where
  "findSender k rows = findFirst (\<lambda>r. s_id r = k) rows"

definition updateSender :: "uuid \<Rightarrow> (sender_row \<Rightarrow> sender_row) \<Rightarrow> sender_row list \<Rightarrow> sender_row list" where
  "updateSender k f rows = updateMany (\<lambda>r. s_id r = k) f rows"

interpretation sender_table: keyed_table s_id findSender updateSender
  by unfold_locales (simp_all add: findSender_def updateSender_def)

definition findTemplate :: "uuid \<Rightarrow> template_row list \<Rightarrow> template_row option" where
  "findTemplate k rows = findFirst (\<lambda>r. t_id r = k) rows"

definition updateTemplate :: "uuid \<Rightarrow> (template_row \<Rightarrow> template_row) \<Rightarrow> template_row list \<Rightarrow> template_row list" where
  "updateTemplate k f rows = updateMany (\<lambda>r. t_id r = k) f rows"

interpretation template_table: keyed_table t_id findTemplate updateTemplate
  by unfold_locales (simp_all add: findTemplate_def updateTemplate_def)

definition findWebhookEvent :: "uuid \<Rightarrow> webhook_event_row list \<Rightarrow> webhook_event_row option" where
  "findWebhookEvent k rows = findFirst (\<lambda>r. w_id r = k) rows"

definition updateWebhookEvent :: "uuid \<Rightarrow> (webhook_event_row \<Rightarrow> webhook_event_row) \<Rightarrow> webhook_event_row list \<Rightarrow> webhook_event_row list" where
  "updateWebhookEvent k f rows = updateMany (\<lambda>r. w_id r = k) f rows"

interpretation webhook_table: keyed_table w_id findWebhookEvent updateWebhookEvent
  by unfold_locales (simp_all add: findWebhookEvent_def updateWebhookEvent_def)

definition findSegment :: "uuid \<Rightarrow> segment_row list \<Rightarrow> segment_row option" where
  "findSegment k rows = findFirst (\<lambda>r. g_id r = k) rows"

definition updateSegment :: "uuid \<Rightarrow> (segment_row \<Rightarrow> segment_row) \<Rightarrow> segment_row list \<Rightarrow> segment_row list" where
  "updateSegment k f rows = updateMany (\<lambda>r. g_id r = k) f rows"

interpretation segment_table: keyed_table g_id findSegment updateSegment
  by unfold_locales (simp_all add: findSegment_def updateSegment_def)

definition findCampaign :: "uuid \<Rightarrow> campaign_row list \<Rightarrow> campaign_row option" where
  "findCampaign k rows = findFirst (\<lambda>r. k_id r = k) rows"

definition updateCampaign :: "uuid \<Rightarrow> (campaign_row \<Rightarrow> campaign_row) \<Rightarrow> campaign_row list \<Rightarrow> campaign_row list" where
  "updateCampaign k f rows = updateMany (\<lambda>r. k_id r = k) f rows"

interpretation campaign_table: keyed_table k_id findCampaign updateCampaign
  by unfold_locales (simp_all add: findCampaign_def updateCampaign_def)

definition findRecipient :: "uuid \<Rightarrow> recipient_row list \<Rightarrow> recipient_row option" where
  "findRecipient k rows = findFirst (\<lambda>r. r_id r = k) rows"

definition updateRecipient :: "uuid \<Rightarrow> (recipient_row \<Rightarrow> recipient_row) \<Rightarrow> recipient_row list \<Rightarrow> recipient_row list" where
  "updateRecipient k f rows = updateMany (\<lambda>r. r_id r = k) f rows"

interpretation recipient_table: keyed_table r_id findRecipient updateRecipient
  by unfold_locales (simp_all add: findRecipient_def updateRecipient_def)

definition findConversationRow :: "uuid \<Rightarrow> conversation_row list \<Rightarrow> conversation_row option" where
  "findConversationRow k rows = findFirst (\<lambda>r. v_id r = k) rows"

definition updateConversationRow :: "uuid \<Rightarrow> (conversation_row \<Rightarrow> conversation_row) \<Rightarrow> conversation_row list \<Rightarrow> conversation_row list" where
  "updateConversationRow k f rows = updateMany (\<lambda>r. v_id r = k) f rows"

interpretation conversation_table: keyed_table v_id findConversationRow updateConversationRow
  by unfold_locales (simp_all add: findConversationRow_def updateConversationRow_def)

definition findTeamRow :: "uuid \<Rightarrow> team_row list \<Rightarrow> team_row option" where
  "findTeamRow k rows = findFirst (\<lambda>r. tm_id r = k) rows"

definition updateTeamRow :: "uuid \<Rightarrow> (team_row \<Rightarrow> team_row) \<Rightarrow> team_row list \<Rightarrow> team_row list" where
  "updateTeamRow k f rows = updateMany (\<lambda>r. tm_id r = k) f rows"

interpretation team_table: keyed_table tm_id findTeamRow updateTeamRow
  by unfold_locales (simp_all add: findTeamRow_def updateTeamRow_def)

definition findAgentRow :: "uuid \<Rightarrow> agent_row list \<Rightarrow> agent_row option" where
  "findAgentRow k rows = findFirst (\<lambda>r. ag_id r = k) rows"

definition updateAgentRow :: "uuid \<Rightarrow> (agent_row \<Rightarrow> agent_row) \<Rightarrow> agent_row list \<Rightarrow> agent_row list" where
  "updateAgentRow k f rows = updateMany (\<lambda>r. ag_id r = k) f rows"

interpretation agent_table: keyed_table ag_id findAgentRow updateAgentRow
  by unfold_locales (simp_all add: findAgentRow_def updateAgentRow_def)

definition findSkillRow :: "uuid \<Rightarrow> skill_row list \<Rightarrow> skill_row option" where
  "findSkillRow k rows = findFirst (\<lambda>r. sk_id r = k) rows"

definition updateSkillRow :: "uuid \<Rightarrow> (skill_row \<Rightarrow> skill_row) \<Rightarrow> skill_row list \<Rightarrow> skill_row list" where
  "updateSkillRow k f rows = updateMany (\<lambda>r. sk_id r = k) f rows"

interpretation skill_table: keyed_table sk_id findSkillRow updateSkillRow
  by unfold_locales (simp_all add: findSkillRow_def updateSkillRow_def)

section \<open>Status events\<close>

definition add_event :: "uuid \<Rightarrow> MessageStatus \<Rightarrow> json option \<Rightarrow> time \<Rightarrow> db \<Rightarrow> db" where
  "add_event k st payload now d = d\<lparr>statusEvents := statusEvents d @ [\<lparr>e_messageId = k, e_status = st, e_payload = payload, e_createdAt = now\<rparr>]\<rparr>"

lemma messages_add_event [simp]: "messages (add_event k st p now d) = messages d"
  by (simp add: add_event_def)

section \<open>Request fields\<close>

text \<open>
  An optional field of a request body: \<open>@IsOptional()\<close> of class-validator accepts a missing
  field and an explicit null. Prisma leaves a column alone for undefined and clears it for
  null; null for a column that is not nullable is a validation error of the client.
\<close>

datatype 'a field = Undefined | Null | Val 'a

fun set_nullable :: "'a field \<Rightarrow> 'a option \<Rightarrow> 'a option" where
  "set_nullable Undefined old = old"
| "set_nullable Null old = None"
| "set_nullable (Val v) old = Some v"

fun set_required :: "'a field \<Rightarrow> 'a \<Rightarrow> 'a" where
  "set_required (Val v) old = v"
| "set_required _ old = old"

text \<open>\<open>f ?? d\<close>\<close>

fun coalesce :: "'a field \<Rightarrow> 'a \<Rightarrow> 'a" where
  "coalesce (Val v) d = v"
| "coalesce _ d = d"

text \<open>\<open>value || undefined\<close> for a string or a list that an empty value drops\<close>

definition nonempty :: "'a list \<Rightarrow> 'a list option" where
  "nonempty xs = (if xs = [] then None else Some xs)"

section \<open>Decimal numbers\<close>

fun nat_string :: "nat \<Rightarrow> string" where
  "nat_string n = (if n < 10 then [char_of (48 + n)] else nat_string (n div 10) @ [char_of (48 + n mod 10)])"

declare nat_string.simps [simp del]

definition int_string :: "int \<Rightarrow> string" where
  "int_string i = (if i < 0 then CHR ''-'' # nat_string (nat (- i)) else nat_string (nat i))"

section \<open>Errors\<close>

text \<open>The exceptions the modelled services throw: the HTTP exceptions by name, and the others.\<close>

datatype error =
    BadRequest string
  | Unauthorized string
  | Forbidden string
  | NotFound string
  | Conflict string
  | Unprocessable string
  | Error string

definition error_message :: "error \<Rightarrow> string" where
  "error_message e = (case e of BadRequest m \<Rightarrow> m | Unauthorized m \<Rightarrow> m | Forbidden m \<Rightarrow> m | NotFound m \<Rightarrow> m | Conflict m \<Rightarrow> m | Unprocessable m \<Rightarrow> m | Error m \<Rightarrow> m)"

text \<open>
  A method called on null, Prisma's refusal of null for a column that is not nullable, and its error for a
  foreign key without a row.
\<close>

definition TYPE_ERROR :: error where
  "TYPE_ERROR = Error ''TypeError''"

definition VALIDATION_ERROR :: error where
  "VALIDATION_ERROR = Error ''PrismaClientValidationError''"

definition FOREIGN_KEY_VIOLATION :: error where
  "FOREIGN_KEY_VIOLATION = Error ''P2003''"

text \<open>Sequencing: an \<open>await\<close> of a call that may throw.\<close>

fun bindE :: "'e + 'a \<Rightarrow> ('a \<Rightarrow> 'e + 'b) \<Rightarrow> 'e + 'b" where
  "bindE (Inl e) f = Inl e"
| "bindE (Inr x) f = f x"

fun throwIf :: "bool \<Rightarrow> 'e \<Rightarrow> 'e + unit" where
  "throwIf b e = (if b then Inl e else Inr ())"

fun throwSome :: "'e option \<Rightarrow> 'e + unit" where
  "throwSome None = Inr ()"
| "throwSome (Some e) = Inl e"

lemma bindE_Inr [db_simps]: "bindE m f = Inr y \<longleftrightarrow> (\<exists>x. m = Inr x \<and> f x = Inr y)"
  by (cases m) auto

lemma throwSome_Inr [db_simps]: "throwSome e = Inr u \<longleftrightarrow> e = None"
  by (cases e) auto

lemma throwIf_Inr [db_simps]: "throwIf b e = Inr u \<longleftrightarrow> \<not> b"
  by auto

end
