(* ===== verification/Senders.thy ===== *)
theory Senders
  imports Store "HOL-Library.List_Lexorder" "HOL-Library.Char_ord"
begin

text \<open>
  src/src/phone-numbers/phone-numbers.service.ts (the WhatsApp senders of a tenant) and the
  audit rows it writes (src/src/audit/audit-write.util.ts). The main result: registering and
  changing senders keeps exactly one default sender among a tenant's active senders, and an
  account (WABA) with one tenant, so that a message without a sender always finds one.
\<close>

section \<open>Audit rows\<close>

record MutationActor =
  ma_tenantId :: uuid
  ma_apiKeyId :: "uuid option"

record AuditRequestContext =
  ac_ipAddress :: "string option"
  ac_userAgent :: "string option"

record ApiPrincipal =
  ap_tenantId :: uuid
  ap_apiKeyId :: uuid
  ap_scopes :: "string list"

fun mutationActor :: "uuid + ApiPrincipal \<Rightarrow> MutationActor" where
  "mutationActor (Inl tenantId) = \<lparr>ma_tenantId = tenantId, ma_apiKeyId = None\<rparr>"
| "mutationActor (Inr p) = \<lparr>ma_tenantId = ap_tenantId p, ma_apiKeyId = Some (ap_apiKeyId p)\<rparr>"

definition auditLogData ::
  "MutationActor \<Rightarrow> AuditRequestContext option \<Rightarrow> string \<Rightarrow> string \<Rightarrow> string option \<Rightarrow> json option \<Rightarrow> audit_row option" where
  "auditLogData actor ctx action entityType entityId metadata =
     (case ma_apiKeyId actor of
        None \<Rightarrow> None
      | Some key \<Rightarrow> if key = [] then None else
          Some \<lparr>a_tenantId = ma_tenantId actor, a_actorApiKeyId = key, a_action = action, a_entityType = entityType,
            a_entityId = entityId, a_metadata = metadata,
            a_ipAddress = (case ctx of None \<Rightarrow> None | Some c \<Rightarrow> ac_ipAddress c),
            a_userAgent = (case ctx of None \<Rightarrow> None | Some c \<Rightarrow> ac_userAgent c)\<rparr>)"

text \<open>\<open>changedFields\<close>: the defined keys of a request, renamed and sorted.\<close>

definition changedFields :: "(string \<times> bool) list \<Rightarrow> (string \<rightharpoonup> string) \<Rightarrow> string list" where
  "changedFields source aliases =
     sort (map (\<lambda>k. case aliases k of Some a \<Rightarrow> a | None \<Rightarrow> k) (map fst (filter snd source)))"

fun is_defined :: "'a field \<Rightarrow> bool" where
  "is_defined Undefined = False"
| "is_defined _ = True"

section \<open>Requests\<close>

record create_sender_dto =
  cs_providerPhoneNumberId :: string
  cs_wabaId :: "string field"
  cs_displayPhoneNumber :: "string field"
  cs_verifiedName :: "string field"
  cs_credentialRef :: string
  cs_rateLimitPerSecond :: "int field"
  cs_isDefault :: "bool field"

record update_sender_dto =
  us_wabaId :: "string field"
  us_displayPhoneNumber :: "string field"
  us_verifiedName :: "string field"
  us_credentialRef :: "string field"
  us_rateLimitPerSecond :: "int field"
  us_active :: "bool field"
  us_isDefault :: "bool field"

section \<open>Operations\<close>

text \<open>
  The unique indexes of the table: the provider's phone number id, and at most one active
  default per tenant (migration 20260908210000).
\<close>

definition sender_indexes_ok :: "sender_row list \<Rightarrow> bool" where
  "sender_indexes_ok rows \<longleftrightarrow>
     distinct (map s_providerPhoneNumberId rows) \<and>
     distinct (map s_tenantId (filter (\<lambda>r. s_active r \<and> s_isDefault r) rows))"

definition assertWabaOwnership :: "db \<Rightarrow> uuid \<Rightarrow> string field \<Rightarrow> error option" where
  "assertWabaOwnership d tenantId wabaId =
     (case wabaId of
        Val w \<Rightarrow> if w = [] then None
          else (case findFirst (\<lambda>r. s_wabaId r = Some w \<and> s_tenantId r \<noteq> tenantId) (senders d) of
                  None \<Rightarrow> None
                | Some _ \<Rightarrow> Some (Conflict ''This WABA is already associated with another tenant''))
      | _ \<Rightarrow> None)"

definition json_opt_int :: "int option \<Rightarrow> json" where
  "json_opt_int v = (case v of None \<Rightarrow> JNull | Some i \<Rightarrow> JNum (int_string i))"

definition waba_configured :: "sender_row \<Rightarrow> bool" where
  "waba_configured r \<longleftrightarrow> s_wabaId r \<noteq> None \<and> s_wabaId r \<noteq> Some []"

definition add_audit :: "audit_row option \<Rightarrow> db \<Rightarrow> db" where
  "add_audit a d = (case a of None \<Rightarrow> d | Some r \<Rightarrow> d\<lparr>auditLogs := auditLogs d @ [r]\<rparr>)"

definition created_sender :: "db \<Rightarrow> uuid \<Rightarrow> create_sender_dto \<Rightarrow> uuid \<Rightarrow> time \<Rightarrow> sender_row" where
  "created_sender d tenantId dto newId now =
     (let existingActive = findFirst (\<lambda>r. s_tenantId r = tenantId \<and> s_active r) (senders d)
      in \<lparr>s_id = newId, s_tenantId = tenantId, s_providerPhoneNumberId = cs_providerPhoneNumberId dto,
        s_wabaId = set_nullable (cs_wabaId dto) None, s_displayPhoneNumber = set_nullable (cs_displayPhoneNumber dto) None,
        s_verifiedName = set_nullable (cs_verifiedName dto) None, s_credentialRef = cs_credentialRef dto,
        s_rateLimitPerSecond = set_nullable (cs_rateLimitPerSecond dto) None, s_active = True,
        s_isDefault = (existingActive = None \<or> cs_isDefault dto = Val True), s_createdAt = now\<rparr>)"

definition clear_defaults :: "uuid \<Rightarrow> sender_row list \<Rightarrow> sender_row list" where
  "clear_defaults tenantId rows =
     updateMany (\<lambda>r. s_tenantId r = tenantId \<and> s_isDefault r) (\<lambda>r. r\<lparr>s_isDefault := False\<rparr>) rows"

definition created_audit :: "MutationActor \<Rightarrow> AuditRequestContext option \<Rightarrow> sender_row \<Rightarrow> audit_row option" where
  "created_audit actor ctx created =
     auditLogData actor ctx ''whatsapp_phone_number.created'' ''WhatsAppPhoneNumber'' (Some (s_id created))
       (Some (JObj [(''wabaConfigured'', JBool (waba_configured created)), (''credentialConfigured'', JBool True),
         (''rateLimitPerSecond'', json_opt_int (s_rateLimitPerSecond created)), (''active'', JBool (s_active created)),
         (''isDefault'', JBool (s_isDefault created))]))"

definition PhoneNumbersService_create ::
  "db \<Rightarrow> uuid + ApiPrincipal \<Rightarrow> create_sender_dto \<Rightarrow> AuditRequestContext option \<Rightarrow> uuid \<Rightarrow> time \<Rightarrow> error + sender_row \<times> db" where
  "PhoneNumbersService_create d who dto ctx newId now =
     (let actor = mutationActor who; tenantId = ma_tenantId actor
      in case findFirst (\<lambda>r. s_providerPhoneNumberId r = cs_providerPhoneNumberId dto) (senders d) of
        Some _ \<Rightarrow> Inl (Conflict ''This Meta phone_number_id is already registered'')
      | None \<Rightarrow>
        (case assertWabaOwnership d tenantId (cs_wabaId dto) of
           Some e \<Rightarrow> Inl e
         | None \<Rightarrow>
           (let created = created_sender d tenantId dto newId now;
                rows = (if s_isDefault created then clear_defaults tenantId (senders d) else senders d)
            in if \<not> sender_indexes_ok (rows @ [created])
               then Inl (Conflict ''Unable to register WhatsApp phone number because a unique sender constraint was violated'')
               else Inr (created, add_audit (created_audit actor ctx created) (d\<lparr>senders := rows @ [created]\<rparr>)))))"

definition sender_changes :: "update_sender_dto \<Rightarrow> sender_row \<Rightarrow> sender_row" where
  "sender_changes dto r = r\<lparr>
     s_wabaId := set_nullable (us_wabaId dto) (s_wabaId r),
     s_displayPhoneNumber := set_nullable (us_displayPhoneNumber dto) (s_displayPhoneNumber r),
     s_verifiedName := set_nullable (us_verifiedName dto) (s_verifiedName r),
     s_credentialRef := set_required (us_credentialRef dto) (s_credentialRef r),
     s_rateLimitPerSecond := set_nullable (us_rateLimitPerSecond dto) (s_rateLimitPerSecond r),
     s_active := set_required (us_active dto) (s_active r),
     s_isDefault := (case us_isDefault dto of Val b \<Rightarrow> b
        | _ \<Rightarrow> if us_active dto = Val False then False else s_isDefault r)\<rparr>"

definition update_sender_keys :: "update_sender_dto \<Rightarrow> (string \<times> bool) list" where
  "update_sender_keys dto =
     [(''wabaId'', is_defined (us_wabaId dto)), (''displayPhoneNumber'', is_defined (us_displayPhoneNumber dto)),
      (''verifiedName'', is_defined (us_verifiedName dto)), (''credentialRef'', is_defined (us_credentialRef dto)),
      (''rateLimitPerSecond'', is_defined (us_rateLimitPerSecond dto)), (''active'', is_defined (us_active dto)),
      (''isDefault'', is_defined (us_isDefault dto))]"

text \<open>The rows the transaction of \<open>update\<close> leaves, step by step.\<close>

definition clear_other_defaults :: "uuid \<Rightarrow> uuid \<Rightarrow> sender_row list \<Rightarrow> sender_row list" where
  "clear_other_defaults tenantId k rows =
     updateMany (\<lambda>r. s_tenantId r = tenantId \<and> s_id r \<noteq> k \<and> s_isDefault r) (\<lambda>r. r\<lparr>s_isDefault := False\<rparr>) rows"

definition restore_default :: "uuid \<Rightarrow> sender_row list \<Rightarrow> sender_row list" where
  "restore_default tenantId rows =
     (case findFirst (\<lambda>r. s_tenantId r = tenantId \<and> s_active r \<and> s_isDefault r) rows of
        Some _ \<Rightarrow> rows
      | None \<Rightarrow>
          (case findFirstBy s_createdAt (\<lambda>r. s_tenantId r = tenantId \<and> s_active r) rows of
             None \<Rightarrow> rows
           | Some fallback \<Rightarrow> updateSender (s_id fallback) (\<lambda>r. r\<lparr>s_isDefault := True\<rparr>) rows))"

definition updated_audit ::
  "MutationActor \<Rightarrow> AuditRequestContext option \<Rightarrow> update_sender_dto \<Rightarrow> sender_row \<Rightarrow> audit_row option" where
  "updated_audit actor ctx dto finalState =
     auditLogData actor ctx ''whatsapp_phone_number.updated'' ''WhatsAppPhoneNumber'' (Some (s_id finalState))
       (Some (JObj [(''changedFields'', JArr (map JStr (changedFields (update_sender_keys dto) [''credentialRef'' \<mapsto> ''credential'']))),
         (''credentialChanged'', JBool (is_defined (us_credentialRef dto))),
         (''wabaConfigured'', JBool (waba_configured finalState)),
         (''rateLimitPerSecond'', json_opt_int (s_rateLimitPerSecond finalState)),
         (''active'', JBool (s_active finalState)), (''isDefault'', JBool (s_isDefault finalState))]))"

definition willBeActive :: "update_sender_dto \<Rightarrow> sender_row \<Rightarrow> bool" where
  "willBeActive dto existing = coalesce (us_active dto) (s_active existing)"

definition requestedDefault :: "update_sender_dto \<Rightarrow> sender_row \<Rightarrow> bool" where
  "requestedDefault dto existing =
     coalesce (us_isDefault dto) (if us_active dto = Val False then False else s_isDefault existing)"

definition changed_rows :: "uuid \<Rightarrow> uuid \<Rightarrow> update_sender_dto \<Rightarrow> sender_row \<Rightarrow> sender_row list \<Rightarrow> sender_row list" where
  "changed_rows tenantId k dto existing rows =
     updateSender k (sender_changes dto)
       (if requestedDefault dto existing \<and> willBeActive dto existing then clear_other_defaults tenantId k rows else rows)"

definition PhoneNumbersService_update ::
  "db \<Rightarrow> uuid + ApiPrincipal \<Rightarrow> uuid \<Rightarrow> update_sender_dto \<Rightarrow> AuditRequestContext option \<Rightarrow> error + sender_row \<times> db" where
  "PhoneNumbersService_update d who k dto ctx =
     (let actor = mutationActor who; tenantId = ma_tenantId actor
      in case assertWabaOwnership d tenantId (us_wabaId dto) of
           Some e \<Rightarrow> Inl e
         | None \<Rightarrow>
           (case findFirst (\<lambda>r. s_id r = k \<and> s_tenantId r = tenantId) (senders d) of
              None \<Rightarrow> Inl (NotFound ''WhatsApp phone number not found'')
            | Some existing \<Rightarrow>
                if us_isDefault dto = Val True \<and> \<not> willBeActive dto existing
                then Inl (BadRequest ''An inactive WhatsApp phone number cannot be the default sender'')
                else if us_active dto = Null \<or> us_credentialRef dto = Null then Inl (Error ''PrismaClientValidationError'')
                else
                  let rows = changed_rows tenantId k dto existing (senders d);
                      rows' = restore_default tenantId rows
                  in if \<not> sender_indexes_ok rows \<or> \<not> sender_indexes_ok rows' then Inl (Error ''P2002'')
                     else case findSender k rows' of
                            None \<Rightarrow> Inl (Error ''P2025'')
                          | Some finalState \<Rightarrow>
                              Inr (finalState, add_audit (updated_audit actor ctx dto finalState) (d\<lparr>senders := rows'\<rparr>))))"

definition resolveForTenant :: "db \<Rightarrow> uuid \<Rightarrow> uuid option \<Rightarrow> error + sender_row" where
  "resolveForTenant d tenantId senderId =
     (case (case senderId of
              Some k \<Rightarrow>
                if k \<noteq> [] then findFirst (\<lambda>r. s_id r = k \<and> s_tenantId r = tenantId \<and> s_active r) (senders d)
                else findFirstBy (\<lambda>r. if s_isDefault r then 0 else Suc 0) (\<lambda>r. s_tenantId r = tenantId \<and> s_active r) (sort_key s_createdAt (senders d))
            | None \<Rightarrow>
                findFirstBy (\<lambda>r. if s_isDefault r then 0 else Suc 0) (\<lambda>r. s_tenantId r = tenantId \<and> s_active r) (sort_key s_createdAt (senders d))) of
        None \<Rightarrow> Inl (Unprocessable ''No active WhatsApp sender is configured for this tenant'')
      | Some sender \<Rightarrow> Inr sender)"

definition resolveWabaForTenant :: "db \<Rightarrow> uuid \<Rightarrow> uuid option \<Rightarrow> error + sender_row \<times> string" where
  "resolveWabaForTenant d tenantId senderId =
     (case resolveForTenant d tenantId senderId of
        Inl e \<Rightarrow> Inl e
      | Inr sender \<Rightarrow>
          (case s_wabaId sender of
             None \<Rightarrow> Inl (Unprocessable ''The selected WhatsApp sender is missing its WABA ID'')
           | Some w \<Rightarrow> if w = [] then Inl (Unprocessable ''The selected WhatsApp sender is missing its WABA ID'')
                       else Inr (sender, w)))"

definition findActiveById :: "db \<Rightarrow> uuid \<Rightarrow> error + sender_row" where
  "findActiveById d k =
     (case findFirst (\<lambda>r. s_id r = k \<and> s_active r) (senders d) of
        None \<Rightarrow> Inl (Unprocessable ''Configured WhatsApp sender is missing or inactive'')
      | Some r \<Rightarrow> Inr r)"

definition findByProviderPhoneNumberId :: "db \<Rightarrow> string \<Rightarrow> error + sender_row" where
  "findByProviderPhoneNumberId d p =
     (case findFirst (\<lambda>r. s_providerPhoneNumberId r = p) (senders d) of
        None \<Rightarrow> Inl (Unprocessable (''Unconfigured Meta phone_number_id '' @ p))
      | Some r \<Rightarrow> Inr r)"

definition findTenantIdByWabaId :: "db \<Rightarrow> string \<Rightarrow> error + uuid" where
  "findTenantIdByWabaId d w =
     (let owners = rev (remdups (rev (map s_tenantId (filter (\<lambda>r. s_wabaId r = Some w) (senders d)))))
      in if length owners = 0 then Inl (Unprocessable (''Unconfigured WABA '' @ w))
         else if length owners > 1 then Inl (Unprocessable (''WABA '' @ w @ '' is ambiguously assigned to multiple tenants''))
         else Inr (hd owners))"

section \<open>The invariant\<close>

definition defaults_ok :: "sender_row list \<Rightarrow> bool" where
  "defaults_ok rows \<longleftrightarrow>
     (\<forall>r \<in> set rows. s_isDefault r \<longrightarrow> s_active r) \<and>
     (\<forall>r \<in> set rows. \<forall>r' \<in> set rows. s_isDefault r \<and> s_isDefault r' \<and> s_tenantId r = s_tenantId r' \<longrightarrow> r = r')"

definition waba_ok :: "sender_row list \<Rightarrow> bool" where
  "waba_ok rows \<longleftrightarrow>
     (\<forall>r \<in> set rows. \<forall>r' \<in> set rows. s_wabaId r = s_wabaId r' \<and> waba_configured r \<longrightarrow> s_tenantId r = s_tenantId r')"

definition has_default :: "sender_row list \<Rightarrow> uuid \<Rightarrow> bool" where
  "has_default rows tenantId \<longleftrightarrow>
     (\<exists>r \<in> set rows. s_tenantId r = tenantId \<and> s_active r) \<longrightarrow> (\<exists>r \<in> set rows. s_tenantId r = tenantId \<and> s_isDefault r)"

definition senders_ok :: "sender_row list \<Rightarrow> bool" where
  "senders_ok rows \<longleftrightarrow> distinct (map s_id rows) \<and> distinct (map s_providerPhoneNumberId rows) \<and>
     defaults_ok rows \<and> waba_ok rows \<and> (\<forall>tenantId. has_default rows tenantId)"

lemma defaults_active: "defaults_ok rows \<Longrightarrow> r \<in> set rows \<Longrightarrow> s_isDefault r \<Longrightarrow> s_active r"
  unfolding defaults_ok_def by blast

lemma defaults_unique:
  "defaults_ok rows \<Longrightarrow> r \<in> set rows \<Longrightarrow> r' \<in> set rows \<Longrightarrow> s_isDefault r \<Longrightarrow> s_isDefault r' \<Longrightarrow>
     s_tenantId r = s_tenantId r' \<Longrightarrow> r = r'"
  unfolding defaults_ok_def by blast

lemma waba_tenant:
  "waba_ok rows \<Longrightarrow> r \<in> set rows \<Longrightarrow> r' \<in> set rows \<Longrightarrow> s_wabaId r = s_wabaId r' \<Longrightarrow> waba_configured r \<Longrightarrow>
     s_tenantId r = s_tenantId r'"
  unfolding waba_ok_def by blast

lemma indexes_from_defaults:
  assumes "distinct rows" and "distinct (map s_providerPhoneNumberId rows)" and "defaults_ok rows"
  shows "sender_indexes_ok rows"
  using assms unfolding sender_indexes_ok_def defaults_ok_def
  by (auto simp: distinct_map intro!: inj_onI)

lemma clear_other_defaults_keys [simp]:
  "map s_id (clear_other_defaults t k rows) = map s_id rows"
  "map s_providerPhoneNumberId (clear_other_defaults t k rows) = map s_providerPhoneNumberId rows"
  unfolding clear_other_defaults_def by (auto intro: map_updateMany)

lemma sender_changes_keys [simp]:
  "s_id (sender_changes dto r) = s_id r" "s_tenantId (sender_changes dto r) = s_tenantId r"
  "s_providerPhoneNumberId (sender_changes dto r) = s_providerPhoneNumberId r"
  by (simp_all add: sender_changes_def)

lemma restore_default_keys:
  "map s_id (restore_default t rows) = map s_id rows"
  "map s_providerPhoneNumberId (restore_default t rows) = map s_providerPhoneNumberId rows"
  unfolding restore_default_def updateSender_def by (auto intro: map_updateMany split: option.splits)

lemma same_id: "distinct (map s_id rows) \<Longrightarrow> r \<in> set rows \<Longrightarrow> r' \<in> set rows \<Longrightarrow> s_id r = s_id r' \<Longrightarrow> r = r'"
  by (auto simp: distinct_map dest: inj_onD)

text \<open>The fallback gives the tenant its default back and disturbs nobody else.\<close>

lemma restore_default_ok:
  assumes "distinct (map s_id rows)" and "defaults_ok rows" and "waba_ok rows"
    and "\<And>t'. t' \<noteq> t \<Longrightarrow> has_default rows t'"
  shows "defaults_ok (restore_default t rows) \<and> waba_ok (restore_default t rows) \<and> (\<forall>t'. has_default (restore_default t rows) t')"
proof (cases "findFirst (\<lambda>r. s_tenantId r = t \<and> s_active r \<and> s_isDefault r) rows")
  case (Some r)
  then have "r \<in> set rows \<and> s_tenantId r = t \<and> s_isDefault r" using findFirst_SomeD by fastforce
  then have "has_default rows t'" for t' using assms(4) [of t'] by (cases "t' = t") (auto simp: has_default_def)
  with Some assms show ?thesis by (simp add: restore_default_def)
next
  case None
  then have none: "\<forall>r \<in> set rows. s_tenantId r = t \<longrightarrow> \<not> s_isDefault r"
    using assms(2) by (auto simp: findFirst_None defaults_ok_def)
  show ?thesis
  proof (cases "findFirstBy s_createdAt (\<lambda>r. s_tenantId r = t \<and> s_active r) rows")
    case None
    with assms have "has_default rows t'" for t'
      by (cases "t' = t") (auto simp: findFirstBy_None has_default_def)
    with \<open>findFirst _ rows = None\<close> None assms show ?thesis by (simp add: restore_default_def)
  next
    case (Some f)
    then have f: "f \<in> set rows" "s_tenantId f = t" "s_active f" using findFirstBy_SomeD by fastforce+
    let ?g = "\<lambda>r. if r = f then r\<lparr>s_isDefault := True\<rparr> else r"
    have "restore_default t rows = map ?g rows"
      using \<open>findFirst _ rows = None\<close> Some f(1) same_id [OF assms(1) _ f(1)]
      by (auto simp: restore_default_def updateSender_def updateMany_def)
    then have s: "set (restore_default t rows) = ?g ` set rows" by simp
    have "defaults_ok (restore_default t rows)"
      using assms(2) none f unfolding defaults_ok_def s by auto
    moreover have "waba_ok (restore_default t rows)"
      using assms(3) f unfolding waba_ok_def s by (auto simp: waba_configured_def)
    moreover have "has_default (restore_default t rows) t'" for t'
      using assms(4) [of t'] f unfolding has_default_def s by (cases "t' = t") (auto 0 3)
    ultimately show ?thesis by blast
  qed
qed

lemma assertWabaOwnership_None:
  "assertWabaOwnership d t w = None \<Longrightarrow> w = Val v \<Longrightarrow> v \<noteq> [] \<Longrightarrow> r \<in> set (senders d) \<Longrightarrow> s_wabaId r = Some v \<Longrightarrow> s_tenantId r = t"
  by (auto simp: assertWabaOwnership_def findFirst_None split: option.splits if_splits)

text \<open>
  Both operations write one row \<open>n\<close> of the tenant and, when it is to be the default, demote the
  tenant's other rows.
\<close>

definition demote :: "bool \<Rightarrow> uuid \<Rightarrow> sender_row \<Rightarrow> sender_row" where
  "demote c t r = (if c \<and> s_tenantId r = t \<and> s_isDefault r then r\<lparr>s_isDefault := False\<rparr> else r)"

lemma demote_simps [simp]:
  "s_tenantId (demote c t r) = s_tenantId r" "s_wabaId (demote c t r) = s_wabaId r" "s_active (demote c t r) = s_active r"
  "s_id (demote c t r) = s_id r" "s_providerPhoneNumberId (demote c t r) = s_providerPhoneNumberId r"
  "waba_configured (demote c t r) = waba_configured r"
  "s_isDefault (demote c t r) \<longleftrightarrow> s_isDefault r \<and> \<not> (c \<and> s_tenantId r = t)"
  by (auto simp: demote_def waba_configured_def)

lemma demote_id: "\<not> (c \<and> s_tenantId r = t) \<Longrightarrow> demote c t r = r"
  by (auto simp: demote_def)

lemma write_defaults_ok:
  assumes "defaults_ok rows" and "S \<subseteq> set rows" and rows': "set rows' = insert n (demote c t ` S)"
    and n: "s_tenantId n = t" "s_isDefault n \<longrightarrow> s_active n \<and> c"
  shows "defaults_ok rows'"
  unfolding defaults_ok_def
proof (intro conjI ballI impI)
  fix r assume "r \<in> set rows'" "s_isDefault r"
  then show "s_active r" using assms(2) n defaults_active [OF assms(1)] unfolding rows' by auto
next
  fix r r' assume r: "r \<in> set rows'" "r' \<in> set rows'" "s_isDefault r \<and> s_isDefault r' \<and> s_tenantId r = s_tenantId r'"
  have old: "r \<in> set rows \<and> \<not> (c \<and> s_tenantId r = t)" if "r \<in> demote c t ` S" "s_isDefault r" for r
    using that assms(2) demote_id by auto
  consider "r = n" "r' = n" | "r = n" "r' \<in> demote c t ` S" | "r \<in> demote c t ` S" "r' = n"
    | "r \<in> demote c t ` S" "r' \<in> demote c t ` S"
    using r unfolding rows' by blast
  then show "r = r'"
    by cases (use r old n defaults_unique [OF assms(1)] in \<open>auto\<close>)
qed

lemma write_waba_ok:
  assumes "waba_ok rows" and "S \<subseteq> set rows" and rows': "set rows' = insert n (demote c t ` S)" and "s_tenantId n = t"
    and "\<And>r. r \<in> set rows \<Longrightarrow> s_wabaId r = s_wabaId n \<Longrightarrow> waba_configured n \<Longrightarrow> s_tenantId r = t"
  shows "waba_ok rows'"
proof -
  have w: "waba_configured r \<longleftrightarrow> waba_configured r'" if "s_wabaId r = s_wabaId r'" for r r'
    using that by (simp add: waba_configured_def)
  have old: "\<exists>x \<in> set rows. s_wabaId r = s_wabaId x \<and> s_tenantId r = s_tenantId x" if "r \<in> demote c t ` S" for r
    using that assms(2) by auto
  have new: "s_tenantId r = t" if "r \<in> demote c t ` S" "s_wabaId r = s_wabaId n" "waba_configured n" for r
  proof -
    from old [OF that(1)] obtain x where x: "x \<in> set rows" "s_wabaId r = s_wabaId x" "s_tenantId r = s_tenantId x" by blast
    then show ?thesis using assms(5) [OF x(1)] that(2,3) by simp
  qed
  have both: "s_tenantId r = s_tenantId r'"
    if "r \<in> demote c t ` S" "r' \<in> demote c t ` S" "s_wabaId r = s_wabaId r'" "waba_configured r" for r r'
  proof -
    from old [OF that(1)] obtain x where x: "x \<in> set rows" "s_wabaId r = s_wabaId x" "s_tenantId r = s_tenantId x" by blast
    from old [OF that(2)] obtain y where y: "y \<in> set rows" "s_wabaId r' = s_wabaId y" "s_tenantId r' = s_tenantId y" by blast
    show ?thesis using waba_tenant [OF assms(1) x(1) y(1)] x y that(3,4) w [of r x] by simp
  qed
  show ?thesis
    unfolding waba_ok_def
  proof (intro ballI impI)
    fix r r' assume "r \<in> set rows'" "r' \<in> set rows'" and e: "s_wabaId r = s_wabaId r' \<and> waba_configured r"
    then consider "r = n" "r' = n" | "r = n" "r' \<in> demote c t ` S" | "r \<in> demote c t ` S" "r' = n"
      | "r \<in> demote c t ` S" "r' \<in> demote c t ` S"
      unfolding rows' by blast
    then show "s_tenantId r = s_tenantId r'"
    proof cases
      case 2
      then show ?thesis using new [of r'] e assms(4) by metis
    next
      case 3
      then show ?thesis using new [of r] e w [of r n] assms(4) by metis
    next
      case 4
      then show ?thesis using both e by blast
    qed simp
  qed
qed

lemma write_has_default:
  assumes "has_default rows t'" and "t' \<noteq> t" and "\<And>r. r \<in> set rows \<Longrightarrow> s_tenantId r \<noteq> t \<Longrightarrow> r \<in> S"
    and "S \<subseteq> set rows" and rows': "set rows' = insert n (demote c t ` S)" and "s_tenantId n = t"
  shows "has_default rows' t'"
  unfolding has_default_def
proof
  assume "\<exists>r \<in> set rows'. s_tenantId r = t' \<and> s_active r"
  then have "\<exists>r \<in> set rows. s_tenantId r = t' \<and> s_active r"
    using assms(2,4,6) unfolding rows' by auto
  then obtain r where r: "r \<in> set rows" "s_tenantId r = t'" "s_isDefault r"
    using assms(1) by (auto simp: has_default_def)
  then have "r \<in> S" "demote c t r = r" using assms(2,3) demote_id by auto
  then show "\<exists>r \<in> set rows'. s_tenantId r = t' \<and> s_isDefault r"
    using r unfolding rows' by (metis image_eqI insertCI)
qed

lemma changed_rows_ok:
  assumes ok: "senders_ok (senders d)" and ex: "existing \<in> set (senders d)" "s_id existing = k" "s_tenantId existing = t"
    and waba: "assertWabaOwnership d t (us_wabaId dto) = None"
    and active: "us_active dto \<noteq> Null"
    and inactive: "\<not> (us_isDefault dto = Val True \<and> \<not> willBeActive dto existing)"
    and rows2: "rows2 = changed_rows t k dto existing (senders d)"
  shows "defaults_ok rows2" and "waba_ok rows2" and "t' \<noteq> t \<Longrightarrow> has_default rows2 t'"
proof -
  let ?new = "sender_changes dto existing"
  let ?S = "set (senders d) - {existing}"
  let ?c = "requestedDefault dto existing \<and> willBeActive dto existing"
  have dist: "distinct (map s_id (senders d))" and def: "defaults_ok (senders d)" and wb: "waba_ok (senders d)"
    and has: "has_default (senders d) t'"
    using ok by (auto simp: senders_ok_def)
  have idk: "s_id r = k \<longleftrightarrow> r = existing" if "r \<in> set (senders d)" for r
    using same_id [OF dist that ex(1)] ex(2) by auto
  have "rows2 = map (\<lambda>r. if r = existing then ?new else demote ?c t r) (senders d)"
    unfolding rows2 changed_rows_def updateSender_def clear_other_defaults_def updateMany_def by (auto simp: idk demote_def)
  then have s: "set rows2 = insert ?new (demote ?c t ` ?S)" using ex(1) by auto
  have n1: "s_tenantId ?new = t" using ex(3) by simp
  have n2: "s_isDefault ?new \<longrightarrow> s_active ?new \<and> ?c"
    using active inactive defaults_active [OF def ex(1)] unfolding requestedDefault_def willBeActive_def
    by (cases "us_active dto"; cases "us_isDefault dto") (auto simp: sender_changes_def split: if_splits)
  show "defaults_ok rows2" by (rule write_defaults_ok [OF def _ s n1 n2]) blast
  have "s_wabaId ?new = s_wabaId existing \<or> \<not> waba_configured ?new \<or> (\<exists>v. us_wabaId dto = Val v \<and> v \<noteq> [] \<and> s_wabaId ?new = Some v)"
    by (cases "us_wabaId dto") (auto simp: sender_changes_def waba_configured_def)
  then have w: "s_tenantId r = t" if "r \<in> set (senders d)" "s_wabaId r = s_wabaId ?new" "waba_configured ?new" for r
    using that assertWabaOwnership_None [OF waba] waba_tenant [OF wb that(1) ex(1)] ex(3) by (auto simp: waba_configured_def)
  show "waba_ok rows2" by (rule write_waba_ok [OF wb _ s n1 w]) auto
  show "has_default rows2 t'" if "t' \<noteq> t"
    by (rule write_has_default [OF has that _ _ s n1]) (use ex(3) in auto)
qed

lemma updated_rows_ok:
  assumes "senders_ok (senders d)" and "existing \<in> set (senders d)" "s_id existing = k" "s_tenantId existing = t"
    and "assertWabaOwnership d t (us_wabaId dto) = None" and "us_active dto \<noteq> Null"
    and "\<not> (us_isDefault dto = Val True \<and> \<not> willBeActive dto existing)"
    and rows2: "rows2 = changed_rows t k dto existing (senders d)"
  shows "sender_indexes_ok rows2" and "sender_indexes_ok (restore_default t rows2)"
    and "senders_ok (restore_default t rows2)" and "\<exists>r. findSender k (restore_default t rows2) = Some r"
proof -
  note ch = changed_rows_ok [OF assms(1-8)]
  have keys: "map s_id rows2 = map s_id (senders d)" "map s_providerPhoneNumberId rows2 = map s_providerPhoneNumberId (senders d)"
    by (simp_all add: rows2 changed_rows_def updateSender_def map_updateMany)
  have ids: "distinct (map s_id rows2)" and prov: "distinct (map s_providerPhoneNumberId rows2)"
    using assms(1) keys by (auto simp: senders_ok_def)
  note rd = restore_default_ok [OF ids ch(1,2) ch(3)]
  show "sender_indexes_ok rows2"
    using ids prov ch(1) by (auto intro: indexes_from_defaults simp: distinct_map)
  show "senders_ok (restore_default t rows2)"
    using rd ids prov by (simp add: senders_ok_def restore_default_keys)
  then show "sender_indexes_ok (restore_default t rows2)"
    by (auto simp: senders_ok_def distinct_map intro: indexes_from_defaults)
  have "k \<in> set (map s_id (restore_default t rows2))"
    using assms(2,3) unfolding restore_default_keys keys by auto
  then show "\<exists>r. findSender k (restore_default t rows2) = Some r"
    using sender_table.fetch_None [of k "restore_default t rows2"] by auto
qed

lemma created_rows_ok:
  assumes ok: "senders_ok (senders d)" and fresh: "newId \<notin> s_id ` set (senders d)"
    and prov: "findFirst (\<lambda>r. s_providerPhoneNumberId r = cs_providerPhoneNumberId dto) (senders d) = None"
    and waba: "assertWabaOwnership d t (cs_wabaId dto) = None"
    and cr: "created = created_sender d t dto newId now"
    and rows: "rows = (if s_isDefault created then clear_defaults t (senders d) else senders d)"
  shows "senders_ok (rows @ [created])" and "sender_indexes_ok (rows @ [created])"
proof -
  have created: "s_id created = newId" "s_tenantId created = t" "s_active created"
      "s_isDefault created = ((\<forall>r \<in> set (senders d). \<not> (s_tenantId r = t \<and> s_active r)) \<or> cs_isDefault dto = Val True)"
      "s_wabaId created = set_nullable (cs_wabaId dto) None" "s_providerPhoneNumberId created = cs_providerPhoneNumberId dto"
    by (simp_all add: cr created_sender_def findFirst_None)
  have rows': "rows = map (demote (s_isDefault created) t) (senders d)"
    unfolding rows clear_defaults_def updateMany_def demote_def by auto
  then have s: "set (rows @ [created]) = insert created (demote (s_isDefault created) t ` set (senders d))" by auto
  have def: "defaults_ok (senders d)" and wb: "waba_ok (senders d)" and has: "has_default (senders d) t'" for t'
    using ok by (auto simp: senders_ok_def)
  have keys: "map s_id rows = map s_id (senders d)" "map s_providerPhoneNumberId rows = map s_providerPhoneNumberId (senders d)"
    by (auto simp: rows')
  have "created \<notin> set rows" using fresh created(1) keys(1) by (metis imageI list.set_map)
  have 1: "distinct (map s_id (rows @ [created]))" "distinct (map s_providerPhoneNumberId (rows @ [created]))"
    using ok fresh prov created(1,6) unfolding map_append keys by (auto simp: senders_ok_def findFirst_None)
  have 2: "defaults_ok (rows @ [created])"
    by (rule write_defaults_ok [OF def subset_refl s created(2)]) (use created(3) in simp)
  have w: "s_tenantId r = t" if "r \<in> set (senders d)" "s_wabaId r = s_wabaId created" "waba_configured created" for r
    using that assertWabaOwnership_None [OF waba, of _ r] created(5)
    by (cases "cs_wabaId dto") (auto simp: waba_configured_def)
  have 3: "waba_ok (rows @ [created])"
    by (rule write_waba_ok [OF wb subset_refl s created(2) w])
  have 4: "has_default (rows @ [created]) t'" for t'
  proof (cases "t' = t")
    case False
    then show ?thesis by (rule write_has_default [OF has _ _ subset_refl s created(2)])
  next
    case True
    show ?thesis
    proof (cases "s_isDefault created")
      case False
      then have "rows = senders d" by (simp add: rows)
      with False has [of t] created(4) True show ?thesis by (auto simp: has_default_def)
    qed (use True created(2) in \<open>auto simp: has_default_def\<close>)
  qed
  show "senders_ok (rows @ [created])" using 1 2 3 4 by (simp add: senders_ok_def)
  show "sender_indexes_ok (rows @ [created])" using 1 2 distinct_map by (blast intro: indexes_from_defaults)
qed

lemma senders_add_audit [simp]: "senders (add_audit a d) = senders d"
  by (simp add: add_audit_def split: option.splits)

lemma assertWabaOwnership_error:
  "assertWabaOwnership d t w = Some e \<Longrightarrow> e = Conflict ''This WABA is already associated with another tenant''"
  by (auto simp: assertWabaOwnership_def split: field.splits option.splits if_splits)

section \<open>Properties\<close>

text \<open>
  \<open>PhoneNumbersService.create\<close>: registering a sender under a fresh id keeps one active default
  per tenant and one tenant per WABA, and never trips the unique indexes.
\<close>

theorem PhoneNumbersService_create_ok:
  assumes "senders_ok (senders d)" and "newId \<notin> s_id ` set (senders d)"
  shows "(case PhoneNumbersService_create d who dto ctx newId now of
      Inl e \<Rightarrow> e \<noteq> Conflict ''Unable to register WhatsApp phone number because a unique sender constraint was violated''
    | Inr (created, d') \<Rightarrow> senders_ok (senders d') \<and> created \<in> set (senders d') \<and> s_active created)"
proof (cases "findFirst (\<lambda>r. s_providerPhoneNumberId r = cs_providerPhoneNumberId dto) (senders d) = None \<and>
    assertWabaOwnership d (ma_tenantId (mutationActor who)) (cs_wabaId dto) = None")
  case False
  then show ?thesis
    by (auto simp: PhoneNumbersService_create_def Let_def dest: assertWabaOwnership_error split: option.splits)
next
  case True
  let ?c = "created_sender d (ma_tenantId (mutationActor who)) dto newId now"
  have "s_active ?c" by (simp add: created_sender_def Let_def)
  with created_rows_ok [OF assms conjunct1 [OF True] conjunct2 [OF True] refl refl, of now] True show ?thesis
    by (simp add: PhoneNumbersService_create_def Let_def)
qed


text \<open>
  \<open>PhoneNumbersService.resolveForTenant\<close>: without a requested sender it returns the tenant's
  default sender, and it fails only when the tenant has no active sender at all.
\<close>

theorem resolveForTenant_default:
  assumes "senders_ok (senders d)"
  shows "(resolveForTenant d t None = Inr r \<longleftrightarrow> r \<in> set (senders d) \<and> s_tenantId r = t \<and> s_isDefault r) \<and>
    ((\<exists>e. resolveForTenant d t None = Inl e) \<longleftrightarrow> (\<forall>r \<in> set (senders d). s_tenantId r = t \<longrightarrow> \<not> s_active r))"
proof -
  let ?k = "\<lambda>r. if s_isDefault r then 0 else Suc 0"
  let ?p = "\<lambda>r. s_tenantId r = t \<and> s_active r"
  let ?q = "findFirstBy ?k ?p (sort_key s_createdAt (senders d))"
  have has: "has_default (senders d) t" and def: "defaults_ok (senders d)" using assms by (auto simp: senders_ok_def)
  have q: "x \<in> set (senders d) \<and> s_tenantId x = t \<and> s_isDefault x" if "?q = Some x" for x
  proof -
    from findFirstBy_SomeD [OF that] have x: "x \<in> set (senders d)" "?p x" and le: "\<And>y. y \<in> set (senders d) \<Longrightarrow> ?p y \<Longrightarrow> ?k x \<le> ?k y"
      by auto
    from has x obtain y where "y \<in> set (senders d)" "s_tenantId y = t" "s_isDefault y" by (auto simp: has_default_def)
    with le [of y] defaults_active [OF def, of y] x show ?thesis by (auto split: if_splits)
  qed
  have n: "?q = None \<longleftrightarrow> (\<forall>r \<in> set (senders d). s_tenantId r = t \<longrightarrow> \<not> s_active r)"
    by (auto simp: findFirstBy_None)
  show ?thesis
  proof (cases ?q)
    case None
    with n defaults_active [OF def] show ?thesis by (auto simp: resolveForTenant_def)
  next
    case (Some x)
    with q [OF Some] n defaults_unique [OF def, of x r] show ?thesis by (auto simp: resolveForTenant_def)
  qed
qed

text \<open>A tenant with a default sender and a second active one.\<close>

definition sample_sender :: "string \<Rightarrow> string \<Rightarrow> bool \<Rightarrow> time \<Rightarrow> sender_row" where
  "sample_sender k p b n = \<lparr>s_id = k, s_tenantId = ''t1'', s_providerPhoneNumberId = p, s_wabaId = Some ''900'',
     s_displayPhoneNumber = None, s_verifiedName = None, s_credentialRef = ''env:TOKEN'', s_rateLimitPerSecond = Some 10,
     s_active = True, s_isDefault = b, s_createdAt = n\<rparr>"

definition sample_senders_db :: db where
  "sample_senders_db = empty_db\<lparr>senders := [sample_sender ''s1'' ''111'' True 1, sample_sender ''s2'' ''222'' False 2]\<rparr>"

lemma sample_senders_ok: "senders_ok (senders sample_senders_db)"
  by (simp add: senders_ok_def defaults_ok_def waba_ok_def has_default_def sample_senders_db_def sample_sender_def)

definition sample_deactivation :: update_sender_dto where
  "sample_deactivation = \<lparr>us_wabaId = Undefined, us_displayPhoneNumber = Undefined, us_verifiedName = Undefined,
     us_credentialRef = Undefined, us_rateLimitPerSecond = Undefined, us_active = Val False, us_isDefault = Undefined\<rparr>"

definition sample_registration :: create_sender_dto where
  "sample_registration = \<lparr>cs_providerPhoneNumberId = ''333'', cs_wabaId = Val ''900'', cs_displayPhoneNumber = Undefined,
     cs_verifiedName = Undefined, cs_credentialRef = ''env:TOKEN'', cs_rateLimitPerSecond = Undefined, cs_isDefault = Val True\<rparr>"

theorem PhoneNumbersService_create_ok_witness:
  "\<exists>r d'. PhoneNumbersService_create sample_senders_db (Inl ''t1'') sample_registration None ''s3'' 3 = Inr (r, d') \<and>
     senders_ok (senders d') \<and> s_isDefault r \<and> length (senders d') = 3"
proof -
  have fresh: "''s3'' \<notin> s_id ` set (senders sample_senders_db)"
    by (simp add: sample_senders_db_def sample_sender_def)
  have "case PhoneNumbersService_create sample_senders_db (Inl ''t1'') sample_registration None ''s3'' 3 of
      Inl e \<Rightarrow> False | Inr (r, d') \<Rightarrow> s_isDefault r \<and> length (senders d') = 3"
    by code_simp
  then obtain r d' where c: "PhoneNumbersService_create sample_senders_db (Inl ''t1'') sample_registration None ''s3'' 3 = Inr (r, d')"
      "s_isDefault r" "length (senders d') = 3"
    by (auto split: sum.splits)
  from PhoneNumbersService_create_ok 
      [OF sample_senders_ok fresh, where who = "Inl ''t1''" and dto = sample_registration and ctx = None and now = 3] c
  show ?thesis by simp
qed


theorem resolveForTenant_default_witness:
  "resolveForTenant sample_senders_db ''t1'' None = Inr (sample_sender ''s1'' ''111'' True 1)"
  using resolveForTenant_default [OF sample_senders_ok, of "''t1''" "sample_sender ''s1'' ''111'' True 1"]
  by (simp add: sample_senders_db_def sample_sender_def)

end
