(* ===== verification/Templates.thy ===== *)
theory Templates
  imports Senders
begin

text \<open>
  src/src/templates/templates.service.ts: the catalogue of message templates of a WhatsApp business account (WABA). \<open>sync\<close>
  takes over what the provider lists, \<open>applyProviderStatusUpdate\<close> takes over one status change, and \<open>assertApproved\<close> is the
  check a send relies on. The provider's list is an argument; a violation of a unique index aborts the transaction.

  The results: after a synchronisation a template passes the check exactly when the provider lists it as approved, the unique columns stay
  unique, and no other account's rows are touched. Counts in audit entries are stored as \<open>jsonb\<close>, where the order of keys does not matter.
\<close>

section \<open>Identity and approval\<close>

definition nonblank_string :: "json option \<Rightarrow> string option" where
  "nonblank_string v = (case v of Some (JStr s) \<Rightarrow> if js_trim s = [] then None else Some (js_trim s) | _ \<Rightarrow> None)"

definition extractTemplateIdentity :: "json \<Rightarrow> error + string \<times> string" where
  "extractTemplateIdentity payload =
     (if \<not> is_plain_object payload then Inl (Unprocessable ''Template message payload must be an object'')
      else case nonblank_string (json_get payload ''name'') of
             None \<Rightarrow> Inl (Unprocessable ''Template message payload requires a non-empty name'')
           | Some n \<Rightarrow>
               (case nonblank_string (json_get payload ''language'') of
                  None \<Rightarrow> Inl (Unprocessable ''Template message payload requires a non-empty language'')
                | Some l \<Rightarrow> Inr (n, l)))"

definition assertApproved :: "db \<Rightarrow> uuid \<Rightarrow> string \<Rightarrow> json \<Rightarrow> error + template_row" where
  "assertApproved d tenantId wabaId payload =
     bindE (extractTemplateIdentity payload) (\<lambda>(name, language).
       case findFirst (\<lambda>t. t_tenantId t = tenantId \<and> t_wabaId t = wabaId \<and> t_name t = name \<and> t_language t = language \<and>
              t_status t = ''APPROVED'') (templates d) of
         None \<Rightarrow> Inl (Unprocessable (''Template '' @ name @ ''/'' @ language @ '' is not synced and APPROVED for WABA '' @ wabaId))
       | Some t \<Rightarrow> Inr t)"

section \<open>Catalogue rows\<close>

definition template_key :: "template_row \<Rightarrow> uuid \<times> string \<times> string \<times> string" where
  "template_key r = (t_tenantId r, t_wabaId r, t_name r, t_language r)"

definition templateByKey :: "uuid \<times> string \<times> string \<times> string \<Rightarrow> template_row list \<Rightarrow> template_row option" where
  "templateByKey k rows = findFirst (\<lambda>r. template_key r = k) rows"

definition updateTemplateByKey ::
  "uuid \<times> string \<times> string \<times> string \<Rightarrow> (template_row \<Rightarrow> template_row) \<Rightarrow> template_row list \<Rightarrow> template_row list" where
  "updateTemplateByKey k f rows = updateMany (\<lambda>r. template_key r = k) f rows"

interpretation template_keys: keyed_table template_key templateByKey updateTemplateByKey
  by unfold_locales (simp_all add: templateByKey_def updateTemplateByKey_def)

definition templates_unique :: "template_row list \<Rightarrow> bool" where
  "templates_unique rows \<longleftrightarrow> distinct (map t_id rows) \<and> distinct (map t_providerTemplateId rows) \<and> distinct (map template_key rows)"

definition blank_template :: "uuid \<Rightarrow> uuid \<times> string \<times> string \<times> string \<Rightarrow> template_row" where
  "blank_template newId k =
     (case k of (tenantId, wabaId, name, language) \<Rightarrow>
        \<lparr>t_id = newId, t_tenantId = tenantId, t_wabaId = wabaId, t_providerTemplateId = [], t_name = name, t_language = language,
         t_category = None, t_status = [], t_components = None, t_qualityScore = None, t_rejectionReason = None,
         t_providerPayload = None, t_lastSyncedAt = None\<rparr>)"

text \<open>\<open>messageTemplate.upsert\<close> on the compound key: \<open>f\<close> sets the written columns; \<open>None\<close> is a violation of a unique index.\<close>

definition put_template ::
  "uuid \<Rightarrow> uuid \<times> string \<times> string \<times> string \<Rightarrow> (template_row \<Rightarrow> template_row) \<Rightarrow> template_row list \<Rightarrow> template_row list option" where
  "put_template newId k f rows =
     (let rows' = (case templateByKey k rows of
                     Some _ \<Rightarrow> updateTemplateByKey k f rows
                   | None \<Rightarrow> rows @ [f (blank_template newId k)])
      in if templates_unique rows' then Some rows' else None)"

section \<open>Synchronisation\<close>

record MetaMessageTemplate =
  mt_id :: string
  mt_name :: string
  mt_language :: string
  mt_status :: string
  mt_category :: "string option"
  mt_components :: "json list option"
  mt_qualityScore :: "json option"
  mt_rejectionReason :: "string option"
  mt_raw :: json

record MetaTemplateListResult =
  ml_wabaId :: string
  ml_senderId :: uuid
  ml_templates :: "MetaMessageTemplate list"

record sync_result =
  sr_wabaId :: string
  sr_senderId :: uuid
  sr_synced :: nat
  sr_markedDeleted :: nat
  sr_syncedAt :: time

definition UNIQUE_VIOLATION :: error where
  "UNIQUE_VIOLATION = Error ''Unique constraint failed''"

definition synced_row :: "MetaMessageTemplate \<Rightarrow> time \<Rightarrow> template_row \<Rightarrow> template_row" where
  "synced_row t syncedAt r =
     r\<lparr>t_providerTemplateId := mt_id t, t_category := mt_category t, t_status := js_upper (mt_status t),
       t_components := (case mt_components t of Some cs \<Rightarrow> Some (JArr cs) | None \<Rightarrow> t_components r),
       t_qualityScore := (case mt_qualityScore t of Some q \<Rightarrow> Some q | None \<Rightarrow> t_qualityScore r),
       t_rejectionReason := mt_rejectionReason t, t_providerPayload := Some (mt_raw t), t_lastSyncedAt := Some syncedAt\<rparr>"

fun sync_templates ::
  "uuid \<Rightarrow> string \<Rightarrow> (string \<Rightarrow> uuid) \<Rightarrow> time \<Rightarrow> MetaMessageTemplate list \<Rightarrow> template_row list \<Rightarrow> template_row list option" where
  "sync_templates tenantId wabaId newId syncedAt [] rows = Some rows"
| "sync_templates tenantId wabaId newId syncedAt (t # ts) rows =
     (case put_template (newId (mt_id t)) (tenantId, wabaId, mt_name t, mt_language t) (synced_row t syncedAt) rows of
        None \<Rightarrow> None
      | Some rows' \<Rightarrow> sync_templates tenantId wabaId newId syncedAt ts rows')"

definition stale_template :: "uuid \<Rightarrow> string \<Rightarrow> string list \<Rightarrow> template_row \<Rightarrow> bool" where
  "stale_template tenantId wabaId providerTemplateIds r \<longleftrightarrow>
     t_tenantId r = tenantId \<and> t_wabaId r = wabaId \<and> t_status r \<noteq> ''DELETED'' \<and>
     (length providerTemplateIds > 0 \<longrightarrow> t_providerTemplateId r \<notin> set providerTemplateIds)"

fun valueCounts :: "string list \<Rightarrow> (string \<times> nat) list" where
  "valueCounts [] = []"
| "valueCounts (v # vs) = (v, Suc (length (filter (\<lambda>w. w = v) vs))) # filter (\<lambda>e. fst e \<noteq> v) (valueCounts vs)"

definition counts_json :: "(string \<times> nat) list \<Rightarrow> json" where
  "counts_json cs = JObj (map (\<lambda>(k, n). (k, JNum (nat_string n))) cs)"

definition synced_audit ::
  "MutationActor \<Rightarrow> AuditRequestContext option \<Rightarrow> MetaTemplateListResult \<Rightarrow> nat \<Rightarrow> audit_row option" where
  "synced_audit actor ctx remote deleted =
     auditLogData actor ctx ''template_catalog.synced'' ''WhatsAppBusinessAccount'' (Some (ml_wabaId remote))
       (Some (JObj [(''synced'', JNum (nat_string (length (ml_templates remote)))), (''markedDeleted'', JNum (nat_string deleted)),
         (''statusCounts'', counts_json (valueCounts (map (\<lambda>t. js_upper (mt_status t)) (ml_templates remote)))),
         (''categoryCounts'', counts_json (valueCounts (map (\<lambda>t. case mt_category t of Some c \<Rightarrow> js_upper c | None \<Rightarrow> ''UNSPECIFIED'')
            (ml_templates remote))))]))"

definition TemplatesService_sync ::
  "db \<Rightarrow> MutationActor \<Rightarrow> AuditRequestContext option \<Rightarrow> error + MetaTemplateListResult \<Rightarrow> (string \<Rightarrow> uuid) \<Rightarrow> time \<Rightarrow> error + sync_result \<times> db" where
  "TemplatesService_sync d actor ctx listed newId syncedAt =
     bindE listed (\<lambda>remote.
       let tenantId = ma_tenantId actor; wabaId = ml_wabaId remote; providerTemplateIds = map mt_id (ml_templates remote)
       in case (if length providerTemplateIds > 0
                then findFirst (\<lambda>r. t_providerTemplateId r \<in> set providerTemplateIds \<and> t_tenantId r \<noteq> tenantId) (templates d)
                else None) of
            Some collision \<Rightarrow>
              Inl (Conflict (''Meta template '' @ t_providerTemplateId collision @ '' is already associated with another tenant''))
          | None \<Rightarrow>
              (case sync_templates tenantId wabaId newId syncedAt (ml_templates remote) (templates d) of
                 None \<Rightarrow> Inl UNIQUE_VIOLATION
               | Some rows \<Rightarrow>
                   let p = stale_template tenantId wabaId providerTemplateIds; deleted = countWhere p rows;
                       rows' = updateMany p (\<lambda>r. r\<lparr>t_status := ''DELETED'', t_lastSyncedAt := Some syncedAt\<rparr>) rows
                   in Inr (\<lparr>sr_wabaId = wabaId, sr_senderId = ml_senderId remote, sr_synced = length (ml_templates remote),
                             sr_markedDeleted = deleted, sr_syncedAt = syncedAt\<rparr>,
                           add_audit (synced_audit actor ctx remote deleted) (d\<lparr>templates := rows'\<rparr>))))"

section \<open>Status updates\<close>

record ProviderTemplateStatusUpdate =
  pu_providerTemplateId :: string
  pu_name :: string
  pu_language :: string
  pu_status :: string
  pu_rejectionReason :: "string option"
  pu_raw :: json

definition status_columns :: "ProviderTemplateStatusUpdate \<Rightarrow> time \<Rightarrow> template_row \<Rightarrow> template_row" where
  "status_columns u now r =
     r\<lparr>t_status := js_upper (pu_status u), t_rejectionReason := pu_rejectionReason u, t_providerPayload := Some (pu_raw u),
       t_lastSyncedAt := Some now\<rparr>"

definition applyProviderStatusUpdate ::
  "db \<Rightarrow> uuid \<Rightarrow> string \<Rightarrow> ProviderTemplateStatusUpdate \<Rightarrow> uuid \<Rightarrow> time \<Rightarrow> error + db" where
  "applyProviderStatusUpdate d tenantId wabaId u newId now =
     (case findFirst (\<lambda>r. t_providerTemplateId r = pu_providerTemplateId u) (templates d) of
        Some existing \<Rightarrow>
          if t_tenantId existing \<noteq> tenantId \<or> t_wabaId existing \<noteq> wabaId
          then Inl (Conflict (''Meta template '' @ pu_providerTemplateId u @ '' is associated with a different tenant or WABA''))
          else (let rows = updateTemplate (t_id existing)
                      (\<lambda>r. status_columns u now (r\<lparr>t_name := pu_name u, t_language := pu_language u\<rparr>)) (templates d)
                in if templates_unique rows then Inr (d\<lparr>templates := rows\<rparr>) else Inl UNIQUE_VIOLATION)
      | None \<Rightarrow>
          (case put_template newId (tenantId, wabaId, pu_name u, pu_language u)
                  (\<lambda>r. status_columns u now (r\<lparr>t_providerTemplateId := pu_providerTemplateId u\<rparr>)) (templates d) of
             None \<Rightarrow> Inl UNIQUE_VIOLATION
           | Some rows \<Rightarrow> Inr (d\<lparr>templates := rows\<rparr>)))"

section \<open>Lemmas\<close>

lemma template_key_simps [simp]:
  "template_key (synced_row t at r) = template_key r" "template_key (status_columns u at r) = template_key r"
  "t_id (synced_row t at r) = t_id r" "t_id (status_columns u at r) = t_id r" "template_key (blank_template newId k) = k"
  "template_key (r\<lparr>t_providerTemplateId := p\<rparr>) = template_key r"
  "template_key (r\<lparr>t_status := s, t_lastSyncedAt := l\<rparr>) = template_key r"
  by (simp_all add: synced_row_def status_columns_def template_key_def blank_template_def split: prod.splits)

lemma put_template_lookup:
  assumes "put_template newId k f rows = Some rows'" and "\<And>r. template_key (f r) = template_key r"
  shows "templates_unique rows'"
    and "templateByKey j rows' = (if j = k then Some (f (case templateByKey k rows of Some r \<Rightarrow> r | None \<Rightarrow> blank_template newId k))
      else templateByKey j rows)"
proof -
  from assms(1) show "templates_unique rows'" by (auto simp: put_template_def Let_def split: if_splits)
  show "templateByKey j rows' = (if j = k then Some (f (case templateByKey k rows of Some r \<Rightarrow> r | None \<Rightarrow> blank_template newId k))
      else templateByKey j rows)"
    using assms
    by (auto simp: put_template_def Let_def template_keys.fetch_modify template_keys.fetch_snoc split: if_splits option.splits)
qed

lemma sync_templates_lookup:
  "sync_templates tenantId wabaId newId at ts rows = Some rows' \<Longrightarrow> templates_unique rows \<Longrightarrow>
     distinct (map (\<lambda>t. (mt_name t, mt_language t)) ts) \<Longrightarrow>
     templates_unique rows' \<and>
     (\<forall>t \<in> set ts. \<exists>r. templateByKey (tenantId, wabaId, mt_name t, mt_language t) rows' = Some (synced_row t at r)) \<and>
     (\<forall>k. k \<notin> (\<lambda>t. (tenantId, wabaId, mt_name t, mt_language t)) ` set ts \<longrightarrow> templateByKey k rows' = templateByKey k rows)"
proof (induction ts arbitrary: rows)
  case Nil
  then show ?case by simp
next
  case (Cons t ts)
  let ?k = "(tenantId, wabaId, mt_name t, mt_language t)"
  from Cons.prems(1) obtain rows1 where p: "put_template (newId (mt_id t)) ?k (synced_row t at) rows = Some rows1"
    and s: "sync_templates tenantId wabaId newId at ts rows1 = Some rows'" by (auto split: option.splits)
  note lk = put_template_lookup [OF p template_key_simps(1)]
  from Cons.IH [OF s lk(1)] Cons.prems(3) have ih: "templates_unique rows'"
    "\<And>u. u \<in> set ts \<Longrightarrow> \<exists>r. templateByKey (tenantId, wabaId, mt_name u, mt_language u) rows' = Some (synced_row u at r)"
    "\<And>k. k \<notin> (\<lambda>t. (tenantId, wabaId, mt_name t, mt_language t)) ` set ts \<Longrightarrow> templateByKey k rows' = templateByKey k rows1"
    by auto
  have "?k \<notin> (\<lambda>t. (tenantId, wabaId, mt_name t, mt_language t)) ` set ts" using Cons.prems(3) by auto
  then have "templateByKey ?k rows' = templateByKey ?k rows1" by (rule ih(3))
  then have "\<exists>r. templateByKey ?k rows' = Some (synced_row t at r)" using lk(2) [of ?k] by auto
  with ih lk(2) show ?case by auto
qed

lemma lookup_member: "templates_unique rows \<Longrightarrow> r \<in> set rows \<longleftrightarrow> templateByKey (template_key r) rows = Some r"
  using template_keys.fetch_unique [of rows r] template_keys.fetch_SomeD [of "template_key r" rows r] by (auto simp: templates_unique_def)

lemma findFirst_iff: "(\<exists>r. findFirst p rows = Some r) \<longleftrightarrow> (\<exists>r \<in> set rows. p r)"
  using findFirst_None [of p rows] by (cases "findFirst p rows") (auto dest: findFirst_SomeD)

lemma assertApproved_iff:
  "(\<exists>r. assertApproved d tenantId wabaId payload = Inr r) \<longleftrightarrow>
     (\<exists>name language. extractTemplateIdentity payload = Inr (name, language) \<and>
        (\<exists>r \<in> set (templates d). template_key r = (tenantId, wabaId, name, language) \<and> t_status r = ''APPROVED''))"
proof (cases "extractTemplateIdentity payload")
  case (Inl e)
  then show ?thesis by (simp add: assertApproved_def)
next
  case (Inr nl)
  obtain name language where nl: "nl = (name, language)" by fastforce
  have "(\<exists>r. assertApproved d tenantId wabaId payload = Inr r) \<longleftrightarrow>
      (\<exists>r. findFirst (\<lambda>t. t_tenantId t = tenantId \<and> t_wabaId t = wabaId \<and> t_name t = name \<and> t_language t = language \<and>
         t_status t = ''APPROVED'') (templates d) = Some r)"
    using Inr nl by (auto simp: assertApproved_def split: option.splits)
  also have "\<dots> \<longleftrightarrow> (\<exists>r \<in> set (templates d). template_key r = (tenantId, wabaId, name, language) \<and> t_status r = ''APPROVED'')"
    unfolding findFirst_iff by (auto simp: template_key_def)
  finally show ?thesis using Inr nl by simp
qed

lemma put_template_others:
  assumes "put_template newId k f rows = Some rows'" and "\<And>r. template_key (f r) = template_key r"
    and "\<And>r. template_key r = k \<Longrightarrow> \<not> other r"
  shows "filter other rows' = filter other rows"
proof -
  have "filter other (updateTemplateByKey k f rows) = filter other rows"
    unfolding updateTemplateByKey_def updateMany_def using assms(2,3) by (induction rows) auto
  moreover have "\<not> other (f (blank_template newId k))" using assms(2,3) by simp
  ultimately show ?thesis using assms(1) by (auto simp: put_template_def Let_def split: if_splits option.splits)
qed

lemma sync_templates_others:
  assumes "sync_templates tenantId wabaId newId at ts rows = Some rows'"
  shows "filter (\<lambda>r. (t_tenantId r, t_wabaId r) \<noteq> (tenantId, wabaId)) rows' = filter (\<lambda>r. (t_tenantId r, t_wabaId r) \<noteq> (tenantId, wabaId)) rows"
  using assms
proof (induction ts arbitrary: rows)
  case Nil
  then show ?case by simp
next
  case (Cons t ts)
  then obtain rows1 where p: "put_template (newId (mt_id t)) (tenantId, wabaId, mt_name t, mt_language t) (synced_row t at) rows = Some rows1"
    and s: "sync_templates tenantId wabaId newId at ts rows1 = Some rows'" by (auto split: option.splits)
  have "filter (\<lambda>r. (t_tenantId r, t_wabaId r) \<noteq> (tenantId, wabaId)) rows1 = filter (\<lambda>r. (t_tenantId r, t_wabaId r) \<noteq> (tenantId, wabaId)) rows"
    by (rule put_template_others [OF p template_key_simps(1)]) (simp add: template_key_def)
  with Cons.IH [OF s] show ?case by simp
qed

text \<open>Marking the stale rows keeps the unique columns and the other accounts' rows.\<close>

lemma mark_stale:
  assumes "templates_unique rows"
  shows "templates_unique (updateMany (stale_template tenantId wabaId ids) (\<lambda>r. r\<lparr>t_status := ''DELETED'', t_lastSyncedAt := Some at\<rparr>) rows)"
    and "filter (\<lambda>r. (t_tenantId r, t_wabaId r) \<noteq> (tenantId, wabaId))
      (updateMany (stale_template tenantId wabaId ids) (\<lambda>r. r\<lparr>t_status := ''DELETED'', t_lastSyncedAt := Some at\<rparr>) rows) =
      filter (\<lambda>r. (t_tenantId r, t_wabaId r) \<noteq> (tenantId, wabaId)) rows"
proof -
  show "templates_unique (updateMany (stale_template tenantId wabaId ids) (\<lambda>r. r\<lparr>t_status := ''DELETED'', t_lastSyncedAt := Some at\<rparr>) rows)"
    using assms by (simp add: templates_unique_def map_updateMany)
  show "filter (\<lambda>r. (t_tenantId r, t_wabaId r) \<noteq> (tenantId, wabaId))
      (updateMany (stale_template tenantId wabaId ids) (\<lambda>r. r\<lparr>t_status := ''DELETED'', t_lastSyncedAt := Some at\<rparr>) rows) =
      filter (\<lambda>r. (t_tenantId r, t_wabaId r) \<noteq> (tenantId, wabaId)) rows"
    unfolding updateMany_def by (induction rows) (auto simp: stale_template_def)
qed

text \<open>Of the rows a synchronisation leaves for the account, exactly the listed ones are not stale.\<close>

lemma synced_not_stale:
  assumes u: "templates_unique rows'"
    and rows: "\<And>t. t \<in> set ts \<Longrightarrow> \<exists>r. templateByKey (tenantId, wabaId, mt_name t, mt_language t) rows' = Some (synced_row t at r)"
    and r: "r \<in> set rows'" "template_key r = (tenantId, wabaId, name, language)" "t_status r \<noteq> ''DELETED''"
  shows "\<not> stale_template tenantId wabaId (map mt_id ts) r \<longleftrightarrow> (\<exists>t \<in> set ts. mt_name t = name \<and> mt_language t = language \<and> t_status r = js_upper (mt_status t))"
proof
  assume "\<not> stale_template tenantId wabaId (map mt_id ts) r"
  then obtain t where t: "t \<in> set ts" "t_providerTemplateId r = mt_id t" using r by (auto simp: stale_template_def template_key_def)
  from rows [OF t(1)] obtain r0 where r0: "templateByKey (tenantId, wabaId, mt_name t, mt_language t) rows' = Some (synced_row t at r0)" by blast
  from template_keys.fetch_SomeD [OF r0] have m: "synced_row t at r0 \<in> set rows'"
    "template_key (synced_row t at r0) = (tenantId, wabaId, mt_name t, mt_language t)" by auto
  have "t_providerTemplateId (synced_row t at r0) = t_providerTemplateId r" using t(2) by (simp add: synced_row_def)
  with u m(1) r(1) have "synced_row t at r0 = r" by (auto simp: templates_unique_def distinct_map dest: inj_onD)
  with m(2) r(2) t(1) show "\<exists>t \<in> set ts. mt_name t = name \<and> mt_language t = language \<and> t_status r = js_upper (mt_status t)"
    by (auto simp: synced_row_def)
next
  assume "\<exists>t \<in> set ts. mt_name t = name \<and> mt_language t = language \<and> t_status r = js_upper (mt_status t)"
  then obtain t where t: "t \<in> set ts" "mt_name t = name" "mt_language t = language" by blast
  from rows [OF t(1)] obtain r0 where "templateByKey (template_key r) rows' = Some (synced_row t at r0)" using r(2) t(2,3) by auto
  with r(1) u have "r = synced_row t at r0" by (simp add: lookup_member)
  with t(1) show "\<not> stale_template tenantId wabaId (map mt_id ts) r" by (auto simp: stale_template_def synced_row_def)
qed

section \<open>Properties\<close>

text \<open>
  C33. \<open>sync\<close> and \<open>assertApproved\<close>: after a synchronisation of an account whose catalogue has each name and language once, a
  template payload passes the approval check exactly when the provider lists a template of its name and language as
  approved; the unique columns stay unique and the rows of other accounts are untouched.
\<close>

theorem sync_then_approved:
  assumes "templates_unique (templates d)" and "distinct (map (\<lambda>t. (mt_name t, mt_language t)) (ml_templates remote))"
    and "TemplatesService_sync d actor ctx (Inr remote) newId at = Inr (res, d')"
  shows "templates_unique (templates d') \<and>
    filter (\<lambda>r. (t_tenantId r, t_wabaId r) \<noteq> (ma_tenantId actor, ml_wabaId remote)) (templates d') =
      filter (\<lambda>r. (t_tenantId r, t_wabaId r) \<noteq> (ma_tenantId actor, ml_wabaId remote)) (templates d) \<and>
    ((\<exists>r. assertApproved d' (ma_tenantId actor) (ml_wabaId remote) payload = Inr r) \<longleftrightarrow>
     (\<exists>name language t. extractTemplateIdentity payload = Inr (name, language) \<and> t \<in> set (ml_templates remote) \<and>
        mt_name t = name \<and> mt_language t = language \<and> js_upper (mt_status t) = ''APPROVED''))"
proof -
  let ?tn = "ma_tenantId actor" and ?w = "ml_wabaId remote" and ?ts = "ml_templates remote"
  let ?mark = "\<lambda>r :: template_row. r\<lparr>t_status := ''DELETED'', t_lastSyncedAt := Some at\<rparr>"
  from assms(3) obtain rows where s: "sync_templates ?tn ?w newId at ?ts (templates d) = Some rows"
    and d': "templates d' = updateMany (stale_template ?tn ?w (map mt_id ?ts)) ?mark rows"
    by (auto simp: TemplatesService_sync_def Let_def add_audit_def split: option.splits if_splits)
  from sync_templates_lookup [OF s assms(1,2)] have u: "templates_unique rows"
    and lk: "\<And>t. t \<in> set ?ts \<Longrightarrow> \<exists>r. templateByKey (?tn, ?w, mt_name t, mt_language t) rows = Some (synced_row t at r)" by blast+
  note keep = mark_stale [OF u, of ?tn ?w "map mt_id ?ts" at, folded d']
  have app: "(\<exists>r \<in> set (templates d'). template_key r = (?tn, ?w, n, l) \<and> t_status r = ''APPROVED'') \<longleftrightarrow>
      (\<exists>t \<in> set ?ts. mt_name t = n \<and> mt_language t = l \<and> js_upper (mt_status t) = ''APPROVED'')" for n l
  proof
    assume "\<exists>r \<in> set (templates d'). template_key r = (?tn, ?w, n, l) \<and> t_status r = ''APPROVED''"
    then obtain r where r: "r \<in> set rows" "\<not> stale_template ?tn ?w (map mt_id ?ts) r" "template_key r = (?tn, ?w, n, l)" "t_status r = ''APPROVED''"
      unfolding d' set_updateMany by (auto split: if_splits)
    with synced_not_stale [OF u lk r(1,3)] show "\<exists>t \<in> set ?ts. mt_name t = n \<and> mt_language t = l \<and> js_upper (mt_status t) = ''APPROVED''"
      by fastforce
  next
    assume "\<exists>t \<in> set ?ts. mt_name t = n \<and> mt_language t = l \<and> js_upper (mt_status t) = ''APPROVED''"
    then obtain t r0 where t: "t \<in> set ?ts" "mt_name t = n" "mt_language t = l" "js_upper (mt_status t) = ''APPROVED''"
      "templateByKey (?tn, ?w, n, l) rows = Some (synced_row t at r0)" using lk by blast
    let ?r = "synced_row t at r0"
    have r: "?r \<in> set rows" "template_key ?r = (?tn, ?w, n, l)" using template_keys.fetch_SomeD [OF t(5)] by auto
    have st: "t_status ?r = ''APPROVED''" using t(4) by (simp add: synced_row_def)
    have "\<not> stale_template ?tn ?w (map mt_id ?ts) ?r" using t(1) by (auto simp: stale_template_def synced_row_def)
    then have "?r \<in> set (templates d')" unfolding d' set_updateMany using r(1) by force
    with r(2) st show "\<exists>r \<in> set (templates d'). template_key r = (?tn, ?w, n, l) \<and> t_status r = ''APPROVED''" by blast
  qed
  show ?thesis
    unfolding assertApproved_iff app keep(2) sync_templates_others [OF s] using keep(1) by blast
qed

text \<open>
  \<open>applyProviderStatusUpdate\<close>: it never touches a row of another tenant or account, keeps the unique columns unique,
  and afterwards the template with the provider's id is in the account that was named, with the reported name, language and status.
\<close>

theorem status_update_applied:
  assumes "templates_unique (templates d)" and "applyProviderStatusUpdate d tenantId wabaId u newId now = Inr d'"
  shows "templates_unique (templates d') \<and>
    filter (\<lambda>r. (t_tenantId r, t_wabaId r) \<noteq> (tenantId, wabaId)) (templates d') =
      filter (\<lambda>r. (t_tenantId r, t_wabaId r) \<noteq> (tenantId, wabaId)) (templates d) \<and>
    (\<exists>r \<in> set (templates d'). t_providerTemplateId r = pu_providerTemplateId u \<and> t_status r = js_upper (pu_status u) \<and>
       template_key r = (tenantId, wabaId, pu_name u, pu_language u))"
proof (cases "findFirst (\<lambda>r. t_providerTemplateId r = pu_providerTemplateId u) (templates d)")
  case None
  let ?k = "(tenantId, wabaId, pu_name u, pu_language u)"
  let ?f = "\<lambda>r. status_columns u now (r\<lparr>t_providerTemplateId := pu_providerTemplateId u\<rparr>)"
  from None assms(2) have p: "put_template newId ?k ?f (templates d) = Some (templates d')"
    by (auto simp: applyProviderStatusUpdate_def split: option.splits)
  have key: "template_key (?f r) = template_key r" for r by simp
  note lk = put_template_lookup [OF p key]
  from lk(2) [of ?k] obtain r0 where "templateByKey ?k (templates d') = Some (?f r0)" by auto
  from template_keys.fetch_SomeD [OF this] have "?f r0 \<in> set (templates d')" "template_key (?f r0) = ?k" by auto
  moreover have "t_providerTemplateId (?f r0) = pu_providerTemplateId u" "t_status (?f r0) = js_upper (pu_status u)"
    by (simp_all add: status_columns_def)
  ultimately show ?thesis using lk(1) put_template_others [OF p key, of "\<lambda>r. (t_tenantId r, t_wabaId r) \<noteq> (tenantId, wabaId)"]
    by (auto simp: template_key_def)
next
  case (Some e)
  let ?f = "\<lambda>r. status_columns u now (r\<lparr>t_name := pu_name u, t_language := pu_language u\<rparr>)"
  from Some assms(2) have e: "t_tenantId e = tenantId" "t_wabaId e = wabaId"
    and d': "templates d' = updateTemplate (t_id e) ?f (templates d)" "templates_unique (templates d')"
    by (auto simp: applyProviderStatusUpdate_def Let_def split: if_splits)
  from findFirst_SomeD [OF Some] have em: "e \<in> set (templates d)" "t_providerTemplateId e = pu_providerTemplateId u" by auto
  have only: "r = e" if "r \<in> set (templates d)" "t_id r = t_id e" for r
    using assms(1) that em(1) by (auto simp: templates_unique_def distinct_map dest: inj_onD)
  have others: "filter (\<lambda>r. (t_tenantId r, t_wabaId r) \<noteq> (tenantId, wabaId)) (updateTemplate (t_id e) ?f rows) =
      filter (\<lambda>r. (t_tenantId r, t_wabaId r) \<noteq> (tenantId, wabaId)) rows" if "set rows \<subseteq> set (templates d)" for rows
    using that only e unfolding updateTemplate_def updateMany_def by (induction rows) (auto simp: status_columns_def)
  have "?f e \<in> set (templates d')" unfolding d' updateTemplate_def set_updateMany using em(1) by force
  moreover have "t_providerTemplateId (?f e) = pu_providerTemplateId u" "t_status (?f e) = js_upper (pu_status u)"
    "template_key (?f e) = (tenantId, wabaId, pu_name u, pu_language u)"
    using em(2) e by (simp_all add: template_key_def status_columns_def)
  ultimately show ?thesis using d' others [OF order.refl] by (intro conjI) auto
qed

text \<open>A catalogue of one approved template, synchronised into an empty database.\<close>

definition sample_remote :: MetaTemplateListResult where
  "sample_remote = \<lparr>ml_wabaId = ''900'', ml_senderId = ''s1'', ml_templates =
     [\<lparr>mt_id = ''77'', mt_name = ''welcome'', mt_language = ''en'', mt_status = ''approved'', mt_category = Some ''UTILITY'', mt_components = None,
       mt_qualityScore = None, mt_rejectionReason = None, mt_raw = JObj []\<rparr>]\<rparr>"

definition sample_synced :: "error + sync_result \<times> db" where
  "sample_synced = TemplatesService_sync empty_db (mutationActor (Inl ''t1'')) None (Inr sample_remote) (\<lambda>p. p) 5"

lemma sample_synced_ok: "\<exists>res d'. sample_synced = Inr (res, d')"
  by (simp add: sample_synced_def TemplatesService_sync_def sample_remote_def empty_db_def put_template_def templateByKey_def
      templates_unique_def Let_def)

theorem sync_then_approved_witness:
  "\<exists>res d'. sample_synced = Inr (res, d') \<and>
     (\<exists>r. assertApproved d' ''t1'' ''900'' (JObj [(''name'', JStr ''welcome''), (''language'', JStr ''en'')]) = Inr r)"
proof -
  from sample_synced_ok obtain res d' where s: "sample_synced = Inr (res, d')" by blast
  have u: "templates_unique (templates empty_db)" by (simp add: templates_unique_def empty_db_def)
  have k: "distinct (map (\<lambda>t. (mt_name t, mt_language t)) (ml_templates sample_remote))" by (simp add: sample_remote_def)
  have e: "extractTemplateIdentity (JObj [(''name'', JStr ''welcome''), (''language'', JStr ''en'')]) = Inr (''welcome'', ''en'')" by code_simp
  have up: "js_upper ''approved'' = ''APPROVED''" by code_simp
  from sync_then_approved [OF u k s [unfolded sample_synced_def],
      of "JObj [(''name'', JStr ''welcome''), (''language'', JStr ''en'')]"] e up s show ?thesis
    by (auto simp: sample_remote_def)
qed

theorem status_update_applied_witness:
  "\<exists>d'. applyProviderStatusUpdate empty_db ''t1'' ''900''
      \<lparr>pu_providerTemplateId = ''77'', pu_name = ''welcome'', pu_language = ''en'', pu_status = ''PAUSED'', pu_rejectionReason = None, pu_raw = JNull\<rparr> ''p1'' 5 = Inr d' \<and>
     templates_unique (templates d') \<and> (\<exists>r \<in> set (templates d'). t_providerTemplateId r = ''77'')"
proof -
  let ?u = "\<lparr>pu_providerTemplateId = ''77'', pu_name = ''welcome'', pu_language = ''en'', pu_status = ''PAUSED'', pu_rejectionReason = None, pu_raw = JNull\<rparr>"
  have u: "templates_unique (templates empty_db)" by (simp add: templates_unique_def empty_db_def)
  obtain d' where d': "applyProviderStatusUpdate empty_db ''t1'' ''900'' ?u ''p1'' 5 = Inr d'"
    by (simp add: applyProviderStatusUpdate_def empty_db_def put_template_def templateByKey_def templates_unique_def Let_def)
  from status_update_applied [OF u d'] d' show ?thesis by auto
qed

end
