(* ===== verification/Contacts.thy ===== *)
theory Contacts
  imports Store "HOL-Library.List_Lexorder" "HOL-Library.Char_ord"
begin

text \<open>
  src/src/contacts: phone number normalisation (phone.util.ts) and the contact service with
  its log of consent decisions (contacts.service.ts). The main results: a normalised number is
  an E.164 number without its sign, and a contact's consent status is always the one of the
  decision in force in the log, whatever the order in which decisions are recorded.
\<close>

section \<open>Phone numbers\<close>

definition ascii_digit :: "char \<Rightarrow> bool" where
  "ascii_digit c \<longleftrightarrow> 48 \<le> (of_char c :: nat) \<and> (of_char c :: nat) \<le> 57"

text \<open>\<open>/^[1-9]\d{7,14}$/\<close>\<close>

definition E164_DIGITS :: "string \<Rightarrow> bool" where
  "E164_DIGITS s \<longleftrightarrow> 8 \<le> length s \<and> length s \<le> 15 \<and> list_all ascii_digit s \<and> hd s \<noteq> CHR ''0''"

text \<open>\<open>replace(/^\+/, "")\<close>\<close>

fun strip_plus :: "string \<Rightarrow> string" where
  "strip_plus (c # s) = (if c = CHR ''+'' then s else c # s)"
| "strip_plus [] = []"

definition normalizePhoneNumber :: "string \<Rightarrow> error + string" where
  "normalizePhoneNumber value' =
     (let normalized = strip_plus (js_trim value')
      in if \<not> E164_DIGITS normalized then Inl (BadRequest ''Phone number must be in E.164 format'')
         else Inr normalized)"

section \<open>Requests\<close>

record create_contact_dto =
  cd_phone :: string
  cd_name :: "string field"
  cd_language :: "string field"
  cd_timezone :: "string field"
  cd_tags :: "string list field"
  cd_metadata :: "json field"

record update_contact_dto =
  ud_name :: "string field"
  ud_language :: "string field"
  ud_timezone :: "string field"
  ud_tags :: "string list field"
  ud_metadata :: "json field"

datatype ConsentDecision = OPTED_IN | OPTED_OUT

record record_consent_dto =
  rd_status :: ConsentDecision
  rd_source :: string
  rd_evidence :: "json option"
  rd_occurredAt :: "time option"

section \<open>Operations\<close>

text \<open>
  \<open>sort()\<close> without a comparator orders strings by code units, which is the lexicographic
  order on lists of characters. \<open>tags: null\<close> passes \<open>@IsOptional()\<close> and makes
  \<open>tags.map\<close> a TypeError.
\<close>

definition normalizeTags :: "string list \<Rightarrow> string list" where
  "normalizeTags tags = sort (remdups (map (\<lambda>tag. js_lower (js_trim tag)) tags))"

definition tags_field :: "string list field \<Rightarrow> error + string list option" where
  "tags_field f = (case f of Undefined \<Rightarrow> Inr None | Null \<Rightarrow> Inl (Error ''TypeError'') | Val ts \<Rightarrow> Inr (Some (normalizeTags ts)))"

definition contact_by_phone :: "db \<Rightarrow> uuid \<Rightarrow> string \<Rightarrow> contact_row option" where
  "contact_by_phone d tenantId phone = findFirst (\<lambda>c. c_tenantId c = tenantId \<and> c_phone c = phone) (contacts d)"

definition ContactsService_create :: "db \<Rightarrow> uuid \<Rightarrow> create_contact_dto \<Rightarrow> uuid \<Rightarrow> time \<Rightarrow> error + contact_row \<times> db" where
  "ContactsService_create d tenantId dto newId now =
     (case normalizePhoneNumber (cd_phone dto) of
        Inl e \<Rightarrow> Inl e
      | Inr phone \<Rightarrow>
          (case contact_by_phone d tenantId phone of
             Some existing \<Rightarrow> Inl (Conflict ''Contact already exists for this tenant'')
           | None \<Rightarrow>
               (case tags_field (cd_tags dto) of
                  Inl e \<Rightarrow> Inl e
                | Inr tags \<Rightarrow>
                    let c = \<lparr>c_id = newId, c_tenantId = tenantId, c_phone = phone,
                      c_name = set_nullable (cd_name dto) None, c_language = set_nullable (cd_language dto) None,
                      c_timezone = set_nullable (cd_timezone dto) None,
                      c_tags = (case tags of None \<Rightarrow> [] | Some ts \<Rightarrow> ts),
                      c_consentStatus = ConsentStatus.UNKNOWN, c_consentSource = None, c_consentAt = None,
                      c_optedOutAt = None, c_lastInboundAt = None, c_serviceWindowExpiresAt = None,
                      c_metadata = (case cd_metadata dto of Val m \<Rightarrow> Some m | _ \<Rightarrow> None), c_createdAt = now\<rparr>
                    in Inr (c, d\<lparr>contacts := contacts d @ [c]\<rparr>))))"

definition ContactsService_findById :: "db \<Rightarrow> uuid \<Rightarrow> uuid \<Rightarrow> error + contact_row" where
  "ContactsService_findById d tenantId k =
     (case findFirst (\<lambda>c. c_id c = k \<and> c_tenantId c = tenantId) (contacts d) of
        None \<Rightarrow> Inl (NotFound ''Contact not found'') | Some c \<Rightarrow> Inr c)"

definition ContactsService_findByPhone :: "db \<Rightarrow> uuid \<Rightarrow> string \<Rightarrow> error + contact_row option" where
  "ContactsService_findByPhone d tenantId phone =
     (case normalizePhoneNumber phone of Inl e \<Rightarrow> Inl e | Inr p \<Rightarrow> Inr (contact_by_phone d tenantId p))"

definition ContactsService_update :: "db \<Rightarrow> uuid \<Rightarrow> uuid \<Rightarrow> update_contact_dto \<Rightarrow> error + db" where
  "ContactsService_update d tenantId k dto =
     (case ContactsService_findById d tenantId k of
        Inl e \<Rightarrow> Inl e
      | Inr c \<Rightarrow>
          (case tags_field (ud_tags dto) of
             Inl e \<Rightarrow> Inl e
           | Inr tags \<Rightarrow>
               Inr (d\<lparr>contacts := updateContact k (\<lambda>c. c\<lparr>
                  c_name := set_nullable (ud_name dto) (c_name c), c_language := set_nullable (ud_language dto) (c_language c),
                  c_timezone := set_nullable (ud_timezone dto) (c_timezone c),
                  c_tags := (case tags of None \<Rightarrow> c_tags c | Some ts \<Rightarrow> ts),
                  c_metadata := (case ud_metadata dto of Val m \<Rightarrow> Some m | _ \<Rightarrow> c_metadata c)\<rparr>) (contacts d)\<rparr>)))"

text \<open>
  \<open>findFirst\<close> ordered by \<open>occurredAt desc, createdAt desc\<close> over the events of one contact; of two
  events equal in both columns the database may return either.
\<close>

definition event_newer :: "consent_event_row \<Rightarrow> consent_event_row \<Rightarrow> bool" where
  "event_newer e f \<longleftrightarrow> ce_occurredAt e > ce_occurredAt f \<or> ce_occurredAt e = ce_occurredAt f \<and> ce_createdAt e > ce_createdAt f"

fun latestEvent :: "consent_event_row list \<Rightarrow> consent_event_row option" where
  "latestEvent [] = None"
| "latestEvent (e # es) =
     (case latestEvent es of None \<Rightarrow> Some e | Some f \<Rightarrow> if event_newer e f then Some e else Some f)"

definition events_of :: "db \<Rightarrow> uuid \<Rightarrow> uuid \<Rightarrow> consent_event_row list" where
  "events_of d tenantId contactId = filter (\<lambda>e. ce_tenantId e = tenantId \<and> ce_contactId e = contactId) (consentEvents d)"

fun decision_status :: "ConsentDecision \<Rightarrow> ConsentStatus" where
  "decision_status ConsentDecision.OPTED_IN = ConsentStatus.OPTED_IN"
| "decision_status ConsentDecision.OPTED_OUT = ConsentStatus.OPTED_OUT"

definition ContactsService_recordConsent :: "db \<Rightarrow> uuid \<Rightarrow> uuid \<Rightarrow> record_consent_dto \<Rightarrow> uuid \<Rightarrow> time \<Rightarrow> error + db" where
  "ContactsService_recordConsent d tenantId k dto newId now =
     (let occurredAt = (case rd_occurredAt dto of Some t \<Rightarrow> t | None \<Rightarrow> now);
          status = decision_status (rd_status dto)
      in case findFirst (\<lambda>c. c_id c = k \<and> c_tenantId c = tenantId) (contacts d) of
           None \<Rightarrow> Inl (NotFound ''Contact not found'')
         | Some existing \<Rightarrow>
             let latest = latestEvent (events_of d tenantId k);
                 event = \<lparr>ce_id = newId, ce_tenantId = tenantId, ce_contactId = k, ce_status = status,
                   ce_source = rd_source dto, ce_evidence = rd_evidence dto, ce_occurredAt = occurredAt, ce_createdAt = now\<rparr>;
                 d' = d\<lparr>consentEvents := consentEvents d @ [event]\<rparr>;
                 isCurrentDecision = (case latest of None \<Rightarrow> True | Some l \<Rightarrow> occurredAt \<ge> ce_occurredAt l)
             in if \<not> isCurrentDecision then Inr d'
                else Inr (d'\<lparr>contacts := updateContact k (\<lambda>c. c\<lparr>
                   c_consentStatus := status, c_consentSource := Some (rd_source dto),
                   c_consentAt := (if status = ConsentStatus.OPTED_IN then Some occurredAt else c_consentAt existing),
                   c_optedOutAt := (if status = ConsentStatus.OPTED_OUT then Some occurredAt else None)\<rparr>) (contacts d')\<rparr>))"

section \<open>Specifications\<close>

text \<open>
  The decision in force: of the recorded decisions the one that occurred last, and of those
  that occurred at the same time the one recorded last.
\<close>

definition in_force :: "consent_event_row list \<Rightarrow> consent_event_row option" where
  "in_force es = foldl (\<lambda>cur e. case cur of None \<Rightarrow> Some e
     | Some f \<Rightarrow> if ce_occurredAt f \<le> ce_occurredAt e then Some e else Some f) None es"

definition consent_matches_log :: "db \<Rightarrow> bool" where
  "consent_matches_log d \<longleftrightarrow> (\<forall>c \<in> set (contacts d).
     c_consentStatus c = (case in_force (events_of d (c_tenantId c) (c_id c)) of
        None \<Rightarrow> ConsentStatus.UNKNOWN | Some e \<Rightarrow> ce_status e))"

definition contact_keys_ok :: "db \<Rightarrow> bool" where
  "contact_keys_ok d \<longleftrightarrow> distinct (map c_id (contacts d)) \<and>
     distinct (map (\<lambda>c. (c_tenantId c, c_phone c)) (contacts d)) \<and>
     (\<forall>c \<in> set (contacts d). E164_DIGITS (c_phone c))"

section \<open>Lemmas\<close>

lemma digit_facts:
  "ascii_digit c \<Longrightarrow> \<not> js_space c" "ascii_digit c \<Longrightarrow> c \<noteq> CHR ''+''"
  by (auto simp: ascii_digit_def js_space_def)

lemma E164_ends: "E164_DIGITS s \<Longrightarrow> s \<noteq> [] \<and> ascii_digit (hd s) \<and> ascii_digit (last s)"
  by (cases s) (auto simp: E164_DIGITS_def list_all_iff)

lemma js_trim_E164: "E164_DIGITS s \<Longrightarrow> js_trim s = s"
  using E164_ends [of s] digit_facts(1) by (auto intro: js_trim_id)

lemma strip_plus_E164: "E164_DIGITS s \<Longrightarrow> strip_plus s = s"
  using E164_ends [of s] digit_facts(2) by (cases s) auto

lemma strip_plus_eq: "E164_DIGITS p \<Longrightarrow> strip_plus s = p \<longleftrightarrow> s = p \<or> s = CHR ''+'' # p"
  using strip_plus_E164 [of p] by (cases s) (auto split: if_splits)

lemma latestEvent_None: "latestEvent es = None \<longleftrightarrow> es = []"
  by (cases es) (auto split: option.splits)

lemma latestEvent_max:
  "latestEvent es = Some l \<Longrightarrow> l \<in> set es \<and> (\<forall>e \<in> set es. ce_occurredAt e \<le> ce_occurredAt l)"
proof (induction es arbitrary: l)
  case Nil
  then show ?case by simp
next
  case (Cons e es)
  show ?case
  proof (cases "latestEvent es")
    case None
    with Cons.prems show ?thesis by (simp add: latestEvent_None)
  next
    case (Some f)
    with Cons.IH [OF Some] Cons.prems show ?thesis
      by (auto simp: event_newer_def intro: order_trans split: if_splits)
  qed
qed

lemma in_force_Nil [simp]: "in_force [] = None"
  by (simp add: in_force_def)

lemma in_force_snoc [simp]:
  "in_force (es @ [e]) = (case in_force es of None \<Rightarrow> Some e
     | Some f \<Rightarrow> if ce_occurredAt f \<le> ce_occurredAt e then Some e else Some f)"
  by (simp add: in_force_def)

lemma in_force_None: "in_force es = None \<longleftrightarrow> es = []"
  by (cases es rule: rev_cases) (auto split: option.splits)

lemma in_force_max:
  "in_force es = Some f \<Longrightarrow> f \<in> set es \<and> (\<forall>e \<in> set es. ce_occurredAt e \<le> ce_occurredAt f)"
proof (induction es arbitrary: f rule: rev_induct)
  case Nil
  then show ?case by simp
next
  case (snoc e es)
  show ?case
  proof (cases "in_force es")
    case None
    with snoc.prems show ?thesis by (simp add: in_force_None)
  next
    case (Some g)
    with snoc.IH [OF Some] snoc.prems show ?thesis by (auto intro: order_trans split: if_splits)
  qed
qed

text \<open>The test of the service compares with the decision in force.\<close>

lemma current_decision_iff:
  "(case latestEvent es of None \<Rightarrow> True | Some l \<Rightarrow> ce_occurredAt l \<le> t) \<longleftrightarrow>
   (case in_force es of None \<Rightarrow> True | Some f \<Rightarrow> ce_occurredAt f \<le> t)"
  using latestEvent_max [of es] in_force_max [of es] latestEvent_None [of es] in_force_None [of es]
  by (cases "latestEvent es"; cases "in_force es") (auto intro: le_trans)

lemma events_of_snoc:
  "events_of (d\<lparr>consentEvents := consentEvents d @ [e]\<rparr>) t k =
     (if ce_tenantId e = t \<and> ce_contactId e = k then events_of d t k @ [e] else events_of d t k)"
  by (simp add: events_of_def)

lemma events_of_contacts [simp]: "events_of (d\<lparr>contacts := cs\<rparr>) t k = events_of d t k"
  by (simp add: events_of_def)

lemma decision_status_not_unknown [simp]: "decision_status x \<noteq> ConsentStatus.UNKNOWN"
  by (cases x) auto

section \<open>Properties\<close>

text \<open>
  \<open>normalizePhoneNumber\<close>: it accepts exactly the values that are, up to surrounding white
  space and one leading plus sign, 8 to 15 digits not starting with zero, and returns those digits.
\<close>

theorem normalizePhoneNumber_iff:
  "normalizePhoneNumber v = Inr p \<longleftrightarrow> E164_DIGITS p \<and> (js_trim v = p \<or> js_trim v = CHR ''+'' # p)"
proof -
  have "normalizePhoneNumber v = Inr p \<longleftrightarrow> E164_DIGITS p \<and> strip_plus (js_trim v) = p"
    by (auto simp: normalizePhoneNumber_def Let_def)
  then show ?thesis using strip_plus_eq by blast
qed

text \<open>
  C11. \<open>ContactsService.recordConsent\<close>: recording a decision keeps the contact's consent status equal
  to the decision in force in the log, also when decisions arrive out of order.
\<close>

theorem recordConsent_keeps_status:
  assumes "ContactsService_recordConsent d tenantId k dto newId now = Inr d'" and "consent_matches_log d" and "contact_keys_ok d"
  shows "consent_matches_log d' \<and> contact_keys_ok d' \<and> length (consentEvents d') = Suc (length (consentEvents d))"
proof -
  obtain existing where ex: "findFirst (\<lambda>c. c_id c = k \<and> c_tenantId c = tenantId) (contacts d) = Some existing"
    using assms(1) by (auto simp: ContactsService_recordConsent_def Let_def split: option.splits)
  then have k: "existing \<in> set (contacts d)" "c_id existing = k" "c_tenantId existing = tenantId"
    using findFirst_SomeD by fastforce+
  have tenant: "c_tenantId c = tenantId" if "c \<in> set (contacts d)" "c_id c = k" for c
    using assms(3) that k unfolding contact_keys_ok_def distinct_map by (metis inj_on_eq_iff)
  let ?t = "case rd_occurredAt dto of Some t \<Rightarrow> t | None \<Rightarrow> now"
  let ?e = "\<lparr>ce_id = newId, ce_tenantId = tenantId, ce_contactId = k, ce_status = decision_status (rd_status dto),
     ce_source = rd_source dto, ce_evidence = rd_evidence dto, ce_occurredAt = ?t, ce_createdAt = now\<rparr>"
  let ?cur = "case in_force (events_of d tenantId k) of None \<Rightarrow> True | Some f \<Rightarrow> ce_occurredAt f \<le> ?t"
  let ?f = "\<lambda>c. c\<lparr>c_consentStatus := decision_status (rd_status dto), c_consentSource := Some (rd_source dto),
     c_consentAt := (if decision_status (rd_status dto) = ConsentStatus.OPTED_IN then Some ?t else c_consentAt existing),
     c_optedOutAt := (if decision_status (rd_status dto) = ConsentStatus.OPTED_OUT then Some ?t else None)\<rparr>"
  let ?d1 = "d\<lparr>consentEvents := consentEvents d @ [?e]\<rparr>"
  have d': "d' = (if ?cur then ?d1\<lparr>contacts := updateContact k ?f (contacts d)\<rparr> else ?d1)"
    using assms(1) ex by (cases ?cur) (simp_all add: ContactsService_recordConsent_def Let_def current_decision_iff)
  have events: "events_of d' (c_tenantId c) (c_id c) =
      (if c_id c = k then events_of d tenantId k @ [?e] else events_of d (c_tenantId c) (c_id c))"
    if "c \<in> set (contacts d)" for c
    using tenant [OF that] by (auto simp: d' events_of_snoc)
  have "c_consentStatus c' = (case in_force (events_of d' (c_tenantId c') (c_id c')) of
      None \<Rightarrow> ConsentStatus.UNKNOWN | Some e \<Rightarrow> ce_status e)" if "c' \<in> set (contacts d')" for c'
  proof -
    from that obtain c where c: "c \<in> set (contacts d)" "c' = (if c_id c = k \<and> ?cur then ?f c else c)"
      by (auto simp: d' updateContact_def set_updateMany split: if_splits)
    have st: "c_consentStatus c = (case in_force (events_of d (c_tenantId c) (c_id c)) of
        None \<Rightarrow> ConsentStatus.UNKNOWN | Some e \<Rightarrow> ce_status e)"
      using assms(2) c(1) by (simp add: consent_matches_log_def)
    have keys: "c_tenantId c' = c_tenantId c" "c_id c' = c_id c" by (auto simp: c(2))
    show ?thesis
      unfolding keys events [OF c(1)] using st tenant [OF c(1)]
      by (cases "c_id c = k"; cases "in_force (events_of d tenantId k)") (auto simp: c(2))
  qed
  then have "consent_matches_log d'" by (simp add: consent_matches_log_def)
  moreover have "contact_keys_ok d'"
    using assms(3) contact_table.keys_modify [of ?f k "contacts d"]
    by (auto simp: d' contact_keys_ok_def updateContact_def set_updateMany map_updateMany)
  ultimately show ?thesis by (simp add: d')
qed

text \<open>A contact who opted in at time 100, and an older opt-out that arrives late.\<close>

definition sample_contact :: contact_row where
  "sample_contact = \<lparr>c_id = ''c1'', c_tenantId = ''t1'', c_phone = ''96170123456'', c_name = None, c_language = None,
     c_timezone = None, c_tags = [], c_consentStatus = ConsentStatus.OPTED_IN, c_consentSource = Some ''web'',
     c_consentAt = Some 100, c_optedOutAt = None, c_lastInboundAt = None, c_serviceWindowExpiresAt = None,
     c_metadata = None, c_createdAt = 1\<rparr>"

definition sample_contacts_db :: db where
  "sample_contacts_db = empty_db\<lparr>contacts := [sample_contact],
     consentEvents := [\<lparr>ce_id = ''e1'', ce_tenantId = ''t1'', ce_contactId = ''c1'', ce_status = ConsentStatus.OPTED_IN,
       ce_source = ''web'', ce_evidence = None, ce_occurredAt = 100, ce_createdAt = 100\<rparr>]\<rparr>"

lemma sample_contacts_ok: "consent_matches_log sample_contacts_db" "contact_keys_ok sample_contacts_db"
  by (simp_all add: consent_matches_log_def contact_keys_ok_def sample_contacts_db_def sample_contact_def empty_db_def
      events_of_def in_force_def E164_DIGITS_def ascii_digit_def)

theorem recordConsent_keeps_status_witness:
  "\<exists>d'. ContactsService_recordConsent sample_contacts_db ''t1'' ''c1''
      \<lparr>rd_status = ConsentDecision.OPTED_OUT, rd_source = ''sms'', rd_evidence = None, rd_occurredAt = Some 50\<rparr> ''e2'' 200 = Inr d' \<and>
    consent_matches_log d' \<and> contact_keys_ok d' \<and> length (consentEvents d') = 2"
proof -
  obtain d' where r: "ContactsService_recordConsent sample_contacts_db ''t1'' ''c1''
      \<lparr>rd_status = ConsentDecision.OPTED_OUT, rd_source = ''sms'', rd_evidence = None, rd_occurredAt = Some 50\<rparr> ''e2'' 200 = Inr d'"
    by (simp add: ContactsService_recordConsent_def sample_contacts_db_def sample_contact_def empty_db_def events_of_def)
  from recordConsent_keeps_status [OF r sample_contacts_ok] have "consent_matches_log d' \<and> contact_keys_ok d' \<and>
      length (consentEvents d') = Suc (length (consentEvents sample_contacts_db))" .
  with r show ?thesis by (simp add: sample_contacts_db_def empty_db_def)
qed

end
