(* ===== verification/Conversations.thy ===== *)
theory Conversations
  imports Contacts
begin

text \<open>
  The life of an inbox conversation: src/src/inbox/conversation-activity.service.ts (what an inbound and an
  outbound message do to it) and inbox-response-sla-escalation.service.ts (the scan for overdue
  responses), together with the trigger and the check constraint of the migrations
  20260912090000 and 20260912131000, which the services rely on.

  A conversation carries a response cycle: it starts with an inbound message (or when a team with a
  response target is assigned), falls due after the team's minutes, is answered by an outbound
  message and is escalated at most once when overdue. The table has a check constraint on
  these four columns; the results are that no operation violates it, so that none of the statements
  fails, and what a cycle's columns mean.
\<close>

section \<open>The statements\<close>

definition conversation_is :: "uuid \<Rightarrow> uuid \<Rightarrow> uuid \<Rightarrow> conversation_row \<Rightarrow> bool" where
  "conversation_is tenantId senderId contactId v \<longleftrightarrow>
     v_tenantId v = tenantId \<and> v_senderId v = senderId \<and> v_contactId v = contactId"

text \<open>\<open>x > COALESCE(col, '-infinity')\<close>\<close>

fun later_than :: "time \<Rightarrow> time option \<Rightarrow> bool" where
  "later_than x None = True"
| "later_than x (Some y) = (x > y)"

text \<open>\<open>GREATEST(COALESCE(col, x), x)\<close>\<close>

fun latest_of :: "time option \<Rightarrow> time \<Rightarrow> time option" where
  "latest_of None x = Some x"
| "latest_of (Some y) x = Some (max y x)"

definition responseSlaMinutes :: "db \<Rightarrow> conversation_row \<Rightarrow> nat option" where
  "responseSlaMinutes d v =
     (case findFirst (\<lambda>a. ta_tenantId a = v_tenantId v \<and> ta_conversationId a = v_id v \<and>
              (\<exists>tm \<in> set (teams d). tm_tenantId tm = ta_tenantId a \<and> tm_id tm = ta_teamId a)) (teamAssignments d) of
        None \<Rightarrow> None
      | Some a \<Rightarrow>
          (case findFirst (\<lambda>tm. tm_tenantId tm = ta_tenantId a \<and> tm_id tm = ta_teamId a) (teams d) of
             None \<Rightarrow> None
           | Some tm \<Rightarrow> tm_responseSlaMinutes tm))"

definition startsResponseSlaCycle :: "conversation_row \<Rightarrow> time \<Rightarrow> bool" where
  "startsResponseSlaCycle v inboundAt \<longleftrightarrow>
     later_than inboundAt (v_lastInboundAt v) \<and> later_than inboundAt (v_lastOutboundAt v) \<and>
     (v_status v = RESOLVED \<or> v_responseSlaDueAt v = None \<or> v_responseSlaRespondedAt v \<noteq> None)"

definition minutes_ms :: "nat \<Rightarrow> time" where
  "minutes_ms n = n * 60000"

text \<open>The \<open>DO UPDATE\<close> of an inbound message; every right-hand side reads the row as it was.\<close>

definition inbound_update :: "db \<Rightarrow> time \<Rightarrow> conversation_row \<Rightarrow> conversation_row" where
  "inbound_update d inboundAt v =
     (let starts = startsResponseSlaCycle v inboundAt; target = responseSlaMinutes d v
      in v\<lparr>v_status := OPEN, v_resolvedAt := None, v_unreadCount := v_unreadCount v + 1,
           v_lastMessageAt := max (v_lastMessageAt v) inboundAt,
           v_lastInboundAt := latest_of (v_lastInboundAt v) inboundAt,
           v_responseSlaStartedAt :=
             (if starts then (case target of None \<Rightarrow> None | Some _ \<Rightarrow> Some inboundAt) else v_responseSlaStartedAt v),
           v_responseSlaDueAt :=
             (if starts then (case target of None \<Rightarrow> None | Some m \<Rightarrow> Some (inboundAt + minutes_ms m)) else v_responseSlaDueAt v),
           v_responseSlaRespondedAt := (if starts then None else v_responseSlaRespondedAt v),
           v_responseSlaEscalatedAt := (if starts then None else v_responseSlaEscalatedAt v)\<rparr>)"

definition new_conversation :: "uuid \<Rightarrow> uuid \<Rightarrow> uuid \<Rightarrow> uuid \<Rightarrow> time \<Rightarrow> conversation_row" where
  "new_conversation newId tenantId senderId contactId at =
     \<lparr>v_id = newId, v_tenantId = tenantId, v_contactId = contactId, v_senderId = senderId, v_assignedAgentId = None, v_status = OPEN,
      v_priority = NORMAL, v_unreadCount = 0, v_lastMessageAt = at, v_lastInboundAt = None, v_lastOutboundAt = None,
      v_resolvedAt = None, v_responseSlaStartedAt = None, v_responseSlaDueAt = None, v_responseSlaRespondedAt = None,
      v_responseSlaEscalatedAt = None\<rparr>"

definition recordInbound :: "db \<Rightarrow> uuid \<Rightarrow> uuid \<Rightarrow> uuid \<Rightarrow> time \<Rightarrow> uuid \<Rightarrow> uuid \<times> db" where
  "recordInbound d tenantId senderId contactId occurredAt newId =
     (case findFirst (conversation_is tenantId senderId contactId) (conversations d) of
        None \<Rightarrow>
          (newId, d\<lparr>conversations := conversations d @
             [(new_conversation newId tenantId senderId contactId occurredAt)\<lparr>v_unreadCount := 1, v_lastInboundAt := Some occurredAt\<rparr>]\<rparr>)
      | Some v \<Rightarrow>
          (v_id v, d\<lparr>conversations :=
             updateMany (conversation_is tenantId senderId contactId) (inbound_update d occurredAt) (conversations d)\<rparr>))"

definition closesResponseSlaCycle :: "conversation_row \<Rightarrow> time \<Rightarrow> bool" where
  "closesResponseSlaCycle v outboundAt \<longleftrightarrow>
     v_status v \<noteq> RESOLVED \<and> v_responseSlaDueAt v \<noteq> None \<and> v_responseSlaRespondedAt v = None \<and>
     (case v_responseSlaStartedAt v of None \<Rightarrow> False | Some s \<Rightarrow> s \<le> outboundAt) \<and>
     later_than outboundAt (v_lastOutboundAt v)"

definition outbound_update :: "time \<Rightarrow> conversation_row \<Rightarrow> conversation_row" where
  "outbound_update outboundAt v =
     (let resolved = (v_status v = RESOLVED)
      in v\<lparr>v_status := OPEN, v_resolvedAt := None, v_lastMessageAt := max (v_lastMessageAt v) outboundAt,
           v_lastOutboundAt := latest_of (v_lastOutboundAt v) outboundAt,
           v_responseSlaStartedAt := (if resolved then None else v_responseSlaStartedAt v),
           v_responseSlaDueAt := (if resolved then None else v_responseSlaDueAt v),
           v_responseSlaRespondedAt :=
             (if resolved then None else if closesResponseSlaCycle v outboundAt then Some outboundAt else v_responseSlaRespondedAt v),
           v_responseSlaEscalatedAt := (if resolved then None else v_responseSlaEscalatedAt v)\<rparr>)"

definition recordOutbound :: "db \<Rightarrow> uuid \<Rightarrow> uuid \<Rightarrow> string \<Rightarrow> MessageType \<Rightarrow> time \<Rightarrow> uuid \<Rightarrow> uuid option \<times> db" where
  "recordOutbound d tenantId senderId phone messageType occurredAt newId =
     (if messageType = TEMPLATE then (None, d)
      else case contact_by_phone d tenantId phone of
             None \<Rightarrow> (None, d)
           | Some contact \<Rightarrow>
               (case findFirst (conversation_is tenantId senderId (c_id contact)) (conversations d) of
                  None \<Rightarrow>
                    (Some newId, d\<lparr>conversations := conversations d @
                       [(new_conversation newId tenantId senderId (c_id contact) occurredAt)\<lparr>v_lastOutboundAt := Some occurredAt\<rparr>]\<rparr>)
                | Some v \<Rightarrow>
                    (Some (v_id v), d\<lparr>conversations :=
                       updateMany (conversation_is tenantId senderId (c_id contact)) (outbound_update occurredAt) (conversations d)\<rparr>)))"

section \<open>Escalation and team assignment\<close>

definition ESCALATION_BATCH_SIZE :: nat where
  "ESCALATION_BATCH_SIZE = 200"

definition overdue :: "time \<Rightarrow> conversation_row \<Rightarrow> bool" where
  "overdue now v \<longleftrightarrow> v_status v \<in> {OPEN, PENDING} \<and> v_responseSlaStartedAt v \<noteq> None \<and>
     (case v_responseSlaDueAt v of None \<Rightarrow> False | Some due \<Rightarrow> due \<le> now) \<and>
     v_responseSlaRespondedAt v = None \<and> v_responseSlaEscalatedAt v = None"

text \<open>
  The rows another transaction holds are skipped (\<open>SKIP LOCKED\<close>); \<open>locked\<close> are their ids. Ordering by
  due time, then id, with the batch size as limit.
\<close>

definition due_batch :: "conversation_row list \<Rightarrow> uuid list \<Rightarrow> time \<Rightarrow> uuid list" where
  "due_batch rows locked now =
     take ESCALATION_BATCH_SIZE (map v_id (sort_key (\<lambda>v. case v_responseSlaDueAt v of Some t \<Rightarrow> t | None \<Rightarrow> 0)
       (sort_key v_id (filter (\<lambda>v. overdue now v \<and> v_id v \<notin> set locked) rows))))"

definition escalateOverdue :: "db \<Rightarrow> uuid list \<Rightarrow> time \<Rightarrow> nat \<times> db" where
  "escalateOverdue d locked now =
     (let due = due_batch (conversations d) locked now;
          hit = (\<lambda>v. v_id v \<in> set due \<and> overdue now v)
      in (countWhere hit (conversations d),
          d\<lparr>conversations := updateMany hit (\<lambda>v. v\<lparr>v_responseSlaEscalatedAt := Some now\<rparr>) (conversations d)\<rparr>))"

text \<open>The trigger on \<open>ConversationTeamAssignment\<close>, for an assignment row just inserted or moved to a team.\<close>

definition applyConversationTeamResponseSla :: "db \<Rightarrow> team_assignment_row \<Rightarrow> time \<Rightarrow> db" where
  "applyConversationTeamResponseSla d a now =
     (case findFirst (\<lambda>tm. tm_tenantId tm = ta_tenantId a \<and> tm_id tm = ta_teamId a) (teams d) of
        None \<Rightarrow> d
      | Some tm \<Rightarrow>
          (case tm_responseSlaMinutes tm of
             None \<Rightarrow> d
           | Some m \<Rightarrow>
               d\<lparr>conversations := updateMany
                 (\<lambda>v. v_tenantId v = ta_tenantId a \<and> v_id v = ta_conversationId a \<and> v_status v \<in> {OPEN, PENDING} \<and>
                      (case v_lastInboundAt v of None \<Rightarrow> False | Some i \<Rightarrow> later_than i (v_lastOutboundAt v)) \<and>
                      (v_responseSlaDueAt v = None \<or> v_responseSlaRespondedAt v \<noteq> None))
                 (\<lambda>v. v\<lparr>v_responseSlaStartedAt := Some now, v_responseSlaDueAt := Some (now + minutes_ms m),
                      v_responseSlaRespondedAt := None, v_responseSlaEscalatedAt := None\<rparr>) (conversations d)\<rparr>))"

section \<open>The constraint\<close>

text \<open>\<open>Conversation_responseSlaCycle_check\<close> and \<open>InboxTeam_responseSlaMinutes_check\<close>.\<close>

definition responseSlaCycle_check :: "conversation_row \<Rightarrow> bool" where
  "responseSlaCycle_check v \<longleftrightarrow>
     (case (v_responseSlaStartedAt v, v_responseSlaDueAt v) of
        (None, None) \<Rightarrow> v_responseSlaRespondedAt v = None \<and> v_responseSlaEscalatedAt v = None
      | (Some s, Some due) \<Rightarrow> due > s \<and>
          (case v_responseSlaRespondedAt v of None \<Rightarrow> True | Some r \<Rightarrow> r \<ge> s) \<and>
          (case v_responseSlaEscalatedAt v of None \<Rightarrow> True | Some e \<Rightarrow> e \<ge> due)
      | _ \<Rightarrow> False)"

definition responseSlaMinutes_check :: "team_row \<Rightarrow> bool" where
  "responseSlaMinutes_check tm \<longleftrightarrow> (case tm_responseSlaMinutes tm of None \<Rightarrow> True | Some m \<Rightarrow> 1 \<le> m \<and> m \<le> 10080)"

definition conversations_ok :: "db \<Rightarrow> bool" where
  "conversations_ok d \<longleftrightarrow> list_all responseSlaCycle_check (conversations d) \<and> list_all responseSlaMinutes_check (teams d) \<and>
     distinct (map (\<lambda>v. (v_tenantId v, v_senderId v, v_contactId v)) (conversations d))"

section \<open>The conversation as a state machine\<close>

text \<open>Everything the modelled code does to the conversation table, in any order.\<close>

inductive conversation_step :: "db \<Rightarrow> db \<Rightarrow> bool" where
  inbound: "recordInbound d tenantId senderId contactId occurredAt newId = (k, d') \<Longrightarrow> conversation_step d d'"
| outbound: "recordOutbound d tenantId senderId phone messageType occurredAt newId = (k, d') \<Longrightarrow> conversation_step d d'"
| escalate: "escalateOverdue d locked now = (n, d') \<Longrightarrow> conversation_step d d'"
| assign: "conversation_step d (applyConversationTeamResponseSla (d\<lparr>teamAssignments := as\<rparr>) a now)"

inductive_cases conversation_stepE: "conversation_step d d'"

inductive conversation_reachable :: "db \<Rightarrow> db \<Rightarrow> bool" where
  start: "conversation_reachable d d"
| step: "conversation_reachable d d' \<Longrightarrow> conversation_step d' d'' \<Longrightarrow> conversation_reachable d d''"

section \<open>Lemmas\<close>

abbreviation conversation_key :: "conversation_row \<Rightarrow> uuid \<times> uuid \<times> uuid" where
  "conversation_key v \<equiv> (v_tenantId v, v_senderId v, v_contactId v)"

lemma conversation_is_key: "conversation_is t s c v \<longleftrightarrow> conversation_key v = (t, s, c)"
  by (auto simp: conversation_is_def)

lemma update_keys [simp]:
  "conversation_key (inbound_update d at v) = conversation_key v"
  "conversation_key (outbound_update at v) = conversation_key v"
  by (simp_all add: inbound_update_def outbound_update_def Let_def)

lemma responseSlaMinutes_pos:
  assumes "list_all responseSlaMinutes_check (teams d)" and "responseSlaMinutes d v = Some m"
  shows "0 < minutes_ms m"
proof -
  from assms(2) obtain tm where "tm \<in> set (teams d)" "tm_responseSlaMinutes tm = Some m"
    by (auto simp: responseSlaMinutes_def dest: findFirst_SomeD split: option.splits)
  with assms(1) show ?thesis by (auto simp: list_all_iff responseSlaMinutes_check_def minutes_ms_def)
qed

lemma inbound_check:
  assumes "list_all responseSlaMinutes_check (teams d)" and "responseSlaCycle_check v"
  shows "responseSlaCycle_check (inbound_update d at v)"
  using assms(2) responseSlaMinutes_pos [OF assms(1), of v]
  by (auto simp: inbound_update_def Let_def responseSlaCycle_check_def split: option.splits)

lemma outbound_check: "responseSlaCycle_check v \<Longrightarrow> responseSlaCycle_check (outbound_update at v)"
  by (auto simp: outbound_update_def Let_def responseSlaCycle_check_def closesResponseSlaCycle_def split: option.splits)

lemma new_conversation_check:
  "responseSlaCycle_check ((new_conversation k t s c at)\<lparr>v_unreadCount := n, v_lastInboundAt := i\<rparr>)"
  "responseSlaCycle_check ((new_conversation k t s c at)\<lparr>v_lastOutboundAt := i\<rparr>)"
  by (simp_all add: new_conversation_def responseSlaCycle_check_def)

lemma conversations_ok_update:
  assumes "conversations_ok d" and "\<And>v. responseSlaCycle_check v \<Longrightarrow> p v \<Longrightarrow> responseSlaCycle_check (f v)"
    and "\<And>v. conversation_key (f v) = conversation_key v"
  shows "conversations_ok (d\<lparr>conversations := updateMany p f (conversations d)\<rparr>)"
  using assms list_all_updateMany [of responseSlaCycle_check "conversations d" p f]
    map_updateMany [of conversation_key f p "conversations d"]
  by (simp add: conversations_ok_def)

lemma conversations_ok_insert:
  assumes "conversations_ok d" and "findFirst (conversation_is t s c) (conversations d) = None"
    and "responseSlaCycle_check v" and "conversation_key v = (t, s, c)"
  shows "conversations_ok (d\<lparr>conversations := conversations d @ [v]\<rparr>)"
  using assms by (auto simp: conversations_ok_def findFirst_None conversation_is_key)

lemma recordInbound_ok:
  assumes "conversations_ok d" and "recordInbound d t s c at newId = (k, d')"
  shows "conversations_ok d'"
proof (cases "findFirst (conversation_is t s c) (conversations d)")
  case None
  with assms(2) conversations_ok_insert [OF assms(1) None new_conversation_check(1)] show ?thesis
    by (auto simp: recordInbound_def new_conversation_def)
next
  case (Some v)
  have "conversations_ok (d\<lparr>conversations := updateMany (conversation_is t s c) (inbound_update d at) (conversations d)\<rparr>)"
    using assms(1) by (intro conversations_ok_update inbound_check) (auto simp: conversations_ok_def)
  with assms(2) Some show ?thesis by (auto simp: recordInbound_def)
qed

lemma recordOutbound_ok:
  assumes "conversations_ok d" and "recordOutbound d t s phone ty at newId = (k, d')"
  shows "conversations_ok d'"
proof (cases "ty = TEMPLATE \<or> contact_by_phone d t phone = None")
  case True
  with assms show ?thesis by (auto simp: recordOutbound_def split: if_splits)
next
  case False
  then obtain c where c: "contact_by_phone d t phone = Some c" by auto
  show ?thesis
  proof (cases "findFirst (conversation_is t s (c_id c)) (conversations d)")
    case None
    with assms(2) conversations_ok_insert [OF assms(1) None new_conversation_check(2)] c False show ?thesis
      by (auto simp: recordOutbound_def new_conversation_def)
  next
    case (Some v)
    have "conversations_ok (d\<lparr>conversations := updateMany (conversation_is t s (c_id c)) (outbound_update at) (conversations d)\<rparr>)"
      using assms(1) by (intro conversations_ok_update outbound_check) auto
    with assms(2) Some c False show ?thesis by (auto simp: recordOutbound_def)
  qed
qed

lemma escalateOverdue_ok:
  assumes "conversations_ok d" and "escalateOverdue d locked now = (n, d')"
  shows "conversations_ok d'"
proof -
  have "conversations_ok (d\<lparr>conversations :=
      updateMany (\<lambda>v. v_id v \<in> set (due_batch (conversations d) locked now) \<and> overdue now v)
        (\<lambda>v. v\<lparr>v_responseSlaEscalatedAt := Some now\<rparr>) (conversations d)\<rparr>)"
    using assms(1)
    by (intro conversations_ok_update) (auto simp: overdue_def responseSlaCycle_check_def split: option.splits)
  with assms(2) show ?thesis by (auto simp: escalateOverdue_def Let_def)
qed

lemma teamTrigger_ok:
  assumes "conversations_ok d"
  shows "conversations_ok (applyConversationTeamResponseSla (d\<lparr>teamAssignments := as\<rparr>) a now)"
proof -
  let ?d = "d\<lparr>teamAssignments := as\<rparr>"
  have ok: "conversations_ok ?d" using assms by (simp add: conversations_ok_def)
  show ?thesis
  proof (cases "findFirst (\<lambda>tm. tm_tenantId tm = ta_tenantId a \<and> tm_id tm = ta_teamId a) (teams d)")
    case None
    with ok show ?thesis by (simp add: applyConversationTeamResponseSla_def)
  next
    case (Some tm)
    then have "responseSlaMinutes_check tm"
      using assms by (auto simp: conversations_ok_def list_all_iff dest: findFirst_SomeD)
    then have pos: "0 < minutes_ms m" if "tm_responseSlaMinutes tm = Some m" for m
      using that by (auto simp: responseSlaMinutes_check_def minutes_ms_def)
    show ?thesis
      using Some ok pos
      by (auto simp: applyConversationTeamResponseSla_def responseSlaCycle_check_def
          intro!: conversations_ok_update [of ?d, simplified] split: option.splits)
  qed
qed

lemma conversation_step_ok: "conversation_step d d' \<Longrightarrow> conversations_ok d \<Longrightarrow> conversations_ok d'"
  by (erule conversation_stepE) (auto intro: recordInbound_ok recordOutbound_ok escalateOverdue_ok teamTrigger_ok)

lemma due_batch_hit:
  assumes "distinct (map v_id rows)" and "v \<in> set rows" and "v_id v \<in> set (due_batch rows locked now)"
  shows "overdue now v \<and> v_id v \<notin> set locked"
proof -
  from assms(3) obtain w where w: "w \<in> set rows" "overdue now w" "v_id w \<notin> set locked" "v_id w = v_id v"
    by (auto simp: due_batch_def dest!: in_set_takeD)
  with assms(1,2) have "w = v" by (auto simp: distinct_map dest: inj_onD)
  with w show ?thesis by simp
qed

text \<open>The scan takes as many rows as the batch allows.\<close>

lemma due_batch_count:
  assumes "distinct (map v_id rows)"
  shows "countWhere (\<lambda>v. v_id v \<in> set (due_batch rows locked now) \<and> overdue now v) rows =
    min ESCALATION_BATCH_SIZE (countWhere (\<lambda>v. overdue now v \<and> v_id v \<notin> set locked) rows)"
proof -
  let ?b = "due_batch rows locked now"
  let ?cand = "filter (\<lambda>v. overdue now v \<and> v_id v \<notin> set locked) rows"
  have cand: "distinct (map v_id ?cand)" using assms by (rule distinct_map_filter)
  let ?sorted = "sort_key (\<lambda>v. case v_responseSlaDueAt v of Some t \<Rightarrow> t | None \<Rightarrow> 0) (sort_key v_id ?cand)"
  have "distinct (map v_id ?sorted)"
    using cand by (simp add: distinct_map)
  then have db: "distinct ?b" by (simp add: due_batch_def)
  have len: "length ?b = min ESCALATION_BATCH_SIZE (length ?cand)" by (simp add: due_batch_def)
  have hit: "filter (\<lambda>v. v_id v \<in> set ?b \<and> overdue now v) rows = filter (\<lambda>v. v_id v \<in> set ?b) rows"
    using due_batch_hit [OF assms] by (auto intro: filter_cong)
  have "set ?b \<subseteq> v_id ` set rows"
    by (auto simp: due_batch_def dest!: in_set_takeD)
  then have "set (map v_id (filter (\<lambda>v. v_id v \<in> set ?b) rows)) = set ?b"
    by auto
  moreover have "distinct (map v_id (filter (\<lambda>v. v_id v \<in> set ?b) rows))"
    using assms by (rule distinct_map_filter)
  ultimately have "length (filter (\<lambda>v. v_id v \<in> set ?b) rows) = length ?b"
    using db by (metis distinct_card length_map)
  with len hit show ?thesis by (simp add: countWhere_def)
qed

section \<open>Properties\<close>

text \<open>
  C10. Inbound and outbound messages, escalation scans and team assignments, in any order: the columns of
  a conversation's response cycle always satisfy the table's check constraint, so no statement of
  these services is refused by the database, and a contact has one conversation per sender.
\<close>

theorem conversation_reachable_ok:
  assumes "conversation_reachable d d'" and "conversations_ok d"
  shows "conversations_ok d'"
  using assms by (induction rule: conversation_reachable.induct) (auto intro: conversation_step_ok)

text \<open>
  \<open>escalateOverdue\<close>: a scan reports how many conversations it escalated, takes as many of the overdue
  unlocked ones as its batch size allows, and none of those it escalated is overdue afterwards.
\<close>

theorem escalateOverdue_progress:
  assumes "distinct (map v_id (conversations d))" and "escalateOverdue d locked now = (n, d')"
  shows "n = min ESCALATION_BATCH_SIZE (countWhere (\<lambda>v. overdue now v \<and> v_id v \<notin> set locked) (conversations d)) \<and>
    countWhere (overdue now) (conversations d') + n = countWhere (overdue now) (conversations d)"
proof -
  let ?hit = "\<lambda>v. v_id v \<in> set (due_batch (conversations d) locked now) \<and> overdue now v"
  have "n = countWhere ?hit (conversations d)"
    and "conversations d' = updateMany ?hit (\<lambda>v. v\<lparr>v_responseSlaEscalatedAt := Some now\<rparr>) (conversations d)"
    using assms(2) by (auto simp: escalateOverdue_def Let_def)
  moreover have "countWhere (overdue now) (updateMany ?hit (\<lambda>v. v\<lparr>v_responseSlaEscalatedAt := Some now\<rparr>) (conversations d)) +
      countWhere ?hit (conversations d) = countWhere (overdue now) (conversations d)"
    by (rule countWhere_updateMany) (auto simp: overdue_def)
  ultimately show ?thesis using due_batch_count [OF assms(1)] by simp
qed

text \<open>A conversation waiting for an answer since time 0, due at time 6.\<close>

definition sample_conversation :: conversation_row where
  "sample_conversation = (new_conversation ''v1'' ''t1'' ''s1'' ''c1'' 0)\<lparr>v_unreadCount := 1, v_lastInboundAt := Some 0,
     v_responseSlaStartedAt := Some 0, v_responseSlaDueAt := Some 6\<rparr>"

definition sample_conversations_db :: db where
  "sample_conversations_db = empty_db\<lparr>conversations := [sample_conversation]\<rparr>"

theorem conversation_reachable_ok_witness:
  "\<exists>d'. conversation_reachable sample_conversations_db d' \<and> conversations_ok d' \<and>
     map v_responseSlaEscalatedAt (conversations d') = [Some 7]"
proof -
  let ?r = "escalateOverdue sample_conversations_db [] 7"
  have ok: "conversations_ok sample_conversations_db"
    by (simp add: conversations_ok_def sample_conversations_db_def sample_conversation_def new_conversation_def
        responseSlaCycle_check_def empty_db_def)
  obtain n d' where r: "?r = (n, d')" by fastforce
  have e: "map v_responseSlaEscalatedAt (conversations (snd ?r)) = [Some 7]"
    by (simp add: escalateOverdue_def due_batch_def sample_conversations_db_def sample_conversation_def new_conversation_def
        overdue_def updateMany_def ESCALATION_BATCH_SIZE_def)
  have reach: "conversation_reachable sample_conversations_db d'"
    by (rule conversation_reachable.step [OF conversation_reachable.start conversation_step.escalate [OF r]])
  show ?thesis
    by (rule exI [of _ d'], rule conjI [OF reach conjI [OF conversation_reachable_ok [OF reach ok]]]) (use e r in simp)
qed

theorem escalateOverdue_progress_witness:
  "fst (escalateOverdue sample_conversations_db [] 7) = 1 \<and>
   countWhere (overdue 7) (conversations (snd (escalateOverdue sample_conversations_db [] 7))) = 0"
proof -
  have d: "distinct (map v_id (conversations sample_conversations_db))"
    by (simp add: sample_conversations_db_def)
  have "countWhere (\<lambda>v. overdue 7 v \<and> v_id v \<notin> set []) (conversations sample_conversations_db) = 1"
    "countWhere (overdue 7) (conversations sample_conversations_db) = 1"
    by code_simp+
  with escalateOverdue_progress [OF d, of "[]" 7 "fst (escalateOverdue sample_conversations_db [] 7)"
      "snd (escalateOverdue sample_conversations_db [] 7)"]
  show ?thesis by (simp add: ESCALATION_BATCH_SIZE_def)
qed

end
