(* ===== verification/Messages.thy ===== *)
theory Messages
  imports Templates Conversations
begin

text \<open>
  src/src/messages: accepting an outbound message (messages.service.ts) with what it calls, the media
  payload rules (media-payload.util.ts), the traffic class (traffic-class.util.ts), the consent and
  service-window policy (outbound-policy.service.ts).

  Node's URL parser is a parameter: \<open>url_parser\<close> maps a string to the components the code looks at, or
  to nothing where \<open>new URL\<close> throws. The tracing carrier stored with the outbox event is an argument.
  The reads of \<open>create\<close> before its transaction and the transaction itself see two database states,
  because other requests may commit in between.
\<close>

section \<open>Traffic classes\<close>

definition deriveTrafficClass :: "MessageType \<Rightarrow> string option \<Rightarrow> MessageTrafficClass" where
  "deriveTrafficClass messageType templateCategory =
     (if messageType \<noteq> TEMPLATE then TRANSACTIONAL
      else case templateCategory of
             None \<Rightarrow> TRANSACTIONAL
           | Some c \<Rightarrow>
               (let k = js_upper (js_trim c)
                in if k = ''AUTHENTICATION'' then OTP else if k = ''MARKETING'' then MARKETING else TRANSACTIONAL))"

section \<open>Media payloads\<close>

record url =
  url_protocol :: string
  url_hostname :: string
  url_username :: string
  url_password :: string
  url_search :: string
  url_hash :: string
  url_href :: string

type_synonym url_parser = "string \<Rightarrow> url option"

definition MEDIA_MESSAGE_TYPES :: "string list" where
  "MEDIA_MESSAGE_TYPES = [''IMAGE'', ''VIDEO'', ''AUDIO'', ''DOCUMENT'']"

definition isMediaMessageType :: "string \<Rightarrow> bool" where
  "isMediaMessageType v \<longleftrightarrow> List.member MEDIA_MESSAGE_TYPES v"

definition quoted :: "string \<Rightarrow> string" where
  "quoted s = [CHR 0x27] @ s @ [CHR 0x27]"

definition field_label :: "string \<Rightarrow> string" where
  "field_label k = '' payload '' @ quoted k"

definition readOptionalString :: "json option \<Rightarrow> string \<Rightarrow> nat \<Rightarrow> string + string option" where
  "readOptionalString value' label maxLength =
     (case value' of
        None \<Rightarrow> Inr None
      | Some (JStr s) \<Rightarrow>
          (let normalized = js_trim s
           in if normalized = [] then Inl (label @ '' cannot be blank'')
              else if length normalized > maxLength
                   then Inl (label @ '' cannot exceed '' @ nat_string maxLength @ '' characters'')
                   else Inr (Some normalized))
      | Some _ \<Rightarrow> Inl (label @ '' must be a string when provided''))"

definition containsControlCharacter :: "string \<Rightarrow> bool" where
  "containsControlCharacter s \<longleftrightarrow> list_ex (\<lambda>c. (of_char c :: nat) \<le> 31 \<or> (of_char c :: nat) = 127) s"

definition validateHttpsLink :: "url_parser \<Rightarrow> string \<Rightarrow> string \<Rightarrow> string option" where
  "validateHttpsLink parse type' value' =
     (case parse value' of
        None \<Rightarrow> Some (type' @ field_label ''link'' @ '' must be an absolute HTTPS URL'')
      | Some url \<Rightarrow>
          if url_protocol url \<noteq> ''https:'' \<or> url_hostname url = []
          then Some (type' @ field_label ''link'' @ '' must be an absolute HTTPS URL'')
          else if url_username url \<noteq> [] \<or> url_password url \<noteq> []
          then Some (type' @ field_label ''link'' @ '' cannot contain embedded credentials'')
          else if url_hash url \<noteq> [] then Some (type' @ field_label ''link'' @ '' cannot contain a URL fragment'')
          else None)"

definition allowedKeys :: "string \<Rightarrow> string list" where
  "allowedKeys type' = [''id'', ''link''] @ (if type' \<noteq> ''AUDIO'' then [''caption''] else []) @
     (if type' = ''DOCUMENT'' then [''filename''] else [])"

definition opt_entry :: "string \<Rightarrow> string option \<Rightarrow> (string \<times> json) list" where
  "opt_entry k v = (case v of None \<Rightarrow> [] | Some s \<Rightarrow> [(k, JStr s)])"

text \<open>An error is the message of the \<open>MediaPayloadError\<close>.\<close>

definition normalize_fields :: "url_parser \<Rightarrow> string \<Rightarrow> (string \<times> json) list \<Rightarrow> string + json" where
  "normalize_fields parse type' kvs =
     bindE (readOptionalString (map_of kvs ''id'') (type' @ field_label ''id'') 512) (\<lambda>idv.
     bindE (readOptionalString (map_of kvs ''link'') (type' @ field_label ''link'') 2048) (\<lambda>link.
     bindE (throwIf ((idv \<noteq> None) = (link \<noteq> None))
             (type' @ '' payload requires exactly one of '' @ quoted ''id'' @ '' or '' @ quoted ''link'')) (\<lambda>_.
     bindE (case link of None \<Rightarrow> Inr () | Some l \<Rightarrow> throwSome (validateHttpsLink parse type' l)) (\<lambda>_.
     bindE (if type' = ''AUDIO'' then Inr None
            else readOptionalString (map_of kvs ''caption'') (type' @ field_label ''caption'') 1024) (\<lambda>caption.
     bindE (if type' = ''DOCUMENT''
            then readOptionalString (map_of kvs ''filename'') (type' @ field_label ''filename'') 240 else Inr None) (\<lambda>filename.
     bindE (throwIf (case filename of None \<Rightarrow> False | Some f \<Rightarrow> containsControlCharacter f)
             (''DOCUMENT'' @ field_label ''filename'' @ '' cannot contain control characters'')) (\<lambda>_.
     Inr (JObj (opt_entry ''id'' idv @ opt_entry ''link'' link @ opt_entry ''caption'' caption @
       opt_entry ''filename'' filename)))))))))"

definition normalizeMediaPayload :: "url_parser \<Rightarrow> string \<Rightarrow> json \<Rightarrow> string + json" where
  "normalizeMediaPayload parse type' input =
     (if \<not> isMediaMessageType type' then Inl (''Unsupported media message type: '' @ type')
      else case input of
        JObj kvs \<Rightarrow>
          (case List.find (\<lambda>k. k \<notin> set (allowedKeys type')) (map fst kvs) of
             Some key \<Rightarrow> Inl (type' @ '' payload contains unsupported field '' @ quoted key)
           | None \<Rightarrow> normalize_fields parse type' kvs)
      | _ \<Rightarrow> Inl (type' @ '' payload must be an object''))"

section \<open>Policy and templates\<close>

datatype OutboundMessageType = TEXT | TEMPLATE | IMAGE | VIDEO | AUDIO | DOCUMENT

fun type_name :: "OutboundMessageType \<Rightarrow> string" where
  "type_name OutboundMessageType.TEXT = ''TEXT''"
| "type_name OutboundMessageType.TEMPLATE = ''TEMPLATE''"
| "type_name OutboundMessageType.IMAGE = ''IMAGE''"
| "type_name OutboundMessageType.VIDEO = ''VIDEO''"
| "type_name OutboundMessageType.AUDIO = ''AUDIO''"
| "type_name OutboundMessageType.DOCUMENT = ''DOCUMENT''"

fun mapType :: "OutboundMessageType \<Rightarrow> MessageType" where
  "mapType OutboundMessageType.TEXT = MessageType.TEXT"
| "mapType OutboundMessageType.TEMPLATE = MessageType.TEMPLATE"
| "mapType OutboundMessageType.IMAGE = MessageType.IMAGE"
| "mapType OutboundMessageType.VIDEO = MessageType.VIDEO"
| "mapType OutboundMessageType.AUDIO = MessageType.AUDIO"
| "mapType OutboundMessageType.DOCUMENT = MessageType.DOCUMENT"

definition assertAllowed :: "db \<Rightarrow> uuid \<Rightarrow> string \<Rightarrow> OutboundMessageType \<Rightarrow> time \<Rightarrow> error + unit" where
  "assertAllowed d tenantId to type' now =
     bindE (ContactsService_findByPhone d tenantId to) (\<lambda>contact.
       if type' = OutboundMessageType.TEMPLATE
       then throwIf (map_option c_consentStatus contact \<noteq> Some ConsentStatus.OPTED_IN)
              (Forbidden ''Template messages require explicit contact opt-in'')
       else case contact of
              None \<Rightarrow> Inl (Forbidden ''Free-form messages require an open 24-hour customer service window'')
            | Some c \<Rightarrow> throwIf (case c_serviceWindowExpiresAt c of None \<Rightarrow> True | Some t \<Rightarrow> t \<le> now)
                (Forbidden ''Free-form messages require an open 24-hour customer service window''))"

section \<open>Accepting a message\<close>

record create_message_dto =
  md_to :: string
  md_type :: OutboundMessageType
  md_senderId :: "uuid option"
  md_payload :: json
  md_idempotencyKey :: "string option"

definition OUTBOUND_REQUESTED_EVENT :: string where
  "OUTBOUND_REQUESTED_EVENT = ''message.outbound.requested''"

fun traffic_name :: "MessageTrafficClass \<Rightarrow> string" where
  "traffic_name OTP = ''OTP''"
| "traffic_name TRANSACTIONAL = ''TRANSACTIONAL''"
| "traffic_name MARKETING = ''MARKETING''"

definition truthy_key :: "string option \<Rightarrow> bool" where
  "truthy_key k \<longleftrightarrow> k \<noteq> None \<and> k \<noteq> Some []"

definition by_idempotency_key :: "db \<Rightarrow> uuid \<Rightarrow> string option \<Rightarrow> message_row option" where
  "by_idempotency_key d tenantId key =
     (if truthy_key key then findFirst (\<lambda>m. m_tenantId m = Some tenantId \<and> m_idempotencyKey m = key) (messages d) else None)"

text \<open>What the checks before the transaction settle.\<close>

record accepted =
  acc_to :: string
  acc_sender :: sender_row
  acc_type :: MessageType
  acc_payload :: json
  acc_trafficClass :: MessageTrafficClass

definition accept_request :: "url_parser \<Rightarrow> db \<Rightarrow> uuid \<Rightarrow> create_message_dto \<Rightarrow> time \<Rightarrow> error + accepted" where
  "accept_request parse d tenantId dto now =
     bindE (assertAllowed d tenantId (md_to dto) (md_type dto) now) (\<lambda>_.
     bindE (normalizePhoneNumber (md_to dto)) (\<lambda>normalizedTo.
     bindE (resolveForTenant d tenantId (md_senderId dto)) (\<lambda>sender.
     bindE (if isMediaMessageType (type_name (md_type dto))
            then (case normalizeMediaPayload parse (type_name (md_type dto)) (md_payload dto) of
                    Inl e \<Rightarrow> Inl (BadRequest e) | Inr p \<Rightarrow> Inr p)
            else Inr (md_payload dto)) (\<lambda>persistedPayload.
     bindE (if md_type dto = OutboundMessageType.TEMPLATE
            then (case s_wabaId sender of
                    None \<Rightarrow> Inl (Unprocessable ''The selected WhatsApp sender is missing its WABA ID'')
                  | Some w \<Rightarrow>
                      if w = [] then Inl (Unprocessable ''The selected WhatsApp sender is missing its WABA ID'')
                      else bindE (assertApproved d tenantId w persistedPayload) (\<lambda>t. Inr (t_category t)))
            else Inr None) (\<lambda>templateCategory.
     Inr \<lparr>acc_to = normalizedTo, acc_sender = sender, acc_type = mapType (md_type dto), acc_payload = persistedPayload,
          acc_trafficClass = deriveTrafficClass (mapType (md_type dto)) templateCategory\<rparr>)))))"

definition outbound_message ::
  "uuid \<Rightarrow> uuid \<Rightarrow> create_message_dto \<Rightarrow> accepted \<Rightarrow> uuid option \<Rightarrow> time \<Rightarrow> message_row" where
  "outbound_message messageId tenantId dto acc conversationId now =
     \<lparr>m_id = messageId, m_tenantId = Some tenantId, m_senderId = Some (s_id (acc_sender acc)), m_conversationId = conversationId,
      m_direction = OUTBOUND, m_trafficClass = acc_trafficClass acc, m_type = acc_type acc, m_status = MessageStatus.QUEUED,
      m_to = Some (acc_to acc), m_from = None, m_providerMessageId = None, m_providerTimestamp = None, m_idempotencyKey = md_idempotencyKey dto,
      m_payload = acc_payload acc, m_providerResponse = None, m_errorCode = None, m_errorMessage = None, m_attemptCount = 0,
      m_lastAttemptAt = None, m_processingLeaseUntil = None, m_createdAt = now, m_submittedAt = None, m_sentAt = None,
      m_deliveredAt = None, m_readAt = None, m_failedAt = None\<rparr>"

definition outbound_requested :: "uuid \<Rightarrow> message_row \<Rightarrow> json option \<Rightarrow> time \<Rightarrow> outbox_row" where
  "outbound_requested eventId message trace now =
     \<lparr>o_id = eventId, o_aggregateType = ''Message'', o_aggregateId = m_id message, o_eventType = OUTBOUND_REQUESTED_EVENT,
      o_payload = JObj ([(''messageId'', JStr (m_id message)), (''trafficClass'', JStr (traffic_name (m_trafficClass message)))] @
        (case trace of None \<Rightarrow> [] | Some t \<Rightarrow> [(''trace'', t)])),
      o_attempts = 0, o_nextAttemptAt = now, o_processingLeaseUntil = None, o_lastError = None, o_publishedAt = None, o_createdAt = now\<rparr>"

text \<open>The unique indexes the insert into \<open>Message\<close> may violate.\<close>

definition message_insertable :: "db \<Rightarrow> message_row \<Rightarrow> bool" where
  "message_insertable d m \<longleftrightarrow> list_all (\<lambda>x. m_id x \<noteq> m_id m \<and>
     \<not> (m_idempotencyKey m \<noteq> None \<and> m_tenantId x = m_tenantId m \<and> m_idempotencyKey x = m_idempotencyKey m)) (messages d)"

definition create_transaction ::
  "db \<Rightarrow> uuid \<Rightarrow> create_message_dto \<Rightarrow> accepted \<Rightarrow> json option \<Rightarrow> uuid \<times> uuid \<times> uuid \<Rightarrow> time \<Rightarrow> (message_row \<times> db) option" where
  "create_transaction d tenantId dto acc trace ids now =
     (case ids of (messageId, eventId, newConversationId) \<Rightarrow>
        let (conversationId, d1) = recordOutbound d tenantId (s_id (acc_sender acc)) (acc_to acc) (acc_type acc) now newConversationId;
            message = outbound_message messageId tenantId dto acc conversationId now
        in if \<not> message_insertable d1 message then None
           else Some (message, d1\<lparr>messages := messages d1 @ [message],
                  statusEvents := statusEvents d1 @ [\<lparr>e_messageId = messageId, e_status = MessageStatus.QUEUED, e_payload = None, e_createdAt = now\<rparr>],
                  outbox := outbox d1 @ [outbound_requested eventId message trace now]\<rparr>))"

definition MessagesService_create ::
  "url_parser \<Rightarrow> db \<Rightarrow> db \<Rightarrow> uuid \<Rightarrow> create_message_dto \<Rightarrow> json option \<Rightarrow> uuid \<times> uuid \<times> uuid \<Rightarrow> time \<Rightarrow> error + message_row \<times> db" where
  "MessagesService_create parse d d' tenantId dto trace ids now =
     (case by_idempotency_key d tenantId (md_idempotencyKey dto) of
        Some existing \<Rightarrow> Inr (existing, d')
      | None \<Rightarrow>
          bindE (accept_request parse d tenantId dto now) (\<lambda>acc.
            case create_transaction d' tenantId dto acc trace ids now of
              Some r \<Rightarrow> Inr r
            | None \<Rightarrow>
                (case by_idempotency_key d' tenantId (md_idempotencyKey dto) of
                   Some existing \<Rightarrow> Inr (existing, d')
                 | None \<Rightarrow> Inl (Conflict ''Unable to create outbound message''))))"

section \<open>Lemmas on payloads\<close>

lemma readOptionalString_result:
  "readOptionalString v l n = Inr (Some s) \<Longrightarrow> s \<noteq> [] \<and> length s \<le> n \<and> js_trim s = s"
  by (auto simp: readOptionalString_def Let_def split: option.splits json.splits if_splits)

lemma readOptionalString_again:
  "s \<noteq> [] \<Longrightarrow> length s \<le> n \<Longrightarrow> js_trim s = s \<Longrightarrow> readOptionalString (Some (JStr s)) l n = Inr (Some s)"
  by (simp add: readOptionalString_def)

lemma readOptionalString_None [simp]: "readOptionalString None l n = Inr None"
  by (simp add: readOptionalString_def)

text \<open>What a normalised payload is: the four fields the function writes, and what each satisfies.\<close>

definition field_ok :: "nat \<Rightarrow> string option \<Rightarrow> bool" where
  "field_ok n v \<longleftrightarrow> (case v of None \<Rightarrow> True | Some s \<Rightarrow> s \<noteq> [] \<and> length s \<le> n \<and> js_trim s = s)"

definition normal_payload :: "url_parser \<Rightarrow> string \<Rightarrow> string option \<Rightarrow> string option \<Rightarrow> string option \<Rightarrow> string option \<Rightarrow> bool" where
  "normal_payload parse type' idv link caption filename \<longleftrightarrow>
     field_ok 512 idv \<and> field_ok 2048 link \<and> field_ok 1024 caption \<and> field_ok 240 filename \<and>
     (idv \<noteq> None) \<noteq> (link \<noteq> None) \<and>
     (case link of None \<Rightarrow> True | Some l \<Rightarrow> validateHttpsLink parse type' l = None) \<and>
     (type' = ''AUDIO'' \<longrightarrow> caption = None) \<and> (type' \<noteq> ''DOCUMENT'' \<longrightarrow> filename = None) \<and>
     (case filename of None \<Rightarrow> True | Some f \<Rightarrow> \<not> containsControlCharacter f)"

definition payload_object :: "string option \<Rightarrow> string option \<Rightarrow> string option \<Rightarrow> string option \<Rightarrow> json" where
  "payload_object idv link caption filename =
     JObj (opt_entry ''id'' idv @ opt_entry ''link'' link @ opt_entry ''caption'' caption @ opt_entry ''filename'' filename)"

lemma readOptionalString_ok: "readOptionalString v l n = Inr r \<Longrightarrow> field_ok n r"
  by (cases r) (auto simp: field_ok_def dest: readOptionalString_result)

lemma normalize_fields_sound:
  assumes "normalize_fields parse type' kvs = Inr q"
  shows "\<exists>idv link caption filename. q = payload_object idv link caption filename \<and>
     normal_payload parse type' idv link caption filename"
proof -
  from assms obtain idv link caption filename u where
      1: "readOptionalString (map_of kvs ''id'') (type' @ field_label ''id'') 512 = Inr idv"
    and 2: "readOptionalString (map_of kvs ''link'') (type' @ field_label ''link'') 2048 = Inr link"
    and x: "(idv \<noteq> None) \<noteq> (link \<noteq> None)"
    and u: "(case link of None \<Rightarrow> Inr () | Some l \<Rightarrow> throwSome (validateHttpsLink parse type' l)) = Inr u"
    and 3: "(if type' = ''AUDIO'' then Inr None
        else readOptionalString (map_of kvs ''caption'') (type' @ field_label ''caption'') 1024) = Inr caption"
    and 4: "(if type' = ''DOCUMENT'' then readOptionalString (map_of kvs ''filename'') (type' @ field_label ''filename'') 240
        else Inr None) = Inr filename"
    and f: "\<not> (case filename of None \<Rightarrow> False | Some f \<Rightarrow> containsControlCharacter f)"
    and q: "q = payload_object idv link caption filename"
    unfolding normalize_fields_def bindE_Inr throwIf_Inr payload_object_def by blast
  have "field_ok 512 idv" "field_ok 2048 link" using 1 2 by (auto dest: readOptionalString_ok)
  moreover have "field_ok 1024 caption"
    using 3 readOptionalString_ok by (cases "type' = ''AUDIO''") (auto simp: field_ok_def)
  moreover have "field_ok 240 filename"
    using 4 readOptionalString_ok by (cases "type' = ''DOCUMENT''") (auto simp: field_ok_def)
  moreover have "type' = ''AUDIO'' \<longrightarrow> caption = None" "type' \<noteq> ''DOCUMENT'' \<longrightarrow> filename = None"
    using 3 4 by auto
  moreover have "case link of None \<Rightarrow> True | Some l \<Rightarrow> validateHttpsLink parse type' l = None"
    using u by (cases link) (auto simp: throwSome_Inr)
  ultimately have "normal_payload parse type' idv link caption filename"
    unfolding normal_payload_def using x f by (cases filename) auto
  with q show ?thesis by blast
qed

lemma normalizeMediaPayload_sound:
  assumes "normalizeMediaPayload parse type' p = Inr q"
  shows "isMediaMessageType type' \<and> (\<exists>idv link caption filename. q = payload_object idv link caption filename \<and>
     normal_payload parse type' idv link caption filename)"
  using assms normalize_fields_sound [of parse type' _ q]
  by (auto simp: normalizeMediaPayload_def split: if_splits json.splits option.splits)

lemma find_all_None: "list_all (\<lambda>x. \<not> P x) xs \<Longrightarrow> List.find P xs = None"
  by (induction xs) auto

lemma map_of_payload:
  "map_of (opt_entry ''id'' i @ opt_entry ''link'' l @ opt_entry ''caption'' c @ opt_entry ''filename'' f) ''id'' = map_option JStr i"
  "map_of (opt_entry ''id'' i @ opt_entry ''link'' l @ opt_entry ''caption'' c @ opt_entry ''filename'' f) ''link'' = map_option JStr l"
  "map_of (opt_entry ''id'' i @ opt_entry ''link'' l @ opt_entry ''caption'' c @ opt_entry ''filename'' f) ''caption'' = map_option JStr c"
  "map_of (opt_entry ''id'' i @ opt_entry ''link'' l @ opt_entry ''caption'' c @ opt_entry ''filename'' f) ''filename'' = map_option JStr f"
  by (cases i; cases l; cases c; cases f; simp add: opt_entry_def)+

lemma readOptionalString_fixed: "field_ok n v \<Longrightarrow> readOptionalString (map_option JStr v) l n = Inr v"
  by (cases v) (auto simp: field_ok_def readOptionalString_again)

lemma normalizeMediaPayload_fixed:
  assumes m: "isMediaMessageType type'" and n: "normal_payload parse type' idv link caption filename"
  shows "normalizeMediaPayload parse type' (payload_object idv link caption filename) = Inr (payload_object idv link caption filename)"
proof -
  let ?kvs = "opt_entry ''id'' idv @ opt_entry ''link'' link @ opt_entry ''caption'' caption @ opt_entry ''filename'' filename"
  have k: "List.find (\<lambda>k. k \<notin> set (allowedKeys type')) (map fst ?kvs) = None"
    by (rule find_all_None)
      (use n in \<open>cases idv; cases link; cases caption; cases filename; auto simp: allowedKeys_def opt_entry_def normal_payload_def\<close>)
  have "normalize_fields parse type' ?kvs = Inr (JObj ?kvs)"
    using n unfolding normalize_fields_def map_of_payload normal_payload_def
    by (auto simp: readOptionalString_fixed split: option.splits)
  with m k show ?thesis by (simp add: normalizeMediaPayload_def payload_object_def)
qed

section \<open>Lemmas on acceptance\<close>

lemma recordOutbound_frame:
  "recordOutbound d t s p ty at k = (c, d1) \<Longrightarrow> messages d1 = messages d \<and> statusEvents d1 = statusEvents d \<and> outbox d1 = outbox d"
  by (auto simp: recordOutbound_def split: if_splits option.splits)

lemma create_transaction_tables:
  assumes "create_transaction d tenantId dto acc trace ids now = Some (m, d')"
  shows "campaigns d' = campaigns d \<and> campaignRecipients d' = campaignRecipients d"
proof -
  obtain a b k where ids: "ids = (a, b, k)" by (cases ids) auto
  obtain c d1 where r: "recordOutbound d tenantId (s_id (acc_sender acc)) (acc_to acc) (acc_type acc) now k = (c, d1)" by fastforce
  then have "campaigns d1 = campaigns d \<and> campaignRecipients d1 = campaignRecipients d"
    by (auto simp: recordOutbound_def split: if_splits option.splits)
  with assms r show ?thesis by (auto simp: create_transaction_def ids Let_def split: if_splits)
qed

lemma create_transaction_Some:
  assumes "create_transaction d tenantId dto acc trace (messageId, eventId, cid) now = Some (m, d')"
  shows "\<exists>c. m = outbound_message messageId tenantId dto acc c now \<and> messages d' = messages d @ [m] \<and>
    message_insertable d m \<and>
    statusEvents d' = statusEvents d @ [\<lparr>e_messageId = messageId, e_status = MessageStatus.QUEUED, e_payload = None, e_createdAt = now\<rparr>] \<and>
    outbox d' = outbox d @ [outbound_requested eventId m trace now]"
proof -
  obtain c d1 where r: "recordOutbound d tenantId (s_id (acc_sender acc)) (acc_to acc) (acc_type acc) now cid = (c, d1)"
    by fastforce
  with assms recordOutbound_frame [OF r] show ?thesis
    by (auto simp: create_transaction_def Let_def message_insertable_def split: if_splits)
qed

lemma create_transaction_None:
  assumes "create_transaction d tenantId dto acc trace (messageId, eventId, cid) now = None"
  shows "\<exists>c. \<not> message_insertable d (outbound_message messageId tenantId dto acc c now)"
proof -
  obtain c d1 where r: "recordOutbound d tenantId (s_id (acc_sender acc)) (acc_to acc) (acc_type acc) now cid = (c, d1)"
    by fastforce
  with assms recordOutbound_frame [OF r] show ?thesis
    by (auto simp: create_transaction_def Let_def message_insertable_def split: if_splits)
qed

lemma outbound_message_sel [simp]:
  "m_id (outbound_message k t dto acc c now) = k" "m_tenantId (outbound_message k t dto acc c now) = Some t"
  "m_idempotencyKey (outbound_message k t dto acc c now) = md_idempotencyKey dto"
  "m_status (outbound_message k t dto acc c now) = MessageStatus.QUEUED"
  "m_trafficClass (outbound_message k t dto acc c now) = acc_trafficClass acc"
  "m_type (outbound_message k t dto acc c now) = acc_type acc"
  "m_to (outbound_message k t dto acc c now) = Some (acc_to acc)"
  "m_direction (outbound_message k t dto acc c now) = OUTBOUND"
  "m_payload (outbound_message k t dto acc c now) = acc_payload acc"
  "m_senderId (outbound_message k t dto acc c now) = Some (s_id (acc_sender acc))"
  "m_providerMessageId (outbound_message k t dto acc c now) = None"
  by (simp_all add: outbound_message_def)

text \<open>A request that is not a replay either inserts its message or returns one another request inserted.\<close>

lemma create_inserts:
  assumes "MessagesService_create parse d d' tenantId dto trace (messageId, eventId, cid) now = Inr (m, d'')"
    and "length (messages d'') = Suc (length (messages d'))"
  shows "\<exists>acc. accept_request parse d tenantId dto now = Inr acc \<and>
     create_transaction d' tenantId dto acc trace (messageId, eventId, cid) now = Some (m, d'')"
  using assms
  by (auto simp: MessagesService_create_def bindE_Inr split: option.splits)

lemma accept_request_policy:
  assumes "accept_request parse d tenantId dto now = Inr acc"
  shows "assertAllowed d tenantId (md_to dto) (md_type dto) now = Inr () \<and> normalizePhoneNumber (md_to dto) = Inr (acc_to acc) \<and>
    acc_type acc = mapType (md_type dto) \<and> resolveForTenant d tenantId (md_senderId dto) = Inr (acc_sender acc)"
  using assms unfolding accept_request_def bindE_Inr by (elim exE conjE) (drule Inr_inject, hypsubst, simp)

lemma assertAllowed_template:
  assumes "assertAllowed d tenantId to OutboundMessageType.TEMPLATE now = Inr u" and "normalizePhoneNumber to = Inr p"
  shows "\<exists>c. contact_by_phone d tenantId p = Some c \<and> c_consentStatus c = ConsentStatus.OPTED_IN"
  using assms by (auto simp: assertAllowed_def bindE_Inr ContactsService_findByPhone_def split: if_splits)

lemma assertAllowed_freeform:
  assumes "assertAllowed d tenantId to ty now = Inr u" and "ty \<noteq> OutboundMessageType.TEMPLATE" and "normalizePhoneNumber to = Inr p"
  shows "\<exists>c w. contact_by_phone d tenantId p = Some c \<and> c_serviceWindowExpiresAt c = Some w \<and> now < w"
  using assms
  by (auto simp: assertAllowed_def bindE_Inr ContactsService_findByPhone_def split: if_splits option.splits)

lemma contact_by_phone_SomeD:
  "contact_by_phone d t p = Some c \<Longrightarrow> c \<in> set (contacts d) \<and> c_tenantId c = t \<and> c_phone c = p"
  unfolding contact_by_phone_def by (drule findFirst_SomeD) simp

lemma mapType_template [simp]: "mapType ty = MessageType.TEMPLATE \<longleftrightarrow> ty = OutboundMessageType.TEMPLATE"
  by (cases ty) auto

section \<open>Invariants of the message table\<close>

definition message_keys_ok :: "db \<Rightarrow> bool" where
  "message_keys_ok d \<longleftrightarrow> distinct (map m_id (messages d)) \<and>
     distinct (map (\<lambda>m. (m_tenantId m, m_idempotencyKey m)) (filter (\<lambda>m. m_idempotencyKey m \<noteq> None) (messages d)))"

definition requested_event_for :: "outbox_row \<Rightarrow> message_row \<Rightarrow> bool" where
  "requested_event_for ev m \<longleftrightarrow> o_aggregateType ev = ''Message'' \<and> o_aggregateId ev = m_id m \<and>
     o_eventType ev = OUTBOUND_REQUESTED_EVENT \<and> json_get (o_payload ev) ''messageId'' = Some (JStr (m_id m)) \<and>
     json_get (o_payload ev) ''trafficClass'' = Some (JStr (traffic_name (m_trafficClass m)))"

definition outbox_complete :: "db \<Rightarrow> bool" where
  "outbox_complete d \<longleftrightarrow> list_all (\<lambda>m. m_direction m = OUTBOUND \<longrightarrow> list_ex (\<lambda>ev. requested_event_for ev m) (outbox d)) (messages d)"

section \<open>Properties\<close>

text \<open>
  \<open>normalizeMediaPayload\<close>: what it returns has exactly one of id and link, only fields its message type
  allows, each trimmed, non-empty and within its length, a link that passed the URL checks and a file
  name without control characters; and normalising it again changes nothing.
\<close>

theorem normalizeMediaPayload_normal:
  assumes "normalizeMediaPayload parse type' p = Inr q"
  shows "(\<exists>idv link caption filename. q = payload_object idv link caption filename \<and>
      normal_payload parse type' idv link caption filename) \<and> normalizeMediaPayload parse type' q = Inr q"
  using normalizeMediaPayload_sound [OF assms] normalizeMediaPayload_fixed by blast


text \<open>
  C12. The transactional outbox of \<open>create\<close>: every outbound message has an event that asks for its publication
  with its own id and traffic class; \<open>create\<close> keeps this, the uniqueness of message ids and of a tenant's
  idempotency keys, whether it inserts, replays or fails.
\<close>

theorem create_keeps_outbox_complete:
  assumes "MessagesService_create parse d d' tenantId dto trace (messageId, eventId, cid) now = Inr (m, d'')"
    and "outbox_complete d'" and "message_keys_ok d'"
  shows "outbox_complete d'' \<and> message_keys_ok d'' \<and>
    (d'' = d' \<or> messages d'' = messages d' @ [m] \<and> (\<exists>ev. outbox d'' = outbox d' @ [ev] \<and> requested_event_for ev m))"
proof (cases "d'' = d'")
  case True
  with assms show ?thesis by simp
next
  case False
  with assms(1) obtain acc where "create_transaction d' tenantId dto acc trace (messageId, eventId, cid) now = Some (m, d'')"
    by (auto simp: MessagesService_create_def bindE_Inr split: option.splits)
  from create_transaction_Some [OF this]
  have m: "messages d'' = messages d' @ [m]" "message_insertable d' m" "outbox d'' = outbox d' @ [outbound_requested eventId m trace now]"
    by auto
  have ev: "requested_event_for (outbound_requested eventId m trace now) m"
    by (simp add: requested_event_for_def outbound_requested_def)
  have "outbox_complete d''"
    using assms(2) ev by (auto simp: outbox_complete_def m list_all_iff)
  moreover have "message_keys_ok d''"
    using assms(3) m(2) by (auto simp: message_keys_ok_def m message_insertable_def list_all_iff)
  ultimately show ?thesis using m ev by blast
qed


text \<open>A tenant with an opted-in contact, two senders and an approved marketing template.\<close>

definition sample_template :: template_row where
  "sample_template = \<lparr>t_id = ''p1'', t_tenantId = ''t1'', t_wabaId = ''900'', t_providerTemplateId = ''77'', t_name = ''welcome'',
     t_language = ''en'', t_category = Some ''MARKETING'', t_status = ''APPROVED'',
     t_components = None, t_qualityScore = None, t_rejectionReason = None, t_providerPayload = None, t_lastSyncedAt = None\<rparr>"

definition sample_messages_db :: db where
  "sample_messages_db = sample_contacts_db\<lparr>senders := senders sample_senders_db, templates := [sample_template]\<rparr>"

definition sample_request :: create_message_dto where
  "sample_request = \<lparr>md_to = ''+96170123456'', md_type = OutboundMessageType.TEMPLATE, md_senderId = Some ''s1'',
     md_payload = JObj [(''name'', JStr ''welcome''), (''language'', JStr ''en'')], md_idempotencyKey = Some ''k1''\<rparr>"

definition sample_url_parser :: url_parser where
  "sample_url_parser s = Some \<lparr>url_protocol = ''https:'', url_hostname = ''example.org'', url_username = [], url_password = [], url_search = [],
     url_hash = [], url_href = s\<rparr>"

lemma sample_messages_ok:
  "consent_matches_log sample_messages_db" "outbox_complete sample_messages_db" "message_keys_ok sample_messages_db"
  by (simp_all add: consent_matches_log_def sample_messages_db_def sample_contacts_db_def sample_contact_def empty_db_def
      events_of_def in_force_def outbox_complete_def message_keys_ok_def)

lemma sample_create:
  "\<exists>m d''. MessagesService_create sample_url_parser sample_messages_db sample_messages_db ''t1'' sample_request None (''m1'', ''o1'', ''v1'') 200 =
     Inr (m, d'') \<and> length (messages d'') = Suc (length (messages sample_messages_db)) \<and> m_type m = MessageType.TEMPLATE \<and>
     m_trafficClass m = MARKETING \<and> by_idempotency_key sample_messages_db ''t1'' (md_idempotencyKey sample_request) = None \<and>
     (\<exists>acc. accept_request sample_url_parser sample_messages_db ''t1'' sample_request 200 = Inr acc)"
proof -
  have "case MessagesService_create sample_url_parser sample_messages_db sample_messages_db ''t1'' sample_request None (''m1'', ''o1'', ''v1'') 200 of
      Inl e \<Rightarrow> False | Inr (m, d'') \<Rightarrow> length (messages d'') = Suc (length (messages sample_messages_db)) \<and>
      m_type m = MessageType.TEMPLATE \<and> m_trafficClass m = MARKETING"
    by code_simp
  moreover have "by_idempotency_key sample_messages_db ''t1'' (md_idempotencyKey sample_request) = None" by code_simp
  moreover have "case accept_request sample_url_parser sample_messages_db ''t1'' sample_request 200 of Inl e \<Rightarrow> False | Inr acc \<Rightarrow> True"
    by code_simp
  ultimately show ?thesis by (auto split: sum.splits)
qed

theorem normalizeMediaPayload_normal_witness:
  "\<exists>q. normalizeMediaPayload sample_url_parser ''IMAGE'' (JObj [(''link'', JStr '' https://example.org/a.png ''), (''caption'', JStr ''hi'')]) = Inr q \<and>
     normalizeMediaPayload sample_url_parser ''IMAGE'' q = Inr q"
proof -
  have "case normalizeMediaPayload sample_url_parser ''IMAGE'' (JObj [(''link'', JStr '' https://example.org/a.png ''), (''caption'', JStr ''hi'')]) of
      Inl e \<Rightarrow> False | Inr q \<Rightarrow> True"
    by code_simp
  then obtain q where "normalizeMediaPayload sample_url_parser ''IMAGE'' (JObj [(''link'', JStr '' https://example.org/a.png ''), (''caption'', JStr ''hi'')]) = Inr q"
    by (auto split: sum.splits)
  with normalizeMediaPayload_normal [OF this] show ?thesis by blast
qed


theorem create_keeps_outbox_complete_witness:
  "\<exists>m d''. MessagesService_create sample_url_parser sample_messages_db sample_messages_db ''t1'' sample_request None (''m1'', ''o1'', ''v1'') 200 = Inr (m, d'') \<and>
     outbox_complete d'' \<and> (\<exists>ev. outbox d'' = outbox sample_messages_db @ [ev] \<and> requested_event_for ev m)"
proof -
  from sample_create obtain m d'' where r: "MessagesService_create sample_url_parser sample_messages_db sample_messages_db ''t1'' sample_request None (''m1'', ''o1'', ''v1'') 200 = Inr (m, d'')"
      "length (messages d'') = Suc (length (messages sample_messages_db))" by blast
  have "d'' \<noteq> sample_messages_db" using r(2) by auto
  with create_keeps_outbox_complete [OF r(1) sample_messages_ok(2,3)] r(1) show ?thesis by blast
qed


end
