(* ===== verification/Queue.thy ===== *)
theory Queue
  imports Js_Number Messages
begin

text \<open>
  src/src/queue/messaging-queue.service.ts: the queues per traffic class, publishing, and what becomes of a
  delivery. The broker and the handlers are parameters: \<open>confirms\<close> says which of the messages sent the broker
  confirms (where it does not, \<open>waitForConfirms\<close> rejects), a handler is a function on a state of its own
  that may throw, and the validation of a trace carrier is a function from JSON. \<open>num\<close> renders a
  number as \<open>String(n)\<close> does.

  The results: an acknowledged delivery was handled or handed over to a confirmed copy; a message that keeps
  failing takes the configured delays one after the other and then ends in the dead queue; and
  the queues of different classes never coincide.
\<close>

section \<open>Jobs and messages\<close>

record TraceCarrier =
  tc_traceId :: string
  tc_requestId :: "string option"
  tc_parentSpanId :: "string option"
  tc_traceFlags :: "string option"

record OutboundQueueJob =
  job_messageId :: uuid
  job_attempt :: nat
  job_trafficClass :: MessageTrafficClass
  job_trace :: "TraceCarrier option"

datatype action = Ack | Retry | Defer | Dead

record QueueProcessingResult =
  res_action :: action
  res_reason :: "string option"

datatype header = HNum rat | HStr string

record queue_send =
  qs_queue :: string
  qs_body :: json
  qs_messageId :: "string option"
  qs_headers :: "(string \<times> header) list"

text \<open>A delivery: the parsed content (\<open>None\<close> where \<open>JSON.parse\<close> throws) and the headers.\<close>

record ConsumeMessage =
  cm_content :: "json option"
  cm_headers :: "(string \<times> header) list"

record queue_config =
  qc_queueName :: "string option"
  qc_retryDelays :: "string option"
  qc_prefetch :: "string option"
  qc_prefetchOtp :: "string option"
  qc_prefetchTransactional :: "string option"
  qc_prefetchMarketing :: "string option"

definition TRAFFIC_CLASSES :: "MessageTrafficClass list" where
  "TRAFFIC_CLASSES = [OTP, TRANSACTIONAL, MARKETING]"

section \<open>Configuration\<close>

definition baseQueueName :: "queue_config \<Rightarrow> string" where
  "baseQueueName cfg = (case qc_queueName cfg of Some n \<Rightarrow> n | None \<Rightarrow> ''whatsapp.outbound'')"

definition trafficQueueName :: "queue_config \<Rightarrow> MessageTrafficClass \<Rightarrow> string" where
  "trafficQueueName cfg c = baseQueueName cfg @ ''.'' @ js_lower (traffic_name c)"

definition trafficDeadQueueName :: "queue_config \<Rightarrow> MessageTrafficClass \<Rightarrow> string" where
  "trafficDeadQueueName cfg c = trafficQueueName cfg c @ ''.dead''"

definition trafficRetryQueueName :: "(rat \<Rightarrow> string) \<Rightarrow> queue_config \<Rightarrow> MessageTrafficClass \<Rightarrow> rat \<Rightarrow> string" where
  "trafficRetryQueueName num cfg c delayMs = trafficQueueName cfg c @ ''.retry.'' @ num delayMs"

definition retryDelays :: "queue_config \<Rightarrow> rat list" where
  "retryDelays cfg =
     (let raw = (case qc_retryDelays cfg of Some r \<Rightarrow> r | None \<Rightarrow> ''5000,30000,120000,600000'');
          values = filter (\<lambda>v. v > 0) (List.map_filter (\<lambda>v. js_number (js_trim v)) (split_comma raw))
      in if length values > 0 then values else [5000, 30000, 120000, 600000])"

definition positiveInteger :: "string option \<Rightarrow> nat \<Rightarrow> nat" where
  "positiveInteger raw fallback =
     (case raw of
        None \<Rightarrow> fallback
      | Some s \<Rightarrow> (case js_number s of
                     None \<Rightarrow> fallback
                   | Some r \<Rightarrow> (case rat_nat r of Some n \<Rightarrow> if n > 0 then n else fallback | None \<Rightarrow> fallback)))"

definition prefetchFor :: "queue_config \<Rightarrow> MessageTrafficClass \<Rightarrow> nat" where
  "prefetchFor cfg c =
     (let base = positiveInteger (qc_prefetch cfg) 20
      in case c of
           OTP \<Rightarrow> positiveInteger (qc_prefetchOtp cfg) (max 5 ((base + 1) div 2))
         | TRANSACTIONAL \<Rightarrow> positiveInteger (qc_prefetchTransactional cfg) base
         | MARKETING \<Rightarrow> positiveInteger (qc_prefetchMarketing cfg) (max 1 ((base + 3) div 4)))"

section \<open>Queues the service declares\<close>

text \<open>A declared queue: its name, its time to live and where dead-lettered messages are routed.\<close>

record queue_declaration =
  qd_name :: string
  qd_ttl :: "rat option"
  qd_deadLetterRoutingKey :: "string option"

definition assertTrafficTopology :: "(rat \<Rightarrow> string) \<Rightarrow> queue_config \<Rightarrow> MessageTrafficClass \<Rightarrow> queue_declaration list" where
  "assertTrafficTopology num cfg c =
     (let queueName = trafficQueueName cfg c; deadQueueName = trafficDeadQueueName cfg c
      in [\<lparr>qd_name = deadQueueName, qd_ttl = None, qd_deadLetterRoutingKey = None\<rparr>,
          \<lparr>qd_name = queueName, qd_ttl = None, qd_deadLetterRoutingKey = Some deadQueueName\<rparr>] @
         map (\<lambda>delay. \<lparr>qd_name = trafficRetryQueueName num cfg c delay, qd_ttl = Some delay, qd_deadLetterRoutingKey = Some queueName\<rparr>)
           (retryDelays cfg))"

definition assertLegacyTopology :: "(rat \<Rightarrow> string) \<Rightarrow> queue_config \<Rightarrow> queue_declaration list" where
  "assertLegacyTopology num cfg =
     (let queueName = baseQueueName cfg; deadQueueName = queueName @ ''.dead''
      in [\<lparr>qd_name = deadQueueName, qd_ttl = None, qd_deadLetterRoutingKey = None\<rparr>,
          \<lparr>qd_name = queueName, qd_ttl = None, qd_deadLetterRoutingKey = Some deadQueueName\<rparr>] @
         map (\<lambda>delay. \<lparr>qd_name = queueName @ ''.retry.'' @ num delay, qd_ttl = Some delay, qd_deadLetterRoutingKey = Some queueName\<rparr>)
           (retryDelays cfg))"

section \<open>Sending\<close>

definition truthy :: "string option \<Rightarrow> bool" where
  "truthy s \<longleftrightarrow> s \<noteq> None \<and> s \<noteq> Some []"

definition traceHeaders :: "TraceCarrier option \<Rightarrow> (string \<times> header) list" where
  "traceHeaders trace =
     (case trace of
        None \<Rightarrow> []
      | Some t \<Rightarrow>
          [(''x-trace-id'', HStr (tc_traceId t))] @
          (case tc_requestId t of Some r \<Rightarrow> if r = [] then [] else [(''x-request-id'', HStr r)] | None \<Rightarrow> []) @
          (case tc_parentSpanId t of
             Some p \<Rightarrow> if p = [] then [] else
               [(''traceparent'', HStr (''00-'' @ tc_traceId t @ ''-'' @ p @ ''-'' @
                  (case tc_traceFlags t of Some f \<Rightarrow> f | None \<Rightarrow> ''01'')))]
           | None \<Rightarrow> []))"

definition opt_str :: "string \<Rightarrow> string option \<Rightarrow> (string \<times> json) list" where
  "opt_str k v = (case v of None \<Rightarrow> [] | Some s \<Rightarrow> [(k, JStr s)])"

definition trace_json :: "TraceCarrier option \<Rightarrow> (string \<times> json) list" where
  "trace_json trace =
     (case trace of None \<Rightarrow> []
      | Some t \<Rightarrow> [(''trace'', JObj ([(''traceId'', JStr (tc_traceId t))] @ opt_str ''requestId'' (tc_requestId t) @
          opt_str ''parentSpanId'' (tc_parentSpanId t) @ opt_str ''traceFlags'' (tc_traceFlags t)))])"

definition job_send :: "string \<Rightarrow> uuid \<Rightarrow> MessageTrafficClass \<Rightarrow> TraceCarrier option \<Rightarrow> nat \<Rightarrow> string option \<Rightarrow> queue_send" where
  "job_send queue messageId c trace retryCount reason =
     \<lparr>qs_queue = queue,
      qs_body = JObj ([(''messageId'', JStr messageId), (''trafficClass'', JStr (traffic_name c))] @ trace_json trace),
      qs_messageId = Some messageId,
      qs_headers = [(''x-retry-count'', HNum (of_nat retryCount)), (''x-traffic-class'', HStr (traffic_name c))] @
        traceHeaders trace @
        (case reason of Some r \<Rightarrow> if r = [] then [] else [(''x-last-error'', HStr (take 512 r))] | None \<Rightarrow> [])\<rparr>"

definition publishOutboundMessage ::
  "queue_config \<Rightarrow> (queue_send \<Rightarrow> bool) \<Rightarrow> uuid \<Rightarrow> MessageTrafficClass \<Rightarrow> TraceCarrier option \<Rightarrow> bool \<times> queue_send" where
  "publishOutboundMessage cfg confirms messageId c trace =
     (let s = job_send (trafficQueueName cfg c) messageId c trace 0 None in (confirms s, s))"

definition scheduleDeferredRetry :: "(rat \<Rightarrow> string) \<Rightarrow> queue_config \<Rightarrow> OutboundQueueJob \<Rightarrow> string option \<Rightarrow> queue_send" where
  "scheduleDeferredRetry num cfg job reason =
     (let delay = foldl min (hd (retryDelays cfg)) (tl (retryDelays cfg))
      in job_send (trafficRetryQueueName num cfg (job_trafficClass job) delay) (job_messageId job) (job_trafficClass job)
           (job_trace job) (job_attempt job) reason)"

definition scheduleRetry :: "(rat \<Rightarrow> string) \<Rightarrow> queue_config \<Rightarrow> OutboundQueueJob \<Rightarrow> string option \<Rightarrow> queue_send option" where
  "scheduleRetry num cfg job reason =
     (let delays = retryDelays cfg
      in if job_attempt job \<ge> length delays then None
         else Some (job_send (trafficRetryQueueName num cfg (job_trafficClass job) (delays ! job_attempt job)) (job_messageId job)
                (job_trafficClass job) (job_trace job) (job_attempt job + 1) reason))"

definition publishDeadLetter ::
  "queue_config \<Rightarrow> MessageTrafficClass \<Rightarrow> uuid option \<Rightarrow> string option \<Rightarrow> TraceCarrier option \<Rightarrow> string \<Rightarrow> queue_send" where
  "publishDeadLetter cfg c messageId reason trace failedAt =
     \<lparr>qs_queue = trafficDeadQueueName cfg c,
      qs_body = JObj ([(''messageId'', case messageId of Some k \<Rightarrow> JStr k | None \<Rightarrow> JNull), (''trafficClass'', JStr (traffic_name c)),
        (''reason'', JStr (case reason of Some r \<Rightarrow> r | None \<Rightarrow> ''Unknown failure'')), (''failedAt'', JStr failedAt)] @ trace_json trace),
      qs_messageId = messageId,
      qs_headers = [(''x-traffic-class'', HStr (traffic_name c))] @ traceHeaders trace\<rparr>"

section \<open>Receiving\<close>

definition parseMessage :: "(json option \<Rightarrow> TraceCarrier option) \<Rightarrow> ConsumeMessage \<Rightarrow> (uuid \<times> TraceCarrier option) option" where
  "parseMessage parseCarrier m =
     (case cm_content m of
        None \<Rightarrow> None
      | Some value' \<Rightarrow>
          (case json_get value' ''messageId'' of
             Some (JStr k) \<Rightarrow> if k = [] then None else Some (k, parseCarrier (json_get value' ''trace''))
           | _ \<Rightarrow> None))"

definition retryCount :: "ConsumeMessage \<Rightarrow> nat" where
  "retryCount m =
     (case map_of (cm_headers m) ''x-retry-count'' of
        Some (HNum r) \<Rightarrow> (case rat_nat r of Some n \<Rightarrow> n | None \<Rightarrow> 0)
      | _ \<Rightarrow> 0)"

text \<open>
  How a delivery ends: acknowledged, returned to its queue, or neither (the promise rejected outside the try
  block, so the broker redelivers when the channel closes).
\<close>

datatype settlement = Acked | Requeued | Unsettled

type_synonym 's handler = "OutboundQueueJob \<Rightarrow> 's \<Rightarrow> (string + QueueProcessingResult) \<times> 's"
type_synonym 's exhausted_handler = "OutboundQueueJob \<Rightarrow> string option \<Rightarrow> 's \<Rightarrow> (string + unit) \<times> 's"

record 's queue_env =
  qe_config :: queue_config
  qe_num :: "rat \<Rightarrow> string"
  qe_confirms :: "queue_send \<Rightarrow> bool"
  qe_parseCarrier :: "json option \<Rightarrow> TraceCarrier option"
  qe_handler :: "'s handler"
  qe_onExhausted :: "'s exhausted_handler"
  qe_failedAt :: string

text \<open>\<open>send; await waitForConfirms(); channel.ack(message)\<close> inside the try block.\<close>

definition send_and_ack :: "'s queue_env \<Rightarrow> queue_send \<Rightarrow> 's \<Rightarrow> settlement \<times> queue_send list \<times> 's" where
  "send_and_ack env s st = (if qe_confirms env s then Acked else Requeued, [s], st)"

definition processDelivery ::
  "'s queue_env \<Rightarrow> ConsumeMessage \<Rightarrow> MessageTrafficClass \<Rightarrow> 's \<Rightarrow> settlement \<times> queue_send list \<times> 's" where
  "processDelivery env m c st =
     (let cfg = qe_config env in
      case parseMessage (qe_parseCarrier env) m of
        None \<Rightarrow>
          (let s = publishDeadLetter cfg c None (Some ''Malformed outbound queue message'') None (qe_failedAt env)
           in (if qe_confirms env s then Acked else Unsettled, [s], st))
      | Some (messageId, trace) \<Rightarrow>
          (let job = \<lparr>job_messageId = messageId, job_attempt = retryCount m, job_trafficClass = c, job_trace = trace\<rparr>
           in case qe_handler env job st of
                (Inl _, st') \<Rightarrow> (Requeued, [], st')
              | (Inr result, st') \<Rightarrow>
                  (case res_action result of
                     Ack \<Rightarrow> (Acked, [], st')
                   | Dead \<Rightarrow> send_and_ack env (publishDeadLetter cfg c (Some messageId) (res_reason result) trace (qe_failedAt env)) st'
                   | Defer \<Rightarrow> send_and_ack env (scheduleDeferredRetry (qe_num env) cfg job (res_reason result)) st'
                   | Retry \<Rightarrow>
                       (case scheduleRetry (qe_num env) cfg job (res_reason result) of
                          Some s \<Rightarrow> send_and_ack env s st'
                        | None \<Rightarrow>
                            (case qe_onExhausted env job (res_reason result) st' of
                               (Inl _, st'') \<Rightarrow> (Requeued, [], st'')
                             | (Inr _, st'') \<Rightarrow>
                                 send_and_ack env (publishDeadLetter cfg c (Some messageId)
                                   (Some (case res_reason result of Some r \<Rightarrow> r | None \<Rightarrow> ''Retry policy exhausted'')) trace (qe_failedAt env)) st'')))))"

section \<open>Consumers\<close>

text \<open>
  The consumers \<open>consumeOutboundMessages\<close> starts: the queue each reads and the class its deliveries get. The legacy
  queue is read as transactional traffic.
\<close>

definition consumers :: "queue_config \<Rightarrow> (string \<times> MessageTrafficClass \<times> nat) list" where
  "consumers cfg = map (\<lambda>c. (trafficQueueName cfg c, c, prefetchFor cfg c)) TRAFFIC_CLASSES @
     [(baseQueueName cfg, TRANSACTIONAL, prefetchFor cfg TRANSACTIONAL)]"

text \<open>
  What the broker makes of a message in a declared queue: after its time to live it is routed by the queue's
  dead-letter routing key, with the same content and headers, to the consumer of that queue.
\<close>

definition deliver_send :: "queue_send \<Rightarrow> ConsumeMessage" where
  "deliver_send s = \<lparr>cm_content = Some (qs_body s), cm_headers = qs_headers s\<rparr>"

definition routed_class :: "(rat \<Rightarrow> string) \<Rightarrow> queue_config \<Rightarrow> MessageTrafficClass \<Rightarrow> queue_send \<Rightarrow> MessageTrafficClass option" where
  "routed_class num cfg c s =
     (case findFirst (\<lambda>q. qd_name q = qs_queue s \<and> qd_ttl q \<noteq> None) (assertTrafficTopology num cfg c) of
        None \<Rightarrow> None
      | Some q \<Rightarrow>
          (case qd_deadLetterRoutingKey q of
             None \<Rightarrow> None
           | Some k \<Rightarrow> map_option (\<lambda>x. fst (snd x)) (findFirst (\<lambda>x. fst x = k) (consumers cfg))))"

text \<open>
  The travels of a delivery: the messages sent on its behalf, as long as the broker brings one back to a consumer and
  at most \<open>n\<close> deliveries.
\<close>

fun journey :: "'s queue_env \<Rightarrow> nat \<Rightarrow> ConsumeMessage \<Rightarrow> MessageTrafficClass \<Rightarrow> 's \<Rightarrow> queue_send list" where
  "journey env 0 m c st = []"
| "journey env (Suc n) m c st =
     (case processDelivery env m c st of
        (settled, [s], st') \<Rightarrow>
          s # (case routed_class (qe_num env) (qe_config env) c s of
                 None \<Rightarrow> [] | Some c' \<Rightarrow> journey env n (deliver_send s) c' st')
      | _ \<Rightarrow> [])"

section \<open>Lemmas\<close>

lemma lower_traffic_name [simp]:
  "js_lower ''OTP'' = ''otp''" "js_lower ''TRANSACTIONAL'' = ''transactional''" "js_lower ''MARKETING'' = ''marketing''"
  by code_simp+

lemma trafficQueueName_prefix: "trafficQueueName cfg c @ x = trafficQueueName cfg c' @ y \<Longrightarrow> c = c'"
  by (cases c; cases c') (simp_all add: trafficQueueName_def)

lemma trafficQueueName_eq [simp]: "trafficQueueName cfg c = trafficQueueName cfg c' \<longleftrightarrow> c = c'"
  using trafficQueueName_prefix [of cfg c "[]" c' "[]"] by auto

lemma retry_not_dead [simp]: "trafficRetryQueueName num cfg c d \<noteq> trafficDeadQueueName cfg c"
  by (simp add: trafficRetryQueueName_def trafficDeadQueueName_def)

lemma topology_prefix:
  "q \<in> set (assertTrafficTopology num cfg c) \<Longrightarrow> \<exists>x. qd_name q = trafficQueueName cfg c @ x"
  by (auto simp: assertTrafficTopology_def Let_def trafficDeadQueueName_def trafficRetryQueueName_def)

lemma consumer_of_class:
  "findFirst (\<lambda>x. fst x = trafficQueueName cfg c) (consumers cfg) = Some (trafficQueueName cfg c, c, prefetchFor cfg c)"
  by (cases c) (simp_all add: consumers_def TRAFFIC_CLASSES_def)

lemma findFirst_map_all:
  "(\<And>x. x \<in> set xs \<Longrightarrow> g (f x) = v) \<Longrightarrow> \<exists>x \<in> set xs. p (f x) \<Longrightarrow> map_option g (findFirst p (map f xs)) = Some v"
  by (induction xs) auto

lemma routed_retry:
  assumes "d \<in> set (retryDelays cfg)" and "qs_queue s = trafficRetryQueueName num cfg c d"
  shows "routed_class num cfg c s = Some c"
proof -
  let ?f = "\<lambda>delay. \<lparr>qd_name = trafficRetryQueueName num cfg c delay, qd_ttl = Some delay,
      qd_deadLetterRoutingKey = Some (trafficQueueName cfg c)\<rparr>"
  let ?p = "\<lambda>q. qd_name q = qs_queue s \<and> qd_ttl q \<noteq> None"
  have "map_option qd_deadLetterRoutingKey (findFirst ?p (map ?f (retryDelays cfg))) = Some (Some (trafficQueueName cfg c))"
    by (rule findFirst_map_all) (use assms in auto)
  then obtain q where "findFirst ?p (assertTrafficTopology num cfg c) = Some q" "qd_deadLetterRoutingKey q = Some (trafficQueueName cfg c)"
    by (auto simp: assertTrafficTopology_def Let_def)
  then show ?thesis by (simp add: routed_class_def consumer_of_class)
qed

lemma routed_dead: "qs_queue s = trafficDeadQueueName cfg c \<Longrightarrow> routed_class num cfg c s = None"
  by (auto simp: routed_class_def assertTrafficTopology_def Let_def findFirst_None dest!: findFirst_SomeD split: option.splits
      dest: sym [of "trafficDeadQueueName cfg c"])

lemma retryCount_job_send [simp]: "retryCount (deliver_send (job_send q k c tr n r)) = n"
  by (simp add: retryCount_def deliver_send_def job_send_def rat_nat_def)

lemma parse_job_send: "k \<noteq> [] \<Longrightarrow> \<exists>tr'. parseMessage pc (deliver_send (job_send q k c tr n r)) = Some (k, tr')"
  by (simp add: parseMessage_def deliver_send_def job_send_def)

lemma parseMessage_nonempty: "parseMessage pc m = Some (k, tr) \<Longrightarrow> k \<noteq> []"
  by (auto simp: parseMessage_def split: option.splits json.splits if_splits)

text \<open>An environment in which every attempt fails with a retry and the broker confirms everything.\<close>

definition always_retry :: "'s queue_env \<Rightarrow> bool" where
  "always_retry env \<longleftrightarrow> (\<forall>s. qe_confirms env s) \<and>
     (\<forall>job st. \<exists>r st'. qe_handler env job st = (Inr r, st') \<and> res_action r = Retry) \<and>
     (\<forall>job r st. \<exists>st'. qe_onExhausted env job r st = (Inr (), st'))"

lemma processDelivery_retry:
  assumes env: "always_retry env" and p: "parseMessage (qe_parseCarrier env) m = Some (k, tr)"
    and a: "retryCount m < length (retryDelays (qe_config env))"
  shows "\<exists>r st'. processDelivery env m c st = (Acked,
     [job_send (trafficRetryQueueName (qe_num env) (qe_config env) c (retryDelays (qe_config env) ! retryCount m)) k c tr (retryCount m + 1) r], st')"
proof -
  let ?job = "\<lparr>job_messageId = k, job_attempt = retryCount m, job_trafficClass = c, job_trace = tr\<rparr>"
  obtain r st' where h: "qe_handler env ?job st = (Inr r, st')" "res_action r = Retry"
    using env unfolding always_retry_def by blast
  show ?thesis
    using p a h env by (auto simp: processDelivery_def Let_def scheduleRetry_def send_and_ack_def always_retry_def)
qed

lemma processDelivery_exhausted:
  assumes env: "always_retry env" and p: "parseMessage (qe_parseCarrier env) m = Some (k, tr)"
    and a: "length (retryDelays (qe_config env)) \<le> retryCount m"
  shows "\<exists>r st'. processDelivery env m c st = (Acked, [publishDeadLetter (qe_config env) c (Some k) (Some r) tr (qe_failedAt env)], st')"
proof -
  let ?job = "\<lparr>job_messageId = k, job_attempt = retryCount m, job_trafficClass = c, job_trace = tr\<rparr>"
  obtain r st' where h: "qe_handler env ?job st = (Inr r, st')" "res_action r = Retry"
    using env unfolding always_retry_def by blast
  obtain st'' where x: "qe_onExhausted env ?job (res_reason r) st' = (Inr (), st'')"
    using env unfolding always_retry_def by blast
  show ?thesis
    using p a h x env by (auto simp: processDelivery_def Let_def scheduleRetry_def send_and_ack_def always_retry_def)
qed

lemma qs_queue_sends [simp]:
  "qs_queue (job_send q k c tr n r) = q" "qs_queue (publishDeadLetter cfg c k' r' tr f) = trafficDeadQueueName cfg c"
  by (simp_all add: job_send_def publishDeadLetter_def)

lemma journey_queues:
  "always_retry env \<Longrightarrow> parseMessage (qe_parseCarrier env) m = Some (k, tr) \<Longrightarrow>
     length (retryDelays (qe_config env)) - retryCount m < n \<Longrightarrow>
     map qs_queue (journey env n m c st) =
       map (trafficRetryQueueName (qe_num env) (qe_config env) c) (drop (retryCount m) (retryDelays (qe_config env))) @
       [trafficDeadQueueName (qe_config env) c]"
proof (induction n arbitrary: m tr st)
  case 0
  then show ?case by simp
next
  case (Suc n)
  let ?D = "retryDelays (qe_config env)"
  show ?case
  proof (cases "retryCount m < length ?D")
    case False
    then obtain r st' where "processDelivery env m c st = (Acked, [publishDeadLetter (qe_config env) c (Some k) (Some r) tr (qe_failedAt env)], st')"
      using processDelivery_exhausted [OF Suc.prems(1,2), of c st] by fastforce
    with False show ?thesis by (simp add: routed_dead)
  next
    case True
    let ?q = "trafficRetryQueueName (qe_num env) (qe_config env) c (?D ! retryCount m)"
    from processDelivery_retry [OF Suc.prems(1,2) True, of c st] obtain r st'
      where step: "processDelivery env m c st = (Acked, [job_send ?q k c tr (retryCount m + 1) r], st')" by blast
    let ?m = "deliver_send (job_send ?q k c tr (retryCount m + 1) r)"
    obtain tr' where pm: "parseMessage (qe_parseCarrier env) ?m = Some (k, tr')"
      using parse_job_send [OF parseMessage_nonempty [OF Suc.prems(2)]] by blast
    have "map qs_queue (journey env n ?m c st') =
        map (trafficRetryQueueName (qe_num env) (qe_config env) c) (drop (retryCount ?m) ?D) @ [trafficDeadQueueName (qe_config env) c]"
      by (rule Suc.IH [OF Suc.prems(1) pm]) (use Suc.prems(3) True in simp)
    moreover have "routed_class (qe_num env) (qe_config env) c (job_send ?q k c tr (retryCount m + 1) r) = Some c"
      by (rule routed_retry [of "?D ! retryCount m"]) (use True in simp_all)
    ultimately show ?thesis
      using step True by (simp add: Cons_nth_drop_Suc [symmetric])
  qed
qed

section \<open>Properties\<close>

text \<open>
  C29. \<open>processDelivery\<close> loses nothing: a delivery is acknowledged exactly when its handler finished it or when one
  copy of it (a retry, a deferral or a dead letter) was sent and confirmed by the broker.
\<close>

theorem processDelivery_acked_iff:
  "(case processDelivery env m c st of (settled, sends, st') \<Rightarrow>
     length sends \<le> 1 \<and>
     (settled = Acked \<longleftrightarrow> sends \<noteq> [] \<and> list_all (qe_confirms env) sends \<or>
        sends = [] \<and> (\<exists>k tr r. parseMessage (qe_parseCarrier env) m = Some (k, tr) \<and>
          qe_handler env \<lparr>job_messageId = k, job_attempt = retryCount m, job_trafficClass = c, job_trace = tr\<rparr> st = (Inr r, st') \<and>
          res_action r = Ack)))"
proof (cases "parseMessage (qe_parseCarrier env) m")
  case None
  then show ?thesis by (simp add: processDelivery_def Let_def)
next
  case (Some a)
  obtain k tr where a: "a = (k, tr)" by (cases a)
  let ?job = "\<lparr>job_messageId = k, job_attempt = retryCount m, job_trafficClass = c, job_trace = tr\<rparr>"
  obtain res st' where h: "qe_handler env ?job st = (res, st')" by fastforce
  show ?thesis
  proof (cases res)
    case (Inl e)
    with Some a h show ?thesis by (simp add: processDelivery_def Let_def)
  next
    case (Inr r)
    show ?thesis
      using Some a h Inr
      by (cases "res_action r")
        (auto simp: processDelivery_def Let_def send_and_ack_def split: option.splits sum.splits prod.splits)
  qed
qed

text \<open>
  C30. The retry budget: a message whose every attempt fails goes through the retry queues of its class with the configured
  delays, one after the other, starting at its retry count, and then to the dead queue of its class; it is delivered
  no more often than that.
\<close>

theorem retry_budget_bounded:
  assumes "always_retry env" and "parseMessage (qe_parseCarrier env) m = Some (k, tr)"
    and "length (retryDelays (qe_config env)) - retryCount m < n"
  shows "map qs_queue (journey env n m c st) =
    map (trafficRetryQueueName (qe_num env) (qe_config env) c) (drop (retryCount m) (retryDelays (qe_config env))) @
    [trafficDeadQueueName (qe_config env) c]"
  using assms by (rule journey_queues)

text \<open>
  Isolation of traffic classes: the queues declared for two classes have a name in common only if the
  classes are the same, whatever the base name and the delays.
\<close>

theorem queue_names_isolated:
  "qd_name ` set (assertTrafficTopology num cfg c) \<inter> qd_name ` set (assertTrafficTopology num' cfg c') = {} \<longleftrightarrow> c \<noteq> c'"
proof
  assume disjoint: "qd_name ` set (assertTrafficTopology num cfg c) \<inter> qd_name ` set (assertTrafficTopology num' cfg c') = {}"
  have "trafficDeadQueueName cfg c \<in> qd_name ` set (assertTrafficTopology num cfg c)"
    by (simp add: assertTrafficTopology_def Let_def)
  moreover have "trafficDeadQueueName cfg c' \<in> qd_name ` set (assertTrafficTopology num' cfg c')"
    by (simp add: assertTrafficTopology_def Let_def)
  ultimately show "c \<noteq> c'" using disjoint by (metis IntI empty_iff)
next
  assume "c \<noteq> c'"
  show "qd_name ` set (assertTrafficTopology num cfg c) \<inter> qd_name ` set (assertTrafficTopology num' cfg c') = {}"
  proof (rule ccontr)
    assume "qd_name ` set (assertTrafficTopology num cfg c) \<inter> qd_name ` set (assertTrafficTopology num' cfg c') \<noteq> {}"
    then obtain q q' where q: "q \<in> set (assertTrafficTopology num cfg c)" "q' \<in> set (assertTrafficTopology num' cfg c')" "qd_name q = qd_name q'"
      by blast
    from topology_prefix [OF q(1)] obtain x where x: "qd_name q = trafficQueueName cfg c @ x" ..
    from topology_prefix [OF q(2)] obtain y where y: "qd_name q' = trafficQueueName cfg c' @ y" ..
    from x y q(3) have "trafficQueueName cfg c @ x = trafficQueueName cfg c' @ y" by simp
    then have "c = c'" by (rule trafficQueueName_prefix)
    with \<open>c \<noteq> c'\<close> show False ..
  qed
qed

text \<open>The default configuration with a handler that always asks for a retry.\<close>

definition sample_queue_config :: queue_config where
  "sample_queue_config = \<lparr>qc_queueName = None, qc_retryDelays = Some ''5,30'', qc_prefetch = None, qc_prefetchOtp = None,
     qc_prefetchTransactional = None, qc_prefetchMarketing = None\<rparr>"

definition sample_queue_env :: "nat queue_env" where
  "sample_queue_env = \<lparr>qe_config = sample_queue_config, qe_num = (\<lambda>r. int_string \<lfloor>r\<rfloor>), qe_confirms = (\<lambda>s. True),
     qe_parseCarrier = (\<lambda>v. None), qe_handler = (\<lambda>job n. (Inr \<lparr>res_action = Retry, res_reason = Some ''busy''\<rparr>, n + 1)),
     qe_onExhausted = (\<lambda>job r n. (Inr (), n)), qe_failedAt = ''now''\<rparr>"

definition sample_delivery :: ConsumeMessage where
  "sample_delivery = \<lparr>cm_content = Some (JObj [(''messageId'', JStr ''m1'')]), cm_headers = []\<rparr>"

lemma sample_delays: "retryDelays sample_queue_config = [5, 30]"
  by (simp add: retryDelays_def sample_queue_config_def js_number_def js_trim_def js_space_def decimal_number_def is_digit_def
      digit_value_def digits_value_def map_filter_def Let_def)

theorem retry_budget_bounded_witness:
  "map qs_queue (journey sample_queue_env 3 sample_delivery OTP 0) =
     [''whatsapp.outbound.otp.retry.5'', ''whatsapp.outbound.otp.retry.30'', ''whatsapp.outbound.otp.dead'']"
proof -
  have a: "always_retry sample_queue_env" by (simp add: always_retry_def sample_queue_env_def)
  have p: "parseMessage (qe_parseCarrier sample_queue_env) sample_delivery = Some (''m1'', None)"
    by (simp add: parseMessage_def sample_delivery_def sample_queue_env_def)
  have r: "retryCount sample_delivery = 0" by (simp add: retryCount_def sample_delivery_def)
  have l: "length (retryDelays (qe_config sample_queue_env)) - retryCount sample_delivery < 3"
    by (simp add: r sample_queue_env_def sample_delays)
  have e: "qe_config sample_queue_env = sample_queue_config" "qe_num sample_queue_env = (\<lambda>r. int_string \<lfloor>r\<rfloor>)"
    by (simp_all add: sample_queue_env_def)
  have base: "baseQueueName sample_queue_config = ''whatsapp.outbound''" by (simp add: baseQueueName_def sample_queue_config_def)
  have n: "int_string 5 = ''5''" "int_string 30 = ''30''" by code_simp+
  show ?thesis
    unfolding retry_budget_bounded [OF a p l] e r sample_delays
    by (simp add: trafficRetryQueueName_def trafficDeadQueueName_def trafficQueueName_def base n)
qed

end
