(* ===== verification/Leases.thy ===== *)
theory Leases
  imports Store
begin

text \<open>
  The claim of a batch of due rows that the outbox publisher, the webhook processor and the campaign processor
  share: \<open>SELECT ... WHERE due AND not leased ORDER BY ... LIMIT n FOR UPDATE SKIP LOCKED\<close> followed by an update
  that sets a lease, and the delay before a failed row is tried again.

  The locale \<open>lease_queue\<close> is the contract between a processor and its table; the exclusivity of claims is proved in
  it once. What the condition of a claim looks at besides the row (the clock and, for campaigns, the table of campaigns)
  has the type \<open>'n\<close>; \<open>running\<close> says whether a lease still runs then. The ids of the rows other transactions hold locked are an argument of the claim.
\<close>

section \<open>Claims\<close>

definition claim_batch ::
  "('r \<Rightarrow> uuid) \<Rightarrow> ('r \<Rightarrow> bool) \<Rightarrow> ('r \<Rightarrow> time) \<Rightarrow> nat \<Rightarrow> uuid list \<Rightarrow> 'r list \<Rightarrow> uuid list" where
  "claim_batch key ready order n locked rows =
     take n (map key (sort_key order (filter (\<lambda>r. ready r \<and> key r \<notin> set locked) rows)))"

definition claim_rows ::
  "('r \<Rightarrow> uuid) \<Rightarrow> ('r \<Rightarrow> bool) \<Rightarrow> ('r \<Rightarrow> time) \<Rightarrow> ('r \<Rightarrow> 'r) \<Rightarrow> nat \<Rightarrow> uuid list \<Rightarrow> 'r list \<Rightarrow> 'r list \<times> 'r list" where
  "claim_rows key ready order lease n locked rows =
     (let hit = (\<lambda>r. key r \<in> set (claim_batch key ready order n locked rows))
      in (map lease (filter hit rows), updateMany hit lease rows))"

text \<open>\<open>Math.min(60_000, 1000 * 2 ** Math.min(Math.max(attempts - 1, 0), 6))\<close>\<close>

definition retryDelayMs :: "nat \<Rightarrow> nat" where
  "retryDelayMs attempts = min 60000 (1000 * 2 ^ min (attempts - 1) 6)"

lemma claim_batch_hit:
  assumes "distinct (map key rows)" and "r \<in> set rows" and "key r \<in> set (claim_batch key ready order n locked rows)"
  shows "ready r \<and> key r \<notin> set locked"
proof -
  from assms(3) obtain w where w: "w \<in> set rows" "ready w" "key w \<notin> set locked" "key w = key r"
    by (auto simp: claim_batch_def dest!: in_set_takeD)
  with assms(1,2) have "w = r" by (auto simp: distinct_map dest: inj_onD)
  with w show ?thesis by simp
qed

lemma claim_batch_length:
  assumes "distinct (map key rows)"
  shows "length (filter (\<lambda>r. key r \<in> set (claim_batch key ready order n locked rows)) rows) =
    min n (countWhere (\<lambda>r. ready r \<and> key r \<notin> set locked) rows)"
proof -
  let ?b = "claim_batch key ready order n locked rows"
  let ?cand = "filter (\<lambda>r. ready r \<and> key r \<notin> set locked) rows"
  have "distinct (map key ?cand)" using assms by (rule distinct_map_filter)
  then have db: "distinct ?b" by (simp add: claim_batch_def distinct_map)
  have len: "length ?b = min n (length ?cand)" by (simp add: claim_batch_def)
  have "set ?b \<subseteq> key ` set rows" by (auto simp: claim_batch_def dest!: in_set_takeD)
  then have "set (map key (filter (\<lambda>r. key r \<in> set ?b) rows)) = set ?b" by auto
  moreover have "distinct (map key (filter (\<lambda>r. key r \<in> set ?b) rows))" using assms by (rule distinct_map_filter)
  ultimately have "length (filter (\<lambda>r. key r \<in> set ?b) rows) = length ?b"
    using db by (metis distinct_card length_map)
  with len show ?thesis by (simp add: countWhere_def)
qed

section \<open>The contract\<close>

locale lease_queue =
  fixes key :: "'r \<Rightarrow> uuid"
    and ready :: "'n \<Rightarrow> 'r \<Rightarrow> bool"
    and lease :: "time \<Rightarrow> 'r \<Rightarrow> 'r"
    and claim :: "'r list \<Rightarrow> uuid list \<Rightarrow> nat \<Rightarrow> 'n \<Rightarrow> time \<Rightarrow> 'r list \<times> 'r list"
    and order :: "'r \<Rightarrow> time"
    and running :: "time \<Rightarrow> 'n \<Rightarrow> bool"
  assumes claim_law: "claim rows locked n now until = claim_rows key (ready now) order (lease until) n locked rows"
    and lease_key: "key (lease until r) = key r"
    and lease_blocks: "running until now \<Longrightarrow> \<not> ready now (lease until r)"
begin

lemma claimed_ready:
  assumes "distinct (map key rows)" and "claim rows locked n now until = (claimed, rows')" and "c \<in> set claimed"
  shows "\<exists>r \<in> set rows. c = lease until r \<and> ready now r \<and> key r \<notin> set locked \<and> c \<in> set rows'"
proof -
  let ?hit = "\<lambda>r. key r \<in> set (claim_batch key (ready now) order n locked rows)"
  from assms(2) have "claimed = map (lease until) (filter ?hit rows)" and rows': "rows' = updateMany ?hit (lease until) rows"
    by (simp_all add: claim_law claim_rows_def Let_def)
  with assms(3) obtain r where r: "c = lease until r" "r \<in> set rows" "?hit r" by auto
  with claim_batch_hit [OF assms(1) r(2,3)] rows' show ?thesis by (auto simp: set_updateMany)
qed

lemma claim_keys: "claim rows locked n now until = (claimed, rows') \<Longrightarrow> map key rows' = map key rows"
  by (auto simp: claim_law claim_rows_def Let_def lease_key map_updateMany)

lemma claim_count:
  assumes "distinct (map key rows)" and "claim rows locked n now until = (claimed, rows')"
  shows "length claimed = min n (countWhere (\<lambda>r. ready now r \<and> key r \<notin> set locked) rows)"
  using claim_batch_length [OF assms(1), of "ready now" order n locked] assms(2)
  by (auto simp: claim_law claim_rows_def Let_def)

text \<open>While a lease runs, no second claim takes the row.\<close>

lemma claim_exclusive:
  assumes "distinct (map key rows)" and "claim rows locked n now until = (claimed, rows')"
    and "claim rows' locked' n' now' until' = (claimed', rows'')" and "running until now'"
  shows "key ` set claimed \<inter> key ` set claimed' = {}"
proof (rule ccontr)
  assume "key ` set claimed \<inter> key ` set claimed' \<noteq> {}"
  then obtain a b where ab: "a \<in> set claimed" "b \<in> set claimed'" "key a = key b" by auto
  have d': "distinct (map key rows')" using claim_keys [OF assms(2)] assms(1) by simp
  from claimed_ready [OF assms(1,2) ab(1)] obtain r where r: "a = lease until r" "a \<in> set rows'" by blast
  from claimed_ready [OF d' assms(3) ab(2)] obtain r' where r': "r' \<in> set rows'" "b = lease until' r'" "ready now' r'" by blast
  have "key r' = key a" using ab(3) r'(2) lease_key by simp
  with d' r(2) r'(1) have "r' = a" by (auto simp: distinct_map dest: inj_onD)
  with r'(3) r(1) lease_blocks [OF assms(4), of r] show False by simp
qed

end

section \<open>Backoff\<close>

lemma retryDelayMs_bounds: "1000 \<le> retryDelayMs a \<and> retryDelayMs a \<le> 60000"
  by (simp add: retryDelayMs_def)

lemma retryDelayMs_mono: "a \<le> b \<Longrightarrow> retryDelayMs a \<le> retryDelayMs b"
  unfolding retryDelayMs_def by (intro min.mono mult_left_mono power_increasing) auto

end
