(* ===== verification/Outbox.thy ===== *)
theory Outbox
  imports Queue Leases
begin

text \<open>
  src/src/outbox/outbox-publisher.service.ts: a poll claims a batch of due events under a lease and hands each to the
  queue of its message's traffic class; a failure is recorded and tried again after a growing delay. The polling timer,
  the \<open>flushing\<close> flag that keeps one poll at a time per process, and the recording of spans are left out.
\<close>

section \<open>Claiming\<close>

definition outbox_ready :: "time \<Rightarrow> outbox_row \<Rightarrow> bool" where
  "outbox_ready now ev \<longleftrightarrow> o_publishedAt ev = None \<and> o_nextAttemptAt ev \<le> now \<and>
     (case o_processingLeaseUntil ev of None \<Rightarrow> True | Some t \<Rightarrow> t \<le> now)"

definition outbox_lease :: "time \<Rightarrow> outbox_row \<Rightarrow> outbox_row" where
  "outbox_lease until ev = ev\<lparr>o_processingLeaseUntil := Some until, o_attempts := o_attempts ev + 1\<rparr>"

definition claim_outbox :: "outbox_row list \<Rightarrow> uuid list \<Rightarrow> nat \<Rightarrow> time \<Rightarrow> time \<Rightarrow> outbox_row list \<times> outbox_row list" where
  "claim_outbox rows locked batchSize now leaseUntil =
     claim_rows o_id (outbox_ready now) o_createdAt (outbox_lease leaseUntil) batchSize locked rows"

interpretation outbox_queue: lease_queue o_id outbox_ready outbox_lease claim_outbox o_createdAt "\<lambda>until now. now < until"
  by unfold_locales (simp_all add: claim_outbox_def outbox_lease_def outbox_ready_def)

text \<open>\<open>leaseMs\<close> is the configured duration; the code takes at least five seconds.\<close>

definition OutboxPublisher_claimEvents :: "db \<Rightarrow> uuid list \<Rightarrow> nat \<Rightarrow> nat \<Rightarrow> time \<Rightarrow> outbox_row list \<times> db" where
  "OutboxPublisher_claimEvents d locked batchSize leaseMs now =
     (case claim_outbox (outbox d) locked batchSize now (now + max 5000 leaseMs) of
        (claimed, rows) \<Rightarrow> (claimed, d\<lparr>outbox := rows\<rparr>))"

section \<open>Publishing\<close>

definition extractMessageId :: "json \<Rightarrow> uuid option" where
  "extractMessageId payload =
     (if \<not> is_plain_object payload then None
      else case json_get payload ''messageId'' of Some (JStr k) \<Rightarrow> if k = [] then None else Some k | _ \<Rightarrow> None)"

definition extractTrafficClass :: "json \<Rightarrow> MessageTrafficClass option" where
  "extractTrafficClass payload =
     (if \<not> is_plain_object payload then None
      else case json_get payload ''trafficClass'' of
             Some (JStr s) \<Rightarrow> if s = ''OTP'' then Some OTP else if s = ''TRANSACTIONAL'' then Some TRANSACTIONAL
               else if s = ''MARKETING'' then Some MARKETING else None
           | _ \<Rightarrow> None)"

definition lookupTrafficClass :: "db \<Rightarrow> uuid \<Rightarrow> string + MessageTrafficClass" where
  "lookupTrafficClass d messageId =
     (case findMessage messageId (messages d) of
        None \<Rightarrow> Inl (''Outbound message '' @ messageId @ '' no longer exists'')
      | Some m \<Rightarrow> Inr (m_trafficClass m))"

text \<open>
  The tracing service: the validation of a stored carrier and the carrier of the span under it, both absent where the
  optional service is. \<open>brokerError\<close> is the message of the error a refused publication raises.
\<close>

record publisher_env =
  pe_config :: queue_config
  pe_confirms :: "queue_send \<Rightarrow> bool"
  pe_brokerError :: string
  pe_parseCarrier :: "json option \<Rightarrow> TraceCarrier option"
  pe_producerCarrier :: "TraceCarrier \<Rightarrow> TraceCarrier option"

definition extractTrace :: "publisher_env \<Rightarrow> json \<Rightarrow> TraceCarrier option" where
  "extractTrace env payload = (if \<not> is_plain_object payload then None else pe_parseCarrier env (json_get payload ''trace''))"

definition OutboxPublisher_publishOutboundMessage ::
  "publisher_env \<Rightarrow> uuid \<Rightarrow> MessageTrafficClass \<Rightarrow> TraceCarrier option \<Rightarrow> bool \<times> queue_send" where
  "OutboxPublisher_publishOutboundMessage env messageId c trace =
     publishOutboundMessage (pe_config env) (pe_confirms env) messageId c
       (case trace of None \<Rightarrow> None | Some t \<Rightarrow> pe_producerCarrier env t)"

text \<open>The try block: the send it got to, and the error if it threw.\<close>

definition try_publish :: "publisher_env \<Rightarrow> db \<Rightarrow> outbox_row \<Rightarrow> queue_send option \<times> string option" where
  "try_publish env d ev =
     (if o_eventType ev \<noteq> OUTBOUND_REQUESTED_EVENT then (None, Some (''Unsupported outbox event type: '' @ o_eventType ev))
      else
        let messageId = (case extractMessageId (o_payload ev) of Some k \<Rightarrow> k | None \<Rightarrow> o_aggregateId ev)
        in case lookupTrafficClass d messageId of
             Inl e \<Rightarrow> (None, Some e)
           | Inr persisted \<Rightarrow>
               (case extractTrafficClass (o_payload ev) of
                  Some c \<Rightarrow>
                    if c \<noteq> persisted
                    then (None, Some (''Outbox traffic class '' @ traffic_name c @ '' does not match persisted message class '' @ traffic_name persisted))
                    else (case OutboxPublisher_publishOutboundMessage env messageId persisted (extractTrace env (o_payload ev)) of
                            (ok, s) \<Rightarrow> (Some s, if ok then None else Some (pe_brokerError env)))
                | None \<Rightarrow> (case OutboxPublisher_publishOutboundMessage env messageId persisted (extractTrace env (o_payload ev)) of
                            (ok, s) \<Rightarrow> (Some s, if ok then None else Some (pe_brokerError env)))))"

definition mark_published :: "time \<Rightarrow> outbox_row \<Rightarrow> outbox_row" where
  "mark_published now ev = ev\<lparr>o_publishedAt := Some now, o_processingLeaseUntil := None, o_lastError := None\<rparr>"

definition mark_failed_attempt :: "string \<Rightarrow> nat \<Rightarrow> time \<Rightarrow> outbox_row \<Rightarrow> outbox_row" where
  "mark_failed_attempt message attempts now ev =
     ev\<lparr>o_lastError := Some (take 2000 message), o_nextAttemptAt := now + retryDelayMs attempts, o_processingLeaseUntil := None\<rparr>"

definition OutboxPublisher_publish :: "publisher_env \<Rightarrow> outbox_row \<Rightarrow> time \<Rightarrow> db \<Rightarrow> queue_send list \<times> db" where
  "OutboxPublisher_publish env ev now d =
     (case try_publish env d ev of
        (s, None) \<Rightarrow> (case s of Some x \<Rightarrow> [x] | None \<Rightarrow> [], d\<lparr>outbox := updateOutbox (o_id ev) (mark_published now) (outbox d)\<rparr>)
      | (s, Some message) \<Rightarrow>
          (case s of Some x \<Rightarrow> [x] | None \<Rightarrow> [],
           d\<lparr>outbox := updateOutbox (o_id ev) (mark_failed_attempt message (o_attempts ev) now) (outbox d)\<rparr>))"

fun publish_all :: "publisher_env \<Rightarrow> time \<Rightarrow> outbox_row list \<Rightarrow> db \<Rightarrow> queue_send list \<times> db" where
  "publish_all env now [] d = ([], d)"
| "publish_all env now (ev # evs) d =
     (case OutboxPublisher_publish env ev now d of
        (s, d1) \<Rightarrow> (case publish_all env now evs d1 of (ss, d2) \<Rightarrow> (s @ ss, d2)))"

definition OutboxPublisher_flush :: "publisher_env \<Rightarrow> uuid list \<Rightarrow> nat \<Rightarrow> nat \<Rightarrow> time \<Rightarrow> db \<Rightarrow> queue_send list \<times> db" where
  "OutboxPublisher_flush env locked batchSize leaseMs now d =
     (case OutboxPublisher_claimEvents d locked (max 1 batchSize) leaseMs now of
        (events, d1) \<Rightarrow> publish_all env now events d1)"

section \<open>Lemmas\<close>

lemma messages_publish [simp]: "messages (snd (OutboxPublisher_publish env ev now d)) = messages d"
  by (simp add: OutboxPublisher_publish_def split: prod.splits option.splits)

lemma mark_keys [simp]: "o_id (mark_published now ev) = o_id ev" "o_id (mark_failed_attempt e a now ev) = o_id ev"
  by (simp_all add: mark_published_def mark_failed_attempt_def)

lemma publish_keys: "map o_id (outbox (snd (OutboxPublisher_publish env ev now d))) = map o_id (outbox d)"
  by (simp add: OutboxPublisher_publish_def outbox_table.keys_modify split: prod.splits option.splits)

lemma publish_other:
  "k \<noteq> o_id ev \<Longrightarrow> findOutbox k (outbox (snd (OutboxPublisher_publish env ev now d))) = findOutbox k (outbox d)"
  by (simp add: OutboxPublisher_publish_def outbox_table.fetch_modify split: prod.splits option.splits)

lemma try_publish_ok:
  assumes "try_publish env d ev = (s, None)"
  shows "\<exists>x m. s = Some x \<and> pe_confirms env x \<and>
    findMessage (case extractMessageId (o_payload ev) of Some k \<Rightarrow> k | None \<Rightarrow> o_aggregateId ev) (messages d) = Some m \<and>
    qs_queue x = trafficQueueName (pe_config env) (m_trafficClass m) \<and>
    retryCount (deliver_send x) = 0 \<and> json_get (qs_body x) ''messageId'' = Some (JStr (m_id m))"
proof -
  let ?k = "case extractMessageId (o_payload ev) of Some k \<Rightarrow> k | None \<Rightarrow> o_aggregateId ev"
  obtain m where m: "findMessage ?k (messages d) = Some m"
    using assms by (auto simp: try_publish_def Let_def lookupTrafficClass_def split: if_splits option.splits)
  then have id: "m_id m = ?k" using message_table.fetch_SomeD by blast
  let ?p = "OutboxPublisher_publishOutboundMessage env ?k (m_trafficClass m) (extractTrace env (o_payload ev))"
  have "fst ?p" and "s = Some (snd ?p)"
    using assms m by (auto simp: try_publish_def Let_def lookupTrafficClass_def split: if_splits option.splits prod.splits)
  then show ?thesis
    using m id by (auto simp: OutboxPublisher_publishOutboundMessage_def publishOutboundMessage_def Let_def job_send_def
        retryCount_def deliver_send_def rat_nat_def)
qed

section \<open>Properties\<close>

text \<open>
  \<open>claimEvents\<close> of the outbox publisher: each claimed event was unpublished, due and not leased; a claim takes as
  many of them as the batch size allows; and while its lease runs no other publisher claims the same event.
\<close>

theorem outbox_claim_exclusive:
  assumes "distinct (map o_id (outbox d))" and "OutboxPublisher_claimEvents d locked n leaseMs now = (evs, d')"
    and "OutboxPublisher_claimEvents d' locked' n' leaseMs' now' = (evs', d'')" and "now' < now + 5000"
  shows "o_id ` set evs \<inter> o_id ` set evs' = {} \<and> list_all (\<lambda>ev. o_publishedAt ev = None) evs \<and>
    length evs = min n (countWhere (\<lambda>ev. outbox_ready now ev \<and> o_id ev \<notin> set locked) (outbox d))"
proof -
  obtain rows where c: "claim_outbox (outbox d) locked n now (now + max 5000 leaseMs) = (evs, rows)" and d': "d' = d\<lparr>outbox := rows\<rparr>"
    using assms(2) by (auto simp: OutboxPublisher_claimEvents_def split: prod.splits)
  obtain rows' where c': "claim_outbox rows locked' n' now' (now' + max 5000 leaseMs') = (evs', rows')"
    using assms(3) d' by (auto simp: OutboxPublisher_claimEvents_def split: prod.splits)
  have "now' < now + max 5000 leaseMs" using assms(4) by simp
  then have "o_id ` set evs \<inter> o_id ` set evs' = {}" by (rule outbox_queue.claim_exclusive [OF assms(1) c c'])
  moreover have "list_all (\<lambda>ev. o_publishedAt ev = None) evs"
    using outbox_queue.claimed_ready [OF assms(1) c] by (fastforce simp: list_all_iff outbox_ready_def outbox_lease_def)
  ultimately show ?thesis using outbox_queue.claim_count [OF assms(1) c] by simp
qed

text \<open>
  \<open>publish\<close> of the outbox publisher: afterwards the event is marked published exactly when its message exists and was
  confirmed by the broker on the queue of the message's own traffic class, as a first attempt; otherwise
  the event stays unpublished, is released, and is due again after at least one and at most sixty seconds.
\<close>

theorem publish_outcome:
  assumes "findOutbox (o_id ev) (outbox d) = Some ev" and "o_publishedAt ev = None"
    and "OutboxPublisher_publish env ev now d = (sends, d')"
  shows "\<exists>ev'. findOutbox (o_id ev) (outbox d') = Some ev' \<and> o_processingLeaseUntil ev' = None \<and>
    (o_publishedAt ev' = Some now \<and>
       (\<exists>x m. sends = [x] \<and> pe_confirms env x \<and> m \<in> set (messages d) \<and>
          qs_queue x = trafficQueueName (pe_config env) (m_trafficClass m) \<and>
          retryCount (deliver_send x) = 0 \<and> json_get (qs_body x) ''messageId'' = Some (JStr (m_id m)))
     \<or> o_publishedAt ev' = None \<and> now + 1000 \<le> o_nextAttemptAt ev' \<and> o_nextAttemptAt ev' \<le> now + 60000 \<and> o_lastError ev' \<noteq> None)"
proof -
  obtain s e where t: "try_publish env d ev = (s, e)" by fastforce
  show ?thesis
  proof (cases e)
    case None
    with try_publish_ok [of env d ev s] t obtain x m where x: "s = Some x" "pe_confirms env x"
        "findMessage (case extractMessageId (o_payload ev) of Some k \<Rightarrow> k | None \<Rightarrow> o_aggregateId ev) (messages d) = Some m"
        "qs_queue x = trafficQueueName (pe_config env) (m_trafficClass m)" "retryCount (deliver_send x) = 0"
        "json_get (qs_body x) ''messageId'' = Some (JStr (m_id m))"
      by auto
    from message_table.fetch_SomeD [OF x(3)] have "m \<in> set (messages d)" by simp
    moreover from None t x(1) assms(3) have "sends = [x]" "d' = d\<lparr>outbox := updateOutbox (o_id ev) (mark_published now) (outbox d)\<rparr>"
      by (auto simp: OutboxPublisher_publish_def)
    ultimately show ?thesis
      using x assms(1) by (auto simp: outbox_table.fetch_modify mark_published_def)
  next
    case (Some message)
    with t assms(3) have "d' = d\<lparr>outbox := updateOutbox (o_id ev) (mark_failed_attempt message (o_attempts ev) now) (outbox d)\<rparr>"
      by (auto simp: OutboxPublisher_publish_def)
    then show ?thesis
      using assms(1,2) retryDelayMs_bounds [of "o_attempts ev"] by (auto simp: outbox_table.fetch_modify mark_failed_attempt_def)
  qed
qed

text \<open>One accepted marketing message whose event is due.\<close>

definition sample_accepted :: accepted where
  "sample_accepted = \<lparr>acc_to = ''96170123456'', acc_sender = sample_sender ''s1'' ''111'' True 1, acc_type = MessageType.TEMPLATE,
     acc_payload = md_payload sample_request, acc_trafficClass = MARKETING\<rparr>"

definition sample_message :: message_row where
  "sample_message = outbound_message ''m1'' ''t1'' sample_request sample_accepted None 200"

definition sample_event :: outbox_row where
  "sample_event = outbound_requested ''o1'' sample_message None 200"

definition sample_outbox_db :: db where
  "sample_outbox_db = sample_messages_db\<lparr>messages := [sample_message], outbox := [sample_event]\<rparr>"

definition sample_publisher_env :: publisher_env where
  "sample_publisher_env = \<lparr>pe_config = sample_queue_config, pe_confirms = (\<lambda>s. True), pe_brokerError = ''closed'',
     pe_parseCarrier = (\<lambda>v. None), pe_producerCarrier = (\<lambda>t. None)\<rparr>"

lemma sample_event_facts:
  "o_id sample_event = ''o1''" "o_publishedAt sample_event = None" "outbox sample_outbox_db = [sample_event]"
  "o_eventType sample_event = OUTBOUND_REQUESTED_EVENT" "extractMessageId (o_payload sample_event) = Some ''m1''"
  "extractTrafficClass (o_payload sample_event) = Some MARKETING" "messages sample_outbox_db = [sample_message]"
  "m_id sample_message = ''m1''" "m_trafficClass sample_message = MARKETING"
  by (simp_all add: sample_event_def sample_message_def outbound_requested_def sample_accepted_def sample_outbox_db_def
      extractMessageId_def extractTrafficClass_def)

theorem outbox_claim_exclusive_witness:
  "o_id ` set (fst (OutboxPublisher_claimEvents sample_outbox_db [] 50 30000 300)) \<inter>
     o_id ` set (fst (OutboxPublisher_claimEvents (snd (OutboxPublisher_claimEvents sample_outbox_db [] 50 30000 300)) [] 50 30000 1300)) = {} \<and>
   length (fst (OutboxPublisher_claimEvents sample_outbox_db [] 50 30000 300)) = 1"
proof -
  have d: "distinct (map o_id (outbox sample_outbox_db))" by (simp add: sample_event_facts)
  have c: "countWhere (\<lambda>ev. outbox_ready 300 ev \<and> o_id ev \<notin> set []) (outbox sample_outbox_db) = 1"
    by (simp add: countWhere_def sample_event_facts outbox_ready_def, simp add: sample_event_def outbound_requested_def)
  from outbox_claim_exclusive [OF d surjective_pairing surjective_pairing, of 1300 300] c show ?thesis by simp
qed

theorem publish_outcome_witness:
  "\<exists>ev'. findOutbox ''o1'' (outbox (snd (OutboxPublisher_publish sample_publisher_env sample_event 300 sample_outbox_db))) = Some ev' \<and>
     o_publishedAt ev' = Some 300"
proof -
  have f: "findOutbox (o_id sample_event) (outbox sample_outbox_db) = Some sample_event"
    by (simp add: findOutbox_def sample_event_facts)
  obtain s where "try_publish sample_publisher_env sample_outbox_db sample_event = (Some s, None)"
    by (simp add: try_publish_def sample_event_facts lookupTrafficClass_def findMessage_def
        OutboxPublisher_publishOutboundMessage_def publishOutboundMessage_def Let_def sample_publisher_env_def)
  then have p: "OutboxPublisher_publish sample_publisher_env sample_event 300 sample_outbox_db =
      ([s], sample_outbox_db\<lparr>outbox := updateOutbox (o_id sample_event) (mark_published 300) (outbox sample_outbox_db)\<rparr>)"
    by (simp add: OutboxPublisher_publish_def)
  from publish_outcome [OF f sample_event_facts(2) p] show ?thesis
    by (simp add: p sample_event_facts updateOutbox_def updateMany_def findOutbox_def mark_published_def)
qed

end
