(* ===== verification/Rate_Limiter.thy ===== *)
theory Rate_Limiter
  imports Queue
begin

text \<open>
  src/src/worker/distributed-rate-limiter.service.ts: the counters in Redis, the script that reserves one slot of a
  sender's second for a traffic class, the shares of the classes during the first part of the second, and the
  wait after a refusal. Redis is a map from keys to a counter with its expiry, read with the clock of the worker that runs
  the script; the shares are exact rationals where the code has doubles; the connection handling is left out.

  The results: in one second a sender never gets more slots than its limit, and during the reservation phase no class
  gets more than its reserved share; after a refusal the next attempt is in a later phase.
\<close>

section \<open>The script\<close>

type_synonym redis = "string \<Rightarrow> (nat \<times> time) option"

definition redis_get :: "redis \<Rightarrow> string \<Rightarrow> time \<Rightarrow> nat" where
  "redis_get st k now = (case st k of Some (v, expiry) \<Rightarrow> if now < expiry then v else 0 | None \<Rightarrow> 0)"

text \<open>\<open>INCR\<close>, and \<open>PEXPIRE\<close> where the new value is 1: the counter keeps its expiry otherwise.\<close>

definition redis_incr :: "redis \<Rightarrow> string \<Rightarrow> nat \<Rightarrow> time \<Rightarrow> redis" where
  "redis_incr st k ttl now =
     (let v = redis_get st k now + 1
      in st(k \<mapsto> (v, if v = 1 then now + ttl else case st k of Some (_, expiry) \<Rightarrow> expiry | None \<Rightarrow> now + ttl)))"

definition RESERVE_SLOT :: "redis \<Rightarrow> string \<Rightarrow> string \<Rightarrow> nat \<Rightarrow> nat \<Rightarrow> nat \<Rightarrow> time \<Rightarrow> bool \<times> redis" where
  "RESERVE_SLOT st totalKey classKey totalLimit classLimit ttl now =
     (if redis_get st totalKey now \<ge> totalLimit \<or> redis_get st classKey now \<ge> classLimit then (False, st)
      else (True, redis_incr (redis_incr st totalKey ttl now) classKey ttl now))"

section \<open>Configuration\<close>

record limiter_config =
  lc_defaultLimit :: "string option"
  lc_reservationWindow :: "string option"
  lc_transactionalShare :: "string option"
  lc_marketingShare :: "string option"

definition config_number :: "string option \<Rightarrow> rat \<Rightarrow> rat option" where
  "config_number v d = (case v of None \<Rightarrow> Some d | Some s \<Rightarrow> js_number s)"

definition outbound_limit :: "limiter_config \<Rightarrow> rat option \<Rightarrow> nat" where
  "outbound_limit cfg configured =
     (case (case configured of Some c \<Rightarrow> Some c | None \<Rightarrow> config_number (lc_defaultLimit cfg) 75) of
        None \<Rightarrow> 75
      | Some l \<Rightarrow> if l > 0 then max 1 (nat \<lfloor>l\<rfloor>) else 75)"

definition reservationWindowMs :: "limiter_config \<Rightarrow> nat" where
  "reservationWindowMs cfg =
     (case config_number (lc_reservationWindow cfg) 700 of
        None \<Rightarrow> 700
      | Some v \<Rightarrow> if 0 \<le> v \<and> v \<le> 950 then nat \<lfloor>v\<rfloor> else 700)"

definition share :: "string option \<Rightarrow> rat \<Rightarrow> rat" where
  "share v fallback =
     (case config_number v fallback of None \<Rightarrow> fallback | Some s \<Rightarrow> if 0 < s \<and> s \<le> 1 then s else fallback)"

definition reservationShares :: "limiter_config \<Rightarrow> rat \<times> rat" where
  "reservationShares cfg =
     (let transactional = share (lc_transactionalShare cfg) (6 / 10); marketing = share (lc_marketingShare cfg) (2 / 10)
      in if transactional + marketing > 9 / 10 then (6 / 10, 2 / 10) else (transactional, marketing))"

definition reservedClassLimit :: "limiter_config \<Rightarrow> nat \<Rightarrow> MessageTrafficClass \<Rightarrow> nat" where
  "reservedClassLimit cfg limit c =
     (case c of
        OTP \<Rightarrow> limit
      | TRANSACTIONAL \<Rightarrow> max 1 (nat \<lfloor>of_nat limit * fst (reservationShares cfg)\<rfloor>)
      | MARKETING \<Rightarrow> max 1 (nat \<lfloor>of_nat limit * snd (reservationShares cfg)\<rfloor>))"

section \<open>One round of the wait\<close>

definition totalKey :: "string \<Rightarrow> nat \<Rightarrow> string" where
  "totalKey phoneNumberId window = ''rate:whatsapp:outbound:'' @ phoneNumberId @ '':'' @ nat_string window"

definition classKey :: "string \<Rightarrow> nat \<Rightarrow> MessageTrafficClass \<Rightarrow> string" where
  "classKey phoneNumberId window c = totalKey phoneNumberId window @ '':'' @ js_lower (traffic_name c)"

definition class_limit_at :: "limiter_config \<Rightarrow> nat \<Rightarrow> MessageTrafficClass \<Rightarrow> time \<Rightarrow> nat" where
  "class_limit_at cfg limit c now =
     (if now mod 1000 \<ge> reservationWindowMs cfg then limit else reservedClassLimit cfg limit c)"

definition try_slot :: "limiter_config \<Rightarrow> nat \<Rightarrow> string \<Rightarrow> MessageTrafficClass \<Rightarrow> redis \<Rightarrow> time \<Rightarrow> bool \<times> redis" where
  "try_slot cfg limit phoneNumberId c st now =
     (let window = now div 1000
      in RESERVE_SLOT st (totalKey phoneNumberId window) (classKey phoneNumberId window c) limit (class_limit_at cfg limit c now) 2000 now)"

definition delayMs :: "limiter_config \<Rightarrow> time \<Rightarrow> nat" where
  "delayMs cfg now =
     (let elapsed = now mod 1000
      in if elapsed < reservationWindowMs cfg then max 25 (reservationWindowMs cfg - elapsed + 5)
         else max 25 (1000 - elapsed + 5))"

text \<open>
  \<open>waitForOutboundSlot\<close> with at most \<open>n\<close> rounds. Between two rounds other workers change the counters (\<open>others\<close>) and the
  timer may fire late (\<open>late\<close>).
\<close>

fun waitForOutboundSlot ::
  "limiter_config \<Rightarrow> nat \<Rightarrow> string \<Rightarrow> MessageTrafficClass \<Rightarrow> (time \<Rightarrow> redis \<Rightarrow> redis) \<Rightarrow> (time \<Rightarrow> nat) \<Rightarrow> nat \<Rightarrow> redis \<Rightarrow> time \<Rightarrow>
     (time \<times> redis) option" where
  "waitForOutboundSlot cfg limit phone c others late 0 st now = None"
| "waitForOutboundSlot cfg limit phone c others late (Suc n) st now =
     (case try_slot cfg limit phone c st now of
        (True, st') \<Rightarrow> Some (now, st')
      | (False, st') \<Rightarrow>
          (let now' = now + delayMs cfg now + late now
           in waitForOutboundSlot cfg limit phone c others late n (others now' st') now'))"

section \<open>A second of requests\<close>

text \<open>Requests of workers for one sender, in the order in which the script runs, and the answers.\<close>

fun run_requests :: "limiter_config \<Rightarrow> nat \<Rightarrow> string \<Rightarrow> (MessageTrafficClass \<times> time) list \<Rightarrow> redis \<Rightarrow> bool list \<times> redis" where
  "run_requests cfg limit phone [] st = ([], st)"
| "run_requests cfg limit phone ((c, now) # rs) st =
     (case try_slot cfg limit phone c st now of
        (ok, st') \<Rightarrow> (case run_requests cfg limit phone rs st' of (oks, st'') \<Rightarrow> (ok # oks, st'')))"

definition granted :: "((MessageTrafficClass \<times> time) \<Rightarrow> bool) \<Rightarrow> (MessageTrafficClass \<times> time) list \<Rightarrow> bool list \<Rightarrow> nat" where
  "granted p rs oks = length (filter (\<lambda>(r, ok). ok \<and> p r) (zip rs oks))"

definition in_window :: "nat \<Rightarrow> (MessageTrafficClass \<times> time) list \<Rightarrow> bool" where
  "in_window w rs \<longleftrightarrow> list_all (\<lambda>(c, now). now div 1000 = w) rs"

definition early :: "limiter_config \<Rightarrow> MessageTrafficClass \<Rightarrow> (MessageTrafficClass \<times> time) \<Rightarrow> bool" where
  "early cfg c r \<longleftrightarrow> fst r = c \<and> snd r mod 1000 < reservationWindowMs cfg"

section \<open>Lemmas\<close>

lemma key_distinct [simp]: "totalKey p w \<noteq> classKey p w c" "classKey p w c \<noteq> totalKey p w"
  by (simp_all add: classKey_def)

lemma classKey_eq [simp]: "classKey p w c = classKey p w c' \<longleftrightarrow> c = c'"
  by (cases c; cases c') (simp_all add: classKey_def)

text \<open>A counter of the second \<open>w\<close> that is set expires after the second is over.\<close>

definition fresh_counters :: "string \<Rightarrow> nat \<Rightarrow> redis \<Rightarrow> bool" where
  "fresh_counters p w st \<longleftrightarrow>
     (\<forall>k \<in> insert (totalKey p w) (classKey p w ` UNIV). case st k of None \<Rightarrow> True | Some (v, expiry) \<Rightarrow> w * 1000 + 999 < expiry)"

definition count :: "redis \<Rightarrow> string \<Rightarrow> nat" where
  "count st k = (case st k of None \<Rightarrow> 0 | Some (v, _) \<Rightarrow> v)"

lemma window_end: "now div 1000 = w \<Longrightarrow> now \<le> w * 1000 + 999 \<and> w * 1000 \<le> now" for now w :: nat
  by auto

lemma redis_get_fresh:
  "fresh_counters p w st \<Longrightarrow> k \<in> insert (totalKey p w) (classKey p w ` UNIV) \<Longrightarrow> now div 1000 = w \<Longrightarrow> redis_get st k now = count st k"
  using window_end [of now w] by (fastforce simp: fresh_counters_def redis_get_def count_def split: option.splits)

lemma redis_incr_fresh:
  assumes "fresh_counters p w st" and "k \<in> insert (totalKey p w) (classKey p w ` UNIV)" and "now div 1000 = w"
  shows "fresh_counters p w (redis_incr st k 2000 now) \<and>
    count (redis_incr st k 2000 now) j = (if j = k then count st k + 1 else count st j)"
proof -
  have g: "redis_get st k now = count st k" by (rule redis_get_fresh [OF assms])
  have "w * 1000 + 999 < now + 2000" using window_end [OF assms(3)] by linarith
  moreover have "case st k of None \<Rightarrow> True | Some (v, expiry) \<Rightarrow> w * 1000 + 999 < expiry"
    using assms(1,2) by (auto simp: fresh_counters_def)
  ultimately show ?thesis
    using assms(1) g by (auto simp: redis_incr_def Let_def fresh_counters_def count_def split: option.splits)
qed

lemma try_slot_refused: "try_slot cfg l p c st now = (False, st') \<Longrightarrow> st' = st"
  by (auto simp: try_slot_def RESERVE_SLOT_def Let_def split: if_splits)

lemma try_slot_granted:
  assumes "try_slot cfg l p c st now = (True, st')" and "fresh_counters p w st" and "now div 1000 = w"
  shows "count st (totalKey p w) < l" and "count st (classKey p w c) < class_limit_at cfg l c now"
    and "fresh_counters p w st'" and "count st' (totalKey p w) = count st (totalKey p w) + 1"
    and "count st' (classKey p w c') = count st (classKey p w c') + (if c' = c then 1 else 0)"
proof -
  have st': "st' = redis_incr (redis_incr st (totalKey p w) 2000 now) (classKey p w c) 2000 now"
    and lim: "\<not> redis_get st (totalKey p w) now \<ge> l" "\<not> redis_get st (classKey p w c) now \<ge> class_limit_at cfg l c now"
    using assms(1,3) by (auto simp: try_slot_def RESERVE_SLOT_def Let_def split: if_splits)
  show "count st (totalKey p w) < l" "count st (classKey p w c) < class_limit_at cfg l c now"
    using lim redis_get_fresh [OF assms(2) _ assms(3)] by (auto simp: not_le)
  note 1 = redis_incr_fresh [OF assms(2) insertI1 assms(3)]
  note 2 = redis_incr_fresh [OF conjunct1 [OF 1] insertI2 [OF imageI [OF UNIV_I]] assms(3), of c]
  show "fresh_counters p w st'" using 2 st' by blast
  show "count st' (totalKey p w) = count st (totalKey p w) + 1" using 1 2 st' by simp
  show "count st' (classKey p w c') = count st (classKey p w c') + (if c' = c then 1 else 0)" using 1 2 st' by simp
qed

text \<open>The counters bound what was granted before, and the requests raise them no further than the limits.\<close>

lemma granted_Cons:
  "granted p (r # rs) (ok # oks) = (if ok \<and> p r then 1 else 0) + granted p rs oks"
  by (simp add: granted_def)

lemma run_requests_bounded:
  "run_requests cfg l p rs st = (oks, st') \<Longrightarrow> fresh_counters p w st \<Longrightarrow> in_window w rs \<Longrightarrow> count st (totalKey p w) \<le> l \<Longrightarrow>
     count st (totalKey p w) + granted (\<lambda>_. True) rs oks \<le> l \<and>
     (granted (early cfg c) rs oks = 0 \<or> count st (classKey p w c) + granted (early cfg c) rs oks \<le> reservedClassLimit cfg l c)"
proof (induction rs arbitrary: st st' oks)
  case Nil
  then show ?case by (simp add: granted_def)
next
  case (Cons r rs)
  obtain c0 now where r: "r = (c0, now)" by (cases r)
  have now: "now div 1000 = w" and win: "in_window w rs" using Cons.prems(3) r by (auto simp: in_window_def)
  obtain ok st1 where t: "try_slot cfg l p c0 st now = (ok, st1)" by fastforce
  obtain oks' st2 where run: "run_requests cfg l p rs st1 = (oks', st2)" by fastforce
  have oks: "oks = ok # oks'" using Cons.prems(1) t run r by simp
  show ?case
  proof (cases ok)
    case False
    with t have "st1 = st" using try_slot_refused by auto
    with Cons.IH [OF run] Cons.prems(2,4) win False oks show ?thesis by (simp add: granted_Cons)
  next
    case True
    with t have "try_slot cfg l p c0 st now = (True, st1)" by simp
    note g = try_slot_granted [OF this Cons.prems(2) now]
    have "count st1 (totalKey p w) \<le> l" using g(1,4) by simp
    note ih = Cons.IH [OF run g(3) win this]
    have tot: "count st (totalKey p w) + granted (\<lambda>_. True) (r # rs) oks \<le> l"
      using ih g(4) oks True by (simp add: granted_Cons)
    show ?thesis
    proof (cases "early cfg c r")
      case False
      with ih g(5) [of c] oks True tot show ?thesis by (auto simp: granted_Cons split: if_splits)
    next
      case e: True
      then have "c0 = c" "class_limit_at cfg l c0 now = reservedClassLimit cfg l c" by (auto simp: early_def r class_limit_at_def)
      with ih g(2) g(5) [of c] oks True e tot show ?thesis by (auto simp: granted_Cons)
    qed
  qed
qed

lemma share_bounds: "0 < d \<Longrightarrow> d \<le> 1 \<Longrightarrow> 0 < share v d \<and> share v d \<le> 1"
  by (auto simp: share_def split: option.splits)

lemma reservationShares_sum:
  "fst (reservationShares cfg) + snd (reservationShares cfg) \<le> 9 / 10 \<and> 0 < fst (reservationShares cfg) \<and> 0 < snd (reservationShares cfg)"
  using share_bounds [of "6 / 10" "lc_transactionalShare cfg"] share_bounds [of "2 / 10" "lc_marketingShare cfg"]
  by (auto simp: reservationShares_def Let_def)

lemma outbound_limit_pos: "1 \<le> outbound_limit cfg configured"
  by (auto simp: outbound_limit_def split: option.splits)

lemma reservationWindow_bound: "reservationWindowMs cfg \<le> 950"
proof -
  have "nat \<lfloor>v\<rfloor> \<le> 950" if "v \<le> 950" for v :: rat
    using that by (simp add: nat_le_iff floor_le_iff)
  then show ?thesis by (auto simp: reservationWindowMs_def split: option.splits)
qed

section \<open>Properties\<close>

text \<open>
  C3. The reservation script under any interleaving of workers: of the requests for one sender within one second, however many
  and of whatever class, at most the sender's limit is granted, and of those a class makes during the
  reservation phase at most its reserved share.
\<close>

theorem slots_within_limits:
  assumes "run_requests cfg limit phone rs st = (oks, st')" and "in_window w rs"
    and "st (totalKey phone w) = None" and "list_all (\<lambda>c. st (classKey phone w c) = None) TRAFFIC_CLASSES"
  shows "granted (\<lambda>_. True) rs oks \<le> limit \<and> granted (early cfg c) rs oks \<le> reservedClassLimit cfg limit c"
proof -
  have "st (classKey phone w x) = None" for x
    using assms(4) by (cases x) (auto simp: TRAFFIC_CLASSES_def)
  then have "fresh_counters phone w st" using assms(3) by (auto simp: fresh_counters_def)
  from run_requests_bounded [OF assms(1) this assms(2), of c] assms(3) show ?thesis by (auto simp: count_def)
qed

text \<open>
  The wait after a refusal: it lasts between 25 and 1005 milliseconds, and the next attempt falls into the borrowing phase
  of the same second or into a later second.
\<close>

theorem delay_reaches_next_phase:
  "25 \<le> delayMs cfg now \<and> delayMs cfg now \<le> 1005 \<and>
   (now div 1000 < (now + delayMs cfg now + late) div 1000 \<or>
    now mod 1000 < reservationWindowMs cfg \<and> reservationWindowMs cfg \<le> (now + delayMs cfg now + late) mod 1000)"
proof -
  let ?e = "now mod 1000" and ?w = "reservationWindowMs cfg" and ?d = "delayMs cfg now"
  have w: "?w \<le> 950" by (rule reservationWindow_bound)
  have e: "?e < 1000" by simp
  show ?thesis
  proof (cases "?e < ?w")
    case True
    then have d: "?d = max 25 (?w - ?e + 5)" by (simp add: delayMs_def)
    then have ge: "?w \<le> ?e + ?d" using True by linarith
    have "now div 1000 < (now + ?d + late) div 1000 \<or> ?w \<le> (now + ?d + late) mod 1000"
    proof (cases "?e + ?d + late < 1000")
      case lt: True
      have "(now + ?d + late) mod 1000 = (?e + (?d + late)) mod 1000" by (simp add: mod_add_left_eq add.assoc)
      with lt have "(now + ?d + late) mod 1000 = ?e + (?d + late)" by (simp add: mod_less add.assoc)
      with ge show ?thesis by linarith
    next
      case False
      have "now + ?d + late = 1000 * (now div 1000) + (?e + ?d + late)" by simp
      with False have "1000 * (now div 1000) + 1000 \<le> now + ?d + late" by linarith
      then show ?thesis by linarith
    qed
    with True d w show ?thesis by linarith
  next
    case False
    then have d: "?d = max 25 (1000 - ?e + 5)" by (simp add: delayMs_def)
    have "now = 1000 * (now div 1000) + ?e" by simp
    with d e have "1000 * (now div 1000) + 1000 \<le> now + ?d + late" by linarith
    then have "now div 1000 < (now + ?d + late) div 1000" by linarith
    with d e show ?thesis by linarith
  qed
qed

text \<open>
  Headroom for one-time passwords: where both shares of the limit amount to at least one slot, the transactional and
  marketing reservations together leave a tenth of the limit free; the configured shares never exceed nine tenths.
\<close>

theorem otp_headroom:
  assumes "1 \<le> of_nat limit * fst (reservationShares cfg)" and "1 \<le> of_nat limit * snd (reservationShares cfg)"
  shows "of_nat (reservedClassLimit cfg limit TRANSACTIONAL + reservedClassLimit cfg limit MARKETING) \<le> (9 / 10 :: rat) * of_nat limit"
proof -
  let ?t = "of_nat limit * fst (reservationShares cfg)" and ?m = "of_nat limit * snd (reservationShares cfg)"
  have fl: "of_nat (max 1 (nat \<lfloor>x\<rfloor>)) \<le> x" if "1 \<le> x" for x :: rat
  proof -
    have "1 \<le> \<lfloor>x\<rfloor>" using that by (simp add: le_floor_iff)
    then have "max 1 (nat \<lfloor>x\<rfloor>) = nat \<lfloor>x\<rfloor>" "0 \<le> \<lfloor>x\<rfloor>" by linarith+
    then have "(of_nat (max 1 (nat \<lfloor>x\<rfloor>)) :: rat) = of_int \<lfloor>x\<rfloor>" by simp
    then show ?thesis using of_int_floor_le [of x] by metis
  qed
  have "of_nat (reservedClassLimit cfg limit TRANSACTIONAL + reservedClassLimit cfg limit MARKETING) \<le> ?t + ?m"
    using fl [OF assms(1)] fl [OF assms(2)] by (simp add: reservedClassLimit_def)
  also have "\<dots> = of_nat limit * (fst (reservationShares cfg) + snd (reservationShares cfg))" by (simp add: algebra_simps)
  also have "\<dots> \<le> of_nat limit * (9 / 10)" using reservationShares_sum [of cfg] by (intro mult_left_mono) auto
  finally show ?thesis by (simp add: mult.commute)
qed

text \<open>The default configuration.\<close>

definition default_limiter_config :: limiter_config where
  "default_limiter_config = \<lparr>lc_defaultLimit = None, lc_reservationWindow = None, lc_transactionalShare = None, lc_marketingShare = None\<rparr>"

lemma default_shares: "reservationShares default_limiter_config = (6 / 10, 2 / 10)"
  by (simp add: reservationShares_def share_def config_number_def default_limiter_config_def)

lemma default_reserved:
  "reservedClassLimit default_limiter_config 10 TRANSACTIONAL = 6" "reservedClassLimit default_limiter_config 10 MARKETING = 2"
  "reservedClassLimit default_limiter_config 2 TRANSACTIONAL = 1" "reservedClassLimit default_limiter_config 2 MARKETING = 1"
proof -
  have "\<lfloor>6 / 5 :: rat\<rfloor> = 1" "\<lfloor>2 / 5 :: rat\<rfloor> = 0" by (simp_all add: floor_eq_iff)
  then show "reservedClassLimit default_limiter_config 10 TRANSACTIONAL = 6" "reservedClassLimit default_limiter_config 10 MARKETING = 2"
    "reservedClassLimit default_limiter_config 2 TRANSACTIONAL = 1" "reservedClassLimit default_limiter_config 2 MARKETING = 1"
    by (simp_all add: reservedClassLimit_def default_shares)
qed

text \<open>
  The headroom is not there for small limits: a sender limited to two messages a second, with the default shares, reserves
  both slots for transactional and marketing traffic.
\<close>

theorem small_limit_without_headroom:
  "reservedClassLimit default_limiter_config 2 TRANSACTIONAL + reservedClassLimit default_limiter_config 2 MARKETING = 2"
  by (simp add: default_reserved)

theorem otp_headroom_witness:
  "of_nat (reservedClassLimit default_limiter_config 10 TRANSACTIONAL + reservedClassLimit default_limiter_config 10 MARKETING) \<le> (9 :: rat)"
  using otp_headroom [of 10 default_limiter_config] by (simp add: default_shares)

theorem slots_within_limits_witness:
  "granted (\<lambda>_. True) [(OTP, 1000), (OTP, 1001), (OTP, 1002)]
     (fst (run_requests default_limiter_config 2 ''5'' [(OTP, 1000), (OTP, 1001), (OTP, 1002)] (\<lambda>_. None))) \<le> 2"
  using slots_within_limits [of default_limiter_config 2 "''5''" "[(OTP, 1000), (OTP, 1001), (OTP, 1002)]" "\<lambda>_. None" _ _ 1,
      OF surjective_pairing, of OTP]
  by (simp add: in_window_def TRAFFIC_CLASSES_def)

end
