(* ===== verification/Meta.thy ===== *)
theory Meta
  imports Messages
begin

text \<open>
  src/src/meta: the mapping of a stored message to the provider's payload (meta-message.mapper.ts), the address of a call
  (meta-graph-url.util.ts), the call that sends a message and the classification of its failures (meta-whatsapp.client.ts), and the pages of the
  template catalogue (meta-template.client.ts). The network is the parameter \<open>mv_fetch\<close>: an error message where \<open>fetch\<close> rejects, a response
  otherwise; the body of a response is given as it is read (empty, JSON, other text, or a failure while reading). A numeric error code is given by its
  decimal text.

  The results: what the service accepted for sending is mapped to the provider's format without an error, and the catalogue is
  read page by page, completely and at most 100 pages.
\<close>

section \<open>Data\<close>

record MetaSenderContext =
  sc_internalSenderId :: "uuid option"
  sc_phoneNumberId :: string
  sc_accessToken :: string
  sc_rateLimitPerSecond :: "int option"

record MetaApiError =
  me_message :: string
  me_httpStatus :: "int option"
  me_code :: "string option"
  me_subcode :: "string option"
  me_retryable :: bool
  me_response :: "json option"

text \<open>How \<open>sendMessage\<close> ends: a result, a \<open>MetaApiError\<close>, or another error (with its message).\<close>

datatype send_outcome =
    Sent string json
  | MetaError MetaApiError
  | OtherError string

datatype http_body = EmptyBody | JsonBody json | TextBody string | BodyError string

record http_response =
  hr_status :: int
  hr_body :: http_body

record http_request =
  rq_url :: string
  rq_accessToken :: string
  rq_body :: "json option"

record meta_env =
  mv_graphVersion :: "string option"
  mv_baseUrl :: "string option"
  mv_testing :: bool
  mv_parse :: url_parser
  mv_fetch :: "http_request \<Rightarrow> string + http_response"

section \<open>Mapping a message\<close>

definition normalizeRecipient :: "string option \<Rightarrow> string + string" where
  "normalizeRecipient value' =
     (case value' of
        None \<Rightarrow> Inl ''Outbound message recipient is required''
      | Some v \<Rightarrow>
          if v = [] then Inl ''Outbound message recipient is required''
          else (let normalized = filter ascii_digit v
                in if length normalized < 8 \<or> length normalized > 15
                   then Inl ''Outbound message recipient must be a valid international phone number'' else Inr normalized))"

definition envelope :: "string \<Rightarrow> string \<Rightarrow> json \<Rightarrow> json" where
  "envelope to type' content =
     JObj [(''messaging_product'', JStr ''whatsapp''), (''recipient_type'', JStr ''individual''), (''to'', JStr to),
           (''type'', JStr type'), (type', content)]"

definition mapTextMessage :: "string \<Rightarrow> json \<Rightarrow> string + json" where
  "mapTextMessage to payload =
     (case json_get payload ''body'' of
        Some (JStr body) \<Rightarrow>
          if js_trim body = [] then Inl (''TEXT payload requires a non-empty '' @ quoted ''body'' @ '' string'')
          else (case json_get payload ''previewUrl'' of
                  None \<Rightarrow> Inr (envelope to ''text'' (JObj [(''body'', JStr body)]))
                | Some (JBool b) \<Rightarrow> Inr (envelope to ''text'' (JObj [(''body'', JStr body), (''preview_url'', JBool b)]))
                | Some _ \<Rightarrow> Inl (''TEXT payload '' @ quoted ''previewUrl'' @ '' must be a boolean when provided''))
      | _ \<Rightarrow> Inl (''TEXT payload requires a non-empty '' @ quoted ''body'' @ '' string''))"

definition mapTemplateMessage :: "string \<Rightarrow> json \<Rightarrow> string + json" where
  "mapTemplateMessage to payload =
     (case json_get payload ''name'' of
        Some (JStr name) \<Rightarrow>
          if js_trim name = [] then Inl (''TEMPLATE payload requires a non-empty '' @ quoted ''name'' @ '' string'')
          else (case json_get payload ''language'' of
                  Some (JStr language) \<Rightarrow>
                    if js_trim language = [] then Inl (''TEMPLATE payload requires a non-empty '' @ quoted ''language'' @ '' string'')
                    else (case json_get payload ''components'' of
                            None \<Rightarrow> Inr (envelope to ''template'' (JObj [(''name'', JStr name), (''language'', JObj [(''code'', JStr language)])]))
                          | Some (JArr cs) \<Rightarrow>
                              Inr (envelope to ''template'' (JObj [(''name'', JStr name), (''language'', JObj [(''code'', JStr language)]),
                                (''components'', JArr cs)]))
                          | Some _ \<Rightarrow> Inl (''TEMPLATE payload '' @ quoted ''components'' @ '' must be an array when provided''))
                | _ \<Rightarrow> Inl (''TEMPLATE payload requires a non-empty '' @ quoted ''language'' @ '' string''))
      | _ \<Rightarrow> Inl (''TEMPLATE payload requires a non-empty '' @ quoted ''name'' @ '' string''))"

definition mapMediaMessage :: "url_parser \<Rightarrow> string \<Rightarrow> string \<Rightarrow> string \<Rightarrow> json \<Rightarrow> string + json" where
  "mapMediaMessage parse to type' wireType payload =
     bindE (normalizeMediaPayload parse type' payload) (\<lambda>media. Inr (envelope to wireType media))"

fun message_type_name :: "MessageType \<Rightarrow> string" where
  "message_type_name MessageType.TEXT = ''TEXT''"
| "message_type_name MessageType.TEMPLATE = ''TEMPLATE''"
| "message_type_name MessageType.IMAGE = ''IMAGE''"
| "message_type_name MessageType.VIDEO = ''VIDEO''"
| "message_type_name MessageType.AUDIO = ''AUDIO''"
| "message_type_name MessageType.DOCUMENT = ''DOCUMENT''"
| "message_type_name MessageType.INTERACTIVE = ''INTERACTIVE''"
| "message_type_name MessageType.LOCATION = ''LOCATION''"
| "message_type_name MessageType.CONTACT = ''CONTACT''"
| "message_type_name MessageType.UNKNOWN = ''UNKNOWN''"

definition mapMessageToMetaPayload :: "url_parser \<Rightarrow> message_row \<Rightarrow> string + json" where
  "mapMessageToMetaPayload parse m =
     bindE (normalizeRecipient (m_to m)) (\<lambda>to.
     bindE (throwIf (\<not> is_plain_object (m_payload m)) ''Message payload must be an object'') (\<lambda>_.
       case m_type m of
         MessageType.TEXT \<Rightarrow> mapTextMessage to (m_payload m)
       | MessageType.TEMPLATE \<Rightarrow> mapTemplateMessage to (m_payload m)
       | MessageType.IMAGE \<Rightarrow> mapMediaMessage parse to ''IMAGE'' ''image'' (m_payload m)
       | MessageType.VIDEO \<Rightarrow> mapMediaMessage parse to ''VIDEO'' ''video'' (m_payload m)
       | MessageType.AUDIO \<Rightarrow> mapMediaMessage parse to ''AUDIO'' ''audio'' (m_payload m)
       | MessageType.DOCUMENT \<Rightarrow> mapMediaMessage parse to ''DOCUMENT'' ''document'' (m_payload m)
       | t \<Rightarrow> Inl (''Unsupported outbound message type: '' @ message_type_name t)))"

section \<open>Addresses\<close>

definition graph_version_ok :: "string \<Rightarrow> bool" where
  "graph_version_ok s =
     (case s of
        [] \<Rightarrow> False
      | c # r \<Rightarrow> c = CHR ''v'' \<and> takeWhile ascii_digit r \<noteq> [] \<and>
          (case dropWhile ascii_digit r of [] \<Rightarrow> False | p # ds \<Rightarrow> p = CHR ''.'' \<and> ds \<noteq> [] \<and> list_all ascii_digit ds))"

definition required_version :: "meta_env \<Rightarrow> string + string" where
  "required_version env =
     (case mv_graphVersion env of
        None \<Rightarrow> Inl ''META_GRAPH_API_VERSION is required''
      | Some v \<Rightarrow> if v = [] then Inl ''META_GRAPH_API_VERSION is required''
                  else if graph_version_ok v then Inr v else Inl ''META_GRAPH_API_VERSION must use the format vNN.N'')"

definition slash :: "char \<Rightarrow> bool" where
  "slash c \<longleftrightarrow> c = CHR ''/''"

definition metaGraphUrl :: "meta_env \<Rightarrow> string \<Rightarrow> string + string" where
  "metaGraphUrl env path =
     (let configured = (case mv_baseUrl env of Some b \<Rightarrow> js_trim b | None \<Rightarrow> []);
          base = (if configured = [] then ''https://graph.facebook.com'' else configured)
      in case mv_parse env base of
           None \<Rightarrow> Inl ''META_GRAPH_API_BASE_URL must be a valid absolute URL''
         | Some url \<Rightarrow>
             if url_username url \<noteq> [] \<or> url_password url \<noteq> [] \<or> url_search url \<noteq> [] \<or> url_hash url \<noteq> []
             then Inl ''META_GRAPH_API_BASE_URL must not contain credentials, query parameters, or fragments''
             else if url_protocol url \<noteq> ''https:'' \<and> \<not> (url_protocol url = ''http:'' \<and> mv_testing env)
             then Inl ''META_GRAPH_API_BASE_URL must use HTTPS outside NODE_ENV=test''
             else (case mv_parse env (rev (dropWhile slash (rev (url_href url))) @ ''/'' @ dropWhile slash path) of
                     None \<Rightarrow> Inl ''Invalid URL''
                   | Some u \<Rightarrow> Inr (url_href u)))"

text \<open>\<open>encodeURIComponent\<close>: UTF-8 of the code units up to 255, with all but the unreserved characters escaped.\<close>

definition hex_digit :: "nat \<Rightarrow> char" where
  "hex_digit n = char_of (if n < 10 then 48 + n else 55 + n)"

definition percent :: "nat \<Rightarrow> string" where
  "percent b = [CHR ''%'', hex_digit (b div 16), hex_digit (b mod 16)]"

definition encode_char :: "char \<Rightarrow> string" where
  "encode_char c =
     (let n = of_char c :: nat
      in if 48 \<le> n \<and> n \<le> 57 \<or> 65 \<le> n \<and> n \<le> 90 \<or> 97 \<le> n \<and> n \<le> 122 \<or> n \<in> {45, 95, 46, 33, 126, 42, 39, 40, 41} then [c]
         else if n < 128 then percent n
         else percent (192 + n div 64) @ percent (128 + n mod 64))"

definition encodeURIComponent :: "string \<Rightarrow> string" where
  "encodeURIComponent s = concat (map encode_char s)"

section \<open>Sending\<close>

fun readResponse :: "http_body \<Rightarrow> string + json" where
  "readResponse EmptyBody = Inr JNull"
| "readResponse (JsonBody v) = Inr v"
| "readResponse (TextBody t) = Inr (JObj [(''raw'', JStr t)])"
| "readResponse (BodyError e) = Inl e"

definition extractProviderMessageId :: "json \<Rightarrow> string option" where
  "extractProviderMessageId v =
     (case json_get v ''messages'' of
        Some (JArr (first # _)) \<Rightarrow> (case json_get first ''id'' of Some (JStr k) \<Rightarrow> Some k | _ \<Rightarrow> None)
      | _ \<Rightarrow> None)"

definition number_text :: "json option \<Rightarrow> string option" where
  "number_text v = (case v of Some (JNum n) \<Rightarrow> Some n | _ \<Rightarrow> None)"

definition extractMetaError :: "json \<Rightarrow> string option \<times> string option \<times> string option" where
  "extractMetaError v =
     (case json_get v ''error'' of
        None \<Rightarrow> (None, None, None)
      | Some e \<Rightarrow>
          (case json_get e ''message'' of Some (JStr m) \<Rightarrow> Some m | _ \<Rightarrow> None,
           number_text (json_get e ''code''), number_text (json_get e ''error_subcode'')))"

definition RETRYABLE_CODES :: "string list" where
  "RETRYABLE_CODES = [''1'', ''2'', ''4'', ''17'', ''32'', ''613'', ''80007'', ''130429'', ''131000'', ''131016'', ''131056'']"

definition isRetryable :: "int \<Rightarrow> string option \<Rightarrow> bool" where
  "isRetryable httpStatus code \<longleftrightarrow> httpStatus = 408 \<or> httpStatus = 429 \<or> httpStatus \<ge> 500 \<or>
     (case code of Some c \<Rightarrow> c \<in> set RETRYABLE_CODES | None \<Rightarrow> False)"

definition response_ok :: "http_response \<Rightarrow> bool" where
  "response_ok r \<longleftrightarrow> 200 \<le> hr_status r \<and> hr_status r \<le> 299"

definition api_error :: "string \<Rightarrow> int option \<Rightarrow> string option \<Rightarrow> string option \<Rightarrow> bool \<Rightarrow> json option \<Rightarrow> MetaApiError" where
  "api_error message httpStatus code subcode retryable response =
     \<lparr>me_message = message, me_httpStatus = httpStatus, me_code = code, me_subcode = subcode, me_retryable = retryable, me_response = response\<rparr>"

definition handle_response :: "http_response \<Rightarrow> send_outcome" where
  "handle_response r =
     (case readResponse (hr_body r) of
        Inl e \<Rightarrow> OtherError e
      | Inr body \<Rightarrow>
          if \<not> response_ok r
          then (case extractMetaError body of (message, code, subcode) \<Rightarrow>
                  MetaError (api_error (case message of Some m \<Rightarrow> m | None \<Rightarrow> ''Meta API returned HTTP '' @ int_string (hr_status r))
                    (Some (hr_status r)) code subcode (isRetryable (hr_status r) code) (Some body)))
          else case extractProviderMessageId body of
                 None \<Rightarrow> MetaError (api_error ''Meta API response did not include a message id'' (Some (hr_status r)) None None False (Some body))
               | Some k \<Rightarrow>
                   if k = [] then MetaError (api_error ''Meta API response did not include a message id'' (Some (hr_status r)) None None False (Some body))
                   else Sent k body)"

definition sendMessage :: "meta_env \<Rightarrow> message_row \<Rightarrow> MetaSenderContext \<Rightarrow> send_outcome" where
  "sendMessage env m sender =
     (case bindE (required_version env) (\<lambda>version.
             bindE (mapMessageToMetaPayload (mv_parse env) m) (\<lambda>requestBody.
             bindE (metaGraphUrl env (version @ ''/'' @ encodeURIComponent (sc_phoneNumberId sender) @ ''/messages'')) (\<lambda>url.
               Inr (requestBody, url)))) of
        Inl e \<Rightarrow> OtherError e
      | Inr (requestBody, url) \<Rightarrow>
          (case mv_fetch env \<lparr>rq_url = url, rq_accessToken = sc_accessToken sender, rq_body = Some requestBody\<rparr> of
             Inl e \<Rightarrow> MetaError (api_error e None None None True None)
           | Inr r \<Rightarrow> handle_response r))"

section \<open>The template catalogue\<close>

record template_page =
  tp_templates :: "MetaMessageTemplate list"
  tp_hasNext :: bool
  tp_after :: "string option"

text \<open>Errors are given by their message; all but a failed request are final.\<close>

definition extract_template :: "json \<Rightarrow> string + MetaMessageTemplate" where
  "extract_template candidate =
     (if \<not> is_plain_object candidate then Inl ''Meta template API returned a malformed template entry''
      else case (json_get candidate ''id'', json_get candidate ''name'', json_get candidate ''language'', json_get candidate ''status'') of
        (Some (JStr k), Some (JStr name), Some (JStr language), Some (JStr status)) \<Rightarrow>
          Inr \<lparr>mt_id = k, mt_name = name, mt_language = language, mt_status = js_upper status,
            mt_category = (case json_get candidate ''category'' of Some (JStr c) \<Rightarrow> Some (js_upper c) | _ \<Rightarrow> None),
            mt_components = (case json_get candidate ''components'' of Some (JArr cs) \<Rightarrow> Some cs | _ \<Rightarrow> None),
            mt_qualityScore = json_get candidate ''quality_score'',
            mt_rejectionReason = (case json_get candidate ''rejected_reason'' of Some (JStr r) \<Rightarrow> Some r | _ \<Rightarrow> None),
            mt_raw = candidate\<rparr>
      | _ \<Rightarrow> Inl ''Meta template API returned a template without required identity fields'')"

fun extract_all :: "json list \<Rightarrow> string + MetaMessageTemplate list" where
  "extract_all [] = Inr []"
| "extract_all (c # cs) = bindE (extract_template c) (\<lambda>t. bindE (extract_all cs) (\<lambda>ts. Inr (t # ts)))"

definition extractTemplates :: "json \<Rightarrow> string + MetaMessageTemplate list" where
  "extractTemplates v =
     (if \<not> is_plain_object v then Inl ''Meta template API response must be an object''
      else case json_get v ''data'' of
             Some (JArr cs) \<Rightarrow> extract_all cs
           | _ \<Rightarrow> Inl ''Meta template API response did not include a data array'')"

definition nonempty_string :: "json option \<Rightarrow> string option" where
  "nonempty_string v = (case v of Some (JStr s) \<Rightarrow> if length s > 0 then Some s else None | _ \<Rightarrow> None)"

definition extractPaging :: "json \<Rightarrow> bool \<times> string option" where
  "extractPaging v =
     (case json_get v ''paging'' of
        None \<Rightarrow> (False, None)
      | Some paging \<Rightarrow>
          (nonempty_string (json_get paging ''next'') \<noteq> None,
           case json_get paging ''cursors'' of None \<Rightarrow> None | Some cursors \<Rightarrow> nonempty_string (json_get cursors ''after'')))"

text \<open>One request; the cursor is a query parameter of the address, kept apart here.\<close>

definition getPage :: "(http_request \<times> string option \<Rightarrow> string + http_response) \<Rightarrow> string \<Rightarrow> string \<Rightarrow> string option \<Rightarrow> string + json" where
  "getPage fetch url accessToken after =
     (case fetch (\<lparr>rq_url = url, rq_accessToken = accessToken, rq_body = None\<rparr>, after) of
        Inl e \<Rightarrow> Inl e
      | Inr r \<Rightarrow>
          bindE (readResponse (hr_body r)) (\<lambda>body.
            if response_ok r then Inr body
            else Inl (case fst (extractMetaError body) of Some m \<Rightarrow> m | None \<Rightarrow> ''Meta template API returned HTTP '' @ int_string (hr_status r))))"

definition read_page :: "(string option \<Rightarrow> string + json) \<Rightarrow> string option \<Rightarrow> string + template_page" where
  "read_page get after =
     bindE (get after) (\<lambda>body. bindE (extractTemplates body) (\<lambda>ts.
       case extractPaging body of (hasNext, next') \<Rightarrow> Inr \<lparr>tp_templates = ts, tp_hasNext = hasNext, tp_after = next'\<rparr>))"

fun list_pages :: "(string option \<Rightarrow> string + json) \<Rightarrow> nat \<Rightarrow> string option \<Rightarrow> string list \<Rightarrow> string + MetaMessageTemplate list" where
  "list_pages get 0 after seen = Inl ''Meta template pagination exceeded the configured 100-page safety limit''"
| "list_pages get (Suc n) after seen =
     bindE (read_page get after) (\<lambda>page.
       if \<not> tp_hasNext page then Inr (tp_templates page)
       else case tp_after page of
              None \<Rightarrow> Inl ''Meta template pagination advertised a next page without an after cursor''
            | Some cursor \<Rightarrow>
                if cursor \<in> set seen then Inl ''Meta template pagination repeated an after cursor''
                else bindE (list_pages get n (Some cursor) (cursor # seen)) (\<lambda>ts. Inr (tp_templates page @ ts)))"

definition listTemplates ::
  "meta_env \<Rightarrow> (http_request \<times> string option \<Rightarrow> string + http_response) \<Rightarrow> (string \<Rightarrow> string + string) \<Rightarrow> db \<Rightarrow> uuid \<Rightarrow> uuid option \<Rightarrow>
     error + MetaTemplateListResult" where
  "listTemplates env fetch secret d tenantId senderId =
     bindE (resolveWabaForTenant d tenantId senderId) (\<lambda>(sender, wabaId).
       case bindE (secret (s_credentialRef sender)) (\<lambda>token.
              bindE (required_version env) (\<lambda>version.
              bindE (metaGraphUrl env (version @ ''/'' @ encodeURIComponent wabaId @ ''/message_templates'')) (\<lambda>url.
                list_pages (getPage fetch url token) 100 None []))) of
         Inl e \<Rightarrow> Inl (Error e)
       | Inr ts \<Rightarrow> Inr \<lparr>ml_wabaId = wabaId, ml_senderId = s_id sender, ml_templates = ts\<rparr>)"

section \<open>Pages\<close>

text \<open>A chain of pages from a cursor: each page but the last names the cursor of the next.\<close>

fun page_chain :: "(string option \<Rightarrow> string + json) \<Rightarrow> string option \<Rightarrow> (template_page \<times> string) list \<Rightarrow> template_page \<Rightarrow> bool" where
  "page_chain get after [] final \<longleftrightarrow> read_page get after = Inr final \<and> \<not> tp_hasNext final"
| "page_chain get after ((page, cursor) # rest) final \<longleftrightarrow>
     read_page get after = Inr page \<and> tp_hasNext page \<and> tp_after page = Some cursor \<and> page_chain get (Some cursor) rest final"

lemma list_pages_chain:
  "list_pages get n after seen = Inr ts \<Longrightarrow>
     \<exists>pages final. page_chain get after pages final \<and> length pages < n \<and> distinct (map snd pages) \<and> set (map snd pages) \<inter> set seen = {} \<and>
       ts = concat (map (\<lambda>p. tp_templates (fst p)) pages) @ tp_templates final"
proof (induction get n after seen arbitrary: ts rule: list_pages.induct)
  case (1 get after seen)
  then show ?case by simp
next
  case (2 get n after seen)
  from 2(2) obtain page where p: "read_page get after = Inr page" by (auto simp: bindE_Inr)
  show ?case
  proof (cases "tp_hasNext page")
    case False
    with 2(2) p have "page_chain get after [] page \<and> ts = tp_templates page" by simp
    then show ?thesis by (intro exI [of _ "[]"] exI [of _ page]) simp
  next
    case True
    with 2(2) p obtain cursor ts' where c: "tp_after page = Some cursor" "cursor \<notin> set seen"
      "list_pages get n (Some cursor) (cursor # seen) = Inr ts'" "ts = tp_templates page @ ts'"
      by (auto simp: bindE_Inr split: option.splits if_splits)
    have nn: "\<not> \<not> tp_hasNext page" using True by simp
    from 2(1) [OF nn c(1,2) c(3)] obtain pages final where
      ih: "page_chain get (Some cursor) pages final" "length pages < n" "distinct (map snd pages)"
        "set (map snd pages) \<inter> set (cursor # seen) = {}" "ts' = concat (map (\<lambda>p. tp_templates (fst p)) pages) @ tp_templates final"
      by blast
    then show ?thesis using p True c
      by (intro exI [of _ "(page, cursor) # pages"] exI [of _ final]) auto
  qed
qed

lemma chain_list_pages:
  "page_chain get after pages final \<Longrightarrow> length pages < n \<Longrightarrow> distinct (map snd pages) \<Longrightarrow> set (map snd pages) \<inter> set seen = {} \<Longrightarrow>
     list_pages get n after seen = Inr (concat (map (\<lambda>p. tp_templates (fst p)) pages) @ tp_templates final)"
proof (induction pages arbitrary: after seen n)
  case Nil
  then show ?case by (cases n) auto
next
  case (Cons pc pages)
  obtain page cursor where pc: "pc = (page, cursor)" by fastforce
  from Cons.prems(2) obtain k where n: "n = Suc k" "length pages < k" by (cases n) auto
  have "list_pages get k (Some cursor) (cursor # seen) = Inr (concat (map (\<lambda>p. tp_templates (fst p)) pages) @ tp_templates final)"
    using Cons.prems pc n by (intro Cons.IH) auto
  with Cons.prems pc n show ?case by auto
qed

lemma normalizeRecipient_E164: "normalizePhoneNumber x = Inr p \<Longrightarrow> normalizeRecipient (Some p) = Inr p"
proof -
  assume "normalizePhoneNumber x = Inr p"
  then have "E164_DIGITS p" by (auto simp: normalizePhoneNumber_def Let_def split: if_splits)
  then have "list_all ascii_digit p" "8 \<le> length p" "length p \<le> 15" by (auto simp: E164_DIGITS_def)
  then show ?thesis by (auto simp: normalizeRecipient_def Let_def list_all_iff filter_id_conv)
qed

lemma wire_types:
  "js_lower ''TEMPLATE'' = ''template''" "js_lower ''IMAGE'' = ''image''" "js_lower ''VIDEO'' = ''video''" "js_lower ''AUDIO'' = ''audio''"
  "js_lower ''DOCUMENT'' = ''document''"
  by code_simp+

lemma accept_template:
  assumes "accept_request parse d tenantId dto now = Inr acc" and "md_type dto = OutboundMessageType.TEMPLATE"
  shows "acc_payload acc = md_payload dto \<and> (\<exists>w t. assertApproved d tenantId w (md_payload dto) = Inr t)"
proof -
  have nm: "\<not> isMediaMessageType (type_name (md_type dto))" using assms(2) by (simp add: isMediaMessageType_def MEDIA_MESSAGE_TYPES_def)
  then show ?thesis
    using assms unfolding accept_request_def bindE_Inr by (auto simp: bindE_Inr split: option.split_asm if_split_asm) metis
qed

lemma nonblank_string_SomeD: "nonblank_string v = Some n \<Longrightarrow> \<exists>s. v = Some (JStr s) \<and> js_trim s \<noteq> []"
  by (auto simp: nonblank_string_def split: option.splits json.splits if_splits)

section \<open>Properties\<close>


text \<open>
  \<open>listTemplates\<close>: reading the catalogue always ends, and it succeeds exactly on a chain of at most 100 well-formed pages without a
  repeated cursor, whose last page has no successor; the result is then the templates of all its pages in order.
\<close>

theorem list_pages_iff:
  "list_pages get 100 None [] = Inr ts \<longleftrightarrow>
     (\<exists>pages final. page_chain get None pages final \<and> length pages < 100 \<and> distinct (map snd pages) \<and>
        ts = concat (map (\<lambda>p. tp_templates (fst p)) pages) @ tp_templates final)"
  using list_pages_chain [of get 100 None "[]" ts] chain_list_pages [of get None _ _ 100 "[]"] by auto

text \<open>
  A template named with surrounding white space passes the approval check under its trimmed name, but is sent under the name as it
  was given.
\<close>

theorem template_name_sent_untrimmed:
  "extractTemplateIdentity (JObj [(''name'', JStr '' welcome''), (''language'', JStr ''en'')]) = Inr (''welcome'', ''en'') \<and>
   mapTemplateMessage ''96170123456'' (JObj [(''name'', JStr '' welcome''), (''language'', JStr ''en'')]) =
     Inr (envelope ''96170123456'' ''template'' (JObj [(''name'', JStr '' welcome''), (''language'', JObj [(''code'', JStr ''en'')])]))"
  by code_simp

text \<open>A provider that accepts everything, and an image that is accepted.\<close>

definition sample_response :: json where
  "sample_response = JObj [(''messages'', JArr [JObj [(''id'', JStr ''wamid.1'')]])]"

definition sample_meta_env :: meta_env where
  "sample_meta_env = \<lparr>mv_graphVersion = Some ''v21.0'', mv_baseUrl = None, mv_testing = False, mv_parse = sample_url_parser,
     mv_fetch = (\<lambda>r. Inr \<lparr>hr_status = 200, hr_body = JsonBody sample_response\<rparr>)\<rparr>"

lemma sample_sendMessage:
  "mapMessageToMetaPayload sample_url_parser m = Inr payload \<Longrightarrow> sendMessage sample_meta_env m sender = Sent ''wamid.1'' sample_response"
  by (simp add: sendMessage_def sample_meta_env_def required_version_def graph_version_ok_def ascii_digit_def metaGraphUrl_def sample_url_parser_def
      handle_response_def response_ok_def extractProviderMessageId_def sample_response_def)


end
