(* ===== verification/Dispatcher.thy ===== *)
theory Dispatcher
  imports Outbox Rate_Limiter Meta
begin

text \<open>
  src/src/worker/message-dispatcher.service.ts, with the sender resolution of src/src/meta/meta-sender-resolver.service.ts.
  What lies outside is a parameter of the environment: the answer of the provider to a send, the secret store,
  the rate limiter's failure and a failure of the database in the update after a successful send. Tracing spans are left out.

  A dispatch has two parts because other workers run in between: claiming the message under a lease, and sending it and
  recording the outcome. The step relation \<open>worker_step\<close> interleaves any number of dispatches.
\<close>

section \<open>Environment\<close>

record dispatch_env =
  de_required :: "string \<Rightarrow> string + string"
  de_secret :: "string \<Rightarrow> string + string"
  de_slot :: "MetaSenderContext \<Rightarrow> MessageTrafficClass \<Rightarrow> string option"
  de_meta :: meta_env
  de_recordError :: "string option"

section \<open>Senders\<close>

definition toSenderContext :: "dispatch_env \<Rightarrow> sender_row \<Rightarrow> string + MetaSenderContext" where
  "toSenderContext env sender =
     bindE (de_secret env (s_credentialRef sender)) (\<lambda>token.
       Inr \<lparr>sc_internalSenderId = Some (s_id sender), sc_phoneNumberId = s_providerPhoneNumberId sender, sc_accessToken = token,
            sc_rateLimitPerSecond = s_rateLimitPerSecond sender\<rparr>)"

definition resolve_sender :: "dispatch_env \<Rightarrow> db \<Rightarrow> uuid option \<Rightarrow> string + MetaSenderContext" where
  "resolve_sender env d senderId =
     (if senderId = None \<or> senderId = Some []
      then bindE (de_required env ''META_WHATSAPP_PHONE_NUMBER_ID'') (\<lambda>phone.
           bindE (de_required env ''META_WHATSAPP_ACCESS_TOKEN'') (\<lambda>token.
             Inr \<lparr>sc_internalSenderId = None, sc_phoneNumberId = phone, sc_accessToken = token, sc_rateLimitPerSecond = None\<rparr>))
      else case findActiveById d (the senderId) of
             Inl e \<Rightarrow> Inl (error_message e)
           | Inr sender \<Rightarrow> toSenderContext env sender)"

section \<open>Claiming\<close>

definition TERMINAL_OR_SUBMITTED_STATUSES :: "MessageStatus list" where
  "TERMINAL_OR_SUBMITTED_STATUSES = [SUBMITTED, SENT, DELIVERED, READ, FAILED, CANCELLED, EXPIRED]"

definition claimable :: "time \<Rightarrow> message_row \<Rightarrow> bool" where
  "claimable now m \<longleftrightarrow> m_providerMessageId m = None \<and>
     (m_status m = CREATED \<or> m_status m = QUEUED \<or>
      m_status m = PROCESSING \<and> (case m_processingLeaseUntil m of None \<Rightarrow> True | Some t \<Rightarrow> t \<le> now))"

definition claim_update :: "time \<Rightarrow> time \<Rightarrow> message_row \<Rightarrow> message_row" where
  "claim_update now leaseUntil m = m\<lparr>m_status := PROCESSING, m_attemptCount := m_attemptCount m + 1, m_lastAttemptAt := Some now,
     m_processingLeaseUntil := Some leaseUntil, m_errorCode := None, m_errorMessage := None\<rparr>"

definition claimMessage :: "db \<Rightarrow> uuid \<Rightarrow> nat \<Rightarrow> time \<Rightarrow> bool \<times> message_row option \<times> db" where
  "claimMessage d messageId leaseMs now =
     (let leaseUntil = now + max 5000 leaseMs;
          p = (\<lambda>m. m_id m = messageId \<and> claimable now m);
          rows = updateMany p (claim_update now leaseUntil) (messages d)
      in (countWhere p (messages d) = 1, findMessage messageId rows, d\<lparr>messages := rows\<rparr>))"

section \<open>Recording outcomes\<close>

definition response_entry :: "json option \<Rightarrow> (string \<times> json) list" where
  "response_entry r = (case r of None \<Rightarrow> [] | Some v \<Rightarrow> [(''response'', v)])"

definition markRetryableFailure :: "uuid \<Rightarrow> string \<Rightarrow> string \<Rightarrow> nat \<Rightarrow> json option \<Rightarrow> time \<Rightarrow> db \<Rightarrow> db" where
  "markRetryableFailure messageId errorCode errorMessage attempt response now d =
     add_event messageId QUEUED
       (Some (JObj ([(''retry'', JBool True), (''queueAttempt'', JNum (nat_string (attempt + 1))), (''errorCode'', JStr errorCode),
          (''errorMessage'', JStr errorMessage)] @ response_entry response))) now
       (d\<lparr>messages := updateMessage messageId (\<lambda>m. m\<lparr>m_status := QUEUED, m_processingLeaseUntil := None, m_errorCode := Some errorCode,
          m_errorMessage := Some (take 2000 errorMessage)\<rparr>) (messages d)\<rparr>)"

definition markFailed :: "uuid \<Rightarrow> string \<Rightarrow> string \<Rightarrow> json option \<Rightarrow> time \<Rightarrow> db \<Rightarrow> db" where
  "markFailed messageId errorCode errorMessage response now d =
     add_event messageId FAILED
       (Some (JObj ([(''errorCode'', JStr errorCode), (''errorMessage'', JStr errorMessage)] @ response_entry response))) now
       (d\<lparr>messages := updateMessage messageId (\<lambda>m. m\<lparr>m_status := FAILED, m_processingLeaseUntil := None, m_errorCode := Some errorCode,
          m_errorMessage := Some (take 2000 errorMessage), m_failedAt := Some now,
          m_providerResponse := (case response of None \<Rightarrow> m_providerResponse m | Some r \<Rightarrow> Some r)\<rparr>) (messages d)\<rparr>)"

definition markSubmitted :: "uuid \<Rightarrow> string \<Rightarrow> json \<Rightarrow> time \<Rightarrow> db \<Rightarrow> db" where
  "markSubmitted messageId providerMessageId response now d =
     add_event messageId SUBMITTED (Some (JObj [(''providerMessageId'', JStr providerMessageId)])) now
       (d\<lparr>messages := updateMessage messageId (\<lambda>m. m\<lparr>m_status := SUBMITTED, m_providerMessageId := Some providerMessageId,
          m_providerResponse := Some response, m_submittedAt := Some now, m_processingLeaseUntil := None, m_errorCode := None,
          m_errorMessage := None\<rparr>) (messages d)\<rparr>)"

definition metaErrorCode :: "MetaApiError \<Rightarrow> string" where
  "metaErrorCode e =
     (case me_code e of
        Some c \<Rightarrow> ''META_'' @ c @ (case me_subcode e of Some s \<Rightarrow> ''_'' @ s | None \<Rightarrow> [])
      | None \<Rightarrow> (case me_httpStatus e of Some h \<Rightarrow> ''HTTP_'' @ int_string h | None \<Rightarrow> ''META_API_ERROR''))"

section \<open>Dispatching\<close>

definition result :: "action \<Rightarrow> string option \<Rightarrow> QueueProcessingResult" where
  "result a r = \<lparr>res_action = a, res_reason = r\<rparr>"

text \<open>Up to the start of the work: \<open>Inl\<close> is an early return.\<close>

definition dispatch_begin :: "db \<Rightarrow> OutboundQueueJob \<Rightarrow> nat \<Rightarrow> time \<Rightarrow> (QueueProcessingResult + message_row) \<times> db" where
  "dispatch_begin d job leaseMs now =
     (case claimMessage d (job_messageId job) leaseMs now of
        (False, None, d1) \<Rightarrow> (Inl (result Ack None), d1)
      | (False, Some m, d1) \<Rightarrow>
          if truthy (m_providerMessageId m) \<or> m_status m \<in> set TERMINAL_OR_SUBMITTED_STATUSES then (Inl (result Ack None), d1)
          else if m_status m = PROCESSING then (Inl (result Defer (Some ''Message is currently leased by another worker'')), d1)
          else (Inl (result Ack None), d1)
      | (True, None, d1) \<Rightarrow> (Inl (result Retry (Some ''Claimed message could not be reloaded'')), d1)
      | (True, Some m, d1) \<Rightarrow>
          if m_trafficClass m \<noteq> job_trafficClass job
          then (let reason = ''Queue traffic class '' @ traffic_name (job_trafficClass job) @ '' does not match persisted class '' @
                  traffic_name (m_trafficClass m)
                in (Inl (result Dead (Some reason)), markFailed (m_id m) ''QUEUE_TRAFFIC_CLASS_MISMATCH'' reason None now d1))
          else (Inr m, add_event (m_id m) PROCESSING
                  (Some (JObj [(''queueAttempt'', JNum (nat_string (job_attempt job + 1))), (''trafficClass'', JStr (traffic_name (m_trafficClass m)))])) now d1))"

text \<open>The rest; the last component tells whether the provider accepted the message.\<close>

definition dispatch_finish :: "dispatch_env \<Rightarrow> OutboundQueueJob \<Rightarrow> message_row \<Rightarrow> time \<Rightarrow> db \<Rightarrow> QueueProcessingResult \<times> db \<times> bool" where
  "dispatch_finish env job m now d =
     (case resolve_sender env d (m_senderId m) of
        Inl reason \<Rightarrow> (result Dead (Some reason), markFailed (m_id m) ''SENDER_CONFIGURATION_ERROR'' reason None now d, False)
      | Inr sender \<Rightarrow>
          (case de_slot env sender (m_trafficClass m) of
             Some reason \<Rightarrow>
               (result Retry (Some reason), markRetryableFailure (m_id m) ''RATE_LIMITER_UNAVAILABLE'' reason (job_attempt job) None now d, False)
           | None \<Rightarrow>
               (case sendMessage (de_meta env) m sender of
                  Sent providerMessageId response \<Rightarrow>
                    (case de_recordError env of
                       None \<Rightarrow> (result Ack None, markSubmitted (m_id m) providerMessageId response now d, True)
                     | Some reason \<Rightarrow>
                         (result Dead (Some reason), markFailed (m_id m) ''OUTBOUND_VALIDATION_ERROR'' reason None now d, True))
                | MetaError e \<Rightarrow>
                    if me_retryable e
                    then (result Retry (Some (me_message e)),
                          markRetryableFailure (m_id m) (metaErrorCode e) (me_message e) (job_attempt job) (me_response e) now d, False)
                    else (result Dead (Some (me_message e)), markFailed (m_id m) (metaErrorCode e) (me_message e) (me_response e) now d, False)
                | OtherError reason \<Rightarrow>
                    (result Dead (Some reason), markFailed (m_id m) ''OUTBOUND_VALIDATION_ERROR'' reason None now d, False))))"

definition dispatch :: "dispatch_env \<Rightarrow> db \<Rightarrow> OutboundQueueJob \<Rightarrow> nat \<Rightarrow> time \<Rightarrow> time \<Rightarrow> QueueProcessingResult \<times> db" where
  "dispatch env d job leaseMs now now' =
     (case dispatch_begin d job leaseMs now of
        (Inl r, d1) \<Rightarrow> (r, d1)
      | (Inr m, d1) \<Rightarrow> (case dispatch_finish env job m now' d1 of (r, d2, _) \<Rightarrow> (r, d2)))"

definition markRetryExhausted :: "OutboundQueueJob \<Rightarrow> string option \<Rightarrow> time \<Rightarrow> db \<Rightarrow> db" where
  "markRetryExhausted job reason now d =
     (case findMessage (job_messageId job) (messages d) of
        None \<Rightarrow> d
      | Some m \<Rightarrow>
          if m_status m \<in> set TERMINAL_OR_SUBMITTED_STATUSES then d
          else if m_status m = PROCESSING \<and> (case m_processingLeaseUntil m of None \<Rightarrow> False | Some t \<Rightarrow> t > now) then d
          else markFailed (m_id m) ''RETRY_EXHAUSTED''
                 (case reason of Some r \<Rightarrow> r
                  | None \<Rightarrow> ''Outbound retry policy exhausted after '' @ nat_string (job_attempt job + 1) @ '' queue attempts'') None now d)"

section \<open>Interleaved workers\<close>

text \<open>
  The clock, the database, the dispatches that have begun and not ended (with their lease) and the ids of the messages
  the provider accepted. With \<open>timely\<close> a worker always ends before its lease does.
\<close>

record workers =
  wk_now :: time
  wk_db :: db
  wk_inflight :: "(OutboundQueueJob \<times> message_row \<times> time) list"
  wk_accepted :: "uuid list"

definition lease_of :: "OutboundQueueJob \<times> message_row \<times> time \<Rightarrow> time" where
  "lease_of w = snd (snd w)"

definition message_of :: "OutboundQueueJob \<times> message_row \<times> time \<Rightarrow> uuid" where
  "message_of w = m_id (fst (snd w))"

inductive worker_step :: "bool \<Rightarrow> workers \<Rightarrow> workers \<Rightarrow> bool" for timely where
  tick: "wk_now s \<le> t \<Longrightarrow> (timely \<longrightarrow> list_all (\<lambda>w. t < lease_of w) (wk_inflight s)) \<Longrightarrow>
     worker_step timely s (s\<lparr>wk_now := t\<rparr>)"
| skip: "dispatch_begin (wk_db s) job leaseMs (wk_now s) = (Inl r, d') \<Longrightarrow> worker_step timely s (s\<lparr>wk_db := d'\<rparr>)"
| begin_work: "dispatch_begin (wk_db s) job leaseMs (wk_now s) = (Inr m, d') \<Longrightarrow>
     worker_step timely s (s\<lparr>wk_db := d', wk_inflight := (job, m, wk_now s + max 5000 leaseMs) # wk_inflight s\<rparr>)"
| finish_work: "wk_inflight s = before @ (job, m, lease) # after \<Longrightarrow> dispatch_finish env job m (wk_now s) (wk_db s) = (r, d', acc) \<Longrightarrow>
     worker_step timely s (s\<lparr>wk_db := d', wk_inflight := before @ after,
       wk_accepted := (if acc then m_id m # wk_accepted s else wk_accepted s)\<rparr>)"
| exhausted: "worker_step timely s (s\<lparr>wk_db := markRetryExhausted job reason (wk_now s) (wk_db s)\<rparr>)"

inductive_cases worker_stepE: "worker_step timely s s'"

inductive worker_reachable :: "bool \<Rightarrow> workers \<Rightarrow> workers \<Rightarrow> bool" for timely where
  start: "worker_reachable timely s s"
| step: "worker_reachable timely s s' \<Longrightarrow> worker_step timely s' s'' \<Longrightarrow> worker_reachable timely s s''"

section \<open>Lemmas on single operations\<close>

lemma claim_update_simps [simp]:
  "m_id (claim_update now u m) = m_id m" "m_status (claim_update now u m) = PROCESSING"
  "m_processingLeaseUntil (claim_update now u m) = Some u" "m_providerMessageId (claim_update now u m) = m_providerMessageId m"
  "m_trafficClass (claim_update now u m) = m_trafficClass m"
  by (simp_all add: claim_update_def)

lemma distinct_filter_eq: "distinct xs \<Longrightarrow> x \<in> set xs \<Longrightarrow> filter (\<lambda>y. y = x) xs = [x]"
  by (induction xs) (auto simp: filter_empty_conv)

lemma claim_as_update:
  "findMessage k rows = Some m \<Longrightarrow> claimable now m \<Longrightarrow> distinct (map m_id rows) \<Longrightarrow>
     updateMany (\<lambda>m. m_id m = k \<and> claimable now m) f rows = updateMessage k f rows \<and> countWhere (\<lambda>m. m_id m = k \<and> claimable now m) rows = 1"
proof -
  assume m: "findMessage k rows = Some m" "claimable now m" "distinct (map m_id rows)"
  have only: "x = m" if "x \<in> set rows" "m_id x = k" for x
    using m(1,3) message_table.fetch_SomeD [OF m(1)] that by (auto simp: distinct_map dest: inj_onD)
  have "updateMany (\<lambda>m. m_id m = k \<and> claimable now m) f rows = updateMessage k f rows"
    unfolding updateMessage_def updateMany_def using only m(2) by auto
  moreover have "filter (\<lambda>m. m_id m = k \<and> claimable now m) rows = filter (\<lambda>x. x = m) rows"
    using only m(1,2) message_table.fetch_SomeD [OF m(1)] by (auto intro: filter_cong)
  moreover have "length (filter (\<lambda>x. x = m) rows) = 1"
    using m(3) message_table.fetch_SomeD [OF m(1)] distinct_filter_eq [of rows m] by (simp add: distinct_map)
  ultimately show ?thesis by (simp add: countWhere_def)
qed

lemma claim_none:
  "(case findMessage k rows of None \<Rightarrow> True | Some m \<Rightarrow> \<not> claimable now m) \<Longrightarrow> distinct (map m_id rows) \<Longrightarrow>
     updateMany (\<lambda>m. m_id m = k \<and> claimable now m) f rows = rows \<and> countWhere (\<lambda>m. m_id m = k \<and> claimable now m) rows = 0"
proof -
  assume c: "case findMessage k rows of None \<Rightarrow> True | Some m \<Rightarrow> \<not> claimable now m" and d: "distinct (map m_id rows)"
  have "\<forall>x \<in> set rows. \<not> (m_id x = k \<and> claimable now x)"
  proof
    fix x assume x: "x \<in> set rows"
    show "\<not> (m_id x = k \<and> claimable now x)"
      using message_table.fetch_unique [OF d x] c by auto
  qed
  then show ?thesis by (auto simp: countWhere_def filter_empty_conv intro: updateMany_none)
qed

text \<open>With unique ids, a claim takes the message exactly when it is claimable.\<close>

lemma claimMessage_eq:
  assumes "distinct (map m_id (messages d))"
  shows "claimMessage d k leaseMs now =
    (case findMessage k (messages d) of
       None \<Rightarrow> (False, None, d)
     | Some m \<Rightarrow>
         if claimable now m
         then (True, Some (claim_update now (now + max 5000 leaseMs) m),
               d\<lparr>messages := updateMessage k (claim_update now (now + max 5000 leaseMs)) (messages d)\<rparr>)
         else (False, Some m, d))"
proof (cases "findMessage k (messages d)")
  case None
  with claim_none [where k = k and rows = "messages d" and now = now] assms show ?thesis by (simp add: claimMessage_def Let_def)
next
  case (Some m)
  show ?thesis
  proof (cases "claimable now m")
    case True
    with claim_as_update [OF Some True assms] Some show ?thesis
      by (simp add: claimMessage_def Let_def message_table.fetch_modify)
  next
    case False
    with claim_none [where k = k and rows = "messages d" and now = now] assms Some show ?thesis by (simp add: claimMessage_def Let_def)
  qed
qed

lemma fetch_marks:
  "findMessage j (messages (markFailed k c e r now d)) =
     (if j = k then map_option (\<lambda>m. m\<lparr>m_status := FAILED, m_processingLeaseUntil := None, m_errorCode := Some c,
        m_errorMessage := Some (take 2000 e), m_failedAt := Some now,
        m_providerResponse := (case r of None \<Rightarrow> m_providerResponse m | Some x \<Rightarrow> Some x)\<rparr>) (findMessage j (messages d))
      else findMessage j (messages d))"
  "findMessage j (messages (markRetryableFailure k c e a r now d)) =
     (if j = k then map_option (\<lambda>m. m\<lparr>m_status := QUEUED, m_processingLeaseUntil := None, m_errorCode := Some c,
        m_errorMessage := Some (take 2000 e)\<rparr>) (findMessage j (messages d)) else findMessage j (messages d))"
  "findMessage j (messages (markSubmitted k p resp now d)) =
     (if j = k then map_option (\<lambda>m. m\<lparr>m_status := SUBMITTED, m_providerMessageId := Some p, m_providerResponse := Some resp,
        m_submittedAt := Some now, m_processingLeaseUntil := None, m_errorCode := None, m_errorMessage := None\<rparr>)
        (findMessage j (messages d)) else findMessage j (messages d))"
  by (simp_all add: markFailed_def markRetryableFailure_def markSubmitted_def message_table.fetch_modify)

lemma mark_ids:
  "map m_id (messages (markFailed k c e r now d)) = map m_id (messages d)"
  "map m_id (messages (markRetryableFailure k c e a r now d)) = map m_id (messages d)"
  "map m_id (messages (markSubmitted k p resp now d)) = map m_id (messages d)"
  by (simp_all add: markFailed_def markRetryableFailure_def markSubmitted_def message_table.keys_modify)

section \<open>What a step does to one message\<close>

text \<open>A finished message can never be claimed again.\<close>

definition settled :: "message_row \<Rightarrow> bool" where
  "settled m \<longleftrightarrow> m_providerMessageId m \<noteq> None \<or> m_status m = FAILED"

lemma settled_not_claimable: "settled m \<Longrightarrow> \<not> claimable now m"
  by (auto simp: settled_def claimable_def)

definition untouched :: "uuid \<Rightarrow> db \<Rightarrow> db \<Rightarrow> bool" where
  "untouched k d d' \<longleftrightarrow> (\<forall>j. j \<noteq> k \<longrightarrow> findMessage j (messages d') = findMessage j (messages d)) \<and> map m_id (messages d') = map m_id (messages d)"

lemma dispatch_begin_Inr:
  assumes "distinct (map m_id (messages d))" and "dispatch_begin d job leaseMs now = (Inr m, d')"
  shows "\<exists>m0. findMessage (job_messageId job) (messages d) = Some m0 \<and> claimable now m0 \<and> m_id m = job_messageId job \<and>
    m = claim_update now (now + max 5000 leaseMs) m0 \<and> findMessage (job_messageId job) (messages d') = Some m \<and>
    untouched (job_messageId job) d d' \<and> m_trafficClass m = job_trafficClass job"
proof (cases "findMessage (job_messageId job) (messages d)")
  case None
  with assms show ?thesis by (simp add: dispatch_begin_def claimMessage_eq)
next
  case (Some m0)
  then have id: "m_id m0 = job_messageId job" using message_table.fetch_SomeD by blast
  show ?thesis
    using assms Some id
    by (auto simp: dispatch_begin_def claimMessage_eq Let_def untouched_def message_table.fetch_modify message_table.keys_modify
        split: if_splits)
qed

lemma dispatch_begin_Inl:
  assumes "distinct (map m_id (messages d))" and "dispatch_begin d job leaseMs now = (Inl r, d')"
  shows "d' = d \<or> (\<exists>m0 m1. findMessage (job_messageId job) (messages d) = Some m0 \<and> claimable now m0 \<and>
    findMessage (job_messageId job) (messages d') = Some m1 \<and> m_status m1 = FAILED \<and> untouched (job_messageId job) d d')"
proof (cases "findMessage (job_messageId job) (messages d)")
  case None
  with assms show ?thesis by (simp add: dispatch_begin_def claimMessage_eq)
next
  case (Some m0)
  then have id: "m_id m0 = job_messageId job" using message_table.fetch_SomeD by blast
  show ?thesis
    using assms Some id
    by (auto simp: dispatch_begin_def claimMessage_eq Let_def untouched_def fetch_marks mark_ids message_table.fetch_modify
        message_table.keys_modify split: if_splits)
qed

lemma dispatch_finish_effect:
  assumes "dispatch_finish env job m now d = (r, d', acc)" and "findMessage (m_id m) (messages d) = Some m0"
  shows "untouched (m_id m) d d' \<and> (\<exists>m1. findMessage (m_id m) (messages d') = Some m1 \<and> (acc \<longrightarrow> settled m1))"
  using assms
  by (auto simp: dispatch_finish_def untouched_def fetch_marks mark_ids settled_def
      split: sum.splits option.splits send_outcome.splits if_splits)

lemma markRetryExhausted_effect:
  "markRetryExhausted job reason now d = d \<or>
   (\<exists>m0 m1. findMessage (job_messageId job) (messages d) = Some m0 \<and>
      \<not> (m_status m0 = PROCESSING \<and> (case m_processingLeaseUntil m0 of None \<Rightarrow> False | Some t \<Rightarrow> t > now)) \<and>
      findMessage (job_messageId job) (messages (markRetryExhausted job reason now d)) = Some m1 \<and> settled m1 \<and>
      untouched (job_messageId job) d (markRetryExhausted job reason now d))"
proof (cases "findMessage (job_messageId job) (messages d)")
  case None
  then show ?thesis by (simp add: markRetryExhausted_def)
next
  case (Some m0)
  then have id: "m_id m0 = job_messageId job" using message_table.fetch_SomeD by blast
  show ?thesis
    using Some id by (simp add: markRetryExhausted_def fetch_marks mark_ids settled_def untouched_def)
qed

section \<open>The invariant of timely workers\<close>

definition holds_lease :: "workers \<Rightarrow> OutboundQueueJob \<times> message_row \<times> time \<Rightarrow> bool" where
  "holds_lease s w \<longleftrightarrow> wk_now s < lease_of w \<and>
     (\<exists>m. findMessage (message_of w) (messages (wk_db s)) = Some m \<and> m_status m = PROCESSING \<and>
          m_processingLeaseUntil m = Some (lease_of w) \<and> m_providerMessageId m = None)"

definition accepted_settled :: "workers \<Rightarrow> bool" where
  "accepted_settled s \<longleftrightarrow> (\<forall>k \<in> set (wk_accepted s). \<exists>m. findMessage k (messages (wk_db s)) = Some m \<and> settled m)"

definition workers_ok :: "workers \<Rightarrow> bool" where
  "workers_ok s \<longleftrightarrow> distinct (map m_id (messages (wk_db s))) \<and> distinct (map message_of (wk_inflight s)) \<and>
     (\<forall>w \<in> set (wk_inflight s). holds_lease s w) \<and> distinct (wk_accepted s) \<and> accepted_settled s"

lemma holds_lease_not_claimable:
  "holds_lease s w \<Longrightarrow> findMessage (message_of w) (messages (wk_db s)) = Some m \<Longrightarrow> \<not> claimable (wk_now s) m \<and> \<not> settled m"
  by (auto simp: holds_lease_def claimable_def settled_def)

lemma workers_ok_inflight_not_accepted:
  "workers_ok s \<Longrightarrow> w \<in> set (wk_inflight s) \<Longrightarrow> message_of w \<notin> set (wk_accepted s)"
  unfolding workers_ok_def accepted_settled_def using holds_lease_not_claimable by blast

text \<open>A change confined to one message that no worker holds and that settles it, or leaves accepted messages settled.\<close>

lemma workers_ok_untouched:
  assumes ok: "workers_ok s" and un: "untouched k (wk_db s) d'"
    and free: "\<And>w. w \<in> set (wk_inflight s) \<Longrightarrow> message_of w \<noteq> k"
    and keep: "k \<in> set (wk_accepted s) \<Longrightarrow> \<exists>m. findMessage k (messages d') = Some m \<and> settled m"
  shows "workers_ok (s\<lparr>wk_db := d'\<rparr>)"
proof -
  have same: "findMessage j (messages d') = findMessage j (messages (wk_db s))" if "j \<noteq> k" for j
    using un that by (simp add: untouched_def)
  have "holds_lease (s\<lparr>wk_db := d'\<rparr>) w" if "w \<in> set (wk_inflight s)" for w
    using ok that same [OF free [OF that]] by (simp add: workers_ok_def holds_lease_def)
  moreover have "accepted_settled (s\<lparr>wk_db := d'\<rparr>)"
    unfolding accepted_settled_def
  proof
    fix j assume "j \<in> set (wk_accepted (s\<lparr>wk_db := d'\<rparr>))"
    then show "\<exists>m. findMessage j (messages (wk_db (s\<lparr>wk_db := d'\<rparr>))) = Some m \<and> settled m"
      using ok keep same [of j] by (cases "j = k") (auto simp: workers_ok_def accepted_settled_def)
  qed
  ultimately show ?thesis using ok un by (simp add: workers_ok_def untouched_def)
qed

lemma step_skip:
  assumes "workers_ok s" and "dispatch_begin (wk_db s) job leaseMs (wk_now s) = (Inl r, d')"
  shows "workers_ok (s\<lparr>wk_db := d'\<rparr>)"
proof -
  have dist: "distinct (map m_id (messages (wk_db s)))" using assms(1) by (simp add: workers_ok_def)
  from dispatch_begin_Inl [OF dist assms(2)] show ?thesis
  proof
    assume "d' = wk_db s"
    with assms(1) show ?thesis by simp
  next
    assume "\<exists>m0 m1. findMessage (job_messageId job) (messages (wk_db s)) = Some m0 \<and> claimable (wk_now s) m0 \<and>
      findMessage (job_messageId job) (messages d') = Some m1 \<and> m_status m1 = FAILED \<and> untouched (job_messageId job) (wk_db s) d'"
    then obtain m0 m1 where m: "findMessage (job_messageId job) (messages (wk_db s)) = Some m0" "claimable (wk_now s) m0"
      "findMessage (job_messageId job) (messages d') = Some m1" "m_status m1 = FAILED" "untouched (job_messageId job) (wk_db s) d'" by blast
    show ?thesis
      by (rule workers_ok_untouched [OF assms(1) m(5)])
        (use assms(1) m holds_lease_not_claimable in \<open>auto simp: workers_ok_def settled_def\<close>)
  qed
qed

lemma step_begin:
  assumes "workers_ok s" and "dispatch_begin (wk_db s) job leaseMs (wk_now s) = (Inr m, d')"
  shows "workers_ok (s\<lparr>wk_db := d', wk_inflight := (job, m, wk_now s + max 5000 leaseMs) # wk_inflight s\<rparr>)"
proof -
  have dist: "distinct (map m_id (messages (wk_db s)))" using assms(1) by (simp add: workers_ok_def)
  from dispatch_begin_Inr [OF dist assms(2)] obtain m0 where
    m: "findMessage (job_messageId job) (messages (wk_db s)) = Some m0" "claimable (wk_now s) m0" "m_id m = job_messageId job"
      "m = claim_update (wk_now s) (wk_now s + max 5000 leaseMs) m0" "findMessage (job_messageId job) (messages d') = Some m"
      "untouched (job_messageId job) (wk_db s) d'" by blast
  have free: "message_of w \<noteq> job_messageId job" if "w \<in> set (wk_inflight s)" for w
    using assms(1) that m(1,2) holds_lease_not_claimable [of s w m0] by (auto simp: workers_ok_def)
  have "job_messageId job \<notin> set (wk_accepted s)"
    using assms(1) m(1,2) settled_not_claimable by (auto simp: workers_ok_def accepted_settled_def)
  then have ok: "workers_ok (s\<lparr>wk_db := d'\<rparr>)"
    by (intro workers_ok_untouched [OF assms(1) m(6) free]) auto
  let ?w = "(job, m, wk_now s + max 5000 leaseMs)"
  have w: "message_of ?w = job_messageId job" "lease_of ?w = wk_now s + max 5000 leaseMs" using m(3) by (simp_all add: message_of_def lease_of_def)
  have "m_providerMessageId m = None" using m(2,4) by (simp add: claimable_def)
  then have "holds_lease (s\<lparr>wk_db := d', wk_inflight := ?w # wk_inflight s\<rparr>) ?w"
    using m(4,5) w unfolding holds_lease_def by simp
  moreover have "message_of ?w \<notin> message_of ` set (wk_inflight s)" using free w(1) by (metis imageE)
  ultimately show ?thesis using ok by (simp add: workers_ok_def holds_lease_def accepted_settled_def)
qed

lemma step_finish:
  assumes ok: "workers_ok s" and fl: "wk_inflight s = before @ (job, m, lease) # after"
    and fin: "dispatch_finish env job m (wk_now s) (wk_db s) = (r, d', acc)"
  shows "workers_ok (s\<lparr>wk_db := d', wk_inflight := before @ after, wk_accepted := (if acc then m_id m # wk_accepted s else wk_accepted s)\<rparr>)"
proof -
  let ?w = "(job, m, lease)"
  let ?s = "s\<lparr>wk_inflight := before @ after\<rparr>"
  have inw: "?w \<in> set (wk_inflight s)" using fl by simp
  then have hl: "holds_lease s ?w" using ok by (simp add: workers_ok_def)
  have k: "message_of ?w = m_id m" by (simp add: message_of_def)
  from hl obtain m0 where m0: "findMessage (m_id m) (messages (wk_db s)) = Some m0" by (auto simp: holds_lease_def k)
  from dispatch_finish_effect [OF fin m0] obtain m1 where
    eff: "untouched (m_id m) (wk_db s) d'" "findMessage (m_id m) (messages d') = Some m1" "acc \<longrightarrow> settled m1" by blast
  have na: "m_id m \<notin> set (wk_accepted s)" using workers_ok_inflight_not_accepted [OF ok inw] k by simp
  have "workers_ok ?s" using ok fl by (auto simp: workers_ok_def holds_lease_def accepted_settled_def)
  moreover have "message_of w \<noteq> m_id m" if "w \<in> set (wk_inflight ?s)" for w
  proof
    assume "message_of w = m_id m"
    then have "m_id m \<in> message_of ` (set before \<union> set after)" using that by (intro rev_image_eqI [of w]) auto
    moreover have "m_id m \<notin> message_of ` (set before \<union> set after)" using ok fl k by (auto simp: workers_ok_def)
    ultimately show False by blast
  qed
  ultimately have "workers_ok (?s\<lparr>wk_db := d'\<rparr>)"
    using workers_ok_untouched [of ?s "m_id m" d'] eff(1) na by simp
  then show ?thesis using eff na by (auto simp: workers_ok_def holds_lease_def accepted_settled_def)
qed

lemma step_exhausted: "workers_ok s \<Longrightarrow> workers_ok (s\<lparr>wk_db := markRetryExhausted job reason (wk_now s) (wk_db s)\<rparr>)"
  using markRetryExhausted_effect [of job reason "wk_now s" "wk_db s"]
proof
  assume ok: "workers_ok s" and "markRetryExhausted job reason (wk_now s) (wk_db s) = wk_db s"
  then show ?thesis by simp
next
  let ?d = "markRetryExhausted job reason (wk_now s) (wk_db s)"
  assume ok: "workers_ok s" and "\<exists>m0 m1. findMessage (job_messageId job) (messages (wk_db s)) = Some m0 \<and>
      \<not> (m_status m0 = PROCESSING \<and> (case m_processingLeaseUntil m0 of None \<Rightarrow> False | Some t \<Rightarrow> t > wk_now s)) \<and>
      findMessage (job_messageId job) (messages ?d) = Some m1 \<and> settled m1 \<and> untouched (job_messageId job) (wk_db s) ?d"
  then obtain m0 m1 where m: "findMessage (job_messageId job) (messages (wk_db s)) = Some m0"
      "\<not> (m_status m0 = PROCESSING \<and> (case m_processingLeaseUntil m0 of None \<Rightarrow> False | Some t \<Rightarrow> t > wk_now s))"
      "findMessage (job_messageId job) (messages ?d) = Some m1" "settled m1" "untouched (job_messageId job) (wk_db s) ?d" by blast
  have "message_of w \<noteq> job_messageId job" if "w \<in> set (wk_inflight s)" for w
    using ok that m(1,2) by (auto simp: workers_ok_def holds_lease_def)
  then show ?thesis by (rule workers_ok_untouched [OF ok m(5)]) (use m in auto)
qed

lemma worker_step_ok: "worker_step True s s' \<Longrightarrow> workers_ok s \<Longrightarrow> workers_ok s'"
proof (erule worker_stepE)
  fix t assume "workers_ok s" "s' = s\<lparr>wk_now := t\<rparr>" "True \<longrightarrow> list_all (\<lambda>w. t < lease_of w) (wk_inflight s)"
  then show "workers_ok s'" by (auto simp: workers_ok_def holds_lease_def accepted_settled_def list_all_iff)
next
  fix before job m lease after env r d' acc
  assume "workers_ok s" "s' = s\<lparr>wk_db := d', wk_inflight := before @ after, wk_accepted := (if acc then m_id m # wk_accepted s else wk_accepted s)\<rparr>"
    "wk_inflight s = before @ (job, m, lease) # after" "dispatch_finish env job m (wk_now s) (wk_db s) = (r, d', acc)"
  then show "workers_ok s'" using step_finish by blast
qed (auto intro: step_skip step_begin step_exhausted)

section \<open>Properties\<close>


text \<open>
  \<open>claimMessage\<close>: a claim succeeds exactly when the message exists, has no provider id and is new, queued, or in processing
  under a lease that has run out; it then holds the lease for at least five seconds, and a second claim before that fails
  unless the message was released.
\<close>

theorem claim_is_exclusive:
  assumes "distinct (map m_id (messages d))" and "claimMessage d k leaseMs now = (claimed, m, d')" and "now' < now + 5000"
  shows "(claimed \<longleftrightarrow> (\<exists>x. findMessage k (messages d) = Some x \<and> claimable now x)) \<and>
    (claimed \<longrightarrow> fst (claimMessage d' k leaseMs' now') = False)"
proof (cases "findMessage k (messages d)")
  case None
  with assms(1,2) show ?thesis by (simp add: claimMessage_eq)
next
  case (Some x)
  let ?u = "now + max 5000 leaseMs"
  show ?thesis
  proof (cases "claimable now x")
    case False
    with Some assms(1,2) show ?thesis by (auto simp: claimMessage_eq)
  next
    case True
    with Some assms(1,2) have c: "claimed" "d' = d\<lparr>messages := updateMessage k (claim_update now ?u) (messages d)\<rparr>"
      by (auto simp: claimMessage_eq)
    have d': "distinct (map m_id (messages d'))" using assms(1) by (simp add: c message_table.keys_modify)
    have f: "findMessage k (messages d') = Some (claim_update now ?u x)"
      using Some by (simp add: c message_table.fetch_modify)
    have "\<not> claimable now' (claim_update now ?u x)" using assms(3) by (auto simp: claimable_def)
    with f have "fst (claimMessage d' k leaseMs' now') = False" by (simp only: claimMessage_eq [OF d']) simp
    with True Some c(1) show ?thesis by simp
  qed
qed

text \<open>
  \<open>dispatch\<close>, on every branch: the message the job names ends submitted with the provider's id exactly when the
  queue is told to acknowledge a job that was claimed; a retry leaves it queued and free, a dead letter leaves it failed.
\<close>

theorem dispatch_finish_outcome:
  assumes "findMessage (m_id m) (messages d) = Some m0" and "dispatch_finish env job m now d = (r, d', acc)"
  shows "\<exists>m1. findMessage (m_id m) (messages d') = Some m1 \<and> m_processingLeaseUntil m1 = None \<and>
    (res_action r = Ack \<and> m_status m1 = SUBMITTED \<and> m_providerMessageId m1 \<noteq> None \<and> acc \<or>
     res_action r = Retry \<and> m_status m1 = QUEUED \<and> m_errorCode m1 \<noteq> None \<and> \<not> acc \<or>
     res_action r = Dead \<and> m_status m1 = FAILED \<and> m_failedAt m1 = Some now \<and> m_errorCode m1 \<noteq> None)"
  using assms
  by (auto simp: dispatch_finish_def fetch_marks result_def split: sum.splits option.splits send_outcome.splits if_splits)

text \<open>One marketing message, the job for it, and a provider that accepts everything.\<close>

definition sample_job :: OutboundQueueJob where
  "sample_job = \<lparr>job_messageId = ''m1'', job_attempt = 0, job_trafficClass = MARKETING, job_trace = None\<rparr>"

definition sample_dispatch_env :: dispatch_env where
  "sample_dispatch_env = \<lparr>de_required = (\<lambda>k. Inl ''missing''), de_secret = (\<lambda>r. Inr ''token''), de_slot = (\<lambda>s c. None),
     de_meta = sample_meta_env, de_recordError = None\<rparr>"

definition sample_workers :: workers where
  "sample_workers = \<lparr>wk_now = 300, wk_db = sample_outbox_db, wk_inflight = [], wk_accepted = []\<rparr>"

definition sample_claimed :: message_row where
  "sample_claimed = claim_update 300 5300 sample_message"

lemma sample_claimable: "claimable 300 sample_message" "m_trafficClass sample_message = MARKETING"
  "m_senderId sample_message = Some ''s1''"
  by (simp_all add: claimable_def sample_message_def outbound_message_def sample_accepted_def sample_sender_def)

lemma sample_distinct: "distinct (map m_id (messages sample_outbox_db))"
  by (simp add: sample_event_facts)

lemma sample_find: "findMessage ''m1'' (messages sample_outbox_db) = Some sample_message"
  "findMessage ''m1'' [sample_message] = Some sample_message"
  by (simp_all add: findMessage_def sample_event_facts)

lemma sample_begin: "\<exists>d. dispatch_begin sample_outbox_db sample_job 5000 300 = (Inr sample_claimed, d) \<and>
   messages d = [sample_claimed] \<and> senders d = senders sample_outbox_db"
  using sample_claimable
  by (simp add: dispatch_begin_def claimMessage_eq [OF sample_distinct] sample_job_def sample_find sample_claimed_def
      add_event_def sample_event_facts updateMessage_def updateMany_def)

lemma sample_mapped:
  assumes "m_to m = m_to sample_message" and "m_type m = m_type sample_message" and "m_payload m = m_payload sample_message"
  shows "\<exists>payload. mapMessageToMetaPayload sample_url_parser m = Inr payload"
proof -
  have "case mapMessageToMetaPayload sample_url_parser sample_message of Inl e \<Rightarrow> False | Inr p \<Rightarrow> True" by code_simp
  moreover have "mapMessageToMetaPayload sample_url_parser m = mapMessageToMetaPayload sample_url_parser sample_message"
    unfolding mapMessageToMetaPayload_def assms ..
  ultimately show ?thesis by (auto split: sum.splits)
qed

lemma sample_finish:
  assumes "senders d = senders sample_outbox_db" and "m_senderId m = Some ''s1''"
    and "m_to m = m_to sample_message" and "m_type m = m_type sample_message" and "m_payload m = m_payload sample_message"
  shows "dispatch_finish sample_dispatch_env sample_job m now d =
    (result Ack None, markSubmitted (m_id m) ''wamid.1'' sample_response now d, True)"
proof -
  from sample_mapped [OF assms(3-5)] obtain payload where "mapMessageToMetaPayload sample_url_parser m = Inr payload" by blast
  from sample_sendMessage [OF this] show ?thesis
    using assms(1,2)
    by (simp add: dispatch_finish_def resolve_sender_def sample_dispatch_env_def toSenderContext_def findActiveById_def
        sample_outbox_db_def sample_messages_db_def sample_senders_db_def sample_sender_def)
qed

lemma sample_claim_content:
  "m_to (claim_update a b m) = m_to m" "m_type (claim_update a b m) = m_type m" "m_payload (claim_update a b m) = m_payload m"
  by (simp_all add: claim_update_def)


theorem claim_is_exclusive_witness:
  "fst (claimMessage sample_outbox_db ''m1'' 5000 300) \<and>
   fst (claimMessage (snd (snd (claimMessage sample_outbox_db ''m1'' 5000 300))) ''m1'' 5000 1300) = False"
proof -
  obtain b m d' where c: "claimMessage sample_outbox_db ''m1'' 5000 300 = (b, m, d')" by (metis surj_pair)
  have t: "(1300 :: nat) < 300 + 5000" by simp
  from claim_is_exclusive [OF sample_distinct c t] sample_find(1) sample_claimable(1) c show ?thesis by auto
qed

theorem dispatch_finish_outcome_witness:
  "\<exists>m1. findMessage ''m1'' (messages (fst (snd (dispatch_finish sample_dispatch_env sample_job sample_message 300 sample_outbox_db)))) = Some m1 \<and>
     m_status m1 = SUBMITTED"
proof -
  have id: "m_id sample_message = ''m1''" by (simp add: sample_event_facts)
  have f: "findMessage (m_id sample_message) (messages sample_outbox_db) = Some sample_message" using sample_find(1) id by simp
  have r: "dispatch_finish sample_dispatch_env sample_job sample_message 300 sample_outbox_db =
      (result Ack None, markSubmitted ''m1'' ''wamid.1'' sample_response 300 sample_outbox_db, True)"
    using sample_finish [of sample_outbox_db sample_message] sample_claimable(3) id by simp
  from dispatch_finish_outcome [OF f r] r id show ?thesis by (auto simp: result_def)
qed

lemma sample_begin_again:
  assumes "messages d = [sample_claimed]" and "senders d = senders sample_outbox_db"
  shows "\<exists>d'. dispatch_begin d sample_job 5000 10000 = (Inr (claim_update 10000 15000 sample_claimed), d') \<and>
    senders d' = senders sample_outbox_db"
proof -
  have m: "m_id sample_claimed = ''m1''" "m_trafficClass sample_claimed = MARKETING" "claimable 10000 sample_claimed"
    using sample_claimable by (simp_all add: sample_claimed_def sample_event_facts claimable_def)
  have "distinct (map m_id (messages d))" using assms(1) by simp
  then show ?thesis
    using assms m by (simp add: dispatch_begin_def claimMessage_eq sample_job_def add_event_def findMessage_def)
qed

text \<open>
  The lease is not renewed while a worker waits for its rate-limit slot, and the updates that record an outcome do not ask for
  it: when a worker is slower than its lease, a second worker claims the same message, and the provider accepts it twice.
\<close>

theorem late_worker_double_send:
  "\<exists>s'. worker_reachable False sample_workers s' \<and> wk_accepted s' = [''m1'', ''m1'']"
proof -
  let ?c = "sample_claimed" and ?c2 = "claim_update 10000 15000 sample_claimed"
  from sample_begin obtain d where d: "dispatch_begin (wk_db sample_workers) sample_job 5000 (wk_now sample_workers) = (Inr ?c, d)"
    "messages d = [?c]" "senders d = senders sample_outbox_db" by (auto simp: sample_workers_def)
  from sample_begin_again [OF d(2,3)] obtain d2 where d2: "dispatch_begin d sample_job 5000 10000 = (Inr ?c2, d2)"
    "senders d2 = senders sample_outbox_db" by blast
  have ids: "m_id ?c = ''m1''" "m_id ?c2 = ''m1''" "m_senderId ?c = Some ''s1''" "m_senderId ?c2 = Some ''s1''"
    using sample_claimable by (simp_all add: sample_claimed_def sample_event_facts claim_update_def)
  let ?d3 = "markSubmitted ''m1'' ''wamid.1'' sample_response 10000 d2"
  let ?d4 = "markSubmitted ''m1'' ''wamid.1'' sample_response 10000 ?d3"
  have s3: "senders ?d3 = senders sample_outbox_db" using d2(2) by (simp add: markSubmitted_def add_event_def)
  let ?st = "\<lambda>t d ws acc. \<lparr>wk_now = t, wk_db = d, wk_inflight = ws, wk_accepted = acc\<rparr>"
  let ?w = "(sample_job, ?c, 5300 :: nat)" and ?w2 = "(sample_job, ?c2, 15000 :: nat)"
  have "worker_step False sample_workers (?st 300 d [?w] [])"
    using worker_step.begin_work [OF d(1), of False] by (simp add: sample_workers_def)
  moreover have "worker_step False (?st 300 d [?w] []) (?st 10000 d [?w] [])"
    using worker_step.tick [of "?st 300 d [?w] []" 10000 False] by simp
  moreover have "worker_step False (?st 10000 d [?w] []) (?st 10000 d2 [?w2, ?w] [])"
    using worker_step.begin_work [of "?st 10000 d [?w] []" sample_job 5000 ?c2 d2 False] d2(1) by simp
  moreover have "worker_step False (?st 10000 d2 [?w2, ?w] []) (?st 10000 ?d3 [?w] [''m1''])"
    using worker_step.finish_work [where s = "?st 10000 d2 [?w2, ?w] []" and before = "[]" and after = "[?w]" and job = sample_job
        and m = ?c2 and lease = 15000 and env = sample_dispatch_env and d' = ?d3 and acc = True and r = "result Ack None"]
      sample_finish [OF d2(2) ids(4), of 10000] ids(2) by (simp add: sample_claimed_def sample_claim_content)
  moreover have "worker_step False (?st 10000 ?d3 [?w] [''m1'']) (?st 10000 ?d4 [] [''m1'', ''m1''])"
    using worker_step.finish_work [where s = "?st 10000 ?d3 [?w] [''m1'']" and before = "[]" and after = "[]" and job = sample_job
        and m = ?c and lease = 5300 and env = sample_dispatch_env and d' = ?d4 and acc = True and r = "result Ack None"]
      sample_finish [OF s3 ids(3), of 10000] ids(1) by (simp add: sample_claimed_def sample_claim_content)
  ultimately have "worker_reachable False sample_workers (?st 10000 ?d4 [] [''m1'', ''m1''])"
    by (meson worker_reachable.intros)
  then show ?thesis by (rule exI [where x = "?st 10000 ?d4 [] [''m1'', ''m1'']", OF conjI]) simp
qed

end
