(* ===== verification/Webhook_Status.thy ===== *)
theory Webhook_Status
  imports Store Js_Number
begin

text \<open>
  src/src/webhooks/webhook-status.service.ts: the status reports of the provider about messages it accepted, in whatever order and
  however often they arrive. A JavaScript date is a number of milliseconds or invalid; the database client refuses an invalid date
  with an error whose message is an argument.

  The results: the status of a message after any sequence of reports, by a specification that does not mention the
  ranks of the code, and the completeness of the log of reports.
\<close>

section \<open>Walking a webhook payload\<close>

text \<open>
  An array property of a value; a value that is not an object, and a property that is missing or not an array, have no items: the
  loops of the code skip them. \<open>webhook_values\<close> are the \<open>value\<close> objects of all changes of all entries, in order.
\<close>

definition json_items :: "json \<Rightarrow> string \<Rightarrow> json list" where
  "json_items v k = (case json_get v k of Some (JArr xs) \<Rightarrow> xs | _ \<Rightarrow> [])"

definition change_value :: "json \<Rightarrow> json list" where
  "change_value change = (case json_get change ''value'' of Some (JObj kvs) \<Rightarrow> [JObj kvs] | _ \<Rightarrow> [])"

definition webhook_values :: "json \<Rightarrow> json list" where
  "webhook_values payload =
     concat (map (\<lambda>entry. concat (map change_value (json_items entry ''changes''))) (json_items payload ''entry''))"

section \<open>Status reports\<close>

record MetaMessageStatus =
  ms_id :: string
  ms_status :: string
  ms_timestamp :: "string option"
  ms_errors :: "json list option"

definition extract_status :: "json \<Rightarrow> MetaMessageStatus list" where
  "extract_status candidate =
     (case (json_get candidate ''id'', json_get candidate ''status'') of
        (Some (JStr k), Some (JStr st)) \<Rightarrow>
          [\<lparr>ms_id = k, ms_status = st,
            ms_timestamp = (case json_get candidate ''timestamp'' of Some (JStr t) \<Rightarrow> Some t | _ \<Rightarrow> None),
            ms_errors = (case json_get candidate ''errors'' of Some (JArr es) \<Rightarrow> Some es | _ \<Rightarrow> None)\<rparr>]
      | _ \<Rightarrow> [])"

definition extractStatuses :: "json \<Rightarrow> MetaMessageStatus list" where
  "extractStatuses payload = concat (map (\<lambda>value'. concat (map extract_status (json_items value' ''statuses''))) (webhook_values payload))"

definition status_json :: "MetaMessageStatus \<Rightarrow> json" where
  "status_json s = JObj ([(''id'', JStr (ms_id s)), (''status'', JStr (ms_status s))] @
     (case ms_timestamp s of Some t \<Rightarrow> [(''timestamp'', JStr t)] | None \<Rightarrow> []) @
     (case ms_errors s of Some es \<Rightarrow> [(''errors'', JArr es)] | None \<Rightarrow> []))"

definition mapStatus :: "string \<Rightarrow> MessageStatus option" where
  "mapStatus status =
     (let s = js_lower status
      in if s = ''sent'' then Some SENT else if s = ''delivered'' then Some DELIVERED
         else if s = ''read'' then Some READ else if s = ''failed'' then Some FAILED else None)"

fun STATUS_RANK :: "MessageStatus \<Rightarrow> nat option" where
  "STATUS_RANK CREATED = Some 0"
| "STATUS_RANK QUEUED = Some 1"
| "STATUS_RANK PROCESSING = Some 2"
| "STATUS_RANK SUBMITTED = Some 3"
| "STATUS_RANK SENT = Some 4"
| "STATUS_RANK DELIVERED = Some 5"
| "STATUS_RANK READ = Some 6"
| "STATUS_RANK _ = None"

definition rank :: "MessageStatus \<Rightarrow> int" where
  "rank s = (case STATUS_RANK s of Some n \<Rightarrow> int n | None \<Rightarrow> - 1)"

definition shouldApplyStatus :: "MessageStatus \<Rightarrow> MessageStatus \<Rightarrow> bool" where
  "shouldApplyStatus current target =
     (if target = FAILED then current \<noteq> READ \<and> current \<noteq> DELIVERED
      else if current = FAILED \<or> current = CANCELLED \<or> current = EXPIRED then False
      else rank target \<ge> rank current)"

text \<open>A date: the time value is an integral number of milliseconds of stamp most \<open>8.64e15\<close>.\<close>

datatype date = Date time | InvalidDate

definition date_of_seconds :: "rat \<Rightarrow> date" where
  "date_of_seconds seconds = (if seconds * 1000 > 8640000000000000 then InvalidDate else Date (nat \<lfloor>seconds * 1000\<rfloor>))"

definition parseTimestamp :: "string option \<Rightarrow> date option" where
  "parseTimestamp timestamp =
     (case timestamp of
        None \<Rightarrow> None
      | Some t \<Rightarrow> if t = [] then None else
          (case js_number t of
             None \<Rightarrow> None
           | Some seconds \<Rightarrow> if seconds \<le> 0 then None else Some (date_of_seconds seconds)))"

definition error_details :: "json \<Rightarrow> json option" where
  "error_details e = (case json_get e ''error_data'' of Some v \<Rightarrow> json_get v ''details'' | None \<Rightarrow> None)"

fun nonempty_text :: "json option \<Rightarrow> string option" where
  "nonempty_text (Some (JStr s)) = (if s = [] then None else Some s)"
| "nonempty_text _ = None"

definition extractError :: "json list option \<Rightarrow> string option \<times> string option" where
  "extractError errors =
     (case errors of
        Some (first # _) \<Rightarrow>
          (case json_get first ''code'' of Some (JNum n) \<Rightarrow> Some n | Some (JStr s) \<Rightarrow> Some s | _ \<Rightarrow> None,
           map_option (take 2000)
             (case nonempty_text (json_get first ''title'') of
                Some s \<Rightarrow> Some s
              | None \<Rightarrow> (case nonempty_text (json_get first ''message'') of
                           Some s \<Rightarrow> Some s | None \<Rightarrow> nonempty_text (error_details first))))
      | _ \<Rightarrow> (None, None))"

definition status_update :: "MessageStatus \<Rightarrow> time \<Rightarrow> string option \<times> string option \<Rightarrow> message_row \<Rightarrow> message_row" where
  "status_update target stamp err m =
     (let m1 = m\<lparr>m_status := target\<rparr>
      in if target = SENT then m1\<lparr>m_sentAt := Some stamp\<rparr>
         else if target = DELIVERED then m1\<lparr>m_deliveredAt := Some stamp\<rparr>
         else if target = READ then m1\<lparr>m_readAt := Some stamp\<rparr>
         else if target = FAILED then m1\<lparr>m_failedAt := Some stamp, m_errorCode := fst err, m_errorMessage := snd err\<rparr>
         else m1)"

definition findByProviderId :: "string \<Rightarrow> message_row list \<Rightarrow> message_row option" where
  "findByProviderId p rows = findFirst (\<lambda>m. m_providerMessageId m = Some p) rows"

definition applyStatus :: "string \<Rightarrow> MetaMessageStatus \<Rightarrow> time \<Rightarrow> db \<Rightarrow> error + db" where
  "applyStatus dateError s now d =
     (case mapStatus (ms_status s) of
        None \<Rightarrow> Inr d
      | Some target \<Rightarrow>
          (case findByProviderId (ms_id s) (messages d) of
             None \<Rightarrow> Inr d
           | Some m \<Rightarrow>
               (case (case parseTimestamp (ms_timestamp s) of Some x \<Rightarrow> x | None \<Rightarrow> Date now) of
                  InvalidDate \<Rightarrow> Inl (Error dateError)
                | Date stamp \<Rightarrow>
                    (let d1 = add_event (m_id m) target (Some (status_json s)) stamp d
                     in if shouldApplyStatus (m_status m) target
                        then Inr (d1\<lparr>messages := updateMessage (m_id m) (status_update target stamp (extractError (ms_errors s))) (messages d1)\<rparr>)
                        else Inr d1))))"

text \<open>The loop over the reports: an error leaves what earlier reports changed, since each report has its own transaction.\<close>

fun apply_statuses :: "string \<Rightarrow> time \<Rightarrow> MetaMessageStatus list \<Rightarrow> db \<Rightarrow> error option \<times> db" where
  "apply_statuses dateError now [] d = (None, d)"
| "apply_statuses dateError now (s # ss) d =
     (case applyStatus dateError s now d of Inl e \<Rightarrow> (Some e, d) | Inr d' \<Rightarrow> apply_statuses dateError now ss d')"

definition processed_event :: "time \<Rightarrow> webhook_event_row \<Rightarrow> webhook_event_row" where
  "processed_event now w = w\<lparr>w_processed := True, w_processedAt := Some now, w_processingLeaseUntil := None, w_lastError := None\<rparr>"

definition processWebhookEvent :: "string \<Rightarrow> uuid \<Rightarrow> json \<Rightarrow> time \<Rightarrow> db \<Rightarrow> error option \<times> db" where
  "processWebhookEvent dateError eventId payload now d =
     (case apply_statuses dateError now (extractStatuses payload) d of
        (Some e, d') \<Rightarrow> (Some e, d')
      | (None, d') \<Rightarrow> (None, d'\<lparr>webhookEvents := updateWebhookEvent eventId (processed_event now) (webhookEvents d')\<rparr>))"

section \<open>Specification\<close>

text \<open>
  The status a message ends with, given the reports about it in order of arrival: a failure counts as long as the message has not been
  delivered or read; until then, and after, the furthest of the other reports wins.
\<close>

definition furthest :: "MessageStatus \<Rightarrow> MessageStatus list \<Rightarrow> MessageStatus" where
  "furthest current reports =
     (if current = READ \<or> READ \<in> set reports then READ
      else if current = DELIVERED \<or> DELIVERED \<in> set reports then DELIVERED
      else if current = SENT \<or> SENT \<in> set reports then SENT else current)"

definition final_status :: "MessageStatus \<Rightarrow> MessageStatus list \<Rightarrow> MessageStatus" where
  "final_status current reports =
     (if current \<noteq> DELIVERED \<and> current \<noteq> READ \<and> FAILED \<in> set (takeWhile (\<lambda>s. s \<noteq> DELIVERED \<and> s \<noteq> READ) reports) then FAILED
      else furthest current reports)"

definition in_transit :: "MessageStatus \<Rightarrow> bool" where
  "in_transit s \<longleftrightarrow> s = SUBMITTED \<or> s = SENT \<or> s = DELIVERED \<or> s = READ"

text \<open>The reports about one message that the code understands.\<close>

definition reports_on :: "string \<Rightarrow> MetaMessageStatus list \<Rightarrow> MessageStatus list" where
  "reports_on p ss = List.map_filter (\<lambda>s. if ms_id s = p then mapStatus (ms_status s) else None) ss"

section \<open>Lemmas\<close>

definition status_step :: "MessageStatus \<Rightarrow> MessageStatus \<Rightarrow> MessageStatus" where
  "status_step current target = (if shouldApplyStatus current target then target else current)"

lemma mapStatus_cases: "mapStatus s = Some t \<Longrightarrow> t = SENT \<or> t = DELIVERED \<or> t = READ \<or> t = FAILED"
  by (auto simp: mapStatus_def Let_def split: if_splits)

lemma status_step_simps [simp]:
  "status_step FAILED t = FAILED"
  "status_step SUBMITTED SENT = SENT" "status_step SUBMITTED DELIVERED = DELIVERED" "status_step SUBMITTED READ = READ"
  "status_step SUBMITTED FAILED = FAILED"
  "status_step SENT SENT = SENT" "status_step SENT DELIVERED = DELIVERED" "status_step SENT READ = READ" "status_step SENT FAILED = FAILED"
  "status_step DELIVERED SENT = DELIVERED" "status_step DELIVERED DELIVERED = DELIVERED" "status_step DELIVERED READ = READ"
  "status_step DELIVERED FAILED = DELIVERED"
  "status_step READ SENT = READ" "status_step READ DELIVERED = READ" "status_step READ READ = READ" "status_step READ FAILED = READ"
  by (simp_all add: status_step_def shouldApplyStatus_def rank_def)

lemma fold_failed: "fold (\<lambda>t c. status_step c t) ts FAILED = FAILED"
  by (induction ts) simp_all

lemma fold_status_step:
  "in_transit c \<Longrightarrow> list_all (\<lambda>t. t = SENT \<or> t = DELIVERED \<or> t = READ \<or> t = FAILED) ts \<Longrightarrow>
     fold (\<lambda>t c. status_step c t) ts c = final_status c ts"
proof (induction ts arbitrary: c)
  case Nil
  then show ?case by (auto simp: final_status_def furthest_def in_transit_def)
next
  case (Cons t ts)
  have ct: "c = SUBMITTED \<or> c = SENT \<or> c = DELIVERED \<or> c = READ" "t = SENT \<or> t = DELIVERED \<or> t = READ \<or> t = FAILED"
    using Cons.prems by (simp_all add: in_transit_def)
  show ?case
  proof (cases "t = FAILED \<and> c \<noteq> DELIVERED \<and> c \<noteq> READ")
    case True
    then have "status_step c t = FAILED" using ct(1) by auto
    with True show ?thesis by (simp add: fold_failed final_status_def)
  next
    case False
    have it: "in_transit (status_step c t)" using ct False by (elim disjE) (simp_all add: in_transit_def)
    have "final_status (status_step c t) ts = final_status c (t # ts)"
      using ct False by (elim disjE) (simp_all add: final_status_def furthest_def)
    with Cons.IH [OF it] Cons.prems(2) show ?thesis by simp
  qed
qed

lemma status_update_simps [simp]:
  "m_id (status_update t stamp e m) = m_id m" "m_providerMessageId (status_update t stamp e m) = m_providerMessageId m"
  "m_status (status_update t stamp e m) = t"
  by (simp_all add: status_update_def Let_def)

definition provider_ids_unique :: "db \<Rightarrow> bool" where
  "provider_ids_unique d \<longleftrightarrow> distinct (map m_id (messages d)) \<and> distinct (List.map_filter m_providerMessageId (messages d))"

lemma map_filter_unique:
  "distinct (List.map_filter g xs) \<Longrightarrow> x \<in> set xs \<Longrightarrow> y \<in> set xs \<Longrightarrow> g x = Some p \<Longrightarrow> g y = Some p \<Longrightarrow> x = y"
proof (induction xs)
  case (Cons z zs)
  have mem: "p \<in> set (List.map_filter g zs)" if "w \<in> set zs" "g w = Some p" for w
    using that by (force simp: List.map_filter_def)
  from Cons show ?case by (auto simp: map_filter_simps split: option.splits dest: mem)
qed simp

lemma map_filter_map: "List.map_filter g (map f xs) = List.map_filter (g \<circ> f) xs"
  by (simp add: List.map_filter_def filter_map comp_def)

lemma provider_ids_uniqueD:
  "provider_ids_unique d \<Longrightarrow> m \<in> set (messages d) \<Longrightarrow> m' \<in> set (messages d) \<Longrightarrow> m_providerMessageId m = Some p \<Longrightarrow>
     m_providerMessageId m' = Some p \<Longrightarrow> m = m'"
  unfolding provider_ids_unique_def using map_filter_unique by metis

lemma findByProviderIdD: "findByProviderId p rows = Some m \<Longrightarrow> m \<in> set rows \<and> m_providerMessageId m = Some p"
  unfolding findByProviderId_def by (rule findFirst_SomeD)

lemma findFirst_map: "(\<And>x. p (f x) = p x) \<Longrightarrow> findFirst p (map f xs) = map_option f (findFirst p xs)"
  by (induction xs) simp_all

text \<open>Changes that keep both ids keep the uniqueness and are seen by the lookup.\<close>

lemma ids_kept:
  assumes "\<And>x. m_id (f x) = m_id x" and "\<And>x. m_providerMessageId (f x) = m_providerMessageId x" and "messages d' = map f (messages d)"
  shows "provider_ids_unique d \<Longrightarrow> provider_ids_unique d'"
    and "findByProviderId p (messages d') = map_option f (findByProviderId p (messages d))"
proof -
  have "m_id \<circ> f = m_id" "m_providerMessageId \<circ> f = m_providerMessageId" using assms(1,2) by auto
  then show "provider_ids_unique d \<Longrightarrow> provider_ids_unique d'" by (simp add: provider_ids_unique_def assms(3) map_filter_map)
qed (simp add: assms findByProviderId_def findFirst_map)

definition reported :: "MetaMessageStatus list \<Rightarrow> db \<Rightarrow> db \<Rightarrow> bool" where
  "reported ss d d' \<longleftrightarrow> (\<forall>p m. findByProviderId p (messages d) = Some m \<longrightarrow>
     (\<exists>m'. findByProviderId p (messages d') = Some m' \<and> m_id m' = m_id m \<and>
        m_status m' = fold (\<lambda>t c. status_step c t) (reports_on p ss) (m_status m) \<and>
        map e_status (filter (\<lambda>e. e_messageId e = m_id m) (statusEvents d')) =
          map e_status (filter (\<lambda>e. e_messageId e = m_id m) (statusEvents d)) @ reports_on p ss))"

lemma reports_on_Nil [simp]: "reports_on p [] = []"
  by (simp add: reports_on_def List.map_filter_def)

lemma reports_on_append [simp]: "reports_on p (ss @ ts) = reports_on p ss @ reports_on p ts"
  by (simp add: reports_on_def List.map_filter_def)

lemma reports_on_single: "reports_on p [s] = (if ms_id s = p then (case mapStatus (ms_status s) of Some t \<Rightarrow> [t] | None \<Rightarrow> []) else [])"
  by (simp add: reports_on_def List.map_filter_def split: option.splits)

lemma reported_trans: "reported ss d d1 \<Longrightarrow> reported ts d1 d2 \<Longrightarrow> reported (ss @ ts) d d2"
  unfolding reported_def by (fastforce simp: fold_append)

lemma reported_unchanged: "(\<And>p. findByProviderId p (messages d) \<noteq> None \<Longrightarrow> reports_on p ss = []) \<Longrightarrow> reported ss d d"
  unfolding reported_def by auto

lemma applyStatus_reported:
  assumes u: "provider_ids_unique d" and ok: "applyStatus dateError s now d = Inr d'"
  shows "provider_ids_unique d' \<and> reported [s] d d'"
proof (cases "mapStatus (ms_status s) = None \<or> findByProviderId (ms_id s) (messages d) = None")
  case True
  then have "d' = d" using ok by (auto simp: applyStatus_def split: option.splits)
  moreover have "reported [s] d d" by (rule reported_unchanged) (use True in \<open>auto simp: reports_on_single\<close>)
  ultimately show ?thesis using u by simp
next
  case False
  then obtain t m0 where t: "mapStatus (ms_status s) = Some t" and m0: "findByProviderId (ms_id s) (messages d) = Some m0" by auto
  from ok t m0 obtain stamp where
    d': "d' = (let d1 = add_event (m_id m0) t (Some (status_json s)) stamp d
      in if shouldApplyStatus (m_status m0) t
         then d1\<lparr>messages := updateMessage (m_id m0) (status_update t stamp (extractError (ms_errors s))) (messages d1)\<rparr> else d1)"
    by (auto simp: applyStatus_def Let_def split: date.splits if_splits)
  let ?f = "\<lambda>x. if m_id x = m_id m0 \<and> shouldApplyStatus (m_status m0) t then status_update t stamp (extractError (ms_errors s)) x else x"
  have rows: "messages d' = map ?f (messages d)" unfolding d' by (auto simp: updateMessage_def updateMany_def Let_def)
  have ids: "m_id (?f x) = m_id x" "m_providerMessageId (?f x) = m_providerMessageId x" for x by simp_all
  note keep = ids_kept [of ?f, OF ids rows]
  have log: "map e_status (filter (\<lambda>e. e_messageId e = k) (statusEvents d')) =
      map e_status (filter (\<lambda>e. e_messageId e = k) (statusEvents d)) @ (if k = m_id m0 then [t] else [])" for k
    unfolding d' by (simp add: add_event_def Let_def)
  have same: "m_id m = m_id m0 \<longleftrightarrow> ms_id s = p" "m_id m = m_id m0 \<Longrightarrow> m = m0" if "findByProviderId p (messages d) = Some m" for p m
  proof -
    have mem: "m \<in> set (messages d)" "m_providerMessageId m = Some p" "m0 \<in> set (messages d)" "m_providerMessageId m0 = Some (ms_id s)"
      using findByProviderIdD [OF that] findByProviderIdD [OF m0] by auto
    show one: "m = m0" if "m_id m = m_id m0" using u mem that by (auto simp: provider_ids_unique_def distinct_map dest: inj_onD)
    show "m_id m = m_id m0 \<longleftrightarrow> ms_id s = p" using one mem provider_ids_uniqueD [OF u mem(1,3,2)] by auto
  qed
  have "reported [s] d d'" unfolding reported_def
  proof (intro allI impI)
    fix p m assume m: "findByProviderId p (messages d) = Some m"
    show "\<exists>m'. findByProviderId p (messages d') = Some m' \<and> m_id m' = m_id m \<and>
        m_status m' = fold (\<lambda>t c. status_step c t) (reports_on p [s]) (m_status m) \<and>
        map e_status (filter (\<lambda>e. e_messageId e = m_id m) (statusEvents d')) =
          map e_status (filter (\<lambda>e. e_messageId e = m_id m) (statusEvents d)) @ reports_on p [s]"
      using same [OF m] m t by (intro exI [of _ "?f m"]) (auto simp: keep(2) log reports_on_single status_step_def)
  qed
  with keep(1) [OF u] show ?thesis by blast
qed

lemma apply_statuses_reported:
  "apply_statuses dateError now ss d = (None, d') \<Longrightarrow> provider_ids_unique d \<Longrightarrow> provider_ids_unique d' \<and> reported ss d d'"
proof (induction ss arbitrary: d)
  case Nil
  then show ?case by (simp add: reported_unchanged)
next
  case (Cons s ss)
  then obtain d1 where d1: "applyStatus dateError s now d = Inr d1" "apply_statuses dateError now ss d1 = (None, d')" by (auto split: sum.splits)
  from applyStatus_reported [OF Cons.prems(2) d1(1)] Cons.IH [OF d1(2)] reported_trans [of "[s]" d d1 ss d'] show ?case by auto
qed

section \<open>Properties\<close>

text \<open>Webhook events processed one after the other, until one fails.\<close>

fun process_events :: "string \<Rightarrow> (uuid \<times> json \<times> time) list \<Rightarrow> db \<Rightarrow> error option \<times> db" where
  "process_events dateError [] d = (None, d)"
| "process_events dateError ((k, payload, now) # evs) d =
     (case processWebhookEvent dateError k payload now d of (Some e, d') \<Rightarrow> (Some e, d') | (None, d') \<Rightarrow> process_events dateError evs d')"

lemma process_events_reported:
  "process_events dateError evs d = (None, d') \<Longrightarrow> provider_ids_unique d \<Longrightarrow>
     provider_ids_unique d' \<and> reported (concat (map (\<lambda>ev. extractStatuses (fst (snd ev))) evs)) d d'"
proof (induction evs arbitrary: d)
  case Nil
  then show ?case by (simp add: reported_unchanged)
next
  case (Cons ev evs)
  obtain k payload now where ev: "ev = (k, payload, now)" by (cases ev) auto
  from Cons.prems(1) ev obtain d1 where d1: "apply_statuses dateError now (extractStatuses payload) d = (None, d1)"
    and rest: "process_events dateError evs (d1\<lparr>webhookEvents := updateWebhookEvent k (processed_event now) (webhookEvents d1)\<rparr>) = (None, d')"
    by (auto simp: processWebhookEvent_def split: prod.splits option.splits)
  let ?d1 = "d1\<lparr>webhookEvents := updateWebhookEvent k (processed_event now) (webhookEvents d1)\<rparr>"
  from apply_statuses_reported [OF d1 Cons.prems(2)] have "provider_ids_unique d1" "reported (extractStatuses payload) d d1" by auto
  then have "provider_ids_unique ?d1" "reported (extractStatuses payload) d ?d1" by (simp_all add: provider_ids_unique_def reported_def)
  with Cons.IH [OF rest] reported_trans ev show ?case by auto
qed

text \<open>
  C31. Status reports in any order, split over any number of webhook events and with repetitions: a message that was submitted ends failed if a
  failure was reported before it was delivered or read, and otherwise with the furthest status reported; every report about it that
  the code understands is in its log of status events, in order of arrival.
\<close>

theorem reports_decide_status:
  assumes "provider_ids_unique d" and "findByProviderId p (messages d) = Some m" and "in_transit (m_status m)"
    and "process_events dateError evs d = (None, d')"
  shows "\<exists>m'. findByProviderId p (messages d') = Some m' \<and> m_id m' = m_id m \<and>
    m_status m' = final_status (m_status m) (reports_on p (concat (map (\<lambda>ev. extractStatuses (fst (snd ev))) evs))) \<and>
    map e_status (filter (\<lambda>e. e_messageId e = m_id m) (statusEvents d')) =
      map e_status (filter (\<lambda>e. e_messageId e = m_id m) (statusEvents d)) @
      reports_on p (concat (map (\<lambda>ev. extractStatuses (fst (snd ev))) evs))"
proof -
  let ?ss = "concat (map (\<lambda>ev. extractStatuses (fst (snd ev))) evs)"
  have "list_all (\<lambda>t. t = SENT \<or> t = DELIVERED \<or> t = READ \<or> t = FAILED) (reports_on p ?ss)"
    using mapStatus_cases by (auto simp: reports_on_def List.map_filter_def list_all_iff split: if_splits)
  note final = fold_status_step [OF assms(3) this]
  from process_events_reported [OF assms(4,1)] have "reported ?ss d d'" by blast
  with assms(2) show ?thesis unfolding reported_def final [symmetric] by blast
qed

text \<open>A submitted message, read before its delivery is reported, and a late failure.\<close>

definition sample_submitted :: message_row where
  "sample_submitted = \<lparr>m_id = ''m1'', m_tenantId = Some ''t1'', m_senderId = Some ''s1'', m_conversationId = None, m_direction = OUTBOUND,
     m_trafficClass = TRANSACTIONAL, m_type = TEXT, m_status = SUBMITTED, m_to = Some ''96170123456'', m_from = None,
     m_providerMessageId = Some ''wamid.1'', m_providerTimestamp = None, m_idempotencyKey = None, m_payload = JObj [], m_providerResponse = None,
     m_errorCode = None, m_errorMessage = None, m_attemptCount = 1, m_lastAttemptAt = None, m_processingLeaseUntil = None, m_createdAt = 0,
     m_submittedAt = Some 0, m_sentAt = None, m_deliveredAt = None, m_readAt = None, m_failedAt = None\<rparr>"

definition sample_submitted_db :: db where
  "sample_submitted_db = empty_db\<lparr>messages := [sample_submitted]\<rparr>"

definition report_payload :: "string list \<Rightarrow> json" where
  "report_payload statuses = JObj [(''entry'', JArr [JObj [(''changes'', JArr [JObj [(''value'', JObj [(''statuses'',
     JArr (map (\<lambda>st. JObj [(''id'', JStr ''wamid.1''), (''status'', JStr st)]) statuses))])]])]])]"

lemma report_payload_statuses:
  "extractStatuses (report_payload sts) = map (\<lambda>st. \<lparr>ms_id = ''wamid.1'', ms_status = st, ms_timestamp = None, ms_errors = None\<rparr>) sts"
  by (induction sts) (simp_all add: extractStatuses_def report_payload_def webhook_values_def change_value_def json_items_def extract_status_def)

definition sample_reports :: "(uuid \<times> json \<times> time) list" where
  "sample_reports = [(''e1'', report_payload [''read''], 5), (''e2'', report_payload [''delivered'', ''failed''], 6)]"

lemma sample_reports_ok: "\<exists>d'. process_events ''invalid date'' sample_reports sample_submitted_db = (None, d')"
  by (simp add: sample_reports_def processWebhookEvent_def report_payload_statuses applyStatus_def mapStatus_def js_lower_def lower_char_def
      parseTimestamp_def sample_submitted_db_def sample_submitted_def findByProviderId_def shouldApplyStatus_def rank_def Let_def
      updateMessage_def updateMany_def add_event_def status_update_def)

theorem reports_decide_status_witness:
  "\<exists>d' m'. process_events ''invalid date'' sample_reports sample_submitted_db = (None, d') \<and>
     findByProviderId ''wamid.1'' (messages d') = Some m' \<and> m_status m' = READ"
proof -
  from sample_reports_ok obtain d' where d': "process_events ''invalid date'' sample_reports sample_submitted_db = (None, d')" by blast
  have u: "provider_ids_unique sample_submitted_db"
    by (simp add: provider_ids_unique_def sample_submitted_db_def sample_submitted_def map_filter_simps)
  have f: "findByProviderId ''wamid.1'' (messages sample_submitted_db) = Some sample_submitted"
    by (simp add: findByProviderId_def sample_submitted_db_def sample_submitted_def)
  have t: "in_transit (m_status sample_submitted)" by (simp add: in_transit_def sample_submitted_def)
  have r: "reports_on ''wamid.1'' (concat (map (\<lambda>ev. extractStatuses (fst (snd ev))) sample_reports)) = [READ, DELIVERED, FAILED]"
    by (simp add: sample_reports_def report_payload_statuses reports_on_def map_filter_simps mapStatus_def js_lower_def lower_char_def Let_def)
  from reports_decide_status [OF u f t d'] d' r show ?thesis
    by (auto simp: final_status_def furthest_def)
qed

end
