(* ===== verification/Inbound.thy ===== *)
theory Inbound
  imports Conversations Senders Webhook_Status
begin

text \<open>
  src/src/webhooks/inbound-message.service.ts: messages of customers. A message is stored once under the provider's id, its
  contact is created or updated, the 24-hour service window moves, and its conversation is opened. The ids the database
  generates for a message (contact, conversation, message) are given by a function of the provider's id. \<open>persistInboundMessage\<close> has two
  database states: the one its duplicate check sees and the one its inserts see, because another worker may commit in
  between. The notifications are those handed to the realtime service, which never throws.

  The results: processing a payload again changes nothing and notifies nobody, and the service window is
  always 24 hours after the last inbound message.
\<close>

section \<open>Reading the payload\<close>

definition readString :: "json option \<Rightarrow> string \<Rightarrow> string option" where
  "readString v k = (case v of Some w \<Rightarrow> nonempty_text (json_get w k) | None \<Rightarrow> None)"

record MetaInboundMessage =
  im_id :: string
  im_from :: string
  im_timestamp :: "string option"
  im_type :: "string option"
  im_json :: json

text \<open>The stored JSON: the candidate, without a \<open>timestamp\<close> or \<open>type\<close> that is not a non-empty string (it is undefined then).\<close>

fun without_undefined :: "json \<Rightarrow> json" where
  "without_undefined (JObj kvs) =
     JObj (filter (\<lambda>(k, v). (k = ''timestamp'' \<or> k = ''type'') \<longrightarrow> nonempty_text (Some v) \<noteq> None) kvs)"
| "without_undefined v = v"

definition extract_message :: "json \<Rightarrow> MetaInboundMessage list" where
  "extract_message candidate =
     (case (readString (Some candidate) ''id'', readString (Some candidate) ''from'') of
        (Some k, Some from) \<Rightarrow>
          [\<lparr>im_id = k, im_from = from, im_timestamp = readString (Some candidate) ''timestamp'',
            im_type = readString (Some candidate) ''type'', im_json = without_undefined candidate\<rparr>]
      | _ \<Rightarrow> [])"

definition extractMessages :: "json \<Rightarrow> MetaInboundMessage list" where
  "extractMessages value' = concat (map extract_message (json_items value' ''messages''))"

definition extract_profile :: "json \<Rightarrow> (string \<times> string) list" where
  "extract_profile contact =
     (case (readString (Some contact) ''wa_id'', readString (json_get contact ''profile'') ''name'') of
        (Some waId, Some name) \<Rightarrow> [(waId, name)] | _ \<Rightarrow> [])"

text \<open>A later entry of the map replaces an earlier one.\<close>

definition extractProfileNames :: "json \<Rightarrow> string \<Rightarrow> string option" where
  "extractProfileNames value' = map_of (rev (concat (map extract_profile (json_items value' ''contacts''))))"

definition mapMessageType :: "string option \<Rightarrow> MessageType" where
  "mapMessageType type' =
     (case type' of
        None \<Rightarrow> MessageType.UNKNOWN
      | Some s \<Rightarrow>
          (let t = js_lower s
           in if t = ''text'' then MessageType.TEXT else if t = ''image'' then MessageType.IMAGE
              else if t = ''video'' then MessageType.VIDEO else if t = ''audio'' then MessageType.AUDIO
              else if t = ''document'' then MessageType.DOCUMENT
              else if t = ''interactive'' \<or> t = ''button'' then MessageType.INTERACTIVE
              else if t = ''location'' then MessageType.LOCATION
              else if t = ''contacts'' \<or> t = ''contact'' then MessageType.CONTACT
              else MessageType.UNKNOWN))"

section \<open>Storing a message\<close>

definition SERVICE_WINDOW_MS :: nat where
  "SERVICE_WINDOW_MS = 24 * 60 * 60 * 1000"

definition window_end :: "date \<Rightarrow> date" where
  "window_end inboundAt =
     (case inboundAt of
        InvalidDate \<Rightarrow> InvalidDate
      | Date t \<Rightarrow> if t + SERVICE_WINDOW_MS > 8640000000000000 then InvalidDate else Date (t + SERVICE_WINDOW_MS))"

record inbound_env =
  ie_dateError :: string
  ie_ids :: "string \<Rightarrow> uuid \<times> uuid \<times> uuid"
  ie_now :: time

text \<open>A notification: the tenant, the event type, the conversation and the message.\<close>

type_synonym notification = "uuid \<times> string \<times> uuid \<times> uuid option"

definition upsert_contact :: "uuid \<Rightarrow> uuid \<Rightarrow> string \<Rightarrow> string option \<Rightarrow> time \<Rightarrow> time \<Rightarrow> time \<Rightarrow> db \<Rightarrow> uuid \<times> db" where
  "upsert_contact newId tenantId phone profileName inboundAt windowEnd now d =
     (case contact_by_phone d tenantId phone of
        Some c \<Rightarrow>
          (c_id c, case profileName of
             Some n \<Rightarrow> d\<lparr>contacts := updateMany (\<lambda>c. c_tenantId c = tenantId \<and> c_phone c = phone) (\<lambda>c. c\<lparr>c_name := Some n\<rparr>) (contacts d)\<rparr>
           | None \<Rightarrow> d)
      | None \<Rightarrow>
          (newId, d\<lparr>contacts := contacts d @ [\<lparr>c_id = newId, c_tenantId = tenantId, c_phone = phone, c_name = profileName,
             c_language = None, c_timezone = None, c_tags = [], c_consentStatus = ConsentStatus.UNKNOWN, c_consentSource = None,
             c_consentAt = None, c_optedOutAt = None, c_lastInboundAt = Some inboundAt, c_serviceWindowExpiresAt = Some windowEnd,
             c_metadata = None, c_createdAt = now\<rparr>]\<rparr>))"

definition move_window :: "uuid \<Rightarrow> time \<Rightarrow> time \<Rightarrow> db \<Rightarrow> db" where
  "move_window contactId inboundAt windowEnd d =
     d\<lparr>contacts := updateMany (\<lambda>c. c_id c = contactId \<and> (case c_lastInboundAt c of None \<Rightarrow> True | Some t \<Rightarrow> t < inboundAt))
        (\<lambda>c. c\<lparr>c_lastInboundAt := Some inboundAt, c_serviceWindowExpiresAt := Some windowEnd\<rparr>) (contacts d)\<rparr>"

definition inbound_message ::
  "uuid \<Rightarrow> uuid \<Rightarrow> uuid \<Rightarrow> uuid \<Rightarrow> string \<Rightarrow> string option \<Rightarrow> MetaInboundMessage \<Rightarrow> time \<Rightarrow> time \<Rightarrow> message_row" where
  "inbound_message messageId tenantId senderId conversationId from displayPhoneNumber message inboundAt now =
     \<lparr>m_id = messageId, m_tenantId = Some tenantId, m_senderId = Some senderId, m_conversationId = Some conversationId,
      m_direction = INBOUND, m_trafficClass = TRANSACTIONAL, m_type = mapMessageType (im_type message), m_status = RECEIVED,
      m_to = displayPhoneNumber, m_from = Some from, m_providerMessageId = Some (im_id message), m_providerTimestamp = Some inboundAt,
      m_idempotencyKey = None, m_payload = im_json message, m_providerResponse = None, m_errorCode = None, m_errorMessage = None,
      m_attemptCount = 0, m_lastAttemptAt = None, m_processingLeaseUntil = None, m_createdAt = now, m_submittedAt = None, m_sentAt = None,
      m_deliveredAt = None, m_readAt = None, m_failedAt = None\<rparr>"

definition inbound_transaction ::
  "inbound_env \<Rightarrow> uuid \<Rightarrow> uuid \<Rightarrow> string option \<Rightarrow> string option \<Rightarrow> string \<Rightarrow> MetaInboundMessage \<Rightarrow> time \<Rightarrow> time \<Rightarrow> db \<Rightarrow> message_row \<times> db" where
  "inbound_transaction env tenantId senderId displayPhoneNumber profileName from message inboundAt windowEnd d =
     (case ie_ids env (im_id message) of (newContact, newConversation, messageId) \<Rightarrow>
        let (contactId, d1) = upsert_contact newContact tenantId from profileName inboundAt windowEnd (ie_now env) d;
            d2 = move_window contactId inboundAt windowEnd d1;
            (conversationId, d3) = recordInbound d2 tenantId senderId contactId inboundAt newConversation;
            m = inbound_message messageId tenantId senderId conversationId from displayPhoneNumber message inboundAt (ie_now env)
        in (m, add_event messageId RECEIVED (Some (JObj [(''providerMessageId'', JStr (im_id message))])) inboundAt
                 (d3\<lparr>messages := messages d3 @ [m]\<rparr>)))"

definition notifications :: "uuid \<Rightarrow> message_row \<Rightarrow> notification list" where
  "notifications tenantId m =
     (case m_conversationId m of
        None \<Rightarrow> []
      | Some v \<Rightarrow> if v = [] then [] else
          [(tenantId, ''conversation.updated'', v, None), (tenantId, ''conversation.message.created'', v, Some (m_id m))])"

definition persistInboundMessage ::
  "inbound_env \<Rightarrow> db \<Rightarrow> uuid \<Rightarrow> uuid \<Rightarrow> string option \<Rightarrow> string option \<Rightarrow> MetaInboundMessage \<Rightarrow> db \<Rightarrow> error + notification list \<times> db" where
  "persistInboundMessage env seen tenantId senderId displayPhoneNumber profileName message d =
     bindE (normalizePhoneNumber (im_from message)) (\<lambda>from.
       let inboundAt = (case parseTimestamp (im_timestamp message) of Some x \<Rightarrow> x | None \<Rightarrow> Date (ie_now env))
       in if findByProviderId (im_id message) (messages seen) \<noteq> None then Inr ([], d)
          else case (inboundAt, window_end inboundAt) of
                 (Date t, Date w) \<Rightarrow>
                   (case inbound_transaction env tenantId senderId displayPhoneNumber profileName from message t w d of
                      (m, d') \<Rightarrow>
                        if findByProviderId (im_id message) (messages d) \<noteq> None then Inr ([], d)
                        else Inr (notifications tenantId m, d'))
               | _ \<Rightarrow> Inl (Error (ie_dateError env)))"

section \<open>Processing a payload\<close>

fun persist_all ::
  "inbound_env \<Rightarrow> sender_row \<Rightarrow> string option \<Rightarrow> (string \<Rightarrow> string option) \<Rightarrow> MetaInboundMessage list \<Rightarrow> db \<Rightarrow> error option \<times> notification list \<times> db" where
  "persist_all env sender display names [] d = (None, [], d)"
| "persist_all env sender display names (m # ms) d =
     (case persistInboundMessage env d (s_tenantId sender) (s_id sender) display (names (im_from m)) m d of
        Inl e \<Rightarrow> (Some e, [], d)
      | Inr (ns, d') \<Rightarrow> (case persist_all env sender display names ms d' of (e, ns', d'') \<Rightarrow> (e, ns @ ns', d'')))"

definition process_value :: "inbound_env \<Rightarrow> json \<Rightarrow> db \<Rightarrow> error option \<times> notification list \<times> db" where
  "process_value env value' d =
     (let ms = extractMessages value'; metadata = json_get value' ''metadata''
      in if ms = [] then (None, [], d)
         else case readString metadata ''phone_number_id'' of
                None \<Rightarrow> (Some (Error ''Inbound WhatsApp webhook is missing metadata.phone_number_id''), [], d)
              | Some p \<Rightarrow>
                  (case findByProviderPhoneNumberId d p of
                     Inl e \<Rightarrow> (Some e, [], d)
                   | Inr sender \<Rightarrow>
                       persist_all env sender (readString metadata ''display_phone_number'') (extractProfileNames value') ms d))"

fun process_values :: "inbound_env \<Rightarrow> json list \<Rightarrow> db \<Rightarrow> error option \<times> notification list \<times> db" where
  "process_values env [] d = (None, [], d)"
| "process_values env (v # vs) d =
     (case process_value env v d of
        (Some e, ns, d') \<Rightarrow> (Some e, ns, d')
      | (None, ns, d') \<Rightarrow> (case process_values env vs d' of (e, ns', d'') \<Rightarrow> (e, ns @ ns', d'')))"

definition InboundMessageService_process :: "inbound_env \<Rightarrow> json \<Rightarrow> db \<Rightarrow> error option \<times> notification list \<times> db" where
  "InboundMessageService_process env payload d = process_values env (webhook_values payload) d"

section \<open>Idempotency\<close>

definition stored :: "string \<Rightarrow> db \<Rightarrow> bool" where
  "stored p d \<longleftrightarrow> findByProviderId p (messages d) \<noteq> None"

lemma stored_iff: "stored p d \<longleftrightarrow> (\<exists>m \<in> set (messages d). m_providerMessageId m = Some p)"
  by (auto simp: stored_def findByProviderId_def findFirst_None)

lemma recordInbound_tables:
  "messages (snd (recordInbound d t s c x newId)) = messages d" "senders (snd (recordInbound d t s c x newId)) = senders d"
  "contacts (snd (recordInbound d t s c x newId)) = contacts d"
  by (simp_all add: recordInbound_def split: option.splits)

lemma upsert_contact_tables:
  "messages (snd (upsert_contact n t p nm x w now d)) = messages d" "senders (snd (upsert_contact n t p nm x w now d)) = senders d"
  by (simp_all add: upsert_contact_def split: option.splits)

lemma inbound_transaction_tables:
  assumes "inbound_transaction env t s disp nm fr message x w d = (m, d')"
  shows "messages d' = messages d @ [m]" "senders d' = senders d" "m_providerMessageId m = Some (im_id message)"
proof -
  obtain a b c where ids: "ie_ids env (im_id message) = (a, b, c)" by (metis surj_pair)
  obtain k d1 where u: "upsert_contact a t fr nm x w (ie_now env) d = (k, d1)" by fastforce
  obtain v d3 where r: "recordInbound (move_window k x w d1) t s k x b = (v, d3)" by fastforce
  have "messages d3 = messages d" "senders d3 = senders d"
    using recordInbound_tables(1,2) [of "move_window k x w d1" t s k x b] upsert_contact_tables [of a t fr nm x w "ie_now env" d] u r
    by (simp_all add: move_window_def)
  then show "messages d' = messages d @ [m]" "senders d' = senders d" "m_providerMessageId m = Some (im_id message)"
    using assms ids u r by (auto simp: inbound_transaction_def add_event_def inbound_message_def Let_def)
qed

lemma persist_stores:
  assumes "persistInboundMessage env d t s disp nm m d = Inr (ns, d')"
  shows "senders d' = senders d" "stored (im_id m) d'" "stored p d \<Longrightarrow> stored p d'" "\<exists>fr. normalizePhoneNumber (im_from m) = Inr fr"
proof -
  from assms obtain fr where f: "normalizePhoneNumber (im_from m) = Inr fr"
    by (auto simp: persistInboundMessage_def bindE_Inr)
  then show "\<exists>fr. normalizePhoneNumber (im_from m) = Inr fr" by blast
  have "d' = d \<and> stored (im_id m) d \<or> (\<exists>x w row. inbound_transaction env t s disp nm fr m x w d = (row, d'))"
    using assms f by (auto simp: persistInboundMessage_def stored_def Let_def split: if_splits date.splits prod.splits)
  then have "senders d' = senders d \<and> stored (im_id m) d' \<and> (stored p d \<longrightarrow> stored p d')"
    using inbound_transaction_tables by (fastforce simp: stored_iff)
  then show "senders d' = senders d" "stored (im_id m) d'" "stored p d \<Longrightarrow> stored p d'" by auto
qed

lemma persist_again:
  "stored (im_id m) d \<Longrightarrow> normalizePhoneNumber (im_from m) = Inr fr \<Longrightarrow> persistInboundMessage env d t s disp nm m d = Inr ([], d)"
  by (simp add: persistInboundMessage_def stored_def)

definition accepted_messages :: "MetaInboundMessage list \<Rightarrow> db \<Rightarrow> bool" where
  "accepted_messages ms d \<longleftrightarrow> (\<forall>m \<in> set ms. stored (im_id m) d \<and> (\<exists>fr. normalizePhoneNumber (im_from m) = Inr fr))"

lemma persist_all_stores:
  "persist_all env sender disp names ms d = (None, ns, d') \<Longrightarrow>
     senders d' = senders d \<and> accepted_messages ms d' \<and> (\<forall>p. stored p d \<longrightarrow> stored p d')"
proof (induction ms arbitrary: d ns)
  case Nil
  then show ?case by (simp add: accepted_messages_def)
next
  case (Cons m ms)
  from Cons.prems obtain ns1 d1 ns2 where s: "persistInboundMessage env d (s_tenantId sender) (s_id sender) disp (names (im_from m)) m d = Inr (ns1, d1)"
    and r: "persist_all env sender disp names ms d1 = (None, ns2, d')" by (auto split: sum.splits prod.splits)
  from persist_stores [OF s] Cons.IH [OF r] show ?case by (auto simp: accepted_messages_def)
qed

lemma persist_all_again: "accepted_messages ms d \<Longrightarrow> persist_all env sender disp names ms d = (None, [], d)"
  by (induction ms) (auto simp: accepted_messages_def persist_again)

definition accepted_value :: "json \<Rightarrow> db \<Rightarrow> bool" where
  "accepted_value v d \<longleftrightarrow> extractMessages v = [] \<or>
     (\<exists>p sender. readString (json_get v ''metadata'') ''phone_number_id'' = Some p \<and> findByProviderPhoneNumberId d p = Inr sender \<and>
        accepted_messages (extractMessages v) d)"

lemma findByProviderPhoneNumberId_cong: "senders d' = senders d \<Longrightarrow> findByProviderPhoneNumberId d' p = findByProviderPhoneNumberId d p"
  by (simp add: findByProviderPhoneNumberId_def)

lemma process_value_stores:
  assumes "process_value env v d = (None, ns, d')"
  shows "senders d' = senders d \<and> accepted_value v d' \<and> (\<forall>p. stored p d \<longrightarrow> stored p d')"
proof (cases "extractMessages v = []")
  case True
  with assms show ?thesis by (simp add: process_value_def accepted_value_def)
next
  case False
  with assms obtain p sender where p: "readString (json_get v ''metadata'') ''phone_number_id'' = Some p"
      "findByProviderPhoneNumberId d p = Inr sender"
      "persist_all env sender (readString (json_get v ''metadata'') ''display_phone_number'') (extractProfileNames v) (extractMessages v) d = (None, ns, d')"
    by (auto simp: process_value_def Let_def split: option.splits sum.splits)
  from persist_all_stores [OF p(3)] p(1,2) findByProviderPhoneNumberId_cong [of d' d p] show ?thesis
    by (auto simp: accepted_value_def)
qed

lemma accepted_value_mono:
  "accepted_value v d \<Longrightarrow> senders d' = senders d \<Longrightarrow> (\<And>p. stored p d \<Longrightarrow> stored p d') \<Longrightarrow> accepted_value v d'"
  using findByProviderPhoneNumberId_cong [of d' d] by (fastforce simp: accepted_value_def accepted_messages_def)

lemma process_value_again: "accepted_value v d \<Longrightarrow> process_value env v d = (None, [], d)"
  by (auto simp: accepted_value_def process_value_def Let_def persist_all_again)

lemma process_values_stores:
  "process_values env vs d = (None, ns, d') \<Longrightarrow>
     senders d' = senders d \<and> (\<forall>v \<in> set vs. accepted_value v d') \<and> (\<forall>p. stored p d \<longrightarrow> stored p d')"
proof (induction vs arbitrary: d ns)
  case Nil
  then show ?case by simp
next
  case (Cons v vs)
  from Cons.prems obtain ns1 d1 ns2 where s: "process_value env v d = (None, ns1, d1)" and r: "process_values env vs d1 = (None, ns2, d')"
    by (auto split: prod.splits option.splits)
  from process_value_stores [OF s] Cons.IH [OF r] accepted_value_mono [of v d1 d'] show ?case by auto
qed

lemma process_values_again: "\<forall>v \<in> set vs. accepted_value v d \<Longrightarrow> process_values env vs d = (None, [], d)"
  by (induction vs) (auto simp: process_value_again)

section \<open>The invariant\<close>

definition window_ok :: "contact_row \<Rightarrow> bool" where
  "window_ok c \<longleftrightarrow> c_serviceWindowExpiresAt c = map_option (\<lambda>t. t + SERVICE_WINDOW_MS) (c_lastInboundAt c)"

definition inbound_ok :: "db \<Rightarrow> bool" where
  "inbound_ok d \<longleftrightarrow> list_all window_ok (contacts d) \<and> distinct (map (\<lambda>c. (c_tenantId c, c_phone c)) (contacts d)) \<and>
     distinct (List.map_filter m_providerMessageId (messages d)) \<and> conversations_ok d"

lemma conversations_ok_cong:
  "conversations d' = conversations d \<Longrightarrow> teams d' = teams d \<Longrightarrow> conversations_ok d' = conversations_ok d"
  by (simp add: conversations_ok_def)

lemma upsert_contact_ok:
  assumes "inbound_ok d" and "upsert_contact newId t phone nm x (x + SERVICE_WINDOW_MS) now d = (k, d')"
  shows "inbound_ok d'"
proof (cases "contact_by_phone d t phone")
  case None
  then have "(t, phone) \<notin> (\<lambda>c. (c_tenantId c, c_phone c)) ` set (contacts d)"
    by (auto simp: contact_by_phone_def findFirst_None)
  with assms None show ?thesis
    by (auto simp: upsert_contact_def inbound_ok_def window_ok_def conversations_ok_def)
next
  case (Some c)
  let ?rows = "\<lambda>n. updateMany (\<lambda>c. c_tenantId c = t \<and> c_phone c = phone) (\<lambda>c. c\<lparr>c_name := n\<rparr>) (contacts d)"
  have "list_all window_ok (?rows n)" "map (\<lambda>c. (c_tenantId c, c_phone c)) (?rows n) = map (\<lambda>c. (c_tenantId c, c_phone c)) (contacts d)" for n
    using assms(1) by (auto simp: inbound_ok_def window_ok_def intro: list_all_updateMany map_updateMany)
  with assms Some show ?thesis by (auto simp: upsert_contact_def inbound_ok_def conversations_ok_def split: option.splits)
qed

lemma move_window_ok: "inbound_ok d \<Longrightarrow> inbound_ok (move_window k x (x + SERVICE_WINDOW_MS) d)"
  by (auto simp: move_window_def inbound_ok_def window_ok_def conversations_ok_def map_updateMany intro: list_all_updateMany)

lemma inbound_transaction_ok:
  assumes ok: "inbound_ok d" and new: "\<not> stored (im_id message) d"
    and tr: "inbound_transaction env t s disp nm fr message x (x + SERVICE_WINDOW_MS) d = (m, d')"
  shows "inbound_ok d'"
proof -
  let ?w = "x + SERVICE_WINDOW_MS"
  obtain a b c where ids: "ie_ids env (im_id message) = (a, b, c)" by (metis surj_pair)
  obtain k d1 where u: "upsert_contact a t fr nm x ?w (ie_now env) d = (k, d1)" by fastforce
  obtain v d3 where r: "recordInbound (move_window k x ?w d1) t s k x b = (v, d3)" by fastforce
  have ok2: "inbound_ok (move_window k x ?w d1)" using upsert_contact_ok [OF ok u] by (rule move_window_ok)
  then have "conversations_ok d3" using recordInbound_ok [OF _ r] by (simp add: inbound_ok_def)
  then have ok3: "inbound_ok d3"
    using ok2 recordInbound_tables [of "move_window k x ?w d1" t s k x b] r by (simp add: inbound_ok_def)
  have d3: "messages d3 = messages d"
    using recordInbound_tables(1) [of "move_window k x ?w d1" t s k x b] upsert_contact_tables(1) [of a t fr nm x ?w "ie_now env" d] u r
    by (simp add: move_window_def)
  have "im_id message \<notin> set (List.map_filter m_providerMessageId (messages d))"
    using new by (auto simp: stored_iff List.map_filter_def)
  moreover have "List.map_filter m_providerMessageId (messages d @ [m]) = List.map_filter m_providerMessageId (messages d) @ [im_id message]"
    using inbound_transaction_tables(3) [OF tr] by (simp add: List.map_filter_def)
  moreover have "contacts d' = contacts d3" "conversations d' = conversations d3" "teams d' = teams d3"
    using tr ids u r by (auto simp: inbound_transaction_def add_event_def Let_def)
  ultimately show ?thesis
    using ok3 d3 inbound_transaction_tables(1) [OF tr] by (simp add: inbound_ok_def conversations_ok_def)
qed

lemma persist_ok:
  assumes "inbound_ok d" and "persistInboundMessage env d t s disp nm m d = Inr (ns, d')"
  shows "inbound_ok d'"
proof -
  have "d' = d \<or> (\<exists>fr x row. \<not> stored (im_id m) d \<and> inbound_transaction env t s disp nm fr m x (x + SERVICE_WINDOW_MS) d = (row, d'))"
    using assms(2)
    by (auto simp: persistInboundMessage_def bindE_Inr stored_def window_end_def Let_def split: if_splits date.splits prod.splits)
  with assms(1) inbound_transaction_ok show ?thesis by blast
qed

lemma persist_all_ok: "persist_all env sender disp names ms d = (e, ns, d') \<Longrightarrow> inbound_ok d \<Longrightarrow> inbound_ok d'"
proof (induction ms arbitrary: d e ns)
  case (Cons m ms)
  then show ?case using persist_ok by (fastforce split: sum.splits prod.splits)
qed simp

lemma process_value_ok: "process_value env v d = (e, ns, d') \<Longrightarrow> inbound_ok d \<Longrightarrow> inbound_ok d'"
  by (auto simp: process_value_def Let_def split: if_splits option.splits sum.splits intro: persist_all_ok)

lemma process_values_ok: "process_values env vs d = (e, ns, d') \<Longrightarrow> inbound_ok d \<Longrightarrow> inbound_ok d'"
proof (induction vs arbitrary: d e ns)
  case (Cons v vs)
  then show ?case using process_value_ok by (fastforce split: prod.splits option.splits)
qed simp

section \<open>Properties\<close>

text \<open>
  C32. Redelivery of inbound messages: once a payload has been processed without an error, processing it again, at any later time, changes
  nothing in the database (no message, no contact, no unread count) and sends no notification.
\<close>

theorem inbound_idempotent:
  assumes "InboundMessageService_process env payload d = (None, ns, d')"
  shows "InboundMessageService_process env' payload d' = (None, [], d')"
  using assms process_values_stores process_values_again unfolding InboundMessageService_process_def by blast

text \<open>
  Inbound messages keep the tables consistent, also where a payload fails half way: a contact's service window ends exactly 24
  hours after its last inbound message, contacts are unique per tenant and phone number, provider ids are unique, and the
  conversations satisfy their constraints.
\<close>

theorem inbound_keeps_tables:
  assumes "inbound_ok d" and "InboundMessageService_process env payload d = (e, ns, d')"
  shows "inbound_ok d'"
  using process_values_ok assms unfolding InboundMessageService_process_def by blast

text \<open>One text message for the sender with the provider's phone number id 111.\<close>

definition sample_inbound_payload :: json where
  "sample_inbound_payload = JObj [(''entry'', JArr [JObj [(''changes'', JArr [JObj [(''value'', JObj
     [(''metadata'', JObj [(''phone_number_id'', JStr ''111'')]),
      (''messages'', JArr [JObj [(''id'', JStr ''wamid.9''), (''from'', JStr ''96170123456''), (''type'', JStr ''text'')]])])]])]])]"

definition sample_inbound_env :: inbound_env where
  "sample_inbound_env = \<lparr>ie_dateError = ''invalid date'', ie_ids = (\<lambda>p. (''c1'', ''v1'', ''m9'')), ie_now = 100\<rparr>"

lemma sample_phone: "normalizePhoneNumber ''96170123456'' = Inr ''96170123456''"
  by code_simp

lemma sample_webhook_value:
  "webhook_values sample_inbound_payload = [JObj [(''metadata'', JObj [(''phone_number_id'', JStr ''111'')]),
      (''messages'', JArr [JObj [(''id'', JStr ''wamid.9''), (''from'', JStr ''96170123456''), (''type'', JStr ''text'')]])]]"
  by (simp add: sample_inbound_payload_def webhook_values_def json_items_def change_value_def)

lemma sample_inbound_run:
  "\<exists>ns d'. InboundMessageService_process sample_inbound_env sample_inbound_payload sample_senders_db = (None, ns, d') \<and> length ns = 2 \<and>
     length (messages d') = 1"
proof -
  obtain sender where p: "findByProviderPhoneNumberId sample_senders_db ''111'' = Inr sender"
    by (simp add: findByProviderPhoneNumberId_def sample_senders_db_def sample_sender_def)
  have m: "messages sample_senders_db = []" "contacts sample_senders_db = []" "conversations sample_senders_db = []"
    by (simp_all add: sample_senders_db_def empty_db_def)
  show ?thesis
    by (simp add: InboundMessageService_process_def sample_webhook_value process_value_def extractMessages_def json_items_def
        extract_message_def readString_def p persistInboundMessage_def sample_phone m findByProviderId_def parseTimestamp_def
        sample_inbound_env_def window_end_def SERVICE_WINDOW_MS_def inbound_transaction_def upsert_contact_def contact_by_phone_def
        move_window_def recordInbound_def add_event_def notifications_def inbound_message_def Let_def)
qed

theorem inbound_idempotent_witness:
  "\<exists>ns d'. InboundMessageService_process sample_inbound_env sample_inbound_payload sample_senders_db = (None, ns, d') \<and>
     length (messages d') = 1 \<and> InboundMessageService_process sample_inbound_env sample_inbound_payload d' = (None, [], d')"
proof -
  from sample_inbound_run obtain ns d' where r:
    "InboundMessageService_process sample_inbound_env sample_inbound_payload sample_senders_db = (None, ns, d')" "length (messages d') = 1" by blast
  from inbound_idempotent [OF r(1), of sample_inbound_env] r show ?thesis by blast
qed

theorem inbound_keeps_tables_witness:
  "\<exists>ns d'. InboundMessageService_process sample_inbound_env sample_inbound_payload sample_senders_db = (None, ns, d') \<and> inbound_ok d'"
proof -
  from sample_inbound_run obtain ns d' where r:
    "InboundMessageService_process sample_inbound_env sample_inbound_payload sample_senders_db = (None, ns, d')" by blast
  have "inbound_ok sample_senders_db"
    by (simp add: inbound_ok_def conversations_ok_def sample_senders_db_def empty_db_def List.map_filter_def)
  from inbound_keeps_tables [OF this r] r show ?thesis by blast
qed

end
