(* ===== verification/Webhooks.thy ===== *)
theory Webhooks
  imports Inbound Templates Leases
begin

text \<open>
  src/src/webhooks: receiving a webhook (webhooks.controller.ts), template status changes (template-status-webhook.service.ts), and the processor
  that claims stored webhook events and hands each to the three services (webhook-event-processor.service.ts). The keyed hash, the
  configuration and the ids the database generates are arguments; the timer that starts polls is left out.

  The results: only a body with the right signature is stored; a poll leaves each event it claimed either processed or
  released and due again after a bounded delay, and never both; no event is worked on by two processors.
\<close>

section \<open>Receiving\<close>

record webhook_config =
  wc_verifyToken :: "string option"
  wc_appSecret :: "string option"
  wc_hmac :: "string \<Rightarrow> buffer \<Rightarrow> string"

definition verify :: "webhook_config \<Rightarrow> string option \<Rightarrow> string option \<Rightarrow> 'c \<Rightarrow> error + 'c" where
  "verify cfg mode verifyToken challenge =
     (if mode \<noteq> Some ''subscribe'' \<or> wc_verifyToken cfg = None \<or> wc_verifyToken cfg = Some [] \<or> verifyToken \<noteq> wc_verifyToken cfg
      then Inl (Unauthorized ''Webhook verification failed'') else Inr challenge)"

definition verifySignature :: "webhook_config \<Rightarrow> buffer option \<Rightarrow> string option \<Rightarrow> error + unit" where
  "verifySignature cfg rawBody signature =
     (case (wc_appSecret cfg, rawBody, signature) of
        (Some secret, Some body, Some s) \<Rightarrow>
          if secret = [] \<or> take 7 s \<noteq> ''sha256='' then Inl (Unauthorized ''Missing webhook signature configuration'')
          else if s \<noteq> ''sha256='' @ wc_hmac cfg secret body then Inl (Unauthorized ''Invalid webhook signature'') else Inr ()
      | _ \<Rightarrow> Inl (Unauthorized ''Missing webhook signature configuration''))"

definition receive :: "webhook_config \<Rightarrow> buffer option \<Rightarrow> string option \<Rightarrow> json \<Rightarrow> uuid \<Rightarrow> time \<Rightarrow> db \<Rightarrow> error + db" where
  "receive cfg rawBody signature payload newId now d =
     bindE (verifySignature cfg rawBody signature) (\<lambda>_.
       Inr (d\<lparr>webhookEvents := webhookEvents d @ [\<lparr>w_id = newId, w_payload = payload, w_processed = False, w_attemptCount = 0,
         w_nextAttemptAt = now, w_processingLeaseUntil = None, w_lastError = None, w_receivedAt = now, w_processedAt = None\<rparr>]\<rparr>))"

section \<open>Template status changes\<close>

fun asString :: "json option \<Rightarrow> string option" where
  "asString (Some (JStr s)) = (if length s > 0 then Some s else None)"
| "asString (Some (JNum n)) = Some n"
| "asString _ = None"

definition extract_update :: "string \<Rightarrow> json \<Rightarrow> (string \<times> ProviderTemplateStatusUpdate) list" where
  "extract_update wabaId change =
     (if json_get change ''field'' \<noteq> Some (JStr ''message_template_status_update'') then []
      else concat (map (\<lambda>raw.
        case (asString (json_get raw ''message_template_id''), asString (json_get raw ''message_template_name''),
              asString (json_get raw ''message_template_language''), asString (json_get raw ''event'')) of
          (Some providerTemplateId, Some name, Some language, Some status) \<Rightarrow>
            [(wabaId, \<lparr>pu_providerTemplateId = providerTemplateId, pu_name = name, pu_language = language, pu_status = js_upper status,
               pu_rejectionReason = (case json_get raw ''reason'' of Some (JStr r) \<Rightarrow> Some r | _ \<Rightarrow> None), pu_raw = raw\<rparr>)]
        | _ \<Rightarrow> []) (change_value change)))"

definition extractUpdates :: "json \<Rightarrow> (string \<times> ProviderTemplateStatusUpdate) list" where
  "extractUpdates payload =
     concat (map (\<lambda>entry. case asString (json_get entry ''id'') of
        None \<Rightarrow> []
      | Some wabaId \<Rightarrow> concat (map (extract_update wabaId) (json_items entry ''changes''))) (json_items payload ''entry''))"

fun apply_updates :: "(string \<Rightarrow> uuid) \<Rightarrow> time \<Rightarrow> (string \<times> ProviderTemplateStatusUpdate) list \<Rightarrow> db \<Rightarrow> error option \<times> db" where
  "apply_updates newId now [] d = (None, d)"
| "apply_updates newId now ((wabaId, u) # us) d =
     (case bindE (findTenantIdByWabaId d wabaId) (\<lambda>tenantId. applyProviderStatusUpdate d tenantId wabaId u (newId (pu_providerTemplateId u)) now) of
        Inl e \<Rightarrow> (Some e, d)
      | Inr d' \<Rightarrow> apply_updates newId now us d')"

definition TemplateStatusWebhook_process :: "(string \<Rightarrow> uuid) \<Rightarrow> time \<Rightarrow> json \<Rightarrow> db \<Rightarrow> error option \<times> db" where
  "TemplateStatusWebhook_process newId now payload d = apply_updates newId now (extractUpdates payload) d"

section \<open>The processor\<close>

definition webhook_ready :: "time \<Rightarrow> webhook_event_row \<Rightarrow> bool" where
  "webhook_ready now w \<longleftrightarrow> \<not> w_processed w \<and> w_nextAttemptAt w \<le> now \<and>
     (case w_processingLeaseUntil w of None \<Rightarrow> True | Some t \<Rightarrow> t \<le> now)"

definition webhook_lease :: "time \<Rightarrow> webhook_event_row \<Rightarrow> webhook_event_row" where
  "webhook_lease leaseUntil w = w\<lparr>w_processingLeaseUntil := Some leaseUntil, w_attemptCount := w_attemptCount w + 1\<rparr>"

definition claim_webhooks :: "webhook_event_row list \<Rightarrow> uuid list \<Rightarrow> nat \<Rightarrow> time \<Rightarrow> time \<Rightarrow> webhook_event_row list \<times> webhook_event_row list" where
  "claim_webhooks rows locked n now leaseUntil = claim_rows w_id (webhook_ready now) w_receivedAt (webhook_lease leaseUntil) n locked rows"

interpretation webhook_queue: lease_queue w_id webhook_ready webhook_lease claim_webhooks w_receivedAt "\<lambda>until now. now < until"
  by unfold_locales (auto simp: claim_webhooks_def webhook_lease_def webhook_ready_def)

definition WebhookProcessor_claimEvents :: "db \<Rightarrow> uuid list \<Rightarrow> nat \<Rightarrow> nat \<Rightarrow> time \<Rightarrow> webhook_event_row list \<times> db" where
  "WebhookProcessor_claimEvents d locked batchSize leaseMs now =
     (case claim_webhooks (webhookEvents d) locked batchSize now (now + max 5000 leaseMs) of (evs, rows) \<Rightarrow> (evs, d\<lparr>webhookEvents := rows\<rparr>))"

record processor_env =
  pr_inbound :: inbound_env
  pr_templateIds :: "string \<Rightarrow> uuid"

definition process_services :: "processor_env \<Rightarrow> webhook_event_row \<Rightarrow> db \<Rightarrow> error option \<times> notification list \<times> db" where
  "process_services env ev d =
     (let now = ie_now (pr_inbound env) in
      case InboundMessageService_process (pr_inbound env) (w_payload ev) d of
        (Some e, ns, d1) \<Rightarrow> (Some e, ns, d1)
      | (None, ns, d1) \<Rightarrow>
          (case TemplateStatusWebhook_process (pr_templateIds env) now (w_payload ev) d1 of
             (Some e, d2) \<Rightarrow> (Some e, ns, d2)
           | (None, d2) \<Rightarrow>
               (case processWebhookEvent (ie_dateError (pr_inbound env)) (w_id ev) (w_payload ev) now d2 of (e, d3) \<Rightarrow> (e, ns, d3))))"

definition failed_event :: "string \<Rightarrow> nat \<Rightarrow> time \<Rightarrow> webhook_event_row \<Rightarrow> webhook_event_row" where
  "failed_event message attemptCount now w =
     w\<lparr>w_lastError := Some (take 2000 message), w_nextAttemptAt := now + retryDelayMs attemptCount, w_processingLeaseUntil := None\<rparr>"

definition process_event :: "processor_env \<Rightarrow> webhook_event_row \<Rightarrow> db \<Rightarrow> notification list \<times> db" where
  "process_event env ev d =
     (case process_services env ev d of
        (None, ns, d') \<Rightarrow> (ns, d')
      | (Some e, ns, d') \<Rightarrow>
          (ns, d'\<lparr>webhookEvents := updateWebhookEvent (w_id ev)
             (failed_event (error_message e) (w_attemptCount ev) (ie_now (pr_inbound env))) (webhookEvents d')\<rparr>))"

fun process_batch :: "processor_env \<Rightarrow> webhook_event_row list \<Rightarrow> db \<Rightarrow> notification list \<times> db" where
  "process_batch env [] d = ([], d)"
| "process_batch env (ev # evs) d =
     (case process_event env ev d of (ns, d') \<Rightarrow> (case process_batch env evs d' of (ns', d'') \<Rightarrow> (ns @ ns', d'')))"

definition processPending :: "processor_env \<Rightarrow> uuid list \<Rightarrow> nat \<Rightarrow> nat \<Rightarrow> db \<Rightarrow> webhook_event_row list \<times> notification list \<times> db" where
  "processPending env locked batchSize leaseMs d =
     (case WebhookProcessor_claimEvents d locked (max 1 batchSize) leaseMs (ie_now (pr_inbound env)) of
        (events, d1) \<Rightarrow> (case process_batch env events d1 of (ns, d2) \<Rightarrow> (events, ns, d2)))"

section \<open>The services leave the event table alone\<close>

lemma inbound_transaction_events: "webhookEvents (snd (inbound_transaction env t s disp nm fr m x w d)) = webhookEvents d"
  by (auto simp: inbound_transaction_def upsert_contact_def move_window_def recordInbound_def add_event_def Let_def split: prod.splits option.splits)

lemma persist_events: "persistInboundMessage env seen t s disp nm m d = Inr (ns, d') \<Longrightarrow> webhookEvents d' = webhookEvents d"
proof -
  assume p: "persistInboundMessage env seen t s disp nm m d = Inr (ns, d')"
  then have "d' = d \<or> (\<exists>fr x w. d' = snd (inbound_transaction env t s disp nm fr m x w d))"
    by (auto simp: persistInboundMessage_def bindE_Inr Let_def split: if_splits date.splits prod.splits) (metis snd_conv)+
  then show ?thesis using inbound_transaction_events by auto
qed

lemma persist_all_events: "persist_all env sender disp names ms d = (e, ns, d') \<Longrightarrow> webhookEvents d' = webhookEvents d"
proof (induction ms arbitrary: d e ns)
  case (Cons m ms)
  then show ?case using persist_events by (fastforce split: sum.splits prod.splits)
qed simp

lemma process_value_events: "process_value env v d = (e, ns, d') \<Longrightarrow> webhookEvents d' = webhookEvents d"
  by (auto simp: process_value_def Let_def split: if_splits option.splits sum.splits intro: persist_all_events)

lemma process_values_events: "process_values env vs d = (e, ns, d') \<Longrightarrow> webhookEvents d' = webhookEvents d"
proof (induction vs arbitrary: d e ns)
  case (Cons v vs)
  then show ?case using process_value_events by (fastforce split: prod.splits option.splits)
qed simp

lemma applyProviderStatusUpdate_events: "applyProviderStatusUpdate d t w u k now = Inr d' \<Longrightarrow> webhookEvents d' = webhookEvents d"
  by (auto simp: applyProviderStatusUpdate_def Let_def split: option.splits if_splits)

lemma apply_updates_events: "apply_updates newId now us d = (e, d') \<Longrightarrow> webhookEvents d' = webhookEvents d"
proof (induction us arbitrary: d)
  case (Cons u us)
  obtain w p where u: "u = (w, p)" by fastforce
  from Cons.prems u show ?case
    using Cons.IH applyProviderStatusUpdate_events by (fastforce simp: bindE_Inr split: sum.splits)
qed simp

lemma applyStatus_events: "applyStatus de s now d = Inr d' \<Longrightarrow> webhookEvents d' = webhookEvents d"
  by (auto simp: applyStatus_def add_event_def Let_def split: option.splits date.splits if_splits)

lemma apply_statuses_events: "apply_statuses de now ss d = (e, d') \<Longrightarrow> webhookEvents d' = webhookEvents d"
proof (induction ss arbitrary: d)
  case (Cons s ss)
  then show ?case using applyStatus_events by (fastforce split: sum.splits)
qed simp

lemmas service_events = process_values_events apply_updates_events apply_statuses_events

text \<open>What the services do to the table: nothing on an error, and the mark otherwise.\<close>

lemma process_services_events:
  assumes "process_services env ev d = (e, ns, d')"
  shows "webhookEvents d' = (case e of Some _ \<Rightarrow> webhookEvents d
    | None \<Rightarrow> updateWebhookEvent (w_id ev) (processed_event (ie_now (pr_inbound env))) (webhookEvents d))"
  using assms
  by (auto simp: process_services_def InboundMessageService_process_def TemplateStatusWebhook_process_def processWebhookEvent_def Let_def
      split: prod.splits option.splits dest!: service_events)

definition settled_event :: "time \<Rightarrow> webhook_event_row \<Rightarrow> bool" where
  "settled_event now w \<longleftrightarrow> w_processingLeaseUntil w = None \<and>
     (w_processed w \<and> w_processedAt w = Some now \<and> w_lastError w = None \<or>
      \<not> w_processed w \<and> w_lastError w \<noteq> None \<and> now + 1000 \<le> w_nextAttemptAt w \<and> w_nextAttemptAt w \<le> now + 60000)"

lemma event_ids [simp]: "w_id (processed_event now w) = w_id w" "w_id (failed_event msg a now w) = w_id w"
  by (simp_all add: processed_event_def failed_event_def)

lemma process_event_effect:
  assumes "process_event env ev d = (ns, d')"
  shows "map w_id (webhookEvents d') = map w_id (webhookEvents d)"
    and "k \<noteq> w_id ev \<Longrightarrow> findWebhookEvent k (webhookEvents d') = findWebhookEvent k (webhookEvents d)"
    and "findWebhookEvent (w_id ev) (webhookEvents d) = Some w \<Longrightarrow> \<not> w_processed w \<Longrightarrow>
      \<exists>w'. findWebhookEvent (w_id ev) (webhookEvents d') = Some w' \<and> settled_event (ie_now (pr_inbound env)) w'"
proof -
  obtain e ns0 d0 where s: "process_services env ev d = (e, ns0, d0)" by (metis surj_pair)
  define f where "f = (case e of None \<Rightarrow> processed_event (ie_now (pr_inbound env))
    | Some x \<Rightarrow> failed_event (error_message x) (w_attemptCount ev) (ie_now (pr_inbound env)))"
  have rows: "webhookEvents d' = updateWebhookEvent (w_id ev) f (webhookEvents d)"
    using assms s process_services_events [OF s] by (auto simp: process_event_def f_def split: option.splits)
  have key: "w_id (f w) = w_id w" for w by (simp add: f_def split: option.splits)
  show "map w_id (webhookEvents d') = map w_id (webhookEvents d)" by (simp add: rows webhook_table.keys_modify key)
  show "k \<noteq> w_id ev \<Longrightarrow> findWebhookEvent k (webhookEvents d') = findWebhookEvent k (webhookEvents d)"
    by (simp add: rows webhook_table.fetch_modify key)
  assume "findWebhookEvent (w_id ev) (webhookEvents d) = Some w" and "\<not> w_processed w"
  then show "\<exists>w'. findWebhookEvent (w_id ev) (webhookEvents d') = Some w' \<and> settled_event (ie_now (pr_inbound env)) w'"
    using retryDelayMs_bounds [of "w_attemptCount ev"]
    by (simp add: rows webhook_table.fetch_modify key settled_event_def f_def processed_event_def failed_event_def split: option.splits)
qed

lemma process_batch_settles:
  "process_batch env evs d = (ns, d') \<Longrightarrow> distinct (map w_id evs) \<Longrightarrow>
     (\<And>ev. ev \<in> set evs \<Longrightarrow> \<exists>w. findWebhookEvent (w_id ev) (webhookEvents d) = Some w \<and> \<not> w_processed w) \<Longrightarrow>
     (\<forall>ev \<in> set evs. \<exists>w. findWebhookEvent (w_id ev) (webhookEvents d') = Some w \<and> settled_event (ie_now (pr_inbound env)) w) \<and>
     (\<forall>k. k \<notin> w_id ` set evs \<longrightarrow> findWebhookEvent k (webhookEvents d') = findWebhookEvent k (webhookEvents d))"
proof (induction evs arbitrary: d ns)
  case Nil
  then show ?case by simp
next
  case (Cons ev evs)
  from Cons.prems(1) obtain ns1 d1 ns2 where s: "process_event env ev d = (ns1, d1)" "process_batch env evs d1 = (ns2, d')"
    by (auto split: prod.splits)
  note eff = process_event_effect [OF s(1)]
  have free: "w_id x \<noteq> w_id ev" if "x \<in> set evs" for x using Cons.prems(2) imageI [OF that, of w_id] by auto
  have "\<exists>w. findWebhookEvent (w_id x) (webhookEvents d1) = Some w \<and> \<not> w_processed w" if "x \<in> set evs" for x
    using Cons.prems(3) [of x] that eff(2) [OF free [OF that]] by auto
  from Cons.IH [OF s(2) _ this] Cons.prems(2) have ih:
    "\<forall>x \<in> set evs. \<exists>w. findWebhookEvent (w_id x) (webhookEvents d') = Some w \<and> settled_event (ie_now (pr_inbound env)) w"
    "\<forall>k. k \<notin> w_id ` set evs \<longrightarrow> findWebhookEvent k (webhookEvents d') = findWebhookEvent k (webhookEvents d1)" by auto
  have "w_id ev \<notin> w_id ` set evs" using Cons.prems(2) by auto
  with ih(2) have "findWebhookEvent (w_id ev) (webhookEvents d') = findWebhookEvent (w_id ev) (webhookEvents d1)" by blast
  with eff(3) Cons.prems(3) [of ev] have "\<exists>w. findWebhookEvent (w_id ev) (webhookEvents d') = Some w \<and> settled_event (ie_now (pr_inbound env)) w" by auto
  with ih eff(2) show ?case by auto
qed

section \<open>Properties\<close>

text \<open>
  C34. A poll of the webhook processor: it claims as many of the due events as its batch allows, and leaves every claimed event without a
  lease and either processed without an error, or unprocessed with the error and due again after one to sixty seconds, whatever
  the payloads hold; the events it did not claim are untouched.
\<close>

theorem poll_settles_claimed:
  assumes "distinct (map w_id (webhookEvents d))" and "processPending env locked n leaseMs d = (evs, ns, d')"
  shows "length evs = min (max 1 n) (countWhere (\<lambda>w. webhook_ready (ie_now (pr_inbound env)) w \<and> w_id w \<notin> set locked) (webhookEvents d)) \<and>
    list_all (\<lambda>ev. \<exists>w. findWebhookEvent (w_id ev) (webhookEvents d') = Some w \<and> settled_event (ie_now (pr_inbound env)) w) evs \<and>
    (\<forall>k. k \<notin> w_id ` set evs \<longrightarrow> findWebhookEvent k (webhookEvents d') = findWebhookEvent k (webhookEvents d))"
proof -
  let ?now = "ie_now (pr_inbound env)" and ?u = "ie_now (pr_inbound env) + max 5000 leaseMs"
  from assms(2) obtain rows where c: "claim_webhooks (webhookEvents d) locked (max 1 n) ?now ?u = (evs, rows)"
    and b: "process_batch env evs (d\<lparr>webhookEvents := rows\<rparr>) = (ns, d')"
    by (auto simp: processPending_def WebhookProcessor_claimEvents_def split: prod.splits)
  let ?hit = "\<lambda>r. w_id r \<in> set (claim_batch w_id (webhook_ready ?now) w_receivedAt (max 1 n) locked (webhookEvents d))"
  have evs: "evs = map (webhook_lease ?u) (filter ?hit (webhookEvents d))" and rows: "rows = updateMany ?hit (webhook_lease ?u) (webhookEvents d)"
    using c by (auto simp: claim_webhooks_def claim_rows_def Let_def)
  have lid: "w_id (webhook_lease ?u r) = w_id r" for r by (simp add: webhook_lease_def)
  have dr: "distinct (map w_id rows)" using webhook_queue.claim_keys [OF c] assms(1) by simp
  have de: "distinct (map w_id evs)" using assms(1) by (simp add: evs comp_def lid distinct_map_filter)
  have open': "\<exists>w. findWebhookEvent (w_id ev) (webhookEvents (d\<lparr>webhookEvents := rows\<rparr>)) = Some w \<and> \<not> w_processed w" if "ev \<in> set evs" for ev
  proof -
    from webhook_queue.claimed_ready [OF assms(1) c that] obtain r where r: "ev = webhook_lease ?u r" "webhook_ready ?now r" "ev \<in> set rows" by blast
    with webhook_table.fetch_unique [OF dr r(3)] show ?thesis by (auto simp: webhook_ready_def webhook_lease_def)
  qed
  have others: "findWebhookEvent k rows = findWebhookEvent k (webhookEvents d)" if "k \<notin> w_id ` set evs" for k
  proof -
    have "\<not> ?hit r" if "r \<in> set (webhookEvents d)" "w_id r = k" for r
      using \<open>k \<notin> w_id ` set evs\<close> that by (auto simp: evs lid image_image)
    then show ?thesis unfolding rows by (intro webhook_table.fetch_updateMany_other) (simp_all add: lid)
  qed
  from process_batch_settles [OF b de open'] others webhook_queue.claim_count [OF assms(1) c] show ?thesis
    by (auto simp: list_all_iff)
qed

text \<open>
  \<open>receive\<close>: an event is stored exactly when the secret is configured and the signature header is the keyed hash of the raw body.
\<close>

theorem receive_iff:
  "(\<exists>d'. receive cfg rawBody signature payload newId now d = Inr d') \<longleftrightarrow>
     (\<exists>secret body. wc_appSecret cfg = Some secret \<and> secret \<noteq> [] \<and> rawBody = Some body \<and>
        signature = Some (''sha256='' @ wc_hmac cfg secret body))"
  by (auto simp: receive_def verifySignature_def split: option.splits if_splits)

text \<open>One stored inbound message.\<close>

definition sample_processor_env :: processor_env where
  "sample_processor_env = \<lparr>pr_inbound = sample_inbound_env, pr_templateIds = (\<lambda>p. ''p1'')\<rparr>"

definition sample_webhook_event :: webhook_event_row where
  "sample_webhook_event = \<lparr>w_id = ''e1'', w_payload = sample_inbound_payload, w_processed = False, w_attemptCount = 0, w_nextAttemptAt = 50,
     w_processingLeaseUntil = None, w_lastError = None, w_receivedAt = 50, w_processedAt = None\<rparr>"

definition sample_webhook_db :: db where
  "sample_webhook_db = sample_senders_db\<lparr>webhookEvents := [sample_webhook_event]\<rparr>"

theorem poll_settles_claimed_witness:
  "\<exists>w. findWebhookEvent ''e1'' (webhookEvents (snd (snd (processPending sample_processor_env [] 50 30000 sample_webhook_db)))) = Some w \<and>
     settled_event 100 w"
proof -
  have now: "ie_now (pr_inbound sample_processor_env) = 100" by (simp add: sample_processor_env_def sample_inbound_env_def)
  have rows: "webhookEvents sample_webhook_db = [sample_webhook_event]" by (simp add: sample_webhook_db_def)
  have dist: "distinct (map w_id (webhookEvents sample_webhook_db))" by (simp add: rows)
  obtain evs ns d' where p: "processPending sample_processor_env [] 50 30000 sample_webhook_db = (evs, ns, d')" by (metis surj_pair)
  note res = poll_settles_claimed [OF dist p]
  have "webhook_ready 100 sample_webhook_event" by (simp add: webhook_ready_def sample_webhook_event_def)
  with res have "length evs = 1" by (simp add: now rows countWhere_def)
  then obtain ev where ev: "evs = [ev]" by (auto simp: length_Suc_conv)
  from p ev have "ev = webhook_lease (100 + max 5000 30000) sample_webhook_event"
    by (auto simp: processPending_def WebhookProcessor_claimEvents_def claim_webhooks_def claim_rows_def rows now Let_def split: prod.splits if_splits)
  then have "w_id ev = ''e1''" by (simp add: webhook_lease_def sample_webhook_event_def)
  with res ev p now show ?thesis by simp
qed

end
