(* ===== verification/Segments.thy ===== *)
theory Segments
  imports Contacts Templates
begin

text \<open>
  src/src/segments: saved contact segments (segments.service.ts) and their definitions (segment-definition.util.ts). A
  definition is normalised before it is stored and normalised again each time it is read; a campaign copies it.
  The checks of a request and its transaction see two database states; a violation of a unique index is an error of
  the database client. A null where the code calls a string method is a TypeError.

  The results: a normalised definition is read back unchanged, so that every stored segment can be used; names are unique per
  tenant; and the filter of a segment selects opted-in contacts of its tenant only.
\<close>

section \<open>Definitions of segments\<close>

record SegmentDefinitionInput =
  si_language :: "string field"
  si_tagsAny :: "string list field"
  si_tagsAll :: "string list field"

record NormalizedSegmentDefinition =
  sd_language :: "string option"
  sd_tagsAny :: "string list option"
  sd_tagsAll :: "string list option"

definition MAX_TAGS_PER_FILTER :: nat where "MAX_TAGS_PER_FILTER = 50"

definition MAX_LANGUAGE_LENGTH :: nat where "MAX_LANGUAGE_LENGTH = 20"

definition tag_start_char :: "char \<Rightarrow> bool" where
  "tag_start_char c \<longleftrightarrow> (let n = of_char c :: nat in 65 \<le> n \<and> n \<le> 90 \<or> 97 \<le> n \<and> n \<le> 122 \<or> 48 \<le> n \<and> n \<le> 57)"

definition tag_char :: "char \<Rightarrow> bool" where
  "tag_char c \<longleftrightarrow> tag_start_char c \<or> c = CHR '':'' \<or> c = CHR ''_'' \<or> c = CHR ''-''"

text \<open>\<open>/^[A-Za-z0-9][A-Za-z0-9:_-]{0,63}$/\<close>\<close>

definition TAG_PATTERN :: "string \<Rightarrow> bool" where
  "TAG_PATTERN s \<longleftrightarrow> (case s of [] \<Rightarrow> False | c # r \<Rightarrow> tag_start_char c \<and> length r \<le> 63 \<and> list_all tag_char r)"

text \<open>An error is the message of the \<open>SegmentDefinitionError\<close>.\<close>

definition segment_normalizeTags :: "string list field \<Rightarrow> string \<Rightarrow> string + string list" where
  "segment_normalizeTags tags field =
     (case tags of
        Val ts \<Rightarrow>
          if length ts > MAX_TAGS_PER_FILTER
          then Inl (field @ '' cannot contain more than '' @ nat_string MAX_TAGS_PER_FILTER @ '' tags'')
          else (let normalized = filter (\<lambda>t. t \<noteq> []) (js_set (map (\<lambda>tag. js_lower (js_trim tag)) ts))
                in case List.find (\<lambda>t. \<not> TAG_PATTERN t) normalized of
                     Some tag \<Rightarrow> Inl (''Invalid segment tag '' @ [CHR 0x27] @ tag @ [CHR 0x27])
                   | None \<Rightarrow> Inr (sort normalized))
      | _ \<Rightarrow> Inr [])"

definition normalizeSegmentDefinition :: "SegmentDefinitionInput option \<Rightarrow> string + NormalizedSegmentDefinition" where
  "normalizeSegmentDefinition input =
     (case input of
        None \<Rightarrow> Inl ''Segment definition is required''
      | Some i \<Rightarrow>
          let language = (case si_language i of Val l \<Rightarrow> js_trim l | _ \<Rightarrow> [])
          in if language \<noteq> [] \<and> length language > MAX_LANGUAGE_LENGTH
             then Inl (''Segment language must be at most '' @ nat_string MAX_LANGUAGE_LENGTH @ '' characters'')
             else bindE (segment_normalizeTags (si_tagsAny i) ''tagsAny'') (\<lambda>tagsAny.
                  bindE (segment_normalizeTags (si_tagsAll i) ''tagsAll'') (\<lambda>tagsAll.
                  if language = [] \<and> tagsAny = [] \<and> tagsAll = []
                  then Inl ''Saved segment requires at least one criterion: language, tagsAny, or tagsAll''
                  else Inr \<lparr>sd_language = nonempty language, sd_tagsAny = nonempty tagsAny, sd_tagsAll = nonempty tagsAll\<rparr>)))"

definition definition_json :: "NormalizedSegmentDefinition \<Rightarrow> (string \<times> json) list" where
  "definition_json sd =
     (case sd_language sd of None \<Rightarrow> [] | Some l \<Rightarrow> [(''language'', JStr l)]) @
     (case sd_tagsAny sd of None \<Rightarrow> [] | Some ts \<Rightarrow> [(''tagsAny'', JArr (map JStr ts))]) @
     (case sd_tagsAll sd of None \<Rightarrow> [] | Some ts \<Rightarrow> [(''tagsAll'', JArr (map JStr ts))])"

text \<open>\<open>filter((item) => typeof item === "string")\<close>\<close>

fun json_strings :: "json list \<Rightarrow> string list" where
  "json_strings (JStr s # vs) = s # json_strings vs"
| "json_strings (v # vs) = json_strings vs"
| "json_strings [] = []"

definition readPersistedSegmentDefinition :: "json \<Rightarrow> string + NormalizedSegmentDefinition" where
  "readPersistedSegmentDefinition v =
     (if \<not> is_plain_object v then Inl ''Persisted segment definition is invalid''
      else let tags = (\<lambda>k. case json_get v k of Some (JArr items) \<Rightarrow> Val (json_strings items) | _ \<Rightarrow> Undefined)
           in normalizeSegmentDefinition (Some
                \<lparr>si_language = (case json_get v ''language'' of Some (JStr l) \<Rightarrow> Val l | _ \<Rightarrow> Undefined),
                 si_tagsAny = tags ''tagsAny'', si_tagsAll = tags ''tagsAll''\<rparr>))"

text \<open>The \<open>where\<close> clause over contacts. \<open>hasSome\<close> and \<open>hasEvery\<close> are Prisma's list filters.\<close>

definition tags_match :: "string list option \<Rightarrow> string list option \<Rightarrow> contact_row \<Rightarrow> bool" where
  "tags_match tagsAny tagsAll c \<longleftrightarrow>
     (case tagsAny of None \<Rightarrow> True | Some ts \<Rightarrow> list_ex (\<lambda>t. List.member (c_tags c) t) ts) \<and>
     (case tagsAll of None \<Rightarrow> True | Some ts \<Rightarrow> list_all (\<lambda>t. List.member (c_tags c) t) ts)"

definition language_matches :: "string option \<Rightarrow> contact_row \<Rightarrow> bool" where
  "language_matches language c \<longleftrightarrow> (case language of None \<Rightarrow> True | Some l \<Rightarrow> l = [] \<or> c_language c = Some l)"

definition segmentContactWhere :: "uuid \<Rightarrow> NormalizedSegmentDefinition \<Rightarrow> contact_row \<Rightarrow> bool" where
  "segmentContactWhere tenantId sd c \<longleftrightarrow>
     c_tenantId c = tenantId \<and> c_consentStatus c = ConsentStatus.OPTED_IN \<and> language_matches (sd_language sd) c \<and>
     tags_match (sd_tagsAny sd) (sd_tagsAll sd) c"

section \<open>The service\<close>

record create_segment_dto =
  gc_name :: string
  gc_description :: "string field"
  gc_definition :: SegmentDefinitionInput

record update_segment_dto =
  gu_name :: "string field"
  gu_description :: "string field"
  gu_definition :: "SegmentDefinitionInput field"
  gu_active :: "bool field"

definition normalizeName :: "string \<Rightarrow> error + string" where
  "normalizeName v =
     (let name = js_trim v in if name = [] then Inl (BadRequest ''Segment name must contain non-whitespace characters'') else Inr name)"

definition normalizeDefinition :: "SegmentDefinitionInput option \<Rightarrow> error + NormalizedSegmentDefinition" where
  "normalizeDefinition input = (case normalizeSegmentDefinition input of Inl m \<Rightarrow> Inl (BadRequest m) | Inr sd \<Rightarrow> Inr sd)"

definition readDefinition :: "json \<Rightarrow> error + NormalizedSegmentDefinition" where
  "readDefinition v = (case readPersistedSegmentDefinition v of Inl m \<Rightarrow> Inl (Unprocessable m) | Inr sd \<Rightarrow> Inr sd)"

definition assertNameAvailable :: "db \<Rightarrow> uuid \<Rightarrow> string \<Rightarrow> uuid option \<Rightarrow> error + unit" where
  "assertNameAvailable d tenantId name excludingId =
     throwIf (findFirst (\<lambda>g. g_tenantId g = tenantId \<and> g_name g = name \<and>
         (case excludingId of None \<Rightarrow> True | Some k \<Rightarrow> k = [] \<or> g_id g \<noteq> k)) (segments d) \<noteq> None)
       (Conflict ''A contact segment with this name already exists for the tenant'')"

definition definitionSummary :: "NormalizedSegmentDefinition \<Rightarrow> json" where
  "definitionSummary sd =
     (let count = (\<lambda>ts. JNum (nat_string (case ts of None \<Rightarrow> 0 | Some xs \<Rightarrow> length xs)))
      in JObj [(''languageConfigured'', JBool (sd_language sd \<noteq> None \<and> sd_language sd \<noteq> Some [])),
           (''tagsAnyCount'', count (sd_tagsAny sd)), (''tagsAllCount'', count (sd_tagsAll sd))])"

text \<open>The unique columns of the table: the id, and the name per tenant.\<close>

definition segments_unique :: "segment_row list \<Rightarrow> bool" where
  "segments_unique rows \<longleftrightarrow> distinct (map g_id rows) \<and> distinct (map (\<lambda>g. (g_tenantId g, g_name g)) rows)"

definition SegmentsService_create ::
  "db \<Rightarrow> db \<Rightarrow> uuid + ApiPrincipal \<Rightarrow> create_segment_dto \<Rightarrow> AuditRequestContext option \<Rightarrow> uuid \<Rightarrow> time \<Rightarrow> error + segment_row \<times> db" where
  "SegmentsService_create d d' who dto ctx newId now =
     (let actor = mutationActor who; tenantId = ma_tenantId actor
      in bindE (normalizeName (gc_name dto)) (\<lambda>name.
         bindE (assertNameAvailable d tenantId name None) (\<lambda>_.
         bindE (normalizeDefinition (Some (gc_definition dto))) (\<lambda>sd.
           let created = \<lparr>g_id = newId, g_tenantId = tenantId, g_name = name,
                 g_description = (case gc_description dto of Val s \<Rightarrow> nonempty (js_trim s) | _ \<Rightarrow> None),
                 g_definition = JObj (definition_json sd), g_active = True, g_createdAt = now, g_updatedAt = now\<rparr>;
               audit = auditLogData actor ctx ''contact_segment.created'' ''ContactSegment'' (Some newId)
                 (Some (JObj [(''name'', JStr name), (''active'', JBool True), (''criteria'', definitionSummary sd)]))
           in if segments_unique (segments d' @ [created])
              then Inr (created, add_audit audit (d'\<lparr>segments := segments d' @ [created]\<rparr>)) else Inl UNIQUE_VIOLATION))))"

definition SegmentsService_findById :: "db \<Rightarrow> uuid \<Rightarrow> uuid \<Rightarrow> error + segment_row" where
  "SegmentsService_findById d tenantId k =
     (case findFirst (\<lambda>g. g_id g = k \<and> g_tenantId g = tenantId) (segments d) of
        None \<Rightarrow> Inl (NotFound ''Contact segment not found'') | Some g \<Rightarrow> Inr g)"

definition updated_segment_audit ::
  "MutationActor \<Rightarrow> AuditRequestContext option \<Rightarrow> update_segment_dto \<Rightarrow> segment_row \<Rightarrow> NormalizedSegmentDefinition \<Rightarrow> audit_row option" where
  "updated_segment_audit actor ctx dto updated effective =
     auditLogData actor ctx ''contact_segment.updated'' ''ContactSegment'' (Some (g_id updated))
       (Some (JObj [(''name'', JStr (g_name updated)),
         (''changedFields'', JArr (map JStr (changedFields [(''name'', is_defined (gu_name dto)), (''description'', is_defined (gu_description dto)),
            (''definition'', is_defined (gu_definition dto)), (''active'', is_defined (gu_active dto))] (\<lambda>_. None)))),
         (''active'', JBool (g_active updated)), (''definitionChanged'', JBool (is_defined (gu_definition dto))),
         (''criteria'', definitionSummary effective)]))"

definition segment_changes :: "string \<Rightarrow> string option field \<Rightarrow> NormalizedSegmentDefinition option \<Rightarrow> bool field \<Rightarrow> time \<Rightarrow> segment_row \<Rightarrow> segment_row" where
  "segment_changes name description sd active now g =
     g\<lparr>g_name := name, g_description := set_required description (g_description g),
       g_definition := (case sd of None \<Rightarrow> g_definition g | Some s \<Rightarrow> JObj (definition_json s)),
       g_active := set_required active (g_active g), g_updatedAt := now\<rparr>"

text \<open>
  The steps before the transaction: the new name, the definition and the description, where null raises a TypeError.
  Null for \<open>active\<close>, a column that is not nullable, is refused by the database client in the transaction.
\<close>

definition segment_request ::
  "db \<Rightarrow> uuid \<Rightarrow> segment_row \<Rightarrow> update_segment_dto \<Rightarrow> error + string \<times> NormalizedSegmentDefinition option" where
  "segment_request d tenantId existing dto =
     bindE (case gu_name dto of Undefined \<Rightarrow> Inr (g_name existing) | Null \<Rightarrow> Inl TYPE_ERROR | Val v \<Rightarrow> normalizeName v) (\<lambda>name.
     bindE (if name \<noteq> g_name existing then assertNameAvailable d tenantId name (Some (g_id existing)) else Inr ()) (\<lambda>_.
     bindE (case gu_definition dto of
              Undefined \<Rightarrow> Inr None
            | Null \<Rightarrow> bindE (normalizeDefinition None) (\<lambda>s. Inr (Some s))
            | Val i \<Rightarrow> bindE (normalizeDefinition (Some i)) (\<lambda>s. Inr (Some s))) (\<lambda>sd.
     Inr (name, sd))))"

definition description_field :: "string field \<Rightarrow> error + string option field" where
  "description_field v = (case v of Undefined \<Rightarrow> Inr Undefined | Null \<Rightarrow> Inl TYPE_ERROR | Val s \<Rightarrow> Inr (Val (nonempty (js_trim s))))"

definition segment_transaction ::
  "db \<Rightarrow> uuid \<Rightarrow> (segment_row \<Rightarrow> segment_row) \<Rightarrow> NormalizedSegmentDefinition option \<Rightarrow>
   (segment_row \<Rightarrow> NormalizedSegmentDefinition \<Rightarrow> audit_row option) \<Rightarrow> error + segment_row \<times> db" where
  "segment_transaction d' k change sd audit =
     (let rows = updateSegment k change (segments d')
      in case findSegment k rows of
           None \<Rightarrow> Inl (Error ''No record was found for an update'')
         | Some updated \<Rightarrow>
             if \<not> segments_unique rows then Inl UNIQUE_VIOLATION
             else bindE (case sd of Some s \<Rightarrow> Inr s | None \<Rightarrow> readDefinition (g_definition updated)) (\<lambda>effective.
               Inr (updated, add_audit (audit updated effective) (d'\<lparr>segments := rows\<rparr>))))"

definition SegmentsService_update ::
  "db \<Rightarrow> db \<Rightarrow> uuid + ApiPrincipal \<Rightarrow> uuid \<Rightarrow> update_segment_dto \<Rightarrow> AuditRequestContext option \<Rightarrow> time \<Rightarrow> error + segment_row \<times> db" where
  "SegmentsService_update d d' who k dto ctx now =
     (let actor = mutationActor who; tenantId = ma_tenantId actor
      in bindE (SegmentsService_findById d tenantId k) (\<lambda>existing.
         bindE (segment_request d tenantId existing dto) (\<lambda>(name, sd).
         bindE (description_field (gu_description dto)) (\<lambda>description.
         bindE (throwIf (gu_active dto = Null) (Error ''PrismaClientValidationError'')) (\<lambda>_.
         segment_transaction d' k (segment_changes name description sd (gu_active dto) now) sd (updated_segment_audit actor ctx dto))))))"

definition SegmentsService_count :: "db \<Rightarrow> uuid \<Rightarrow> uuid \<Rightarrow> error + uuid \<times> bool \<times> nat" where
  "SegmentsService_count d tenantId k =
     bindE (SegmentsService_findById d tenantId k) (\<lambda>segment.
     bindE (readDefinition (g_definition segment)) (\<lambda>sd.
     Inr (g_id segment, g_active segment, countWhere (segmentContactWhere tenantId sd) (contacts d))))"

record resolved_segment =
  rs_id :: uuid
  rs_name :: string
  rs_updatedAt :: time
  rs_definition :: NormalizedSegmentDefinition

definition resolveActiveForCampaign :: "db \<Rightarrow> uuid \<Rightarrow> uuid \<Rightarrow> error + resolved_segment" where
  "resolveActiveForCampaign d tenantId k =
     (case findFirst (\<lambda>g. g_id g = k \<and> g_tenantId g = tenantId \<and> g_active g) (segments d) of
        None \<Rightarrow> Inl (Unprocessable ''Campaign contact segment was not found or is inactive'')
      | Some g \<Rightarrow> bindE (readDefinition (g_definition g)) (\<lambda>sd.
          Inr \<lparr>rs_id = g_id g, rs_name = g_name g, rs_updatedAt = g_updatedAt g, rs_definition = sd\<rparr>))"

section \<open>Normal definitions\<close>

definition normal_tags :: "string list \<Rightarrow> bool" where
  "normal_tags ts \<longleftrightarrow> ts \<noteq> [] \<and> length ts \<le> MAX_TAGS_PER_FILTER \<and> sorted ts \<and> distinct ts \<and>
     list_all (\<lambda>t. TAG_PATTERN t \<and> js_lower t = t) ts"

definition normal_definition :: "NormalizedSegmentDefinition \<Rightarrow> bool" where
  "normal_definition sd \<longleftrightarrow>
     (sd_language sd \<noteq> None \<or> sd_tagsAny sd \<noteq> None \<or> sd_tagsAll sd \<noteq> None) \<and>
     (case sd_language sd of None \<Rightarrow> True | Some l \<Rightarrow> l \<noteq> [] \<and> length l \<le> MAX_LANGUAGE_LENGTH \<and> js_trim l = l) \<and>
     (case sd_tagsAny sd of None \<Rightarrow> True | Some ts \<Rightarrow> normal_tags ts) \<and>
     (case sd_tagsAll sd of None \<Rightarrow> True | Some ts \<Rightarrow> normal_tags ts)"

lemma js_lower_idem [simp]: "js_lower (js_lower s) = js_lower s"
proof -
  have "lower_char (lower_char c) = lower_char c" for c
  proof -
    have "(of_char c :: nat) < 256" by simp
    then show ?thesis by (auto simp: lower_char_def Let_def)
  qed
  then show ?thesis by (simp add: js_lower_def)
qed

lemma tag_char_not_space: "tag_char c \<Longrightarrow> \<not> js_space c"
  by (auto simp: tag_char_def tag_start_char_def js_space_def Let_def)

lemma TAG_PATTERN_trim: "TAG_PATTERN t \<Longrightarrow> js_trim t = t"
proof -
  assume t: "TAG_PATTERN t"
  then have "list_all tag_char t" "t \<noteq> []" by (auto simp: TAG_PATTERN_def tag_char_def split: list.splits)
  then show ?thesis by (intro js_trim_id) (auto simp: list_all_iff dest: tag_char_not_space)
qed

lemma find_None_all: "List.find p xs = None \<longleftrightarrow> list_all (\<lambda>x. \<not> p x) xs"
  by (auto simp: find_None_iff list_all_iff)

lemma segment_normalizeTags_normal:
  assumes "segment_normalizeTags f l = Inr ts"
  shows "ts = [] \<or> normal_tags ts"
proof -
  have "length (filter (\<lambda>t. t \<noteq> []) (js_set (map (\<lambda>tag. js_lower (js_trim tag)) xs))) \<le> n" if "\<not> n < length xs" for xs n
    using that by (intro order_trans [OF length_filter_le] order_trans [OF length_js_set]) simp
  with assms show ?thesis
    by (auto simp: segment_normalizeTags_def normal_tags_def Let_def find_None_all list_all_iff
        split: field.splits if_splits option.splits)
qed

lemma segment_normalizeTags_again:
  assumes "normal_tags ts"
  shows "segment_normalizeTags (Val ts) l = Inr ts"
proof -
  have "map (\<lambda>tag. js_lower (js_trim tag)) ts = ts"
    using assms by (intro map_idI) (auto simp: normal_tags_def list_all_iff TAG_PATTERN_trim)
  moreover have "filter (\<lambda>t. t \<noteq> []) ts = ts"
    using assms by (auto simp: normal_tags_def list_all_iff TAG_PATTERN_def split: list.splits intro!: filter_True)
  moreover have "List.find (\<lambda>t. \<not> TAG_PATTERN t) ts = None"
    using assms by (auto simp: normal_tags_def find_None_all list_all_iff)
  ultimately show ?thesis
    using assms by (simp add: segment_normalizeTags_def normal_tags_def js_set_id Let_def sorted_sort_id)
qed

lemma normalizeSegmentDefinition_normal:
  assumes "normalizeSegmentDefinition i = Inr sd"
  shows "normal_definition sd"
proof -
  from assms obtain x any all where i: "i = Some x"
    and l: "length (case si_language x of Val l \<Rightarrow> js_trim l | _ \<Rightarrow> []) \<le> MAX_LANGUAGE_LENGTH"
    and a: "segment_normalizeTags (si_tagsAny x) ''tagsAny'' = Inr any" and b: "segment_normalizeTags (si_tagsAll x) ''tagsAll'' = Inr all"
    and n: "\<not> ((case si_language x of Val l \<Rightarrow> js_trim l | _ \<Rightarrow> []) = [] \<and> any = [] \<and> all = [])"
    and sd: "sd = \<lparr>sd_language = nonempty (case si_language x of Val l \<Rightarrow> js_trim l | _ \<Rightarrow> []), sd_tagsAny = nonempty any,
      sd_tagsAll = nonempty all\<rparr>"
    by (auto simp: normalizeSegmentDefinition_def Let_def bindE_Inr split: option.splits if_split_asm)
  have "js_trim (case si_language x of Val l \<Rightarrow> js_trim l | _ \<Rightarrow> []) = (case si_language x of Val l \<Rightarrow> js_trim l | _ \<Rightarrow> [])"
    by (cases "si_language x") (simp_all add: js_trim_def [of "[]"])
  with n l segment_normalizeTags_normal [OF a] segment_normalizeTags_normal [OF b] show ?thesis
    by (auto simp: normal_definition_def sd nonempty_def)
qed

lemma json_strings_map [simp]: "json_strings (map JStr ts) = ts"
  by (induction ts) simp_all

lemma readPersisted_normal:
  assumes "normal_definition sd"
  shows "readPersistedSegmentDefinition (JObj (definition_json sd)) = Inr sd"
proof -
  have l: "json_get (JObj (definition_json sd)) ''language'' = map_option JStr (sd_language sd)"
    and a: "json_get (JObj (definition_json sd)) ''tagsAny'' = map_option (\<lambda>ts. JArr (map JStr ts)) (sd_tagsAny sd)"
    and b: "json_get (JObj (definition_json sd)) ''tagsAll'' = map_option (\<lambda>ts. JArr (map JStr ts)) (sd_tagsAll sd)"
    by (auto simp: definition_json_def split: option.splits)
  have u: "segment_normalizeTags Undefined f = Inr []" for f by (simp add: segment_normalizeTags_def)
  have ne: "normal_tags ts \<Longrightarrow> nonempty ts = Some ts" for ts by (simp add: normal_tags_def nonempty_def)
  have ne': "normal_tags ts \<Longrightarrow> ts \<noteq> []" for ts by (simp add: normal_tags_def)
  show ?thesis
    using assms unfolding normal_definition_def readPersistedSegmentDefinition_def normalizeSegmentDefinition_def Let_def l a b
    by (cases sd) (auto simp: u segment_normalizeTags_again ne ne' nonempty_def split: option.splits)
qed

section \<open>Stored segments\<close>

definition segment_ok :: "segment_row \<Rightarrow> bool" where
  "segment_ok g \<longleftrightarrow> (\<exists>sd. normal_definition sd \<and> g_definition g = JObj (definition_json sd)) \<and> g_name g \<noteq> [] \<and> js_trim (g_name g) = g_name g"

definition segments_ok :: "segment_row list \<Rightarrow> bool" where
  "segments_ok rows \<longleftrightarrow> segments_unique rows \<and> list_all segment_ok rows"

lemma segments_add_audit [simp]: "segments (add_audit a d) = segments d"
  by (simp add: add_audit_def split: option.splits)

lemma normalizeName_Inr: "normalizeName v = Inr n \<Longrightarrow> n \<noteq> [] \<and> js_trim n = n"
  by (auto simp: normalizeName_def Let_def split: if_splits)

lemma normalizeDefinition_normal: "normalizeDefinition i = Inr sd \<Longrightarrow> normal_definition sd"
  by (auto simp: normalizeDefinition_def split: sum.splits intro: normalizeSegmentDefinition_normal)

lemma resolve_segment:
  assumes "segments_ok (segments d)" and "g \<in> set (segments d)" and "g_active g"
  shows "\<exists>sd. normal_definition sd \<and> g_definition g = JObj (definition_json sd) \<and>
    resolveActiveForCampaign d (g_tenantId g) (g_id g) =
      Inr \<lparr>rs_id = g_id g, rs_name = g_name g, rs_updatedAt = g_updatedAt g, rs_definition = sd\<rparr>"
proof -
  from assms(1,2) obtain sd where sd: "normal_definition sd" "g_definition g = JObj (definition_json sd)"
    by (auto simp: segments_ok_def list_all_iff segment_ok_def)
  have "distinct (map g_id (segments d))" using assms(1) by (simp add: segments_ok_def segments_unique_def)
  from findFirst_key [OF this assms(2), of "\<lambda>x. g_tenantId x = g_tenantId g \<and> g_active x"] assms(3)
  have "findFirst (\<lambda>x. g_id x = g_id g \<and> g_tenantId x = g_tenantId g \<and> g_active x) (segments d) = Some g" by simp
  with readPersisted_normal [OF sd(1)] sd show ?thesis
    by (intro exI [of _ sd]) (simp add: resolveActiveForCampaign_def readDefinition_def)
qed

lemma create_segment_ok:
  assumes "segments_ok (segments d')" and "SegmentsService_create d d' who dto ctx newId now = Inr (g, d'')"
  shows "segments_ok (segments d'') \<and> g \<in> set (segments d'')"
  using assms
  by (auto simp: SegmentsService_create_def Let_def bindE_Inr segments_ok_def segment_ok_def
      dest!: normalizeName_Inr normalizeDefinition_normal split: if_splits)

lemma segment_request_ok:
  assumes "segment_request d tenantId existing dto = Inr (name, sd)" and "segment_ok existing"
  shows "name \<noteq> [] \<and> js_trim name = name \<and> (case sd of None \<Rightarrow> True | Some s \<Rightarrow> normal_definition s)"
proof -
  from assms(1) have n: "(case gu_name dto of Undefined \<Rightarrow> Inr (g_name existing) | Null \<Rightarrow> Inl TYPE_ERROR | Val v \<Rightarrow> normalizeName v) = Inr name"
    and s: "(case gu_definition dto of Undefined \<Rightarrow> Inr None | Null \<Rightarrow> bindE (normalizeDefinition None) (\<lambda>s. Inr (Some s))
      | Val i \<Rightarrow> bindE (normalizeDefinition (Some i)) (\<lambda>s. Inr (Some s))) = Inr sd"
    unfolding segment_request_def bindE_Inr by blast+
  from n assms(2) have "name \<noteq> [] \<and> js_trim name = name"
    by (cases "gu_name dto") (auto simp: segment_ok_def dest: normalizeName_Inr)
  moreover from s have "case sd of None \<Rightarrow> True | Some s \<Rightarrow> normal_definition s"
    by (cases "gu_definition dto") (auto simp: bindE_Inr dest: normalizeDefinition_normal)
  ultimately show ?thesis by blast
qed

lemma segment_transaction_rows:
  assumes "segment_transaction d' k change sd audit = Inr (g, d'')"
  shows "segments d'' = updateSegment k change (segments d') \<and> findSegment k (segments d'') = Some g \<and> segments_unique (segments d'')"
  using assms by (auto simp: segment_transaction_def Let_def bindE_Inr split: option.split_asm if_split_asm)

lemma update_segment_ok:
  assumes "segments_ok (segments d)" and "segments_ok (segments d')"
    and "SegmentsService_update d d' who k dto ctx now = Inr (g, d'')"
  shows "segments_ok (segments d'') \<and> g \<in> set (segments d'')"
proof -
  let ?t = "ma_tenantId (mutationActor who)"
  from assms(3) obtain existing name sd description where e: "SegmentsService_findById d ?t k = Inr existing"
    and q: "segment_request d ?t existing dto = Inr (name, sd)"
    and rows: "segments d'' = updateSegment k (segment_changes name description sd (gu_active dto) now) (segments d')"
    and f: "findSegment k (segments d'') = Some g" and u: "segments_unique (segments d'')"
    by (auto simp: SegmentsService_update_def Let_def bindE_Inr dest!: segment_transaction_rows)
  from e assms(1) have "segment_ok existing"
    by (auto simp: SegmentsService_findById_def segments_ok_def list_all_iff dest!: findFirst_SomeD split: option.splits)
  from segment_request_ok [OF q this] have "segment_ok (segment_changes name description sd (gu_active dto) now r)" if "segment_ok r" for r
    using that by (auto simp: segment_ok_def segment_changes_def split: option.splits)
  then have "list_all segment_ok (segments d'')"
    using assms(2) unfolding rows updateSegment_def by (intro list_all_updateMany) (auto simp: segments_ok_def)
  with u segment_table.fetch_SomeD [OF f] show ?thesis by (simp add: segments_ok_def)
qed

section \<open>Properties\<close>

text \<open>
  A normalised segment definition has a criterion, a trimmed language of at most 20 characters and at most 50
  sorted, distinct, lower-case tags of the allowed form, and it is read back unchanged from what is stored.
\<close>

theorem segment_definition_roundtrip:
  assumes "normalizeSegmentDefinition i = Inr sd"
  shows "normal_definition sd \<and> readPersistedSegmentDefinition (JObj (definition_json sd)) = Inr sd"
  using normalizeSegmentDefinition_normal [OF assms] readPersisted_normal by blast

text \<open>
  C38. Creating and changing segments keeps names unique per tenant and definitions normal, so that every active
  segment resolves for a campaign with exactly its stored definition.
\<close>

theorem stored_segments_usable:
  assumes "segments_ok (segments d)" and "segments_ok (segments d')"
    and "SegmentsService_create d d' who dto ctx newId now = Inr (g, d'') \<or> SegmentsService_update d d' who k dto' ctx now = Inr (g, d'')"
  shows "segments_ok (segments d'') \<and> g \<in> set (segments d'') \<and>
    (\<forall>h \<in> set (segments d''). g_active h \<longrightarrow> (\<exists>sd. normal_definition sd \<and> g_definition h = JObj (definition_json sd) \<and>
       resolveActiveForCampaign d'' (g_tenantId h) (g_id h) =
         Inr \<lparr>rs_id = g_id h, rs_name = g_name h, rs_updatedAt = g_updatedAt h, rs_definition = sd\<rparr>))"
proof -
  from assms have "segments_ok (segments d'') \<and> g \<in> set (segments d'')"
    using create_segment_ok [OF assms(2)] update_segment_ok [OF assms(1,2)] by blast
  then show ?thesis by (simp add: resolve_segment)
qed

section \<open>Witnesses\<close>

definition sample_segment_input :: SegmentDefinitionInput where
  "sample_segment_input = \<lparr>si_language = Val '' en_US'', si_tagsAny = Val [''VIP'', ''b:1'', ''vip''], si_tagsAll = Undefined\<rparr>"

definition sample_segment :: NormalizedSegmentDefinition where
  "sample_segment = \<lparr>sd_language = Some ''en_US'', sd_tagsAny = Some [''b:1'', ''vip''], sd_tagsAll = None\<rparr>"

lemma sample_segment_normalized: "normalizeSegmentDefinition (Some sample_segment_input) = Inr sample_segment"
  by code_simp

theorem segment_definition_roundtrip_witness:
  "readPersistedSegmentDefinition (JObj (definition_json sample_segment)) = Inr sample_segment"
  using segment_definition_roundtrip [OF sample_segment_normalized] by blast

theorem stored_segments_usable_witness:
  "\<exists>g d'. SegmentsService_create empty_db empty_db (Inl ''t'') \<lparr>gc_name = ''VIP '', gc_description = Null, gc_definition = sample_segment_input\<rparr>
      None ''g'' 5 = Inr (g, d') \<and> g_name g = ''VIP'' \<and> segments_ok (segments d')"
proof -
  have e: "segments_ok (segments empty_db)" by (simp add: segments_ok_def segments_unique_def empty_db_def)
  have n: "normalizeName ''VIP '' = Inr ''VIP''" by code_simp
  let ?g = "\<lparr>g_id = ''g'', g_tenantId = ''t'', g_name = ''VIP'', g_description = None, g_definition = JObj (definition_json sample_segment),
    g_active = True, g_createdAt = 5, g_updatedAt = 5\<rparr>"
  have c: "SegmentsService_create empty_db empty_db (Inl ''t'') \<lparr>gc_name = ''VIP '', gc_description = Null, gc_definition = sample_segment_input\<rparr>
      None ''g'' 5 = Inr (?g, empty_db\<lparr>segments := [?g]\<rparr>)"
    by (simp add: SegmentsService_create_def Let_def n assertNameAvailable_def empty_db_def normalizeDefinition_def
        sample_segment_normalized segments_unique_def auditLogData_def add_audit_def)
  from stored_segments_usable [OF e e disjI1, OF c] c show ?thesis by auto
qed

end
