(* ===== verification/Personalization.thy ===== *)
theory Personalization
  imports Store
begin

text \<open>
  src/src/campaigns/campaign-personalization.util.ts: the check of the components of a campaign when it is created, and the
  replacement of tokens by the values of a contact when a recipient is processed. The two functions walk the same JSON
  value; the check counts nodes and tokens on the way, the rendering does not.

  The results: the check accepts exactly the values within the three limits whose strings are tokens or free of
  markers, and what was accepted once renders for every contact to the value with its tokens replaced, or names the
  first token that has no value; it never fails as a template.
\<close>

section \<open>Tokens\<close>

definition MAX_COMPONENT_NODES :: nat where "MAX_COMPONENT_NODES = 1000"

definition MAX_PERSONALIZATION_TOKENS :: nat where "MAX_PERSONALIZATION_TOKENS = 50"

definition MAX_DEPTH :: nat where "MAX_DEPTH = 20"

text \<open>\<open>/^\{\{contact\.(name|phone|language|timezone)\}\}$/\<close>: the captured field.\<close>

definition DIRECT_TOKEN :: "string \<Rightarrow> string option" where
  "DIRECT_TOKEN s = List.find (\<lambda>f. s = ''{{contact.'' @ f @ ''}}'') [''name'', ''phone'', ''language'', ''timezone'']"

definition token_char :: "char \<Rightarrow> bool" where
  "token_char c \<longleftrightarrow> (let n = of_char c :: nat
     in 65 \<le> n \<and> n \<le> 90 \<or> 97 \<le> n \<and> n \<le> 122 \<or> 48 \<le> n \<and> n \<le> 57 \<or> c = CHR ''_'' \<or> c = CHR ''-'')"

text \<open>\<open>/^\{\{contact\.metadata\.([A-Za-z0-9_-]{1,64})\}\}$/\<close>: the captured key.\<close>

definition METADATA_TOKEN :: "string \<Rightarrow> string option" where
  "METADATA_TOKEN s =
     (let pre = ''{{contact.metadata.''; key = takeWhile token_char (drop (length pre) s)
      in if s = pre @ key @ ''}}'' \<and> 1 \<le> length key \<and> length key \<le> 64 then Some key else None)"

text \<open>\<open>/\{\{|\}\}/\<close>\<close>

fun PLACEHOLDER_MARKER :: "string \<Rightarrow> bool" where
  "PLACEHOLDER_MARKER (a # b # s) \<longleftrightarrow>
     a = CHR ''{'' \<and> b = CHR ''{'' \<or> a = CHR ''}'' \<and> b = CHR ''}'' \<or> PLACEHOLDER_MARKER (b # s)"
| "PLACEHOLDER_MARKER _ \<longleftrightarrow> False"

definition is_token :: "string \<Rightarrow> bool" where
  "is_token s \<longleftrightarrow> DIRECT_TOKEN s \<noteq> None \<or> METADATA_TOKEN s \<noteq> None"

section \<open>Checking\<close>

definition DEPTH_ERROR :: string where
  "DEPTH_ERROR = ''Campaign components exceed the maximum nesting depth of '' @ nat_string MAX_DEPTH"

definition NODES_ERROR :: string where
  "NODES_ERROR = ''Campaign components exceed the maximum node count of '' @ nat_string MAX_COMPONENT_NODES"

definition TOKENS_ERROR :: string where
  "TOKENS_ERROR = ''Campaign components exceed the maximum personalization token count of '' @ nat_string MAX_PERSONALIZATION_TOKENS"

definition unsupported_token :: "string \<Rightarrow> string" where
  "unsupported_token s = ''Unsupported personalization token '' @ [CHR 0x27] @ s @ [CHR 0x27] @ ''. Tokens must occupy the entire string value.''"

record visit_state =
  vs_nodes :: nat
  vs_tokens :: nat

text \<open>An error is the message of the \<open>CampaignPersonalizationTemplateError\<close>.\<close>

definition visit_string :: "string \<Rightarrow> visit_state \<Rightarrow> string + visit_state" where
  "visit_string s st =
     (if is_token s
      then let st' = st\<lparr>vs_tokens := vs_tokens st + 1\<rparr>
           in if vs_tokens st' > MAX_PERSONALIZATION_TOKENS then Inl TOKENS_ERROR else Inr st'
      else if PLACEHOLDER_MARKER s then Inl (unsupported_token s) else Inr st)"

fun visit :: "json \<Rightarrow> nat \<Rightarrow> visit_state \<Rightarrow> string + visit_state"
  and visit_items :: "json list \<Rightarrow> nat \<Rightarrow> visit_state \<Rightarrow> string + visit_state"
  and visit_entries :: "(string \<times> json) list \<Rightarrow> nat \<Rightarrow> visit_state \<Rightarrow> string + visit_state" where
  "visit v depth st =
     (if depth > MAX_DEPTH then Inl DEPTH_ERROR
      else let st' = st\<lparr>vs_nodes := vs_nodes st + 1\<rparr>
           in if vs_nodes st' > MAX_COMPONENT_NODES then Inl NODES_ERROR
              else case v of
                     JStr s \<Rightarrow> visit_string s st'
                   | JArr items \<Rightarrow> visit_items items (depth + 1) st'
                   | JObj kvs \<Rightarrow> visit_entries kvs (depth + 1) st'
                   | _ \<Rightarrow> Inr st')"
| "visit_items [] depth st = Inr st"
| "visit_items (v # vs) depth st = bindE (visit v depth st) (visit_items vs depth)"
| "visit_entries [] depth st = Inr st"
| "visit_entries ((k, v) # kvs) depth st = bindE (visit v depth st) (visit_entries kvs depth)"

definition validateCampaignComponents :: "json \<Rightarrow> string + visit_state" where
  "validateCampaignComponents v = visit v 0 \<lparr>vs_nodes = 0, vs_tokens = 0\<rparr>"

section \<open>Rendering\<close>

datatype personalization_error = TemplateError string | ValueError string

definition missing_value :: "string \<Rightarrow> personalization_error" where
  "missing_value token = ValueError (''Missing personalization value for '' @ token)"

definition requireScalar :: "json option \<Rightarrow> string \<Rightarrow> personalization_error + string" where
  "requireScalar v token =
     (case v of
        Some (JStr s) \<Rightarrow> if s = [] then Inl (missing_value token) else Inr s
      | Some (JNum n) \<Rightarrow> Inr n
      | Some (JBool b) \<Rightarrow> Inr (if b then ''true'' else ''false'')
      | _ \<Rightarrow> Inl (missing_value token))"

text \<open>\<open>contact[field]\<close> for the four fields of a direct token; a null column is null.\<close>

definition contact_field :: "contact_row \<Rightarrow> string \<Rightarrow> json option" where
  "contact_field c field =
     (let nullable = (\<lambda>v. Some (case v of None \<Rightarrow> JNull | Some s \<Rightarrow> JStr s))
      in if field = ''name'' then nullable (c_name c)
         else if field = ''phone'' then Some (JStr (c_phone c))
         else if field = ''language'' then nullable (c_language c)
         else if field = ''timezone'' then nullable (c_timezone c)
         else None)"

definition render_string :: "string \<Rightarrow> contact_row \<Rightarrow> personalization_error + string" where
  "render_string s c =
     (case DIRECT_TOKEN s of
        Some field \<Rightarrow> requireScalar (contact_field c field) s
      | None \<Rightarrow>
          (case METADATA_TOKEN s of
             Some key \<Rightarrow>
               (case c_metadata c of
                  Some (JObj kvs) \<Rightarrow> requireScalar (map_of kvs key) s
                | _ \<Rightarrow> Inl (missing_value s))
           | None \<Rightarrow> if PLACEHOLDER_MARKER s then Inl (TemplateError (unsupported_token s)) else Inr s))"

fun render :: "json \<Rightarrow> contact_row \<Rightarrow> nat \<Rightarrow> personalization_error + json"
  and render_items :: "json list \<Rightarrow> contact_row \<Rightarrow> nat \<Rightarrow> personalization_error + json list"
  and render_entries :: "(string \<times> json) list \<Rightarrow> contact_row \<Rightarrow> nat \<Rightarrow> personalization_error + (string \<times> json) list" where
  "render v c depth =
     (if depth > MAX_DEPTH then Inl (TemplateError DEPTH_ERROR)
      else case v of
             JStr s \<Rightarrow> bindE (render_string s c) (\<lambda>r. Inr (JStr r))
           | JArr items \<Rightarrow> bindE (render_items items c (depth + 1)) (\<lambda>r. Inr (JArr r))
           | JObj kvs \<Rightarrow> bindE (render_entries kvs c (depth + 1)) (\<lambda>r. Inr (JObj r))
           | _ \<Rightarrow> Inr v)"
| "render_items [] c depth = Inr []"
| "render_items (v # vs) c depth =
     bindE (render v c depth) (\<lambda>r. bindE (render_items vs c depth) (\<lambda>rs. Inr (r # rs)))"
| "render_entries [] c depth = Inr []"
| "render_entries ((k, v) # kvs) c depth =
     bindE (render v c depth) (\<lambda>r. bindE (render_entries kvs c depth) (\<lambda>rs. Inr ((k, r) # rs)))"

definition renderCampaignComponents :: "json \<Rightarrow> contact_row \<Rightarrow> personalization_error + json" where
  "renderCampaignComponents v c = render v c 0"

declare visit.simps(1) [simp del] render.simps(1) [simp del]

section \<open>What the two functions compute\<close>

text \<open>The strings of a value in the order of the walk, its number of nodes and its depth.\<close>

fun strings_of :: "json \<Rightarrow> string list" where
  "strings_of (JStr s) = [s]"
| "strings_of (JArr vs) = concat (map strings_of vs)"
| "strings_of (JObj kvs) = concat (map (\<lambda>kv. strings_of (snd kv)) kvs)"
| "strings_of _ = []"

fun node_count :: "json \<Rightarrow> nat" where
  "node_count (JArr vs) = Suc (sum_list (map node_count vs))"
| "node_count (JObj kvs) = Suc (sum_list (map (\<lambda>kv. node_count (snd kv)) kvs))"
| "node_count _ = 1"

fun fits_depth :: "nat \<Rightarrow> json \<Rightarrow> bool" where
  "fits_depth n (JArr vs) \<longleftrightarrow> (\<forall>v \<in> set vs. 0 < n \<and> fits_depth (n - 1) v)"
| "fits_depth n (JObj kvs) \<longleftrightarrow> (\<forall>kv \<in> set kvs. 0 < n \<and> fits_depth (n - 1) (snd kv))"
| "fits_depth n _ \<longleftrightarrow> True"

definition tokens_of :: "json \<Rightarrow> string list" where
  "tokens_of v = filter is_token (strings_of v)"

definition supported :: "string \<Rightarrow> bool" where
  "supported s \<longleftrightarrow> is_token s \<or> \<not> PLACEHOLDER_MARKER s"

text \<open>The value of a token for a contact.\<close>

definition scalar_text :: "json option \<Rightarrow> string option" where
  "scalar_text v = (case v of Some (JStr s) \<Rightarrow> if s = [] then None else Some s | Some (JNum n) \<Rightarrow> Some n
     | Some (JBool b) \<Rightarrow> Some (if b then ''true'' else ''false'') | _ \<Rightarrow> None)"

definition token_value :: "contact_row \<Rightarrow> string \<Rightarrow> string option" where
  "token_value c s =
     (case DIRECT_TOKEN s of
        Some field \<Rightarrow> scalar_text (contact_field c field)
      | None \<Rightarrow> (case METADATA_TOKEN s of
            Some key \<Rightarrow> scalar_text (case c_metadata c of Some m \<Rightarrow> json_get m key | None \<Rightarrow> None) | None \<Rightarrow> None))"

fun substitute :: "(string \<Rightarrow> string) \<Rightarrow> json \<Rightarrow> json" where
  "substitute f (JStr s) = JStr (f s)"
| "substitute f (JArr vs) = JArr (map (substitute f) vs)"
| "substitute f (JObj kvs) = JObj (map (\<lambda>kv. (fst kv, substitute f (snd kv))) kvs)"
| "substitute f v = v"

definition replace_token :: "contact_row \<Rightarrow> string \<Rightarrow> string" where
  "replace_token c s = (if is_token s then the (token_value c s) else s)"

text \<open>One token of a walk has no value: the walk ends with its error.\<close>

definition first_missing :: "contact_row \<Rightarrow> string list \<Rightarrow> string option" where
  "first_missing c ts = List.find (\<lambda>t. token_value c t = None) ts"

lemma render_string_supported:
  assumes "supported s"
  shows "render_string s c =
    (if is_token s \<and> token_value c s = None then Inl (missing_value s) else Inr (replace_token c s))"
proof -
  have r: "requireScalar v s = (case scalar_text v of None \<Rightarrow> Inl (missing_value s) | Some x \<Rightarrow> Inr x)" for v
    by (auto simp: requireScalar_def scalar_text_def split: option.splits json.splits)
  have m: "(case c_metadata c of Some (JObj kvs) \<Rightarrow> requireScalar (map_of kvs k) s | _ \<Rightarrow> Inl (missing_value s)) =
      (case scalar_text (case c_metadata c of Some m \<Rightarrow> json_get m k | None \<Rightarrow> None) of
         None \<Rightarrow> Inl (missing_value s) | Some x \<Rightarrow> Inr x)" for k
    by (auto simp: r scalar_text_def split: option.splits json.splits)
  show ?thesis
    using assms
    by (auto simp: render_string_def m r supported_def is_token_def token_value_def replace_token_def split: option.splits)
qed

lemma first_missing_append:
  "first_missing c (xs @ ys) = (case first_missing c xs of Some t \<Rightarrow> Some t | None \<Rightarrow> first_missing c ys)"
  by (induction xs) (auto simp: first_missing_def)

section \<open>The check\<close>

definition in_limits :: "visit_state \<Rightarrow> bool" where
  "in_limits st \<longleftrightarrow> vs_nodes st \<le> MAX_COMPONENT_NODES \<and> vs_tokens st \<le> MAX_PERSONALIZATION_TOKENS"

definition advance :: "nat \<Rightarrow> string list \<Rightarrow> visit_state \<Rightarrow> visit_state" where
  "advance nodes ss st = st\<lparr>vs_nodes := vs_nodes st + nodes, vs_tokens := vs_tokens st + length (filter is_token ss)\<rparr>"

text \<open>A walk over strings and nodes that stays within the limits, and the state after it.\<close>

definition walks :: "nat \<Rightarrow> string list \<Rightarrow> visit_state \<Rightarrow> visit_state \<Rightarrow> bool" where
  "walks nodes ss st st' \<longleftrightarrow> list_all supported ss \<and> st' = advance nodes ss st \<and> in_limits st'"

lemma walks_step: "(\<exists>st1. walks m ss st st1 \<and> walks n ts st1 st') \<longleftrightarrow> walks (m + n) (ss @ ts) st st'"
  by (auto simp: walks_def advance_def in_limits_def)

lemma walks_0 [simp]: "in_limits st \<Longrightarrow> walks 0 [] st st' \<longleftrightarrow> st' = st"
  by (auto simp: walks_def advance_def in_limits_def)

lemma walks_limits: "walks n ss st st' \<Longrightarrow> in_limits st'"
  unfolding walks_def by blast

lemma visit_string_walks: "in_limits st \<Longrightarrow> visit_string s st = Inr st' \<longleftrightarrow> walks 0 [s] st st'"
  by (auto simp: visit_string_def walks_def advance_def in_limits_def supported_def Let_def)

lemma walks_node:
  "in_limits st \<Longrightarrow> (\<exists>st1. st1 = st\<lparr>vs_nodes := vs_nodes st + 1\<rparr> \<and> in_limits st1 \<and> walks n ss st1 st') \<longleftrightarrow> walks (Suc n) ss st st'"
  by (auto simp: walks_def advance_def in_limits_def)

lemma visit_walks:
  "in_limits st \<Longrightarrow> visit v depth st = Inr st' \<longleftrightarrow>
     depth \<le> MAX_DEPTH \<and> fits_depth (MAX_DEPTH - depth) v \<and> walks (node_count v) (strings_of v) st st'"
  and visit_items_walks:
  "in_limits st \<Longrightarrow> visit_items vs depth st = Inr st' \<longleftrightarrow>
     (\<forall>v \<in> set vs. depth \<le> MAX_DEPTH \<and> fits_depth (MAX_DEPTH - depth) v) \<and>
     walks (sum_list (map node_count vs)) (concat (map strings_of vs)) st st'"
  and visit_entries_walks:
  "in_limits st \<Longrightarrow> visit_entries kvs depth st = Inr st' \<longleftrightarrow>
     (\<forall>kv \<in> set kvs. depth \<le> MAX_DEPTH \<and> fits_depth (MAX_DEPTH - depth) (snd kv)) \<and>
     walks (sum_list (map (\<lambda>kv. node_count (snd kv)) kvs)) (concat (map (\<lambda>kv. strings_of (snd kv)) kvs)) st st'"
proof (induction v depth st and vs depth st and kvs depth st arbitrary: st' and st' and st'
    rule: visit_visit_items_visit_entries.induct)
  case (1 v depth st)
  let ?st = "st\<lparr>vs_nodes := vs_nodes st + 1\<rparr>"
  show ?case
  proof (cases "depth \<le> MAX_DEPTH \<and> in_limits ?st")
    case True
    then have d: "depth \<le> MAX_DEPTH" and lim: "in_limits ?st" by simp_all
    then have guards: "\<not> depth > MAX_DEPTH" "?st = st\<lparr>vs_nodes := vs_nodes st + 1\<rparr>" "\<not> vs_nodes ?st > MAX_COMPONENT_NODES"
      by (simp_all add: in_limits_def)
    have node: "walks n ss ?st st' \<longleftrightarrow> walks (Suc n) ss st st'" for n ss
      using walks_node [OF 1(3), of n ss st'] lim by simp
    have unfolded: "visit v depth st = (case v of JStr s \<Rightarrow> visit_string s ?st | JArr items \<Rightarrow> visit_items items (depth + 1) ?st
        | JObj kvs \<Rightarrow> visit_entries kvs (depth + 1) ?st | _ \<Rightarrow> Inr ?st)"
      by (simp only: visit.simps(1) Let_def guards(1,3) if_False)
    note ih = 1(1) [OF guards, of _ st'] 1(2) [OF guards, of _ st']
    show ?thesis
    proof (cases v)
      case (JArr vs)
      show ?thesis
        unfolding unfolded unfolding JArr json.case ih(1) [OF JArr lim] node using d by (auto simp: Suc_le_eq)
    next
      case (JObj kvs)
      show ?thesis
        unfolding unfolded unfolding JObj json.case ih(2) [OF JObj lim] node using d by (auto simp: Suc_le_eq)
    next
      case (JStr s)
      show ?thesis
        unfolding unfolded unfolding JStr json.case visit_string_walks [OF lim] node using d by simp
    qed (use unfolded d lim node [of 0 "[]"] in auto)
  next
    case False
    with 1(3) have "visit v depth st \<noteq> Inr st'" by (auto simp: visit.simps(1) Let_def in_limits_def)
    moreover have "0 < node_count v" by (cases v) simp_all
    ultimately show ?thesis using False 1(3) by (auto simp: walks_def advance_def in_limits_def)
  qed
next
  case (3 v vs depth st)
  show ?case using 3 walks_limits by (auto simp: bindE_Inr walks_step [symmetric])
next
  case (5 k v kvs depth st)
  show ?case using 5 walks_limits by (simp add: bindE_Inr walks_step [symmetric]) blast
qed auto

section \<open>The rendering\<close>

definition rendered :: "contact_row \<Rightarrow> string list \<Rightarrow> 'a \<Rightarrow> personalization_error + 'a" where
  "rendered c ss r = (case first_missing c (filter is_token ss) of None \<Rightarrow> Inr r | Some t \<Rightarrow> Inl (missing_value t))"

lemma rendered_bind:
  "bindE (rendered c ss r) (\<lambda>x. bindE (rendered c ts q) (\<lambda>y. Inr (f x y))) = rendered c (ss @ ts) (f r q)"
  by (auto simp: rendered_def first_missing_append split: option.splits)

lemma rendered_map: "bindE (rendered c ss r) (\<lambda>x. Inr (f x)) = rendered c ss (f r)"
  by (auto simp: rendered_def split: option.splits)

lemma rendered_Nil: "rendered c [] r = Inr r"
  by (simp add: rendered_def first_missing_def)

lemma rendered_string: "supported s \<Longrightarrow> render_string s c = rendered c [s] (replace_token c s)"
  by (auto simp: rendered_def render_string_supported first_missing_def)

lemma render_supported:
  "depth \<le> MAX_DEPTH \<and> fits_depth (MAX_DEPTH - depth) v \<and> list_all supported (strings_of v) \<Longrightarrow>
     render v c depth = rendered c (strings_of v) (substitute (replace_token c) v)"
  and render_items_supported:
  "\<forall>v \<in> set vs. depth \<le> MAX_DEPTH \<and> fits_depth (MAX_DEPTH - depth) v \<and> list_all supported (strings_of v) \<Longrightarrow>
     render_items vs c depth = rendered c (concat (map strings_of vs)) (map (substitute (replace_token c)) vs)"
  and render_entries_supported:
  "\<forall>kv \<in> set kvs. depth \<le> MAX_DEPTH \<and> fits_depth (MAX_DEPTH - depth) (snd kv) \<and> list_all supported (strings_of (snd kv)) \<Longrightarrow>
     render_entries kvs c depth = rendered c (concat (map (\<lambda>kv. strings_of (snd kv)) kvs))
       (map (\<lambda>kv. (fst kv, substitute (replace_token c) (snd kv))) kvs)"
proof (induction v c depth and vs c depth and kvs c depth rule: render_render_items_render_entries.induct)
  case (1 v c depth)
  then have d: "\<not> depth > MAX_DEPTH" by simp
  have below: "0 < MAX_DEPTH - depth \<longleftrightarrow> depth + 1 \<le> MAX_DEPTH" "MAX_DEPTH - depth - 1 = MAX_DEPTH - (depth + 1)" by auto
  show ?case
  proof (cases v)
    case (JStr s)
    with 1(3) d show ?thesis by (simp add: render.simps(1) rendered_string rendered_map)
  next
    case (JArr vs)
    with 1(3) have "\<forall>v \<in> set vs. depth + 1 \<le> MAX_DEPTH \<and> fits_depth (MAX_DEPTH - (depth + 1)) v \<and> list_all supported (strings_of v)"
      by (auto simp: below list_all_iff)
    from 1(1) [OF d JArr this] JArr d show ?thesis by (simp add: render.simps(1) rendered_map)
  next
    case (JObj kvs)
    with 1(3) have "\<forall>kv \<in> set kvs. depth + 1 \<le> MAX_DEPTH \<and> fits_depth (MAX_DEPTH - (depth + 1)) (snd kv) \<and> list_all supported (strings_of (snd kv))"
      by (auto simp: below list_all_iff)
    from 1(2) [OF d JObj this] JObj d show ?thesis by (simp add: render.simps(1) rendered_map)
  qed (use d in \<open>simp_all add: render.simps(1) rendered_Nil\<close>)
qed (simp_all add: rendered_bind rendered_Nil)

section \<open>Properties\<close>

text \<open>
  The check of components accepts a value exactly when no node lies deeper than 20 levels, it has at most 1000
  nodes and at most 50 tokens, and each of its strings is a token or free of token markers.
\<close>

theorem validateCampaignComponents_iff:
  "(\<exists>st. validateCampaignComponents v = Inr st) \<longleftrightarrow>
     fits_depth 20 v \<and> node_count v \<le> 1000 \<and> length (tokens_of v) \<le> 50 \<and> list_all supported (strings_of v)"
proof -
  have "in_limits \<lparr>vs_nodes = 0, vs_tokens = 0\<rparr>" by (simp add: in_limits_def)
  from visit_walks [OF this, of v 0] show ?thesis
    by (auto simp: validateCampaignComponents_def walks_def advance_def in_limits_def tokens_of_def MAX_DEPTH_def
        MAX_COMPONENT_NODES_def MAX_PERSONALIZATION_TOKENS_def)
qed

text \<open>
  Components that passed the check render for every contact: to the same value with each token replaced by the
  contact's text and every other string kept as it is or, where tokens have no value for the contact, to the value error
  of the first of them. A template error, which fails the whole campaign, cannot occur.
\<close>

theorem validated_components_render:
  assumes "validateCampaignComponents v = Inr st"
  shows "renderCampaignComponents v c =
    (case List.find (\<lambda>t. token_value c t = None) (tokens_of v) of
       None \<Rightarrow> Inr (substitute (\<lambda>s. if is_token s then the (token_value c s) else s) v)
     | Some t \<Rightarrow> Inl (ValueError (''Missing personalization value for '' @ t)))"
proof -
  have lim: "in_limits \<lparr>vs_nodes = 0, vs_tokens = 0\<rparr>" by (simp add: in_limits_def)
  have f: "(\<lambda>s. if is_token s then the (token_value c s) else s) = replace_token c"
    by (rule ext) (simp add: replace_token_def)
  from assms visit_walks [OF lim, of v 0 st]
  have "0 \<le> MAX_DEPTH \<and> fits_depth (MAX_DEPTH - 0) v \<and> list_all supported (strings_of v)"
    by (simp add: validateCampaignComponents_def walks_def)
  from render_supported [OF this, of c] show ?thesis
    unfolding f renderCampaignComponents_def rendered_def first_missing_def tokens_of_def missing_value_def .
qed

section \<open>Witnesses\<close>

definition sample_components :: json where
  "sample_components = JArr [JObj [(''type'', JStr ''body''),
     (''parameters'', JArr [JStr ''{{contact.name}}'', JStr ''{{contact.metadata.plan-1}}'', JNum ''7''])]]"

definition sample_contact :: contact_row where
  "sample_contact = \<lparr>c_id = ''c'', c_tenantId = ''t'', c_phone = ''34600111222'', c_name = Some ''Ana'', c_language = None,
     c_timezone = None, c_tags = [], c_consentStatus = ConsentStatus.OPTED_IN, c_consentSource = None, c_consentAt = None, c_optedOutAt = None,
     c_lastInboundAt = None, c_serviceWindowExpiresAt = None, c_metadata = Some (JObj [(''plan-1'', JBool True)]), c_createdAt = 0\<rparr>"

lemma sample_tokens:
  "is_token ''{{contact.name}}''" "is_token ''{{contact.metadata.plan-1}}''" "\<not> is_token ''body''" "\<not> PLACEHOLDER_MARKER ''body''"
  "token_value sample_contact ''{{contact.name}}'' = Some ''Ana''"
  "token_value sample_contact ''{{contact.metadata.plan-1}}'' = Some ''true''"
  by code_simp+

lemma sample_validated: "validateCampaignComponents sample_components = Inr \<lparr>vs_nodes = 7, vs_tokens = 2\<rparr>"
  by (simp add: validateCampaignComponents_def sample_components_def visit.simps(1) visit_string_def MAX_DEPTH_def
      MAX_COMPONENT_NODES_def MAX_PERSONALIZATION_TOKENS_def sample_tokens)

theorem validated_components_render_witness:
  "renderCampaignComponents sample_components sample_contact =
     Inr (JArr [JObj [(''type'', JStr ''body''), (''parameters'', JArr [JStr ''Ana'', JStr ''true'', JNum ''7''])]])"
  using validated_components_render [OF sample_validated, of sample_contact]
  by (simp add: tokens_of_def sample_components_def sample_tokens)

end
