(* ===== verification/Campaigns.thy ===== *)
theory Campaigns
  imports Segments Personalization Messages Js_Number
begin

text \<open>
  src/src/campaigns/campaigns.service.ts: drafting a campaign, launching it with a snapshot of its audience, pausing, resuming, cancelling and
  failing it, and the counters. An operation that reads before it writes takes two database states, the one its reads see and
  the one its update or transaction runs on; \<open>refreshStats\<close> is given as its read and its write. The parser and the
  printer of dates are parameters. A relation the schema requires and the database does not return is an error of the client.
\<close>

section \<open>Audiences\<close>

record CampaignAudienceDto =
  ad_allOptedIn :: "bool field"
  ad_contactIds :: "uuid list field"
  ad_segmentId :: "uuid field"
  ad_language :: "string field"
  ad_tagsAny :: "string list field"
  ad_tagsAll :: "string list field"

record NormalizedCampaignAudience =
  na_allOptedIn :: bool
  na_contactIds :: "uuid list option"
  na_segmentId :: "uuid option"
  na_segmentName :: "string option"
  na_segmentUpdatedAt :: "string option"
  na_language :: "string option"
  na_tagsAny :: "string list option"
  na_tagsAll :: "string list option"

record js_dates =
  parse_date :: "string \<Rightarrow> time option"
  toISOString :: "time \<Rightarrow> string"

definition campaign_normalizeTags :: "string list field \<Rightarrow> string list" where
  "campaign_normalizeTags tags = sort (js_set (map (\<lambda>tag. js_lower (js_trim tag)) (coalesce tags [])))"

definition AMBIGUOUS_AUDIENCE :: error where
  "AMBIGUOUS_AUDIENCE = BadRequest ''Campaign audience must specify exactly one of allOptedIn=true, a non-empty contactIds list, or segmentId''"

definition mode_count :: "bool \<Rightarrow> bool \<Rightarrow> bool \<Rightarrow> nat" where
  "mode_count a b c = of_bool a + of_bool b + of_bool c"

definition normalizeAudience :: "js_dates \<Rightarrow> db \<Rightarrow> uuid \<Rightarrow> CampaignAudienceDto \<Rightarrow> error + NormalizedCampaignAudience" where
  "normalizeAudience dates d tenantId audience =
     (let allOptedIn = (ad_allOptedIn audience = Val True);
          contactIds = filter (\<lambda>k. k \<noteq> []) (coalesce (ad_contactIds audience) []);
          hasExplicitContacts = (contactIds \<noteq> []);
          hasSegment = (case ad_segmentId audience of Val k \<Rightarrow> k \<noteq> [] | _ \<Rightarrow> False);
          language = js_trim (coalesce (ad_language audience) []);
          tagsAny = campaign_normalizeTags (ad_tagsAny audience);
          tagsAll = campaign_normalizeTags (ad_tagsAll audience)
      in if mode_count allOptedIn hasExplicitContacts hasSegment \<noteq> 1 then Inl AMBIGUOUS_AUDIENCE
         else if hasSegment
         then if language \<noteq> [] \<or> tagsAny \<noteq> [] \<or> tagsAll \<noteq> []
              then Inl (BadRequest ''Campaign audience cannot combine segmentId with language, tagsAny, or tagsAll'')
              else bindE (resolveActiveForCampaign d tenantId (coalesce (ad_segmentId audience) [])) (\<lambda>segment.
                Inr \<lparr>na_allOptedIn = False, na_contactIds = None, na_segmentId = Some (rs_id segment), na_segmentName = Some (rs_name segment),
                     na_segmentUpdatedAt = Some (toISOString dates (rs_updatedAt segment)),
                     na_language = sd_language (rs_definition segment), na_tagsAny = sd_tagsAny (rs_definition segment),
                     na_tagsAll = sd_tagsAll (rs_definition segment)\<rparr>)
         else Inr \<lparr>na_allOptedIn = allOptedIn, na_contactIds = (if hasExplicitContacts then Some contactIds else None),
                  na_segmentId = None, na_segmentName = None, na_segmentUpdatedAt = None, na_language = nonempty language,
                  na_tagsAny = nonempty tagsAny, na_tagsAll = nonempty tagsAll\<rparr>)"

definition opt_strings :: "string \<Rightarrow> string list option \<Rightarrow> (string \<times> json) list" where
  "opt_strings k v = (case v of None \<Rightarrow> [] | Some ts \<Rightarrow> [(k, JArr (map JStr ts))])"

definition audience_json :: "NormalizedCampaignAudience \<Rightarrow> json" where
  "audience_json a =
     JObj ([(''allOptedIn'', JBool (na_allOptedIn a))] @ opt_strings ''contactIds'' (na_contactIds a) @ opt_entry ''segmentId'' (na_segmentId a) @
       opt_entry ''segmentName'' (na_segmentName a) @ opt_entry ''segmentUpdatedAt'' (na_segmentUpdatedAt a) @ opt_entry ''language'' (na_language a) @
       opt_strings ''tagsAny'' (na_tagsAny a) @ opt_strings ''tagsAll'' (na_tagsAll a))"

definition readStringArray :: "json option \<Rightarrow> string list" where
  "readStringArray v = (case v of Some (JArr items) \<Rightarrow> campaign_normalizeTags (Val (json_strings items)) | _ \<Rightarrow> [])"

definition json_string :: "json option \<Rightarrow> string option" where
  "json_string v = (case v of Some (JStr s) \<Rightarrow> Some s | _ \<Rightarrow> None)"

definition readAudience :: "json \<Rightarrow> error + NormalizedCampaignAudience" where
  "readAudience v =
     (if \<not> is_plain_object v then Inl (Unprocessable ''Campaign audience snapshot configuration is invalid'')
      else let allOptedIn = (json_get v ''allOptedIn'' = Some (JBool True));
               contactIds = (case json_get v ''contactIds'' of Some (JArr items) \<Rightarrow> json_strings items | _ \<Rightarrow> []);
               hasContacts = (contactIds \<noteq> []);
               segmentId = (case json_string (json_get v ''segmentId'') of None \<Rightarrow> None | Some k \<Rightarrow> nonempty k);
               tagsAny = readStringArray (json_get v ''tagsAny''); tagsAll = readStringArray (json_get v ''tagsAll'')
           in if mode_count allOptedIn hasContacts (segmentId \<noteq> None) \<noteq> 1
              then Inl (Unprocessable ''Campaign audience configuration is ambiguous'')
              else Inr \<lparr>na_allOptedIn = allOptedIn, na_contactIds = (if hasContacts then Some contactIds else None), na_segmentId = segmentId,
                       na_segmentName = json_string (json_get v ''segmentName''), na_segmentUpdatedAt = json_string (json_get v ''segmentUpdatedAt''),
                       na_language = (case json_string (json_get v ''language'') of None \<Rightarrow> None | Some l \<Rightarrow> nonempty l),
                       na_tagsAny = nonempty tagsAny, na_tagsAll = nonempty tagsAll\<rparr>)"

text \<open>The \<open>where\<close> clause of the snapshot, with \<open>tagFilter\<close>.\<close>

definition audienceWhere :: "uuid \<Rightarrow> NormalizedCampaignAudience \<Rightarrow> contact_row \<Rightarrow> bool" where
  "audienceWhere tenantId a c \<longleftrightarrow>
     c_tenantId c = tenantId \<and> c_consentStatus c = ConsentStatus.OPTED_IN \<and> language_matches (na_language a) c \<and>
     (case na_contactIds a of None \<Rightarrow> True | Some ks \<Rightarrow> List.member ks (c_id c)) \<and> tags_match (na_tagsAny a) (na_tagsAll a) c"

section \<open>Drafts\<close>

record create_campaign_dto =
  kd_name :: string
  kd_senderId :: "uuid option"
  kd_templateId :: uuid
  kd_audience :: CampaignAudienceDto
  kd_personalizationEnabled :: "bool field"
  kd_components :: "json list field"
  kd_scheduledAt :: "string option"

definition assertMarketingTemplate :: "template_row \<Rightarrow> string \<Rightarrow> error + unit" where
  "assertMarketingTemplate template senderWabaId =
     (if t_wabaId template \<noteq> senderWabaId then Inl (Unprocessable ''Campaign template does not belong to the selected sender WABA'')
      else if js_upper (t_status template) \<noteq> ''APPROVED'' then Inl (Unprocessable ''Campaign template must be APPROVED'')
      else if map_option js_upper (t_category template) \<noteq> Some ''MARKETING'' then Inl (Unprocessable ''Campaigns require a MARKETING template'')
      else Inr ())"

definition TemplatesService_findById :: "db \<Rightarrow> uuid \<Rightarrow> uuid \<Rightarrow> error + template_row" where
  "TemplatesService_findById d tenantId k =
     (case findFirst (\<lambda>t. t_id t = k \<and> t_tenantId t = tenantId) (templates d) of
        None \<Rightarrow> Inl (NotFound ''Message template not found'') | Some t \<Rightarrow> Inr t)"

definition assertComponentsValid :: "json list \<Rightarrow> error + unit" where
  "assertComponentsValid components =
     (case validateCampaignComponents (JArr components) of Inl m \<Rightarrow> Inl (BadRequest m) | Inr _ \<Rightarrow> Inr ())"

definition scheduled_date :: "js_dates \<Rightarrow> string option \<Rightarrow> error + time option" where
  "scheduled_date dates raw =
     (case raw of
        None \<Rightarrow> Inr None
      | Some s \<Rightarrow> if s = [] then Inr None
          else (case parse_date dates s of
                  None \<Rightarrow> Inl (BadRequest ''scheduledAt must be a valid ISO date-time'') | Some t \<Rightarrow> Inr (Some t)))"

definition waba_of :: "sender_row \<Rightarrow> string option" where
  "waba_of sender = (case s_wabaId sender of None \<Rightarrow> None | Some w \<Rightarrow> nonempty w)"

definition draft_campaign ::
  "uuid \<Rightarrow> uuid \<Rightarrow> uuid \<Rightarrow> uuid \<Rightarrow> string \<Rightarrow> json \<Rightarrow> json option \<Rightarrow> bool \<Rightarrow> time option \<Rightarrow> time \<Rightarrow> campaign_row" where
  "draft_campaign newId tenantId senderId templateId name audience components personalizationEnabled scheduledAt now =
     \<lparr>k_id = newId, k_tenantId = tenantId, k_senderId = senderId, k_templateId = templateId, k_name = name, k_status = DRAFT,
      k_audience = audience, k_components = components, k_personalizationEnabled = personalizationEnabled, k_scheduledAt = scheduledAt,
      k_snapshotAt = None, k_startedAt = None, k_completedAt = None, k_cancelledAt = None, k_failureReason = None, k_totalRecipients = 0,
      k_queuedRecipients = 0, k_skippedRecipients = 0, k_failedRecipients = 0, k_cancelledRecipients = 0, k_createdAt = now\<rparr>"

definition CampaignsService_create ::
  "js_dates \<Rightarrow> db \<Rightarrow> db \<Rightarrow> uuid \<Rightarrow> create_campaign_dto \<Rightarrow> uuid \<Rightarrow> time \<Rightarrow> error + campaign_row \<times> db" where
  "CampaignsService_create dates d d' tenantId dto newId now =
     (let personalizationEnabled = (kd_personalizationEnabled dto = Val True); name = js_trim (kd_name dto)
      in bindE (normalizeAudience dates d tenantId (kd_audience dto)) (\<lambda>audience.
         bindE (throwIf (name = []) (BadRequest ''Campaign name must contain non-whitespace characters'')) (\<lambda>_.
         bindE (case kd_components dto of
                  Val cs \<Rightarrow> if personalizationEnabled then assertComponentsValid cs else Inr ()
                | _ \<Rightarrow> Inr ()) (\<lambda>_.
         bindE (resolveForTenant d tenantId (kd_senderId dto)) (\<lambda>sender.
         case waba_of sender of
           None \<Rightarrow> Inl (Unprocessable ''The selected WhatsApp sender is missing its WABA ID'')
         | Some w \<Rightarrow>
             bindE (TemplatesService_findById d tenantId (kd_templateId dto)) (\<lambda>template.
             bindE (assertMarketingTemplate template w) (\<lambda>_.
             bindE (scheduled_date dates (kd_scheduledAt dto)) (\<lambda>scheduledAt.
               let campaign = draft_campaign newId tenantId (s_id sender) (t_id template) name (audience_json audience)
                     (case kd_components dto of Val cs \<Rightarrow> Some (JArr cs) | _ \<Rightarrow> None) personalizationEnabled scheduledAt now
               in if newId \<in> k_id ` set (campaigns d') then Inl UNIQUE_VIOLATION
                  else Inr (campaign, d'\<lparr>campaigns := campaigns d' @ [campaign]\<rparr>)))))))))"

definition CampaignsService_findById :: "db \<Rightarrow> uuid \<Rightarrow> uuid \<Rightarrow> error + campaign_row" where
  "CampaignsService_findById d tenantId k =
     (case findFirst (\<lambda>c. k_id c = k \<and> k_tenantId c = tenantId) (campaigns d) of
        None \<Rightarrow> Inl (NotFound ''Campaign not found'') | Some c \<Rightarrow> Inr c)"

section \<open>Launching\<close>

fun campaign_status_name :: "CampaignStatus \<Rightarrow> string" where
  "campaign_status_name DRAFT = ''DRAFT''"
| "campaign_status_name SCHEDULED = ''SCHEDULED''"
| "campaign_status_name RUNNING = ''RUNNING''"
| "campaign_status_name PAUSED = ''PAUSED''"
| "campaign_status_name COMPLETED = ''COMPLETED''"
| "campaign_status_name CampaignStatus.CANCELLED = ''CANCELLED''"
| "campaign_status_name CampaignStatus.FAILED = ''FAILED''"

definition wrong_state :: "campaign_row \<Rightarrow> string \<Rightarrow> error" where
  "wrong_state c what = Conflict (''Campaign in '' @ campaign_status_name (k_status c) @ '' state cannot be '' @ what)"

definition maxRecipients :: "string option \<Rightarrow> nat" where
  "maxRecipients raw =
     (case (case raw of None \<Rightarrow> Some 50000 | Some s \<Rightarrow> js_number s) of
        None \<Rightarrow> 50000
      | Some v \<Rightarrow> (case rat_nat v of Some n \<Rightarrow> if 0 < n then min n 50000 else 50000 | None \<Rightarrow> 50000))"

definition new_recipient :: "uuid \<Rightarrow> (uuid \<Rightarrow> uuid) \<Rightarrow> time \<Rightarrow> uuid \<Rightarrow> recipient_row" where
  "new_recipient campaignId newId now contactId =
     \<lparr>r_id = newId contactId, r_campaignId = campaignId, r_contactId = contactId, r_messageId = None,
      r_status = CampaignRecipientStatus.PENDING, r_attemptCount = 0, r_nextAttemptAt = now, r_processingLeaseUntil = None, r_lastError = None,
      r_queuedAt = None, r_createdAt = now\<rparr>"

definition recipient_conflict :: "recipient_row \<Rightarrow> recipient_row \<Rightarrow> bool" where
  "recipient_conflict r x \<longleftrightarrow> r_id x = r_id r \<or> r_campaignId x = r_campaignId r \<and> r_contactId x = r_contactId r"

text \<open>\<open>createMany\<close> with \<open>skipDuplicates\<close>.\<close>

fun createRecipients :: "recipient_row list \<Rightarrow> recipient_row list \<Rightarrow> recipient_row list" where
  "createRecipients rows [] = rows"
| "createRecipients rows (r # rs) = createRecipients (if list_ex (recipient_conflict r) rows then rows else rows @ [r]) rs"

text \<open>The loop over batches of 1000.\<close>

function launch_loop :: "nat \<Rightarrow> recipient_row list \<Rightarrow> recipient_row list \<Rightarrow> recipient_row list" where
  "launch_loop offset batch rows =
     (if offset < length batch then launch_loop (offset + 1000) batch (createRecipients rows (subarray batch offset 1000)) else rows)"
  by pat_completeness auto
termination by (relation "measure (\<lambda>(offset, batch, rows). length batch - offset)") auto

declare launch_loop.simps [simp del]

definition launched_status :: "nat \<Rightarrow> campaign_row \<Rightarrow> time \<Rightarrow> CampaignStatus" where
  "launched_status n campaign now =
     (if n = 0 then COMPLETED
      else case k_scheduledAt campaign of Some t \<Rightarrow> if t > now then SCHEDULED else RUNNING | None \<Rightarrow> RUNNING)"

definition launched :: "nat \<Rightarrow> time \<Rightarrow> campaign_row \<Rightarrow> campaign_row" where
  "launched n now c =
     (let status = launched_status n c now
      in c\<lparr>k_status := status, k_snapshotAt := Some now, k_totalRecipients := n,
           k_startedAt := (if status = RUNNING then Some now else k_startedAt c),
           k_completedAt := (if status = COMPLETED then Some now else k_completedAt c)\<rparr>)"

definition audience_contacts :: "db \<Rightarrow> uuid \<Rightarrow> NormalizedCampaignAudience \<Rightarrow> nat \<Rightarrow> uuid list" where
  "audience_contacts d tenantId a limit = take (limit + 1) (map c_id (sort_key c_id (filter (audienceWhere tenantId a) (contacts d))))"

definition RELATION_ERROR :: error where
  "RELATION_ERROR = Error ''Inconsistent query result''"

definition launch_draft :: "db \<Rightarrow> uuid \<Rightarrow> campaign_row \<Rightarrow> nat \<Rightarrow> (uuid \<Rightarrow> uuid) \<Rightarrow> time \<Rightarrow> error + campaign_row \<times> db" where
  "launch_draft d tenantId campaign limit newId now =
     (case (findSender (k_senderId campaign) (senders d), findTemplate (k_templateId campaign) (templates d)) of
        (Some sender, Some template) \<Rightarrow>
          (case (if s_active sender then waba_of sender else None) of
             None \<Rightarrow> Inl (Unprocessable ''Campaign sender is inactive or missing its WABA ID'')
           | Some w \<Rightarrow>
               bindE (assertMarketingTemplate template w) (\<lambda>_.
               bindE (readAudience (k_audience campaign)) (\<lambda>audience.
                 let contactIds = audience_contacts d tenantId audience limit
                 in if length contactIds > limit
                    then Inl (BadRequest (''Campaign audience exceeds CAMPAIGN_MAX_RECIPIENTS ('' @ nat_string limit @ '')''))
                    else Inr (launched (length contactIds) now campaign,
                      d\<lparr>campaigns := updateCampaign (k_id campaign) (launched (length contactIds) now) (campaigns d),
                        campaignRecipients := launch_loop 0 (map (new_recipient (k_id campaign) newId now) contactIds) (campaignRecipients d)\<rparr>))))
      | _ \<Rightarrow> Inl RELATION_ERROR)"

definition CampaignsService_launch :: "db \<Rightarrow> uuid \<Rightarrow> uuid \<Rightarrow> string option \<Rightarrow> (uuid \<Rightarrow> uuid) \<Rightarrow> time \<Rightarrow> error + campaign_row \<times> db" where
  "CampaignsService_launch d tenantId k rawMax newId now =
     bindE (CampaignsService_findById d tenantId k) (\<lambda>campaign.
       if k_snapshotAt campaign \<noteq> None \<and> k_status campaign \<in> {SCHEDULED, RUNNING, COMPLETED} then Inr (campaign, d)
       else if k_status campaign \<noteq> DRAFT then Inl (wrong_state campaign ''launched'')
       else launch_draft d tenantId campaign (maxRecipients rawMax) newId now)"

section \<open>Pausing, resuming, cancelling, failing\<close>

definition campaign_is :: "uuid \<Rightarrow> uuid \<Rightarrow> CampaignStatus set \<Rightarrow> campaign_row \<Rightarrow> bool" where
  "campaign_is tenantId k sts c \<longleftrightarrow> k_id c = k \<and> k_tenantId c = tenantId \<and> k_status c \<in> sts"

definition CampaignsService_pause :: "db \<Rightarrow> uuid \<Rightarrow> uuid \<Rightarrow> error + campaign_row \<times> db" where
  "CampaignsService_pause d tenantId k =
     (let p = campaign_is tenantId k {RUNNING, SCHEDULED}
      in if countWhere p (campaigns d) = 0
         then bindE (CampaignsService_findById d tenantId k) (\<lambda>campaign.
                if k_status campaign = PAUSED then Inr (campaign, d) else Inl (wrong_state campaign ''paused''))
         else let d' = d\<lparr>campaigns := updateMany p (\<lambda>c. c\<lparr>k_status := PAUSED\<rparr>) (campaigns d)\<rparr>
              in bindE (CampaignsService_findById d' tenantId k) (\<lambda>campaign. Inr (campaign, d')))"

definition resumed_status :: "campaign_row \<Rightarrow> time \<Rightarrow> CampaignStatus" where
  "resumed_status campaign now = (case k_scheduledAt campaign of Some t \<Rightarrow> if t > now then SCHEDULED else RUNNING | None \<Rightarrow> RUNNING)"

definition CampaignsService_resume :: "db \<Rightarrow> db \<Rightarrow> uuid \<Rightarrow> uuid \<Rightarrow> time \<Rightarrow> error + campaign_row \<times> db" where
  "CampaignsService_resume d d' tenantId k now =
     bindE (CampaignsService_findById d tenantId k) (\<lambda>campaign.
       if k_status campaign \<noteq> PAUSED then Inl (wrong_state campaign ''resumed'')
       else let status = resumed_status campaign now;
                p = campaign_is tenantId k {PAUSED};
                f = (\<lambda>c. c\<lparr>k_status := status,
                       k_startedAt := (if status = RUNNING \<and> k_startedAt campaign = None then Some now else k_startedAt c)\<rparr>)
            in if countWhere p (campaigns d') = 0
               then bindE (CampaignsService_findById d' tenantId k) (\<lambda>current. Inl (wrong_state current ''resumed''))
               else let d1 = d'\<lparr>campaigns := updateMany p f (campaigns d')\<rparr>
                    in bindE (CampaignsService_findById d1 tenantId k) (\<lambda>current. Inr (current, d1)))"

definition pending_of :: "uuid \<Rightarrow> recipient_row \<Rightarrow> bool" where
  "pending_of k r \<longleftrightarrow> r_campaignId r = k \<and> r_status r = CampaignRecipientStatus.PENDING"

definition close_pending :: "uuid \<Rightarrow> CampaignRecipientStatus \<Rightarrow> string \<Rightarrow> recipient_row list \<Rightarrow> recipient_row list" where
  "close_pending k status reason rows =
     updateMany (pending_of k) (\<lambda>r. r\<lparr>r_status := status, r_processingLeaseUntil := None, r_lastError := Some reason\<rparr>) rows"

definition cancel_transaction :: "db \<Rightarrow> uuid \<Rightarrow> uuid \<Rightarrow> time \<Rightarrow> db option" where
  "cancel_transaction d tenantId k cancelledAt =
     (let p = campaign_is tenantId k {DRAFT, SCHEDULED, RUNNING, PAUSED}
      in if countWhere p (campaigns d) = 0 then None
         else Some (d\<lparr>campaigns := updateMany p (\<lambda>c. c\<lparr>k_status := CampaignStatus.CANCELLED, k_cancelledAt := Some cancelledAt\<rparr>) (campaigns d),
                campaignRecipients := close_pending k CampaignRecipientStatus.CANCELLED ''Campaign cancelled before recipient processing''
                  (campaignRecipients d)\<rparr>))"

record recipient_stats =
  st_pending :: nat
  st_processing :: nat
  st_queued :: nat
  st_skipped :: nat
  st_failed :: nat
  st_cancelled :: nat

definition refreshStats_read :: "db \<Rightarrow> uuid \<Rightarrow> recipient_stats" where
  "refreshStats_read d k =
     (let count = (\<lambda>s. countWhere (\<lambda>r. r_campaignId r = k \<and> r_status r = s) (campaignRecipients d))
      in \<lparr>st_pending = count CampaignRecipientStatus.PENDING, st_processing = count CampaignRecipientStatus.PROCESSING,
          st_queued = count CampaignRecipientStatus.QUEUED, st_skipped = count SKIPPED, st_failed = count CampaignRecipientStatus.FAILED,
          st_cancelled = count CampaignRecipientStatus.CANCELLED\<rparr>)"

definition refreshStats_write :: "recipient_stats \<Rightarrow> db \<Rightarrow> uuid \<Rightarrow> time \<Rightarrow> db" where
  "refreshStats_write st d k now =
     (let rows = updateMany (\<lambda>c. k_id c = k) (\<lambda>c. c\<lparr>k_queuedRecipients := st_queued st, k_skippedRecipients := st_skipped st,
            k_failedRecipients := st_failed st, k_cancelledRecipients := st_cancelled st\<rparr>) (campaigns d)
      in if countWhere (\<lambda>c. k_id c = k) (campaigns d) = 0 then d
         else if st_pending st = 0 \<and> st_processing st = 0
         then d\<lparr>campaigns := updateMany (\<lambda>c. k_id c = k \<and> k_status c = RUNNING)
                  (\<lambda>c. c\<lparr>k_status := COMPLETED, k_completedAt := Some now\<rparr>) rows\<rparr>
         else d\<lparr>campaigns := rows\<rparr>)"

definition refreshStats :: "db \<Rightarrow> uuid \<Rightarrow> time \<Rightarrow> db" where
  "refreshStats d k now = refreshStats_write (refreshStats_read d k) d k now"

definition CampaignsService_cancel :: "db \<Rightarrow> db \<Rightarrow> uuid \<Rightarrow> uuid \<Rightarrow> time \<Rightarrow> error + campaign_row \<times> db" where
  "CampaignsService_cancel d d' tenantId k now =
     bindE (CampaignsService_findById d tenantId k) (\<lambda>existing.
       if k_status existing = CampaignStatus.CANCELLED then Inr (existing, d')
       else if k_status existing \<in> {COMPLETED, CampaignStatus.FAILED} then Inl (wrong_state existing ''cancelled'')
       else case cancel_transaction d' tenantId k now of
              None \<Rightarrow> bindE (CampaignsService_findById d' tenantId k) (\<lambda>current.
                if k_status current = CampaignStatus.CANCELLED then Inr (current, d') else Inl (wrong_state current ''cancelled''))
            | Some d1 \<Rightarrow>
                let d2 = refreshStats d1 k now in bindE (CampaignsService_findById d2 tenantId k) (\<lambda>current. Inr (current, d2)))"

definition failCampaign :: "db \<Rightarrow> uuid \<Rightarrow> string \<Rightarrow> bool \<times> db" where
  "failCampaign d k reason =
     (let failureReason = take 2000 reason; p = (\<lambda>c. k_id c = k \<and> k_status c \<in> {RUNNING, SCHEDULED})
      in if countWhere p (campaigns d) = 0 then (False, d)
         else (True, d\<lparr>campaigns := updateMany p (\<lambda>c. c\<lparr>k_status := CampaignStatus.FAILED, k_failureReason := Some failureReason\<rparr>) (campaigns d),
                 campaignRecipients := close_pending k CampaignRecipientStatus.FAILED failureReason (campaignRecipients d)\<rparr>))"

section \<open>Stored audiences\<close>

definition fixed_tags :: "string list \<Rightarrow> bool" where
  "fixed_tags ts \<longleftrightarrow> ts \<noteq> [] \<and> sorted ts \<and> distinct ts \<and> list_all (\<lambda>t. js_lower (js_trim t) = t) ts"

definition audience_ok :: "NormalizedCampaignAudience \<Rightarrow> bool" where
  "audience_ok a \<longleftrightarrow>
     mode_count (na_allOptedIn a) (na_contactIds a \<noteq> None) (na_segmentId a \<noteq> None) = 1 \<and>
     na_contactIds a \<noteq> Some [] \<and> na_segmentId a \<noteq> Some [] \<and> na_language a \<noteq> Some [] \<and>
     (case na_tagsAny a of None \<Rightarrow> True | Some ts \<Rightarrow> fixed_tags ts) \<and> (case na_tagsAll a of None \<Rightarrow> True | Some ts \<Rightarrow> fixed_tags ts)"

lemma js_space_lower [simp]: "js_space (lower_char c) = js_space c"
proof -
  have "(of_char c :: nat) < 256" by simp
  then show ?thesis by (auto simp: js_space_def lower_char_def Let_def)
qed

lemma js_trim_lower: "js_trim (js_lower (js_trim t)) = js_lower (js_trim t)"
proof (cases "js_trim t = []")
  case True
  then show ?thesis by (simp add: js_lower_def js_trim_def [of "[]"])
next
  case False
  with js_trim_ends [OF False] show ?thesis by (intro js_trim_id) (simp_all add: js_lower_def hd_map last_map)
qed

lemma campaign_normalizeTags_fixed: "campaign_normalizeTags f = [] \<or> fixed_tags (campaign_normalizeTags f)"
  by (auto simp: campaign_normalizeTags_def fixed_tags_def list_all_iff js_trim_lower)

lemma campaign_normalizeTags_again: "fixed_tags ts \<Longrightarrow> campaign_normalizeTags (Val ts) = ts"
proof -
  assume ts: "fixed_tags ts"
  then have "map (\<lambda>tag. js_lower (js_trim tag)) ts = ts" by (intro map_idI) (simp add: fixed_tags_def list_all_iff)
  with ts show ?thesis by (simp add: campaign_normalizeTags_def fixed_tags_def js_set_id sorted_sort_id)
qed

lemma normal_tags_fixed: "normal_tags ts \<Longrightarrow> fixed_tags ts"
  by (auto simp: normal_tags_def fixed_tags_def list_all_iff TAG_PATTERN_trim)

lemma nonempty_simps [simp]: "nonempty xs \<noteq> Some []" "nonempty xs = Some ys \<longleftrightarrow> xs = ys \<and> ys \<noteq> []" "nonempty xs = None \<longleftrightarrow> xs = []"
  by (auto simp: nonempty_def)

lemma resolved_definition_normal: "resolveActiveForCampaign d t k = Inr seg \<Longrightarrow> rs_id seg = k \<and> normal_definition (rs_definition seg)"
  by (auto simp: resolveActiveForCampaign_def readDefinition_def readPersistedSegmentDefinition_def Let_def bindE_Inr
      split: option.split_asm sum.split_asm if_split_asm dest!: findFirst_SomeD normalizeSegmentDefinition_normal)

lemma normalizeAudience_ok:
  assumes "normalizeAudience dates d tenantId dto = Inr a"
  shows "audience_ok a"
proof (cases "case ad_segmentId dto of Val k \<Rightarrow> k \<noteq> [] | _ \<Rightarrow> False")
  case True
  with assms obtain seg where seg: "resolveActiveForCampaign d tenantId (coalesce (ad_segmentId dto) []) = Inr seg"
    and a: "a = \<lparr>na_allOptedIn = False, na_contactIds = None, na_segmentId = Some (rs_id seg), na_segmentName = Some (rs_name seg),
       na_segmentUpdatedAt = Some (toISOString dates (rs_updatedAt seg)), na_language = sd_language (rs_definition seg),
       na_tagsAny = sd_tagsAny (rs_definition seg), na_tagsAll = sd_tagsAll (rs_definition seg)\<rparr>"
    by (auto simp: normalizeAudience_def Let_def bindE_Inr split: if_split_asm)
  from resolved_definition_normal [OF seg] True show ?thesis
    by (auto simp: a audience_ok_def mode_count_def normal_definition_def normal_tags_fixed split: option.splits field.splits)
next
  case False
  have tags: "case nonempty (campaign_normalizeTags f) of None \<Rightarrow> True | Some ts \<Rightarrow> fixed_tags ts" for f
    using campaign_normalizeTags_fixed [of f] by (auto simp: nonempty_def)
  let ?ids = "filter (\<lambda>k. k \<noteq> []) (coalesce (ad_contactIds dto) [])"
  from assms False have m: "mode_count (ad_allOptedIn dto = Val True) (?ids \<noteq> []) False = 1"
    by (auto simp: normalizeAudience_def Let_def simp del: filter_empty_conv split: if_split_asm)
  with assms False have "a = \<lparr>na_allOptedIn = (ad_allOptedIn dto = Val True), na_contactIds = (if ?ids \<noteq> [] then Some ?ids else None),
      na_segmentId = None, na_segmentName = None, na_segmentUpdatedAt = None, na_language = nonempty (js_trim (coalesce (ad_language dto) [])),
      na_tagsAny = nonempty (campaign_normalizeTags (ad_tagsAny dto)), na_tagsAll = nonempty (campaign_normalizeTags (ad_tagsAll dto))\<rparr>"
    by (simp add: normalizeAudience_def Let_def del: filter_empty_conv nonempty_simps)
  with m tags show ?thesis by (cases "?ids = []") (simp_all add: audience_ok_def del: filter_empty_conv)
qed

lemma map_of_opt_entry [simp]: "map_of (opt_entry k v @ xs) j = (if j = k \<and> v \<noteq> None then map_option JStr v else map_of xs j)"
  by (cases v) (auto simp: opt_entry_def)

lemma map_of_opt_strings [simp]:
  "map_of (opt_strings k v @ xs) j = (if j = k \<and> v \<noteq> None then map_option (\<lambda>ts. JArr (map JStr ts)) v else map_of xs j)"
  "map_of (opt_strings k v) j = (if j = k then map_option (\<lambda>ts. JArr (map JStr ts)) v else None)"
  by (cases v; auto simp: opt_strings_def)+

lemma readAudience_json:
  assumes "audience_ok a"
  shows "readAudience (audience_json a) = Inr a"
proof -
  have get: "json_get (audience_json a) ''allOptedIn'' = Some (JBool (na_allOptedIn a))"
    "json_get (audience_json a) ''contactIds'' = map_option (\<lambda>ts. JArr (map JStr ts)) (na_contactIds a)"
    "json_get (audience_json a) ''segmentId'' = map_option JStr (na_segmentId a)"
    "json_get (audience_json a) ''segmentName'' = map_option JStr (na_segmentName a)"
    "json_get (audience_json a) ''segmentUpdatedAt'' = map_option JStr (na_segmentUpdatedAt a)"
    "json_get (audience_json a) ''language'' = map_option JStr (na_language a)"
    "json_get (audience_json a) ''tagsAny'' = map_option (\<lambda>ts. JArr (map JStr ts)) (na_tagsAny a)"
    "json_get (audience_json a) ''tagsAll'' = map_option (\<lambda>ts. JArr (map JStr ts)) (na_tagsAll a)"
    by (simp_all add: audience_json_def del: map_of_append)
  have str: "json_string (map_option JStr v) = v" for v by (cases v) (simp_all add: json_string_def)
  have ne: "v \<noteq> Some [] \<Longrightarrow> (case v of None \<Rightarrow> None | Some k \<Rightarrow> nonempty k) = v" for v :: "string option"
    by (cases v) (auto simp: nonempty_def)
  have tags: "(case v of None \<Rightarrow> True | Some ts \<Rightarrow> fixed_tags ts) \<Longrightarrow>
      nonempty (readStringArray (map_option (\<lambda>ts. JArr (map JStr ts)) v)) = v" for v
    by (cases v) (auto simp: readStringArray_def nonempty_def campaign_normalizeTags_again fixed_tags_def)
  have p: "is_plain_object (audience_json a)" by (simp add: audience_json_def)
  from assms have ok: "mode_count (na_allOptedIn a) (na_contactIds a \<noteq> None) (na_segmentId a \<noteq> None) = 1" "na_contactIds a \<noteq> Some []"
    "na_segmentId a \<noteq> Some []" "na_language a \<noteq> Some []" "case na_tagsAny a of None \<Rightarrow> True | Some ts \<Rightarrow> fixed_tags ts"
    "case na_tagsAll a of None \<Rightarrow> True | Some ts \<Rightarrow> fixed_tags ts" by (simp_all add: audience_ok_def)
  show ?thesis
    using ok(1,2)
    by (cases "na_contactIds a")
      (simp_all add: readAudience_def p get str ne [OF ok(3)] ne [OF ok(4)] tags [OF ok(5)] tags [OF ok(6)] Let_def)
qed

section \<open>Snapshots\<close>

lemma createRecipients_append: "createRecipients rows (xs @ ys) = createRecipients (createRecipients rows xs) ys"
  by (induction xs arbitrary: rows) simp_all

lemma launch_loop_all: "launch_loop offset batch rows = createRecipients rows (drop offset batch)"
proof (induction offset batch rows rule: launch_loop.induct)
  case (1 offset batch rows)
  have "drop offset batch = subarray batch offset 1000 @ drop (offset + 1000) batch"
    by (metis append_take_drop_id drop_drop subarray_def add.commute)
  then have "createRecipients rows (drop offset batch) =
      createRecipients (createRecipients rows (subarray batch offset 1000)) (drop (offset + 1000) batch)"
    by (simp only: createRecipients_append)
  with 1 show ?case by (subst launch_loop.simps) (simp add: subarray_def)
qed

lemma createRecipients_fresh:
  assumes "distinct (map r_id rs)" and "distinct (map (\<lambda>r. (r_campaignId r, r_contactId r)) rs)"
    and "\<And>r x. r \<in> set rs \<Longrightarrow> x \<in> set rows \<Longrightarrow> \<not> recipient_conflict r x"
  shows "createRecipients rows rs = rows @ rs"
  using assms
proof (induction rs arbitrary: rows)
  case (Cons r rs)
  have "\<not> list_ex (recipient_conflict r) rows" using Cons.prems(3) [of r] by (auto simp: list_ex_iff)
  moreover have "createRecipients (rows @ [r]) rs = (rows @ [r]) @ rs"
  proof (rule Cons.IH)
    fix x y assume "x \<in> set rs" "y \<in> set (rows @ [r])"
    with Cons.prems show "\<not> recipient_conflict x y" by (fastforce simp: recipient_conflict_def)
  qed (use Cons.prems in auto)
  ultimately show ?case by simp
qed simp

text \<open>The ids generated for the recipients of a launch: one per contact, none in use.\<close>

definition fresh_recipients :: "(uuid \<Rightarrow> uuid) \<Rightarrow> recipient_row list \<Rightarrow> bool" where
  "fresh_recipients newId rows \<longleftrightarrow> inj newId \<and> (\<forall>x. newId x \<notin> r_id ` set rows)"

lemma new_recipient_sel [simp]:
  "r_id (new_recipient k newId now x) = newId x" "r_campaignId (new_recipient k newId now x) = k" "r_contactId (new_recipient k newId now x) = x"
  "r_status (new_recipient k newId now x) = CampaignRecipientStatus.PENDING" "r_messageId (new_recipient k newId now x) = None"
  "r_processingLeaseUntil (new_recipient k newId now x) = None"
  by (simp_all add: new_recipient_def)

lemma launch_loop_fresh:
  assumes "distinct ids" and "fresh_recipients newId rows" and "\<forall>r \<in> set rows. r_campaignId r \<noteq> k"
  shows "launch_loop 0 (map (new_recipient k newId now) ids) rows = rows @ map (new_recipient k newId now) ids"
  using assms unfolding launch_loop_all
  by (simp, intro createRecipients_fresh)
    (auto simp: distinct_map inj_on_def fresh_recipients_def inj_def recipient_conflict_def image_iff, metis)

lemma launch_draft_Inr:
  assumes "launch_draft d tenantId campaign limit newId now = Inr (c, d')"
  obtains a ids where "readAudience (k_audience campaign) = Inr a" and "ids = audience_contacts d tenantId a limit"
    and "length ids \<le> limit" and "c = launched (length ids) now campaign"
    and "d' = d\<lparr>campaigns := updateCampaign (k_id campaign) (launched (length ids) now) (campaigns d),
       campaignRecipients := launch_loop 0 (map (new_recipient (k_id campaign) newId now) ids) (campaignRecipients d)\<rparr>"
  using assms unfolding launch_draft_def
  by (auto simp: Let_def bindE_Inr split: prod.split_asm option.split_asm if_split_asm)

lemma audience_contacts_all:
  assumes "length (audience_contacts d t a n) \<le> n"
  shows "audience_contacts d t a n = map c_id (sort_key c_id (filter (audienceWhere t a) (contacts d)))"
  using assms unfolding audience_contacts_def by simp

text \<open>
  C36. Launching a draft takes a snapshot of its audience: one pending recipient for each contact of the tenant that has
  opted in and matches the criteria chosen at creation, in the order of ids, at most the configured maximum, with the total and the
  status that follow; recipients of other campaigns are kept.
\<close>

theorem launch_snapshots_audience:
  assumes "normalizeAudience dates d0 tenantId dto = Inr a" and "k_audience campaign = audience_json a"
    and "CampaignsService_findById d tenantId k = Inr campaign" and "k_status campaign = DRAFT"
    and "\<forall>r \<in> set (campaignRecipients d). r_campaignId r \<noteq> k" and "distinct (map c_id (contacts d))"
    and "fresh_recipients newId (campaignRecipients d)"
    and "CampaignsService_launch d tenantId k rawMax newId now = Inr (c, d')"
  shows "let chosen = map c_id (sort_key c_id (filter (audienceWhere tenantId a) (contacts d)))
    in campaignRecipients d' = campaignRecipients d @ map (new_recipient k newId now) chosen \<and>
       length chosen \<le> maxRecipients rawMax \<and> k_totalRecipients c = length chosen \<and>
       findCampaign k (campaigns d') = map_option (launched (length chosen) now) (findCampaign k (campaigns d)) \<and>
       k_status c = (if chosen = [] then COMPLETED else if (\<exists>t > now. k_scheduledAt campaign = Some t) then SCHEDULED else RUNNING)"
proof -
  from assms(3) have k: "k_id campaign = k" by (auto simp: CampaignsService_findById_def dest!: findFirst_SomeD split: option.splits)
  from assms(3,4,8) have "launch_draft d tenantId campaign (maxRecipients rawMax) newId now = Inr (c, d')"
    by (simp add: CampaignsService_launch_def)
  from launch_draft_Inr [OF this] readAudience_json [OF normalizeAudience_ok [OF assms(1)]] assms(2)
  obtain ids where ids: "ids = audience_contacts d tenantId a (maxRecipients rawMax)" "length ids \<le> maxRecipients rawMax"
    and c: "c = launched (length ids) now campaign"
    and d': "d' = d\<lparr>campaigns := updateCampaign k (launched (length ids) now) (campaigns d),
       campaignRecipients := launch_loop 0 (map (new_recipient k newId now) ids) (campaignRecipients d)\<rparr>"
    unfolding k by (metis sum.inject(2))
  have chosen: "ids = map c_id (sort_key c_id (filter (audienceWhere tenantId a) (contacts d)))"
    using audience_contacts_all ids by metis
  have "distinct (map c_id (filter (audienceWhere tenantId a) (contacts d)))" using assms(6) by (rule distinct_map_filter)
  then have "distinct ids" unfolding chosen by (simp add: distinct_map)
  from launch_loop_fresh [OF this assms(7,5)] d'
  have rows: "campaignRecipients d' = campaignRecipients d @ map (new_recipient k newId now) ids" by simp
  have "findCampaign k (campaigns d') = map_option (launched (length ids) now) (findCampaign k (campaigns d))"
    unfolding d' by (simp add: campaign_table.fetch_modify launched_def Let_def)
  with rows ids(2) c show ?thesis
    unfolding chosen [symmetric] Let_def by (auto simp: launched_def launched_status_def Let_def split: option.splits)
qed

section \<open>Witnesses\<close>

definition sample_audience :: CampaignAudienceDto where
  "sample_audience = \<lparr>ad_allOptedIn = Val True, ad_contactIds = Undefined, ad_segmentId = Undefined, ad_language = Undefined, ad_tagsAny = Undefined,
     ad_tagsAll = Undefined\<rparr>"

definition all_opted_in :: NormalizedCampaignAudience where
  "all_opted_in = \<lparr>na_allOptedIn = True, na_contactIds = None, na_segmentId = None, na_segmentName = None, na_segmentUpdatedAt = None,
     na_language = None, na_tagsAny = None, na_tagsAll = None\<rparr>"

definition sample_draft :: campaign_row where
  "sample_draft = draft_campaign ''k'' ''t'' ''s'' ''m'' ''Offer'' (audience_json all_opted_in) None False None 1"

definition sample_waba_sender :: sender_row where
  "sample_waba_sender = \<lparr>s_id = ''s'', s_tenantId = ''t'', s_providerPhoneNumberId = ''p'', s_wabaId = Some ''w'', s_displayPhoneNumber = None,
     s_verifiedName = None, s_credentialRef = ''env:T'', s_rateLimitPerSecond = None, s_active = True, s_isDefault = True, s_createdAt = 0\<rparr>"

definition sample_marketing_template :: template_row where
  "sample_marketing_template = \<lparr>t_id = ''m'', t_tenantId = ''t'', t_wabaId = ''w'', t_providerTemplateId = ''1'', t_name = ''offer'', t_language = ''es'',
     t_category = Some ''MARKETING'', t_status = ''APPROVED'', t_components = None, t_qualityScore = None, t_rejectionReason = None,
     t_providerPayload = None, t_lastSyncedAt = None\<rparr>"

definition sample_campaign_db :: db where
  "sample_campaign_db = empty_db\<lparr>contacts := [sample_contact], senders := [sample_waba_sender], templates := [sample_marketing_template],
     campaigns := [sample_draft]\<rparr>"

lemma sample_normalized_audience: "normalizeAudience dates d t sample_audience = Inr all_opted_in"
  by (simp add: normalizeAudience_def sample_audience_def all_opted_in_def mode_count_def campaign_normalizeTags_def js_set_def js_trim_def
      nonempty_def Let_def)

lemma sample_marketing: "assertMarketingTemplate sample_marketing_template ''w'' = Inr ()"
  by code_simp

lemma sample_found: "CampaignsService_findById sample_campaign_db ''t'' ''k'' = Inr sample_draft"
  by (simp add: CampaignsService_findById_def sample_campaign_db_def sample_draft_def draft_campaign_def)

lemma sample_chosen:
  "map c_id (sort_key c_id (filter (audienceWhere ''t'' all_opted_in) (contacts sample_campaign_db))) = [''c'']"
  by (simp add: sample_campaign_db_def sample_contact_def audienceWhere_def all_opted_in_def language_matches_def tags_match_def)

lemma sample_launch:
  "CampaignsService_launch sample_campaign_db ''t'' ''k'' None (Cons (CHR ''r'')) 9 =
     Inr (launched 1 9 sample_draft, sample_campaign_db\<lparr>campaigns := [launched 1 9 sample_draft],
       campaignRecipients := [new_recipient ''k'' (Cons (CHR ''r'')) 9 ''c'']\<rparr>)"
proof -
  have r: "readAudience (audience_json all_opted_in) = Inr all_opted_in"
    by (rule readAudience_json) (simp add: audience_ok_def all_opted_in_def mode_count_def)
  have m: "maxRecipients None = 50000" by (simp add: maxRecipients_def rat_nat_def)
  have c: "audience_contacts sample_campaign_db ''t'' all_opted_in 50000 = [''c'']"
    by (simp only: audience_contacts_def sample_chosen) simp
  have s: "findSender ''s'' (senders sample_campaign_db) = Some sample_waba_sender"
    and t: "findTemplate ''m'' (templates sample_campaign_db) = Some sample_marketing_template"
    by (simp_all add: sample_campaign_db_def sample_waba_sender_def sample_marketing_template_def findSender_def findTemplate_def)
  have w: "s_active sample_waba_sender" "waba_of sample_waba_sender = Some ''w''"
    by (simp_all add: sample_waba_sender_def waba_of_def nonempty_def)
  have k: "k_senderId sample_draft = ''s''" "k_templateId sample_draft = ''m''" "k_status sample_draft = DRAFT" "k_snapshotAt sample_draft = None"
    "k_audience sample_draft = audience_json all_opted_in" "k_id sample_draft = ''k''"
    by (simp_all add: sample_draft_def draft_campaign_def)
  have u: "updateCampaign ''k'' f (campaigns sample_campaign_db) = [f sample_draft]" "campaignRecipients sample_campaign_db = []" for f
    by (simp_all add: sample_campaign_db_def updateCampaign_def updateMany_def k empty_db_def)
  have l: "launch_loop 0 (map (new_recipient ''k'' newId 9) [''c'']) [] = [new_recipient ''k'' newId 9 ''c'']" for newId
    by (simp add: launch_loop_all)
  show ?thesis
    by (simp only: CampaignsService_launch_def sample_found bindE.simps k m launch_draft_def s t prod.case option.case if_True w
        sample_marketing r c Let_def u l) simp
qed

theorem launch_snapshots_audience_witness:
  "campaignRecipients (sample_campaign_db\<lparr>campaigns := [launched 1 9 sample_draft],
       campaignRecipients := [new_recipient ''k'' (Cons (CHR ''r'')) 9 ''c'']\<rparr>) = [new_recipient ''k'' (Cons (CHR ''r'')) 9 ''c''] \<and>
   k_status (launched 1 9 sample_draft) = RUNNING \<and> k_totalRecipients (launched 1 9 sample_draft) = 1"
proof -
  have r: "campaignRecipients sample_campaign_db = []" by (simp add: sample_campaign_db_def empty_db_def)
  have ids: "distinct (map c_id (contacts sample_campaign_db))" by (simp add: sample_campaign_db_def)
  have f: "fresh_recipients (Cons (CHR ''r'')) (campaignRecipients sample_campaign_db)"
    by (simp add: fresh_recipients_def inj_def r)
  have k: "k_audience sample_draft = audience_json all_opted_in" "k_status sample_draft = DRAFT" "k_scheduledAt sample_draft = None"
    by (simp_all add: sample_draft_def draft_campaign_def)
  from launch_snapshots_audience [OF sample_normalized_audience k(1) sample_found k(2) _ ids f sample_launch]
  show ?thesis unfolding sample_chosen r Let_def by (simp add: k)
qed

end
