(* ===== verification/Campaign_Processor.thy ===== *)
theory Campaign_Processor
  imports Campaigns Leases
begin

text \<open>
  src/src/campaigns/campaign-processor.service.ts: a poll promotes scheduled campaigns, claims a batch of recipients under a lease and
  processes each: it creates the recipient's message, or closes or releases the recipient. A recipient is processed in
  two parts because other processes run in between: deciding (which reads, and creates the message or fails the campaign) and
  completing the claim, which is guarded by the lease. The timer that starts polls is left out.
\<close>

section \<open>Claims\<close>

record campaign_env =
  pe_url :: url_parser
  pe_maxAttempts :: "string option"
  pe_batchSize :: "string option"
  pe_leaseMs :: "string option"
  pe_trace :: "json option"
  pe_messageIds :: "uuid \<Rightarrow> uuid \<times> uuid \<times> uuid"

definition processor_positiveInteger :: "string option \<Rightarrow> nat \<Rightarrow> nat" where
  "processor_positiveInteger raw fallback =
     (case (case raw of None \<Rightarrow> None | Some s \<Rightarrow> js_number s) of
        None \<Rightarrow> fallback
      | Some v \<Rightarrow> (case rat_nat v of Some n \<Rightarrow> if 0 < n then n else fallback | None \<Rightarrow> fallback))"

definition promoteScheduledCampaigns :: "db \<Rightarrow> time \<Rightarrow> db" where
  "promoteScheduledCampaigns d now =
     d\<lparr>campaigns := updateMany (\<lambda>c. k_status c = SCHEDULED \<and> (case k_scheduledAt c of Some t \<Rightarrow> t \<le> now | None \<Rightarrow> False))
        (\<lambda>c. c\<lparr>k_status := RUNNING, k_startedAt := Some now\<rparr>) (campaigns d)\<rparr>"

definition recipient_ready :: "time \<times> campaign_row list \<Rightarrow> recipient_row \<Rightarrow> bool" where
  "recipient_ready env r \<longleftrightarrow>
     r_status r = CampaignRecipientStatus.PENDING \<and> r_nextAttemptAt r \<le> fst env \<and>
       (case r_processingLeaseUntil r of None \<Rightarrow> True | Some t \<Rightarrow> t \<le> fst env) \<and>
       (case findCampaign (r_campaignId r) (snd env) of Some c \<Rightarrow> k_status c = RUNNING | None \<Rightarrow> False) \<or>
     r_status r = CampaignRecipientStatus.PROCESSING \<and> (case r_processingLeaseUntil r of None \<Rightarrow> False | Some t \<Rightarrow> t \<le> fst env) \<and>
       findCampaign (r_campaignId r) (snd env) \<noteq> None"

definition recipient_lease :: "time \<Rightarrow> recipient_row \<Rightarrow> recipient_row" where
  "recipient_lease until r =
     r\<lparr>r_status := CampaignRecipientStatus.PROCESSING, r_attemptCount := r_attemptCount r + 1, r_processingLeaseUntil := Some until\<rparr>"

definition claim_recipient_rows ::
  "recipient_row list \<Rightarrow> uuid list \<Rightarrow> nat \<Rightarrow> time \<times> campaign_row list \<Rightarrow> time \<Rightarrow> recipient_row list \<times> recipient_row list" where
  "claim_recipient_rows rows locked n env until = claim_rows r_id (recipient_ready env) r_createdAt (recipient_lease until) n locked rows"

interpretation recipient_queue: lease_queue r_id recipient_ready recipient_lease claim_recipient_rows r_createdAt
  "\<lambda>until env. fst env < until"
  by unfold_locales (simp_all add: claim_recipient_rows_def recipient_lease_def recipient_ready_def)

definition claimRecipients :: "campaign_env \<Rightarrow> db \<Rightarrow> uuid list \<Rightarrow> nat \<Rightarrow> time \<Rightarrow> recipient_row list \<times> db" where
  "claimRecipients env d locked batchSize now =
     (case claim_recipient_rows (campaignRecipients d) locked batchSize (now, campaigns d)
             (now + max 5000 (processor_positiveInteger (pe_leaseMs env) 30000)) of
        (claimed, rows) \<Rightarrow> (claimed, d\<lparr>campaignRecipients := rows\<rparr>))"

section \<open>Completing a claim\<close>

record completion =
  cp_status :: CampaignRecipientStatus
  cp_nextAttemptAt :: "time option"
  cp_lastError :: "string option"
  cp_messageId :: "uuid option"
  cp_queuedAt :: "time option"

text \<open>The completions of the code always give \<open>lastError\<close>; a column whose value is \<open>None\<close> otherwise is left alone.\<close>

definition apply_completion :: "completion \<Rightarrow> recipient_row \<Rightarrow> recipient_row" where
  "apply_completion data r =
     r\<lparr>r_status := cp_status data,
       r_nextAttemptAt := (case cp_nextAttemptAt data of None \<Rightarrow> r_nextAttemptAt r | Some t \<Rightarrow> t),
       r_lastError := cp_lastError data,
       r_messageId := (case cp_messageId data of None \<Rightarrow> r_messageId r | Some m \<Rightarrow> Some m),
       r_queuedAt := (case cp_queuedAt data of None \<Rightarrow> r_queuedAt r | Some t \<Rightarrow> Some t),
       r_processingLeaseUntil := None\<rparr>"

definition claim_held :: "recipient_row \<Rightarrow> recipient_row \<Rightarrow> bool" where
  "claim_held claim r \<longleftrightarrow>
     r_id r = r_id claim \<and> r_status r = CampaignRecipientStatus.PROCESSING \<and> r_processingLeaseUntil r = r_processingLeaseUntil claim"

text \<open>\<open>None\<close> is a violation of the unique index on \<open>messageId\<close>.\<close>

definition completeClaim :: "recipient_row \<Rightarrow> completion \<Rightarrow> recipient_row list \<Rightarrow> recipient_row list option" where
  "completeClaim claim data rows =
     (let rows' = updateMany (claim_held claim) (apply_completion data) rows
      in if distinct (List.map_filter r_messageId rows') then Some rows' else None)"

definition closed :: "CampaignRecipientStatus \<Rightarrow> string \<Rightarrow> completion" where
  "closed status reason = \<lparr>cp_status = status, cp_nextAttemptAt = None, cp_lastError = Some reason, cp_messageId = None, cp_queuedAt = None\<rparr>"

definition released :: "time \<Rightarrow> string option \<Rightarrow> completion" where
  "released next reason =
     \<lparr>cp_status = CampaignRecipientStatus.PENDING, cp_nextAttemptAt = Some next, cp_lastError = reason, cp_messageId = None, cp_queuedAt = None\<rparr>"

definition completeAsQueued :: "uuid \<Rightarrow> time \<Rightarrow> completion" where
  "completeAsQueued messageId now =
     \<lparr>cp_status = CampaignRecipientStatus.QUEUED, cp_nextAttemptAt = None, cp_lastError = None, cp_messageId = Some messageId, cp_queuedAt = Some now\<rparr>"

fun completeForCampaignState :: "CampaignStatus \<Rightarrow> string option \<Rightarrow> time \<Rightarrow> completion" where
  "completeForCampaignState CampaignStatus.CANCELLED reason now = closed CampaignRecipientStatus.CANCELLED ''Campaign cancelled while recipient was in flight''"
| "completeForCampaignState CampaignStatus.FAILED reason now =
     closed CampaignRecipientStatus.FAILED (case reason of Some s \<Rightarrow> s | None \<Rightarrow> ''Campaign failed while recipient was in flight'')"
| "completeForCampaignState PAUSED reason now = released now None"
| "completeForCampaignState SCHEDULED reason now = released now None"
| "completeForCampaignState COMPLETED reason now =
     closed CampaignRecipientStatus.CANCELLED ''Campaign completed before this recipient claim could finish''"
| "completeForCampaignState _ reason now = released now None"

definition completeForCurrentCampaignState :: "db \<Rightarrow> uuid \<Rightarrow> string \<Rightarrow> time \<Rightarrow> completion option" where
  "completeForCurrentCampaignState d k fallbackReason now =
     (case findCampaign k (campaigns d) of
        None \<Rightarrow> None
      | Some c \<Rightarrow> Some (completeForCampaignState (k_status c)
          (Some (case k_failureReason c of Some s \<Rightarrow> s | None \<Rightarrow> fallbackReason)) now))"

definition retryOrFail :: "campaign_env \<Rightarrow> recipient_row \<Rightarrow> string \<Rightarrow> time \<Rightarrow> completion" where
  "retryOrFail env claim message now =
     (if r_attemptCount claim \<ge> processor_positiveInteger (pe_maxAttempts env) 5
      then closed CampaignRecipientStatus.FAILED (take 2000 message)
      else released (now + retryDelayMs (r_attemptCount claim)) (Some (take 2000 message)))"

section \<open>Deciding\<close>

definition recipientIdempotencyKey :: "uuid \<Rightarrow> uuid \<Rightarrow> string" where
  "recipientIdempotencyKey campaignId contactId = ''campaign:'' @ campaignId @ '':contact:'' @ contactId"

definition findExistingMessageId :: "db \<Rightarrow> uuid \<Rightarrow> string \<Rightarrow> uuid option" where
  "findExistingMessageId d tenantId key =
     map_option m_id (findFirst (\<lambda>m. m_tenantId m = Some tenantId \<and> m_idempotencyKey m = Some key) (messages d))"

definition configurationError :: "sender_row \<Rightarrow> template_row \<Rightarrow> string option" where
  "configurationError sender template =
     (case (if s_active sender then waba_of sender else None) of
        None \<Rightarrow> Some ''Campaign sender is inactive or missing its WABA ID''
      | Some w \<Rightarrow>
          if t_wabaId template \<noteq> w then Some ''Campaign template no longer belongs to the sender WABA''
          else if js_upper (t_status template) \<noteq> ''APPROVED'' then Some (''Campaign template is no longer APPROVED ('' @ t_status template @ '')'')
          else if map_option js_upper (t_category template) \<noteq> Some ''MARKETING'' then Some ''Campaign template is no longer categorized as MARKETING''
          else None)"

text \<open>\<open>renderComponents\<close>: the check that the result is an array is the code's, although a rendered array always is one.\<close>

definition renderComponents :: "json list \<Rightarrow> contact_row \<Rightarrow> personalization_error + json list" where
  "renderComponents components contact =
     (case renderCampaignComponents (JArr components) contact of
        Inl e \<Rightarrow> Inl e
      | Inr (JArr items) \<Rightarrow> Inr items
      | Inr _ \<Rightarrow> Inl (TemplateError ''Campaign components must render to an array''))"

definition message_components :: "campaign_row \<Rightarrow> contact_row \<Rightarrow> personalization_error + json list option" where
  "message_components campaign contact =
     (case k_components campaign of
        Some (JArr items) \<Rightarrow>
          if k_personalizationEnabled campaign then bindE (renderComponents items contact) (\<lambda>r. Inr (Some r)) else Inr (Some items)
      | _ \<Rightarrow> Inr None)"

definition recipient_request :: "campaign_row \<Rightarrow> template_row \<Rightarrow> contact_row \<Rightarrow> json list option \<Rightarrow> create_message_dto" where
  "recipient_request campaign template contact components =
     \<lparr>md_to = c_phone contact, md_type = OutboundMessageType.TEMPLATE, md_senderId = Some (k_senderId campaign),
      md_payload = JObj ([(''name'', JStr (t_name template)), (''language'', JStr (t_language template))] @
        (case components of None \<Rightarrow> [] | Some cs \<Rightarrow> [(''components'', JArr cs)])),
      md_idempotencyKey = Some (recipientIdempotencyKey (k_id campaign) (c_id contact))\<rparr>"

text \<open>A reason that fails the whole campaign, or the campaign's state where another process was faster.\<close>

definition fail_with :: "db \<Rightarrow> uuid \<Rightarrow> string \<Rightarrow> time \<Rightarrow> completion option \<times> db" where
  "fail_with d k reason now =
     (case failCampaign d k reason of
        (True, d1) \<Rightarrow> (Some (closed CampaignRecipientStatus.FAILED reason), d1)
      | (False, d1) \<Rightarrow> (completeForCurrentCampaignState d1 k reason now, d1))"

definition create_recipient_message ::
  "campaign_env \<Rightarrow> db \<Rightarrow> db \<Rightarrow> recipient_row \<Rightarrow> campaign_row \<Rightarrow> template_row \<Rightarrow> contact_row \<Rightarrow> time \<Rightarrow> completion option \<times> db" where
  "create_recipient_message env d d' claim campaign template contact now =
     (case message_components campaign contact of
        Inl (ValueError m) \<Rightarrow> (Some (closed SKIPPED (take 2000 m)), d')
      | Inl (TemplateError m) \<Rightarrow> fail_with d' (k_id campaign) (take 2000 m) now
      | Inr components \<Rightarrow>
          (case MessagesService_create (pe_url env) d d' (k_tenantId campaign) (recipient_request campaign template contact components) (pe_trace env)
                  (pe_messageIds env (r_id claim)) now of
             Inr (message, d1) \<Rightarrow> (Some (completeAsQueued (m_id message) now), d1)
           | Inl (Forbidden m) \<Rightarrow> (Some (closed SKIPPED (take 2000 m)), d')
           | Inl (Unprocessable m) \<Rightarrow> fail_with d' (k_id campaign) (take 2000 m) now
           | Inl e \<Rightarrow> (Some (retryOrFail env claim (error_message e) now), d')))"

text \<open>The reads see \<open>d\<close>, the writes run on \<open>d'\<close>. The result \<open>None\<close> leaves the claim as it is.\<close>

definition decideRecipient :: "campaign_env \<Rightarrow> db \<Rightarrow> db \<Rightarrow> recipient_row \<Rightarrow> time \<Rightarrow> completion option \<times> db" where
  "decideRecipient env d d' claim now =
     (case findRecipient (r_id claim) (campaignRecipients d) of
        None \<Rightarrow> (None, d')
      | Some recipient \<Rightarrow>
          (case (findContact (r_contactId recipient) (contacts d), findCampaign (r_campaignId recipient) (campaigns d)) of
             (Some contact, Some campaign) \<Rightarrow>
               (case (findSender (k_senderId campaign) (senders d), findTemplate (k_templateId campaign) (templates d)) of
                  (Some sender, Some template) \<Rightarrow>
                    (case findExistingMessageId d (k_tenantId campaign) (recipientIdempotencyKey (k_id campaign) (r_contactId recipient)) of
                       Some m \<Rightarrow> (Some (completeAsQueued m now), d')
                     | None \<Rightarrow>
                         if k_status campaign \<noteq> RUNNING
                         then (Some (completeForCampaignState (k_status campaign) (k_failureReason campaign) now), d')
                         else case configurationError sender template of
                                Some reason \<Rightarrow> fail_with d' (k_id campaign) reason now
                              | None \<Rightarrow> create_recipient_message env d d' claim campaign template contact now)
                | _ \<Rightarrow> (Some (retryOrFail env claim (error_message RELATION_ERROR) now), d'))
           | _ \<Rightarrow> (Some (retryOrFail env claim (error_message RELATION_ERROR) now), d')))"

text \<open>
  Completing: an error of the update itself, which only the unique index on \<open>messageId\<close> can raise, is caught like
  any other error and the claim is retried or failed.
\<close>

definition finishRecipient :: "campaign_env \<Rightarrow> recipient_row \<Rightarrow> completion option \<Rightarrow> db \<Rightarrow> time \<Rightarrow> db" where
  "finishRecipient env claim outcome d now =
     (case outcome of
        None \<Rightarrow> d
      | Some data \<Rightarrow>
          (case completeClaim claim data (campaignRecipients d) of
             Some rows \<Rightarrow> d\<lparr>campaignRecipients := rows\<rparr>
           | None \<Rightarrow>
               (case completeClaim claim (retryOrFail env claim (error_message UNIQUE_VIOLATION) now) (campaignRecipients d) of
                  Some rows \<Rightarrow> d\<lparr>campaignRecipients := rows\<rparr> | None \<Rightarrow> d)))"

definition processRecipient :: "campaign_env \<Rightarrow> recipient_row \<Rightarrow> time \<Rightarrow> db \<Rightarrow> db" where
  "processRecipient env claim now d = (case decideRecipient env d d claim now of (outcome, d1) \<Rightarrow> finishRecipient env claim outcome d1 now)"

section \<open>A poll\<close>

definition processPending_campaigns :: "campaign_env \<Rightarrow> db \<Rightarrow> uuid list \<Rightarrow> time \<Rightarrow> db" where
  "processPending_campaigns env d locked now =
     (let d0 = promoteScheduledCampaigns d now;
          (recipients, d1) = claimRecipients env d0 locked (processor_positiveInteger (pe_batchSize env) 100) now;
          touchedCampaigns = js_set (map r_campaignId recipients);
          d2 = fold (\<lambda>r. processRecipient env r now) recipients d1
      in fold (\<lambda>k d. refreshStats d k now) touchedCampaigns d2)"

end
