(* ===== verification/Campaign_Runs.thy ===== *)
theory Campaign_Runs
  imports Campaign_Processor
begin

text \<open>
  Campaigns under interleaving: requests to the campaign service, any number of processors, and the rest of the system run
  side by side. A state is the database with what the running operations hold: the claims of processors, the database states their reads
  saw, the completions they decided on, the campaigns whose counters are to be refreshed and the counts read for them.

  The results: the states of campaigns and recipients follow their life cycles, a completed campaign has no open
  recipient, a queued recipient has its message, totals are right; a claim is exclusive and a late completion changes nothing.
  Two runs show campaigns that are left unfinished.
\<close>

section \<open>Runs\<close>

record campaign_world =
  cw_db :: db
  cw_refresh :: "uuid list"
  cw_stats :: "(uuid \<times> recipient_stats) list"
  cw_claims :: "recipient_row list"
  cw_reads :: "(recipient_row \<times> db) list"
  cw_work :: "(recipient_row \<times> completion) list"

definition message_keys :: "db \<Rightarrow> (uuid \<times> uuid option \<times> string option) set" where
  "message_keys d = (\<lambda>m. (m_id m, m_tenantId m, m_idempotencyKey m)) ` set (messages d)"

definition campaign_keys :: "db \<Rightarrow> (uuid \<times> uuid) set" where
  "campaign_keys d = (\<lambda>c. (k_id c, k_tenantId c)) ` set (campaigns d)"

definition recipient_key :: "recipient_row \<Rightarrow> uuid \<times> uuid \<times> uuid" where
  "recipient_key r = (r_id r, r_campaignId r, r_contactId r)"

definition recipient_keys :: "db \<Rightarrow> (uuid \<times> uuid \<times> uuid) set" where
  "recipient_keys d = recipient_key ` set (campaignRecipients d)"

inductive campaign_step :: "campaign_world \<Rightarrow> campaign_world \<Rightarrow> bool" where
  create: "CampaignsService_create dates d (cw_db w) tenantId dto newId now = Inr (c, d') \<Longrightarrow> campaign_step w (w\<lparr>cw_db := d'\<rparr>)"
| launch: "CampaignsService_launch (cw_db w) tenantId k rawMax newId now = Inr (c, d') \<Longrightarrow>
    fresh_recipients newId (campaignRecipients (cw_db w)) \<Longrightarrow> distinct (map c_id (contacts (cw_db w))) \<Longrightarrow> campaign_step w (w\<lparr>cw_db := d'\<rparr>)"
| pause: "CampaignsService_pause (cw_db w) tenantId k = Inr (c, d') \<Longrightarrow> campaign_step w (w\<lparr>cw_db := d'\<rparr>)"
| resume: "CampaignsService_resume d (cw_db w) tenantId k now = Inr (c, d') \<Longrightarrow> campaign_step w (w\<lparr>cw_db := d'\<rparr>)"
| cancel: "cancel_transaction (cw_db w) tenantId k now = Some d' \<Longrightarrow> campaign_step w (w\<lparr>cw_db := d', cw_refresh := k # cw_refresh w\<rparr>)"
| promote: "campaign_step w (w\<lparr>cw_db := promoteScheduledCampaigns (cw_db w) now\<rparr>)"
| claim: "claimRecipients env (cw_db w) locked n now = (claimed, d') \<Longrightarrow>
    campaign_step w (w\<lparr>cw_db := d', cw_claims := claimed @ cw_claims w, cw_refresh := map r_campaignId claimed @ cw_refresh w\<rparr>)"
| read: "claim \<in> set (cw_claims w) \<Longrightarrow> campaign_step w (w\<lparr>cw_reads := (claim, cw_db w) # cw_reads w\<rparr>)"
| decide: "(claim, d) \<in> set (cw_reads w) \<Longrightarrow> decideRecipient env d (cw_db w) claim now = (Some data, d') \<Longrightarrow>
    campaign_step w (w\<lparr>cw_db := d', cw_work := (claim, data) # cw_work w\<rparr>)"
| abandon: "(claim, d) \<in> set (cw_reads w) \<Longrightarrow> decideRecipient env d (cw_db w) claim now = (None, d') \<Longrightarrow> campaign_step w (w\<lparr>cw_db := d'\<rparr>)"
| finish: "(claim, data) \<in> set (cw_work w) \<Longrightarrow> campaign_step w (w\<lparr>cw_db := finishRecipient env claim (Some data) (cw_db w) now\<rparr>)"
| stats: "k \<in> set (cw_refresh w) \<Longrightarrow> campaign_step w (w\<lparr>cw_stats := (k, refreshStats_read (cw_db w) k) # cw_stats w\<rparr>)"
| refresh: "(k, st) \<in> set (cw_stats w) \<Longrightarrow> campaign_step w (w\<lparr>cw_db := refreshStats_write st (cw_db w) k now\<rparr>)"
| other: "campaigns d' = campaigns (cw_db w) \<Longrightarrow> campaignRecipients d' = campaignRecipients (cw_db w) \<Longrightarrow>
    message_keys (cw_db w) \<subseteq> message_keys d' \<Longrightarrow> campaign_step w (w\<lparr>cw_db := d'\<rparr>)"

definition initial_world :: campaign_world where
  "initial_world = \<lparr>cw_db = empty_db, cw_refresh = [], cw_stats = [], cw_claims = [], cw_reads = [], cw_work = []\<rparr>"

section \<open>Life cycles\<close>

definition campaign_edges :: "(CampaignStatus \<times> CampaignStatus) set" where
  "campaign_edges = {(DRAFT, SCHEDULED), (DRAFT, RUNNING), (DRAFT, COMPLETED), (DRAFT, CampaignStatus.CANCELLED), (SCHEDULED, RUNNING),
     (SCHEDULED, PAUSED), (SCHEDULED, CampaignStatus.CANCELLED), (SCHEDULED, CampaignStatus.FAILED), (RUNNING, PAUSED), (RUNNING, COMPLETED),
     (RUNNING, CampaignStatus.CANCELLED), (RUNNING, CampaignStatus.FAILED), (PAUSED, RUNNING), (PAUSED, SCHEDULED), (PAUSED, CampaignStatus.CANCELLED)}"

definition open_status :: "CampaignRecipientStatus \<Rightarrow> bool" where
  "open_status s \<longleftrightarrow> s = CampaignRecipientStatus.PENDING \<or> s = CampaignRecipientStatus.PROCESSING"

definition drained :: "db \<Rightarrow> uuid \<Rightarrow> bool" where
  "drained d k \<longleftrightarrow> (\<forall>r \<in> set (campaignRecipients d). r_campaignId r = k \<longrightarrow> \<not> open_status (r_status r))"

definition queued_message :: "db \<Rightarrow> recipient_row \<Rightarrow> uuid \<Rightarrow> bool" where
  "queued_message d r m \<longleftrightarrow> (\<exists>t. (r_campaignId r, t) \<in> campaign_keys d \<and>
     (m, Some t, Some (recipientIdempotencyKey (r_campaignId r) (r_contactId r))) \<in> message_keys d)"

text \<open>The invariant of the tables.\<close>

definition recipients_ok :: "db \<Rightarrow> bool" where
  "recipients_ok d \<longleftrightarrow>
     distinct (map r_id (campaignRecipients d)) \<and> distinct (map (\<lambda>r. (r_campaignId r, r_contactId r)) (campaignRecipients d)) \<and>
     (\<forall>r \<in> set (campaignRecipients d). r_campaignId r \<in> k_id ` set (campaigns d)) \<and>
     (\<forall>r \<in> set (campaignRecipients d). r_status r = CampaignRecipientStatus.QUEUED \<longrightarrow> (\<exists>m. r_messageId r = Some m \<and> queued_message d r m))"

definition campaign_ok :: "db \<Rightarrow> campaign_row \<Rightarrow> bool" where
  "campaign_ok d c \<longleftrightarrow>
     k_totalRecipients c = countWhere (\<lambda>r. r_campaignId r = k_id c) (campaignRecipients d) \<and>
     (k_status c = DRAFT \<longrightarrow> k_totalRecipients c = 0) \<and> (k_status c = COMPLETED \<longrightarrow> drained d (k_id c))"

definition campaigns_ok :: "db \<Rightarrow> bool" where
  "campaigns_ok d \<longleftrightarrow> distinct (map k_id (campaigns d)) \<and> (\<forall>c \<in> set (campaigns d). campaign_ok d c) \<and> recipients_ok d"

text \<open>What one step may do to the tables.\<close>

definition not_draft :: "db \<Rightarrow> uuid \<Rightarrow> bool" where
  "not_draft d k \<longleftrightarrow> (\<exists>c \<in> set (campaigns d). k_id c = k \<and> k_status c \<noteq> DRAFT)"

definition campaign_moves :: "campaign_row \<Rightarrow> campaign_row \<Rightarrow> bool" where
  "campaign_moves c c' \<longleftrightarrow> k_id c' = k_id c \<and> k_tenantId c' = k_tenantId c \<and> (k_status c, k_status c') \<in> campaign_edges \<union> Id"

definition recipient_moves :: "recipient_row \<Rightarrow> recipient_row \<Rightarrow> bool" where
  "recipient_moves r r' \<longleftrightarrow> recipient_key r' = recipient_key r \<and>
     (\<not> open_status (r_status r) \<longrightarrow> r_status r' = r_status r \<and> r_messageId r' = r_messageId r)"

definition life_cycles :: "db \<Rightarrow> db \<Rightarrow> bool" where
  "life_cycles d d' \<longleftrightarrow>
     (\<forall>c \<in> set (campaigns d). \<exists>c' \<in> set (campaigns d'). campaign_moves c c') \<and>
     (\<forall>r \<in> set (campaignRecipients d). \<exists>r' \<in> set (campaignRecipients d'). recipient_moves r r')"

definition progress :: "db \<Rightarrow> db \<Rightarrow> bool" where
  "progress d d' \<longleftrightarrow> life_cycles d d' \<and> message_keys d \<subseteq> message_keys d' \<and> (\<forall>k. not_draft d k \<and> drained d k \<longrightarrow> drained d' k)"

lemma progress_keys:
  assumes "progress d d'"
  shows "campaign_keys d \<subseteq> campaign_keys d'" and "recipient_keys d \<subseteq> recipient_keys d'" and "not_draft d k \<Longrightarrow> not_draft d' k"
proof -
  from assms have c: "\<And>c. c \<in> set (campaigns d) \<Longrightarrow> \<exists>c' \<in> set (campaigns d'). campaign_moves c c'"
    and r: "\<And>r. r \<in> set (campaignRecipients d) \<Longrightarrow> \<exists>r' \<in> set (campaignRecipients d'). recipient_moves r r'"
    by (auto simp: progress_def life_cycles_def)
  show "campaign_keys d \<subseteq> campaign_keys d'"
    unfolding campaign_keys_def
  proof (rule image_subsetI)
    fix x assume "x \<in> set (campaigns d)"
    from c [OF this] show "(k_id x, k_tenantId x) \<in> (\<lambda>c. (k_id c, k_tenantId c)) ` set (campaigns d')"
      by (auto simp: campaign_moves_def intro: rev_image_eqI)
  qed
  show "recipient_keys d \<subseteq> recipient_keys d'"
    unfolding recipient_keys_def
  proof (rule image_subsetI)
    fix x assume "x \<in> set (campaignRecipients d)"
    from r [OF this] show "recipient_key x \<in> recipient_key ` set (campaignRecipients d')"
      by (auto simp: recipient_moves_def intro: rev_image_eqI)
  qed
  assume "not_draft d k"
  then obtain x where x: "x \<in> set (campaigns d)" "k_id x = k" "k_status x \<noteq> DRAFT" by (auto simp: not_draft_def)
  from c [OF x(1)] x(2,3) show "not_draft d' k" by (auto simp: not_draft_def campaign_moves_def campaign_edges_def)
qed

lemma queued_message_mono: "progress d d' \<Longrightarrow> queued_message d r m \<Longrightarrow> queued_message d' r m"
  using progress_keys(1) [of d d'] by (fastforce simp: queued_message_def progress_def)

text \<open>Rows with the same keys in the same order.\<close>

lemma recipient_keys_cong:
  assumes "map recipient_key rs' = map recipient_key rs"
  shows "map r_id rs' = map r_id rs" and "map (\<lambda>r. (r_campaignId r, r_contactId r)) rs' = map (\<lambda>r. (r_campaignId r, r_contactId r)) rs"
    and "r_campaignId ` set rs' = r_campaignId ` set rs"
    and "countWhere (\<lambda>r. r_campaignId r = k) rs' = countWhere (\<lambda>r. r_campaignId r = k) rs"
proof -
  have part: "map r_id rs = map fst (map recipient_key rs)" "map r_campaignId rs = map (fst \<circ> snd) (map recipient_key rs)"
    "map (\<lambda>r. (r_campaignId r, r_contactId r)) rs = map snd (map recipient_key rs)" for rs
    by (simp_all add: recipient_key_def)
  show "map r_id rs' = map r_id rs" unfolding part(1) assms ..
  show "map (\<lambda>r. (r_campaignId r, r_contactId r)) rs' = map (\<lambda>r. (r_campaignId r, r_contactId r)) rs" unfolding part(3) assms ..
  have c: "map r_campaignId rs' = map r_campaignId rs" unfolding part(2) assms ..
  then show "r_campaignId ` set rs' = r_campaignId ` set rs" by (metis set_map)
  have count: "countWhere (\<lambda>r. r_campaignId r = k) rs = length (filter (\<lambda>x. x = k) (map r_campaignId rs))" for rs
    by (simp add: countWhere_def filter_map comp_def)
  show "countWhere (\<lambda>r. r_campaignId r = k) rs' = countWhere (\<lambda>r. r_campaignId r = k) rs" unfolding count c ..
qed

text \<open>Every operation but creating and launching is an update of rows that keeps keys and follows the edges.\<close>

definition campaign_update :: "db \<Rightarrow> (campaign_row \<Rightarrow> campaign_row) \<Rightarrow> bool" where
  "campaign_update d f \<longleftrightarrow> (\<forall>c \<in> set (campaigns d). campaign_moves c (f c) \<and> k_totalRecipients (f c) = k_totalRecipients c \<and>
     (k_status (f c) = COMPLETED \<longrightarrow> k_status c = COMPLETED \<or> drained d (k_id c)))"

definition recipient_update :: "db \<Rightarrow> db \<Rightarrow> (recipient_row \<Rightarrow> recipient_row) \<Rightarrow> bool" where
  "recipient_update d d' g \<longleftrightarrow> (\<forall>r \<in> set (campaignRecipients d). g r = r \<or>
     open_status (r_status r) \<and> recipient_key (g r) = recipient_key r \<and>
     (r_status (g r) = CampaignRecipientStatus.QUEUED \<longrightarrow> (\<exists>m. r_messageId (g r) = Some m \<and> queued_message d' r m)))"

lemma recipient_update_key: "recipient_update d d' g \<Longrightarrow> r \<in> set (campaignRecipients d) \<Longrightarrow> recipient_key (g r) = recipient_key r"
  by (auto simp: recipient_update_def)

lemma queued_message_key: "recipient_key x = recipient_key y \<Longrightarrow> queued_message d x m = queued_message d y m"
  by (simp add: queued_message_def recipient_key_def)

lemma update_drained:
  assumes "campaignRecipients d' = map g (campaignRecipients d)" and "recipient_update d d1 g" and "drained d k"
  shows "drained d' k"
  unfolding drained_def
proof (intro ballI impI)
  fix y assume "y \<in> set (campaignRecipients d')" and k: "r_campaignId y = k"
  with assms(1) obtain x where x: "x \<in> set (campaignRecipients d)" "y = g x" by auto
  with recipient_update_key [OF assms(2)] k have "r_campaignId x = k" by (auto simp: recipient_key_def)
  with assms(3) x(1) have "\<not> open_status (r_status x)" by (simp add: drained_def)
  with assms(2) x show "\<not> open_status (r_status y)" by (auto simp: recipient_update_def)
qed

lemma update_progress:
  assumes "campaigns d' = map f (campaigns d)" and "campaignRecipients d' = map g (campaignRecipients d)"
    and "message_keys d \<subseteq> message_keys d'" and "campaign_update d f" and "recipient_update d d' g"
  shows "progress d d'"
proof -
  have "\<exists>r' \<in> set (campaignRecipients d'). recipient_moves x r'" if x: "x \<in> set (campaignRecipients d)" for x
    using x assms(2,5) by (intro bexI [of _ "g x"]) (auto simp: recipient_update_def recipient_moves_def)
  moreover have "\<exists>c' \<in> set (campaigns d'). campaign_moves x c'" if x: "x \<in> set (campaigns d)" for x
    using x assms(1,4) by (auto simp: campaign_update_def)
  ultimately show ?thesis using assms(3) update_drained [OF assms(2,5)] by (auto simp: progress_def life_cycles_def)
qed

lemma update_queued:
  assumes "progress d d'" and "recipients_ok d" and "campaignRecipients d' = map g (campaignRecipients d)" and "recipient_update d d' g"
    and "y \<in> set (campaignRecipients d')" and "r_status y = CampaignRecipientStatus.QUEUED"
  shows "\<exists>m. r_messageId y = Some m \<and> queued_message d' y m"
proof -
  from assms(3,5) obtain x where x: "x \<in> set (campaignRecipients d)" "y = g x" by auto
  have k: "queued_message d' y m = queued_message d' x m" for m
    using recipient_update_key [OF assms(4) x(1)] unfolding x(2) by (rule queued_message_key)
  show ?thesis
  proof (cases "g x = x")
    case True
    with assms(2,6) x obtain m where "r_messageId y = Some m" "queued_message d y m" by (auto simp: recipients_ok_def)
    with queued_message_mono [OF assms(1)] show ?thesis by blast
  next
    case False
    with assms(4,6) x k show ?thesis by (auto simp: recipient_update_def)
  qed
qed

lemma update_keeps_ok:
  assumes ok: "campaigns_ok d"
    and u: "campaigns d' = map f (campaigns d)" "campaignRecipients d' = map g (campaignRecipients d)"
    "message_keys d \<subseteq> message_keys d'" "campaign_update d f" "recipient_update d d' g"
  shows "campaigns_ok d'"
proof -
  have keys: "map recipient_key (campaignRecipients d') = map recipient_key (campaignRecipients d)"
    using recipient_update_key [OF u(5)] unfolding u(2) by simp
  note cong = recipient_keys_cong [OF keys]
  have ids: "map k_id (campaigns d') = map k_id (campaigns d)"
    using u(4) unfolding u(1) by (auto simp: campaign_update_def campaign_moves_def)
  then have idset: "k_id ` set (campaigns d') = k_id ` set (campaigns d)" by (metis set_map)
  have rok: "recipients_ok d" using ok by (simp add: campaigns_ok_def)
  have "campaign_ok d' y" if "y \<in> set (campaigns d')" for y
  proof -
    from that obtain x where x: "x \<in> set (campaigns d)" "y = f x" unfolding u(1) by auto
    from ok x(1) have "campaign_ok d x" by (simp add: campaigns_ok_def)
    moreover from u(4) x have "campaign_moves x y" "k_totalRecipients y = k_totalRecipients x"
      "k_status y = COMPLETED \<longrightarrow> k_status x = COMPLETED \<or> drained d (k_id x)" by (auto simp: campaign_update_def)
    ultimately show ?thesis using update_drained [OF u(2,5)] cong(4) [of "k_id x"]
      by (auto simp: campaign_ok_def campaign_moves_def campaign_edges_def)
  qed
  moreover have "recipients_ok d'"
  proof -
    have "r_campaignId r \<in> k_id ` set (campaigns d')" if "r \<in> set (campaignRecipients d')" for r
    proof -
      from that have "r_campaignId r \<in> r_campaignId ` set (campaignRecipients d)" unfolding cong(3) [symmetric] by simp
      with rok show ?thesis unfolding idset by (auto simp: recipients_ok_def)
    qed
    with rok update_queued [OF update_progress [OF u] rok u(2,5)] show ?thesis unfolding recipients_ok_def cong(1,2) by blast
  qed
  ultimately show ?thesis using ok ids by (simp add: campaigns_ok_def)
qed

lemma updateMany_map: "updateMany p f rows = map (\<lambda>r. if p r then f r else r) rows"
  by (simp add: updateMany_def)

lemma campaign_update_if:
  "(\<And>c. c \<in> set (campaigns d) \<Longrightarrow> p c \<Longrightarrow> campaign_moves c (f c) \<and> k_totalRecipients (f c) = k_totalRecipients c \<and>
      (k_status (f c) = COMPLETED \<longrightarrow> k_status c = COMPLETED \<or> drained d (k_id c))) \<Longrightarrow>
     campaign_update d (\<lambda>c. if p c then f c else c)"
  by (simp add: campaign_update_def campaign_moves_def)

lemma campaign_update_id: "campaign_update d (\<lambda>c. c)"
  by (simp add: campaign_update_def campaign_moves_def)

lemma recipient_update_id: "recipient_update d d' (\<lambda>r. r)"
  by (simp add: recipient_update_def)

text \<open>An operation that keeps the tables in order and makes progress.\<close>

definition sound :: "db \<Rightarrow> db \<Rightarrow> bool" where
  "sound d d' \<longleftrightarrow> (campaigns_ok d \<longrightarrow> campaigns_ok d' \<and> progress d d')"

lemma sound_update:
  assumes "campaigns d' = map f (campaigns d)" and "campaignRecipients d' = map g (campaignRecipients d)"
    and "message_keys d \<subseteq> message_keys d'" and "campaigns_ok d \<Longrightarrow> campaign_update d f" and "campaigns_ok d \<Longrightarrow> recipient_update d d' g"
  shows "sound d d'"
  unfolding sound_def using assms update_progress update_keeps_ok by blast

lemma sound_campaigns:
  assumes "campaigns_ok d \<Longrightarrow> campaign_update d (\<lambda>c. if p c then f c else c)"
  shows "sound d (d\<lparr>campaigns := updateMany p f (campaigns d)\<rparr>)"
  using assms by (intro sound_update [where g = "\<lambda>r. r"]) (auto simp: updateMany_map message_keys_def recipient_update_id)

lemma sound_refl: "sound d d"
  by (intro sound_update [where f = "\<lambda>c. c" and g = "\<lambda>r. r"]) (auto simp: campaign_update_id recipient_update_id)

section \<open>The operations are sound\<close>

lemmas edge_simps = campaign_moves_def campaign_edges_def campaign_is_def

lemma pause_sound: "CampaignsService_pause d tenantId k = Inr (c, d') \<Longrightarrow> sound d d'"
  by (auto simp: CampaignsService_pause_def Let_def bindE_Inr sound_refl edge_simps
      intro!: sound_campaigns campaign_update_if split: if_split_asm)

lemma resume_sound: "CampaignsService_resume d0 d tenantId k now = Inr (c, d') \<Longrightarrow> sound d d'"
  by (auto simp: CampaignsService_resume_def resumed_status_def Let_def bindE_Inr edge_simps
      intro!: sound_campaigns campaign_update_if split: if_split_asm option.splits)

lemma promote_sound: "sound d (promoteScheduledCampaigns d now)"
  unfolding promoteScheduledCampaigns_def by (intro sound_campaigns campaign_update_if) (auto simp: edge_simps)

lemma close_pending_update:
  assumes "status \<noteq> CampaignRecipientStatus.QUEUED"
  shows "recipient_update d d' (\<lambda>r. if pending_of k r then r\<lparr>r_status := status, r_processingLeaseUntil := None, r_lastError := Some e\<rparr> else r)"
  using assms by (auto simp: recipient_update_def pending_of_def open_status_def recipient_key_def)

lemma sound_close:
  assumes "campaign_update d (\<lambda>c. if p c then f c else c)" and "status \<noteq> CampaignRecipientStatus.QUEUED"
  shows "sound d (d\<lparr>campaigns := updateMany p f (campaigns d), campaignRecipients := close_pending k status e (campaignRecipients d)\<rparr>)"
  by (rule sound_update [OF _ _ _ assms(1) close_pending_update [OF assms(2), where k = k and e = e]])
    (simp_all add: updateMany_map close_pending_def message_keys_def)

lemma cancel_sound: "cancel_transaction d tenantId k now = Some d' \<Longrightarrow> sound d d'"
  by (auto simp: cancel_transaction_def Let_def edge_simps intro!: sound_close campaign_update_if split: if_split_asm)

lemma cancel_not_draft:
  assumes "cancel_transaction d tenantId k now = Some d'"
  shows "not_draft d' k"
proof -
  let ?p = "campaign_is tenantId k {DRAFT, SCHEDULED, RUNNING, PAUSED}"
  from assms have "countWhere ?p (campaigns d) \<noteq> 0"
    and c: "campaigns d' = updateMany ?p (\<lambda>c. c\<lparr>k_status := CampaignStatus.CANCELLED, k_cancelledAt := Some now\<rparr>) (campaigns d)"
    by (auto simp: cancel_transaction_def Let_def split: if_split_asm)
  then obtain x where x: "x \<in> set (campaigns d)" "?p x" by (auto simp: countWhere_def filter_empty_conv)
  then have "x\<lparr>k_status := CampaignStatus.CANCELLED, k_cancelledAt := Some now\<rparr> \<in> set (campaigns d')"
    unfolding c set_updateMany by (intro image_eqI [of _ _ x]) simp_all
  with x(2) show ?thesis unfolding not_draft_def by (intro bexI) (auto simp: campaign_is_def)
qed

lemma failCampaign_sound: "failCampaign d k reason = (b, d') \<Longrightarrow> sound d d'"
  by (auto simp: failCampaign_def Let_def edge_simps sound_refl intro!: sound_close campaign_update_if split: if_split_asm)

lemma countWhere_0: "countWhere p rows = 0 \<longleftrightarrow> (\<forall>r \<in> set rows. \<not> p r)"
  by (auto simp: countWhere_def filter_empty_conv)

lemma create_sound:
  assumes "CampaignsService_create dates d0 d tenantId dto newId now = Inr (c, d')"
  shows "sound d d'"
  unfolding sound_def
proof (intro impI conjI)
  assume ok: "campaigns_ok d"
  from assms have c: "k_id c = newId" "k_status c = DRAFT" "k_totalRecipients c = 0" and new: "newId \<notin> k_id ` set (campaigns d)"
    and d': "d' = d\<lparr>campaigns := campaigns d @ [c]\<rparr>"
    by (auto simp: CampaignsService_create_def Let_def bindE_Inr draft_campaign_def split: option.split_asm if_split_asm)
  have none: "r_campaignId r \<noteq> newId" if "r \<in> set (campaignRecipients d)" for r
    using ok new that by (auto simp: campaigns_ok_def recipients_ok_def)
  show pr: "progress d d'"
    by (auto simp: progress_def life_cycles_def d' message_keys_def drained_def campaign_moves_def recipient_moves_def)
  have "campaign_ok d' x" if "x \<in> set (campaigns d')" for x
    using that ok none c by (auto simp: d' campaigns_ok_def campaign_ok_def drained_def countWhere_0)
  moreover have "recipients_ok d'"
    using ok queued_message_mono [OF pr] by (fastforce simp: campaigns_ok_def recipients_ok_def d')
  ultimately show "campaigns_ok d'" using ok new c by (simp add: campaigns_ok_def d')
qed

lemma launched_status_edge: "k_status c = DRAFT \<Longrightarrow> campaign_moves c (launched n now c) \<and> k_status (launched n now c) \<noteq> DRAFT"
  by (auto simp: launched_def launched_status_def Let_def edge_simps split: option.splits)

lemma launched_completed: "k_status (launched n now c) = COMPLETED \<longleftrightarrow> n = 0"
  by (auto simp: launched_def launched_status_def Let_def split: option.splits)

lemma launched_total [simp]: "k_totalRecipients (launched n now c) = n" "k_id (launched n now c) = k_id c"
  by (simp_all add: launched_def Let_def)

lemma launch_rows_sound:
  assumes ok: "campaigns_ok d" and c0: "c0 \<in> set (campaigns d)" "k_id c0 = k" "k_status c0 = DRAFT"
    and ids: "distinct ids" and fresh: "fresh_recipients newId (campaignRecipients d)"
    and d': "d' = d\<lparr>campaigns := updateCampaign k (launched (length ids) now) (campaigns d),
         campaignRecipients := launch_loop 0 (map (new_recipient k newId now) ids) (campaignRecipients d)\<rparr>"
  shows "campaigns_ok d' \<and> progress d d'"
proof -
  let ?n = "length ids" and ?new = "map (new_recipient k newId now) ids"
  have none: "\<forall>r \<in> set (campaignRecipients d). r_campaignId r \<noteq> k"
    using ok c0 by (auto simp: campaigns_ok_def campaign_ok_def countWhere_0)
  have rows: "campaignRecipients d' = campaignRecipients d @ ?new" unfolding d' using launch_loop_fresh [OF ids fresh none] by simp
  have cs: "campaigns d' = map (\<lambda>x. if k_id x = k then launched ?n now x else x) (campaigns d)"
    by (simp add: d' updateCampaign_def updateMany_map)
  have only: "x = c0" if "x \<in> set (campaigns d)" "k_id x = k" for x
    using ok that c0 by (auto simp: campaigns_ok_def distinct_map dest: inj_onD)
  have moves: "campaign_moves x (if k_id x = k then launched ?n now x else x)" if "x \<in> set (campaigns d)" for x
  proof (cases "k_id x = k")
    case True
    with only [OF that] launched_status_edge [OF c0(3)] show ?thesis by simp
  qed (simp add: campaign_moves_def)
  have dr: "drained d' j" if "drained d j" "j \<noteq> k \<or> ids = []" for j
    using that by (auto simp: drained_def rows)
  have mk: "message_keys d' = message_keys d" by (simp add: d' message_keys_def)
  have pr: "progress d d'"
    unfolding progress_def life_cycles_def
  proof (intro conjI ballI allI impI)
    fix x assume "x \<in> set (campaigns d)"
    with moves [OF this] show "\<exists>c' \<in> set (campaigns d'). campaign_moves x c'" unfolding cs set_map by blast
  next
    fix j assume "not_draft d j \<and> drained d j"
    with only c0(3) show "drained d' j" by (intro dr) (auto simp: not_draft_def)
  qed (auto simp: rows mk recipient_moves_def)
  have count: "countWhere (\<lambda>r. r_campaignId r = j) (campaignRecipients d') =
      countWhere (\<lambda>r. r_campaignId r = j) (campaignRecipients d) + (if j = k then ?n else 0)" for j
    by (simp add: rows countWhere_def filter_map comp_def)
  have "campaign_ok d' y" if "y \<in> set (campaigns d')" for y
  proof -
    from that obtain x where x: "x \<in> set (campaigns d)" "y = (if k_id x = k then launched ?n now x else x)" unfolding cs by auto
    from ok x(1) have xo: "campaign_ok d x" by (simp add: campaigns_ok_def)
    show ?thesis
    proof (cases "k_id x = k")
      case True
      with x only have y: "y = launched ?n now c0" by simp
      have "countWhere (\<lambda>r. r_campaignId r = k) (campaignRecipients d) = 0" and "drained d k" using none by (simp_all add: countWhere_0 drained_def)
      with dr [of k] launched_status_edge [OF c0(3), of ?n now] show ?thesis
        by (simp add: campaign_ok_def y c0(2) count launched_completed)
    next
      case False
      with x xo dr show ?thesis by (auto simp: campaign_ok_def count)
    qed
  qed
  moreover have "recipients_ok d'"
  proof -
    have kset: "k_id ` set (campaigns d') = k_id ` set (campaigns d)" unfolding cs set_map image_image by (intro image_cong) auto
    have "newId x \<noteq> r_id r" "r_id r \<noteq> newId x" if "r \<in> set (campaignRecipients d)" for x r
      using fresh that unfolding fresh_recipients_def by (metis imageI)+
    then have "set (map r_id (campaignRecipients d)) \<inter> set (map newId ids) = {}" by auto
    moreover have "distinct (map newId ids)" using fresh ids by (auto simp: fresh_recipients_def distinct_map inj_def inj_on_def)
    ultimately have "distinct (map r_id (campaignRecipients d'))"
      using ok by (simp add: rows comp_def campaigns_ok_def recipients_ok_def)
    moreover have "distinct (map (\<lambda>r. (r_campaignId r, r_contactId r)) (campaignRecipients d'))"
      using ok ids none by (auto simp: campaigns_ok_def recipients_ok_def rows distinct_map inj_on_def)
    ultimately show ?thesis
      using ok c0(1,2) queued_message_mono [OF pr] unfolding recipients_ok_def kset
      by (fastforce simp: campaigns_ok_def recipients_ok_def rows)
  qed
  moreover have "map k_id (campaigns d') = map k_id (campaigns d)" by (simp add: cs)
  ultimately show ?thesis using ok pr by (simp add: campaigns_ok_def)
qed

lemma audience_contacts_distinct: "distinct (map c_id (contacts d)) \<Longrightarrow> distinct (audience_contacts d t a n)"
  unfolding audience_contacts_def by (intro distinct_take) (simp add: distinct_map_filter distinct_map inj_on_def)

lemma launch_sound:
  assumes "CampaignsService_launch d tenantId k rawMax newId now = Inr (c, d')" and "fresh_recipients newId (campaignRecipients d)"
    and "distinct (map c_id (contacts d))"
  shows "sound d d'"
  unfolding sound_def
proof (intro impI)
  assume ok: "campaigns_ok d"
  from assms(1) obtain c0 where c0: "CampaignsService_findById d tenantId k = Inr c0"
    by (auto simp: CampaignsService_launch_def bindE_Inr)
  then have mem: "c0 \<in> set (campaigns d)" "k_id c0 = k" by (auto simp: CampaignsService_findById_def dest!: findFirst_SomeD split: option.splits)
  show "campaigns_ok d' \<and> progress d d'"
  proof (cases "k_status c0 = DRAFT")
    case False
    with assms(1) c0 have "d' = d" by (auto simp: CampaignsService_launch_def split: if_split_asm)
    with ok sound_refl show ?thesis by (simp add: sound_def)
  next
    case True
    with assms(1) c0 have "launch_draft d tenantId c0 (maxRecipients rawMax) newId now = Inr (c, d')"
      by (simp add: CampaignsService_launch_def)
    from launch_draft_Inr [OF this] audience_contacts_distinct [OF assms(3)] obtain ids where "distinct ids"
      and "d' = d\<lparr>campaigns := updateCampaign k (launched (length ids) now) (campaigns d),
         campaignRecipients := launch_loop 0 (map (new_recipient k newId now) ids) (campaignRecipients d)\<rparr>"
      unfolding mem(2) by metis
    from launch_rows_sound [OF ok mem True this(1) assms(2) this(2)] show ?thesis .
  qed
qed

lemma refresh_sound:
  assumes "st_pending st = 0 \<and> st_processing st = 0 \<Longrightarrow> drained d k"
  shows "sound d (refreshStats_write st d k now)"
proof (cases "countWhere (\<lambda>c. k_id c = k) (campaigns d) = 0")
  case True
  then show ?thesis by (simp add: refreshStats_write_def Let_def sound_refl)
next
  case False
  let ?s = "\<lambda>c. c\<lparr>k_queuedRecipients := st_queued st, k_skippedRecipients := st_skipped st, k_failedRecipients := st_failed st,
    k_cancelledRecipients := st_cancelled st\<rparr>"
  let ?f = "\<lambda>c. if k_id c = k then (if st_pending st = 0 \<and> st_processing st = 0 \<and> k_status c = RUNNING
    then (?s c)\<lparr>k_status := COMPLETED, k_completedAt := Some now\<rparr> else ?s c) else c"
  show ?thesis
  proof (rule sound_update [where f = ?f and g = "\<lambda>r. r"])
    show "campaigns (refreshStats_write st d k now) = map ?f (campaigns d)"
      using False by (auto simp: refreshStats_write_def Let_def updateMany_map comp_def)
    show "campaign_update d ?f" using assms by (auto simp: campaign_update_def edge_simps)
  qed (use False in \<open>simp_all add: refreshStats_write_def Let_def message_keys_def recipient_update_id\<close>)
qed

lemma refreshStats_read_drained: "st_pending (refreshStats_read d k) = 0 \<and> st_processing (refreshStats_read d k) = 0 \<longleftrightarrow> drained d k"
  by (auto simp: refreshStats_read_def Let_def countWhere_0 drained_def open_status_def)

lemma recipients_not_draft: "campaigns_ok d \<Longrightarrow> r \<in> set (campaignRecipients d) \<Longrightarrow> not_draft d (r_campaignId r)"
proof -
  assume ok: "campaigns_ok d" and r: "r \<in> set (campaignRecipients d)"
  then obtain c where c: "c \<in> set (campaigns d)" "k_id c = r_campaignId r" by (auto simp: campaigns_ok_def recipients_ok_def)
  with ok have "campaign_ok d c" by (simp add: campaigns_ok_def)
  moreover have "countWhere (\<lambda>x. r_campaignId x = k_id c) (campaignRecipients d) \<noteq> 0" using r c(2) by (auto simp: countWhere_0)
  ultimately have "k_status c \<noteq> DRAFT" by (auto simp: campaign_ok_def)
  with c show ?thesis by (auto simp: not_draft_def)
qed

lemma claim_sound:
  assumes "claimRecipients env d locked n now = (claimed, d')"
  shows "sound d d'" and "campaigns_ok d \<Longrightarrow> recipient_key ` set claimed \<subseteq> recipient_keys d"
    and "campaigns_ok d \<Longrightarrow> x \<in> set claimed \<Longrightarrow> not_draft d (r_campaignId x)"
proof -
  let ?u = "now + max 5000 (processor_positiveInteger (pe_leaseMs env) 30000)"
  let ?hit = "\<lambda>r. r_id r \<in> set (claim_batch r_id (recipient_ready (now, campaigns d)) r_createdAt n locked (campaignRecipients d))"
  have d': "d' = d\<lparr>campaignRecipients := updateMany ?hit (recipient_lease ?u) (campaignRecipients d)\<rparr>"
    and cl: "claimed = map (recipient_lease ?u) (filter ?hit (campaignRecipients d))"
    using assms by (simp_all add: claimRecipients_def claim_recipient_rows_def claim_rows_def Let_def)
  have key: "recipient_key (recipient_lease u r) = recipient_key r" "r_campaignId (recipient_lease u r) = r_campaignId r" for u r
    by (simp_all add: recipient_key_def recipient_lease_def)
  have "recipient_update d d' (\<lambda>r. if ?hit r then recipient_lease ?u r else r)" if ok: "campaigns_ok d"
    unfolding recipient_update_def
  proof
    fix r assume r: "r \<in> set (campaignRecipients d)"
    have "open_status (r_status r)" if "?hit r"
      using claim_batch_hit [OF _ r that] ok by (auto simp: campaigns_ok_def recipients_ok_def recipient_ready_def open_status_def)
    then show "(if ?hit r then recipient_lease ?u r else r) = r \<or> open_status (r_status r) \<and>
        recipient_key (if ?hit r then recipient_lease ?u r else r) = recipient_key r \<and>
        (r_status (if ?hit r then recipient_lease ?u r else r) = CampaignRecipientStatus.QUEUED \<longrightarrow>
         (\<exists>m. r_messageId (if ?hit r then recipient_lease ?u r else r) = Some m \<and> queued_message d' r m))"
      using key by (simp add: recipient_lease_def)
  qed
  then show "sound d d'"
    by (intro sound_update [where f = "\<lambda>c. c"]) (auto simp: d' updateMany_map message_keys_def campaign_update_id)
  show "recipient_key ` set claimed \<subseteq> recipient_keys d" by (auto simp: cl key recipient_keys_def)
  assume "campaigns_ok d" and "x \<in> set claimed"
  then show "not_draft d (r_campaignId x)" by (auto simp: cl key dest: recipients_not_draft)
qed

definition completion_ok :: "db \<Rightarrow> recipient_row \<Rightarrow> completion \<Rightarrow> bool" where
  "completion_ok d claim data \<longleftrightarrow>
     (cp_status data = CampaignRecipientStatus.QUEUED \<longrightarrow> (\<exists>m. cp_messageId data = Some m \<and> queued_message d claim m))"

lemma completion_ok_simps [simp]:
  "completion_ok d claim (closed s e) \<longleftrightarrow> s \<noteq> CampaignRecipientStatus.QUEUED" "completion_ok d claim (released t e2)"
  "completion_ok d claim (retryOrFail env claim' e now)"
  "completion_ok d claim (completeAsQueued m now) \<longleftrightarrow> queued_message d claim m"
  "completion_ok d claim (completeForCampaignState st reason now)"
  by (simp_all add: completion_ok_def closed_def released_def retryOrFail_def completeAsQueued_def) (cases st; simp add: closed_def released_def)

lemma completeClaim_sound:
  assumes "completeClaim claim data (campaignRecipients d) = Some rows" and "completion_ok d claim data"
    and "recipient_key claim \<in> recipient_keys d"
  shows "sound d (d\<lparr>campaignRecipients := rows\<rparr>)"
proof -
  let ?g = "\<lambda>r. if claim_held claim r then apply_completion data r else r"
  have "recipient_update d (d\<lparr>campaignRecipients := rows\<rparr>) ?g" if ok: "campaigns_ok d"
    unfolding recipient_update_def
  proof
    fix r assume r: "r \<in> set (campaignRecipients d)"
    have "recipient_key r = recipient_key claim" if "claim_held claim r"
      using assms(3) that ok r
      by (auto simp: recipient_keys_def recipient_key_def claim_held_def campaigns_ok_def recipients_ok_def distinct_map dest: inj_onD)
    then have "claim_held claim r \<Longrightarrow> queued_message (d\<lparr>campaignRecipients := rows\<rparr>) r m = queued_message d claim m" for m
      by (simp add: queued_message_def recipient_key_def campaign_keys_def message_keys_def)
    with assms(2) show "?g r = r \<or> open_status (r_status r) \<and> recipient_key (?g r) = recipient_key r \<and>
        (r_status (?g r) = CampaignRecipientStatus.QUEUED \<longrightarrow>
         (\<exists>m. r_messageId (?g r) = Some m \<and> queued_message (d\<lparr>campaignRecipients := rows\<rparr>) r m))"
      by (auto simp: claim_held_def open_status_def recipient_key_def apply_completion_def completion_ok_def)
  qed
  moreover have "rows = map ?g (campaignRecipients d)"
    using assms(1) by (auto simp: completeClaim_def Let_def updateMany_map split: if_split_asm)
  ultimately show ?thesis
    by (intro sound_update [where f = "\<lambda>c. c"]) (auto simp: message_keys_def campaign_update_id)
qed

lemma finish_sound:
  assumes "completion_ok d claim data" and "recipient_key claim \<in> recipient_keys d"
  shows "sound d (finishRecipient env claim (Some data) d now)"
  using completeClaim_sound [OF _ _ assms(2)] assms(1) by (auto simp: finishRecipient_def sound_refl split: option.splits)

lemma create_frame:
  assumes "MessagesService_create parse d d' t dto trace ids now = Inr (m, d1)" and "truthy_key (md_idempotencyKey dto)"
  shows "campaigns d1 = campaigns d'" and "campaignRecipients d1 = campaignRecipients d'" and "message_keys d' \<subseteq> message_keys d1"
    and "(m_id m, Some t, md_idempotencyKey dto) \<in> message_keys d \<union> message_keys d1"
proof -
  obtain a b c where ids: "ids = (a, b, c)" by (cases ids) auto
  have found: "(m_id x, Some t, md_idempotencyKey dto) \<in> message_keys e" if "by_idempotency_key e t (md_idempotencyKey dto) = Some x" for e x
  proof -
    have "findFirst (\<lambda>m. m_tenantId m = Some t \<and> m_idempotencyKey m = md_idempotencyKey dto) (messages e) = Some x"
      using that assms(2) by (simp add: by_idempotency_key_def)
    from findFirst_SomeD [OF this] show ?thesis by (auto simp: message_keys_def intro!: image_eqI)
  qed
  have result: "(by_idempotency_key d t (md_idempotencyKey dto) = Some m \<and> d1 = d') \<or> (\<exists>acc. create_transaction d' t dto acc trace ids now = Some (m, d1)) \<or>
      (by_idempotency_key d' t (md_idempotencyKey dto) = Some m \<and> d1 = d')"
  proof (cases "by_idempotency_key d t (md_idempotencyKey dto)")
    case (Some x)
    with assms(1) show ?thesis by (simp add: MessagesService_create_def)
  next
    case None
    with assms(1) obtain acc where "(case create_transaction d' t dto acc trace ids now of Some r \<Rightarrow> Inr r
        | None \<Rightarrow> (case by_idempotency_key d' t (md_idempotencyKey dto) of Some existing \<Rightarrow> Inr (existing, d')
            | None \<Rightarrow> Inl (Conflict ''Unable to create outbound message''))) = Inr (m, d1)"
      by (auto simp: MessagesService_create_def bindE_Inr)
    then show ?thesis by (cases "create_transaction d' t dto acc trace ids now"; cases "by_idempotency_key d' t (md_idempotencyKey dto)") auto
  qed
  then consider (old) "by_idempotency_key d t (md_idempotencyKey dto) = Some m" "d1 = d'"
    | (new) acc where "create_transaction d' t dto acc trace ids now = Some (m, d1)"
    | (raced) "by_idempotency_key d' t (md_idempotencyKey dto) = Some m" "d1 = d'" by blast
  then have "campaigns d1 = campaigns d' \<and> campaignRecipients d1 = campaignRecipients d' \<and> message_keys d' \<subseteq> message_keys d1 \<and>
      (m_id m, Some t, md_idempotencyKey dto) \<in> message_keys d \<union> message_keys d1"
  proof cases
    case new
    from create_transaction_tables [OF new] create_transaction_Some [OF new [unfolded ids]] show ?thesis by (auto simp: message_keys_def)
  qed (use found in auto)
  then show "campaigns d1 = campaigns d'" "campaignRecipients d1 = campaignRecipients d'" "message_keys d' \<subseteq> message_keys d1"
    "(m_id m, Some t, md_idempotencyKey dto) \<in> message_keys d \<union> message_keys d1" by blast+
qed

lemma fail_with_sound: "fail_with d k reason now = (out, d1) \<Longrightarrow> sound d d1 \<and> (\<forall>data. out = Some data \<longrightarrow> completion_ok d1 claim data)"
  by (auto simp: fail_with_def completeForCurrentCampaignState_def split: prod.split_asm bool.split_asm option.split_asm
      dest: failCampaign_sound)

lemma create_message_sound:
  assumes "create_recipient_message env d d' claim campaign template contact now = (out, d1)"
    and "message_keys d \<subseteq> message_keys d'" and "(k_id campaign, k_tenantId campaign) \<in> campaign_keys d'"
    and "r_campaignId claim = k_id campaign" and "r_contactId claim = c_id contact"
  shows "sound d' d1 \<and> (\<forall>data. out = Some data \<longrightarrow> completion_ok d1 claim data)"
proof (cases "\<exists>comps m d2. message_components campaign contact = Inr comps \<and>
    MessagesService_create (pe_url env) d d' (k_tenantId campaign) (recipient_request campaign template contact comps) (pe_trace env)
      (pe_messageIds env (r_id claim)) now = Inr (m, d2)")
  case True
  then obtain comps m d2 where c: "message_components campaign contact = Inr comps"
    and m: "MessagesService_create (pe_url env) d d' (k_tenantId campaign) (recipient_request campaign template contact comps) (pe_trace env)
      (pe_messageIds env (r_id claim)) now = Inr (m, d2)" by blast
  from assms(1) c m have out: "out = Some (completeAsQueued (m_id m) now)" "d1 = d2" by (simp_all add: create_recipient_message_def)
  have key: "md_idempotencyKey (recipient_request campaign template contact comps) = Some (recipientIdempotencyKey (k_id campaign) (c_id contact))"
    by (simp add: recipient_request_def)
  then have "truthy_key (md_idempotencyKey (recipient_request campaign template contact comps))"
    by (simp add: truthy_key_def recipientIdempotencyKey_def)
  note frame = create_frame [OF m this, unfolded key]
  have ck: "campaign_keys d2 = campaign_keys d'" by (simp add: campaign_keys_def frame(1))
  have "sound d' d2"
    by (intro sound_update [where f = "\<lambda>c. c" and g = "\<lambda>r. r"]) (simp_all add: frame campaign_update_id recipient_update_id)
  moreover have "queued_message d2 claim (m_id m)"
    unfolding queued_message_def ck using assms(2-5) frame(3,4) by auto
  ultimately show ?thesis unfolding out by (auto simp: completion_ok_def completeAsQueued_def)
next
  case False
  then show ?thesis
    using assms(1) fail_with_sound [of d' "k_id campaign" _ now out d1 claim]
    by (auto simp: create_recipient_message_def sound_refl
        split: sum.split_asm personalization_error.split_asm error.split_asm)
qed

text \<open>What a processor's snapshot has in common with the current state.\<close>

definition earlier :: "db \<Rightarrow> db \<Rightarrow> bool" where
  "earlier d d' \<longleftrightarrow> campaigns_ok d \<and> message_keys d \<subseteq> message_keys d' \<and> campaign_keys d \<subseteq> campaign_keys d'"

lemma decide_sound:
  assumes "decideRecipient env d d' claim now = (out, d1)" and "earlier d d'" and "recipient_key claim \<in> recipient_keys d"
  shows "sound d' d1 \<and> (\<forall>data. out = Some data \<longrightarrow> completion_ok d1 claim data)"
proof -
  have ids: "distinct (map r_id (campaignRecipients d))" using assms(2) by (simp add: earlier_def campaigns_ok_def recipients_ok_def)
  from assms(3) obtain r where r: "r \<in> set (campaignRecipients d)" "recipient_key r = recipient_key claim" by (auto simp: recipient_keys_def)
  with recipient_table.fetch_unique [OF ids r(1)] have f: "findRecipient (r_id claim) (campaignRecipients d) = Some r"
    and rk: "r_campaignId claim = r_campaignId r" "r_contactId claim = r_contactId r" by (auto simp: recipient_key_def)
  show ?thesis
  proof (cases "\<exists>contact campaign. findContact (r_contactId r) (contacts d) = Some contact \<and> findCampaign (r_campaignId r) (campaigns d) = Some campaign")
    case False
    with assms(1) f show ?thesis by (auto simp: decideRecipient_def sound_refl split: option.split_asm)
  next
    case True
    then obtain contact campaign where c: "findContact (r_contactId r) (contacts d) = Some contact"
      "findCampaign (r_campaignId r) (campaigns d) = Some campaign" by blast
    have "(k_id campaign, k_tenantId campaign) \<in> campaign_keys d" unfolding campaign_keys_def using campaign_table.fetch_SomeD [OF c(2)] by blast
    with contact_table.fetch_SomeD [OF c(1)] campaign_table.fetch_SomeD [OF c(2)] assms(2)
    have k: "c_id contact = r_contactId r" "k_id campaign = r_campaignId r" "(k_id campaign, k_tenantId campaign) \<in> campaign_keys d'"
      by (auto simp: earlier_def)
    have mk: "message_keys d \<subseteq> message_keys d'" using assms(2) by (simp add: earlier_def)
    have old: "queued_message d' claim m"
      if "findExistingMessageId d (k_tenantId campaign) (recipientIdempotencyKey (k_id campaign) (r_contactId r)) = Some m" for m
    proof -
      from that have "(m, Some (k_tenantId campaign), Some (recipientIdempotencyKey (k_id campaign) (r_contactId r))) \<in> message_keys d"
        by (force simp: findExistingMessageId_def message_keys_def dest!: findFirst_SomeD)
      with k mk show ?thesis unfolding queued_message_def rk by auto
    qed
    show ?thesis
      using assms(1) [unfolded decideRecipient_def f c option.case prod.case] old fail_with_sound [of d' "k_id campaign" _ now out d1 claim]
        create_message_sound [of env d d' claim campaign _ contact now out d1, OF _ mk k(3)] k rk
      by (auto simp: sound_refl split: option.split_asm if_split_asm)
  qed
qed

section \<open>Steps\<close>

text \<open>What the running operations hold stays true of a database that made progress.\<close>

definition holds_ok :: "db \<Rightarrow> campaign_world \<Rightarrow> bool" where
  "holds_ok d w \<longleftrightarrow>
     (\<forall>k \<in> set (cw_refresh w). not_draft d k) \<and>
     (\<forall>(k, st) \<in> set (cw_stats w). not_draft d k \<and> (st_pending st = 0 \<and> st_processing st = 0 \<longrightarrow> drained d k)) \<and>
     (\<forall>claim \<in> set (cw_claims w). recipient_key claim \<in> recipient_keys d) \<and>
     (\<forall>(claim, d0) \<in> set (cw_reads w). earlier d0 d \<and> recipient_key claim \<in> recipient_keys d0 \<and> recipient_key claim \<in> recipient_keys d) \<and>
     (\<forall>(claim, data) \<in> set (cw_work w). recipient_key claim \<in> recipient_keys d \<and> completion_ok d claim data)"

definition world_ok :: "campaign_world \<Rightarrow> bool" where
  "world_ok w \<longleftrightarrow> campaigns_ok (cw_db w) \<and> holds_ok (cw_db w) w"

lemma holds_progress:
  assumes "progress d d'" and "holds_ok d w"
  shows "holds_ok d' w"
proof -
  note keys = progress_keys [OF assms(1)]
  have dr: "not_draft d k \<Longrightarrow> drained d k \<Longrightarrow> drained d' k" for k using assms(1) by (simp add: progress_def)
  have e: "earlier d0 d \<Longrightarrow> earlier d0 d'" for d0 using keys(1) assms(1) by (auto simp: earlier_def progress_def)
  have c: "completion_ok d claim data \<Longrightarrow> completion_ok d' claim data" for claim data
    using queued_message_mono [OF assms(1)] by (auto simp: completion_ok_def)
  show ?thesis using assms(2) keys(2,3) dr e c unfolding holds_ok_def by fast
qed

lemma world_db_step:
  assumes "sound (cw_db w) d'" and "world_ok w"
  shows "world_ok (w\<lparr>cw_db := d'\<rparr>) \<and> progress (cw_db w) d' \<and> campaigns_ok d' \<and> holds_ok d' w"
proof -
  from assms have pr: "campaigns_ok d'" "progress (cw_db w) d'" by (auto simp: sound_def world_ok_def)
  with holds_progress [OF pr(2)] assms(2) have h: "holds_ok d' w" by (simp add: world_ok_def)
  then have "holds_ok d' (w\<lparr>cw_db := d'\<rparr>)" by (simp add: holds_ok_def)
  with pr h show ?thesis by (simp add: world_ok_def)
qed

lemma life_cycles_refl [simp]: "life_cycles d d"
  by (auto simp: life_cycles_def campaign_moves_def recipient_moves_def)

lemma earlier_refl: "campaigns_ok d \<Longrightarrow> earlier d d"
  by (simp add: earlier_def)

lemma step_db_sound:
  assumes "campaign_step w w'" and "world_ok w"
  shows "sound (cw_db w) (cw_db w')"
  using assms
proof cases
  case (decide claim d env now data d')
  with assms(2) decide_sound [OF decide(3)] show ?thesis by (auto simp: world_ok_def holds_ok_def)
next
  case (abandon claim d env now d')
  with assms(2) decide_sound [OF abandon(3)] show ?thesis by (auto simp: world_ok_def holds_ok_def)
next
  case (finish claim data env now)
  with assms(2) show ?thesis by (auto simp: world_ok_def holds_ok_def intro!: finish_sound)
next
  case (refresh k st now)
  with assms(2) show ?thesis by (auto simp: world_ok_def holds_ok_def intro!: refresh_sound)
next
  case (other d')
  then show ?thesis
    by (intro sound_update [where f = "\<lambda>c. c" and g = "\<lambda>r. r"]) (simp_all add: campaign_update_id recipient_update_id)
qed (auto intro: create_sound launch_sound pause_sound resume_sound cancel_sound promote_sound claim_sound(1) sound_refl)

lemma campaign_step_ok:
  assumes "campaign_step w w'" and "world_ok w"
  shows "world_ok w' \<and> life_cycles (cw_db w) (cw_db w')"
proof -
  from world_db_step [OF step_db_sound [OF assms] assms(2)]
  have base: "world_ok (w\<lparr>cw_db := cw_db w'\<rparr>)" and pr: "progress (cw_db w) (cw_db w')" and ok: "campaigns_ok (cw_db w')"
    and h: "holds_ok (cw_db w') w" by blast+
  have lc: "life_cycles (cw_db w) (cw_db w')" using pr by (simp add: progress_def)
  have wo: "campaigns_ok (cw_db w)" "holds_ok (cw_db w) w" using assms(2) by (simp_all add: world_ok_def)
  from assms(1) have "holds_ok (cw_db w') w'"
  proof cases
    case (cancel tenantId k now d')
    with h cancel_not_draft [OF cancel(2)] show ?thesis by (simp add: holds_ok_def)
  next
    case (claim env locked n now claimed d')
    from claim_sound(2,3) [OF claim(2) wo(1)] progress_keys(2,3) [OF pr]
    have "recipient_key ` set claimed \<subseteq> recipient_keys d'" "\<And>x. x \<in> set claimed \<Longrightarrow> not_draft d' (r_campaignId x)" using claim(1) by auto
    with h claim(1) show ?thesis by (auto simp: holds_ok_def)
  next
    case (read claim)
    with h wo earlier_refl show ?thesis by (auto simp: holds_ok_def)
  next
    case (decide claim d env now data d')
    with wo(2) decide_sound [OF decide(3)] h show ?thesis by (fastforce simp: holds_ok_def)
  next
    case (stats k)
    with h wo refreshStats_read_drained [of "cw_db w" k] show ?thesis by (auto simp: holds_ok_def)
  qed (use base in \<open>simp_all add: world_ok_def\<close>)
  with ok lc show ?thesis by (simp add: world_ok_def)
qed

lemma initial_world_ok: "world_ok initial_world"
  by (simp add: world_ok_def holds_ok_def initial_world_def campaigns_ok_def recipients_ok_def empty_db_def)

lemma reachable_world_ok: "campaign_step\<^sup>*\<^sup>* initial_world w \<Longrightarrow> world_ok w"
  by (induction rule: rtranclp_induct) (auto simp: initial_world_ok dest: campaign_step_ok)

section \<open>Polls\<close>

text \<open>A campaign that is due but has no open recipient.\<close>

definition idle :: "db \<Rightarrow> uuid \<Rightarrow> bool" where
  "idle d k \<longleftrightarrow> campaigns_ok d \<and> drained d k \<and> (\<exists>c. findCampaign k (campaigns d) = Some c \<and> k_status c \<in> {RUNNING, SCHEDULED})"

lemma idle_not_draft: "idle d k \<Longrightarrow> not_draft d k"
  by (auto simp: idle_def not_draft_def dest!: campaign_table.fetch_SomeD)

lemma idle_kept:
  assumes "sound d d'" and "idle d k" and "findCampaign k (campaigns d') = findCampaign k (campaigns d)"
  shows "idle d' k"
  using assms idle_not_draft [OF assms(2)] by (auto simp: idle_def sound_def progress_def)

lemma fail_other: "fail_with d j reason now = (out, d1) \<Longrightarrow> j \<noteq> k \<Longrightarrow> findCampaign k (campaigns d1) = findCampaign k (campaigns d)"
  by (auto simp: fail_with_def failCampaign_def Let_def intro!: campaign_table.fetch_updateMany_other
      split: prod.split_asm bool.split_asm if_split_asm)

lemma decide_other:
  assumes "decideRecipient env d d claim now = (out, d1)" and "findRecipient (r_id claim) (campaignRecipients d) = Some r" and "r_campaignId r \<noteq> k"
  shows "findCampaign k (campaigns d1) = findCampaign k (campaigns d)"
proof (cases "\<exists>contact campaign. findContact (r_contactId r) (contacts d) = Some contact \<and> findCampaign (r_campaignId r) (campaigns d) = Some campaign")
  case False
  with assms(1,2) show ?thesis by (auto simp: decideRecipient_def split: option.split_asm)
next
  case True
  then obtain contact campaign where c: "findContact (r_contactId r) (contacts d) = Some contact"
    "findCampaign (r_campaignId r) (campaigns d) = Some campaign" by blast
  from campaign_table.fetch_SomeD [OF c(2)] assms(3) have j: "k_id campaign \<noteq> k" by auto
  have t: "truthy_key (md_idempotencyKey (recipient_request campaign template contact comps))" for template comps
    by (simp add: truthy_key_def recipient_request_def recipientIdempotencyKey_def)
  have create: "findCampaign k (campaigns d1) = findCampaign k (campaigns d)"
    if "create_recipient_message env d d claim campaign template contact now = (out, d1)" for template
    using that fail_other [OF _ j, of d]
    by (auto simp: create_recipient_message_def dest: create_frame(1) [OF _ t]
        split: sum.split_asm personalization_error.split_asm error.split_asm)
  show ?thesis
    using assms(1) [unfolded decideRecipient_def assms(2) c option.case prod.case] fail_other [OF _ j, of d] create
    by (auto split: option.split_asm if_split_asm)
qed

lemma finish_campaigns [simp]: "campaigns (finishRecipient env claim out d now) = campaigns d"
  by (simp add: finishRecipient_def split: option.splits)

lemma process_idle:
  assumes "idle d k" and "recipient_key claim \<in> recipient_keys d" and "r_campaignId claim \<noteq> k"
  shows "idle (processRecipient env claim now d) k \<and> recipient_keys d \<subseteq> recipient_keys (processRecipient env claim now d)"
proof -
  obtain out d1 where o: "decideRecipient env d d claim now = (out, d1)" by fastforce
  have ok: "campaigns_ok d" using assms(1) by (simp add: idle_def)
  from decide_sound [OF o earlier_refl [OF ok] assms(2)] have s: "sound d d1" and c: "\<And>data. out = Some data \<Longrightarrow> completion_ok d1 claim data" by blast+
  then have ok1: "campaigns_ok d1" and p1: "progress d d1" using ok by (auto simp: sound_def)
  note k1 = progress_keys(2) [OF p1]
  from assms(2) obtain r where r: "r \<in> set (campaignRecipients d)" "recipient_key r = recipient_key claim" by (auto simp: recipient_keys_def)
  have f: "findRecipient (r_id claim) (campaignRecipients d) = Some r"
    using recipient_table.fetch_unique [OF _ r(1)] ok r(2) by (simp add: campaigns_ok_def recipients_ok_def recipient_key_def)
  have "r_campaignId r \<noteq> k" using r(2) assms(3) by (simp add: recipient_key_def)
  from idle_kept [OF s assms(1) decide_other [OF o f this]] have i1: "idle d1 k" .
  have s2: "sound d1 (finishRecipient env claim out d1 now)"
  proof (cases out)
    case None
    then show ?thesis by (simp add: finishRecipient_def sound_refl)
  next
    case (Some data)
    with finish_sound [OF c [OF Some]] k1 assms(2) show ?thesis by auto
  qed
  then have "progress d1 (finishRecipient env claim out d1 now)" using ok1 by (simp add: sound_def)
  from idle_kept [OF s2 i1] k1 progress_keys(2) [OF this] show ?thesis by (auto simp: processRecipient_def o)
qed

lemma process_all_idle:
  assumes "idle d k" and "\<forall>claim \<in> set claims. recipient_key claim \<in> recipient_keys d \<and> r_campaignId claim \<noteq> k"
  shows "idle (fold (\<lambda>r. processRecipient env r now) claims d) k"
  using assms
proof (induction claims arbitrary: d)
  case (Cons claim claims)
  with process_idle [of d k claim env now] show ?case by auto
qed simp

lemma refresh_idle:
  assumes "idle d k" and "k \<noteq> j"
  shows "idle (refreshStats d j now) k"
proof (rule idle_kept [OF _ assms(1)])
  show "sound d (refreshStats d j now)" unfolding refreshStats_def by (rule refresh_sound) (simp add: refreshStats_read_drained)
  show "findCampaign k (campaigns (refreshStats d j now)) = findCampaign k (campaigns d)"
    using assms(2) by (auto simp: refreshStats_def refreshStats_write_def Let_def campaign_table.fetch_updateMany_other)
qed

lemma refresh_all_idle: "idle d k \<Longrightarrow> k \<notin> set js \<Longrightarrow> idle (fold (\<lambda>j d. refreshStats d j now) js d) k"
  by (induction js arbitrary: d) (auto intro: refresh_idle)

lemma claim_idle:
  assumes "idle d k" and "claimRecipients env d locked n now = (claimed, d1)"
  shows "idle d1 k" and "x \<in> set claimed \<Longrightarrow> recipient_key x \<in> recipient_keys d1 \<and> r_campaignId x \<noteq> k"
proof -
  have ok: "campaigns_ok d" and dr: "drained d k" using assms(1) by (simp_all add: idle_def)
  from assms(2) have cs: "campaigns d1 = campaigns d" by (auto simp: claimRecipients_def split: prod.splits)
  note s = claim_sound(1) [OF assms(2)]
  with ok have pr: "progress d d1" by (simp add: sound_def)
  show "idle d1 k" by (rule idle_kept [OF s assms(1)]) (simp add: cs)
  assume x: "x \<in> set claimed"
  from ok have "distinct (map r_id (campaignRecipients d))" by (simp add: campaigns_ok_def recipients_ok_def)
  from recipient_queue.claimed_ready [OF this, of locked n "(now, campaigns d)" _ claimed "campaignRecipients d1" x] assms(2) x
  obtain r u where r: "r \<in> set (campaignRecipients d)" "x = recipient_lease u r" "recipient_ready (now, campaigns d) r"
    by (force simp: claimRecipients_def split: prod.split_asm)
  with dr have "r_campaignId x \<noteq> k" by (auto simp: drained_def recipient_ready_def open_status_def recipient_lease_def)
  moreover have "recipient_key x \<in> recipient_keys d1" using claim_sound(2) [OF assms(2) ok] progress_keys(2) [OF pr] x by blast
  ultimately show "recipient_key x \<in> recipient_keys d1 \<and> r_campaignId x \<noteq> k" by blast
qed

lemma poll_idle:
  assumes "idle d k"
  shows "idle (processPending_campaigns env d locked now) k"
proof -
  let ?d0 = "promoteScheduledCampaigns d now"
  from assms obtain c where c: "findCampaign k (campaigns d) = Some c" "k_status c \<in> {RUNNING, SCHEDULED}" by (auto simp: idle_def)
  have "findCampaign k (campaigns ?d0) = Some (if k_status c = SCHEDULED \<and> (case k_scheduledAt c of Some t \<Rightarrow> t \<le> now | None \<Rightarrow> False)
      then c\<lparr>k_status := RUNNING, k_startedAt := Some now\<rparr> else c)"
    by (simp add: promoteScheduledCampaigns_def campaign_table.fetch_updateMany c(1))
  with c(2) have "\<exists>c. findCampaign k (campaigns ?d0) = Some c \<and> k_status c \<in> {RUNNING, SCHEDULED}" by auto
  then have i0: "idle ?d0 k"
    using assms promote_sound [of d now] idle_not_draft [OF assms] by (auto simp: idle_def sound_def progress_def)
  obtain claimed d1 where c: "claimRecipients env ?d0 locked (processor_positiveInteger (pe_batchSize env) 100) now = (claimed, d1)" by fastforce
  note cl = claim_idle [OF i0 c]
  show ?thesis
    unfolding processPending_campaigns_def Let_def c prod.case
    by (intro refresh_all_idle process_all_idle) (use cl in auto)
qed

section \<open>Properties\<close>

text \<open>
  C14. Whatever the interleaving of requests and processors: recipients are unique per campaign and contact and belong to a
  campaign; a draft has no recipients and the total of a campaign counts its recipients; a recipient that is queued refers to a message of
  the campaign's tenant that carries the recipient's idempotency key; a completed campaign has no pending or processing recipient.
\<close>

theorem campaign_reachable_ok:
  assumes "campaign_step\<^sup>*\<^sup>* initial_world w"
  shows "campaigns_ok (cw_db w)"
  using reachable_world_ok [OF assms] by (simp add: world_ok_def)

text \<open>
  C15. Every step moves campaigns along the edges of their life cycle (draft, scheduled, running, paused, and the final states
  completed, cancelled, failed) and leaves recipients that are queued, skipped, failed or cancelled as they are.
\<close>

theorem campaign_life_cycles:
  assumes "campaign_step\<^sup>*\<^sup>* initial_world w" and "campaign_step w w'"
  shows "life_cycles (cw_db w) (cw_db w')"
  using campaign_step_ok [OF assms(2) reachable_world_ok [OF assms(1)]] by blast


text \<open>
  C39. A campaign that is resumed after its last recipient was settled while it was paused is never completed: any number of
  polls leaves it scheduled or running, because only the counters of campaigns with claimed recipients are refreshed.
\<close>

theorem resumed_campaign_never_completes:
  assumes "campaigns_ok d" and "drained d k" and "CampaignsService_resume d d tenantId k now = Inr (c, d')"
  shows "\<exists>c'. findCampaign k (campaigns (fold (\<lambda>(env, locked, stamp) d. processPending_campaigns env d locked stamp) polls d')) = Some c' \<and>
    k_status c' \<in> {RUNNING, SCHEDULED}"
proof -
  have ok: "campaigns_ok d'" using resume_sound [OF assms(3)] assms(1) by (simp add: sound_def)
  have dr: "drained d' k" using assms(2,3) by (auto simp: CampaignsService_resume_def drained_def Let_def bindE_Inr split: if_split_asm)
  from assms(3) obtain campaign x where x: "x \<in> set (campaigns d)" "campaign_is tenantId k {PAUSED} x"
    and d'': "campaigns d' = updateMany (campaign_is tenantId k {PAUSED}) (\<lambda>c. c\<lparr>k_status := resumed_status campaign now,
      k_startedAt := (if resumed_status campaign now = RUNNING \<and> k_startedAt campaign = None then Some now else k_startedAt c)\<rparr>) (campaigns d)"
    by (auto simp: CampaignsService_resume_def Let_def bindE_Inr countWhere_0 split: if_split_asm)
  have st: "resumed_status campaign now \<in> {RUNNING, SCHEDULED}" by (simp add: resumed_status_def split: option.split)
  have "findCampaign k (campaigns d) = Some x"
    using campaign_table.fetch_unique [OF _ x(1)] x(2) assms(1) by (simp add: campaigns_ok_def campaign_is_def)
  with x(2) st have "\<exists>c'. findCampaign k (campaigns d') = Some c' \<and> k_status c' \<in> {RUNNING, SCHEDULED}"
    unfolding d'' by (auto simp: campaign_table.fetch_updateMany)
  with ok dr have "idle d' k" by (simp add: idle_def)
  then have "idle (fold (\<lambda>(env, locked, stamp) d. processPending_campaigns env d locked stamp) polls d') k"
    by (induction polls arbitrary: d') (auto simp: poll_idle split: prod.splits)
  then show ?thesis by (simp add: idle_def)
qed

section \<open>A run\<close>

text \<open>
  A campaign with one recipient is launched and the recipient claimed; the campaign is paused, the processor reads it and
  decides to release the recipient; the campaign is cancelled before the processor completes its claim.
\<close>

definition run_env :: campaign_env where
  "run_env = \<lparr>pe_url = (\<lambda>_. None), pe_maxAttempts = None, pe_batchSize = None, pe_leaseMs = None, pe_trace = None, pe_messageIds = (\<lambda>_. ([], [], []))\<rparr>"

definition run_recipient :: recipient_row where
  "run_recipient = new_recipient ''k'' (Cons (CHR ''r'')) 9 ''c''"

definition run_claim :: recipient_row where
  "run_claim = recipient_lease 30010 run_recipient"

definition run_campaign :: "CampaignStatus \<Rightarrow> time option \<Rightarrow> campaign_row" where
  "run_campaign st cancelled = (launched 1 9 sample_draft)\<lparr>k_status := st, k_cancelledAt := cancelled\<rparr>"

definition run_db :: "campaign_row \<Rightarrow> recipient_row list \<Rightarrow> db" where
  "run_db c rs = sample_campaign_db\<lparr>campaigns := [c], campaignRecipients := rs\<rparr>"

definition run_world :: "db \<Rightarrow> campaign_world" where
  "run_world d = \<lparr>cw_db = d, cw_refresh = [''k''], cw_stats = [], cw_claims = [run_claim],
     cw_reads = [(run_claim, run_db (run_campaign PAUSED None) [run_claim])], cw_work = [(run_claim, released 11 None)]\<rparr>"

lemmas run_simps = run_db_def run_campaign_def run_claim_def run_recipient_def recipient_lease_def launched_def launched_status_def
  sample_draft_def draft_campaign_def Let_def

lemma run_ids:
  "k_id (run_campaign st t) = ''k''" "k_tenantId (run_campaign st t) = ''t''" "k_status (run_campaign st t) = st" "k_senderId (run_campaign st t) = ''s''"
  "k_templateId (run_campaign st t) = ''m''" "k_failureReason (run_campaign st t) = None" "r_id run_claim = ''rc''" "r_campaignId run_claim = ''k''"
  "r_contactId run_claim = ''c''" "r_status run_claim = CampaignRecipientStatus.PROCESSING" "r_processingLeaseUntil run_claim = Some 30010"
  "r_messageId run_claim = None"
  by (simp_all add: run_simps new_recipient_def)

lemma run_created:
  "CampaignsService_create \<lparr>parse_date = (\<lambda>_. None), toISOString = (\<lambda>_. [])\<rparr> (sample_campaign_db\<lparr>campaigns := []\<rparr>) (sample_campaign_db\<lparr>campaigns := []\<rparr>)
     ''t'' \<lparr>kd_name = ''Offer'', kd_senderId = Some ''s'', kd_templateId = ''m'', kd_audience = sample_audience, kd_personalizationEnabled = Undefined,
       kd_components = Undefined, kd_scheduledAt = None\<rparr> ''k'' 1 = Inr (sample_draft, sample_campaign_db)"
proof -
  have n: "js_trim ''Offer'' = ''Offer''" by (simp add: js_trim_def js_space_def)
  have s: "resolveForTenant (sample_campaign_db\<lparr>campaigns := []\<rparr>) ''t'' (Some ''s'') = Inr sample_waba_sender"
    by (simp add: resolveForTenant_def sample_campaign_db_def sample_waba_sender_def)
  have w: "waba_of sample_waba_sender = Some ''w''" "s_id sample_waba_sender = ''s''" by (simp_all add: sample_waba_sender_def waba_of_def nonempty_def)
  have t: "TemplatesService_findById (sample_campaign_db\<lparr>campaigns := []\<rparr>) ''t'' ''m'' = Inr sample_marketing_template"
    by (simp add: TemplatesService_findById_def sample_campaign_db_def sample_marketing_template_def)
  have m: "t_id sample_marketing_template = ''m''" by (simp add: sample_marketing_template_def)
  show ?thesis
    by (simp add: CampaignsService_create_def sample_normalized_audience n s w t m sample_marketing scheduled_date_def Let_def)
      (simp add: sample_draft_def sample_campaign_db_def)
qed

lemma run_claimed:
  "claimRecipients run_env (run_db (run_campaign RUNNING None) [run_recipient]) [] 1 10 = ([run_claim], run_db (run_campaign RUNNING None) [run_claim])"
proof -
  have "recipient_ready (10, [run_campaign RUNNING None]) run_recipient"
    by (simp add: recipient_ready_def run_recipient_def new_recipient_def findCampaign_def run_ids)
  then show ?thesis
    by (simp add: claimRecipients_def claim_recipient_rows_def claim_rows_def claim_batch_def run_db_def run_env_def
        processor_positiveInteger_def run_claim_def updateMany_def)
qed

lemma run_paused:
  "CampaignsService_pause (run_db (run_campaign RUNNING None) [run_claim]) ''t'' ''k'' =
     Inr (run_campaign PAUSED None, run_db (run_campaign PAUSED None) [run_claim])"
proof -
  have "(run_campaign RUNNING None)\<lparr>k_status := PAUSED\<rparr> = run_campaign PAUSED None" by (simp add: run_campaign_def)
  then show ?thesis
    by (simp add: CampaignsService_pause_def CampaignsService_findById_def run_db_def countWhere_def updateMany_def campaign_is_def run_ids)
qed

lemma run_decided:
  "decideRecipient run_env (run_db (run_campaign PAUSED None) [run_claim]) (run_db (run_campaign PAUSED None) [run_claim]) run_claim 11 =
     (Some (released 11 None), run_db (run_campaign PAUSED None) [run_claim])"
proof -
  let ?d = "run_db (run_campaign PAUSED None) [run_claim]"
  have "findContact ''c'' (contacts ?d) = Some sample_contact" "findSender ''s'' (senders ?d) = Some sample_waba_sender"
    "findTemplate ''m'' (templates ?d) = Some sample_marketing_template" "findCampaign ''k'' (campaigns ?d) = Some (run_campaign PAUSED None)"
    "findRecipient ''rc'' (campaignRecipients ?d) = Some run_claim" "messages ?d = []"
    by (simp_all add: run_db_def sample_campaign_db_def findContact_def findSender_def findTemplate_def findCampaign_def findRecipient_def
        sample_contact_def sample_waba_sender_def sample_marketing_template_def run_ids empty_db_def)
  then show ?thesis by (simp add: decideRecipient_def run_ids findExistingMessageId_def)
qed

lemma run_cancelled:
  "cancel_transaction (run_db (run_campaign PAUSED None) [run_claim]) ''t'' ''k'' 12 =
     Some (run_db (run_campaign CampaignStatus.CANCELLED (Some 12)) [run_claim])"
proof -
  have "(run_campaign PAUSED None)\<lparr>k_status := CampaignStatus.CANCELLED, k_cancelledAt := Some 12\<rparr> = run_campaign CampaignStatus.CANCELLED (Some 12)"
    by (simp add: run_campaign_def)
  then show ?thesis
    by (simp add: cancel_transaction_def run_db_def countWhere_def updateMany_def campaign_is_def run_ids close_pending_def pending_of_def)
qed

lemma run_finished:
  "finishRecipient run_env run_claim (Some (released 11 None)) (run_db c [run_claim]) 13 = run_db c [apply_completion (released 11 None) run_claim]"
proof -
  have "r_messageId (apply_completion (released 11 None) run_claim) = None" by (simp add: apply_completion_def released_def run_ids)
  then have "completeClaim run_claim (released 11 None) [run_claim] = Some [apply_completion (released 11 None) run_claim]"
    by (simp add: completeClaim_def updateMany_def claim_held_def run_ids map_filter_def)
  then show ?thesis by (simp add: finishRecipient_def run_db_def)
qed

lemma run_before_finish:
  "campaign_step\<^sup>*\<^sup>* initial_world
     ((run_world (run_db (run_campaign CampaignStatus.CANCELLED (Some 12)) [run_claim]))\<lparr>cw_refresh := [''k'', ''k'']\<rparr>)"
proof -
  let ?w = "\<lambda>d rf cl rd wk. \<lparr>cw_db = d, cw_refresh = rf, cw_stats = [], cw_claims = cl, cw_reads = rd, cw_work = wk\<rparr>"
  let ?p = "run_db (run_campaign PAUSED None) [run_claim]" and ?r = "run_db (run_campaign RUNNING None)"
  have d3: "sample_campaign_db\<lparr>campaigns := [launched 1 9 sample_draft], campaignRecipients := [new_recipient ''k'' (Cons (CHR ''r'')) 9 ''c'']\<rparr> = ?r [run_recipient]"
    by (simp add: run_simps)
  have base: "campaigns sample_campaign_db = [sample_draft]" "campaignRecipients sample_campaign_db = []" "messages sample_campaign_db = []"
    by (simp_all add: sample_campaign_db_def empty_db_def)
  have s1: "campaign_step initial_world (?w (sample_campaign_db\<lparr>campaigns := []\<rparr>) [] [] [] [])"
    using campaign_step.other [of "sample_campaign_db\<lparr>campaigns := []\<rparr>" initial_world] base
    by (simp add: initial_world_def empty_db_def message_keys_def)
  have s2: "campaign_step (?w (sample_campaign_db\<lparr>campaigns := []\<rparr>) [] [] [] []) (?w sample_campaign_db [] [] [] [])"
    using campaign_step.create [of _ _ "?w (sample_campaign_db\<lparr>campaigns := []\<rparr>) [] [] [] []"] run_created by simp
  have s3: "campaign_step (?w sample_campaign_db [] [] [] []) (?w (?r [run_recipient]) [] [] [] [])"
    using campaign_step.launch [of "?w sample_campaign_db [] [] [] []", unfolded d3] sample_launch [unfolded d3] base
    by (simp add: fresh_recipients_def sample_campaign_db_def)
  have s4: "campaign_step (?w (?r [run_recipient]) [] [] [] []) (?w (?r [run_claim]) [''k''] [run_claim] [] [])"
    using campaign_step.claim [of run_env "?w (?r [run_recipient]) [] [] [] []" "[]" 1 10 "[run_claim]" "?r [run_claim]"] run_claimed by (simp add: run_ids)
  have s5: "campaign_step (?w (?r [run_claim]) [''k''] [run_claim] [] []) (?w ?p [''k''] [run_claim] [] [])"
    using campaign_step.pause [of "?w (?r [run_claim]) [''k''] [run_claim] [] []"] run_paused by simp
  have s6: "campaign_step (?w ?p [''k''] [run_claim] [] []) (?w ?p [''k''] [run_claim] [(run_claim, ?p)] [])"
    using campaign_step.read [of run_claim "?w ?p [''k''] [run_claim] [] []"] by simp
  have s7: "campaign_step (?w ?p [''k''] [run_claim] [(run_claim, ?p)] []) (?w ?p [''k''] [run_claim] [(run_claim, ?p)] [(run_claim, released 11 None)])"
    using campaign_step.decide [of run_claim ?p "?w ?p [''k''] [run_claim] [(run_claim, ?p)] []"] run_decided by simp
  have s8: "campaign_step (?w ?p [''k''] [run_claim] [(run_claim, ?p)] [(run_claim, released 11 None)])
      (?w (run_db (run_campaign CampaignStatus.CANCELLED (Some 12)) [run_claim]) [''k'', ''k''] [run_claim] [(run_claim, ?p)] [(run_claim, released 11 None)])"
    using campaign_step.cancel [of "?w ?p [''k''] [run_claim] [(run_claim, ?p)] [(run_claim, released 11 None)]"] run_cancelled by simp
  have step: "campaign_step\<^sup>*\<^sup>* a b \<Longrightarrow> campaign_step b c \<Longrightarrow> campaign_step\<^sup>*\<^sup>* a c" for a b c by (rule rtranclp.rtrancl_into_rtrancl)
  show ?thesis
    unfolding run_world_def
    using step [OF step [OF step [OF step [OF step [OF step [OF step [OF r_into_rtranclp [of campaign_step, OF s1] s2] s3] s4] s5] s6] s7] s8] by simp
qed

text \<open>
  A run that leaves a recipient pending although its campaign is cancelled: a processor that saw the campaign paused
  releases its claim after the cancellation. Recipients of a cancelled campaign are never claimed again, so it stays pending.
\<close>

theorem cancelled_recipient_left_pending:
  "\<exists>w c r. campaign_step\<^sup>*\<^sup>* initial_world w \<and> c \<in> set (campaigns (cw_db w)) \<and> k_status c = CampaignStatus.CANCELLED \<and>
     r \<in> set (campaignRecipients (cw_db w)) \<and> r_campaignId r = k_id c \<and> r_status r = CampaignRecipientStatus.PENDING \<and>
     (\<forall>now. \<not> recipient_ready (now, campaigns (cw_db w)) r)"
proof -
  let ?c = "run_campaign CampaignStatus.CANCELLED (Some 12)" and ?r = "apply_completion (released 11 None) run_claim"
  let ?w = "(run_world (run_db ?c [run_claim]))\<lparr>cw_refresh := [''k'', ''k'']\<rparr>"
  have "campaign_step ?w (?w\<lparr>cw_db := run_db ?c [?r]\<rparr>)"
    using campaign_step.finish [of run_claim "released 11 None" ?w run_env 13] run_finished [of ?c] by (simp add: run_world_def)
  with run_before_finish have reach: "campaign_step\<^sup>*\<^sup>* initial_world (?w\<lparr>cw_db := run_db ?c [?r]\<rparr>)" by (rule rtranclp.rtrancl_into_rtrancl)
  show ?thesis
    by (intro exI conjI, rule reach)
      (auto simp: run_db_def run_ids apply_completion_def released_def recipient_ready_def findCampaign_def)
qed

section \<open>Witnesses\<close>

theorem campaign_reachable_ok_witness: "campaigns_ok (run_db (run_campaign CampaignStatus.CANCELLED (Some 12)) [run_claim])"
  using campaign_reachable_ok [OF run_before_finish] by (simp add: run_world_def)

theorem campaign_life_cycles_witness:
  "life_cycles (run_db (run_campaign CampaignStatus.CANCELLED (Some 12)) [run_claim])
     (run_db (run_campaign CampaignStatus.CANCELLED (Some 12)) [apply_completion (released 11 None) run_claim])"
proof -
  let ?c = "run_campaign CampaignStatus.CANCELLED (Some 12)"
  let ?w = "(run_world (run_db ?c [run_claim]))\<lparr>cw_refresh := [''k'', ''k'']\<rparr>"
  have "campaign_step ?w (?w\<lparr>cw_db := run_db ?c [apply_completion (released 11 None) run_claim]\<rparr>)"
    using campaign_step.finish [of run_claim "released 11 None" ?w run_env 13] run_finished [of ?c] by (simp add: run_world_def)
  from campaign_life_cycles [OF run_before_finish this] show ?thesis by (simp add: run_world_def)
qed

lemma run_reclaimed:
  "claimRecipients run_env (run_db (run_campaign RUNNING None) [run_claim]) [] 1 40000 =
     ([recipient_lease 70000 run_claim], run_db (run_campaign RUNNING None) [recipient_lease 70000 run_claim])"
proof -
  have "recipient_ready (40000, [run_campaign RUNNING None]) run_claim"
    by (simp add: recipient_ready_def findCampaign_def run_ids)
  then show ?thesis
    by (simp add: claimRecipients_def claim_recipient_rows_def claim_rows_def claim_batch_def run_db_def run_env_def
        processor_positiveInteger_def updateMany_def)
qed


definition settled_db :: db where
  "settled_db = run_db (run_campaign PAUSED None) [run_claim\<lparr>r_status := SKIPPED, r_processingLeaseUntil := None\<rparr>]"

theorem resumed_campaign_never_completes_witness:
  "\<exists>c. findCampaign ''k'' (campaigns (processPending_campaigns run_env (run_db (run_campaign RUNNING None)
       [run_claim\<lparr>r_status := SKIPPED, r_processingLeaseUntil := None\<rparr>]) [] 99)) = Some c \<and> k_status c \<in> {RUNNING, SCHEDULED}"
proof -
  let ?r = "run_claim\<lparr>r_status := SKIPPED, r_processingLeaseUntil := None\<rparr>"
  have k: "k_totalRecipients (run_campaign PAUSED None) = 1" "k_scheduledAt (run_campaign PAUSED None) = None" "k_startedAt (run_campaign PAUSED None) = Some 9"
    by (simp_all add: run_simps)
  have ok: "campaigns_ok settled_db"
    by (simp add: settled_db_def run_db_def campaigns_ok_def recipients_ok_def campaign_ok_def countWhere_def run_ids k)
  have dr: "drained settled_db ''k''" by (simp add: settled_db_def run_db_def drained_def open_status_def)
  have "(run_campaign PAUSED None)\<lparr>k_status := RUNNING\<rparr> = run_campaign RUNNING None" by (simp add: run_campaign_def)
  then have r: "CampaignsService_resume settled_db settled_db ''t'' ''k'' 50 = Inr (run_campaign RUNNING None, run_db (run_campaign RUNNING None) [?r])"
    by (simp add: settled_db_def run_db_def CampaignsService_resume_def resumed_status_def CampaignsService_findById_def countWhere_def updateMany_def
        campaign_is_def run_ids k)
  from resumed_campaign_never_completes [OF ok dr r, of "[(run_env, [], 99)]"] show ?thesis by simp
qed

end
