(* ===== verification/Inbox_Skills.thy ===== *)
theory Inbox_Skills
  imports Inbox_Teams
begin

text \<open>
  src/src/inbox/inbox-skills.service.ts (the skills of a tenant and its agents' levels),
  inbox-conversation-skills.service.ts (the skills a conversation requires) and inbox-skill-admission.ts (does an
  agent meet them). The admission code has two implementations, one for a single agent with a map from skill to
  level and one for many agents with a map of maps; both decide the same specification, \<open>meets_requirements\<close>.
\<close>

section \<open>Requests\<close>

record create_skill_dto =
  cl_name :: string
  cl_description :: "string field"

record update_skill_dto =
  ul_name :: "string field"
  ul_description :: "string field"
  ul_active :: "bool field"

section \<open>InboxSkillsService\<close>

definition skills_unique :: "skill_row list \<Rightarrow> bool" where
  "skills_unique rows \<longleftrightarrow> distinct (map sk_id rows) \<and> distinct (map (\<lambda>s. (sk_tenantId s, sk_name s)) rows)"

definition SKILL_NAME_TAKEN :: error where
  "SKILL_NAME_TAKEN = Conflict ''An inbox skill with that name already exists''"

definition InboxSkillsService_createSkill ::
  "db \<Rightarrow> ApiPrincipal \<Rightarrow> create_skill_dto \<Rightarrow> AuditRequestContext option \<Rightarrow> uuid \<Rightarrow> error + skill_row \<times> db" where
  "InboxSkillsService_createSkill d p dto ctx newId =
     (let actor = mutationActor (Inr p)
      in bindE (requiredText (cl_name dto) ''Skill name'') (\<lambda>name.
         bindE (optionalText (cl_description dto)) (\<lambda>description.
           let skill = \<lparr>sk_id = newId, sk_tenantId = ma_tenantId actor, sk_name = name, sk_description = description, sk_active = True\<rparr>;
               audit = auditLogData actor ctx ''inbox.skill.created'' ''InboxSkill'' (Some newId)
                 (Some (JObj [(''hasDescription'', JBool (description \<noteq> None))]))
           in if skills_unique (skills d @ [skill]) then Inr (skill, add_audit audit (d\<lparr>skills := skills d @ [skill]\<rparr>))
              else Inl SKILL_NAME_TAKEN)))"

definition listSkills :: "db \<Rightarrow> uuid \<Rightarrow> bool option \<Rightarrow> skill_row list" where
  "listSkills d tenantId active =
     sort_key (\<lambda>s. (if sk_active s then 0 else Suc 0)) (sort_key sk_name (sort_key sk_id
       (filter (\<lambda>s. sk_tenantId s = tenantId \<and> (case active of None \<Rightarrow> True | Some b \<Rightarrow> sk_active s = b)) (skills d))))"

text \<open>A skill with its assignments (best first), each with its agent; the join is on the relation's fields.\<close>

definition findSkill :: "db \<Rightarrow> uuid \<Rightarrow> uuid \<Rightarrow> error + skill_row \<times> (agent_skill_row \<times> agent_row option) list" where
  "findSkill d tenantId k =
     (case findFirst (\<lambda>s. sk_id s = k \<and> sk_tenantId s = tenantId) (skills d) of
        None \<Rightarrow> Inl (NotFound ''Inbox skill not found'')
      | Some skill \<Rightarrow>
          Inr (skill, map (\<lambda>x. (x, findFirst (\<lambda>a. ag_id a = as_agentId x \<and> ag_tenantId a = as_tenantId x) (agents d)))
            (rev (sort_key as_level (rev (sort_key as_createdAt (sort_key as_agentId
               (filter (\<lambda>x. as_tenantId x = sk_tenantId skill \<and> as_skillId x = sk_id skill) (agentSkills d)))))))))"

definition update_skill_keys :: "update_skill_dto \<Rightarrow> string list" where
  "update_skill_keys dto = changedFields [(''name'', is_defined (ul_name dto)), (''description'', is_defined (ul_description dto)),
     (''active'', is_defined (ul_active dto))] (\<lambda>_. None)"

definition skill_changes :: "string field \<Rightarrow> string option field \<Rightarrow> update_skill_dto \<Rightarrow> skill_row \<Rightarrow> skill_row" where
  "skill_changes name description dto s =
     s\<lparr>sk_name := set_required name (sk_name s), sk_description := set_required description (sk_description s),
       sk_active := set_required (ul_active dto) (sk_active s)\<rparr>"

definition InboxSkillsService_updateSkill ::
  "db \<Rightarrow> ApiPrincipal \<Rightarrow> uuid \<Rightarrow> update_skill_dto \<Rightarrow> AuditRequestContext option \<Rightarrow> error + skill_row \<times> db" where
  "InboxSkillsService_updateSkill d p k dto ctx =
     (if update_skill_keys dto = [] then Inl (BadRequest ''At least one skill field must be provided'')
      else let actor = mutationActor (Inr p)
      in case findFirst (\<lambda>s. sk_id s = k \<and> sk_tenantId s = ma_tenantId actor) (skills d) of
           None \<Rightarrow> Inl (NotFound ''Inbox skill not found'')
         | Some existing \<Rightarrow>
             bindE (text_update (\<lambda>s. requiredText s ''Skill name'') (ul_name dto)) (\<lambda>name.
             bindE (text_update (\<lambda>s. optionalText (Val s)) (ul_description dto)) (\<lambda>description.
             if ul_active dto = Null then Inl VALIDATION_ERROR
             else let skill = skill_changes name description dto existing;
                      rows = updateSkillRow k (skill_changes name description dto) (skills d);
                      audit = auditLogData actor ctx ''inbox.skill.updated'' ''InboxSkill'' (Some k)
                        (Some (JObj [(''changedFields'', JArr (map JStr (update_skill_keys dto))), (''active'', JBool (sk_active skill))]))
                  in if skills_unique rows then Inr (skill, add_audit audit (d\<lparr>skills := rows\<rparr>)) else Inl SKILL_NAME_TAKEN)))"

text \<open>
  \<open>setAgentSkill\<close> reads the skill, the agent and the assignment in the state \<open>d\<close> and writes in the state \<open>d'\<close>,
  which differs when another transaction commits between (nothing is locked): the insert then finds a
  duplicate and the level is changed instead.
\<close>

definition agent_skill_is :: "uuid \<Rightarrow> uuid \<Rightarrow> agent_skill_row \<Rightarrow> bool" where
  "agent_skill_is skillId agentId x \<longleftrightarrow> as_skillId x = skillId \<and> as_agentId x = agentId"

definition skill_level_audit :: "MutationActor \<Rightarrow> AuditRequestContext option \<Rightarrow> uuid \<Rightarrow> uuid \<Rightarrow> (string \<times> json) list \<Rightarrow> audit_row option" where
  "skill_level_audit actor ctx skillId agentId meta =
     auditLogData actor ctx ''inbox.skill.agent.level.updated'' ''InboxAgentSkill'' (Some (skillId @ '':'' @ agentId)) (Some (JObj meta))"

definition json_nat :: "nat \<Rightarrow> json" where
  "json_nat n = JNum (nat_string n)"

definition set_level :: "nat \<Rightarrow> agent_skill_row \<Rightarrow> agent_skill_row" where
  "set_level level x = x\<lparr>as_level := level\<rparr>"

text \<open>The end of the transaction: \<open>createMany\<close> with \<open>skipDuplicates\<close>, then \<open>updateMany\<close> when it inserted nothing.\<close>

definition assign_skill :: "db \<Rightarrow> MutationActor \<Rightarrow> uuid \<Rightarrow> uuid \<Rightarrow> nat \<Rightarrow> AuditRequestContext option \<Rightarrow> time \<Rightarrow> error + db" where
  "assign_skill d actor skillId agentId level ctx now =
     (let tenantId = ma_tenantId actor;
          other = (\<lambda>x. as_tenantId x = tenantId \<and> agent_skill_is skillId agentId x \<and> as_level x \<noteq> level)
      in if findFirst (agent_skill_is skillId agentId) (agentSkills d) = None
         then if findFirst (\<lambda>s. sk_id s = skillId \<and> sk_tenantId s = tenantId) (skills d) = None \<or>
                 findFirst (\<lambda>a. ag_id a = agentId \<and> ag_tenantId a = tenantId) (agents d) = None
              then Inl FOREIGN_KEY_VIOLATION
              else Inr (add_audit (auditLogData actor ctx ''inbox.skill.agent.assigned'' ''InboxAgentSkill'' (Some (skillId @ '':'' @ agentId))
                      (Some (JObj [(''level'', json_nat level)])))
                 (d\<lparr>agentSkills := agentSkills d @ [\<lparr>as_tenantId = tenantId, as_skillId = skillId, as_agentId = agentId,
                      as_level = level, as_createdAt = now\<rparr>]\<rparr>))
         else let changed = countWhere other (agentSkills d);
                  d' = d\<lparr>agentSkills := updateMany other (set_level level) (agentSkills d)\<rparr>
              in Inr (if changed = 1 then add_audit (skill_level_audit actor ctx skillId agentId [(''toLevel'', json_nat level)]) d' else d'))"

definition setAgentSkill_transaction ::
  "db \<Rightarrow> db \<Rightarrow> MutationActor \<Rightarrow> uuid \<Rightarrow> uuid \<Rightarrow> nat \<Rightarrow> AuditRequestContext option \<Rightarrow> time \<Rightarrow> error + db" where
  "setAgentSkill_transaction d d' actor skillId agentId level ctx now =
     (let tenantId = ma_tenantId actor
      in case findFirst (\<lambda>s. sk_id s = skillId \<and> sk_tenantId s = tenantId) (skills d) of
           None \<Rightarrow> Inl (NotFound ''Inbox skill not found'')
         | Some skill \<Rightarrow>
           (case findFirst (\<lambda>a. ag_id a = agentId \<and> ag_tenantId a = tenantId) (agents d) of
              None \<Rightarrow> Inl (Unprocessable ''Inbox agent is not in this tenant'')
            | Some agent \<Rightarrow>
              (case findFirst (agent_skill_is skillId agentId) (agentSkills d) of
                 Some existing \<Rightarrow>
                   if as_level existing = level then Inr d'
                   else if findFirst (agent_skill_is skillId agentId) (agentSkills d') = None then Inl (Error ''P2025'')
                   else Inr (add_audit (skill_level_audit actor ctx skillId agentId
                               [(''fromLevel'', json_nat (as_level existing)), (''toLevel'', json_nat level)])
                          (d'\<lparr>agentSkills := updateMany (agent_skill_is skillId agentId) (set_level level) (agentSkills d')\<rparr>))
               | None \<Rightarrow>
                   if \<not> sk_active skill then Inl (Unprocessable ''Inbox skill must be active for a new assignment'')
                   else if \<not> ag_active agent then Inl (Unprocessable ''Inbox agent must be active for a new skill assignment'')
                   else assign_skill d' actor skillId agentId level ctx now)))"

definition InboxSkillsService_setAgentSkill ::
  "db \<Rightarrow> db \<Rightarrow> ApiPrincipal \<Rightarrow> uuid \<Rightarrow> uuid \<Rightarrow> nat \<Rightarrow> AuditRequestContext option \<Rightarrow> time \<Rightarrow>
     error + (skill_row \<times> (agent_skill_row \<times> agent_row option) list) \<times> db" where
  "InboxSkillsService_setAgentSkill d d' p skillId agentId level ctx now =
     (let actor = mutationActor (Inr p)
      in bindE (setAgentSkill_transaction d d' actor skillId agentId level ctx now) (\<lambda>d''.
         bindE (findSkill d'' (ma_tenantId actor) skillId) (\<lambda>view. Inr (view, d''))))"

definition removeAgentSkill_transaction ::
  "db \<Rightarrow> MutationActor \<Rightarrow> uuid \<Rightarrow> uuid \<Rightarrow> AuditRequestContext option \<Rightarrow> error + db" where
  "removeAgentSkill_transaction d actor skillId agentId ctx =
     (let tenantId = ma_tenantId actor; hit = (\<lambda>x. as_tenantId x = tenantId \<and> agent_skill_is skillId agentId x)
      in case findFirst (\<lambda>s. sk_id s = skillId \<and> sk_tenantId s = tenantId) (skills d) of
           None \<Rightarrow> Inl (NotFound ''Inbox skill not found'')
         | Some _ \<Rightarrow>
             if countWhere hit (agentSkills d) = 0 then Inr d
             else Inr (add_audit (auditLogData actor ctx ''inbox.skill.agent.removed'' ''InboxAgentSkill'' (Some (skillId @ '':'' @ agentId)) None)
                (d\<lparr>agentSkills := filter (\<lambda>x. \<not> hit x) (agentSkills d)\<rparr>)))"

definition InboxSkillsService_removeAgentSkill ::
  "db \<Rightarrow> ApiPrincipal \<Rightarrow> uuid \<Rightarrow> uuid \<Rightarrow> AuditRequestContext option \<Rightarrow>
     error + (skill_row \<times> (agent_skill_row \<times> agent_row option) list) \<times> db" where
  "InboxSkillsService_removeAgentSkill d p skillId agentId ctx =
     (let actor = mutationActor (Inr p)
      in bindE (removeAgentSkill_transaction d actor skillId agentId ctx) (\<lambda>d'.
         bindE (findSkill d' (ma_tenantId actor) skillId) (\<lambda>view. Inr (view, d'))))"

section \<open>InboxConversationSkillsService\<close>

definition requirement_is :: "uuid \<Rightarrow> uuid \<Rightarrow> skill_requirement_row \<Rightarrow> bool" where
  "requirement_is conversationId skillId x \<longleftrightarrow> sr_conversationId x = conversationId \<and> sr_skillId x = skillId"

definition requirement_skill :: "db \<Rightarrow> skill_requirement_row \<Rightarrow> skill_row option" where
  "requirement_skill d x = findFirst (\<lambda>s. sk_tenantId s = sr_tenantId x \<and> sk_id s = sr_skillId x) (skills d)"

definition listRequirements :: "db \<Rightarrow> uuid \<Rightarrow> uuid \<Rightarrow> (skill_requirement_row \<times> skill_row option) list" where
  "listRequirements d tenantId conversationId =
     sort_key (\<lambda>(x, s). case s of None \<Rightarrow> [] | Some s \<Rightarrow> sk_name s) (map (\<lambda>x. (x, requirement_skill d x))
       (sort_key sr_skillId (filter (\<lambda>x. sr_tenantId x = tenantId \<and> sr_conversationId x = conversationId) (skillRequirements d))))"

definition requirement_audit ::
  "MutationActor \<Rightarrow> AuditRequestContext option \<Rightarrow> string \<Rightarrow> uuid \<Rightarrow> uuid \<Rightarrow> json option \<Rightarrow> audit_row option" where
  "requirement_audit actor ctx action conversationId skillId meta =
     auditLogData actor ctx action ''ConversationSkillRequirement'' (Some (conversationId @ '':'' @ skillId)) meta"

definition setRequirement_transaction ::
  "db \<Rightarrow> MutationActor \<Rightarrow> uuid \<Rightarrow> uuid \<Rightarrow> nat \<Rightarrow> AuditRequestContext option \<Rightarrow> error + db" where
  "setRequirement_transaction d actor conversationId skillId minLevel ctx =
     (let tenantId = ma_tenantId actor
      in case findFirst (\<lambda>v. v_id v = conversationId \<and> v_tenantId v = tenantId) (conversations d) of
           None \<Rightarrow> Inl (NotFound ''Conversation not found'')
         | Some _ \<Rightarrow>
           (case findFirst (\<lambda>s. sk_id s = skillId \<and> sk_tenantId s = tenantId) (skills d) of
              None \<Rightarrow> Inl (NotFound ''Inbox skill not found'')
            | Some skill \<Rightarrow>
              (case findFirst (requirement_is conversationId skillId) (skillRequirements d) of
                 Some existing \<Rightarrow>
                   if sr_minLevel existing = minLevel then Inr d
                   else Inr (add_audit (requirement_audit actor ctx ''inbox.conversation.skill.level.updated'' conversationId skillId
                          (Some (JObj [(''fromLevel'', json_nat (sr_minLevel existing)), (''toLevel'', json_nat minLevel)])))
                        (d\<lparr>skillRequirements := updateMany (requirement_is conversationId skillId)
                             (\<lambda>x. x\<lparr>sr_minLevel := minLevel\<rparr>) (skillRequirements d)\<rparr>))
               | None \<Rightarrow>
                   if \<not> sk_active skill
                   then Inl (Unprocessable ''Inbox skill must be active for a new conversation requirement'')
                   else Inr (add_audit (requirement_audit actor ctx ''inbox.conversation.skill.required'' conversationId skillId
                          (Some (JObj [(''minLevel'', json_nat minLevel)])))
                        (d\<lparr>skillRequirements := skillRequirements d @
                          [\<lparr>sr_tenantId = tenantId, sr_conversationId = conversationId, sr_skillId = skillId, sr_minLevel = minLevel\<rparr>]\<rparr>)))))"

definition setRequirement ::
  "db \<Rightarrow> ApiPrincipal \<Rightarrow> uuid \<Rightarrow> uuid \<Rightarrow> nat \<Rightarrow> AuditRequestContext option \<Rightarrow>
     error + (skill_requirement_row \<times> skill_row option) list \<times> db" where
  "setRequirement d p conversationId skillId minLevel ctx =
     (let actor = mutationActor (Inr p)
      in bindE (setRequirement_transaction d actor conversationId skillId minLevel ctx)
           (\<lambda>d'. Inr (listRequirements d' (ma_tenantId actor) conversationId, d')))"

definition removeRequirement_transaction ::
  "db \<Rightarrow> MutationActor \<Rightarrow> uuid \<Rightarrow> uuid \<Rightarrow> AuditRequestContext option \<Rightarrow> error + db" where
  "removeRequirement_transaction d actor conversationId skillId ctx =
     (let tenantId = ma_tenantId actor; hit = (\<lambda>x. sr_tenantId x = tenantId \<and> requirement_is conversationId skillId x)
      in case findFirst (\<lambda>v. v_id v = conversationId \<and> v_tenantId v = tenantId) (conversations d) of
           None \<Rightarrow> Inl (NotFound ''Conversation not found'')
         | Some _ \<Rightarrow>
             if countWhere hit (skillRequirements d) = 0 then Inr d
             else Inr (add_audit (requirement_audit actor ctx ''inbox.conversation.skill.removed'' conversationId skillId None)
                (d\<lparr>skillRequirements := filter (\<lambda>x. \<not> hit x) (skillRequirements d)\<rparr>)))"

definition removeRequirement ::
  "db \<Rightarrow> ApiPrincipal \<Rightarrow> uuid \<Rightarrow> uuid \<Rightarrow> AuditRequestContext option \<Rightarrow>
     error + (skill_requirement_row \<times> skill_row option) list \<times> db" where
  "removeRequirement d p conversationId skillId ctx =
     (let actor = mutationActor (Inr p)
      in bindE (removeRequirement_transaction d actor conversationId skillId ctx)
           (\<lambda>d'. Inr (listRequirements d' (ma_tenantId actor) conversationId, d')))"

section \<open>Skill admission\<close>

record SkillRequirementRow =
  rq_skillId :: uuid
  rq_minLevel :: nat
  rq_active :: bool

text \<open>The join of \<open>lockRequirements\<close>: a requirement with each skill row that matches it, ordered by skill.\<close>

definition lockRequirements :: "db \<Rightarrow> uuid \<Rightarrow> uuid \<Rightarrow> SkillRequirementRow list" where
  "lockRequirements d tenantId conversationId =
     sort_key rq_skillId (concat (map (\<lambda>x. map (\<lambda>s. \<lparr>rq_skillId = sr_skillId x, rq_minLevel = sr_minLevel x, rq_active = sk_active s\<rparr>)
          (filter (\<lambda>s. sk_tenantId s = sr_tenantId x \<and> sk_id s = sr_skillId x) (skills d)))
       (filter (\<lambda>x. sr_tenantId x = tenantId \<and> sr_conversationId x = conversationId) (skillRequirements d))))"

definition lockProficiencies :: "db \<Rightarrow> uuid \<Rightarrow> uuid list \<Rightarrow> uuid list \<Rightarrow> agent_skill_row list" where
  "lockProficiencies d tenantId agentIds skillIds =
     (if agentIds = [] \<or> skillIds = [] then []
      else sort_key as_agentId (sort_key as_skillId
        (filter (\<lambda>x. as_tenantId x = tenantId \<and> as_agentId x \<in> set agentIds \<and> as_skillId x \<in> set skillIds) (agentSkills d))))"

definition assertRequirementsActive :: "SkillRequirementRow list \<Rightarrow> error + unit" where
  "assertRequirementsActive requirements =
     throwIf (list_ex (\<lambda>r. \<not> rq_active r) requirements) (Unprocessable ''Conversation has inactive required inbox skills'')"

definition assertAgentMeetsConversationSkills :: "db \<Rightarrow> uuid \<Rightarrow> uuid \<Rightarrow> uuid \<Rightarrow> string \<Rightarrow> error + nat" where
  "assertAgentMeetsConversationSkills d tenantId conversationId agentId mismatchMessage =
     (let requirements = lockRequirements d tenantId conversationId
      in if requirements = [] then Inr 0
         else bindE (assertRequirementsActive requirements) (\<lambda>_.
           let proficiencies = lockProficiencies d tenantId [agentId] (map rq_skillId requirements);
               bySkill = map_of (rev (map (\<lambda>x. (as_skillId x, as_level x)) proficiencies))
           in if list_ex (\<lambda>r. (case bySkill (rq_skillId r) of None \<Rightarrow> 0 | Some l \<Rightarrow> l) < rq_minLevel r) requirements
              then Inl (Unprocessable mismatchMessage) else Inr (length requirements)))"

text \<open>The map of maps, filled row by row.\<close>

fun group_by_agent :: "agent_skill_row list \<Rightarrow> (uuid \<rightharpoonup> (uuid \<rightharpoonup> nat)) \<Rightarrow> (uuid \<rightharpoonup> (uuid \<rightharpoonup> nat))" where
  "group_by_agent [] byAgent = byAgent"
| "group_by_agent (row # rows) byAgent =
     (let skills = (case byAgent (as_agentId row) of None \<Rightarrow> Map.empty | Some m \<Rightarrow> m)
      in group_by_agent rows (byAgent(as_agentId row \<mapsto> skills(as_skillId row \<mapsto> as_level row))))"

definition filterAgentsByConversationSkills :: "db \<Rightarrow> uuid \<Rightarrow> uuid \<Rightarrow> uuid list \<Rightarrow> error + uuid list \<times> nat" where
  "filterAgentsByConversationSkills d tenantId conversationId agentIds =
     (let requirements = lockRequirements d tenantId conversationId
      in if requirements = [] then Inr (agentIds, 0)
         else bindE (assertRequirementsActive requirements) (\<lambda>_.
           if agentIds = [] then Inr ([], length requirements)
           else let byAgent = group_by_agent (lockProficiencies d tenantId agentIds (map rq_skillId requirements)) Map.empty
                in Inr (filter (\<lambda>a. list_all (\<lambda>r. (case byAgent a of None \<Rightarrow> 0 | Some m \<Rightarrow>
                       (case m (rq_skillId r) of None \<Rightarrow> 0 | Some l \<Rightarrow> l)) \<ge> rq_minLevel r) requirements) agentIds,
                     length requirements)))"

section \<open>What admission decides\<close>

definition required_of :: "db \<Rightarrow> uuid \<Rightarrow> uuid \<Rightarrow> skill_requirement_row list" where
  "required_of d tenantId conversationId = filter (\<lambda>x. sr_tenantId x = tenantId \<and> sr_conversationId x = conversationId) (skillRequirements d)"

definition agent_level :: "db \<Rightarrow> uuid \<Rightarrow> uuid \<Rightarrow> uuid \<Rightarrow> nat" where
  "agent_level d tenantId agentId skillId =
     (case findFirst (\<lambda>x. as_tenantId x = tenantId \<and> agent_skill_is skillId agentId x) (agentSkills d) of None \<Rightarrow> 0 | Some x \<Rightarrow> as_level x)"

definition meets_requirements :: "db \<Rightarrow> uuid \<Rightarrow> uuid \<Rightarrow> uuid \<Rightarrow> bool" where
  "meets_requirements d tenantId conversationId agentId \<longleftrightarrow>
     list_all (\<lambda>x. sr_minLevel x \<le> agent_level d tenantId agentId (sr_skillId x)) (required_of d tenantId conversationId)"

definition requirements_active :: "db \<Rightarrow> uuid \<Rightarrow> uuid \<Rightarrow> bool" where
  "requirements_active d tenantId conversationId \<longleftrightarrow>
     list_all (\<lambda>x. case requirement_skill d x of None \<Rightarrow> False | Some s \<Rightarrow> sk_active s) (required_of d tenantId conversationId)"

text \<open>The keys and references of the skill tables, as the schema declares them.\<close>

definition skill_tables_ok :: "db \<Rightarrow> bool" where
  "skill_tables_ok d \<longleftrightarrow> skills_unique (skills d) \<and>
     distinct (map (\<lambda>x. (as_skillId x, as_agentId x)) (agentSkills d)) \<and>
     distinct (map (\<lambda>x. (sr_conversationId x, sr_skillId x)) (skillRequirements d)) \<and>
     list_all (\<lambda>x. requirement_skill d x \<noteq> None) (skillRequirements d)"

lemma distinct_map_filter_pair:
  "distinct (map (\<lambda>x. (f x, g x)) xs) \<Longrightarrow> distinct (map f (filter (\<lambda>x. g x = a \<and> P x) xs))"
  by (induction xs) auto

lemma distinct_map_sort_key: "distinct (map f (sort_key k xs)) \<longleftrightarrow> distinct (map f xs)"
  by (simp add: distinct_map)

definition requirement_view :: "db \<Rightarrow> skill_requirement_row \<Rightarrow> SkillRequirementRow" where
  "requirement_view d x = \<lparr>rq_skillId = sr_skillId x, rq_minLevel = sr_minLevel x,
     rq_active = (case requirement_skill d x of None \<Rightarrow> False | Some s \<Rightarrow> sk_active s)\<rparr>"

lemma lockRequirements_map:
  assumes "skill_tables_ok d"
  shows "lockRequirements d t c = sort_key rq_skillId (map (requirement_view d) (required_of d t c))"
proof -
  have one: "map (\<lambda>s. \<lparr>rq_skillId = sr_skillId x, rq_minLevel = sr_minLevel x, rq_active = sk_active s\<rparr>)
      (filter (\<lambda>s. sk_tenantId s = sr_tenantId x \<and> sk_id s = sr_skillId x) (skills d)) = [requirement_view d x]"
    if x: "x \<in> set (required_of d t c)" for x
  proof -
    have d: "distinct (map sk_id (skills d))" using assms by (simp add: skill_tables_ok_def skills_unique_def)
    obtain s where s: "requirement_skill d x = Some s"
      using assms x by (auto simp: skill_tables_ok_def required_of_def list_all_iff)
    then have "s \<in> set (skills d)" "sk_tenantId s = sr_tenantId x" "sk_id s = sr_skillId x"
      by (auto simp: requirement_skill_def dest: findFirst_SomeD)
    then show ?thesis using filter_key [OF d, of s "\<lambda>s. sk_tenantId s = sr_tenantId x"] s by (simp add: requirement_view_def)
  qed
  have "concat (map (\<lambda>x. [requirement_view d x]) xs) = map (requirement_view d) xs" for xs
    by (induction xs) simp_all
  then show ?thesis
    unfolding lockRequirements_def required_of_def [symmetric] using one by (simp cong: map_cong)
qed

lemma level_row:
  assumes "skill_tables_ok d" and "x \<in> set (agentSkills d)" and "as_tenantId x = t"
  shows "agent_level d t (as_agentId x) (as_skillId x) = as_level x"
proof -
  have "findFirst (\<lambda>y. (as_skillId y, as_agentId y) = (as_skillId x, as_agentId x) \<and> as_tenantId y = t) (agentSkills d) = Some x"
    using assms by (intro findFirst_key) (simp_all add: skill_tables_ok_def)
  then show ?thesis by (simp add: agent_level_def agent_skill_is_def conj_commute)
qed

lemma level_lookup:
  assumes ok: "skill_tables_ok d" and "a \<in> set as" and "s \<in> set ss"
  shows "(case map_of (rev (map (\<lambda>x. ((as_agentId x, as_skillId x), as_level x)) (lockProficiencies d t as ss))) (a, s)
            of None \<Rightarrow> 0 | Some l \<Rightarrow> l) = agent_level d t a s"
proof -
  let ?rows = "lockProficiencies d t as ss"
  let ?m = "map_of (rev (map (\<lambda>x. ((as_agentId x, as_skillId x), as_level x)) ?rows))"
  have sub: "set ?rows = {x \<in> set (agentSkills d). as_tenantId x = t \<and> as_agentId x \<in> set as \<and> as_skillId x \<in> set ss}"
    using assms by (auto simp: lockProficiencies_def)
  show ?thesis
  proof (cases "?m (a, s)")
    case None
    then have "(a, s) \<notin> (\<lambda>x. (as_agentId x, as_skillId x)) ` set ?rows"
      by (simp add: map_of_eq_None_iff image_image)
    then have "\<not> (\<exists>x \<in> set (agentSkills d). as_tenantId x = t \<and> as_agentId x = a \<and> as_skillId x = s)"
      using assms(2,3) unfolding sub by blast
    then have "findFirst (\<lambda>x. as_tenantId x = t \<and> agent_skill_is s a x) (agentSkills d) = None"
      by (auto simp: findFirst_None agent_skill_is_def)
    with None show ?thesis by (simp add: agent_level_def)
  next
    case (Some l)
    from map_of_SomeD [OF this] obtain x where "x \<in> set ?rows" "as_agentId x = a" "as_skillId x = s" "as_level x = l"
      by auto
    then show ?thesis using Some level_row [OF ok, of x t] by (simp add: sub)
  qed
qed

lemma group_by_agent_lookup:
  "(case group_by_agent rows m a of None \<Rightarrow> None | Some f \<Rightarrow> f s) =
     (case map_of (rev (map (\<lambda>x. ((as_agentId x, as_skillId x), as_level x)) rows)) (a, s) of
        Some l \<Rightarrow> Some l | None \<Rightarrow> (case m a of None \<Rightarrow> None | Some f \<Rightarrow> f s))"
  by (induction rows arbitrary: m) (auto simp: Let_def map_add_def split: option.splits)

lemma single_agent_map:
  "\<forall>x \<in> set rows. as_agentId x = a \<Longrightarrow>
   map_of (rev (map (\<lambda>x. (as_skillId x, as_level x)) rows)) s =
   map_of (rev (map (\<lambda>x. ((as_agentId x, as_skillId x), as_level x)) rows)) (a, s)"
  by (induction rows rule: rev_induct) auto

lemma assertRequirementsActive_iff:
  assumes "skill_tables_ok d"
  shows "assertRequirementsActive (lockRequirements d t c) =
    (if requirements_active d t c then Inr () else Inl (Unprocessable ''Conversation has inactive required inbox skills''))"
proof -
  have "list_ex (\<lambda>r. \<not> rq_active r) (lockRequirements d t c) \<longleftrightarrow> \<not> requirements_active d t c"
    by (auto simp: lockRequirements_map [OF assms] requirements_active_def list_ex_iff list_all_iff requirement_view_def)
  then show ?thesis by (simp add: assertRequirementsActive_def)
qed

lemma lockRequirements_meets:
  assumes "skill_tables_ok d"
  shows "list_all (\<lambda>r. rq_minLevel r \<le> agent_level d t a (rq_skillId r)) (lockRequirements d t c) \<longleftrightarrow> meets_requirements d t c a"
    and "length (lockRequirements d t c) = length (required_of d t c)"
  by (auto simp: lockRequirements_map [OF assms] meets_requirements_def list_all_iff requirement_view_def)

lemma assertAgentMeetsConversationSkills_spec:
  assumes ok: "skill_tables_ok d"
  shows "assertAgentMeetsConversationSkills d t c a msg =
    (if \<not> requirements_active d t c then Inl (Unprocessable ''Conversation has inactive required inbox skills'')
     else if meets_requirements d t c a then Inr (length (required_of d t c)) else Inl (Unprocessable msg))"
proof (cases "lockRequirements d t c = []")
  case True
  then have "required_of d t c = []" using lockRequirements_meets(2) [OF ok, of t c] by simp
  then show ?thesis using True by (simp add: assertAgentMeetsConversationSkills_def requirements_active_def meets_requirements_def)
next
  case False
  let ?qs = "lockRequirements d t c" let ?rows = "lockProficiencies d t [a] (map rq_skillId ?qs)"
  have one: "\<forall>x \<in> set ?rows. as_agentId x = a" by (auto simp: lockProficiencies_def)
  have "(case map_of (rev (map (\<lambda>x. (as_skillId x, as_level x)) ?rows)) (rq_skillId r) of None \<Rightarrow> 0 | Some l \<Rightarrow> l) =
      agent_level d t a (rq_skillId r)" if "r \<in> set ?qs" for r
    using that unfolding single_agent_map [OF one] by (intro level_lookup [OF ok]) simp_all
  then have "list_ex (\<lambda>r. (case map_of (rev (map (\<lambda>x. (as_skillId x, as_level x)) ?rows)) (rq_skillId r) of None \<Rightarrow> 0 | Some l \<Rightarrow> l)
      < rq_minLevel r) ?qs \<longleftrightarrow> \<not> meets_requirements d t c a"
    by (auto simp: lockRequirements_meets(1) [OF ok, of t a c, symmetric] list_ex_iff list_all_iff not_le [symmetric] cong: bex_cong)
  then show ?thesis
    using False by (simp add: assertAgentMeetsConversationSkills_def Let_def assertRequirementsActive_iff [OF ok] lockRequirements_meets(2) [OF ok])
qed

lemma filterAgentsByConversationSkills_spec:
  assumes ok: "skill_tables_ok d"
  shows "filterAgentsByConversationSkills d t c as =
    (if \<not> requirements_active d t c then Inl (Unprocessable ''Conversation has inactive required inbox skills'')
     else Inr (filter (meets_requirements d t c) as, length (required_of d t c)))"
proof (cases "lockRequirements d t c = []")
  case True
  then have "required_of d t c = []" using lockRequirements_meets(2) [OF ok, of t c] by simp
  then show ?thesis using True
    by (simp add: filterAgentsByConversationSkills_def requirements_active_def meets_requirements_def)
next
  case False
  let ?qs = "lockRequirements d t c"
  let ?m = "group_by_agent (lockProficiencies d t as (map rq_skillId ?qs)) Map.empty"
  have look: "(case ?m a of None \<Rightarrow> 0 | Some f \<Rightarrow> (case f s of None \<Rightarrow> 0 | Some l \<Rightarrow> l)) =
      (case (case ?m a of None \<Rightarrow> None | Some f \<Rightarrow> f s) of None \<Rightarrow> 0 | Some l \<Rightarrow> (l :: nat))" for a s
    by (simp split: option.split)
  have lev: "(case ?m a of None \<Rightarrow> 0 | Some f \<Rightarrow> (case f (rq_skillId r) of None \<Rightarrow> 0 | Some l \<Rightarrow> l)) = agent_level d t a (rq_skillId r)"
    if "a \<in> set as" "r \<in> set ?qs" for a r
    using level_lookup [OF ok that(1), of "rq_skillId r" "map rq_skillId ?qs" t] that(2)
    unfolding look group_by_agent_lookup by (simp split: option.splits)
  have "filter (\<lambda>a. list_all (\<lambda>r. rq_minLevel r \<le> (case ?m a of None \<Rightarrow> 0 | Some f \<Rightarrow> (case f (rq_skillId r) of None \<Rightarrow> 0 | Some l \<Rightarrow> l))) ?qs) as
      = filter (meets_requirements d t c) as"
    by (rule filter_cong) (auto simp: lockRequirements_meets(1) [OF ok, of t _ c, symmetric] list_all_iff lev)
  then show ?thesis
    using False by (simp add: filterAgentsByConversationSkills_def Let_def assertRequirementsActive_iff [OF ok] lockRequirements_meets(2) [OF ok])
qed

section \<open>Properties\<close>

text \<open>
  The two implementations of skill admission decide the same thing. When a required skill is inactive both refuse;
  otherwise the filter over many agents (a map of maps, filled row by row) keeps exactly the agents whose level reaches every
  required level, in their order, and the check of a single agent (one map) accepts exactly those, both reporting
  the number of required skills.
\<close>
theorem skill_admission_agrees:
  assumes "skill_tables_ok d"
  shows "if requirements_active d t c
    then filterAgentsByConversationSkills d t c as = Inr (filter (meets_requirements d t c) as, length (required_of d t c)) \<and>
      assertAgentMeetsConversationSkills d t c a msg =
        (if meets_requirements d t c a then Inr (length (required_of d t c)) else Inl (Unprocessable msg))
    else filterAgentsByConversationSkills d t c as = Inl (Unprocessable ''Conversation has inactive required inbox skills'') \<and>
      assertAgentMeetsConversationSkills d t c a msg = Inl (Unprocessable ''Conversation has inactive required inbox skills'')"
  by (simp add: assms filterAgentsByConversationSkills_spec assertAgentMeetsConversationSkills_spec)

text \<open>A conversation that needs level 3 of a skill; one agent has level 4 and the other level 2.\<close>

definition sample_skill_db :: db where
  "sample_skill_db = empty_db\<lparr>
     skills := [\<lparr>sk_id = ''s1'', sk_tenantId = ''t'', sk_name = ''billing'', sk_description = None, sk_active = True\<rparr>],
     agentSkills := [\<lparr>as_tenantId = ''t'', as_skillId = ''s1'', as_agentId = ''a1'', as_level = 4, as_createdAt = 0\<rparr>,
       \<lparr>as_tenantId = ''t'', as_skillId = ''s1'', as_agentId = ''a2'', as_level = 2, as_createdAt = 0\<rparr>],
     skillRequirements := [\<lparr>sr_tenantId = ''t'', sr_conversationId = ''v1'', sr_skillId = ''s1'', sr_minLevel = 3\<rparr>]\<rparr>"

lemma sample_skill_facts:
  "skill_tables_ok sample_skill_db" "requirements_active sample_skill_db ''t'' ''v1''"
  "filter (meets_requirements sample_skill_db ''t'' ''v1'') [''a1'', ''a2''] = [''a1'']"
  by (simp_all add: sample_skill_db_def empty_db_def skill_tables_ok_def skills_unique_def requirement_skill_def requirements_active_def
    required_of_def meets_requirements_def agent_level_def agent_skill_is_def)

theorem skill_admission_agrees_witness:
  "filterAgentsByConversationSkills sample_skill_db ''t'' ''v1'' [''a1'', ''a2''] = Inr ([''a1''], 1) \<and>
   assertAgentMeetsConversationSkills sample_skill_db ''t'' ''v1'' ''a2'' ''no'' = Inl (Unprocessable ''no'')"
  using skill_admission_agrees [OF sample_skill_facts(1), of "''t''" "''v1''" "[''a1'', ''a2'']" "''a2''" "''no''"] sample_skill_facts(2,3)
  by (simp add: required_of_def sample_skill_db_def split: if_split_asm)

end
