(* ===== verification/Inbox.thy ===== *)
theory Inbox
  imports Inbox_Skills
begin

text \<open>
  src/src/inbox/inbox.service.ts (agents, conversations, assignment), inbox-capacity-admission.ts and
  conversation-notes.service.ts. Every transaction here locks the conversation row, and the agent rows it admits,
  before it decides, so it is one step on the database. The lemmas show what each way of assigning an agent
  guarantees (active, available, member of the team, skilled, below capacity), that routing takes the least
  loaded such agent and fails only when there is none, and that claiming and releasing undo each other.
\<close>

section \<open>Agents\<close>

record create_agent_dto =
  ca_name :: string
  ca_externalId :: "string field"
  ca_email :: "string field"
  ca_presenceStatus :: "InboxAgentPresenceStatus field"
  ca_maxConcurrentConversations :: "nat field"
  ca_metadata :: "json field"

record update_agent_dto =
  ua_name :: "string field"
  ua_externalId :: "string field"
  ua_email :: "string field"
  ua_active :: "bool field"
  ua_presenceStatus :: "InboxAgentPresenceStatus field"
  ua_maxConcurrentConversations :: "nat field"
  ua_metadata :: "json field"

text \<open>The unique columns: the id, and the external id per tenant where there is one.\<close>

definition agents_unique :: "agent_row list \<Rightarrow> bool" where
  "agents_unique rows \<longleftrightarrow> distinct (map ag_id rows) \<and>
     distinct (map (\<lambda>a. (ag_tenantId a, ag_externalId a)) (filter (\<lambda>a. ag_externalId a \<noteq> None) rows))"

definition EXTERNAL_ID_TAKEN :: error where
  "EXTERNAL_ID_TAKEN = Conflict ''An inbox agent with that external ID already exists''"

text \<open>Null for the presence status, a column that is not nullable, is refused by the database client.\<close>

definition createAgent ::
  "db \<Rightarrow> ApiPrincipal \<Rightarrow> create_agent_dto \<Rightarrow> AuditRequestContext option \<Rightarrow> uuid \<Rightarrow> time \<Rightarrow> error + agent_row \<times> db" where
  "createAgent d p dto ctx newId now =
     (let actor = mutationActor (Inr p)
      in bindE (requiredText (ca_name dto) ''Agent name'') (\<lambda>name.
         bindE (optionalText (ca_externalId dto)) (\<lambda>externalId.
         bindE (optionalText (ca_email dto)) (\<lambda>email0.
           let email = map_option js_lower email0;
               metadata = (case ca_metadata dto of Val m \<Rightarrow> Some m | _ \<Rightarrow> None);
               agent = \<lparr>ag_id = newId, ag_tenantId = ma_tenantId actor, ag_externalId = externalId, ag_name = name, ag_email = email,
                 ag_active = True, ag_presenceStatus = coalesce (ca_presenceStatus dto) AVAILABLE, ag_presenceUpdatedAt = now,
                 ag_maxConcurrentConversations = set_nullable (ca_maxConcurrentConversations dto) None, ag_metadata = metadata\<rparr>;
               audit = auditLogData actor ctx ''inbox.agent.created'' ''InboxAgent'' (Some newId)
                 (Some (JObj [(''hasExternalId'', JBool (externalId \<noteq> None)), (''hasEmail'', JBool (email \<noteq> None)),
                    (''hasMetadata'', JBool (metadata \<noteq> None))]))
           in if ca_presenceStatus dto = Null then Inl VALIDATION_ERROR
              else if agents_unique (agents d @ [agent]) then Inr (agent, add_audit audit (d\<lparr>agents := agents d @ [agent]\<rparr>))
              else Inl EXTERNAL_ID_TAKEN))))"

definition listAgents :: "db \<Rightarrow> uuid \<Rightarrow> bool option \<Rightarrow> agent_row list" where
  "listAgents d tenantId active =
     sort_key (\<lambda>a. (if ag_active a then 0 else Suc 0)) (sort_key ag_name (sort_key ag_id
       (filter (\<lambda>a. ag_tenantId a = tenantId \<and> (case active of None \<Rightarrow> True | Some b \<Rightarrow> ag_active a = b)) (agents d))))"

definition update_agent_keys :: "update_agent_dto \<Rightarrow> string list" where
  "update_agent_keys dto = changedFields [(''name'', is_defined (ua_name dto)), (''externalId'', is_defined (ua_externalId dto)),
     (''email'', is_defined (ua_email dto)), (''active'', is_defined (ua_active dto)), (''presenceStatus'', is_defined (ua_presenceStatus dto)),
     (''maxConcurrentConversations'', is_defined (ua_maxConcurrentConversations dto)), (''metadata'', is_defined (ua_metadata dto))] (\<lambda>_. None)"

definition agent_changes :: "string field \<Rightarrow> string field \<Rightarrow> string field \<Rightarrow> update_agent_dto \<Rightarrow> time \<Rightarrow> agent_row \<Rightarrow> agent_row" where
  "agent_changes name externalId email dto now a =
     a\<lparr>ag_name := set_required name (ag_name a), ag_externalId := set_nullable externalId (ag_externalId a),
       ag_email := set_nullable email (ag_email a), ag_active := set_required (ua_active dto) (ag_active a),
       ag_presenceStatus := set_required (ua_presenceStatus dto) (ag_presenceStatus a),
       ag_presenceUpdatedAt := (if is_defined (ua_presenceStatus dto) then now else ag_presenceUpdatedAt a),
       ag_maxConcurrentConversations := set_nullable (ua_maxConcurrentConversations dto) (ag_maxConcurrentConversations a),
       ag_metadata := set_nullable (ua_metadata dto) (ag_metadata a)\<rparr>"

text \<open>Null for \<open>metadata\<close>: \<open>toJson(null)\<close> is null, which Prisma refuses for a JSON column.\<close>

definition updateAgent ::
  "db \<Rightarrow> ApiPrincipal \<Rightarrow> uuid \<Rightarrow> update_agent_dto \<Rightarrow> AuditRequestContext option \<Rightarrow> time \<Rightarrow> error + agent_row \<times> db" where
  "updateAgent d p k dto ctx now =
     (if update_agent_keys dto = [] then Inl (BadRequest ''At least one agent field must be provided'')
      else let actor = mutationActor (Inr p)
      in case findFirst (\<lambda>a. ag_id a = k \<and> ag_tenantId a = ma_tenantId actor) (agents d) of
           None \<Rightarrow> Inl (NotFound ''Inbox agent not found'')
         | Some existing \<Rightarrow>
             bindE (text_update (\<lambda>s. requiredText s ''Agent name'') (ua_name dto)) (\<lambda>name.
             bindE (text_update (\<lambda>s. requiredText s ''External ID'') (ua_externalId dto)) (\<lambda>externalId.
             bindE (text_update (\<lambda>s. bindE (requiredText s ''Email'') (\<lambda>e. Inr (js_lower e))) (ua_email dto)) (\<lambda>email.
             if ua_active dto = Null \<or> ua_presenceStatus dto = Null \<or> ua_metadata dto = Null then Inl VALIDATION_ERROR
             else let agent = agent_changes name externalId email dto now existing;
                      rows = updateAgentRow k (agent_changes name externalId email dto now) (agents d);
                      audit = auditLogData actor ctx ''inbox.agent.updated'' ''InboxAgent'' (Some k)
                        (Some (JObj [(''changedFields'', JArr (map JStr (update_agent_keys dto))), (''active'', JBool (ag_active agent))]))
                  in if agents_unique rows then Inr (agent, add_audit audit (d\<lparr>agents := rows\<rparr>)) else Inl EXTERNAL_ID_TAKEN))))"

section \<open>Capacity admission\<close>

record LockedAgentCapacity =
  lc_agentId :: uuid
  lc_presenceStatus :: InboxAgentPresenceStatus
  lc_maxConcurrentConversations :: "nat option"

definition lockActiveAgentCapacity :: "db \<Rightarrow> uuid \<Rightarrow> uuid \<Rightarrow> string \<Rightarrow> error + LockedAgentCapacity" where
  "lockActiveAgentCapacity d tenantId agentId inactiveMessage =
     (case findFirst (\<lambda>a. ag_id a = agentId \<and> ag_tenantId a = tenantId \<and> ag_active a) (agents d) of
        None \<Rightarrow> Inl (Unprocessable inactiveMessage)
      | Some agent \<Rightarrow> Inr \<lparr>lc_agentId = ag_id agent, lc_presenceStatus = ag_presenceStatus agent,
          lc_maxConcurrentConversations = ag_maxConcurrentConversations agent\<rparr>)"

definition assertAgentAvailableForConversation :: "LockedAgentCapacity \<Rightarrow> string \<Rightarrow> error + unit" where
  "assertAgentAvailableForConversation agent presenceMessage = throwIf (lc_presenceStatus agent \<noteq> AVAILABLE) (Unprocessable presenceMessage)"

text \<open>The open and pending conversations of an agent.\<close>

definition counts_for :: "uuid \<Rightarrow> uuid \<Rightarrow> conversation_row \<Rightarrow> bool" where
  "counts_for tenantId agentId v \<longleftrightarrow>
     v_tenantId v = tenantId \<and> v_assignedAgentId v = Some agentId \<and> v_status v \<in> {OPEN, PENDING}"

definition agent_load :: "db \<Rightarrow> uuid \<Rightarrow> uuid \<Rightarrow> nat" where
  "agent_load d tenantId agentId = countWhere (counts_for tenantId agentId) (conversations d)"

definition assertAgentHasConversationCapacity :: "db \<Rightarrow> uuid \<Rightarrow> LockedAgentCapacity \<Rightarrow> string \<Rightarrow> error + nat option" where
  "assertAgentHasConversationCapacity d tenantId agent capacityMessage =
     (case lc_maxConcurrentConversations agent of
        None \<Rightarrow> Inr None
      | Some cap \<Rightarrow>
          let load = agent_load d tenantId (lc_agentId agent)
          in if load \<ge> cap then Inl (Unprocessable capacityMessage) else Inr (Some load))"

section \<open>Conversations\<close>

record update_conversation_dto =
  uc_status :: "ConversationStatus field"
  uc_priority :: "ConversationPriority field"
  uc_assignedAgentId :: "uuid field"
  uc_assignedTeamId :: "uuid field"

definition update_conversation_keys :: "update_conversation_dto \<Rightarrow> string list" where
  "update_conversation_keys dto = changedFields [(''status'', is_defined (uc_status dto)), (''priority'', is_defined (uc_priority dto)),
     (''assignedAgentId'', is_defined (uc_assignedAgentId dto)), (''assignedTeamId'', is_defined (uc_assignedTeamId dto))] (\<lambda>_. None)"

definition find_conversation :: "db \<Rightarrow> uuid \<Rightarrow> uuid \<Rightarrow> error + conversation_row" where
  "find_conversation d tenantId k =
     (case findFirst (\<lambda>v. v_id v = k \<and> v_tenantId v = tenantId) (conversations d) of
        None \<Rightarrow> Inl (NotFound ''Conversation not found'') | Some v \<Rightarrow> Inr v)"

text \<open>The relation \<open>teamAssignment\<close> of a conversation.\<close>

definition assigned_team :: "db \<Rightarrow> conversation_row \<Rightarrow> uuid option" where
  "assigned_team d v =
     map_option ta_teamId (findFirst (\<lambda>a. ta_tenantId a = v_tenantId v \<and> ta_conversationId a = v_id v) (teamAssignments d))"

definition assertAgentTeamMembership :: "db \<Rightarrow> uuid \<Rightarrow> uuid \<Rightarrow> uuid \<Rightarrow> string \<Rightarrow> error + unit" where
  "assertAgentTeamMembership d tenantId teamId agentId message = throwIf (\<not> is_member d tenantId teamId agentId) (Unprocessable message)"

text \<open>
  The upsert of a conversation's team, with the trigger that starts a response cycle; and the delete. An
  assignment that another tenant's row holds does not occur (the conversation's id is the key).
\<close>

definition write_team :: "db \<Rightarrow> uuid \<Rightarrow> uuid \<Rightarrow> uuid field \<Rightarrow> time \<Rightarrow> db" where
  "write_team d tenantId k team now =
     (case team of
        Undefined \<Rightarrow> d
      | Null \<Rightarrow> d\<lparr>teamAssignments := filter (\<lambda>a. \<not> (ta_tenantId a = tenantId \<and> ta_conversationId a = k)) (teamAssignments d)\<rparr>
      | Val teamId \<Rightarrow>
          (case findFirst (\<lambda>a. ta_conversationId a = k) (teamAssignments d) of
             None \<Rightarrow>
               let a = \<lparr>ta_tenantId = tenantId, ta_conversationId = k, ta_teamId = teamId\<rparr>
               in applyConversationTeamResponseSla (d\<lparr>teamAssignments := teamAssignments d @ [a]\<rparr>) a now
           | Some a \<Rightarrow>
               applyConversationTeamResponseSla
                 (d\<lparr>teamAssignments := updateMany (\<lambda>a. ta_conversationId a = k) (\<lambda>a. a\<lparr>ta_teamId := teamId\<rparr>) (teamAssignments d)\<rparr>)
                 (a\<lparr>ta_teamId := teamId\<rparr>) now))"

definition conversation_changes :: "update_conversation_dto \<Rightarrow> time \<Rightarrow> conversation_row \<Rightarrow> conversation_row" where
  "conversation_changes dto now v =
     v\<lparr>v_status := set_required (uc_status dto) (v_status v),
       v_resolvedAt := (case uc_status dto of Undefined \<Rightarrow> v_resolvedAt v | Val RESOLVED \<Rightarrow> Some now | _ \<Rightarrow> None),
       v_priority := set_required (uc_priority dto) (v_priority v),
       v_assignedAgentId := set_nullable (uc_assignedAgentId dto) (v_assignedAgentId v)\<rparr>"

text \<open>A UUID in a request is a string that is not empty, so a value is truthy.\<close>

definition truthy_id :: "string option \<Rightarrow> bool" where
  "truthy_id s \<longleftrightarrow> s \<noteq> None \<and> s \<noteq> Some []"

text \<open>The checks of \<open>updateConversation\<close> before it writes, for the conversation \<open>existing\<close>.\<close>

definition admit_update :: "db \<Rightarrow> uuid \<Rightarrow> update_conversation_dto \<Rightarrow> conversation_row \<Rightarrow> error + unit" where
  "admit_update d tenantId dto existing =
     (let agentField = set_nullable (uc_assignedAgentId dto) None; teamField = set_nullable (uc_assignedTeamId dto) None;
          assignmentChanged = (is_defined (uc_assignedAgentId dto) \<or> is_defined (uc_assignedTeamId dto));
          finalAgentId = set_nullable (uc_assignedAgentId dto) (v_assignedAgentId existing);
          finalTeamId = set_nullable (uc_assignedTeamId dto) (assigned_team d existing);
          newAgentAdmission = (is_defined (uc_assignedAgentId dto) \<and> finalAgentId \<noteq> None \<and> finalAgentId \<noteq> v_assignedAgentId existing)
      in bindE (if truthy_id agentField
                then bindE (lockActiveAgentCapacity d tenantId (the agentField) ''Assigned inbox agent is not active in this tenant'') (\<lambda>c. Inr (Some c))
                else Inr None) (\<lambda>assignedAgentCapacity.
         bindE (throwIf (truthy_id teamField \<and>
                  findFirst (\<lambda>t. Some (tm_id t) = teamField \<and> tm_tenantId t = tenantId \<and> tm_active t) (teams d) = None)
                (Unprocessable ''Assigned inbox team is not active in this tenant'')) (\<lambda>_.
         bindE (if assignmentChanged \<and> truthy_id finalAgentId \<and> truthy_id finalTeamId
                then assertAgentTeamMembership d tenantId (the finalTeamId) (the finalAgentId) ''Assigned inbox agent is not a member of the assigned team''
                else Inr ()) (\<lambda>_.
         bindE (if is_defined (uc_assignedAgentId dto) \<and> truthy_id finalAgentId
                then bindE (assertAgentMeetsConversationSkills d tenantId (v_id existing) (the finalAgentId)
                       ''Assigned inbox agent does not satisfy conversation skill requirements'') (\<lambda>_. Inr ())
                else Inr ()) (\<lambda>_.
         case assignedAgentCapacity of
           None \<Rightarrow> Inr ()
         | Some agent \<Rightarrow>
             if newAgentAdmission
             then bindE (assertAgentAvailableForConversation agent ''Assigned inbox agent is not available for new conversations'') (\<lambda>_.
                  bindE (assertAgentHasConversationCapacity d tenantId agent ''Assigned inbox agent has no remaining conversation capacity'') (\<lambda>_. Inr ()))
             else Inr ())))))"

definition conversation_audit ::
  "MutationActor \<Rightarrow> AuditRequestContext option \<Rightarrow> string \<Rightarrow> uuid \<Rightarrow> (string \<times> json) list \<Rightarrow> audit_row option" where
  "conversation_audit actor ctx action k meta = auditLogData actor ctx action ''Conversation'' (Some k) (Some (JObj meta))"

definition status_string :: "ConversationStatus \<Rightarrow> string" where
  "status_string s = (case s of OPEN \<Rightarrow> ''OPEN'' | PENDING \<Rightarrow> ''PENDING'' | RESOLVED \<Rightarrow> ''RESOLVED'')"

definition priority_string :: "ConversationPriority \<Rightarrow> string" where
  "priority_string s = (case s of LOW \<Rightarrow> ''LOW'' | NORMAL \<Rightarrow> ''NORMAL'' | HIGH \<Rightarrow> ''HIGH'' | URGENT \<Rightarrow> ''URGENT'')"

text \<open>
  The write: the team, then the conversation's row. A status or priority of null and an id that is the empty
  string are refused by the database client.
\<close>

definition write_update :: "db \<Rightarrow> MutationActor \<Rightarrow> uuid \<Rightarrow> update_conversation_dto \<Rightarrow> AuditRequestContext option \<Rightarrow> time \<Rightarrow> error + conversation_row \<times> db" where
  "write_update d actor k dto ctx now =
     (if uc_status dto = Null \<or> uc_priority dto = Null \<or> uc_assignedAgentId dto = Val [] \<or> uc_assignedTeamId dto = Val [] then Inl VALIDATION_ERROR
      else let d' = write_team d (ma_tenantId actor) k (uc_assignedTeamId dto) now;
               d'' = d'\<lparr>conversations := updateConversationRow k (conversation_changes dto now) (conversations d')\<rparr>
           in case findConversationRow k (conversations d'') of
                None \<Rightarrow> Inl (Error ''P2025'')
              | Some updated \<Rightarrow>
                  Inr (updated, add_audit (conversation_audit actor ctx ''inbox.conversation.updated'' k
                    [(''changedFields'', JArr (map JStr (update_conversation_keys dto))), (''status'', JStr (status_string (v_status updated))),
                     (''priority'', JStr (priority_string (v_priority updated))), (''assigned'', JBool (truthy_id (v_assignedAgentId updated))),
                     (''teamAssigned'', JBool (assigned_team d'' updated \<noteq> None))]) d''))"

definition updateConversation ::
  "db \<Rightarrow> ApiPrincipal \<Rightarrow> uuid \<Rightarrow> update_conversation_dto \<Rightarrow> AuditRequestContext option \<Rightarrow> time \<Rightarrow> error + conversation_row \<times> db" where
  "updateConversation d p k dto ctx now =
     (if update_conversation_keys dto = [] then Inl (BadRequest ''At least one conversation field must be provided'')
      else let actor = mutationActor (Inr p)
      in bindE (find_conversation d (ma_tenantId actor) k) (\<lambda>existing.
         bindE (admit_update d (ma_tenantId actor) dto existing) (\<lambda>_. write_update d actor k dto ctx now)))"

text \<open>The write of an assignment, shared by \<open>claimConversation\<close>, \<open>routeConversation\<close> and \<open>releaseConversation\<close>.\<close>

definition set_agent :: "uuid option \<Rightarrow> conversation_row \<Rightarrow> conversation_row" where
  "set_agent a v = v\<lparr>v_assignedAgentId := a\<rparr>"

definition write_agent :: "db \<Rightarrow> uuid \<Rightarrow> uuid option \<Rightarrow> conversation_row \<Rightarrow> audit_row option \<Rightarrow> (conversation_row \<times> bool) \<times> db" where
  "write_agent d k a existing audit =
     ((set_agent a existing, True), add_audit audit (d\<lparr>conversations := updateConversationRow k (set_agent a) (conversations d)\<rparr>))"

definition claimConversation ::
  "db \<Rightarrow> ApiPrincipal \<Rightarrow> uuid \<Rightarrow> uuid \<Rightarrow> AuditRequestContext option \<Rightarrow> error + (conversation_row \<times> bool) \<times> db" where
  "claimConversation d p k agentId ctx =
     (let actor = mutationActor (Inr p); tenantId = ma_tenantId actor
      in bindE (find_conversation d tenantId k) (\<lambda>existing.
         bindE (lockActiveAgentCapacity d tenantId agentId ''Inbox agent is not active in this tenant'') (\<lambda>agentCapacity.
         if v_assignedAgentId existing = Some agentId then Inr ((existing, False), d)
         else if truthy_id (v_assignedAgentId existing) then Inl (Conflict ''Conversation is already assigned to another inbox agent'')
         else
           bindE (assertAgentAvailableForConversation agentCapacity ''Inbox agent is not available for new conversations'') (\<lambda>_.
           bindE (if truthy_id (assigned_team d existing)
                  then assertAgentTeamMembership d tenantId (the (assigned_team d existing)) agentId ''Inbox agent is not a member of the assigned team''
                  else Inr ()) (\<lambda>_.
           bindE (assertAgentMeetsConversationSkills d tenantId k agentId ''Inbox agent does not satisfy conversation skill requirements'') (\<lambda>_.
           bindE (assertAgentHasConversationCapacity d tenantId agentCapacity ''Inbox agent has no remaining conversation capacity'') (\<lambda>_.
             Inr (write_agent d k (Some agentId) existing
               (conversation_audit actor ctx ''inbox.conversation.claimed'' k [(''assigned'', JBool True)])))))))))"

definition releaseConversation ::
  "db \<Rightarrow> ApiPrincipal \<Rightarrow> uuid \<Rightarrow> uuid \<Rightarrow> AuditRequestContext option \<Rightarrow> error + (conversation_row \<times> bool) \<times> db" where
  "releaseConversation d p k agentId ctx =
     (let actor = mutationActor (Inr p); tenantId = ma_tenantId actor
      in bindE (find_conversation d tenantId k) (\<lambda>existing.
         if findFirst (\<lambda>a. ag_id a = agentId \<and> ag_tenantId a = tenantId) (agents d) = None
         then Inl (Unprocessable ''Inbox agent is not in this tenant'')
         else if v_assignedAgentId existing = None then Inr ((existing, False), d)
         else if v_assignedAgentId existing \<noteq> Some agentId then Inl (Conflict ''Conversation is assigned to another inbox agent'')
         else Inr (write_agent d k None existing
           (conversation_audit actor ctx ''inbox.conversation.released'' k [(''assigned'', JBool False)]))))"

section \<open>Routing\<close>

record RoutingCandidate =
  rc_agentId :: uuid
  rc_presenceStatus :: InboxAgentPresenceStatus
  rc_maxConcurrentConversations :: "nat option"

text \<open>The join of the members of a team with their active agents, ordered by agent.\<close>

definition routing_candidates :: "db \<Rightarrow> uuid \<Rightarrow> uuid \<Rightarrow> RoutingCandidate list" where
  "routing_candidates d tenantId teamId =
     sort_key rc_agentId (concat (map (\<lambda>m. map (\<lambda>a. \<lparr>rc_agentId = mb_agentId m, rc_presenceStatus = ag_presenceStatus a,
            rc_maxConcurrentConversations = ag_maxConcurrentConversations a\<rparr>)
          (filter (\<lambda>a. ag_id a = mb_agentId m \<and> ag_tenantId a = mb_tenantId m \<and> ag_active a) (agents d)))
       (filter (\<lambda>m. mb_tenantId m = tenantId \<and> mb_teamId m = teamId) (teamMembers d))))"

text \<open>\<open>groupBy\<close> on the assigned agent, with the number of rows of each group.\<close>

definition groupedLoads :: "db \<Rightarrow> uuid \<Rightarrow> uuid list \<Rightarrow> (uuid \<times> nat) list" where
  "groupedLoads d tenantId candidateIds =
     (let rows = filter (\<lambda>v. v_tenantId v = tenantId \<and> (case v_assignedAgentId v of None \<Rightarrow> False | Some a \<Rightarrow> a \<in> set candidateIds) \<and>
            v_status v \<in> {OPEN, PENDING}) (conversations d);
          keys = remdups (List.map_filter v_assignedAgentId rows)
      in map (\<lambda>a. (a, countWhere (\<lambda>v. v_assignedAgentId v = Some a) rows)) keys)"

definition loadByAgent :: "(uuid \<times> nat) list \<Rightarrow> uuid \<Rightarrow> nat" where
  "loadByAgent groups a = (case map_of (rev (filter (\<lambda>g. fst g \<noteq> []) groups)) a of None \<Rightarrow> 0 | Some n \<Rightarrow> n)"

text \<open>The loop over the eligible agents that keeps the first one with the least load.\<close>

fun select_least :: "(uuid \<Rightarrow> nat) \<Rightarrow> uuid list \<Rightarrow> uuid \<Rightarrow> nat \<Rightarrow> uuid \<times> nat" where
  "select_least loads [] selectedAgentId selectedLoad = (selectedAgentId, selectedLoad)"
| "select_least loads (candidateId # rest) selectedAgentId selectedLoad =
     (let load = loads candidateId
      in if load < selectedLoad then select_least loads rest candidateId load else select_least loads rest selectedAgentId selectedLoad)"

definition capacityByAgent :: "RoutingCandidate list \<Rightarrow> uuid \<Rightarrow> nat option" where
  "capacityByAgent candidates a =
     (case map_of (rev (map (\<lambda>c. (rc_agentId c, rc_maxConcurrentConversations c)) candidates)) a of None \<Rightarrow> None | Some cap \<Rightarrow> cap)"

text \<open>
  The choice of \<open>routeConversation\<close> for an unassigned conversation of a team: the candidates, those available,
  the number of required skills, those with the skills, those below their limit, and the selected agent with its load.
\<close>

record routing_choice =
  ch_candidates :: nat
  ch_available :: nat
  ch_skilled :: nat
  ch_required :: nat
  ch_eligible :: nat
  ch_agentId :: uuid
  ch_load :: nat

definition choose_agent :: "db \<Rightarrow> uuid \<Rightarrow> uuid \<Rightarrow> uuid \<Rightarrow> error + routing_choice" where
  "choose_agent d tenantId k teamId =
     (let candidates = routing_candidates d tenantId teamId;
          availableCandidates = filter (\<lambda>c. rc_presenceStatus c = AVAILABLE) candidates
      in if candidates = [] then Inl (Unprocessable ''Assigned inbox team has no active routing members'')
         else if availableCandidates = [] then Inl (Unprocessable ''Assigned inbox team has no available routing members'')
         else bindE (filterAgentsByConversationSkills d tenantId k (map rc_agentId availableCandidates)) (\<lambda>(candidateIds, requiredSkills).
           if candidateIds = [] then Inl (Unprocessable ''Assigned inbox team has no available members satisfying required skills'')
           else let loads = loadByAgent (groupedLoads d tenantId candidateIds);
                    eligible = filter (\<lambda>c. case capacityByAgent availableCandidates c of None \<Rightarrow> True | Some limit \<Rightarrow> loads c < limit) candidateIds
                in case eligible of
                     [] \<Rightarrow> Inl (Unprocessable ''Assigned inbox team has no routing members with remaining conversation capacity'')
                   | c # rest \<Rightarrow>
                       let (selected, load) = select_least loads rest c (loads c)
                       in Inr \<lparr>ch_candidates = length candidates, ch_available = length availableCandidates, ch_skilled = length candidateIds,
                            ch_required = requiredSkills, ch_eligible = length eligible, ch_agentId = selected, ch_load = load\<rparr>))"

definition routed_audit :: "MutationActor \<Rightarrow> AuditRequestContext option \<Rightarrow> uuid \<Rightarrow> routing_choice \<Rightarrow> audit_row option" where
  "routed_audit actor ctx k c =
     conversation_audit actor ctx ''inbox.conversation.routed'' k
       [(''strategy'', JStr ''least_open_pending''), (''availableAgents'', json_nat (ch_available c)),
        (''presenceUnavailableAgents'', json_nat (ch_candidates c - ch_available c)), (''eligibleAgents'', json_nat (ch_eligible c)),
        (''capacityLimitedAgents'', json_nat (ch_skilled c - ch_eligible c)), (''requiredSkills'', json_nat (ch_required c)),
        (''selectedLoad'', json_nat (ch_load c)), (''assigned'', JBool True)]"

definition routeConversation ::
  "db \<Rightarrow> ApiPrincipal \<Rightarrow> uuid \<Rightarrow> AuditRequestContext option \<Rightarrow> error + (conversation_row \<times> bool) \<times> db" where
  "routeConversation d p k ctx =
     (let actor = mutationActor (Inr p); tenantId = ma_tenantId actor
      in bindE (find_conversation d tenantId k) (\<lambda>existing.
         if truthy_id (v_assignedAgentId existing) then Inr ((existing, False), d)
         else if \<not> truthy_id (assigned_team d existing)
         then Inl (Unprocessable ''Conversation must be assigned to an inbox team before automatic routing'')
         else let teamId = the (assigned_team d existing)
           in if findFirst (\<lambda>t. tm_id t = teamId \<and> tm_tenantId t = tenantId \<and> tm_active t) (teams d) = None
              then Inl (Unprocessable ''Assigned inbox team is not active in this tenant'')
              else bindE (choose_agent d tenantId k teamId) (\<lambda>c.
                Inr (write_agent d k (Some (ch_agentId c)) existing (routed_audit actor ctx k c)))))"

section \<open>Reading and notes\<close>

definition markRead :: "db \<Rightarrow> ApiPrincipal \<Rightarrow> uuid \<Rightarrow> error + conversation_row \<times> db" where
  "markRead d p k =
     bindE (find_conversation d (ap_tenantId p) k) (\<lambda>existing.
       Inr (existing\<lparr>v_unreadCount := 0\<rparr>, d\<lparr>conversations := updateConversationRow k (\<lambda>v. v\<lparr>v_unreadCount := 0\<rparr>) (conversations d)\<rparr>))"

definition addNote :: "db \<Rightarrow> ApiPrincipal \<Rightarrow> uuid \<Rightarrow> string \<Rightarrow> uuid \<Rightarrow> time \<Rightarrow> error + note_row \<times> db" where
  "addNote d p k text newId now =
     bindE (requiredText text ''Note'') (\<lambda>body.
     bindE (find_conversation d (ap_tenantId p) k) (\<lambda>_.
       let note = \<lparr>n_id = newId, n_tenantId = ap_tenantId p, n_conversationId = k, n_createdByApiKeyId = Some (ap_apiKeyId p),
             n_body = body, n_createdAt = now\<rparr>
       in Inr (note, d\<lparr>conversationNotes := conversationNotes d @ [note]\<rparr>)))"

section \<open>What routing decides\<close>

text \<open>The keys and references of the tables an admission reads.\<close>

definition agent_refs :: "db \<Rightarrow> (uuid \<times> uuid) set" where
  "agent_refs d = (\<lambda>a. (ag_tenantId a, ag_id a)) ` set (agents d)"

definition team_refs :: "db \<Rightarrow> (uuid \<times> uuid) set" where
  "team_refs d = (\<lambda>t. (tm_tenantId t, tm_id t)) ` set (teams d)"

definition conversation_refs :: "db \<Rightarrow> (uuid \<times> uuid) set" where
  "conversation_refs d = (\<lambda>v. (v_tenantId v, v_id v)) ` set (conversations d)"

definition team_tables_ok :: "db \<Rightarrow> bool" where
  "team_tables_ok d \<longleftrightarrow> agents_unique (agents d) \<and> list_all (\<lambda>a. ag_id a \<noteq> []) (agents d) \<and>
     teams_unique (teams d) \<and> list_all (\<lambda>t. tm_id t \<noteq> []) (teams d) \<and>
     distinct (map (\<lambda>m. (mb_teamId m, mb_agentId m)) (teamMembers d)) \<and>
     list_all (\<lambda>m. (mb_tenantId m, mb_teamId m) \<in> team_refs d \<and> (mb_tenantId m, mb_agentId m) \<in> agent_refs d) (teamMembers d)"

definition has_room :: "db \<Rightarrow> agent_row \<Rightarrow> bool" where
  "has_room d a \<longleftrightarrow> (case ag_maxConcurrentConversations a of None \<Rightarrow> True | Some limit \<Rightarrow> agent_load d (ag_tenantId a) (ag_id a) < limit)"

text \<open>An agent that may be given the conversation \<open>k\<close> of the tenant \<open>t\<close>.\<close>

definition admissible :: "db \<Rightarrow> uuid \<Rightarrow> uuid \<Rightarrow> agent_row \<Rightarrow> bool" where
  "admissible d t k a \<longleftrightarrow> ag_tenantId a = t \<and> ag_active a \<and> ag_presenceStatus a = AVAILABLE \<and>
     meets_requirements d t k (ag_id a) \<and> has_room d a"

definition team_agents :: "db \<Rightarrow> uuid \<Rightarrow> uuid \<Rightarrow> agent_row list" where
  "team_agents d t team = sort_key ag_id (filter (\<lambda>a. ag_tenantId a = t \<and> ag_active a \<and> is_member d t team (ag_id a)) (agents d))"

definition candidate_of :: "agent_row \<Rightarrow> RoutingCandidate" where
  "candidate_of a = \<lparr>rc_agentId = ag_id a, rc_presenceStatus = ag_presenceStatus a, rc_maxConcurrentConversations = ag_maxConcurrentConversations a\<rparr>"

lemma candidate_of_simps [simp]:
  "rc_agentId (candidate_of a) = ag_id a" "rc_presenceStatus (candidate_of a) = ag_presenceStatus a"
  "rc_maxConcurrentConversations (candidate_of a) = ag_maxConcurrentConversations a"
  by (simp_all add: candidate_of_def)

lemma agent_unique:
  assumes "team_tables_ok d" and "a \<in> set (agents d)" and "b \<in> set (agents d)" and "ag_id a = ag_id b"
  shows "a = b"
  using assms by (auto simp: team_tables_ok_def agents_unique_def distinct_map inj_on_def)

lemma is_member_iff: "is_member d t team a \<longleftrightarrow> (\<exists>m \<in> set (teamMembers d). mb_tenantId m = t \<and> mb_teamId m = team \<and> mb_agentId m = a)"
  by (auto simp: is_member_def findFirst_None simp del: not_None_eq)

lemma distinct_join:
  assumes "distinct (map key ms)" and "\<And>m. m \<in> set ms \<Longrightarrow> length (f m) \<le> 1 \<and> (\<forall>x \<in> set (f m). g x = key m)"
  shows "distinct (map g (concat (map f ms)))"
  using assms
proof (induction ms)
  case (Cons m ms)
  then have "distinct (map g (concat (map f ms)))" by auto
  moreover have "distinct (map g (f m))" using Cons.prems(2) [of m] by (cases "f m") auto
  moreover have "g x \<noteq> g y" if "x \<in> set (f m)" "m' \<in> set ms" "y \<in> set (f m')" for x y m'
  proof -
    have "g x = key m" "g y = key m'" using Cons.prems(2) [of m] Cons.prems(2) [of m'] that by auto
    then show ?thesis using Cons.prems(1) that(2) by (auto simp: image_iff)
  qed
  ultimately show ?case by (fastforce simp: image_iff)
qed simp

lemma routing_candidates_map:
  assumes ok: "team_tables_ok d"
  shows "routing_candidates d t team = map candidate_of (team_agents d t team)"
proof -
  let ?ms = "filter (\<lambda>m. mb_tenantId m = t \<and> mb_teamId m = team) (teamMembers d)"
  let ?f = "\<lambda>m. map (\<lambda>a. \<lparr>rc_agentId = mb_agentId m, rc_presenceStatus = ag_presenceStatus a,
            rc_maxConcurrentConversations = ag_maxConcurrentConversations a\<rparr>)
          (filter (\<lambda>a. ag_id a = mb_agentId m \<and> ag_tenantId a = mb_tenantId m \<and> ag_active a) (agents d))"
  let ?as = "filter (\<lambda>a. ag_tenantId a = t \<and> ag_active a \<and> is_member d t team (ag_id a)) (agents d)"
  have ids: "distinct (map ag_id (agents d))" using ok by (simp add: team_tables_ok_def agents_unique_def)
  have "distinct (map (\<lambda>m. (mb_agentId m, mb_teamId m)) (teamMembers d))"
    using ok by (auto simp: team_tables_ok_def distinct_map inj_on_def)
  then have ms: "distinct (map mb_agentId ?ms)"
    using distinct_map_filter_pair [of mb_agentId mb_teamId "teamMembers d" team "\<lambda>m. mb_tenantId m = t"] by (simp add: conj_commute)
  have len: "length (?f m) \<le> 1 \<and> (\<forall>x \<in> set (?f m). rc_agentId x = mb_agentId m)" for m
  proof (cases "?f m")
    case (Cons x xs)
    have "x \<in> set (?f m)" unfolding Cons by simp
    then obtain a where a: "a \<in> set (agents d)" "ag_id a = mb_agentId m" "ag_tenantId a = mb_tenantId m \<and> ag_active a" by auto
    show ?thesis using filter_key [OF ids a(1), of "\<lambda>a. ag_tenantId a = mb_tenantId m \<and> ag_active a"] a by (simp add: conj_ac)
  qed simp
  have "distinct (map rc_agentId (concat (map ?f ?ms)))"
    using ms len by (intro distinct_join [where key = mb_agentId]) auto
  then have d1: "distinct (map rc_agentId (routing_candidates d t team))"
    by (simp add: routing_candidates_def distinct_map_sort_key)
  have d2: "distinct (map rc_agentId (map candidate_of (team_agents d t team)))"
    using ids by (auto simp: team_agents_def distinct_map inj_on_def)
  have s: "set (routing_candidates d t team) = set (map candidate_of (team_agents d t team))"
    by (auto simp: routing_candidates_def team_agents_def is_member_iff candidate_of_def image_iff) metis+
  have "sorted (map rc_agentId (routing_candidates d t team))" by (simp add: routing_candidates_def)
  moreover have "sorted (map rc_agentId (map candidate_of (team_agents d t team)))"
    using sorted_sort_key [of ag_id ?as] by (simp add: team_agents_def comp_def)
  ultimately show ?thesis
    using d1 d2 s by (intro map_sorted_distinct_set_unique [where f = rc_agentId]) (auto simp: distinct_map)
qed

lemma select_least_spec:
  assumes "select_least loads xs a (loads a) = (m, n)"
  shows "m \<in> set (a # xs) \<and> n = loads m \<and> (\<forall>x \<in> set (a # xs). loads m \<le> loads x) \<and>
    (sorted (a # xs) \<longrightarrow> (\<forall>x \<in> set (a # xs). loads x = loads m \<longrightarrow> m \<le> x))"
  using assms
proof (induction xs arbitrary: a)
  case (Cons x xs)
  let ?b = "if loads x < loads a then x else a"
  have "select_least loads xs ?b (loads ?b) = (m, n)" using Cons.prems by (simp add: Let_def split: if_split_asm)
  note IH = Cons.IH [OF this]
  have le: "loads m \<le> loads a" "loads m \<le> loads x" "\<forall>y \<in> set xs. loads m \<le> loads y"
    using IH by (auto split: if_split_asm)
  have "\<forall>y \<in> set (a # x # xs). loads y = loads m \<longrightarrow> m \<le> y" if "sorted (a # x # xs)"
  proof -
    have "sorted (?b # xs)" using that by auto
    then have eq: "\<forall>y \<in> set (?b # xs). loads y = loads m \<longrightarrow> m \<le> y" using IH by blast
    show ?thesis
    proof (cases "loads x < loads a")
      case True
      then show ?thesis using eq le by auto
    next
      case False
      have "m \<le> x" if "loads x = loads m"
      proof -
        have "loads a = loads m" using le False that by simp
        then have "m \<le> a" using eq False by simp
        then show ?thesis using \<open>sorted (a # x # xs)\<close> by auto
      qed
      then show ?thesis using eq False by auto
    qed
  qed
  moreover have "m \<in> set (a # x # xs) \<and> n = loads m" using IH by (auto split: if_split_asm)
  ultimately show ?case using le by auto
qed auto

lemma loadByAgent_load:
  assumes "a \<in> set cs" and "a \<noteq> []"
  shows "loadByAgent (groupedLoads d t cs) a = agent_load d t a"
proof -
  let ?rows = "filter (\<lambda>v. v_tenantId v = t \<and> (case v_assignedAgentId v of None \<Rightarrow> False | Some a \<Rightarrow> a \<in> set cs) \<and>
            v_status v \<in> {OPEN, PENDING}) (conversations d)"
  let ?keys = "remdups (List.map_filter v_assignedAgentId ?rows)"
  let ?count = "\<lambda>a. countWhere (\<lambda>v. v_assignedAgentId v = Some a) ?rows"
  have load: "?count a = agent_load d t a"
    using assms(1) by (auto simp: countWhere_def agent_load_def counts_for_def intro!: arg_cong [where f = length] filter_cong)
  have keys: "a \<in> set ?keys \<longleftrightarrow> ?count a \<noteq> 0"
    by (auto simp: countWhere_def filter_empty_conv List.map_filter_def image_iff)
  have "map_of (rev (filter (\<lambda>g. fst g \<noteq> []) (map (\<lambda>a. (a, ?count a)) ?keys))) a = (if a \<in> set ?keys then Some (?count a) else None)"
  proof -
    have "map_of (rev (map (\<lambda>a. (a, f a)) xs)) a = (if a \<in> set xs then Some (f a) else None)" for f :: "uuid \<Rightarrow> nat" and xs
      by (induction xs rule: rev_induct) auto
    moreover have "filter (\<lambda>g. fst g \<noteq> []) (map (\<lambda>a. (a, ?count a)) ?keys) = map (\<lambda>a. (a, ?count a)) (filter (\<lambda>a. a \<noteq> []) ?keys)"
      by (simp add: filter_map comp_def)
    ultimately show ?thesis using assms(2) by simp
  qed
  then show ?thesis
    unfolding loadByAgent_def groupedLoads_def Let_def using keys load by simp
qed

lemma capacityByAgent_of:
  assumes "distinct (map ag_id as)" and "a \<in> set as"
  shows "capacityByAgent (map candidate_of as) (ag_id a) = ag_maxConcurrentConversations a"
proof -
  have "map_of (rev (map (\<lambda>a. (ag_id a, ag_maxConcurrentConversations a)) as)) (ag_id a) = Some (ag_maxConcurrentConversations a)"
    using assms by (subst map_of_eq_Some_iff) (auto simp: rev_map comp_def distinct_map)
  then show ?thesis by (simp add: capacityByAgent_def comp_def)
qed

text \<open>The agents a conversation may be routed to, in order of their id.\<close>

definition eligible_agents :: "db \<Rightarrow> uuid \<Rightarrow> uuid \<Rightarrow> uuid \<Rightarrow> agent_row list" where
  "eligible_agents d t k team = filter (admissible d t k) (team_agents d t team)"

lemma choose_agent_spec:
  assumes team: "team_tables_ok d" and skill: "skill_tables_ok d" and act: "requirements_active d t k"
  shows "case choose_agent d t k team of
      Inl e \<Rightarrow> eligible_agents d t k team = []
    | Inr c \<Rightarrow> \<exists>a \<in> set (eligible_agents d t k team). ch_agentId c = ag_id a \<and> ch_load c = agent_load d t (ag_id a) \<and>
        (\<forall>b \<in> set (eligible_agents d t k team). agent_load d t (ag_id a) \<le> agent_load d t (ag_id b) \<and>
           (agent_load d t (ag_id b) = agent_load d t (ag_id a) \<longrightarrow> ag_id a \<le> ag_id b))"
proof -
  let ?as = "team_agents d t team"
  let ?av = "filter (\<lambda>a. ag_presenceStatus a = AVAILABLE) ?as"
  let ?ids = "filter (meets_requirements d t k) (map ag_id ?av)"
  let ?el = "map ag_id (eligible_agents d t k team)"
  let ?loads = "loadByAgent (groupedLoads d t ?ids)"
  let ?cap = "\<lambda>c. case capacityByAgent (map candidate_of ?av) c of None \<Rightarrow> True | Some limit \<Rightarrow> ?loads c < limit"
  have mem: "a \<in> set (agents d)" "ag_tenantId a = t" "ag_active a" if "a \<in> set ?as" for a
    using that by (auto simp: team_agents_def)
  have ne: "ag_id a \<noteq> []" if "a \<in> set ?as" for a
    using team mem(1) [OF that] by (auto simp: team_tables_ok_def list_all_iff)
  have dist: "distinct (map ag_id ?as)"
    using team by (auto simp: team_agents_def distinct_map_sort_key team_tables_ok_def agents_unique_def distinct_map inj_on_def)
  then have dist_av: "distinct (map ag_id ?av)" by (auto simp: distinct_map inj_on_def)
  have av: "filter (\<lambda>c. rc_presenceStatus c = AVAILABLE) (routing_candidates d t team) = map candidate_of ?av"
    by (simp add: routing_candidates_map [OF team] filter_map comp_def)
  have loads: "?loads (ag_id a) = agent_load d t (ag_id a)" if "a \<in> set ?as" "ag_id a \<in> set ?ids" for a
    using that ne by (intro loadByAgent_load) auto
  have cap: "?cap (ag_id a) \<longleftrightarrow> has_room d a" if "a \<in> set ?av" "meets_requirements d t k (ag_id a)" for a
    using that by (simp add: capacityByAgent_of [OF dist_av] loads has_room_def mem(2) split: option.split)
  have "filter P (filter Q (map ag_id xs)) = map ag_id (filter (\<lambda>a. Q (ag_id a) \<and> P (ag_id a)) xs)" for P Q and xs :: "agent_row list"
    by (simp add: filter_map comp_def conj_commute)
  then have "filter ?cap ?ids = map ag_id (filter (\<lambda>a. meets_requirements d t k (ag_id a) \<and> ?cap (ag_id a)) ?av)" .
  also have "\<dots> = map ag_id (filter (\<lambda>a. meets_requirements d t k (ag_id a) \<and> has_room d a) ?av)"
    using cap by (intro arg_cong [where f = "map ag_id"] filter_cong) auto
  finally have "filter ?cap ?ids = map ag_id (filter (\<lambda>a. meets_requirements d t k (ag_id a) \<and> has_room d a) ?av)" .
  then have el: "filter ?cap ?ids = ?el"
    by (auto simp: eligible_agents_def admissible_def mem intro!: arg_cong [where f = "map ag_id"] filter_cong)
  have sub: "set ?el \<subseteq> set ?ids" unfolding el [symmetric] by auto
  have srt: "sorted ?el" by (simp add: eligible_agents_def team_agents_def sorted_filter)
  have ids: "map rc_agentId (map candidate_of ?av) = map ag_id ?av" by (simp add: comp_def)
  have ch: "choose_agent d t k team =
     (if routing_candidates d t team = [] then Inl (Unprocessable ''Assigned inbox team has no active routing members'')
      else if map candidate_of ?av = [] then Inl (Unprocessable ''Assigned inbox team has no available routing members'')
      else if ?ids = [] then Inl (Unprocessable ''Assigned inbox team has no available members satisfying required skills'')
      else case ?el of
             [] \<Rightarrow> Inl (Unprocessable ''Assigned inbox team has no routing members with remaining conversation capacity'')
           | c # rest \<Rightarrow>
               let (selected, load) = select_least ?loads rest c (?loads c)
               in Inr \<lparr>ch_candidates = length (routing_candidates d t team), ch_available = length (map candidate_of ?av), ch_skilled = length ?ids,
                    ch_required = length (required_of d t k), ch_eligible = length ?el, ch_agentId = selected, ch_load = load\<rparr>)"
    unfolding choose_agent_def Let_def av ids filterAgentsByConversationSkills_spec [OF skill]
    by (simp only: act not_True_eq_False if_False bindE.simps prod.case el)
  show ?thesis
  proof (cases ?el)
    case Nil
    then show ?thesis unfolding ch by simp
  next
    case (Cons c rest)
    then have "c \<in> set ?ids" using sub by (metis list.set_intros(1) subsetD)
    then have ne: "?ids \<noteq> []" by (metis empty_iff list.set(1))
    then have ne': "?av \<noteq> []" by force
    then have ne'': "?as \<noteq> []" by force
    obtain m n where mn: "select_least ?loads rest c (?loads c) = (m, n)" by fastforce
    from select_least_spec [OF this] have m: "m \<in> set ?el" "n = ?loads m" "\<forall>x \<in> set ?el. ?loads m \<le> ?loads x"
      "\<forall>x \<in> set ?el. ?loads x = ?loads m \<longrightarrow> m \<le> x" using srt unfolding Cons by auto
    have l: "?loads (ag_id b) = agent_load d t (ag_id b)" if "b \<in> set (eligible_agents d t k team)" for b
      using that sub by (intro loads) (auto simp: eligible_agents_def)
    from m(1) obtain a where a: "a \<in> set (eligible_agents d t k team)" "m = ag_id a" by auto
    have "\<exists>c. choose_agent d t k team = Inr c \<and> ch_agentId c = m \<and> ch_load c = n"
      unfolding ch Cons list.case mn using ne ne' ne'' by (simp add: routing_candidates_map [OF team])
    then show ?thesis using a m l by (auto intro!: bexI [of _ a])
  qed
qed

section \<open>Properties\<close>

lemma find_conversation_Inr:
  "find_conversation d t k = Inr v \<longleftrightarrow> findFirst (\<lambda>v. v_id v = k \<and> v_tenantId v = t) (conversations d) = Some v"
  by (simp add: find_conversation_def split: option.split)

lemma find_conversationD:
  "find_conversation d t k = Inr v \<Longrightarrow> v \<in> set (conversations d) \<and> v_id v = k \<and> v_tenantId v = t"
  by (auto simp: find_conversation_Inr dest: findFirst_SomeD)

text \<open>
  C26. Automatic routing gives an unassigned conversation of an active team to the least loaded agent that may take it: a
  member of the team, active, available, with every required skill and below its limit; agents with the same load are
  taken in order of their id. It changes nothing else of the conversation, and it fails only when no such
  agent exists.
\<close>
theorem routeConversation_least_loaded:
  assumes "team_tables_ok d" and "skill_tables_ok d"
    and "find_conversation d (ap_tenantId p) k = Inr v" and "v_assignedAgentId v = None"
    and "assigned_team d v = Some (tm_id team)"
    and "findFirst (\<lambda>t. tm_id t = tm_id team \<and> tm_tenantId t = ap_tenantId p \<and> tm_active t) (teams d) = Some team"
    and "requirements_active d (ap_tenantId p) k"
  shows "case routeConversation d p k ctx of
      Inl e \<Rightarrow> eligible_agents d (ap_tenantId p) k (tm_id team) = []
    | Inr ((v', changed), d') \<Rightarrow> changed \<and> (\<exists>a \<in> set (eligible_agents d (ap_tenantId p) k (tm_id team)).
        v' = v\<lparr>v_assignedAgentId := Some (ag_id a)\<rparr> \<and>
        conversations d' = map (\<lambda>w. if v_id w = k then w\<lparr>v_assignedAgentId := Some (ag_id a)\<rparr> else w) (conversations d) \<and>
        (\<forall>b \<in> set (eligible_agents d (ap_tenantId p) k (tm_id team)).
           agent_load d (ap_tenantId p) (ag_id a) \<le> agent_load d (ap_tenantId p) (ag_id b) \<and>
           (agent_load d (ap_tenantId p) (ag_id b) = agent_load d (ap_tenantId p) (ag_id a) \<longrightarrow> ag_id a \<le> ag_id b)))"
proof -
  have "team \<in> set (teams d)" using assms(6) by (auto dest: findFirst_SomeD)
  then have "tm_id team \<noteq> []" using assms(1) by (auto simp: team_tables_ok_def list_all_iff)
  then show ?thesis
    using choose_agent_spec [OF assms(1,2,7), of "tm_id team"] assms(3-6)
    by (auto simp: routeConversation_def Let_def truthy_id_def write_agent_def set_agent_def updateConversationRow_def updateMany_def
      split: sum.split_asm)
qed

text \<open>
  Claiming and releasing undo each other: after an agent has claimed an unassigned conversation, its release
  succeeds and leaves every conversation, and every other table but the audit log, as it was before the claim.
\<close>
theorem claim_then_release:
  assumes "distinct (map v_id (conversations d))" and "\<forall>v \<in> set (conversations d). v_assignedAgentId v \<noteq> Some []"
    and "claimConversation d p k agentId ctx = Inr ((v, True), d')"
  shows "\<exists>v' d''. releaseConversation d' p k agentId ctx' = Inr ((v', True), d'') \<and>
     v' = v\<lparr>v_assignedAgentId := None\<rparr> \<and> d''\<lparr>auditLogs := []\<rparr> = d\<lparr>auditLogs := []\<rparr>"
proof -
  let ?t = "ap_tenantId p"
  let ?set = "\<lambda>a. updateConversationRow k (set_agent a)"
  from assms(3) obtain w cap audit where w: "find_conversation d ?t k = Inr w" "\<not> truthy_id (v_assignedAgentId w)"
    and cap: "lockActiveAgentCapacity d ?t agentId ''Inbox agent is not active in this tenant'' = Inr cap"
    and v: "v = set_agent (Some agentId) w" and d': "d' = add_audit audit (d\<lparr>conversations := ?set (Some agentId) (conversations d)\<rparr>)"
    by (auto simp: claimConversation_def Let_def db_simps write_agent_def split: if_split_asm)
  have mem: "w \<in> set (conversations d)" "v_id w = k" "v_tenantId w = ?t" using find_conversationD [OF w(1)] by auto
  then have none: "v_assignedAgentId w = None" using w(2) assms(2) by (auto simp: truthy_id_def)
  have find: "find_conversation d' ?t k = Inr v"
    using w(1) mem by (simp add: d' v find_conversation_Inr updateConversationRow_def findFirst_updateMany set_agent_def)
  have ag: "findFirst (\<lambda>a. ag_id a = agentId \<and> ag_tenantId a = ?t) (agents d') \<noteq> None"
    using cap by (auto simp: d' lockActiveAgentCapacity_def findFirst_None split: option.split_asm dest!: findFirst_SomeD simp del: not_None_eq)
  have "set_agent None (set_agent (Some agentId) r) = r" if "r \<in> set (conversations d)" "v_id r = k" for r
  proof -
    have "r = w" using that mem assms(1) by (auto simp: distinct_map inj_on_def)
    with none show ?thesis by (simp add: set_agent_def)
  qed
  then have undo: "?set None (?set (Some agentId) (conversations d)) = conversations d"
    by (simp add: updateConversationRow_def updateMany_def set_agent_def map_idI)
  show ?thesis
    using find ag none by (auto simp: releaseConversation_def Let_def v write_agent_def set_agent_def d' undo add_audit_def split: option.split)
qed

section \<open>An example\<close>

text \<open>
  Two agents of one team. The first has its only slot taken by a conversation; a second conversation of the team waits.
\<close>

definition sample_agent :: "uuid \<Rightarrow> nat \<Rightarrow> agent_row" where
  "sample_agent k limit = \<lparr>ag_id = k, ag_tenantId = ''t'', ag_externalId = None, ag_name = ''Ann'', ag_email = None, ag_active = True,
     ag_presenceStatus = AVAILABLE, ag_presenceUpdatedAt = 0, ag_maxConcurrentConversations = Some limit, ag_metadata = None\<rparr>"

definition sample_team :: team_row where
  "sample_team = \<lparr>tm_id = ''g'', tm_tenantId = ''t'', tm_name = ''Sales'', tm_description = None, tm_active = True, tm_responseSlaMinutes = None\<rparr>"

definition sample_inbox_conversation :: "uuid \<Rightarrow> uuid \<Rightarrow> conversation_row" where
  "sample_inbox_conversation k contact = new_conversation k ''t'' ''s'' contact 5"

definition sample_inbox :: db where
  "sample_inbox = empty_db\<lparr>agents := [sample_agent ''a1'' 1, sample_agent ''a2'' 3], teams := [sample_team],
     teamMembers := [\<lparr>mb_tenantId = ''t'', mb_teamId = ''g'', mb_agentId = ''a1'', mb_createdAt = 0\<rparr>,
       \<lparr>mb_tenantId = ''t'', mb_teamId = ''g'', mb_agentId = ''a2'', mb_createdAt = 0\<rparr>],
     conversations := [(sample_inbox_conversation ''v1'' ''c1'')\<lparr>v_assignedAgentId := Some ''a1''\<rparr>, sample_inbox_conversation ''v2'' ''c2''],
     teamAssignments := [\<lparr>ta_tenantId = ''t'', ta_conversationId = ''v2'', ta_teamId = ''g''\<rparr>]\<rparr>"

definition sample_principal :: ApiPrincipal where
  "sample_principal = \<lparr>ap_tenantId = ''t'', ap_apiKeyId = ''key'', ap_scopes = []\<rparr>"

lemmas sample_inbox_defs = sample_inbox_def sample_agent_def sample_team_def sample_inbox_conversation_def sample_principal_def
  empty_db_def new_conversation_def

lemma sample_inbox_tables: "team_tables_ok sample_inbox" "skill_tables_ok sample_inbox" "requirements_active sample_inbox ''t'' ''v2''"
  by (simp_all add: sample_inbox_defs team_tables_ok_def skill_tables_ok_def agents_unique_def teams_unique_def skills_unique_def
    requirements_active_def required_of_def team_refs_def agent_refs_def)

lemma sample_inbox_route:
  "case routeConversation sample_inbox sample_principal ''v2'' None of
     Inl e \<Rightarrow> False
   | Inr ((v, changed), d') \<Rightarrow> v = (sample_inbox_conversation ''v2'' ''c2'')\<lparr>v_assignedAgentId := Some ''a2''\<rparr> \<and> changed \<and>
       conversations d' = [(sample_inbox_conversation ''v1'' ''c1'')\<lparr>v_assignedAgentId := Some ''a1''\<rparr>,
         (sample_inbox_conversation ''v2'' ''c2'')\<lparr>v_assignedAgentId := Some ''a2''\<rparr>]"
  by code_simp

lemma sample_inbox_claim:
  "case claimConversation sample_inbox sample_principal ''v2'' ''a2'' None of
     Inl e \<Rightarrow> False
   | Inr ((v, changed), d') \<Rightarrow> v = (sample_inbox_conversation ''v2'' ''c2'')\<lparr>v_assignedAgentId := Some ''a2''\<rparr> \<and> changed"
  by code_simp

theorem routeConversation_least_loaded_witness:
  "case routeConversation sample_inbox sample_principal ''v2'' None of
     Inl e \<Rightarrow> False
   | Inr ((v', changed), d') \<Rightarrow> v_assignedAgentId v' = Some ''a2'' \<and> (\<exists>a \<in> set (eligible_agents sample_inbox ''t'' ''v2'' ''g''). ag_id a = ''a2'')"
proof -
  have v: "find_conversation sample_inbox (ap_tenantId sample_principal) ''v2'' = Inr (sample_inbox_conversation ''v2'' ''c2'')"
    "v_assignedAgentId (sample_inbox_conversation ''v2'' ''c2'') = None"
    "assigned_team sample_inbox (sample_inbox_conversation ''v2'' ''c2'') = Some (tm_id sample_team)"
    "findFirst (\<lambda>t. tm_id t = tm_id sample_team \<and> tm_tenantId t = ap_tenantId sample_principal \<and> tm_active t) (teams sample_inbox) = Some sample_team"
    by (simp_all add: sample_inbox_defs find_conversation_def assigned_team_def)
  have "requirements_active sample_inbox (ap_tenantId sample_principal) ''v2''"
    using sample_inbox_tables(3) by (simp add: sample_principal_def)
  note spec = routeConversation_least_loaded [OF sample_inbox_tables(1,2) v this, of None]
  obtain v' d' where r: "routeConversation sample_inbox sample_principal ''v2'' None = Inr ((v', True), d')" and "v_assignedAgentId v' = Some ''a2''"
    using sample_inbox_route by (auto split: sum.split_asm)
  then have "\<exists>a \<in> set (eligible_agents sample_inbox ''t'' ''v2'' ''g''). ag_id a = ''a2''"
    using spec by (auto simp: sample_principal_def sample_team_def)
  then show ?thesis using r \<open>v_assignedAgentId v' = Some ''a2''\<close> by auto
qed

theorem claim_then_release_witness:
  "case claimConversation sample_inbox sample_principal ''v2'' ''a2'' None of
     Inl e \<Rightarrow> False
   | Inr (r, d') \<Rightarrow> \<exists>v' d''. releaseConversation d' sample_principal ''v2'' ''a2'' None = Inr ((v', True), d'') \<and>
       d''\<lparr>auditLogs := []\<rparr> = sample_inbox\<lparr>auditLogs := []\<rparr>"
proof -
  obtain v d' where c: "claimConversation sample_inbox sample_principal ''v2'' ''a2'' None = Inr ((v, True), d')"
    using sample_inbox_claim by (auto split: sum.split_asm)
  have "distinct (map v_id (conversations sample_inbox))" "\<forall>v \<in> set (conversations sample_inbox). v_assignedAgentId v \<noteq> Some []"
    by (simp_all add: sample_inbox_defs)
  from claim_then_release [OF this c, of None] c show ?thesis by auto
qed

end
