(* ===== verification/Inbox_Runs.thy ===== *)
theory Inbox_Runs
  imports Inbox
begin

text \<open>
  The inbox as a state machine: everything the inbox services and the message traffic do to agents, teams, skills
  and conversations, in any order. The invariant \<open>inbox_ok\<close> holds of every reachable database; the admission rule of
  docs/inbox-team-agent-routing-invariant.md and docs/inbox-least-loaded-routing.md holds of every step.
\<close>

section \<open>The invariant\<close>

definition skill_refs :: "db \<Rightarrow> (uuid \<times> uuid) set" where
  "skill_refs d = (\<lambda>s. (sk_tenantId s, sk_id s)) ` set (skills d)"

definition agent_ref_ok :: "db \<Rightarrow> conversation_row \<Rightarrow> bool" where
  "agent_ref_ok d v \<longleftrightarrow> (case v_assignedAgentId v of None \<Rightarrow> True | Some a \<Rightarrow> (v_tenantId v, a) \<in> agent_refs d)"

text \<open>The unique columns of the schema; ids and names are not empty.\<close>

definition inbox_keys_ok :: "db \<Rightarrow> bool" where
  "inbox_keys_ok d \<longleftrightarrow> agents_unique (agents d) \<and> list_all (\<lambda>a. ag_id a \<noteq> [] \<and> clean_text (ag_name a)) (agents d) \<and>
     teams_unique (teams d) \<and> list_all (\<lambda>t. tm_id t \<noteq> [] \<and> clean_text (tm_name t)) (teams d) \<and>
     skills_unique (skills d) \<and> list_all (\<lambda>s. clean_text (sk_name s)) (skills d) \<and>
     distinct (map (\<lambda>m. (mb_teamId m, mb_agentId m)) (teamMembers d)) \<and>
     distinct (map (\<lambda>x. (as_skillId x, as_agentId x)) (agentSkills d)) \<and>
     distinct (map (\<lambda>x. (sr_conversationId x, sr_skillId x)) (skillRequirements d)) \<and>
     distinct (map ta_conversationId (teamAssignments d)) \<and>
     distinct (map v_id (conversations d))"

text \<open>Every reference stays within its tenant.\<close>

definition inbox_refs_ok :: "db \<Rightarrow> bool" where
  "inbox_refs_ok d \<longleftrightarrow>
     list_all (\<lambda>m. (mb_tenantId m, mb_teamId m) \<in> team_refs d \<and> (mb_tenantId m, mb_agentId m) \<in> agent_refs d) (teamMembers d) \<and>
     list_all (\<lambda>x. (as_tenantId x, as_skillId x) \<in> skill_refs d \<and> (as_tenantId x, as_agentId x) \<in> agent_refs d) (agentSkills d) \<and>
     list_all (\<lambda>x. (sr_tenantId x, sr_skillId x) \<in> skill_refs d \<and> (sr_tenantId x, sr_conversationId x) \<in> conversation_refs d) (skillRequirements d) \<and>
     list_all (\<lambda>a. (ta_tenantId a, ta_teamId a) \<in> team_refs d \<and> (ta_tenantId a, ta_conversationId a) \<in> conversation_refs d) (teamAssignments d) \<and>
     list_all (agent_ref_ok d) (conversations d)"

text \<open>A conversation has a time of resolution exactly when it is resolved.\<close>

definition resolved_ok :: "conversation_row \<Rightarrow> bool" where
  "resolved_ok v \<longleftrightarrow> (v_resolvedAt v \<noteq> None \<longleftrightarrow> v_status v = RESOLVED)"

definition inbox_ok :: "db \<Rightarrow> bool" where
  "inbox_ok d \<longleftrightarrow> inbox_keys_ok d \<and> inbox_refs_ok d \<and> list_all resolved_ok (conversations d)"

section \<open>Steps\<close>

text \<open>
  A step is a request that succeeds, an inbound or outbound message of a contact, or an escalation. New ids are
  fresh. \<open>setAgentSkill\<close> may have read its rows in an earlier database.
\<close>

inductive inbox_step :: "db \<Rightarrow> db \<Rightarrow> bool" where
  create_agent: "createAgent d p dto ctx newId now = Inr (r, d') \<Longrightarrow> newId \<noteq> [] \<Longrightarrow> inbox_step d d'"
| update_agent: "updateAgent d p k dto ctx now = Inr (r, d') \<Longrightarrow> inbox_step d d'"
| create_team: "InboxTeamsService_createTeam d p dto ctx newId = Inr (r, d') \<Longrightarrow> newId \<noteq> [] \<Longrightarrow> inbox_step d d'"
| update_team: "InboxTeamsService_updateTeam d p k dto ctx = Inr (r, d') \<Longrightarrow> inbox_step d d'"
| add_member: "InboxTeamsService_addMember d p team a ctx now = Inr (r, d') \<Longrightarrow> inbox_step d d'"
| remove_member: "InboxTeamsService_removeMember d p team a ctx = Inr (r, d') \<Longrightarrow> inbox_step d d'"
| create_skill: "InboxSkillsService_createSkill d p dto ctx newId = Inr (r, d') \<Longrightarrow> inbox_step d d'"
| update_skill: "InboxSkillsService_updateSkill d p k dto ctx = Inr (r, d') \<Longrightarrow> inbox_step d d'"
| set_agent_skill: "InboxSkillsService_setAgentSkill d0 d p skill a level ctx now = Inr (r, d') \<Longrightarrow> inbox_step d d'"
| remove_agent_skill: "InboxSkillsService_removeAgentSkill d p skill a ctx = Inr (r, d') \<Longrightarrow> inbox_step d d'"
| set_requirement: "setRequirement d p k skill level ctx = Inr (r, d') \<Longrightarrow> inbox_step d d'"
| remove_requirement: "removeRequirement d p k skill ctx = Inr (r, d') \<Longrightarrow> inbox_step d d'"
| update_conversation: "updateConversation d p k dto ctx now = Inr (r, d') \<Longrightarrow> inbox_step d d'"
| claim: "claimConversation d p k a ctx = Inr (r, d') \<Longrightarrow> inbox_step d d'"
| route: "routeConversation d p k ctx = Inr (r, d') \<Longrightarrow> inbox_step d d'"
| release: "releaseConversation d p k a ctx = Inr (r, d') \<Longrightarrow> inbox_step d d'"
| mark_read: "markRead d p k = Inr (r, d') \<Longrightarrow> inbox_step d d'"
| add_note: "addNote d p k text newId now = Inr (r, d') \<Longrightarrow> inbox_step d d'"
| inbound: "recordInbound d t s c at newId = (k, d') \<Longrightarrow> newId \<notin> v_id ` set (conversations d) \<Longrightarrow> inbox_step d d'"
| outbound: "recordOutbound d t s phone mt at newId = (k, d') \<Longrightarrow> newId \<notin> v_id ` set (conversations d) \<Longrightarrow> inbox_step d d'"
| escalate: "escalateOverdue d locked now = (n, d') \<Longrightarrow> inbox_step d d'"

inductive inbox_reachable :: "db \<Rightarrow> db \<Rightarrow> bool" where
  start: "inbox_reachable d d"
| step: "inbox_reachable d d' \<Longrightarrow> inbox_step d' d'' \<Longrightarrow> inbox_reachable d d''"

section \<open>One table at a time\<close>

named_theorems inbox_defs
lemmas [inbox_defs] = inbox_ok_def inbox_keys_ok_def inbox_refs_ok_def

lemma refs_frame [simp]:
  "agent_refs (d\<lparr>teams := rows_teams\<rparr>) = agent_refs d"
  "agent_refs (d\<lparr>skills := rows_skills\<rparr>) = agent_refs d"
  "agent_refs (d\<lparr>conversations := rows_conversations\<rparr>) = agent_refs d"
  "agent_refs (d\<lparr>teamMembers := rows_teamMembers\<rparr>) = agent_refs d"
  "agent_refs (d\<lparr>agentSkills := rows_agentSkills\<rparr>) = agent_refs d"
  "agent_refs (d\<lparr>skillRequirements := rows_skillRequirements\<rparr>) = agent_refs d"
  "agent_refs (d\<lparr>teamAssignments := rows_teamAssignments\<rparr>) = agent_refs d"
  "agent_refs (d\<lparr>conversationNotes := rows_conversationNotes\<rparr>) = agent_refs d"
  "agent_refs (add_audit e d) = agent_refs d"
  "team_refs (d\<lparr>agents := rows_agents\<rparr>) = team_refs d"
  "team_refs (d\<lparr>skills := rows_skills\<rparr>) = team_refs d"
  "team_refs (d\<lparr>conversations := rows_conversations\<rparr>) = team_refs d"
  "team_refs (d\<lparr>teamMembers := rows_teamMembers\<rparr>) = team_refs d"
  "team_refs (d\<lparr>agentSkills := rows_agentSkills\<rparr>) = team_refs d"
  "team_refs (d\<lparr>skillRequirements := rows_skillRequirements\<rparr>) = team_refs d"
  "team_refs (d\<lparr>teamAssignments := rows_teamAssignments\<rparr>) = team_refs d"
  "team_refs (d\<lparr>conversationNotes := rows_conversationNotes\<rparr>) = team_refs d"
  "team_refs (add_audit e d) = team_refs d"
  "skill_refs (d\<lparr>agents := rows_agents\<rparr>) = skill_refs d"
  "skill_refs (d\<lparr>teams := rows_teams\<rparr>) = skill_refs d"
  "skill_refs (d\<lparr>conversations := rows_conversations\<rparr>) = skill_refs d"
  "skill_refs (d\<lparr>teamMembers := rows_teamMembers\<rparr>) = skill_refs d"
  "skill_refs (d\<lparr>agentSkills := rows_agentSkills\<rparr>) = skill_refs d"
  "skill_refs (d\<lparr>skillRequirements := rows_skillRequirements\<rparr>) = skill_refs d"
  "skill_refs (d\<lparr>teamAssignments := rows_teamAssignments\<rparr>) = skill_refs d"
  "skill_refs (d\<lparr>conversationNotes := rows_conversationNotes\<rparr>) = skill_refs d"
  "skill_refs (add_audit e d) = skill_refs d"
  "conversation_refs (d\<lparr>agents := rows_agents\<rparr>) = conversation_refs d"
  "conversation_refs (d\<lparr>teams := rows_teams\<rparr>) = conversation_refs d"
  "conversation_refs (d\<lparr>skills := rows_skills\<rparr>) = conversation_refs d"
  "conversation_refs (d\<lparr>teamMembers := rows_teamMembers\<rparr>) = conversation_refs d"
  "conversation_refs (d\<lparr>agentSkills := rows_agentSkills\<rparr>) = conversation_refs d"
  "conversation_refs (d\<lparr>skillRequirements := rows_skillRequirements\<rparr>) = conversation_refs d"
  "conversation_refs (d\<lparr>teamAssignments := rows_teamAssignments\<rparr>) = conversation_refs d"
  "conversation_refs (d\<lparr>conversationNotes := rows_conversationNotes\<rparr>) = conversation_refs d"
  "conversation_refs (add_audit e d) = conversation_refs d"
  by (simp_all add: agent_refs_def team_refs_def skill_refs_def conversation_refs_def)

lemma agent_ref_frame [simp]:
  "agent_ref_ok (d\<lparr>teams := rows_teams\<rparr>) = agent_ref_ok d"
  "agent_ref_ok (d\<lparr>skills := rows_skills\<rparr>) = agent_ref_ok d"
  "agent_ref_ok (d\<lparr>conversations := rows_conversations\<rparr>) = agent_ref_ok d"
  "agent_ref_ok (d\<lparr>teamMembers := rows_teamMembers\<rparr>) = agent_ref_ok d"
  "agent_ref_ok (d\<lparr>agentSkills := rows_agentSkills\<rparr>) = agent_ref_ok d"
  "agent_ref_ok (d\<lparr>skillRequirements := rows_skillRequirements\<rparr>) = agent_ref_ok d"
  "agent_ref_ok (d\<lparr>teamAssignments := rows_teamAssignments\<rparr>) = agent_ref_ok d"
  "agent_ref_ok (d\<lparr>conversationNotes := rows_conversationNotes\<rparr>) = agent_ref_ok d"
  "agent_ref_ok (add_audit e d) = agent_ref_ok d"
  by (simp_all add: fun_eq_iff agent_ref_ok_def split: option.split)

lemma inbox_ok_add_audit [simp]: "inbox_ok (add_audit a d) = inbox_ok d"
  by (simp add: inbox_defs)

lemma inbox_ok_agents:
  assumes "inbox_ok d" and "agents_unique rows" and "list_all (\<lambda>a. ag_id a \<noteq> [] \<and> clean_text (ag_name a)) rows"
    and "agent_refs d \<subseteq> (\<lambda>a. (ag_tenantId a, ag_id a)) ` set rows"
  shows "inbox_ok (d\<lparr>agents := rows\<rparr>)"
proof -
  have "agent_refs d \<subseteq> agent_refs (d\<lparr>agents := rows\<rparr>)" using assms(4) by (simp add: agent_refs_def)
  then show ?thesis
    using assms(1-3) by (auto simp: inbox_defs list_all_iff agent_ref_ok_def split: option.splits)
qed

lemma inbox_ok_teams:
  assumes "inbox_ok d" and "teams_unique rows" and "list_all (\<lambda>t. tm_id t \<noteq> [] \<and> clean_text (tm_name t)) rows"
    and "team_refs d \<subseteq> (\<lambda>t. (tm_tenantId t, tm_id t)) ` set rows"
  shows "inbox_ok (d\<lparr>teams := rows\<rparr>)"
proof -
  have "team_refs d \<subseteq> team_refs (d\<lparr>teams := rows\<rparr>)" using assms(4) by (simp add: team_refs_def)
  then show ?thesis
    using assms(1-3) by (auto simp: inbox_defs list_all_iff)
qed

lemma inbox_ok_skills:
  assumes "inbox_ok d" and "skills_unique rows" and "list_all (\<lambda>s. clean_text (sk_name s)) rows"
    and "skill_refs d \<subseteq> (\<lambda>s. (sk_tenantId s, sk_id s)) ` set rows"
  shows "inbox_ok (d\<lparr>skills := rows\<rparr>)"
proof -
  have "skill_refs d \<subseteq> skill_refs (d\<lparr>skills := rows\<rparr>)" using assms(4) by (simp add: skill_refs_def)
  then show ?thesis
    using assms(1-3) by (auto simp: inbox_defs list_all_iff)
qed

lemma inbox_ok_members:
  assumes "inbox_ok d" and "distinct (map (\<lambda>m. (mb_teamId m, mb_agentId m)) rows)"
    and "\<And>m. m \<in> set rows \<Longrightarrow> (mb_tenantId m, mb_teamId m) \<in> team_refs d \<and> (mb_tenantId m, mb_agentId m) \<in> agent_refs d"
  shows "inbox_ok (d\<lparr>teamMembers := rows\<rparr>)"
  using assms by (simp add: inbox_defs list_all_iff)

lemma inbox_ok_agentSkills:
  assumes "inbox_ok d" and "distinct (map (\<lambda>x. (as_skillId x, as_agentId x)) rows)"
    and "\<And>x. x \<in> set rows \<Longrightarrow> (as_tenantId x, as_skillId x) \<in> skill_refs d \<and> (as_tenantId x, as_agentId x) \<in> agent_refs d"
  shows "inbox_ok (d\<lparr>agentSkills := rows\<rparr>)"
  using assms by (simp add: inbox_defs list_all_iff)

lemma inbox_ok_requirements:
  assumes "inbox_ok d" and "distinct (map (\<lambda>x. (sr_conversationId x, sr_skillId x)) rows)"
    and "\<And>x. x \<in> set rows \<Longrightarrow> (sr_tenantId x, sr_skillId x) \<in> skill_refs d \<and> (sr_tenantId x, sr_conversationId x) \<in> conversation_refs d"
  shows "inbox_ok (d\<lparr>skillRequirements := rows\<rparr>)"
  using assms by (simp add: inbox_defs list_all_iff)

lemma inbox_ok_assignments:
  assumes "inbox_ok d" and "distinct (map ta_conversationId rows)"
    and "\<And>x. x \<in> set rows \<Longrightarrow> (ta_tenantId x, ta_teamId x) \<in> team_refs d \<and> (ta_tenantId x, ta_conversationId x) \<in> conversation_refs d"
  shows "inbox_ok (d\<lparr>teamAssignments := rows\<rparr>)"
  using assms by (simp add: inbox_defs list_all_iff)

lemma inbox_ok_notes [simp]: "inbox_ok (d\<lparr>conversationNotes := rows\<rparr>) = inbox_ok d"
  by (simp add: inbox_defs)

lemma inbox_ok_conversations:
  assumes "inbox_ok d" and "distinct (map v_id rows)"
    and "\<And>v. v \<in> set rows \<Longrightarrow> agent_ref_ok d v \<and> resolved_ok v"
    and "conversation_refs d \<subseteq> (\<lambda>v. (v_tenantId v, v_id v)) ` set rows"
  shows "inbox_ok (d\<lparr>conversations := rows\<rparr>)"
proof -
  have "conversation_refs d \<subseteq> conversation_refs (d\<lparr>conversations := rows\<rparr>)" using assms(4) by (simp add: conversation_refs_def)
  then show ?thesis
    using assms(1-3) by (auto simp: inbox_defs list_all_iff)
qed

lemma inbox_ok_updateMany:
  assumes "inbox_ok d" and "\<And>v. v_id (f v) = v_id v \<and> v_tenantId (f v) = v_tenantId v"
    and "\<And>v. v \<in> set (conversations d) \<Longrightarrow> p v \<Longrightarrow> agent_ref_ok d v \<Longrightarrow> resolved_ok v \<Longrightarrow> agent_ref_ok d (f v) \<and> resolved_ok (f v)"
  shows "inbox_ok (d\<lparr>conversations := updateMany p f (conversations d)\<rparr>)"
proof (rule inbox_ok_conversations [OF assms(1)])
  show "distinct (map v_id (updateMany p f (conversations d)))"
    using assms(1,2) by (simp add: map_updateMany inbox_defs)
  show "conversation_refs d \<subseteq> (\<lambda>v. (v_tenantId v, v_id v)) ` set (updateMany p f (conversations d))"
    using map_updateMany [of "\<lambda>v. (v_tenantId v, v_id v)" f p "conversations d"] assms(2)
    by (metis (no_types, lifting) conversation_refs_def list.set_map order_refl)
  show "agent_ref_ok d v \<and> resolved_ok v" if "v \<in> set (updateMany p f (conversations d))" for v
    using that assms(1,3) by (auto simp: set_updateMany inbox_defs list_all_iff)
qed

lemma inbox_ok_updateMany_same:
  assumes "inbox_ok d"
    and "\<And>v. v_id (f v) = v_id v \<and> v_tenantId (f v) = v_tenantId v \<and> v_assignedAgentId (f v) = v_assignedAgentId v \<and>
      (resolved_ok v \<longrightarrow> resolved_ok (f v))"
  shows "inbox_ok (d\<lparr>conversations := updateMany p f (conversations d)\<rparr>)"
  using assms(2) by (intro inbox_ok_updateMany [OF assms(1)]) (simp_all add: agent_ref_ok_def split: option.splits)

section \<open>Every operation keeps it\<close>

lemma inbox_ok_agentsD:
  assumes "inbox_ok d"
  shows "agents_unique (agents d)" "list_all (\<lambda>a. ag_id a \<noteq> [] \<and> clean_text (ag_name a)) (agents d)"
    "teams_unique (teams d)" "list_all (\<lambda>t. tm_id t \<noteq> [] \<and> clean_text (tm_name t)) (teams d)"
    "skills_unique (skills d)" "list_all (\<lambda>s. clean_text (sk_name s)) (skills d)"
    "distinct (map v_id (conversations d))"
  using assms by (simp_all add: inbox_defs)

lemma createAgent_ok:
  assumes "inbox_ok d" and "createAgent d p dto ctx newId now = Inr (r, d')" and "newId \<noteq> []"
  shows "inbox_ok d'"
proof -
  from assms(2,3) obtain e agent where d': "d' = add_audit e (d\<lparr>agents := agents d @ [agent]\<rparr>)"
    and "agents_unique (agents d @ [agent])" "ag_id agent \<noteq> []" "clean_text (ag_name agent)"
    by (auto simp: createAgent_def Let_def db_simps dest: requiredText_clean split: if_split_asm)
  then show ?thesis
    using inbox_ok_agentsD [OF assms(1)] by (auto intro!: inbox_ok_agents [OF assms(1)] simp: agent_refs_def)
qed

lemma updateAgent_effect:
  assumes "updateAgent d p k dto ctx now = Inr (r, d')"
  shows "\<exists>e name x y. d' = add_audit e (d\<lparr>agents := updateAgentRow k (agent_changes name x y dto now) (agents d)\<rparr>) \<and> agents_unique (updateAgentRow k (agent_changes name x y dto now) (agents d)) \<and>
    text_update (\<lambda>s. requiredText s ''Agent name'') (ua_name dto) = Inr name"
  using assms unfolding updateAgent_def Let_def by (auto simp: db_simps split: if_split_asm option.split_asm)

lemma updateAgent_ok:
  assumes "inbox_ok d" and "updateAgent d p k dto ctx now = Inr (r, d')"
  shows "inbox_ok d'"
proof -
  from updateAgent_effect [OF assms(2)] obtain e name x y where d': "d' = add_audit e (d\<lparr>agents := updateAgentRow k (agent_changes name x y dto now) (agents d)\<rparr>)"
    and u: "agents_unique (updateAgentRow k (agent_changes name x y dto now) (agents d))" and n: "text_update (\<lambda>s. requiredText s ''Agent name'') (ua_name dto) = Inr name" by blast
  have "list_all (\<lambda>a. ag_id a \<noteq> [] \<and> clean_text (ag_name a)) (updateAgentRow k (agent_changes name x y dto now) (agents d))"
    unfolding updateAgentRow_def using inbox_ok_agentsD(2) [OF assms(1)]
    by (rule list_all_updateMany) (simp add: agent_changes_def text_update_clean [OF n])
  moreover have "set (map (\<lambda>a. (ag_tenantId a, ag_id a)) (updateAgentRow k (agent_changes name x y dto now) (agents d))) = set (map (\<lambda>a. (ag_tenantId a, ag_id a)) (agents d))"
    unfolding updateAgentRow_def by (subst map_updateMany) (simp_all add: agent_changes_def)
  then have "agent_refs d \<subseteq> (\<lambda>a. (ag_tenantId a, ag_id a)) ` set (updateAgentRow k (agent_changes name x y dto now) (agents d))" by (simp add: agent_refs_def)
  ultimately show ?thesis using u by (simp add: d' inbox_ok_agents [OF assms(1)])
qed

lemma createTeam_ok:
  assumes "inbox_ok d" and "InboxTeamsService_createTeam d p dto ctx newId = Inr (r, d')" and "newId \<noteq> []"
  shows "inbox_ok d'"
proof -
  from assms(2,3) obtain e team where d': "d' = add_audit e (d\<lparr>teams := teams d @ [team]\<rparr>)"
    and "teams_unique (teams d @ [team])" "tm_id team \<noteq> []" "clean_text (tm_name team)"
    by (auto simp: InboxTeamsService_createTeam_def Let_def db_simps dest: requiredText_clean split: if_split_asm)
  then show ?thesis
    using inbox_ok_agentsD [OF assms(1)] by (auto intro!: inbox_ok_teams [OF assms(1)] simp: team_refs_def)
qed

lemma updateTeam_effect:
  assumes "InboxTeamsService_updateTeam d p k dto ctx = Inr (r, d')"
  shows "\<exists>e name x. d' = add_audit e (d\<lparr>teams := updateTeamRow k (team_changes name x dto) (teams d)\<rparr>) \<and> teams_unique (updateTeamRow k (team_changes name x dto) (teams d)) \<and>
    text_update (\<lambda>s. requiredText s ''Team name'') (ut_name dto) = Inr name"
  using assms unfolding InboxTeamsService_updateTeam_def Let_def by (auto simp: db_simps split: if_split_asm option.split_asm)

lemma updateTeam_ok:
  assumes "inbox_ok d" and "InboxTeamsService_updateTeam d p k dto ctx = Inr (r, d')"
  shows "inbox_ok d'"
proof -
  from updateTeam_effect [OF assms(2)] obtain e name x where d': "d' = add_audit e (d\<lparr>teams := updateTeamRow k (team_changes name x dto) (teams d)\<rparr>)"
    and u: "teams_unique (updateTeamRow k (team_changes name x dto) (teams d))" and n: "text_update (\<lambda>s. requiredText s ''Team name'') (ut_name dto) = Inr name" by blast
  have "list_all (\<lambda>t. tm_id t \<noteq> [] \<and> clean_text (tm_name t)) (updateTeamRow k (team_changes name x dto) (teams d))"
    unfolding updateTeamRow_def using inbox_ok_agentsD(4) [OF assms(1)]
    by (rule list_all_updateMany) (simp add: team_changes_def text_update_clean [OF n])
  moreover have "set (map (\<lambda>t. (tm_tenantId t, tm_id t)) (updateTeamRow k (team_changes name x dto) (teams d))) = set (map (\<lambda>t. (tm_tenantId t, tm_id t)) (teams d))"
    unfolding updateTeamRow_def by (subst map_updateMany) (simp_all add: team_changes_def)
  then have "team_refs d \<subseteq> (\<lambda>t. (tm_tenantId t, tm_id t)) ` set (updateTeamRow k (team_changes name x dto) (teams d))" by (simp add: team_refs_def)
  ultimately show ?thesis using u by (simp add: d' inbox_ok_teams [OF assms(1)])
qed

lemma createSkill_ok:
  assumes "inbox_ok d" and "InboxSkillsService_createSkill d p dto ctx newId = Inr (r, d')"
  shows "inbox_ok d'"
proof -
  from assms(2) obtain e skill where d': "d' = add_audit e (d\<lparr>skills := skills d @ [skill]\<rparr>)"
    and "skills_unique (skills d @ [skill])" "clean_text (sk_name skill)"
    by (auto simp: InboxSkillsService_createSkill_def Let_def db_simps dest: requiredText_clean split: if_split_asm)
  then show ?thesis
    using inbox_ok_agentsD [OF assms(1)] by (auto intro!: inbox_ok_skills [OF assms(1)] simp: skill_refs_def)
qed

lemma updateSkill_effect:
  assumes "InboxSkillsService_updateSkill d p k dto ctx = Inr (r, d')"
  shows "\<exists>e name x. d' = add_audit e (d\<lparr>skills := updateSkillRow k (skill_changes name x dto) (skills d)\<rparr>) \<and> skills_unique (updateSkillRow k (skill_changes name x dto) (skills d)) \<and>
    text_update (\<lambda>s. requiredText s ''Skill name'') (ul_name dto) = Inr name"
  using assms unfolding InboxSkillsService_updateSkill_def Let_def by (auto simp: db_simps split: if_split_asm option.split_asm)

lemma updateSkill_ok:
  assumes "inbox_ok d" and "InboxSkillsService_updateSkill d p k dto ctx = Inr (r, d')"
  shows "inbox_ok d'"
proof -
  from updateSkill_effect [OF assms(2)] obtain e name x where d': "d' = add_audit e (d\<lparr>skills := updateSkillRow k (skill_changes name x dto) (skills d)\<rparr>)"
    and u: "skills_unique (updateSkillRow k (skill_changes name x dto) (skills d))" and n: "text_update (\<lambda>s. requiredText s ''Skill name'') (ul_name dto) = Inr name" by blast
  have "list_all (\<lambda>s. clean_text (sk_name s)) (updateSkillRow k (skill_changes name x dto) (skills d))"
    unfolding updateSkillRow_def using inbox_ok_agentsD(6) [OF assms(1)]
    by (rule list_all_updateMany) (simp add: skill_changes_def text_update_clean [OF n])
  moreover have "set (map (\<lambda>t. (sk_tenantId t, sk_id t)) (updateSkillRow k (skill_changes name x dto) (skills d))) = set (map (\<lambda>t. (sk_tenantId t, sk_id t)) (skills d))"
    unfolding updateSkillRow_def by (subst map_updateMany) (simp_all add: skill_changes_def)
  then have "skill_refs d \<subseteq> (\<lambda>t. (sk_tenantId t, sk_id t)) ` set (updateSkillRow k (skill_changes name x dto) (skills d))" by (simp add: skill_refs_def)
  ultimately show ?thesis using u by (simp add: d' inbox_ok_skills [OF assms(1)])
qed

lemma distinct_map_filter: "distinct (map f xs) \<Longrightarrow> distinct (map f (filter P xs))"
  by (induction xs) auto

lemma refs_of_find:
  "findFirst (\<lambda>a. ag_id a = k \<and> ag_tenantId a = t) (agents d) = Some ag \<Longrightarrow> (t, k) \<in> agent_refs d"
  "findFirst (\<lambda>s. sk_id s = k \<and> sk_tenantId s = t) (skills d) = Some sk \<Longrightarrow> (t, k) \<in> skill_refs d"
  "findFirst (\<lambda>m. tm_id m = k \<and> tm_tenantId m = t) (teams d) = Some tm \<Longrightarrow> (t, k) \<in> team_refs d"
  "findFirst (\<lambda>v. v_id v = k \<and> v_tenantId v = t) (conversations d) = Some v \<Longrightarrow> (t, k) \<in> conversation_refs d"
  by (auto simp: agent_refs_def skill_refs_def team_refs_def conversation_refs_def dest!: findFirst_SomeD)

lemma addMember_ok:
  assumes "inbox_ok d" and "addMember_transaction d actor team a ctx now = Inr d'"
  shows "inbox_ok d'"
proof (cases "(team, a) \<in> set (map (\<lambda>m. (mb_teamId m, mb_agentId m)) (teamMembers d))")
  case True
  then have "d' = d" using assms(2)
    by (auto simp: addMember_transaction_def Let_def simp del: set_map split: if_split_asm option.split_asm)
  then show ?thesis using assms(1) by simp
next
  case False
  then have "\<exists>e. (ma_tenantId actor, team) \<in> team_refs d \<and> (ma_tenantId actor, a) \<in> agent_refs d \<and>
     d' = add_audit e (d\<lparr>teamMembers := teamMembers d @ [\<lparr>mb_tenantId = ma_tenantId actor, mb_teamId = team, mb_agentId = a, mb_createdAt = now\<rparr>]\<rparr>)"
    using assms(2) unfolding addMember_transaction_def Let_def
    by (auto simp: refs_of_find simp del: set_map split: if_split_asm option.split_asm)
  then show ?thesis
    using assms(1) False by (auto intro!: inbox_ok_members simp: inbox_defs list_all_iff)
qed

lemma removeMember_ok:
  assumes "inbox_ok d" and "removeMember_transaction d actor team a ctx = Inr d'"
  shows "inbox_ok d'"
proof -
  have "\<exists>e P. d' = d \<or> d' = add_audit e (d\<lparr>teamMembers := filter P (teamMembers d)\<rparr>)"
    using assms(2) unfolding removeMember_transaction_def Let_def by (auto split: if_split_asm option.split_asm)
  then show ?thesis
    using assms(1) by (auto intro!: inbox_ok_members distinct_map_filter simp: inbox_defs list_all_iff)
qed

lemma removeAgentSkill_ok:
  assumes "inbox_ok d" and "removeAgentSkill_transaction d actor skill a ctx = Inr d'"
  shows "inbox_ok d'"
proof -
  have "\<exists>e P. d' = d \<or> d' = add_audit e (d\<lparr>agentSkills := filter P (agentSkills d)\<rparr>)"
    using assms(2) unfolding removeAgentSkill_transaction_def Let_def by (auto split: if_split_asm option.split_asm)
  then show ?thesis
    using assms(1) by (auto intro!: inbox_ok_agentSkills distinct_map_filter simp: inbox_defs list_all_iff)
qed

lemma removeRequirement_ok:
  assumes "inbox_ok d" and "removeRequirement_transaction d actor k skill ctx = Inr d'"
  shows "inbox_ok d'"
proof -
  have "\<exists>e P. d' = d \<or> d' = add_audit e (d\<lparr>skillRequirements := filter P (skillRequirements d)\<rparr>)"
    using assms(2) unfolding removeRequirement_transaction_def Let_def by (auto split: if_split_asm option.split_asm)
  then show ?thesis
    using assms(1) by (auto intro!: inbox_ok_requirements distinct_map_filter simp: inbox_defs list_all_iff)
qed

lemma set_level_ok: "inbox_ok d \<Longrightarrow> inbox_ok (d\<lparr>agentSkills := updateMany P (set_level n) (agentSkills d)\<rparr>)"
  by (rule inbox_ok_agentSkills) (auto simp: map_updateMany set_updateMany set_level_def inbox_defs list_all_iff)

lemma assign_skill_ok:
  assumes "inbox_ok d" and "assign_skill d actor skill a level ctx now = Inr d'"
  shows "inbox_ok d'"
proof (cases "findFirst (agent_skill_is skill a) (agentSkills d) = None")
  case True
  then have "\<exists>e. (ma_tenantId actor, skill) \<in> skill_refs d \<and> (ma_tenantId actor, a) \<in> agent_refs d \<and>
     d' = add_audit e (d\<lparr>agentSkills := agentSkills d @ [\<lparr>as_tenantId = ma_tenantId actor, as_skillId = skill, as_agentId = a,
        as_level = level, as_createdAt = now\<rparr>]\<rparr>)"
    using assms(2) unfolding assign_skill_def Let_def by (auto simp: refs_of_find split: if_split_asm)
  then show ?thesis
    using assms(1) True by (auto intro!: inbox_ok_agentSkills simp: inbox_defs list_all_iff findFirst_None agent_skill_is_def)
next
  case False
  then show ?thesis using assms set_level_ok [OF assms(1)]
    unfolding assign_skill_def Let_def by (auto split: if_split_asm)
qed

lemma setAgentSkill_ok:
  assumes "inbox_ok d" and "setAgentSkill_transaction d0 d actor skill a level ctx now = Inr d'"
  shows "inbox_ok d'"
  using assms(2) assms(1) set_level_ok [OF assms(1)] assign_skill_ok [OF assms(1), of actor skill a level ctx now d']
  unfolding setAgentSkill_transaction_def Let_def by (auto split: if_split_asm option.split_asm)

lemma setRequirement_ok:
  assumes "inbox_ok d" and "setRequirement_transaction d actor k skill level ctx = Inr d'"
  shows "inbox_ok d'"
proof (cases "findFirst (requirement_is k skill) (skillRequirements d)")
  case None
  then have "\<exists>e. (ma_tenantId actor, skill) \<in> skill_refs d \<and> (ma_tenantId actor, k) \<in> conversation_refs d \<and>
     d' = add_audit e (d\<lparr>skillRequirements := skillRequirements d @ [\<lparr>sr_tenantId = ma_tenantId actor, sr_conversationId = k,
        sr_skillId = skill, sr_minLevel = level\<rparr>]\<rparr>)"
    using assms(2) unfolding setRequirement_transaction_def Let_def by (auto simp: refs_of_find split: if_split_asm option.split_asm)
  then show ?thesis
    using assms(1) None by (auto intro!: inbox_ok_requirements simp: inbox_defs list_all_iff findFirst_None requirement_is_def)
next
  case (Some x)
  have "inbox_ok (d\<lparr>skillRequirements := updateMany (requirement_is k skill) (\<lambda>x. x\<lparr>sr_minLevel := level\<rparr>) (skillRequirements d)\<rparr>)"
    using assms(1) by (intro inbox_ok_requirements) (auto simp: map_updateMany set_updateMany inbox_defs list_all_iff)
  then show ?thesis
    using Some assms unfolding setRequirement_transaction_def Let_def by (auto split: if_split_asm option.split_asm)
qed

section \<open>Admission\<close>

lemma skill_refs_requirement: "(sr_tenantId x, sr_skillId x) \<in> skill_refs d \<longleftrightarrow> requirement_skill d x \<noteq> None"
  by (auto simp: skill_refs_def requirement_skill_def findFirst_None image_iff simp del: not_None_eq) metis

lemma inbox_ok_tables:
  assumes "inbox_ok d"
  shows "team_tables_ok d" "skill_tables_ok d"
  using assms by (auto simp: inbox_defs team_tables_ok_def skill_tables_ok_def list_all_iff skill_refs_requirement)

lemma assigned_team_ref:
  assumes "inbox_ok d" and "assigned_team d v = Some team"
  shows "(v_tenantId v, team) \<in> team_refs d" and "team \<noteq> []"
proof -
  from assms(2) obtain a where "a \<in> set (teamAssignments d)" "ta_tenantId a = v_tenantId v" "ta_teamId a = team"
    by (auto simp: assigned_team_def dest: findFirst_SomeD)
  then show r: "(v_tenantId v, team) \<in> team_refs d" using assms(1) by (auto simp: inbox_defs list_all_iff)
  then show "team \<noteq> []" using inbox_ok_agentsD(4) [OF assms(1)] by (auto simp: team_refs_def list_all_iff)
qed

lemma assigned_agent_truthy:
  assumes "inbox_ok d" and "v \<in> set (conversations d)"
  shows "truthy_id (v_assignedAgentId v) \<longleftrightarrow> v_assignedAgentId v \<noteq> None"
proof -
  have "v_assignedAgentId v \<noteq> Some []"
  proof
    assume "v_assignedAgentId v = Some []"
    then have "(v_tenantId v, []) \<in> agent_refs d" using assms by (auto simp: inbox_defs list_all_iff agent_ref_ok_def)
    then show False using inbox_ok_agentsD(2) [OF assms(1)] by (auto simp: agent_refs_def list_all_iff)
  qed
  then show ?thesis by (simp add: truthy_id_def)
qed

lemma lockActive_Inr:
  "lockActiveAgentCapacity d t a msg = Inr c \<longleftrightarrow> (\<exists>g. findFirst (\<lambda>x. ag_id x = a \<and> ag_tenantId x = t \<and> ag_active x) (agents d) = Some g \<and>
     c = \<lparr>lc_agentId = ag_id g, lc_presenceStatus = ag_presenceStatus g, lc_maxConcurrentConversations = ag_maxConcurrentConversations g\<rparr>)"
  by (auto simp: lockActiveAgentCapacity_def split: option.split)

definition admitted :: "db \<Rightarrow> uuid \<Rightarrow> uuid \<Rightarrow> uuid \<Rightarrow> bool" where
  "admitted d t k a \<longleftrightarrow> requirements_active d t k \<and> (\<exists>g \<in> set (agents d). ag_id g = a \<and> admissible d t k g)"

lemma admittedI:
  assumes "lockActiveAgentCapacity d t a m1 = Inr c" and "assertAgentAvailableForConversation c m2 = Inr u"
    and "assertAgentMeetsConversationSkills d t k a m3 = Inr n" and "assertAgentHasConversationCapacity d t c m4 = Inr l"
    and "skill_tables_ok d"
  shows "admitted d t k a"
proof -
  from assms(1) obtain g where g: "findFirst (\<lambda>x. ag_id x = a \<and> ag_tenantId x = t \<and> ag_active x) (agents d) = Some g"
    and c: "c = \<lparr>lc_agentId = ag_id g, lc_presenceStatus = ag_presenceStatus g, lc_maxConcurrentConversations = ag_maxConcurrentConversations g\<rparr>"
    unfolding lockActive_Inr by blast
  have "has_room d g"
    using assms(4) findFirst_SomeD [OF g] unfolding c
    by (auto simp: assertAgentHasConversationCapacity_def Let_def has_room_def split: option.split_asm if_split_asm)
  moreover have "requirements_active d t k \<and> meets_requirements d t k a"
    using assms(3) by (simp add: assertAgentMeetsConversationSkills_spec [OF assms(5)] split: if_split_asm)
  ultimately show ?thesis
    using findFirst_SomeD [OF g] assms(2) unfolding c
    by (auto simp: admitted_def admissible_def assertAgentAvailableForConversation_def split: if_split_asm)
qed

lemma admitted_ref: "admitted d t k a \<Longrightarrow> (t, a) \<in> agent_refs d"
  by (auto simp: admitted_def admissible_def agent_refs_def)

definition of_team :: "db \<Rightarrow> uuid \<Rightarrow> conversation_row \<Rightarrow> uuid \<Rightarrow> bool" where
  "of_team d t v a \<longleftrightarrow> (\<forall>team. assigned_team d v = Some team \<longrightarrow> is_member d t team a)"

lemma claim_effect:
  assumes ok: "inbox_ok d" and "claimConversation d p k a ctx = Inr (r, d')"
  shows "d' = d \<or> (\<exists>e w. find_conversation d (ap_tenantId p) k = Inr w \<and> v_assignedAgentId w = None \<and>
     admitted d (ap_tenantId p) k a \<and> of_team d (ap_tenantId p) w a \<and>
     d' = add_audit e (d\<lparr>conversations := updateConversationRow k (set_agent (Some a)) (conversations d)\<rparr>))"
proof (cases "d' = d")
  case False
  from False assms(2) have "\<exists>w c u n l e. find_conversation d (ap_tenantId p) k = Inr w \<and> \<not> truthy_id (v_assignedAgentId w) \<and>
      lockActiveAgentCapacity d (ap_tenantId p) a ''Inbox agent is not active in this tenant'' = Inr c \<and>
      assertAgentAvailableForConversation c ''Inbox agent is not available for new conversations'' = Inr u \<and>
      (truthy_id (assigned_team d w) \<longrightarrow> is_member d (ap_tenantId p) (the (assigned_team d w)) a) \<and>
      assertAgentMeetsConversationSkills d (ap_tenantId p) k a ''Inbox agent does not satisfy conversation skill requirements'' = Inr n \<and>
      assertAgentHasConversationCapacity d (ap_tenantId p) c ''Inbox agent has no remaining conversation capacity'' = Inr l \<and>
      d' = add_audit e (d\<lparr>conversations := updateConversationRow k (set_agent (Some a)) (conversations d)\<rparr>)"
    unfolding claimConversation_def Let_def
    by (auto simp: db_simps write_agent_def assertAgentTeamMembership_def split: if_split_asm)
  then obtain w c u n l e where w: "find_conversation d (ap_tenantId p) k = Inr w" "\<not> truthy_id (v_assignedAgentId w)"
    and c: "lockActiveAgentCapacity d (ap_tenantId p) a ''Inbox agent is not active in this tenant'' = Inr c"
      "assertAgentAvailableForConversation c ''Inbox agent is not available for new conversations'' = Inr u"
      "assertAgentMeetsConversationSkills d (ap_tenantId p) k a ''Inbox agent does not satisfy conversation skill requirements'' = Inr n"
      "assertAgentHasConversationCapacity d (ap_tenantId p) c ''Inbox agent has no remaining conversation capacity'' = Inr l"
    and m: "truthy_id (assigned_team d w) \<longrightarrow> is_member d (ap_tenantId p) (the (assigned_team d w)) a"
    and d': "d' = add_audit e (d\<lparr>conversations := updateConversationRow k (set_agent (Some a)) (conversations d)\<rparr>)"
    by blast
  have "v_assignedAgentId w = None" using w find_conversationD [OF w(1)] assigned_agent_truthy [OF ok] by blast
  moreover have "of_team d (ap_tenantId p) w a"
    using m assigned_team_ref(2) [OF ok, of w] by (auto simp: of_team_def truthy_id_def)
  ultimately show ?thesis using w(1) d' admittedI [OF c inbox_ok_tables(2) [OF ok]] by blast
qed simp

lemma choose_agent_active: "skill_tables_ok d \<Longrightarrow> choose_agent d t k team = Inr c \<Longrightarrow> requirements_active d t k"
  by (auto simp: choose_agent_def Let_def filterAgentsByConversationSkills_spec split: if_split_asm)

lemma route_effect:
  assumes ok: "inbox_ok d" and "routeConversation d p k ctx = Inr (r, d')"
  shows "d' = d \<or> (\<exists>e w a. find_conversation d (ap_tenantId p) k = Inr w \<and> v_assignedAgentId w = None \<and>
     admitted d (ap_tenantId p) k a \<and> of_team d (ap_tenantId p) w a \<and>
     d' = add_audit e (d\<lparr>conversations := updateConversationRow k (set_agent (Some a)) (conversations d)\<rparr>))"
proof (cases "d' = d")
  case False
  let ?t = "ap_tenantId p"
  from False assms(2) have "\<exists>w c e. find_conversation d ?t k = Inr w \<and> \<not> truthy_id (v_assignedAgentId w) \<and> truthy_id (assigned_team d w) \<and>
      choose_agent d ?t k (the (assigned_team d w)) = Inr c \<and>
      d' = add_audit e (d\<lparr>conversations := updateConversationRow k (set_agent (Some (ch_agentId c))) (conversations d)\<rparr>)"
    unfolding routeConversation_def Let_def by (auto simp: db_simps write_agent_def split: if_split_asm)
  then obtain w c e where w: "find_conversation d ?t k = Inr w" "\<not> truthy_id (v_assignedAgentId w)" "truthy_id (assigned_team d w)"
    and c: "choose_agent d ?t k (the (assigned_team d w)) = Inr c"
    and d': "d' = add_audit e (d\<lparr>conversations := updateConversationRow k (set_agent (Some (ch_agentId c))) (conversations d)\<rparr>)" by blast
  note act = choose_agent_active [OF inbox_ok_tables(2) [OF ok] c]
  from choose_agent_spec [OF inbox_ok_tables [OF ok] act, of "the (assigned_team d w)"] c
  obtain a where a: "a \<in> set (eligible_agents d ?t k (the (assigned_team d w)))" "ch_agentId c = ag_id a" by auto
  then have "admitted d ?t k (ag_id a)" using act by (auto simp: admitted_def eligible_agents_def team_agents_def)
  moreover have "of_team d ?t w (ag_id a)" using a by (auto simp: of_team_def eligible_agents_def team_agents_def)
  moreover have "v_assignedAgentId w = None" using w find_conversationD [OF w(1)] assigned_agent_truthy [OF ok] by blast
  ultimately show ?thesis using w(1) d' a(2) by metis
qed simp

lemma conversation_tenant:
  assumes "inbox_ok d" and "v \<in> set (conversations d)" and "(t, v_id v) \<in> conversation_refs d"
  shows "v_tenantId v = t"
  using assms by (auto simp: inbox_defs conversation_refs_def distinct_map inj_on_def)

lemma set_agent_ok:
  assumes "inbox_ok d" and "(t, k) \<in> conversation_refs d" and "\<And>x. a = Some x \<Longrightarrow> (t, x) \<in> agent_refs d"
  shows "inbox_ok (d\<lparr>conversations := updateConversationRow k (set_agent a) (conversations d)\<rparr>)"
  unfolding updateConversationRow_def
proof (rule inbox_ok_updateMany [OF assms(1)])
  fix v assume v: "v \<in> set (conversations d)" "v_id v = k" "resolved_ok v"
  then have "v_tenantId v = t" using conversation_tenant [OF assms(1)] assms(2) by blast
  then show "agent_ref_ok d (set_agent a v) \<and> resolved_ok (set_agent a v)"
    using v assms(3) by (auto simp: agent_ref_ok_def set_agent_def resolved_ok_def split: option.split)
qed (simp add: set_agent_def)

lemma applySla_shape:
  "\<exists>p f. applyConversationTeamResponseSla d a now = d\<lparr>conversations := updateMany p f (conversations d)\<rparr> \<and>
     (\<forall>v. v_id (f v) = v_id v \<and> v_tenantId (f v) = v_tenantId v \<and> v_assignedAgentId (f v) = v_assignedAgentId v \<and>
        v_status (f v) = v_status v \<and> v_resolvedAt (f v) = v_resolvedAt v)"
proof -
  have none: "\<exists>p f. d = d\<lparr>conversations := updateMany p f (conversations d)\<rparr> \<and>
     (\<forall>v. v_id (f v) = v_id v \<and> v_tenantId (f v) = v_tenantId v \<and> v_assignedAgentId (f v) = v_assignedAgentId v \<and>
        v_status (f v) = v_status v \<and> v_resolvedAt (f v) = v_resolvedAt v)"
    by (rule exI [of _ "\<lambda>v. False"], rule exI [of _ "\<lambda>v. v"]) (simp add: updateMany_def)
  show ?thesis
  proof (cases "findFirst (\<lambda>tm. tm_tenantId tm = ta_tenantId a \<and> tm_id tm = ta_teamId a) (teams d)")
    case None
    then show ?thesis using none by (simp add: applyConversationTeamResponseSla_def)
  next
    case (Some tm)
    show ?thesis
    proof (cases "tm_responseSlaMinutes tm")
      case None
      with Some show ?thesis using none by (simp add: applyConversationTeamResponseSla_def)
    next
      case (Some m)
      with \<open>findFirst _ _ = Some tm\<close> show ?thesis
        by (simp only: applyConversationTeamResponseSla_def option.case) (intro exI conjI allI, rule refl, simp_all)
    qed
  qed
qed

lemma applySla_ok: "inbox_ok d \<Longrightarrow> inbox_ok (applyConversationTeamResponseSla d a now)"
proof -
  assume ok: "inbox_ok d"
  obtain p f where eq: "applyConversationTeamResponseSla d a now = d\<lparr>conversations := updateMany p f (conversations d)\<rparr>"
    and f: "\<And>v. v_id (f v) = v_id v \<and> v_tenantId (f v) = v_tenantId v \<and> v_assignedAgentId (f v) = v_assignedAgentId v \<and>
        v_status (f v) = v_status v \<and> v_resolvedAt (f v) = v_resolvedAt v"
    using applySla_shape [of d a now] by blast
  show ?thesis unfolding eq by (rule inbox_ok_updateMany_same [OF ok]) (simp add: f resolved_ok_def)
qed

lemma inbox_ok_assignmentsD:
  assumes "inbox_ok d"
  shows "distinct (map ta_conversationId (teamAssignments d))"
    and "b \<in> set (teamAssignments d) \<Longrightarrow> (ta_tenantId b, ta_teamId b) \<in> team_refs d \<and> (ta_tenantId b, ta_conversationId b) \<in> conversation_refs d"
  using assms by (auto simp: inbox_defs list_all_iff)

lemma conversation_refs_unique: "inbox_ok d \<Longrightarrow> (t, k) \<in> conversation_refs d \<Longrightarrow> (u, k) \<in> conversation_refs d \<Longrightarrow> t = u"
  by (auto simp: inbox_defs conversation_refs_def distinct_map inj_on_def)

lemma write_team_ok:
  assumes ok: "inbox_ok d" and k: "(t, k) \<in> conversation_refs d" and "\<And>x. team = Val x \<Longrightarrow> (t, x) \<in> team_refs d"
  shows "inbox_ok (write_team d t k team now)"
proof (cases team)
  case Null
  have "inbox_ok (d\<lparr>teamAssignments := filter P (teamAssignments d)\<rparr>)" for P
    using inbox_ok_assignmentsD [OF ok] by (intro inbox_ok_assignments [OF ok] distinct_map_filter) auto
  then show ?thesis using Null by (simp add: write_team_def)
next
  case (Val x)
  then have x: "(t, x) \<in> team_refs d" using assms(3) by simp
  show ?thesis
  proof (cases "findFirst (\<lambda>a. ta_conversationId a = k) (teamAssignments d)")
    case None
    have "inbox_ok (d\<lparr>teamAssignments := teamAssignments d @ [\<lparr>ta_tenantId = t, ta_conversationId = k, ta_teamId = x\<rparr>]\<rparr>)"
      using inbox_ok_assignmentsD [OF ok] None x k by (intro inbox_ok_assignments [OF ok]) (auto simp: findFirst_None)
    then show ?thesis using Val None by (simp add: write_team_def Let_def applySla_ok)
  next
    case (Some a)
    have "(ta_tenantId b, x) \<in> team_refs d" if "b \<in> set (teamAssignments d)" "ta_conversationId b = k" for b
      using inbox_ok_assignmentsD(2) [OF ok that(1)] that(2) conversation_refs_unique [OF ok k] x by auto
    then have "inbox_ok (d\<lparr>teamAssignments := updateMany (\<lambda>a. ta_conversationId a = k) (\<lambda>a. a\<lparr>ta_teamId := x\<rparr>) (teamAssignments d)\<rparr>)"
      using inbox_ok_assignmentsD [OF ok] by (intro inbox_ok_assignments [OF ok]) (auto simp: map_updateMany set_updateMany)
    then show ?thesis using Val Some by (simp add: write_team_def applySla_ok)
  qed
qed (simp add: write_team_def ok)

text \<open>What the team write leaves: the same agents, members, skills; the conversations keep their agent and status.\<close>

lemma write_team_frame:
  "\<exists>p f. conversations (write_team d t k team now) = updateMany p f (conversations d) \<and>
     (\<forall>v. v_id (f v) = v_id v \<and> v_tenantId (f v) = v_tenantId v \<and> v_assignedAgentId (f v) = v_assignedAgentId v \<and>
        v_status (f v) = v_status v \<and> v_resolvedAt (f v) = v_resolvedAt v)" (is ?c)
  "agents (write_team d t k team now) = agents d" "teamMembers (write_team d t k team now) = teamMembers d"
  "agent_refs (write_team d t k team now) = agent_refs d"
proof -
  have same: "\<exists>p f. conversations d = updateMany p f (conversations d) \<and>
     (\<forall>v. v_id (f v) = v_id v \<and> v_tenantId (f v) = v_tenantId v \<and> v_assignedAgentId (f v) = v_assignedAgentId v \<and>
        v_status (f v) = v_status v \<and> v_resolvedAt (f v) = v_resolvedAt v)"
    by (rule exI [of _ "\<lambda>v. False"], rule exI [of _ "\<lambda>v. v"]) (simp add: updateMany_def)
  have sla: "\<exists>p f. conversations (applyConversationTeamResponseSla d' a now) = updateMany p f (conversations d') \<and>
     (\<forall>v. v_id (f v) = v_id v \<and> v_tenantId (f v) = v_tenantId v \<and> v_assignedAgentId (f v) = v_assignedAgentId v \<and>
        v_status (f v) = v_status v \<and> v_resolvedAt (f v) = v_resolvedAt v)" for d' a
    using applySla_shape [of d' a now] by (auto; blast)
  show ?c using same sla [of "d\<lparr>teamAssignments := _\<rparr>"]
    by (simp add: write_team_def Let_def split: field.split option.split)
  have ag: "agents (applyConversationTeamResponseSla d' a now) = agents d' \<and> teamMembers (applyConversationTeamResponseSla d' a now) = teamMembers d'" for d' a
    by (simp add: applyConversationTeamResponseSla_def split: option.split)
  then show "agents (write_team d t k team now) = agents d" "teamMembers (write_team d t k team now) = teamMembers d"
    by (simp_all add: write_team_def Let_def split: field.split option.split)
  then show "agent_refs (write_team d t k team now) = agent_refs d" by (simp add: agent_refs_def)
qed

lemma assigned_team_write:
  assumes ok: "inbox_ok d" and k: "(v_tenantId v, v_id v) \<in> conversation_refs d"
  shows "assigned_team (write_team d (v_tenantId v) (v_id v) team now) v = set_nullable team (assigned_team d v)"
proof -
  have sla: "teamAssignments (applyConversationTeamResponseSla d' a now) = teamAssignments d'" for d' a
    by (simp add: applyConversationTeamResponseSla_def split: option.split)
  have tenant: "ta_tenantId a = v_tenantId v" if "a \<in> set (teamAssignments d)" "ta_conversationId a = v_id v" for a
    using inbox_ok_assignmentsD(2) [OF ok that(1)] that(2) conversation_refs_unique [OF ok _ k] by auto
  show ?thesis
  proof (cases team)
    case Undefined
    then show ?thesis by (simp add: write_team_def)
  next
    case Null
    then show ?thesis by (simp add: write_team_def assigned_team_def findFirst_None)
  next
    case (Val x)
    show ?thesis
    proof (cases "findFirst (\<lambda>a. ta_conversationId a = v_id v) (teamAssignments d)")
      case None
      then have "findFirst (\<lambda>a. ta_tenantId a = v_tenantId v \<and> ta_conversationId a = v_id v) (teamAssignments d) = None"
        by (auto simp: findFirst_None)
      then show ?thesis using Val None by (simp add: write_team_def Let_def assigned_team_def sla findFirst_append)
    next
      case (Some a)
      note a = findFirst_SomeD [OF Some]
      have "findFirst (\<lambda>b. ta_tenantId b = v_tenantId v \<and> ta_conversationId b = v_id v) (teamAssignments d) = Some a"
        using findFirst_key [OF inbox_ok_assignmentsD(1) [OF ok], of a "\<lambda>b. ta_tenantId b = v_tenantId v"] a tenant [of a] by (simp add: conj_commute)
      then show ?thesis using Val Some a
        by (simp add: write_team_def assigned_team_def sla findFirst_updateMany)
    qed
  qed
qed

definition admit_facts :: "db \<Rightarrow> uuid \<Rightarrow> update_conversation_dto \<Rightarrow> conversation_row \<Rightarrow> bool" where
  "admit_facts d t dto w \<longleftrightarrow>
     (\<forall>x. uc_assignedTeamId dto = Val x \<longrightarrow> (t, x) \<in> team_refs d) \<and>
     (\<forall>a. uc_assignedAgentId dto = Val a \<longrightarrow> (t, a) \<in> agent_refs d \<and> (v_assignedAgentId w \<noteq> Some a \<longrightarrow> admitted d t (v_id w) a)) \<and>
     (\<forall>a team. (is_defined (uc_assignedAgentId dto) \<or> is_defined (uc_assignedTeamId dto)) \<longrightarrow>
        set_nullable (uc_assignedAgentId dto) (v_assignedAgentId w) = Some a \<longrightarrow>
        set_nullable (uc_assignedTeamId dto) (assigned_team d w) = Some team \<longrightarrow> is_member d t team a)"

lemma admit_update_facts:
  assumes ok: "inbox_ok d" and w: "w \<in> set (conversations d)" and u: "admit_update d t dto w = Inr u"
    and ne: "uc_assignedAgentId dto \<noteq> Val []" "uc_assignedTeamId dto \<noteq> Val []"
  shows "admit_facts d t dto w"
  unfolding admit_facts_def
proof (intro conjI allI impI)
  fix x assume x: "uc_assignedTeamId dto = Val x"
  then have "findFirst (\<lambda>m. Some (tm_id m) = Some x \<and> tm_tenantId m = t \<and> tm_active m) (teams d) \<noteq> None"
    using u ne by (auto simp: admit_update_def Let_def db_simps truthy_id_def split: if_split_asm)
  then show "(t, x) \<in> team_refs d" by (auto simp: team_refs_def findFirst_None simp del: not_None_eq)
next
  fix a assume a: "uc_assignedAgentId dto = Val a"
  then show "(t, a) \<in> agent_refs d"
    using u ne by (auto simp: admit_update_def Let_def db_simps truthy_id_def lockActive_Inr agent_refs_def image_iff dest!: findFirst_SomeD
      split: if_split_asm)
  assume new: "v_assignedAgentId w \<noteq> Some a"
  from u a ne new obtain c x n l where "lockActiveAgentCapacity d t a ''Assigned inbox agent is not active in this tenant'' = Inr c"
    "assertAgentAvailableForConversation c ''Assigned inbox agent is not available for new conversations'' = Inr x"
    "assertAgentMeetsConversationSkills d t (v_id w) a ''Assigned inbox agent does not satisfy conversation skill requirements'' = Inr n"
    "assertAgentHasConversationCapacity d t c ''Assigned inbox agent has no remaining conversation capacity'' = Inr l"
    by (auto simp: admit_update_def Let_def db_simps truthy_id_def split: if_split_asm)
  then show "admitted d t (v_id w) a" using inbox_ok_tables(2) [OF ok] by (rule admittedI)
next
  fix a team
  assume "is_defined (uc_assignedAgentId dto) \<or> is_defined (uc_assignedTeamId dto)"
    and fa: "set_nullable (uc_assignedAgentId dto) (v_assignedAgentId w) = Some a"
    and ft: "set_nullable (uc_assignedTeamId dto) (assigned_team d w) = Some team"
  moreover have "a \<noteq> []" using fa ne(1) assigned_agent_truthy [OF ok w]
    by (cases "uc_assignedAgentId dto") (auto simp: truthy_id_def)
  moreover have "team \<noteq> []" using ft ne(2) assigned_team_ref(2) [OF ok, of w] by (cases "uc_assignedTeamId dto") auto
  ultimately show "is_member d t team a"
    using u by (auto simp: admit_update_def Let_def db_simps truthy_id_def assertAgentTeamMembership_def split: if_split_asm)
qed

lemma update_effect:
  assumes ok: "inbox_ok d" and up: "updateConversation d p k dto ctx now = Inr (r, d')"
  shows "\<exists>e w. find_conversation d (ap_tenantId p) k = Inr w \<and> admit_facts d (ap_tenantId p) dto w \<and> uc_status dto \<noteq> Null \<and>
     d' = add_audit e ((write_team d (ap_tenantId p) k (uc_assignedTeamId dto) now)
       \<lparr>conversations := updateConversationRow k (conversation_changes dto now) (conversations (write_team d (ap_tenantId p) k (uc_assignedTeamId dto) now))\<rparr>)"
proof -
  from up have "\<exists>w u. find_conversation d (ap_tenantId p) k = Inr w \<and> admit_update d (ap_tenantId p) dto w = Inr u \<and>
      write_update d (mutationActor (Inr p)) k dto ctx now = Inr (r, d')"
    by (auto simp: updateConversation_def Let_def db_simps split: if_split_asm)
  then obtain w u where w: "find_conversation d (ap_tenantId p) k = Inr w" "admit_update d (ap_tenantId p) dto w = Inr u"
    and wr: "write_update d (mutationActor (Inr p)) k dto ctx now = Inr (r, d')" by blast
  have ne: "uc_assignedAgentId dto \<noteq> Val []" "uc_assignedTeamId dto \<noteq> Val []" "uc_status dto \<noteq> Null"
    using wr by (auto simp: write_update_def split: if_split_asm)
  have "\<exists>e. d' = add_audit e ((write_team d (ap_tenantId p) k (uc_assignedTeamId dto) now)
       \<lparr>conversations := updateConversationRow k (conversation_changes dto now) (conversations (write_team d (ap_tenantId p) k (uc_assignedTeamId dto) now))\<rparr>)"
    using wr unfolding write_update_def Let_def by (auto split: if_split_asm option.split_asm)
  then show ?thesis using w(1) ne admit_update_facts [OF ok _ w(2)] find_conversationD [OF w(1)] by blast
qed

section \<open>Every step keeps the invariant\<close>

lemma find_conversation_ref: "find_conversation d t k = Inr w \<Longrightarrow> (t, k) \<in> conversation_refs d"
  by (auto simp: conversation_refs_def dest: find_conversationD)

lemma updateConversation_ok:
  assumes ok: "inbox_ok d" and "updateConversation d p k dto ctx now = Inr (r, d')"
  shows "inbox_ok d'"
proof -
  let ?t = "ap_tenantId p" let ?d = "write_team d ?t k (uc_assignedTeamId dto) now"
  from update_effect [OF assms] obtain e w where w: "find_conversation d ?t k = Inr w" and f: "admit_facts d ?t dto w" and st: "uc_status dto \<noteq> Null"
    and d': "d' = add_audit e (?d\<lparr>conversations := updateConversationRow k (conversation_changes dto now) (conversations ?d)\<rparr>)" by blast
  note k = find_conversation_ref [OF w]
  have ok': "inbox_ok ?d" using f by (intro write_team_ok [OF ok k]) (simp add: admit_facts_def)
  obtain q g where q: "conversations ?d = updateMany q g (conversations d)"
    and g: "\<And>v. v_id (g v) = v_id v \<and> v_tenantId (g v) = v_tenantId v"
    using write_team_frame(1) [of d ?t k "uc_assignedTeamId dto" now] by blast
  have k': "(?t, k) \<in> conversation_refs ?d"
  proof -
    have "set (map (\<lambda>v. (v_tenantId v, v_id v)) (conversations ?d)) = set (map (\<lambda>v. (v_tenantId v, v_id v)) (conversations d))"
      unfolding q by (subst map_updateMany) (simp_all add: g)
    then show ?thesis using k by (simp add: conversation_refs_def)
  qed
  have "inbox_ok (?d\<lparr>conversations := updateMany (\<lambda>v. v_id v = k) (conversation_changes dto now) (conversations ?d)\<rparr>)"
  proof (rule inbox_ok_updateMany [OF ok'])
    fix v assume v: "v \<in> set (conversations ?d)" "v_id v = k" "agent_ref_ok ?d v" "resolved_ok v"
    then have t: "v_tenantId v = ?t" using conversation_tenant [OF ok'] k' by blast
    have "(?t, a) \<in> agent_refs ?d" if "uc_assignedAgentId dto = Val a" for a
      using f that by (simp add: admit_facts_def write_team_frame(4))
    then have "agent_ref_ok ?d (conversation_changes dto now v)"
      using v(3) t by (cases "uc_assignedAgentId dto") (auto simp: agent_ref_ok_def conversation_changes_def split: option.splits)
    moreover have "resolved_ok (conversation_changes dto now v)"
      using v(4) st by (auto simp: resolved_ok_def conversation_changes_def split: field.splits ConversationStatus.splits)
    ultimately show "agent_ref_ok ?d (conversation_changes dto now v) \<and> resolved_ok (conversation_changes dto now v)" ..
  qed (simp add: conversation_changes_def)
  then show ?thesis by (simp add: d' updateConversationRow_def)
qed

lemma release_effect:
  assumes "releaseConversation d p k a ctx = Inr (r, d')"
  shows "d' = d \<or> (\<exists>e w. find_conversation d (ap_tenantId p) k = Inr w \<and>
     d' = add_audit e (d\<lparr>conversations := updateConversationRow k (set_agent None) (conversations d)\<rparr>))"
  using assms unfolding releaseConversation_def Let_def by (auto simp: db_simps write_agent_def split: if_split_asm)

lemma set_agent_admitted_ok:
  assumes "inbox_ok d" and "find_conversation d t k = Inr w" and "admitted d t k a"
  shows "inbox_ok (d\<lparr>conversations := updateConversationRow k (set_agent (Some a)) (conversations d)\<rparr>)"
  using assms by (intro set_agent_ok [OF _ find_conversation_ref]) (auto dest: admitted_ref)

lemma assignment_ok:
  assumes ok: "inbox_ok d"
  shows "claimConversation d p k a ctx = Inr (r, d') \<Longrightarrow> inbox_ok d'"
    and "routeConversation d p k ctx = Inr (r, d') \<Longrightarrow> inbox_ok d'"
    and "releaseConversation d p k a ctx = Inr (r, d') \<Longrightarrow> inbox_ok d'"
proof -
  assume "claimConversation d p k a ctx = Inr (r, d')"
  from claim_effect [OF ok this] show "inbox_ok d'"
    by (auto simp: ok dest: set_agent_admitted_ok [OF ok])
next
  assume "routeConversation d p k ctx = Inr (r, d')"
  from route_effect [OF ok this] show "inbox_ok d'"
    by (auto simp: ok dest: set_agent_admitted_ok [OF ok])
next
  assume "releaseConversation d p k a ctx = Inr (r, d')"
  from release_effect [OF this] show "inbox_ok d'"
    by (auto simp: ok intro: set_agent_ok [OF ok find_conversation_ref])
qed

lemma markRead_ok: "inbox_ok d \<Longrightarrow> markRead d p k = Inr (r, d') \<Longrightarrow> inbox_ok d'"
  by (auto simp: markRead_def db_simps updateConversationRow_def resolved_ok_def intro!: inbox_ok_updateMany_same)

lemma addNote_ok: "inbox_ok d \<Longrightarrow> addNote d p k text newId now = Inr (r, d') \<Longrightarrow> inbox_ok d'"
  by (auto simp: addNote_def db_simps Let_def)

lemma new_row_ok:
  assumes "inbox_ok d" and "v_id v \<notin> v_id ` set (conversations d)" and "v_assignedAgentId v = None" and "resolved_ok v"
  shows "inbox_ok (d\<lparr>conversations := conversations d @ [v]\<rparr>)"
  using assms by (intro inbox_ok_conversations [OF assms(1)]) (auto simp: inbox_defs list_all_iff agent_ref_ok_def conversation_refs_def)

lemma activity_ok:
  assumes ok: "inbox_ok d" and new: "newId \<notin> v_id ` set (conversations d)"
  shows "recordInbound d t s c at newId = (k, d') \<Longrightarrow> inbox_ok d'"
    and "recordOutbound d t s phone mt at newId = (k', d') \<Longrightarrow> inbox_ok d'"
proof -
  have u1: "inbox_ok (d\<lparr>conversations := updateMany P (inbound_update d at) (conversations d)\<rparr>)" for P
    by (rule inbox_ok_updateMany_same [OF ok]) (simp add: inbound_update_def Let_def resolved_ok_def)
  have u2: "inbox_ok (d\<lparr>conversations := updateMany P (outbound_update at) (conversations d)\<rparr>)" for P
    by (rule inbox_ok_updateMany_same [OF ok]) (simp add: outbound_update_def Let_def resolved_ok_def)
  have n: "inbox_ok (d\<lparr>conversations := conversations d @ [(new_conversation newId t s x at)\<lparr>v_unreadCount := 1, v_lastInboundAt := i\<rparr>]\<rparr>)"
    "inbox_ok (d\<lparr>conversations := conversations d @ [(new_conversation newId t s x at)\<lparr>v_lastOutboundAt := i\<rparr>]\<rparr>)" for x i
    by (rule new_row_ok [OF ok]; simp add: new new_conversation_def resolved_ok_def)+
  show "recordInbound d t s c at newId = (k, d') \<Longrightarrow> inbox_ok d'"
    using u1 n by (auto simp: recordInbound_def split: option.split_asm)
  show "recordOutbound d t s phone mt at newId = (k', d') \<Longrightarrow> inbox_ok d'"
    using u2 n ok by (auto simp: recordOutbound_def split: option.split_asm if_split_asm)
qed

lemma escalate_ok: "inbox_ok d \<Longrightarrow> escalateOverdue d locked now = (n, d') \<Longrightarrow> inbox_ok d'"
  by (auto simp: escalateOverdue_def Let_def resolved_ok_def intro!: inbox_ok_updateMany_same)

lemma transactions_ok:
  assumes ok: "inbox_ok d"
  shows "InboxTeamsService_addMember d p team a ctx now = Inr (r1, d') \<Longrightarrow> inbox_ok d'"
    and "InboxTeamsService_removeMember d p team a ctx = Inr (r2, d') \<Longrightarrow> inbox_ok d'"
    and "InboxSkillsService_setAgentSkill d0 d p skill a level ctx now = Inr (r3, d') \<Longrightarrow> inbox_ok d'"
    and "InboxSkillsService_removeAgentSkill d p skill a ctx = Inr (r4, d') \<Longrightarrow> inbox_ok d'"
    and "setRequirement d p k skill level ctx = Inr (r5, d') \<Longrightarrow> inbox_ok d'"
    and "removeRequirement d p k skill ctx = Inr (r6, d') \<Longrightarrow> inbox_ok d'"
  by (auto simp: InboxTeamsService_addMember_def InboxTeamsService_removeMember_def InboxSkillsService_setAgentSkill_def
    InboxSkillsService_removeAgentSkill_def setRequirement_def removeRequirement_def Let_def db_simps
    intro: addMember_ok [OF ok] removeMember_ok [OF ok] setAgentSkill_ok [OF ok] removeAgentSkill_ok [OF ok] setRequirement_ok [OF ok]
      removeRequirement_ok [OF ok])

lemma inbox_step_ok: "inbox_step d d' \<Longrightarrow> inbox_ok d \<Longrightarrow> inbox_ok d'"
proof (induction rule: inbox_step.induct)
qed (blast intro: createAgent_ok updateAgent_ok createTeam_ok updateTeam_ok createSkill_ok updateSkill_ok transactions_ok
  updateConversation_ok assignment_ok markRead_ok addNote_ok activity_ok escalate_ok)+

section \<open>Who holds a conversation\<close>

text \<open>Conversations outside \<open>ks\<close> keep their agent; a conversation that is new has none.\<close>

definition keeps_agents :: "uuid set \<Rightarrow> db \<Rightarrow> db \<Rightarrow> bool" where
  "keeps_agents ks d d' \<longleftrightarrow> (\<forall>v' \<in> set (conversations d'). v_id v' \<notin> ks \<longrightarrow> v_assignedAgentId v' \<noteq> None \<longrightarrow>
     (\<exists>v \<in> set (conversations d). v_id v = v_id v' \<and> v_tenantId v = v_tenantId v' \<and> v_assignedAgentId v = v_assignedAgentId v'))"

lemma keeps_agents_same: "conversations d' = conversations d \<Longrightarrow> keeps_agents ks d d'"
  by (auto simp: keeps_agents_def)

lemma keeps_agents_updateMany:
  assumes "conversations d' = updateMany p f (conversations d)"
    and "\<And>v. v \<in> set (conversations d) \<Longrightarrow> v_id (f v) = v_id v \<and> v_tenantId (f v) = v_tenantId v \<and> (v_id v \<notin> ks \<longrightarrow> p v \<longrightarrow> v_assignedAgentId (f v) = v_assignedAgentId v)"
  shows "keeps_agents ks d d'"
  using assms by (auto simp: keeps_agents_def set_updateMany)

lemma keeps_agents_snoc:
  "conversations d' = conversations d @ [v] \<Longrightarrow> v_assignedAgentId v = None \<Longrightarrow> keeps_agents ks d d'"
  by (auto simp: keeps_agents_def)

text \<open>Either no conversation gets a new agent, or exactly the conversation \<open>k\<close> gets \<open>a\<close>, who is admitted.\<close>

definition admission :: "db \<Rightarrow> db \<Rightarrow> bool" where
  "admission d d' \<longleftrightarrow> keeps_agents {} d d' \<or>
     (\<exists>t k a w. find_conversation d t k = Inr w \<and> v_assignedAgentId w \<noteq> Some a \<and> admitted d t k a \<and> keeps_agents {k} d d' \<and>
        (\<forall>v' \<in> set (conversations d'). v_id v' = k \<longrightarrow> v_tenantId v' = t \<and> v_assignedAgentId v' = Some a \<and>
           (\<forall>team. assigned_team d' v' = Some team \<longrightarrow> is_member d t team a)))"

lemma admission_set_agent:
  assumes ok: "inbox_ok d" and w: "find_conversation d t k = Inr w" "v_assignedAgentId w = None"
    and "admitted d t k a" and "of_team d t w a"
    and d': "d' = add_audit e (d\<lparr>conversations := updateConversationRow k (set_agent (Some a)) (conversations d)\<rparr>)"
  shows "admission d d'"
proof -
  have rows: "conversations d' = updateMany (\<lambda>v. v_id v = k) (set_agent (Some a)) (conversations d)"
    by (simp add: d' updateConversationRow_def)
  have w': "w \<in> set (conversations d)" "v_id w = k" "v_tenantId w = t" using find_conversationD [OF w(1)] by auto
  have uniq: "v = w" if "v \<in> set (conversations d)" "v_id v = k" for v
    using that w' ok by (auto simp: inbox_defs distinct_map inj_on_def)
  have "keeps_agents {k} d d'" using rows by (rule keeps_agents_updateMany) (simp add: set_agent_def)
  moreover have "v_tenantId v' = t \<and> v_assignedAgentId v' = Some a \<and> (\<forall>team. assigned_team d' v' = Some team \<longrightarrow> is_member d t team a)"
    if "v' \<in> set (conversations d')" "v_id v' = k" for v'
  proof -
    have "v' = set_agent (Some a) w" using that uniq by (auto simp: rows set_updateMany set_agent_def)
    then show ?thesis using w' assms(5) by (simp add: set_agent_def of_team_def assigned_team_def d')
  qed
  ultimately show ?thesis using w assms(4) unfolding admission_def by (intro disjI2 exI [of _ t] exI [of _ k] exI [of _ a] exI [of _ w]) auto
qed

lemma write_team_rows:
  assumes "v \<in> set (conversations (write_team d t k team now))"
  shows "\<exists>u \<in> set (conversations d). v_id v = v_id u \<and> v_tenantId v = v_tenantId u \<and> v_assignedAgentId v = v_assignedAgentId u \<and> v_status v = v_status u"
proof -
  obtain p f where "conversations (write_team d t k team now) = updateMany p f (conversations d)"
    and "\<And>v. v_id (f v) = v_id v \<and> v_tenantId (f v) = v_tenantId v \<and> v_assignedAgentId (f v) = v_assignedAgentId v \<and> v_status (f v) = v_status v"
    using write_team_frame(1) [of d t k team now] by blast
  then show ?thesis using assms by (auto simp: set_updateMany)
qed

lemma admission_update:
  assumes ok: "inbox_ok d" and up: "updateConversation d p k dto ctx now = Inr (r, d')"
  shows "admission d d'"
proof -
  let ?t = "ap_tenantId p" let ?d = "write_team d ?t k (uc_assignedTeamId dto) now"
  from update_effect [OF assms] obtain e w where w: "find_conversation d ?t k = Inr w" and f: "admit_facts d ?t dto w"
    and d': "d' = add_audit e (?d\<lparr>conversations := updateConversationRow k (conversation_changes dto now) (conversations ?d)\<rparr>)" by blast
  have w': "w \<in> set (conversations d)" "v_id w = k" "v_tenantId w = ?t" using find_conversationD [OF w] by auto
  have rows: "conversations d' = updateMany (\<lambda>v. v_id v = k) (conversation_changes dto now) (conversations ?d)"
    by (simp add: d' updateConversationRow_def)
  have uniq: "u = w" if "u \<in> set (conversations d)" "v_id u = k" for u
    using that w' ok by (auto simp: inbox_defs distinct_map inj_on_def)
  have row: "\<exists>u \<in> set (conversations d). v_id v' = v_id u \<and> v_tenantId v' = v_tenantId u \<and>
      v_assignedAgentId v' = (if v_id u = k then set_nullable (uc_assignedAgentId dto) (v_assignedAgentId u) else v_assignedAgentId u)"
    if "v' \<in> set (conversations d')" for v'
  proof -
    from that obtain x where "x \<in> set (conversations ?d)" "v' = (if v_id x = k then conversation_changes dto now x else x)"
      by (auto simp: rows set_updateMany)
    moreover from this write_team_rows [of x d ?t k "uc_assignedTeamId dto" now] obtain u where "u \<in> set (conversations d)"
      "v_id x = v_id u \<and> v_tenantId x = v_tenantId u \<and> v_assignedAgentId x = v_assignedAgentId u" by blast
    ultimately show ?thesis by (intro bexI [of _ u]) (auto simp: conversation_changes_def)
  qed
  have keep: "keeps_agents {k} d d'"
    unfolding keeps_agents_def
  proof (intro ballI impI)
    fix v' assume v': "v' \<in> set (conversations d')" and "v_id v' \<notin> {k}"
    moreover from row [OF v'] obtain u where "u \<in> set (conversations d)" "v_id v' = v_id u" "v_tenantId v' = v_tenantId u"
      "v_assignedAgentId v' = (if v_id u = k then set_nullable (uc_assignedAgentId dto) (v_assignedAgentId u) else v_assignedAgentId u)" by blast
    ultimately show "\<exists>v \<in> set (conversations d). v_id v = v_id v' \<and> v_tenantId v = v_tenantId v' \<and> v_assignedAgentId v = v_assignedAgentId v'"
      by (intro bexI [of _ u]) auto
  qed
  have at: "v_tenantId v' = ?t \<and> v_assignedAgentId v' = set_nullable (uc_assignedAgentId dto) (v_assignedAgentId w) \<and>
      assigned_team d' v' = set_nullable (uc_assignedTeamId dto) (assigned_team d w)"
    if "v' \<in> set (conversations d')" "v_id v' = k" for v'
  proof -
    from row [OF that(1)] obtain u where u: "u \<in> set (conversations d)" "v_id v' = v_id u" "v_tenantId v' = v_tenantId u"
      "v_assignedAgentId v' = (if v_id u = k then set_nullable (uc_assignedAgentId dto) (v_assignedAgentId u) else v_assignedAgentId u)" by blast
    have "u = w" using u(1,2) that(2) by (intro uniq) simp_all
    then have v': "v_tenantId v' = ?t" "v_assignedAgentId v' = set_nullable (uc_assignedAgentId dto) (v_assignedAgentId w)"
      using u w' by simp_all
    have "assigned_team d' v' = assigned_team ?d w" using v'(1) that(2) w' by (simp add: d' assigned_team_def)
    also have "\<dots> = set_nullable (uc_assignedTeamId dto) (assigned_team d w)"
      using assigned_team_write [OF ok, of w "uc_assignedTeamId dto" now] find_conversation_ref [OF w] w' by simp
    finally show ?thesis using v' by simp
  qed
  show ?thesis
  proof (cases "\<exists>a. uc_assignedAgentId dto = Val a \<and> v_assignedAgentId w \<noteq> Some a")
    case True
    then obtain a where a: "uc_assignedAgentId dto = Val a" "v_assignedAgentId w \<noteq> Some a" by blast
    then have "admitted d ?t k a" using f w' by (simp add: admit_facts_def)
    moreover have "v_tenantId v' = ?t \<and> v_assignedAgentId v' = Some a \<and> (\<forall>team. assigned_team d' v' = Some team \<longrightarrow> is_member d ?t team a)"
      if "v' \<in> set (conversations d')" "v_id v' = k" for v'
      using f at [OF that] a by (simp add: admit_facts_def)
    ultimately show ?thesis
      using w a(2) keep unfolding admission_def by blast
  next
    case False
    then have "set_nullable (uc_assignedAgentId dto) (v_assignedAgentId w) \<in> {None, v_assignedAgentId w}"
      by (cases "uc_assignedAgentId dto") auto
    then have here: "v_assignedAgentId v' \<in> {None, v_assignedAgentId w} \<and> v_tenantId v' = ?t" if "v' \<in> set (conversations d')" "v_id v' = k" for v'
      using at [OF that] by simp
    have "keeps_agents {} d d'"
      unfolding keeps_agents_def
    proof (intro ballI impI)
      fix v' assume v': "v' \<in> set (conversations d')" "v_assignedAgentId v' \<noteq> None"
      show "\<exists>v \<in> set (conversations d). v_id v = v_id v' \<and> v_tenantId v = v_tenantId v' \<and> v_assignedAgentId v = v_assignedAgentId v'"
      proof (cases "v_id v' = k")
        case True
        then show ?thesis using here [OF v'(1)] v'(2) w' by (intro bexI [of _ w]) auto
      next
        case False
        then show ?thesis using keep v' by (auto simp: keeps_agents_def)
      qed
    qed
    then show ?thesis by (simp add: admission_def)
  qed
qed

lemma transactions_frame:
  "addMember_transaction d actor team a ctx now = Inr d' \<Longrightarrow> conversations d' = conversations d"
  "removeMember_transaction d actor team a ctx = Inr d' \<Longrightarrow> conversations d' = conversations d"
  "assign_skill d actor skill a level ctx now = Inr d' \<Longrightarrow> conversations d' = conversations d"
  "removeAgentSkill_transaction d actor skill a ctx = Inr d' \<Longrightarrow> conversations d' = conversations d"
  "setRequirement_transaction d actor k skill level ctx = Inr d' \<Longrightarrow> conversations d' = conversations d"
  "removeRequirement_transaction d actor k skill ctx = Inr d' \<Longrightarrow> conversations d' = conversations d"
  by (auto simp: addMember_transaction_def removeMember_transaction_def assign_skill_def removeAgentSkill_transaction_def
    setRequirement_transaction_def removeRequirement_transaction_def Let_def split: option.split_asm if_split_asm)

lemma setAgentSkill_frame:
  "setAgentSkill_transaction d0 d actor skill a level ctx now = Inr d' \<Longrightarrow> conversations d' = conversations d"
  by (auto simp: setAgentSkill_transaction_def Let_def dest: transactions_frame split: option.split_asm if_split_asm)

lemma administration_frame:
  "createAgent d p dto1 ctx newId now = Inr (r1, d') \<Longrightarrow> conversations d' = conversations d"
  "updateAgent d p k dto2 ctx now = Inr (r1, d') \<Longrightarrow> conversations d' = conversations d"
  "InboxTeamsService_createTeam d p dto3 ctx newId = Inr (r2, d') \<Longrightarrow> conversations d' = conversations d"
  "InboxTeamsService_updateTeam d p k dto4 ctx = Inr (r2, d') \<Longrightarrow> conversations d' = conversations d"
  "InboxTeamsService_addMember d p team a ctx now = Inr (r3, d') \<Longrightarrow> conversations d' = conversations d"
  "InboxTeamsService_removeMember d p team a ctx = Inr (r3, d') \<Longrightarrow> conversations d' = conversations d"
  "InboxSkillsService_createSkill d p dto5 ctx newId = Inr (r4, d') \<Longrightarrow> conversations d' = conversations d"
  "InboxSkillsService_updateSkill d p k dto6 ctx = Inr (r4, d') \<Longrightarrow> conversations d' = conversations d"
  "InboxSkillsService_setAgentSkill d0 d p skill a level ctx now = Inr (r5, d') \<Longrightarrow> conversations d' = conversations d"
  "InboxSkillsService_removeAgentSkill d p skill a ctx = Inr (r5, d') \<Longrightarrow> conversations d' = conversations d"
  "setRequirement d p k skill level ctx = Inr (r6, d') \<Longrightarrow> conversations d' = conversations d"
  "removeRequirement d p k skill ctx = Inr (r6, d') \<Longrightarrow> conversations d' = conversations d"
  "addNote d p k text newId now = Inr (r7, d') \<Longrightarrow> conversations d' = conversations d"
  by (auto simp: createAgent_def InboxTeamsService_createTeam_def InboxSkillsService_createSkill_def InboxTeamsService_addMember_def
    InboxTeamsService_removeMember_def InboxSkillsService_setAgentSkill_def InboxSkillsService_removeAgentSkill_def setRequirement_def
    removeRequirement_def addNote_def Let_def db_simps
    dest!: updateAgent_effect updateTeam_effect updateSkill_effect dest: transactions_frame setAgentSkill_frame split: if_split_asm)

lemma inbox_step_admission:
  assumes "inbox_step d d'" and ok: "inbox_ok d"
  shows "admission d d'"
  using assms
proof (induction rule: inbox_step.induct)
  case (update_conversation d p k dto ctx now r d')
  then show ?case by (blast intro: admission_update)
next
  case (claim d p k a ctx r d')
  then show ?case using claim_effect [of d p k a ctx r d'] admission_set_agent keeps_agents_same [of d d "{}"] by (metis admission_def)
next
  case (route d p k ctx r d')
  then show ?case using route_effect [of d p k ctx r d'] admission_set_agent keeps_agents_same [of d d "{}"] by (metis admission_def)
next
  case (release d p k a ctx r d')
  have "conversations d' = conversations d \<or> conversations d' = updateMany (\<lambda>v. v_id v = k) (set_agent None) (conversations d)"
    using release_effect [OF release(1)] by (auto simp: updateConversationRow_def)
  then have "keeps_agents {} d d'" by (auto simp: keeps_agents_def set_updateMany set_agent_def)
  then show ?case by (simp add: admission_def)
next
  case (inbound d t s c at newId k d')
  then have "keeps_agents {} d d'"
    by (auto simp: keeps_agents_def recordInbound_def new_conversation_def inbound_update_def Let_def set_updateMany split: option.split_asm) blast+
  then show ?case by (simp add: admission_def)
next
  case (outbound d t s phone mt at newId k d')
  then have "keeps_agents {} d d'"
    by (auto simp: keeps_agents_def recordOutbound_def new_conversation_def outbound_update_def Let_def set_updateMany
      split: option.split_asm if_split_asm) blast+
  then show ?case by (simp add: admission_def)
next
  case (escalate d locked now n d')
  then have "keeps_agents {} d d'" by (auto simp: escalateOverdue_def Let_def intro!: keeps_agents_updateMany)
  then show ?case by (simp add: admission_def)
next
  case (mark_read d p k r d')
  then have "keeps_agents {} d d'" by (auto simp: markRead_def db_simps updateConversationRow_def intro!: keeps_agents_updateMany)
  then show ?case by (simp add: admission_def)
qed (simp_all add: admission_def keeps_agents_same administration_frame)

section \<open>Capacity\<close>

definition held :: "db \<Rightarrow> uuid \<Rightarrow> uuid \<Rightarrow> uuid set" where
  "held d t a = v_id ` {v \<in> set (conversations d). counts_for t a v}"

lemma agent_load_card:
  assumes "distinct (map v_id (conversations d))"
  shows "agent_load d t a = card (held d t a)"
proof -
  have "inj_on v_id {v \<in> set (conversations d). counts_for t a v}" using assms by (auto simp: distinct_map inj_on_def)
  then have "card (held d t a) = card (set (filter (counts_for t a) (conversations d)))" by (simp add: held_def card_image)
  also have "\<dots> = length (filter (counts_for t a) (conversations d))"
    using assms by (intro distinct_card) (simp add: distinct_map)
  also have "\<dots> = agent_load d t a" by (simp add: agent_load_def countWhere_def)
  finally show ?thesis ..
qed

text \<open>A resolved conversation of the agent is open again.\<close>

definition reopened :: "db \<Rightarrow> db \<Rightarrow> uuid \<Rightarrow> uuid \<Rightarrow> bool" where
  "reopened d d' t a \<longleftrightarrow> (\<exists>v \<in> set (conversations d). \<exists>v' \<in> set (conversations d'). v_id v' = v_id v \<and>
     v_tenantId v = t \<and> v_assignedAgentId v = Some a \<and> v_assignedAgentId v' = Some a \<and> v_status v = RESOLVED \<and> v_status v' \<noteq> RESOLVED)"

lemma held_kept:
  assumes "keeps_agents ks d d'" and "\<not> reopened d d' t a"
  shows "held d' t a \<subseteq> held d t a \<union> ks"
proof
  fix k assume "k \<in> held d' t a"
  then obtain v' where v': "v' \<in> set (conversations d')" "k = v_id v'" "v_tenantId v' = t" "v_assignedAgentId v' = Some a"
    "v_status v' \<noteq> RESOLVED" by (auto simp: held_def counts_for_def)
  show "k \<in> held d t a \<union> ks"
  proof (cases "k \<in> ks")
    case False
    then obtain v where v: "v \<in> set (conversations d)" "v_id v = v_id v'" "v_tenantId v = t" "v_assignedAgentId v = Some a"
      using assms(1) v' by (auto simp: keeps_agents_def)
    then have "v_status v \<noteq> RESOLVED" using assms(2) v' unfolding reopened_def by metis
    then have "counts_for t a v" using v by (cases "v_status v") (simp_all add: counts_for_def)
    then show ?thesis using v v'(2) unfolding held_def by (metis (mono_tags, lifting) UnI1 imageI mem_Collect_eq)
  qed simp
qed

lemma load_step:
  assumes ok: "inbox_ok d" and st: "inbox_step d d'" and g: "g \<in> set (agents d)" and "\<not> reopened d d' (ag_tenantId g) (ag_id g)"
  shows "agent_load d' (ag_tenantId g) (ag_id g) \<le> agent_load d (ag_tenantId g) (ag_id g) \<or>
    agent_load d' (ag_tenantId g) (ag_id g) \<le> Suc (agent_load d (ag_tenantId g) (ag_id g)) \<and> has_room d g"
proof -
  let ?t = "ag_tenantId g" let ?a = "ag_id g"
  note load = agent_load_card [OF inbox_ok_agentsD(7) [OF ok], of ?t ?a]
    agent_load_card [OF inbox_ok_agentsD(7) [OF inbox_step_ok [OF st ok]], of ?t ?a]
  have fin: "finite (held d ?t ?a)" by (simp add: held_def)
  have le: "agent_load d' ?t ?a \<le> agent_load d ?t ?a" if "held d' ?t ?a \<subseteq> held d ?t ?a"
    using that fin by (simp add: load card_mono)
  from inbox_step_admission [OF st ok] consider "keeps_agents {} d d'"
    | t k a where "admitted d t k a" "keeps_agents {k} d d'" "\<forall>v' \<in> set (conversations d'). v_id v' = k \<longrightarrow> v_tenantId v' = t \<and> v_assignedAgentId v' = Some a"
    unfolding admission_def by blast
  then show ?thesis
  proof cases
    case 1
    then show ?thesis using held_kept [OF 1 assms(4)] le by simp
  next
    case (2 t k a)
    have sub: "held d' ?t ?a \<subseteq> held d ?t ?a \<union> {k}" by (rule held_kept [OF 2(2) assms(4)])
    show ?thesis
    proof (cases "a = ?a")
      case True
      then have "has_room d g"
        using 2(1) agent_unique [OF inbox_ok_tables(1) [OF ok] _ g] by (auto simp: admitted_def admissible_def)
      moreover have "card (held d' ?t ?a) \<le> card (insert k (held d ?t ?a))" using sub fin by (intro card_mono) auto
      then have "agent_load d' ?t ?a \<le> Suc (agent_load d ?t ?a)" using card_insert_le_m1 [of "Suc (card (held d ?t ?a))" "held d ?t ?a" k]
        by (simp add: load)
      ultimately show ?thesis by simp
    next
      case False
      then have "k \<notin> held d' ?t ?a" using 2(3) by (auto simp: held_def counts_for_def)
      then show ?thesis using sub le by auto
    qed
  qed
qed

section \<open>Properties\<close>

text \<open>
  C27. Whatever the agents, the administrators and the messages do, in any order, the inbox tables keep their unique
  columns; every membership, skill level, requirement, team assignment and assigned agent refers to rows of the same
  tenant; names are trimmed and not blank; and a conversation has a time of resolution exactly when it is resolved.
\<close>
theorem inbox_reachable_ok:
  assumes "inbox_ok d" and "inbox_reachable d d'"
  shows "inbox_ok d'"
  using assms(2,1) by (induction rule: inbox_reachable.induct) (auto intro: inbox_step_ok)

text \<open>
  C16. The admission rule. Whenever a step gives a conversation an agent that did not hold it before, be it an
  administrator's update, a claim or automatic routing, that agent is active and available in the conversation's tenant,
  meets every skill the conversation requires, was below its limit, and is a member of the team the conversation
  is assigned to after the step.
\<close>
theorem new_assignment_admitted:
  assumes "inbox_ok d" and "inbox_step d d'" and "v' \<in> set (conversations d')" and "v_assignedAgentId v' = Some a"
    and "\<forall>v \<in> set (conversations d). v_id v = v_id v' \<longrightarrow> v_assignedAgentId v \<noteq> Some a"
  shows "\<exists>g \<in> set (agents d). ag_id g = a \<and> admissible d (v_tenantId v') (v_id v') g \<and>
     (\<forall>team. assigned_team d' v' = Some team \<longrightarrow> is_member d (v_tenantId v') team a)"
proof -
  from inbox_step_admission [OF assms(2,1)] consider "keeps_agents {} d d'"
    | t k b where "admitted d t k b" "keeps_agents {k} d d'" "\<forall>v' \<in> set (conversations d'). v_id v' = k \<longrightarrow>
        v_tenantId v' = t \<and> v_assignedAgentId v' = Some b \<and> (\<forall>team. assigned_team d' v' = Some team \<longrightarrow> is_member d t team b)"
    unfolding admission_def by blast
  then show ?thesis
  proof cases
    case 1
    then show ?thesis using assms(3-5) by (auto simp: keeps_agents_def)
  next
    case (2 t k b)
    then have "v_id v' = k" using assms(3-5) by (auto simp: keeps_agents_def)
    with 2 assms(3,4) show ?thesis by (auto simp: admitted_def)
  qed
qed

text \<open>
  An agent with a limit gets beyond it only by conversations that reopen. A step that raises an agent's number of
  open and pending conversations either leaves it within the agent's limit, or reopens a resolved conversation the agent
  already held.
\<close>
theorem limit_exceeded_only_by_reopening:
  assumes "inbox_ok d" and "inbox_step d d'" and "g \<in> set (agents d)" and "ag_maxConcurrentConversations g = Some n"
    and "agent_load d (ag_tenantId g) (ag_id g) < agent_load d' (ag_tenantId g) (ag_id g)"
  shows "agent_load d' (ag_tenantId g) (ag_id g) \<le> n \<or> reopened d d' (ag_tenantId g) (ag_id g)"
  using load_step [OF assms(1-3)] assms(4,5) by (auto simp: has_room_def)

section \<open>Witnesses\<close>

lemma sample_inbox_ok: "inbox_ok sample_inbox"
  by (simp add: sample_inbox_defs inbox_defs agents_unique_def teams_unique_def skills_unique_def team_refs_def agent_refs_def
    conversation_refs_def agent_ref_ok_def resolved_ok_def clean_text_def js_trim_def js_space_def)

lemma sample_inbox_step:
  "\<exists>d'. inbox_step sample_inbox d' \<and> conversations d' = [(sample_inbox_conversation ''v1'' ''c1'')\<lparr>v_assignedAgentId := Some ''a1''\<rparr>,
     (sample_inbox_conversation ''v2'' ''c2'')\<lparr>v_assignedAgentId := Some ''a2''\<rparr>]"
  using sample_inbox_route by (auto split: sum.split_asm intro: inbox_step.route)

theorem inbox_reachable_ok_witness: "\<exists>d'. inbox_step sample_inbox d' \<and> inbox_ok d'"
  using sample_inbox_step inbox_reachable_ok [OF sample_inbox_ok inbox_reachable.step [OF inbox_reachable.start]] by blast

theorem new_assignment_admitted_witness:
  "\<exists>d'. inbox_step sample_inbox d' \<and> (\<exists>g \<in> set (agents sample_inbox). ag_id g = ''a2'' \<and> admissible sample_inbox ''t'' ''v2'' g)"
proof -
  obtain d' where d': "inbox_step sample_inbox d'" "(sample_inbox_conversation ''v2'' ''c2'')\<lparr>v_assignedAgentId := Some ''a2''\<rparr> \<in> set (conversations d')"
    using sample_inbox_step by auto
  have "\<forall>v \<in> set (conversations sample_inbox). v_id v = v_id ((sample_inbox_conversation ''v2'' ''c2'')\<lparr>v_assignedAgentId := Some ''a2''\<rparr>) \<longrightarrow>
      v_assignedAgentId v \<noteq> Some ''a2''" by (simp add: sample_inbox_defs)
  from new_assignment_admitted [OF sample_inbox_ok d' _ this] d'(1) show ?thesis by (auto simp: sample_inbox_conversation_def new_conversation_def)
qed

theorem limit_exceeded_only_by_reopening_witness:
  "\<exists>d'. inbox_step sample_inbox d' \<and> (agent_load d' ''t'' ''a2'' \<le> 3 \<or> reopened sample_inbox d' ''t'' ''a2'')"
proof -
  obtain d' where d': "inbox_step sample_inbox d'" "conversations d' = [(sample_inbox_conversation ''v1'' ''c1'')\<lparr>v_assignedAgentId := Some ''a1''\<rparr>,
     (sample_inbox_conversation ''v2'' ''c2'')\<lparr>v_assignedAgentId := Some ''a2''\<rparr>]"
    using sample_inbox_step by blast
  have g: "sample_agent ''a2'' 3 \<in> set (agents sample_inbox)" "ag_maxConcurrentConversations (sample_agent ''a2'' 3) = Some 3"
    by (simp_all add: sample_inbox_defs)
  have "agent_load sample_inbox (ag_tenantId (sample_agent ''a2'' 3)) (ag_id (sample_agent ''a2'' 3)) <
      agent_load d' (ag_tenantId (sample_agent ''a2'' 3)) (ag_id (sample_agent ''a2'' 3))"
    by (simp add: agent_load_def d'(2)) (simp add: sample_inbox_defs countWhere_def counts_for_def)
  from limit_exceeded_only_by_reopening [OF sample_inbox_ok d'(1) g this] d'(1) show ?thesis by (auto simp: sample_agent_def)
qed

end
