(* ===== verification/Paging.thy ===== *)
theory Paging
  imports Store "HOL-Library.Product_Lexorder" "HOL-Library.List_Lexorder" "HOL-Library.Char_ord"
begin

text \<open>
  The pages of a listing. Every listing method of the services reads one row more than its limit, in a total order that
  ends in the row's id, from the cursor on; it returns the rows up to the limit and, when there was one more, the id of
  the last one as the next cursor. The locale \<open>paged_list\<close> states what a listing promises, and its theorem is what
  clients rely on: following the cursors visits every row once, in order, and ends.
\<close>

section \<open>Queries with a cursor\<close>

datatype direction = Asc | Desc

text \<open>\<open>orderBy\<close>; the key is the list of columns, as a tuple.\<close>

definition arrange :: "direction \<Rightarrow> ('r \<Rightarrow> 'k :: linorder) \<Rightarrow> 'r list \<Rightarrow> 'r list" where
  "arrange dir key rows = (case dir of Asc \<Rightarrow> sort_key key rows | Desc \<Rightarrow> rev (sort_key key rows))"

definition at_or_after :: "direction \<Rightarrow> 'k :: linorder \<Rightarrow> 'k \<Rightarrow> bool" where
  "at_or_after dir c k = (case dir of Asc \<Rightarrow> c \<le> k | Desc \<Rightarrow> k \<le> c)"

text \<open>
  \<open>findMany\<close> with \<open>orderBy\<close>, \<open>take\<close> and, given a cursor, \<open>cursor\<close> and \<open>skip: 1\<close>: the matching rows from the
  position of the cursor's row on, without the first.
\<close>

definition findManyFrom :: "direction \<Rightarrow> ('r \<Rightarrow> 'k :: linorder) \<Rightarrow> 'r list \<Rightarrow> 'r option \<Rightarrow> nat \<Rightarrow> 'r list" where
  "findManyFrom dir key matching cursor n =
     (case cursor of
        None \<Rightarrow> take n (arrange dir key matching)
      | Some c \<Rightarrow> take n (drop 1 (filter (\<lambda>r. at_or_after dir (key c) (key r)) (arrange dir key matching))))"

text \<open>\<open>hasMore\<close>, \<open>items\<close> and \<open>nextCursor\<close> from the rows read.\<close>

definition page_of :: "('r \<Rightarrow> uuid) \<Rightarrow> nat \<Rightarrow> 'r list \<Rightarrow> 'r list \<times> uuid option" where
  "page_of rid limit rows =
     (let hasMore = length rows > limit; items = (if hasMore then take limit rows else rows)
      in (items, if hasMore then (case rev items of [] \<Rightarrow> None | r # _ \<Rightarrow> Some (rid r)) else None))"

section \<open>Following the cursors\<close>

text \<open>A client that asks for page after page; \<open>None\<close> when the fuel ends first.\<close>

fun walk_pages :: "(uuid option \<Rightarrow> 'e + 'r list \<times> uuid option) \<Rightarrow> nat \<Rightarrow> uuid option \<Rightarrow> ('e + 'r list) option" where
  "walk_pages page 0 cursor = None"
| "walk_pages page (Suc fuel) cursor =
     (case page cursor of
        Inl e \<Rightarrow> Some (Inl e)
      | Inr (items, nextCursor) \<Rightarrow>
          (case nextCursor of
             None \<Rightarrow> Some (Inr items)
           | Some c \<Rightarrow> map_option (map_sum id (\<lambda>rest. items @ rest)) (walk_pages page fuel (Some c))))"

lemma page_of_short: "length rows \<le> limit \<Longrightarrow> page_of rid limit rows = (rows, None)"
  by (simp add: page_of_def)

lemma page_of_long:
  assumes "limit < length rows" and "0 < limit"
  shows "page_of rid limit (take (Suc limit) rows) = (take limit rows, Some (rid (rows ! (limit - 1))))"
proof -
  have "rev (take limit rows) = rows ! (limit - 1) # rev (take (limit - 1) rows)"
    using assms take_Suc_conv_app_nth [of "limit - 1" rows] by simp
  then show ?thesis using assms by (simp add: page_of_def min_def)
qed

locale paged_list =
  fixes rid :: "'r \<Rightarrow> uuid"
    and page :: "uuid option \<Rightarrow> nat \<Rightarrow> error + 'r list \<times> uuid option"
    and rows :: "'r list"
    and table_ok :: bool
    and request_ok :: "nat \<Rightarrow> bool"
  assumes first_page: "request_ok n \<Longrightarrow> page None n = Inr (page_of rid n (take (Suc n) rows))"
    and next_page: "request_ok n \<Longrightarrow> table_ok \<Longrightarrow> rows = xs @ r # ys \<Longrightarrow> page (Some (rid r)) n = Inr (page_of rid n (take (Suc n) ys))"
begin

lemma walk_from:
  assumes "request_ok n" and "table_ok" and "0 < n" and "length rest < fuel"
    and "cursor = None \<and> rest = rows \<or> (\<exists>xs r. rows = xs @ r # rest \<and> cursor = Some (rid r))"
  shows "walk_pages (\<lambda>c. page c n) fuel cursor = Some (Inr rest)"
  using assms(4,5)
proof (induction fuel arbitrary: cursor rest)
  case (Suc fuel)
  have here: "page cursor n = Inr (page_of rid n (take (Suc n) rest))"
    using Suc.prems(2) first_page [OF assms(1)] next_page [OF assms(1,2)] by auto
  show ?case
  proof (cases "length rest \<le> n")
    case True
    then show ?thesis by (simp add: here page_of_short)
  next
    case False
    then have "page cursor n = Inr (take n rest, Some (rid (rest ! (n - 1))))"
      using assms(3) by (simp add: here page_of_long)
    moreover have split: "rest = take (n - 1) rest @ rest ! (n - 1) # drop n rest"
      using False assms(3) id_take_nth_drop [of "n - 1" rest] by simp
    have "walk_pages (\<lambda>c. page c n) fuel (Some (rid (rest ! (n - 1)))) = Some (Inr (drop n rest))"
    proof (rule Suc.IH)
      show "length (drop n rest) < fuel" using Suc.prems(1) assms(3) False by simp
      obtain pre where "rows = pre @ rest" using Suc.prems(2) by (metis append.assoc append_Cons append_Nil)
      then have "rows = (pre @ take (n - 1) rest) @ rest ! (n - 1) # drop n rest" using split by simp
      then show "Some (rid (rest ! (n - 1))) = None \<and> drop n rest = rows \<or>
          (\<exists>xs r. rows = xs @ r # drop n rest \<and> Some (rid (rest ! (n - 1))) = Some (rid r))" by blast
    qed
    ultimately show ?thesis by simp
  qed
qed simp

theorem walk_complete:
  "request_ok n \<Longrightarrow> table_ok \<Longrightarrow> 0 < n \<Longrightarrow> walk_pages (\<lambda>c. page c n) (Suc (length rows)) None = Some (Inr rows)"
  by (rule walk_from) simp_all

end

section \<open>The tail after a cursor\<close>

lemma strictly_sorted_tail:
  assumes "sorted (map key (xs @ r # ys))" and "distinct (map key (xs @ r # ys))"
  shows "filter (\<lambda>x. key r \<le> key x) (xs @ r # ys) = r # ys"
    and "filter (\<lambda>x. key x \<le> key r) (xs @ r # ys) = xs @ [r]"
proof -
  have lt: "key x < key r" if "x \<in> set xs" for x
    using assms that by (auto simp: sorted_append less_le image_iff)
  have gt: "key r < key y" if "y \<in> set ys" for y
    using assms that by (auto simp: sorted_append less_le image_iff)
  have "filter (\<lambda>x. key r \<le> key x) xs = []" "filter (\<lambda>x. key r \<le> key x) ys = ys"
    "filter (\<lambda>x. key x \<le> key r) xs = xs" "filter (\<lambda>x. key x \<le> key r) ys = []"
    using lt gt by (auto simp: filter_empty_conv filter_id_conv not_le dest: less_imp_le)
  then show "filter (\<lambda>x. key r \<le> key x) (xs @ r # ys) = r # ys" "filter (\<lambda>x. key x \<le> key r) (xs @ r # ys) = xs @ [r]"
    by simp_all
qed

lemma arrange_tail:
  assumes "arrange dir key matching = xs @ r # ys" and "distinct (map key matching)"
  shows "filter (\<lambda>x. at_or_after dir (key r) (key x)) (arrange dir key matching) = r # ys"
proof (cases dir)
  case Asc
  then have s: "sort_key key matching = xs @ r # ys" using assms(1) by (simp add: arrange_def)
  have "sorted (map key (xs @ r # ys))" "distinct (map key (xs @ r # ys))"
    unfolding s [symmetric] using assms(2) by (simp_all add: distinct_map)
  from strictly_sorted_tail(1) [OF this] show ?thesis using Asc by (simp add: arrange_def at_or_after_def s)
next
  case Desc
  then have s: "sort_key key matching = rev ys @ r # rev xs" using assms(1)
    by (metis (no_types, lifting) append.assoc append_Cons append_Nil arrange_def direction.simps(4) rev.simps(2) rev_append rev_rev_ident)
  have "sorted (map key (rev ys @ r # rev xs))" "distinct (map key (rev ys @ r # rev xs))"
    unfolding s [symmetric] using assms(2) by (simp_all add: distinct_map)
  from strictly_sorted_tail(2) [OF this] have "filter (\<lambda>x. key x \<le> key r) (sort_key key matching) = rev ys @ [r]" by (simp only: s)
  then have "filter (\<lambda>x. key x \<le> key r) (rev (sort_key key matching)) = r # ys" by (simp only: rev_filter [symmetric]) simp
  then show ?thesis using Desc by (simp add: arrange_def at_or_after_def)
qed

lemma set_arrange [simp]: "set (arrange dir key rows) = set rows"
  by (cases dir) (simp_all add: arrange_def)

lemma findManyFrom_tail:
  assumes "arrange dir key matching = xs @ r # ys" and "distinct (map key matching)"
  shows "findManyFrom dir key matching (Some r) n = take n ys"
  using arrange_tail [OF assms] by (simp add: findManyFrom_def)

lemma findManyFrom_first: "findManyFrom dir key matching None n = take n (arrange dir key matching)"
  by (simp add: findManyFrom_def)

section \<open>The common shape of a listing\<close>

text \<open>
  The cursor, when it is given, must be a row the caller may see; then the page from it on. \<open>visible\<close> is the
  condition of the first query, \<open>wanted\<close> that of the second; the order is by a time and the id.
\<close>

definition cursor_list ::
  "direction \<Rightarrow> ('r \<Rightarrow> time) \<Rightarrow> ('r \<Rightarrow> uuid) \<Rightarrow> ('r \<Rightarrow> bool) \<Rightarrow> string \<Rightarrow> ('r \<Rightarrow> bool) \<Rightarrow> 'r list \<Rightarrow>
     uuid option \<Rightarrow> nat \<Rightarrow> error + 'r list \<times> uuid option" where
  "cursor_list dir time rid visible message wanted table cursor limit =
     (let read = (\<lambda>c. page_of rid limit (findManyFrom dir (\<lambda>r. (time r, rid r)) (filter wanted table) c (limit + 1)))
      in if cursor = None \<or> cursor = Some [] then Inr (read None)
         else case findFirst (\<lambda>r. rid r = the cursor \<and> visible r) table of
                None \<Rightarrow> Inl (BadRequest message)
              | Some r \<Rightarrow> Inr (read (Some r)))"

definition listed :: "direction \<Rightarrow> ('r \<Rightarrow> time) \<Rightarrow> ('r \<Rightarrow> uuid) \<Rightarrow> ('r \<Rightarrow> bool) \<Rightarrow> 'r list \<Rightarrow> 'r list" where
  "listed dir time rid wanted table = arrange dir (\<lambda>r. (time r, rid r)) (filter wanted table)"

definition ids_ok :: "('r \<Rightarrow> uuid) \<Rightarrow> 'r list \<Rightarrow> bool" where
  "ids_ok rid table \<longleftrightarrow> distinct (map rid table) \<and> list_all (\<lambda>r. rid r \<noteq> []) table"

lemma cursor_list_first:
  "cursor_list dir time rid visible m wanted table None n = Inr (page_of rid n (take (Suc n) (listed dir time rid wanted table)))"
  by (simp add: cursor_list_def findManyFrom_first listed_def)

lemma cursor_list_next:
  assumes ok: "ids_ok rid table" and l: "listed dir time rid wanted table = xs @ r # ys" and "\<And>r. wanted r \<Longrightarrow> visible r"
  shows "cursor_list dir time rid visible m wanted table (Some (rid r)) n = Inr (page_of rid n (take (Suc n) ys))"
proof -
  have "r \<in> set (listed dir time rid wanted table)" unfolding l by simp
  then have r: "r \<in> set table" "wanted r" by (auto simp: listed_def)
  have f: "findFirst (\<lambda>x. rid x = rid r \<and> visible x) table = Some r"
    using ok r assms(3) by (intro findFirst_key) (auto simp: ids_ok_def)
  have "distinct (map (\<lambda>r. (time r, rid r)) (filter wanted table))"
    using ok by (auto simp: ids_ok_def distinct_map inj_on_def)
  then have "findManyFrom dir (\<lambda>r. (time r, rid r)) (filter wanted table) (Some r) (Suc n) = take (Suc n) ys"
    using l by (intro findManyFrom_tail) (simp_all add: listed_def)
  then show ?thesis using f ok r by (simp add: cursor_list_def ids_ok_def list_all_iff)
qed

end
