(* ===== verification/Listings.thy ===== *)
theory Listings
  imports Paging Inbox Campaigns Messages
begin

text \<open>
  The listing methods of the services that page with a cursor: conversations, messages of a conversation and notes
  (src/src/inbox), messages (src/src/messages), campaigns and their recipients (src/src/campaigns). Each is an
  instance of the locale \<open>paged_list\<close>: following the cursors gives exactly the rows that match, in order. The
  relations the queries include in each item are left out.
\<close>

text \<open>\<open>...(f ? { column: f } : {})\<close>\<close>

definition wants :: "'a option \<Rightarrow> 'a \<Rightarrow> bool" where
  "wants f v \<longleftrightarrow> (case f of None \<Rightarrow> True | Some x \<Rightarrow> v = x)"

definition wants_text :: "string option \<Rightarrow> string option \<Rightarrow> bool" where
  "wants_text f v \<longleftrightarrow> (case f of None \<Rightarrow> True | Some x \<Rightarrow> x = [] \<or> v = Some x)"

section \<open>Conversations\<close>

record list_conversations_query =
  lq_status :: "ConversationStatus option"
  lq_priority :: "ConversationPriority option"
  lq_assignedAgentId :: "string option"
  lq_unassigned :: bool
  lq_assignedTeamId :: "string option"
  lq_unassignedTeam :: bool
  lq_senderId :: "string option"
  lq_contactId :: "string option"

definition conversation_wanted :: "db \<Rightarrow> uuid \<Rightarrow> list_conversations_query \<Rightarrow> conversation_row \<Rightarrow> bool" where
  "conversation_wanted d tenantId q v \<longleftrightarrow>
     v_tenantId v = tenantId \<and> wants (lq_status q) (v_status v) \<and> wants (lq_priority q) (v_priority v) \<and>
     (if lq_unassigned q then v_assignedAgentId v = None else wants_text (lq_assignedAgentId q) (v_assignedAgentId v)) \<and>
     (if lq_unassignedTeam q then assigned_team d v = None else wants_text (lq_assignedTeamId q) (assigned_team d v)) \<and>
     wants_text (lq_senderId q) (Some (v_senderId v)) \<and> wants_text (lq_contactId q) (Some (v_contactId v))"

definition query_conflict :: "list_conversations_query \<Rightarrow> string option" where
  "query_conflict q =
     (if lq_unassigned q \<and> truthy_id (lq_assignedAgentId q) then Some ''assignedAgentId cannot be combined with unassigned=true''
      else if lq_unassignedTeam q \<and> truthy_id (lq_assignedTeamId q) then Some ''assignedTeamId cannot be combined with unassignedTeam=true''
      else None)"

definition listConversations ::
  "db \<Rightarrow> uuid \<Rightarrow> list_conversations_query \<Rightarrow> uuid option \<Rightarrow> nat \<Rightarrow> error + conversation_row list \<times> uuid option" where
  "listConversations d tenantId q cursor limit =
     (case query_conflict q of
        Some m \<Rightarrow> Inl (BadRequest m)
      | None \<Rightarrow> cursor_list Desc v_lastMessageAt v_id (\<lambda>v. v_tenantId v = tenantId) ''Conversation cursor is invalid for this tenant''
          (conversation_wanted d tenantId q) (conversations d) cursor limit)"

lemma conversation_wanted_visible: "conversation_wanted d t q v \<Longrightarrow> v_tenantId v = t"
  by (simp add: conversation_wanted_def)

interpretation conversation_pages: paged_list v_id "listConversations d tenantId q"
    "listed Desc v_lastMessageAt v_id (conversation_wanted d tenantId q) (conversations d)"
    "ids_ok v_id (conversations d)" "\<lambda>n. query_conflict q = None"
  by unfold_locales (auto simp: listConversations_def cursor_list_first intro!: cursor_list_next conversation_wanted_visible)

section \<open>Messages of a conversation, and its notes\<close>

definition listMessages :: "db \<Rightarrow> uuid \<Rightarrow> uuid \<Rightarrow> uuid option \<Rightarrow> nat \<Rightarrow> error + message_row list \<times> uuid option" where
  "listMessages d tenantId conversationId cursor limit =
     bindE (find_conversation d tenantId conversationId) (\<lambda>_.
       let mine = (\<lambda>m. m_tenantId m = Some tenantId \<and> m_conversationId m = Some conversationId)
       in cursor_list Desc m_createdAt m_id mine ''Message cursor is invalid for this conversation'' mine (messages d) cursor limit)"

definition list_notes :: "db \<Rightarrow> uuid \<Rightarrow> uuid \<Rightarrow> uuid option \<Rightarrow> nat \<Rightarrow> error + note_row list \<times> uuid option" where
  "list_notes d tenantId conversationId cursor limit =
     (if limit < 1 \<or> limit > 100 then Inl (BadRequest ''Note limit must be an integer between 1 and 100'')
      else bindE (find_conversation d tenantId conversationId) (\<lambda>_.
        let mine = (\<lambda>x. n_tenantId x = tenantId \<and> n_conversationId x = conversationId)
        in if cursor = Some [] then Inl (BadRequest ''Note cursor is invalid for this conversation'')
           else cursor_list Desc n_createdAt n_id mine ''Note cursor is invalid for this conversation'' mine (conversationNotes d) cursor limit))"

interpretation message_pages: paged_list m_id "listMessages d tenantId k"
    "listed Desc m_createdAt m_id (\<lambda>m. m_tenantId m = Some tenantId \<and> m_conversationId m = Some k) (messages d)"
    "ids_ok m_id (messages d)" "\<lambda>n. \<exists>v. find_conversation d tenantId k = Inr v"
  by unfold_locales (auto simp: listMessages_def Let_def cursor_list_first cursor_list_next)

lemma cursor_not_empty: "ids_ok rid table \<Longrightarrow> listed dir time rid wanted table = xs @ r # ys \<Longrightarrow> rid r \<noteq> []"
proof -
  assume ok: "ids_ok rid table" and l: "listed dir time rid wanted table = xs @ r # ys"
  have "r \<in> set (listed dir time rid wanted table)" unfolding l by simp
  then show ?thesis using ok by (auto simp: listed_def ids_ok_def list_all_iff)
qed

interpretation note_pages: paged_list n_id "list_notes d tenantId k"
    "listed Desc n_createdAt n_id (\<lambda>x. n_tenantId x = tenantId \<and> n_conversationId x = k) (conversationNotes d)"
    "ids_ok n_id (conversationNotes d)" "\<lambda>n. 1 \<le> n \<and> n \<le> 100 \<and> (\<exists>v. find_conversation d tenantId k = Inr v)"
  by unfold_locales (auto simp: list_notes_def Let_def cursor_list_first cursor_list_next dest: cursor_not_empty)

section \<open>Messages of a tenant\<close>

record list_messages_query =
  mq_direction :: "MessageDirection option"
  mq_status :: "MessageStatus option"
  mq_trafficClass :: "MessageTrafficClass option"
  mq_senderId :: "string option"
  mq_phone :: "string option"

definition message_wanted :: "uuid \<Rightarrow> list_messages_query \<Rightarrow> string option \<Rightarrow> message_row \<Rightarrow> bool" where
  "message_wanted tenantId q phone m \<longleftrightarrow>
     m_tenantId m = Some tenantId \<and> wants (mq_direction q) (m_direction m) \<and> wants (mq_status q) (m_status m) \<and>
     wants (mq_trafficClass q) (m_trafficClass m) \<and> wants_text (mq_senderId q) (m_senderId m) \<and>
     (case phone of None \<Rightarrow> True | Some p \<Rightarrow> p = [] \<or> m_to m = Some p \<or> m_from m = Some p)"

definition query_phone :: "list_messages_query \<Rightarrow> error + string option" where
  "query_phone q =
     (case mq_phone q of None \<Rightarrow> Inr None | Some p \<Rightarrow> if p = [] then Inr None else bindE (normalizePhoneNumber p) (\<lambda>n. Inr (Some n)))"

text \<open>The cursor is looked up before the number is normalised.\<close>

definition MessagesService_list ::
  "db \<Rightarrow> uuid \<Rightarrow> list_messages_query \<Rightarrow> uuid option \<Rightarrow> nat \<Rightarrow> error + message_row list \<times> uuid option" where
  "MessagesService_list d tenantId q cursor limit =
     (let visible = (\<lambda>m. m_tenantId m = Some tenantId); message = ''Message cursor is invalid for this tenant''
      in bindE (throwIf (truthy_id cursor \<and> findFirst (\<lambda>m. m_id m = the cursor \<and> visible m) (messages d) = None) (BadRequest message)) (\<lambda>_.
         bindE (query_phone q) (\<lambda>phone.
           cursor_list Desc m_createdAt m_id visible message (message_wanted tenantId q phone) (messages d) cursor limit)))"

lemma visible_cursor:
  assumes "ids_ok rid table" and l: "listed dir time rid wanted table = xs @ r # ys" and "\<And>r. wanted r \<Longrightarrow> visible r"
  shows "findFirst (\<lambda>x. rid x = rid r \<and> visible x) table = Some r"
proof -
  have "r \<in> set (listed dir time rid wanted table)" unfolding l by simp
  then show ?thesis using assms(1,3) by (intro findFirst_key) (auto simp: listed_def ids_ok_def)
qed

interpretation tenant_message_pages: paged_list m_id "MessagesService_list d tenantId q"
    "listed Desc m_createdAt m_id (message_wanted tenantId q phone) (messages d)"
    "ids_ok m_id (messages d)" "\<lambda>n. query_phone q = Inr phone"
proof
  fix n show "query_phone q = Inr phone \<Longrightarrow> MessagesService_list d tenantId q None n =
      Inr (page_of m_id n (take (Suc n) (listed Desc m_createdAt m_id (message_wanted tenantId q phone) (messages d))))"
    by (simp add: MessagesService_list_def truthy_id_def cursor_list_first)
  fix xs r ys
  assume q: "query_phone q = Inr phone" and ok: "ids_ok m_id (messages d)"
    and l: "listed Desc m_createdAt m_id (message_wanted tenantId q phone) (messages d) = xs @ r # ys"
  have w: "message_wanted tenantId q phone r \<Longrightarrow> m_tenantId r = Some tenantId" for r by (simp add: message_wanted_def)
  show "MessagesService_list d tenantId q (Some (m_id r)) n = Inr (page_of m_id n (take (Suc n) ys))"
    using q visible_cursor [OF ok l w] cursor_list_next [OF ok l w] by (simp add: MessagesService_list_def)
qed

section \<open>Campaigns and their recipients\<close>

definition CampaignsService_list ::
  "db \<Rightarrow> uuid \<Rightarrow> CampaignStatus option \<Rightarrow> uuid option \<Rightarrow> nat \<Rightarrow> error + campaign_row list \<times> uuid option" where
  "CampaignsService_list d tenantId status cursor limit =
     cursor_list Desc k_createdAt k_id (\<lambda>k. k_tenantId k = tenantId) ''Campaign cursor is invalid for this tenant''
       (\<lambda>k. k_tenantId k = tenantId \<and> wants status (k_status k)) (campaigns d) cursor limit"

interpretation campaign_pages: paged_list k_id "CampaignsService_list d tenantId status"
    "listed Desc k_createdAt k_id (\<lambda>k. k_tenantId k = tenantId \<and> wants status (k_status k)) (campaigns d)"
    "ids_ok k_id (campaigns d)" "\<lambda>n. True"
  by unfold_locales (simp_all add: CampaignsService_list_def cursor_list_first cursor_list_next)

definition recipient_visible :: "db \<Rightarrow> uuid \<Rightarrow> uuid \<Rightarrow> recipient_row \<Rightarrow> bool" where
  "recipient_visible d tenantId campaignId r \<longleftrightarrow> r_campaignId r = campaignId \<and>
     (case findCampaign (r_campaignId r) (campaigns d) of None \<Rightarrow> False | Some k \<Rightarrow> k_tenantId k = tenantId)"

definition listRecipients ::
  "db \<Rightarrow> uuid \<Rightarrow> uuid \<Rightarrow> CampaignRecipientStatus option \<Rightarrow> uuid option \<Rightarrow> nat \<Rightarrow> error + recipient_row list \<times> uuid option" where
  "listRecipients d tenantId campaignId status cursor limit =
     bindE (CampaignsService_findById d tenantId campaignId) (\<lambda>_.
       cursor_list Asc r_createdAt r_id (recipient_visible d tenantId campaignId) ''Campaign recipient cursor is invalid for this campaign''
         (\<lambda>r. recipient_visible d tenantId campaignId r \<and> wants status (r_status r)) (campaignRecipients d) cursor limit)"

interpretation recipient_pages: paged_list r_id "listRecipients d tenantId campaignId status"
    "listed Asc r_createdAt r_id (\<lambda>r. recipient_visible d tenantId campaignId r \<and> wants status (r_status r)) (campaignRecipients d)"
    "ids_ok r_id (campaignRecipients d)" "\<lambda>n. \<exists>k. CampaignsService_findById d tenantId campaignId = Inr k"
  by unfold_locales (auto simp: listRecipients_def cursor_list_first cursor_list_next)

section \<open>Properties\<close>

text \<open>Following the cursors ends and gives the rows \<open>found\<close>.\<close>

definition visits_all :: "(uuid option \<Rightarrow> error + 'r list \<times> uuid option) \<Rightarrow> 'r list \<Rightarrow> bool" where
  "visits_all page found \<longleftrightarrow> walk_pages page (Suc (length found)) None = Some (Inr found)"

text \<open>
  C21. Listings are complete. A client that follows the cursors of a listing of conversations, with any filters that
  do not exclude each other and any limit, ends after at most one page more than there are rows and has received
  exactly the conversations of the tenant that match the filters, each once, latest first. The same holds of the messages of
  a conversation, its notes, the messages of a tenant, its campaigns, and the recipients of a campaign, oldest first.
\<close>
theorem listings_complete:
  assumes "0 < limit" and "limit \<le> 100" and "query_conflict q = None" and "find_conversation d t k = Inr v"
    and "query_phone mq = Inr phone" and "CampaignsService_findById d t ck = Inr campaign"
    and "ids_ok v_id (conversations d)" and "ids_ok m_id (messages d)" and "ids_ok n_id (conversationNotes d)"
    and "ids_ok k_id (campaigns d)" and "ids_ok r_id (campaignRecipients d)"
  shows "visits_all (\<lambda>c. listConversations d t q c limit) (listed Desc v_lastMessageAt v_id (conversation_wanted d t q) (conversations d)) \<and>
     visits_all (\<lambda>c. listMessages d t k c limit)
       (listed Desc m_createdAt m_id (\<lambda>m. m_tenantId m = Some t \<and> m_conversationId m = Some k) (messages d)) \<and>
     visits_all (\<lambda>c. list_notes d t k c limit)
       (listed Desc n_createdAt n_id (\<lambda>x. n_tenantId x = t \<and> n_conversationId x = k) (conversationNotes d)) \<and>
     visits_all (\<lambda>c. MessagesService_list d t mq c limit) (listed Desc m_createdAt m_id (message_wanted t mq phone) (messages d)) \<and>
     visits_all (\<lambda>c. CampaignsService_list d t cs c limit)
       (listed Desc k_createdAt k_id (\<lambda>k. k_tenantId k = t \<and> wants cs (k_status k)) (campaigns d)) \<and>
     visits_all (\<lambda>c. listRecipients d t ck rs c limit)
       (listed Asc r_createdAt r_id (\<lambda>r. recipient_visible d t ck r \<and> wants rs (r_status r)) (campaignRecipients d))"
  unfolding visits_all_def
  using assms conversation_pages.walk_complete [of q d limit t] message_pages.walk_complete [of d t k limit]
    note_pages.walk_complete [of limit d t k] tenant_message_pages.walk_complete [of mq phone d limit t]
    campaign_pages.walk_complete [of d limit t cs] recipient_pages.walk_complete [of d t ck limit rs]
  by (simp add: Suc_le_eq)

text \<open>A page size of one in a database with two conversations and a campaign.\<close>

definition no_filter :: list_conversations_query where
  "no_filter = \<lparr>lq_status = None, lq_priority = None, lq_assignedAgentId = None, lq_unassigned = False, lq_assignedTeamId = None,
     lq_unassignedTeam = False, lq_senderId = None, lq_contactId = None\<rparr>"

definition sample_listing_db :: db where
  "sample_listing_db = sample_inbox\<lparr>campaigns := [sample_draft]\<rparr>"

lemma sample_listing_facts:
  "query_conflict no_filter = None" "find_conversation sample_listing_db ''t'' ''v1'' = Inr ((sample_inbox_conversation ''v1'' ''c1'')\<lparr>v_assignedAgentId := Some ''a1''\<rparr>)"
  "query_phone \<lparr>mq_direction = None, mq_status = None, mq_trafficClass = None, mq_senderId = None, mq_phone = None\<rparr> = Inr None"
  "CampaignsService_findById sample_listing_db ''t'' ''k'' = Inr sample_draft"
  "ids_ok v_id (conversations sample_listing_db)" "ids_ok m_id (messages sample_listing_db)" "ids_ok n_id (conversationNotes sample_listing_db)"
  "ids_ok k_id (campaigns sample_listing_db)" "ids_ok r_id (campaignRecipients sample_listing_db)"
  by (simp_all add: no_filter_def sample_listing_db_def sample_inbox_defs query_conflict_def find_conversation_def query_phone_def
    CampaignsService_findById_def sample_draft_def draft_campaign_def ids_ok_def)

theorem listings_complete_witness:
  "visits_all (\<lambda>c. listConversations sample_listing_db ''t'' no_filter c 1)
     [sample_inbox_conversation ''v2'' ''c2'', (sample_inbox_conversation ''v1'' ''c1'')\<lparr>v_assignedAgentId := Some ''a1''\<rparr>]"
proof -
  have "listed Desc v_lastMessageAt v_id (conversation_wanted sample_listing_db ''t'' no_filter) (conversations sample_listing_db) =
      [sample_inbox_conversation ''v2'' ''c2'', (sample_inbox_conversation ''v1'' ''c1'')\<lparr>v_assignedAgentId := Some ''a1''\<rparr>]"
    by code_simp
  with listings_complete [of 1, OF _ _ sample_listing_facts] show ?thesis by simp
qed

end
