(* ===== verification/Canned_Responses.thy ===== *)
theory Canned_Responses
  imports Paging Senders
begin

text \<open>
  src/src/canned-responses: the policy of canned response texts (canned-response.policy.ts) and the service
  (canned-responses.service.ts). Texts are lists of UTF-16 code units, as JavaScript has them, because the policy
  counts characters and refuses code units that PostgreSQL cannot store. The results: the policy accepts exactly the
  well-formed texts of 1 to the maximum number of characters; two updates from the same revision never
  both succeed; the revision stays within 32 bits; following the cursors of a listing visits every row.
\<close>

section \<open>UTF-16 texts\<close>

text \<open>White space as \<open>trim\<close> takes it.\<close>

definition utf16_space :: "nat \<Rightarrow> bool" where
  "utf16_space c \<longleftrightarrow> 9 \<le> c \<and> c \<le> 13 \<or> 0x2000 \<le> c \<and> c \<le> 0x200A \<or>
     c \<in> {0x20, 0xA0, 0x1680, 0x2028, 0x2029, 0x202F, 0x205F, 0x3000, 0xFEFF}"

definition utf16_trim :: "utf16 \<Rightarrow> utf16" where
  "utf16_trim s = rev (dropWhile utf16_space (rev (dropWhile utf16_space s)))"

definition high_surrogate :: "nat \<Rightarrow> bool" where
  "high_surrogate c \<longleftrightarrow> 0xD800 \<le> c \<and> c \<le> 0xDBFF"

definition low_surrogate :: "nat \<Rightarrow> bool" where
  "low_surrogate c \<longleftrightarrow> 0xDC00 \<le> c \<and> c \<le> 0xDFFF"

text \<open>\<open>Array.from(s)\<close>: the characters, a surrogate pair being one and a surrogate alone being one too.\<close>

fun array_from :: "utf16 \<Rightarrow> utf16 list" where
  "array_from [] = []"
| "array_from [c] = [[c]]"
| "array_from (c # e # s) =
     (if high_surrogate c \<and> low_surrogate e then [c, e] # array_from s else [c] # array_from (e # s))"

text \<open>
  \<open>toLowerCase\<close> on a code unit. Of the letters outside ASCII two have an ASCII letter in their lower case, the Kelvin sign and
  the dotted capital I; the others stay outside ASCII and are left as they are, since the pattern refuses them.
\<close>

definition utf16_lower :: "utf16 \<Rightarrow> utf16" where
  "utf16_lower s = concat (map (\<lambda>c. if 65 \<le> c \<and> c \<le> 90 then [c + 32] else if c = 0x212A then [107]
     else if c = 0x130 then [105, 0x307] else [c]) s)"

section \<open>Policy\<close>

datatype input = InUndefined | InNull | InBool bool | InInt int | InText utf16 | InOther

text \<open>The request: an object with its fields, or any other value.\<close>

type_synonym request = "(string \<times> input) list option"

definition MAX_REVISION :: nat where
  "MAX_REVISION = 2147483646"

definition shortcut_letter :: "nat \<Rightarrow> bool" where
  "shortcut_letter c \<longleftrightarrow> 97 \<le> c \<and> c \<le> 122"

definition SHORTCUT_PATTERN :: "utf16 \<Rightarrow> bool" where
  "SHORTCUT_PATTERN s \<longleftrightarrow>
     (case s of [] \<Rightarrow> False
      | c # rest \<Rightarrow> shortcut_letter c \<and> length rest \<le> 31 \<and>
          list_all (\<lambda>c. shortcut_letter c \<or> 48 \<le> c \<and> c \<le> 57 \<or> c = 95 \<or> c = 45) rest)"

definition policy_record :: "request \<Rightarrow> string list \<Rightarrow> string + (string \<times> input) list" where
  "policy_record r allowed =
     (case r of
        None \<Rightarrow> Inl ''A canned response object is required''
      | Some fs \<Rightarrow> if list_ex (\<lambda>f. fst f \<notin> set allowed) fs then Inl ''Unknown canned response field'' else Inr fs)"

definition field_of :: "(string \<times> input) list \<Rightarrow> string \<Rightarrow> input" where
  "field_of fs k = (case map_of fs k of None \<Rightarrow> InUndefined | Some v \<Rightarrow> v)"

definition policy_text :: "input \<Rightarrow> string \<Rightarrow> nat \<Rightarrow> string + utf16" where
  "policy_text v label maximum =
     (case v of
        InText s \<Rightarrow>
          let normalized = utf16_trim s; characters = array_from normalized
          in if characters = [] \<or> length characters > maximum
             then Inl (label @ '' must contain 1-'' @ nat_string maximum @ '' characters'')
             else if list_ex (\<lambda>ch. ch = [0] \<or> length ch = 1 \<and> hd ch \<ge> 0xD800 \<and> hd ch \<le> 0xDFFF) characters
             then Inl (label @ '' contains unsupported characters'')
             else Inr normalized
      | _ \<Rightarrow> Inl (label @ '' must be text''))"

definition normalizeShortcut :: "input \<Rightarrow> string + utf16" where
  "normalizeShortcut v =
     bindE (policy_text v ''Shortcut'' 32) (\<lambda>s.
       let shortcut = utf16_lower s
       in if SHORTCUT_PATTERN shortcut then Inr shortcut
          else Inl ''Shortcut must start with a letter and contain only a-z, 0-9, _ or -'')"

record CannedResponseContent =
  cc_shortcut :: utf16
  cc_title :: utf16
  cc_body :: utf16

definition prepareCannedResponseCreate :: "request \<Rightarrow> string + CannedResponseContent" where
  "prepareCannedResponseCreate r =
     bindE (policy_record r [''shortcut'', ''title'', ''body'']) (\<lambda>fs.
     bindE (normalizeShortcut (field_of fs ''shortcut'')) (\<lambda>shortcut.
     bindE (policy_text (field_of fs ''title'') ''Title'' 100) (\<lambda>title.
     bindE (policy_text (field_of fs ''body'') ''Body'' 4096) (\<lambda>body.
       Inr \<lparr>cc_shortcut = shortcut, cc_title = title, cc_body = body\<rparr>))))"

record CannedResponseChanges =
  ch_shortcut :: "utf16 option"
  ch_title :: "utf16 option"
  ch_body :: "utf16 option"
  ch_active :: "bool option"

definition when_defined :: "input \<Rightarrow> (input \<Rightarrow> string + 'a) \<Rightarrow> string + 'a option" where
  "when_defined v f = (if v = InUndefined then Inr None else bindE (f v) (\<lambda>x. Inr (Some x)))"

definition policy_bool :: "input \<Rightarrow> string + bool" where
  "policy_bool v = (case v of InBool b \<Rightarrow> Inr b | _ \<Rightarrow> Inl ''active must be a boolean'')"

definition expected_revision :: "input \<Rightarrow> string + nat" where
  "expected_revision v =
     (case v of
        InInt i \<Rightarrow> if i < 1 \<or> i > int MAX_REVISION then Inl ''expectedRevision must be a positive supported integer'' else Inr (nat i)
      | _ \<Rightarrow> Inl ''expectedRevision must be a positive supported integer'')"

definition prepareCannedResponsePatch :: "request \<Rightarrow> string + nat \<times> CannedResponseChanges" where
  "prepareCannedResponsePatch r =
     bindE (policy_record r [''shortcut'', ''title'', ''body'', ''active'', ''expectedRevision'']) (\<lambda>fs.
     bindE (expected_revision (field_of fs ''expectedRevision'')) (\<lambda>expected.
     bindE (when_defined (field_of fs ''shortcut'') normalizeShortcut) (\<lambda>shortcut.
     bindE (when_defined (field_of fs ''title'') (\<lambda>v. policy_text v ''Title'' 100)) (\<lambda>title.
     bindE (when_defined (field_of fs ''body'') (\<lambda>v. policy_text v ''Body'' 4096)) (\<lambda>body.
     bindE (when_defined (field_of fs ''active'') policy_bool) (\<lambda>active.
       if shortcut = None \<and> title = None \<and> body = None \<and> active = None then Inl ''At least one mutable field is required''
       else Inr (expected, \<lparr>ch_shortcut = shortcut, ch_title = title, ch_body = body, ch_active = active\<rparr>)))))))"

section \<open>Service\<close>

definition canned_unique :: "canned_row list \<Rightarrow> bool" where
  "canned_unique rows \<longleftrightarrow> distinct (map cr_id rows) \<and> distinct (map (\<lambda>r. (cr_tenantId r, cr_shortcut r)) rows)"

text \<open>\<open>rethrow\<close>: the policy's errors and a taken shortcut. The event published after the commit is \<open>publish\<close>'s business.\<close>

definition input_error :: "string + 'a \<Rightarrow> error + 'a" where
  "input_error r = (case r of Inl m \<Rightarrow> Inl (BadRequest m) | Inr x \<Rightarrow> Inr x)"

definition SHORTCUT_TAKEN :: error where
  "SHORTCUT_TAKEN = Conflict ''Canned response shortcut already exists in this tenant''"

definition canned_meta :: "canned_row \<Rightarrow> (string \<times> json) list" where
  "canned_meta r = [(''revision'', JNum (nat_string (cr_revision r))), (''active'', JBool (cr_active r))]"

definition CannedResponsesService_create ::
  "db \<Rightarrow> ApiPrincipal \<Rightarrow> request \<Rightarrow> AuditRequestContext option \<Rightarrow> uuid \<Rightarrow> time \<Rightarrow> error + canned_row \<times> db" where
  "CannedResponsesService_create d p dto ctx newId now =
     bindE (input_error (prepareCannedResponseCreate dto)) (\<lambda>content.
       let created = \<lparr>cr_id = newId, cr_tenantId = ap_tenantId p, cr_shortcut = cc_shortcut content, cr_title = cc_title content,
             cr_body = cc_body content, cr_active = True, cr_revision = 1, cr_createdAt = now\<rparr>;
           audit = auditLogData (mutationActor (Inr p)) ctx ''inbox.canned_response.created'' ''InboxCannedResponse'' (Some newId) (Some (JObj (canned_meta created)))
       in if canned_unique (cannedResponses d @ [created])
          then Inr (created, add_audit audit (d\<lparr>cannedResponses := cannedResponses d @ [created]\<rparr>)) else Inl SHORTCUT_TAKEN)"

definition CannedResponsesService_find :: "db \<Rightarrow> uuid \<Rightarrow> uuid \<Rightarrow> error + canned_row" where
  "CannedResponsesService_find d tenantId k =
     (case findFirst (\<lambda>r. cr_id r = k \<and> cr_tenantId r = tenantId) (cannedResponses d) of
        None \<Rightarrow> Inl (NotFound ''Canned response not found'') | Some r \<Rightarrow> Inr r)"

definition canned_changes :: "CannedResponseChanges \<Rightarrow> canned_row \<Rightarrow> canned_row" where
  "canned_changes c r =
     r\<lparr>cr_shortcut := (case ch_shortcut c of None \<Rightarrow> cr_shortcut r | Some s \<Rightarrow> s), cr_title := (case ch_title c of None \<Rightarrow> cr_title r | Some s \<Rightarrow> s),
       cr_body := (case ch_body c of None \<Rightarrow> cr_body r | Some s \<Rightarrow> s), cr_active := (case ch_active c of None \<Rightarrow> cr_active r | Some b \<Rightarrow> b),
       cr_revision := cr_revision r + 1\<rparr>"

definition changed_keys :: "CannedResponseChanges \<Rightarrow> string list" where
  "changed_keys c = sort (map fst (filter snd [(''shortcut'', ch_shortcut c \<noteq> None), (''title'', ch_title c \<noteq> None), (''body'', ch_body c \<noteq> None),
     (''active'', ch_active c \<noteq> None)]))"

definition CannedResponsesService_update ::
  "db \<Rightarrow> ApiPrincipal \<Rightarrow> uuid \<Rightarrow> request \<Rightarrow> AuditRequestContext option \<Rightarrow> error + canned_row \<times> db" where
  "CannedResponsesService_update d p k dto ctx =
     bindE (input_error (prepareCannedResponsePatch dto)) (\<lambda>(expected, changes).
       let tenantId = ap_tenantId p;
           hit = (\<lambda>r. cr_id r = k \<and> cr_tenantId r = tenantId \<and> cr_revision r = expected);
           rows = updateMany hit (canned_changes changes) (cannedResponses d)
       in if countWhere hit (cannedResponses d) = 0
          then (case findFirst (\<lambda>r. cr_id r = k \<and> cr_tenantId r = tenantId) (cannedResponses d) of
                  None \<Rightarrow> Inl (NotFound ''Canned response not found'')
                | Some _ \<Rightarrow> Inl (Conflict ''Canned response revision has changed; reload before updating''))
          else if \<not> canned_unique rows then Inl SHORTCUT_TAKEN
          else case findFirst (\<lambda>r. cr_id r = k \<and> cr_tenantId r = tenantId) rows of
                 None \<Rightarrow> Inl (Error ''P2025'')
               | Some updated \<Rightarrow>
                   Inr (updated, add_audit (auditLogData (mutationActor (Inr p)) ctx ''inbox.canned_response.updated'' ''InboxCannedResponse'' (Some k)
                     (Some (JObj ((''changedFields'', JArr (map JStr (changed_keys changes))) # canned_meta updated)))) (d\<lparr>cannedResponses := rows\<rparr>)))"

text \<open>
  \<open>list\<close>, which finds the position of its cursor by the anchor's columns instead of a database cursor. The limit
  is an integer here; a status that is none of the three is refused.
\<close>

datatype list_status = Active | Inactive | All | OtherStatus

definition list_shortcut :: "input \<Rightarrow> error + utf16 option" where
  "list_shortcut v = input_error (when_defined v normalizeShortcut)"

definition canned_wanted :: "uuid \<Rightarrow> list_status \<Rightarrow> utf16 option \<Rightarrow> canned_row \<Rightarrow> bool" where
  "canned_wanted tenantId status shortcut r \<longleftrightarrow>
     cr_tenantId r = tenantId \<and> (case status of All \<Rightarrow> True | Active \<Rightarrow> cr_active r | _ \<Rightarrow> \<not> cr_active r) \<and>
     (case shortcut of None \<Rightarrow> True | Some s \<Rightarrow> cr_shortcut r = s)"

definition before_anchor :: "canned_row \<Rightarrow> canned_row \<Rightarrow> bool" where
  "before_anchor anchor r \<longleftrightarrow> cr_createdAt r < cr_createdAt anchor \<or> cr_createdAt r = cr_createdAt anchor \<and> cr_id r < cr_id anchor"

definition CannedResponsesService_list ::
  "db \<Rightarrow> uuid \<Rightarrow> list_status \<Rightarrow> input \<Rightarrow> uuid option \<Rightarrow> nat \<Rightarrow> error + canned_row list \<times> uuid option" where
  "CannedResponsesService_list d tenantId status shortcutInput cursor limit =
     (if limit < 1 \<or> limit > 100 \<or> status = OtherStatus then Inl (BadRequest ''Invalid canned response page parameters'')
      else bindE (list_shortcut shortcutInput) (\<lambda>shortcut.
        let read = (\<lambda>position. page_of cr_id limit (take (limit + 1)
              (arrange Desc (\<lambda>r. (cr_createdAt r, cr_id r)) (filter (\<lambda>r. canned_wanted tenantId status shortcut r \<and> position r) (cannedResponses d)))))
        in case cursor of
             None \<Rightarrow> Inr (read (\<lambda>r. True))
           | Some c \<Rightarrow>
               (case findFirst (\<lambda>r. cr_id r = c \<and> cr_tenantId r = tenantId) (cannedResponses d) of
                  None \<Rightarrow> Inl (BadRequest ''Canned response cursor is invalid for this tenant'')
                | Some anchor \<Rightarrow> Inr (read (before_anchor anchor)))))"

section \<open>Well-formed texts\<close>

text \<open>Every surrogate belongs to a pair, and no character is NUL.\<close>

fun storable :: "utf16 \<Rightarrow> bool" where
  "storable [] = True"
| "storable (c # s) =
     (if c = 0 \<or> low_surrogate c then False
      else if high_surrogate c then (case s of [] \<Rightarrow> False | e # s' \<Rightarrow> low_surrogate e \<and> storable s')
      else storable s)"

text \<open>The number of characters of a well-formed text: the code units that are not second halves of pairs.\<close>

definition characters :: "utf16 \<Rightarrow> nat" where
  "characters s = length (filter (\<lambda>c. \<not> low_surrogate c) s)"

lemma surrogates_disjoint: "high_surrogate c \<Longrightarrow> \<not> low_surrogate c" "high_surrogate c \<Longrightarrow> c \<noteq> 0"
  by (simp_all add: high_surrogate_def low_surrogate_def)

definition unsupported :: "utf16 \<Rightarrow> bool" where
  "unsupported ch \<longleftrightarrow> ch = [0] \<or> length ch = 1 \<and> hd ch \<ge> 0xD800 \<and> hd ch \<le> 0xDFFF"

lemma unsupported_simps [simp]:
  "unsupported [c] \<longleftrightarrow> c = 0 \<or> high_surrogate c \<or> low_surrogate c" "\<not> unsupported [c, e]"
  by (auto simp: unsupported_def high_surrogate_def low_surrogate_def)

lemma storable_pair:
  "high_surrogate c \<Longrightarrow> low_surrogate e \<Longrightarrow> storable (c # e # s) = storable s"
  "\<not> (high_surrogate c \<and> low_surrogate e) \<Longrightarrow> storable (c # e # s) \<longleftrightarrow> c \<noteq> 0 \<and> \<not> high_surrogate c \<and> \<not> low_surrogate c \<and> storable (e # s)"
  by (auto dest: surrogates_disjoint simp del: storable.simps simp: storable.simps(2) [of c])

lemma array_from_supported: "\<not> list_ex unsupported (array_from s) \<longleftrightarrow> storable s"
proof (induction s rule: array_from.induct)
  case (3 c e s)
  then show ?case by (cases "high_surrogate c \<and> low_surrogate e") (auto simp: storable_pair simp del: storable.simps)
qed auto

lemma array_from_length: "storable s \<Longrightarrow> length (array_from s) = characters s"
proof (induction s rule: array_from.induct)
  case (3 c e s)
  then show ?case
    by (cases "high_surrogate c \<and> low_surrogate e")
      (auto simp: storable_pair characters_def surrogates_disjoint simp del: storable.simps)
qed (auto simp: characters_def)

lemma array_from_Nil [simp]: "array_from s = [] \<longleftrightarrow> s = []"
  by (cases s rule: array_from.cases) auto

lemma policy_text_Inr:
  "policy_text v label maximum = Inr t \<longleftrightarrow>
     (\<exists>s. v = InText s \<and> t = utf16_trim s \<and> t \<noteq> [] \<and> storable t \<and> characters t \<le> maximum)"
proof (cases v)
  case (InText s)
  have "list_ex (\<lambda>ch. ch = [0] \<or> length ch = 1 \<and> hd ch \<ge> 0xD800 \<and> hd ch \<le> 0xDFFF) (array_from (utf16_trim s)) = (\<not> storable (utf16_trim s))"
    using array_from_supported [of "utf16_trim s"] unfolding unsupported_def [abs_def] by blast
  then show ?thesis using InText array_from_length [of "utf16_trim s"] by (auto simp: policy_text_def Let_def)
qed (simp_all add: policy_text_def)

lemma utf16_trim_idem_ends:
  "utf16_trim s \<noteq> [] \<Longrightarrow> \<not> utf16_space (hd (utf16_trim s)) \<and> \<not> utf16_space (last (utf16_trim s))"
proof -
  let ?a = "dropWhile utf16_space s"
  assume ne: "utf16_trim s \<noteq> []"
  then have l: "utf16_trim s = rev (dropWhile utf16_space (rev ?a))" "dropWhile utf16_space (rev ?a) \<noteq> []" by (simp_all add: utf16_trim_def)
  have "\<not> utf16_space (last (utf16_trim s))" using l hd_dropWhile [of utf16_space "rev ?a"] by (simp add: last_rev)
  moreover obtain zs where zs: "?a = utf16_trim s @ zs"
    using takeWhile_dropWhile_id [of utf16_space "rev ?a"] unfolding l(1) by (metis rev_append rev_rev_ident)
  have "hd ?a = hd (utf16_trim s)" unfolding zs using ne by simp
  moreover have "?a \<noteq> []" unfolding zs using ne by simp
  ultimately have "\<not> utf16_space (hd (utf16_trim s))" "\<not> utf16_space (last (utf16_trim s))" using hd_dropWhile [of utf16_space s] by simp_all
  then show ?thesis by simp
qed

section \<open>The table\<close>

definition text_ok :: "nat \<Rightarrow> utf16 \<Rightarrow> bool" where
  "text_ok maximum t \<longleftrightarrow> t \<noteq> [] \<and> storable t \<and> characters t \<le> maximum \<and> \<not> utf16_space (hd t) \<and> \<not> utf16_space (last t)"

text \<open>The constraints of migration 20260911143000 and the width of the revision column.\<close>

definition canned_row_ok :: "canned_row \<Rightarrow> bool" where
  "canned_row_ok r \<longleftrightarrow> SHORTCUT_PATTERN (cr_shortcut r) \<and> text_ok 100 (cr_title r) \<and> text_ok 4096 (cr_body r) \<and>
     1 \<le> cr_revision r \<and> cr_revision r < 2 ^ 31"

definition canned_ok :: "db \<Rightarrow> bool" where
  "canned_ok d \<longleftrightarrow> canned_unique (cannedResponses d) \<and> list_all canned_row_ok (cannedResponses d)"

inductive canned_step :: "db \<Rightarrow> db \<Rightarrow> bool" where
  create: "CannedResponsesService_create d p dto ctx newId now = Inr (r, d') \<Longrightarrow> canned_step d d'"
| update: "CannedResponsesService_update d p k dto ctx = Inr (r, d') \<Longrightarrow> canned_step d d'"

inductive canned_reachable :: "db \<Rightarrow> db \<Rightarrow> bool" where
  start: "canned_reachable d d"
| step: "canned_reachable d d' \<Longrightarrow> canned_step d' d'' \<Longrightarrow> canned_reachable d d''"

lemma canned_add_audit [simp]: "cannedResponses (add_audit a d) = cannedResponses d"
  by (simp add: add_audit_def split: option.split)

lemma input_error_Inr [db_simps]: "input_error r = Inr x \<longleftrightarrow> r = Inr x"
  by (cases r) (simp_all add: input_error_def)

lemma policy_text_ok: "policy_text v label n = Inr t \<Longrightarrow> text_ok n t"
  by (auto simp: policy_text_Inr text_ok_def utf16_trim_idem_ends)

lemma normalizeShortcut_ok: "normalizeShortcut v = Inr s \<Longrightarrow> SHORTCUT_PATTERN s"
  by (auto simp: normalizeShortcut_def db_simps Let_def split: if_split_asm)

lemma create_effect:
  assumes "CannedResponsesService_create d p dto ctx newId now = Inr (r, d')"
  shows "cannedResponses d' = cannedResponses d @ [r] \<and> canned_unique (cannedResponses d') \<and> canned_row_ok r \<and> cr_id r = newId"
  using assms by (auto simp: CannedResponsesService_create_def prepareCannedResponseCreate_def db_simps Let_def canned_row_ok_def
    policy_text_ok normalizeShortcut_ok split: if_split_asm)

lemma when_defined_Inr [db_simps]: "when_defined v f = Inr x \<longleftrightarrow> (v = InUndefined \<and> x = None \<or> v \<noteq> InUndefined \<and> (\<exists>y. f v = Inr y \<and> x = Some y))"
  by (auto simp: when_defined_def db_simps)

definition changes_ok :: "CannedResponseChanges \<Rightarrow> bool" where
  "changes_ok c \<longleftrightarrow> (\<forall>s. ch_shortcut c = Some s \<longrightarrow> SHORTCUT_PATTERN s) \<and> (\<forall>s. ch_title c = Some s \<longrightarrow> text_ok 100 s) \<and>
     (\<forall>s. ch_body c = Some s \<longrightarrow> text_ok 4096 s)"

lemma patch_ok: "prepareCannedResponsePatch dto = Inr (e, c) \<Longrightarrow> changes_ok c \<and> 1 \<le> e \<and> e \<le> MAX_REVISION"
  by (auto simp: prepareCannedResponsePatch_def db_simps changes_ok_def policy_text_ok normalizeShortcut_ok expected_revision_def
    split: if_split_asm input.split_asm)

lemma update_effect_canned:
  assumes "CannedResponsesService_update d p k dto ctx = Inr (r, d')"
  shows "\<exists>e c. prepareCannedResponsePatch dto = Inr (e, c) \<and> canned_unique (cannedResponses d') \<and>
     cannedResponses d' = updateMany (\<lambda>r. cr_id r = k \<and> cr_tenantId r = ap_tenantId p \<and> cr_revision r = e) (canned_changes c) (cannedResponses d) \<and>
     (\<exists>x \<in> set (cannedResponses d). cr_id x = k \<and> cr_tenantId x = ap_tenantId p \<and> cr_revision x = e)"
proof -
  from assms obtain e c where p: "prepareCannedResponsePatch dto = Inr (e, c)"
    by (auto simp: CannedResponsesService_update_def db_simps)
  show ?thesis using assms p
    by (auto simp: CannedResponsesService_update_def input_error_def Let_def countWhere_def filter_empty_conv
      split: if_split_asm option.split_asm)
qed

lemma canned_changes_ok:
  assumes "canned_row_ok r" and "changes_ok c" and "cr_revision r \<le> MAX_REVISION"
  shows "canned_row_ok (canned_changes c r)"
  using assms by (auto simp: canned_row_ok_def canned_changes_def changes_ok_def MAX_REVISION_def split: option.split)

lemma canned_step_ok:
  assumes "canned_step d d'" and "canned_ok d"
  shows "canned_ok d'"
  using assms
proof (induction rule: canned_step.induct)
  case (create d p dto ctx newId now r d')
  then show ?case using create_effect [OF create(1)] by (auto simp: canned_ok_def)
next
  case (update d p k dto ctx r d')
  from update_effect_canned [OF update(1)] obtain e c where e: "prepareCannedResponsePatch dto = Inr (e, c)" "canned_unique (cannedResponses d')"
    "cannedResponses d' = updateMany (\<lambda>r. cr_id r = k \<and> cr_tenantId r = ap_tenantId p \<and> cr_revision r = e) (canned_changes c) (cannedResponses d)" by blast
  have "list_all canned_row_ok (cannedResponses d')"
    unfolding e(3) using update(2) patch_ok [OF e(1)] by (intro list_all_updateMany) (auto simp: canned_ok_def intro: canned_changes_ok)
  with e(2) show ?case by (simp add: canned_ok_def)
qed

lemma canned_reachable_ok: "canned_reachable d d' \<Longrightarrow> canned_ok d \<Longrightarrow> canned_ok d'"
  by (induction rule: canned_reachable.induct) (auto intro: canned_step_ok)

text \<open>Rows keep their id and tenant, and their revision does not fall.\<close>

definition advances :: "db \<Rightarrow> db \<Rightarrow> bool" where
  "advances d d' \<longleftrightarrow> (\<forall>r \<in> set (cannedResponses d). \<exists>r' \<in> set (cannedResponses d').
     cr_id r' = cr_id r \<and> cr_tenantId r' = cr_tenantId r \<and> cr_revision r \<le> cr_revision r')"

lemma advances_updateMany:
  assumes "cannedResponses d' = updateMany P (canned_changes c) (cannedResponses d)"
  shows "advances d d'"
  unfolding advances_def
proof
  fix r assume "r \<in> set (cannedResponses d)"
  then have "(if P r then canned_changes c r else r) \<in> set (cannedResponses d')" unfolding assms set_updateMany by blast
  then show "\<exists>r' \<in> set (cannedResponses d'). cr_id r' = cr_id r \<and> cr_tenantId r' = cr_tenantId r \<and> cr_revision r \<le> cr_revision r'"
    by (rule bexI [rotated]) (simp add: canned_changes_def)
qed

lemma canned_step_advances: "canned_step d d' \<Longrightarrow> advances d d'"
proof (induction rule: canned_step.induct)
  case (create d p dto ctx newId now r d')
  then show ?case using create_effect [OF create(1)] by (auto simp: advances_def)
next
  case (update d p k dto ctx r d')
  from update_effect_canned [OF update(1)] obtain e c where
    "cannedResponses d' = updateMany (\<lambda>r. cr_id r = k \<and> cr_tenantId r = ap_tenantId p \<and> cr_revision r = e) (canned_changes c) (cannedResponses d)" by blast
  then show ?case by (rule advances_updateMany)
qed

lemma canned_reachable_advances: "canned_reachable d d' \<Longrightarrow> advances d d'"
proof (induction rule: canned_reachable.induct)
  case (step d d' d'')
  show ?case unfolding advances_def
  proof
    fix r assume "r \<in> set (cannedResponses d)"
    then obtain r' where r': "r' \<in> set (cannedResponses d')" "cr_id r' = cr_id r" "cr_tenantId r' = cr_tenantId r" "cr_revision r \<le> cr_revision r'"
      using step.IH unfolding advances_def by blast
    then obtain r'' where "r'' \<in> set (cannedResponses d'')" "cr_id r'' = cr_id r'" "cr_tenantId r'' = cr_tenantId r'" "cr_revision r' \<le> cr_revision r''"
      using canned_step_advances [OF step(2)] unfolding advances_def by blast
    with r' show "\<exists>r'' \<in> set (cannedResponses d''). cr_id r'' = cr_id r \<and> cr_tenantId r'' = cr_tenantId r \<and> cr_revision r \<le> cr_revision r''"
      by (intro bexI [of _ r'']) auto
  qed
qed (auto simp: advances_def)

section \<open>Pages\<close>

lemma arrange_filter: "arrange dir key (filter (\<lambda>r. P r \<and> Q r) rows) = filter Q (arrange dir key (filter P rows))"
proof -
  have "filter (\<lambda>r. P r \<and> Q r) rows = filter Q (filter P rows)" by (simp add: conj_commute)
  then show ?thesis by (cases dir) (simp_all only: arrange_def direction.case rev_filter [symmetric] filter_sort)
qed

lemma strictly_before:
  assumes "arrange Desc key matching = xs @ r # ys" and "distinct (map key matching)"
  shows "filter (\<lambda>x. key x < key r) (arrange Desc key matching) = ys"
proof -
  have "filter (\<lambda>x. key x < key r) (r # ys) = ys"
  proof -
    have "distinct (map key (arrange Desc key matching))" using assms(2) by (auto simp: arrange_def distinct_map)
    then have "key y \<noteq> key r" if "y \<in> set ys" for y using that unfolding assms(1) by (auto simp: image_iff)
    moreover have "\<forall>y \<in> set ys. key y \<le> key r"
      using arg_cong [OF arrange_tail [OF assms], of set] by (auto simp: at_or_after_def)
    ultimately show ?thesis by (auto simp: filter_id_conv less_le)
  qed
  moreover have "filter (\<lambda>x. key x < key r) (arrange Desc key matching) =
      filter (\<lambda>x. key x < key r) (filter (\<lambda>x. at_or_after Desc (key r) (key x)) (arrange Desc key matching))"
    by (auto simp: at_or_after_def intro!: filter_cong)
  ultimately show ?thesis by (simp only: arrange_tail [OF assms])
qed

lemma before_anchor_iff: "before_anchor r x \<longleftrightarrow> (cr_createdAt x, cr_id x) < (cr_createdAt r, cr_id r)"
  by (auto simp: before_anchor_def less_prod_def)

interpretation canned_pages: paged_list cr_id "CannedResponsesService_list d tenantId status v"
    "listed Desc cr_createdAt cr_id (canned_wanted tenantId status shortcut) (cannedResponses d)"
    "ids_ok cr_id (cannedResponses d)" "\<lambda>n. 1 \<le> n \<and> n \<le> 100 \<and> status \<noteq> OtherStatus \<and> list_shortcut v = Inr shortcut"
proof
  let ?key = "\<lambda>r. (cr_createdAt r, cr_id r)"
  fix n :: nat and xs r ys
  assume q: "1 \<le> n \<and> n \<le> 100 \<and> status \<noteq> OtherStatus \<and> list_shortcut v = Inr shortcut" and ok: "ids_ok cr_id (cannedResponses d)"
    and l: "listed Desc cr_createdAt cr_id (canned_wanted tenantId status shortcut) (cannedResponses d) = xs @ r # ys"
  have "r \<in> set (listed Desc cr_createdAt cr_id (canned_wanted tenantId status shortcut) (cannedResponses d))" unfolding l by simp
  then have r: "r \<in> set (cannedResponses d)" "cr_tenantId r = tenantId" by (auto simp: listed_def canned_wanted_def)
  then have "findFirst (\<lambda>x. cr_id x = cr_id r \<and> cr_tenantId x = tenantId) (cannedResponses d) = Some r"
    using ok by (intro findFirst_key) (auto simp: ids_ok_def)
  moreover have "distinct (map ?key (filter (canned_wanted tenantId status shortcut) (cannedResponses d)))"
    using ok by (auto simp: ids_ok_def distinct_map inj_on_def)
  from strictly_before [OF l [unfolded listed_def] this]
  have "filter (before_anchor r) (arrange Desc ?key (filter (canned_wanted tenantId status shortcut) (cannedResponses d))) = ys"
    unfolding before_anchor_iff [abs_def] .
  ultimately show "CannedResponsesService_list d tenantId status v (Some (cr_id r)) n = Inr (page_of cr_id n (take (Suc n) ys))"
    using q by (simp add: CannedResponsesService_list_def Let_def arrange_filter)
qed (auto simp: CannedResponsesService_list_def Let_def listed_def)

section \<open>Properties\<close>

text \<open>What an update leaves behind, and what a stale update meets.\<close>

lemma update_bumps:
  assumes "CannedResponsesService_update d p k dto ctx = Inr (r, d')" and "prepareCannedResponsePatch dto = Inr (e, c)"
  shows "\<exists>y \<in> set (cannedResponses d'). cr_id y = k \<and> cr_tenantId y = ap_tenantId p \<and> e < cr_revision y"
proof -
  from update_effect_canned [OF assms(1)] obtain e0 c0 x where e0: "prepareCannedResponsePatch dto = Inr (e0, c0)"
    and up: "cannedResponses d' = updateMany (\<lambda>r. cr_id r = k \<and> cr_tenantId r = ap_tenantId p \<and> cr_revision r = e0) (canned_changes c0) (cannedResponses d)"
    and x: "x \<in> set (cannedResponses d)" "cr_id x = k \<and> cr_tenantId x = ap_tenantId p \<and> cr_revision x = e0" by blast
  have e: "e0 = e" using e0 assms(2) by simp
  show ?thesis
  proof (rule bexI)
    show "(if cr_id x = k \<and> cr_tenantId x = ap_tenantId p \<and> cr_revision x = e0 then canned_changes c0 x else x) \<in> set (cannedResponses d')"
      unfolding up set_updateMany using x(1) by (rule imageI)
  qed (use x(2) e in \<open>simp add: canned_changes_def\<close>)
qed

lemma stale_update_refused:
  assumes "canned_ok d" and y: "y \<in> set (cannedResponses d)" "cr_id y = k" "cr_tenantId y = ap_tenantId p" "e < cr_revision y"
    and "prepareCannedResponsePatch dto = Inr (e, c)"
  shows "CannedResponsesService_update d p k dto ctx = Inl (Conflict ''Canned response revision has changed; reload before updating'')"
proof -
  have uniq: "z = y" if "z \<in> set (cannedResponses d)" "cr_id z = k" for z
    using assms(1) inj_onD [of cr_id "set (cannedResponses d)" z y] that y(1,2) by (simp add: canned_ok_def canned_unique_def distinct_map)
  have no: "countWhere (\<lambda>r. cr_id r = k \<and> cr_tenantId r = ap_tenantId p \<and> cr_revision r = e) (cannedResponses d) = 0"
    unfolding countWhere_def length_0_conv filter_empty_conv using uniq y(4) by blast
  have "findFirst (\<lambda>r. cr_id r = k \<and> cr_tenantId r = ap_tenantId p) (cannedResponses d) \<noteq> None"
    unfolding findFirst_None using y(1-3) by blast
  then obtain z where "findFirst (\<lambda>r. cr_id r = k \<and> cr_tenantId r = ap_tenantId p) (cannedResponses d) = Some z" by blast
  then show ?thesis using no by (simp add: CannedResponsesService_update_def assms(6) input_error_def Let_def)
qed

text \<open>
  C24. Canned responses never lose an update. Once an update from revision \<open>e\<close> of a response has succeeded, every later update
  of it that still expects revision \<open>e\<close>, after any other creations and updates, is refused with a conflict.
\<close>
theorem no_lost_update:
  assumes "canned_ok d" and "CannedResponsesService_update d p k dto ctx = Inr (r, d')" and "prepareCannedResponsePatch dto = Inr (e, c)"
    and "canned_reachable d' d''" and "prepareCannedResponsePatch dto' = Inr (e, c')" and "ap_tenantId p' = ap_tenantId p"
  shows "CannedResponsesService_update d'' p' k dto' ctx' = Inl (Conflict ''Canned response revision has changed; reload before updating'')"
proof -
  from update_bumps [OF assms(2,3)] obtain x where x: "x \<in> set (cannedResponses d')" "cr_id x = k" "cr_tenantId x = ap_tenantId p" "e < cr_revision x" by blast
  then obtain y where y: "y \<in> set (cannedResponses d'')" "cr_id y = cr_id x" "cr_tenantId y = cr_tenantId x" "cr_revision x \<le> cr_revision y"
    using canned_reachable_advances [OF assms(4), unfolded advances_def, rule_format, OF x(1)] by blast
  have "canned_ok d''" by (rule canned_reachable_ok [OF assms(4) canned_step_ok [OF canned_step.update [OF assms(2)] assms(1)]])
  from stale_update_refused [OF this y(1), of k p' e dto' c' ctx'] show ?thesis using x y assms(5,6) by simp
qed


text \<open>
  The listing of canned responses, which seeks by the anchor's columns, is complete like the others.
\<close>
lemma canned_listing_complete:
  assumes "1 \<le> n \<and> n \<le> 100 \<and> status \<noteq> OtherStatus \<and> list_shortcut v = Inr shortcut" and "ids_ok cr_id (cannedResponses d)"
  shows "walk_pages (\<lambda>c. CannedResponsesService_list d t status v c n)
     (Suc (length (listed Desc cr_createdAt cr_id (canned_wanted t status shortcut) (cannedResponses d)))) None =
     Some (Inr (listed Desc cr_createdAt cr_id (canned_wanted t status shortcut) (cannedResponses d)))"
  using canned_pages.walk_complete [OF assms] assms(1) by simp

section \<open>Witnesses\<close>

definition sample_canned :: canned_row where
  "sample_canned = \<lparr>cr_id = ''r'', cr_tenantId = ''t'', cr_shortcut = [104, 105], cr_title = [72], cr_body = [0xD83D, 0xDE00], cr_active = True,
     cr_revision = 1, cr_createdAt = 0\<rparr>"

definition sample_canned_db :: db where
  "sample_canned_db = empty_db\<lparr>cannedResponses := [sample_canned]\<rparr>"

definition sample_patch :: request where
  "sample_patch = Some [(''title'', InText [32, 79, 75, 32]), (''expectedRevision'', InInt 1)]"

lemma sample_canned_ok: "canned_ok sample_canned_db"
  by (simp add: sample_canned_db_def empty_db_def sample_canned_def canned_ok_def canned_unique_def canned_row_ok_def SHORTCUT_PATTERN_def
    shortcut_letter_def text_ok_def high_surrogate_def low_surrogate_def characters_def utf16_space_def)

lemma sample_patch_value:
  "prepareCannedResponsePatch sample_patch = Inr (1, \<lparr>ch_shortcut = None, ch_title = Some [79, 75], ch_body = None, ch_active = None\<rparr>)"
  by (simp add: prepareCannedResponsePatch_def sample_patch_def policy_record_def field_of_def expected_revision_def MAX_REVISION_def
    when_defined_def policy_text_def utf16_trim_def utf16_space_def high_surrogate_def)

lemma sample_canned_update:
  "\<exists>r d'. CannedResponsesService_update sample_canned_db \<lparr>ap_tenantId = ''t'', ap_apiKeyId = ''key'', ap_scopes = []\<rparr> ''r'' sample_patch None = Inr (r, d') \<and> cr_revision r = 2"
  by (simp add: CannedResponsesService_update_def sample_patch_value input_error_def Let_def sample_canned_db_def empty_db_def sample_canned_def
    countWhere_def updateMany_def canned_changes_def canned_unique_def)

theorem no_lost_update_witness:
  "\<exists>d'. CannedResponsesService_update d' \<lparr>ap_tenantId = ''t'', ap_apiKeyId = ''key'', ap_scopes = []\<rparr> ''r'' sample_patch None =
     Inl (Conflict ''Canned response revision has changed; reload before updating'')"
  using sample_canned_update no_lost_update [OF sample_canned_ok _ sample_patch_value canned_reachable.start sample_patch_value refl] by blast


end
