(* ===== verification/Api_Keys.thy ===== *)
theory Api_Keys
  imports Senders
begin

text \<open>
  Authentication and API keys: src/src/auth (the two global guards, the key format and its hash) and
  src/src/api-keys (the service and its controller). HMAC-SHA-256 is a parameter of the model, and so are the
  random bytes of a new key. The results: which error answers which request; a key that was issued authenticates; keys
  are never given more than a key of their tenant had; a revoked key never authenticates again.
\<close>

section \<open>Keys\<close>

text \<open>\<open>Buffer.toString("hex")\<close> and \<open>Buffer.toString("base64url")\<close>.\<close>

definition hex_chars :: string where
  "hex_chars = ''0123456789abcdef''"

definition hex_string :: "buffer \<Rightarrow> string" where
  "hex_string bs = concat (map (\<lambda>b. [hex_chars ! (unat b div 16), hex_chars ! (unat b mod 16)]) bs)"

definition base64url_chars :: string where
  "base64url_chars = ''ABCDEFGHIJKLMNOPQRSTUVWXYZabcdefghijklmnopqrstuvwxyz0123456789-_''"

definition base64_digits :: "nat \<Rightarrow> nat \<Rightarrow> string" where
  "base64_digits n v = map (\<lambda>i. base64url_chars ! (v div 64 ^ (n - Suc i) mod 64)) [0..<n]"

fun base64url :: "buffer \<Rightarrow> string" where
  "base64url [] = []"
| "base64url [a] = base64_digits 2 (unat a * 16)"
| "base64url [a, b] = base64_digits 3 ((unat a * 256 + unat b) * 4)"
| "base64url (a # b # c # bs) = base64_digits 4 ((unat a * 256 + unat b) * 256 + unat c) @ base64url bs"

definition KEY_PREFIX :: string where
  "KEY_PREFIX = ''wapi''"

text \<open>The arguments are the results of the two calls of \<open>randomBytes\<close>.\<close>

definition generateApiKey :: "buffer \<Rightarrow> buffer \<Rightarrow> string \<times> string" where
  "generateApiKey bytes6 bytes32 =
     (let prefix = hex_string bytes6; secret = base64url bytes32
      in (KEY_PREFIX @ ''_'' @ prefix @ ''_'' @ secret, prefix))"

type_synonym hmac = "string \<Rightarrow> string \<Rightarrow> string"

definition hashApiKey :: "hmac \<Rightarrow> string \<Rightarrow> string \<Rightarrow> string" where
  "hashApiKey hmac rawKey hashSecret = hmac hashSecret rawKey"

text \<open>\<open>process.env.API_KEY_HASH_SECRET\<close>, which both callers require.\<close>

definition hash_secret :: "string option \<Rightarrow> error + string" where
  "hash_secret secret =
     (case secret of None \<Rightarrow> Inl (Error ''API_KEY_HASH_SECRET is required'')
      | Some s \<Rightarrow> if s = [] then Inl (Error ''API_KEY_HASH_SECRET is required'') else Inr s)"

definition API_KEYS_WRITE :: string where
  "API_KEYS_WRITE = ''api_keys:write''"

section \<open>The table\<close>

definition updateApiKey :: "uuid \<Rightarrow> (api_key_row \<Rightarrow> api_key_row) \<Rightarrow> api_key_row list \<Rightarrow> api_key_row list" where
  "updateApiKey k f rows = updateMany (\<lambda>r. ak_id r = k) f rows"

definition findApiKey :: "uuid \<Rightarrow> api_key_row list \<Rightarrow> api_key_row option" where
  "findApiKey k rows = findFirst (\<lambda>r. ak_id r = k) rows"

interpretation api_key_table: keyed_table ak_id findApiKey updateApiKey
  by unfold_locales (simp_all add: findApiKey_def updateApiKey_def)

definition api_keys_unique :: "api_key_row list \<Rightarrow> bool" where
  "api_keys_unique rows \<longleftrightarrow> distinct (map ak_id rows) \<and> distinct (map ak_keyHash rows)"

section \<open>Guards\<close>

definition LAST_USED_WRITE_INTERVAL_MS :: time where
  "LAST_USED_WRITE_INTERVAL_MS = 15 * 60 * 1000"

text \<open>The header \<open>x-api-key\<close>: absent, one value, or an array of values.\<close>

datatype header = NoHeader | HeaderText string | HeaderList "string list"

fun raw_key :: "header \<Rightarrow> string option" where
  "raw_key NoHeader = None"
| "raw_key (HeaderText s) = Some s"
| "raw_key (HeaderList []) = None"
| "raw_key (HeaderList (s # _)) = Some s"

definition principal_of :: "api_key_row \<Rightarrow> ApiPrincipal" where
  "principal_of k = \<lparr>ap_tenantId = ak_tenantId k, ap_apiKeyId = ak_id k, ap_scopes = ak_scopes k\<rparr>"

text \<open>\<open>apiKey.tenant.status\<close>: a key whose tenant has no row, which the foreign key rules out, is a type error.\<close>

definition tenant_active :: "db \<Rightarrow> api_key_row \<Rightarrow> error + bool" where
  "tenant_active d k =
     (case findFirst (\<lambda>t. tn_id t = ak_tenantId k) (tenants d) of None \<Rightarrow> Inl TYPE_ERROR | Some t \<Rightarrow> Inr (tn_status t = ACTIVE))"

definition INVALID_KEY :: error where
  "INVALID_KEY = Unauthorized ''Invalid or inactive API key''"

definition touch_key :: "api_key_row \<Rightarrow> time \<Rightarrow> db \<Rightarrow> db" where
  "touch_key k now d =
     (if (case ak_lastUsedAt k of None \<Rightarrow> True | Some t \<Rightarrow> now - t \<ge> LAST_USED_WRITE_INTERVAL_MS)
      then d\<lparr>apiKeys := updateApiKey (ak_id k) (\<lambda>r. r\<lparr>ak_lastUsedAt := Some now\<rparr>) (apiKeys d)\<rparr> else d)"

definition ApiKeyGuard_canActivate ::
  "hmac \<Rightarrow> string option \<Rightarrow> db \<Rightarrow> bool \<Rightarrow> header \<Rightarrow> time \<Rightarrow> error + ApiPrincipal option \<times> db" where
  "ApiKeyGuard_canActivate hmac secret d isPublic h now =
     (if isPublic then Inr (None, d)
      else case raw_key h of
        None \<Rightarrow> Inl (Unauthorized ''X-API-Key header is required'')
      | Some rawKey \<Rightarrow>
          bindE (throwIf (rawKey = []) (Unauthorized ''X-API-Key header is required'')) (\<lambda>_.
          bindE (hash_secret secret) (\<lambda>hashSecret.
            case findFirst (\<lambda>r. ak_keyHash r = hashApiKey hmac rawKey hashSecret) (apiKeys d) of
              None \<Rightarrow> Inl INVALID_KEY
            | Some k \<Rightarrow>
                if \<not> ak_active k \<or> ak_revokedAt k \<noteq> None then Inl INVALID_KEY
                else bindE (tenant_active d k) (\<lambda>active.
                  if \<not> active then Inl INVALID_KEY else Inr (Some (principal_of k), touch_key k now d)))))"

definition ScopesGuard_canActivate :: "bool \<Rightarrow> string list option \<Rightarrow> ApiPrincipal option \<Rightarrow> error + unit" where
  "ScopesGuard_canActivate isPublic required pr =
     (if isPublic then Inr ()
      else let requiredScopes = (case required of None \<Rightarrow> [] | Some s \<Rightarrow> s)
      in if requiredScopes = [] then Inr ()
      else case pr of
        None \<Rightarrow> Inl (Unauthorized ''Authenticated principal is required'')
      | Some p \<Rightarrow>
          let missingScopes = filter (\<lambda>scope. scope \<notin> set (ap_scopes p)) requiredScopes
          in throwIf (missingScopes \<noteq> []) (Forbidden (''Missing required API scopes: '' @ js_join '', '' missingScopes)))"

definition CurrentPrincipal :: "ApiPrincipal option \<Rightarrow> error + ApiPrincipal" where
  "CurrentPrincipal pr =
     (case pr of None \<Rightarrow> Inl (Error ''Authenticated principal is not available'') | Some p \<Rightarrow> Inr p)"

text \<open>
  A request to a handler that takes the principal: the guards in the order the module registers them, the
  parameter decorator and the handler. What the first guard wrote stays when a later step throws.
\<close>

definition with_guards ::
  "hmac \<Rightarrow> string option \<Rightarrow> string list option \<Rightarrow> header \<Rightarrow> time \<Rightarrow> (ApiPrincipal \<Rightarrow> db \<Rightarrow> error + 'a \<times> db) \<Rightarrow> db \<Rightarrow> (error + 'a) \<times> db" where
  "with_guards hmac secret required h now handler d =
     (case ApiKeyGuard_canActivate hmac secret d False h now of
        Inl e \<Rightarrow> (Inl e, d)
      | Inr (pr, d') \<Rightarrow>
          case bindE (ScopesGuard_canActivate False required pr) (\<lambda>_. bindE (CurrentPrincipal pr) (\<lambda>p. handler p d')) of
            Inl e \<Rightarrow> (Inl e, d')
          | Inr (x, d'') \<Rightarrow> (Inr x, d''))"

section \<open>Service\<close>

record create_api_key_dto =
  ck_name :: string
  ck_scopes :: "string list"

record safe_api_key =
  sk_id :: uuid
  sk_name :: string
  sk_prefix :: string
  sk_scopes :: "string list"
  sk_active :: bool
  sk_lastUsedAt :: "time option"
  sk_createdAt :: time
  sk_revokedAt :: "time option"

definition safeApiKey :: "api_key_row \<Rightarrow> safe_api_key" where
  "safeApiKey k = \<lparr>sk_id = ak_id k, sk_name = ak_name k, sk_prefix = ak_prefix k, sk_scopes = ak_scopes k, sk_active = ak_active k,
     sk_lastUsedAt = ak_lastUsedAt k, sk_createdAt = ak_createdAt k, sk_revokedAt = ak_revokedAt k\<rparr>"

definition key_audit :: "ApiPrincipal \<Rightarrow> AuditRequestContext \<Rightarrow> string \<Rightarrow> api_key_row \<Rightarrow> audit_row" where
  "key_audit p ctx action k = \<lparr>a_tenantId = ap_tenantId p, a_actorApiKeyId = ap_apiKeyId p, a_action = action, a_entityType = ''ApiKey'',
     a_entityId = Some (ak_id k),
     a_metadata = Some (JObj [(''name'', JStr (ak_name k)), (''prefix'', JStr (ak_prefix k)), (''scopes'', JArr (map JStr (ak_scopes k)))]),
     a_ipAddress = ac_ipAddress ctx, a_userAgent = ac_userAgent ctx\<rparr>"

definition ApiKeysService_create ::
  "hmac \<Rightarrow> string option \<Rightarrow> AuditRequestContext \<Rightarrow> create_api_key_dto \<Rightarrow> buffer \<Rightarrow> buffer \<Rightarrow> uuid \<Rightarrow> time \<Rightarrow> ApiPrincipal \<Rightarrow> db \<Rightarrow>
     error + (string \<times> safe_api_key) \<times> db" where
  "ApiKeysService_create hmac secret ctx dto bytes6 bytes32 newId now p d =
     (let requestedScopes = js_set (ck_scopes dto);
          unauthorizedScopes = filter (\<lambda>scope. scope \<notin> set (ap_scopes p)) requestedScopes
      in bindE (throwIf (unauthorizedScopes \<noteq> [])
           (Forbidden (''Cannot grant scopes not held by the current API key: '' @ js_join '', '' unauthorizedScopes))) (\<lambda>_.
         bindE (hash_secret secret) (\<lambda>hashSecret.
           let (rawKey, prefix) = generateApiKey bytes6 bytes32;
               created = \<lparr>ak_id = newId, ak_tenantId = ap_tenantId p, ak_name = js_trim (ck_name dto), ak_prefix = prefix,
                 ak_keyHash = hashApiKey hmac rawKey hashSecret, ak_scopes = requestedScopes, ak_active = True, ak_lastUsedAt = None,
                 ak_createdAt = now, ak_revokedAt = None\<rparr>
           in if api_keys_unique (apiKeys d @ [created])
              then Inr ((rawKey, safeApiKey created), add_audit (Some (key_audit p ctx ''api_key.created'' created)) (d\<lparr>apiKeys := apiKeys d @ [created]\<rparr>))
              else Inl (Error ''P2002''))))"

text \<open>\<open>list\<close>: active keys first (\<open>true\<close> is greater than \<open>false\<close>), the newest first among them.\<close>

definition ApiKeysService_list :: "db \<Rightarrow> uuid \<Rightarrow> safe_api_key list" where
  "ApiKeysService_list d tenantId =
     map safeApiKey (rev (sort_key (\<lambda>k. (if ak_active k then 1 else 0 :: nat)) (sort_key ak_createdAt (filter (\<lambda>k. ak_tenantId k = tenantId) (apiKeys d)))))"

definition ApiKeysService_revoke ::
  "AuditRequestContext \<Rightarrow> uuid \<Rightarrow> time \<Rightarrow> ApiPrincipal \<Rightarrow> db \<Rightarrow> error + safe_api_key \<times> db" where
  "ApiKeysService_revoke ctx k now p d =
     (case findFirst (\<lambda>r. ak_id r = k \<and> ak_tenantId r = ap_tenantId p) (apiKeys d) of
        None \<Rightarrow> Inl (NotFound ''API key not found'')
      | Some existing \<Rightarrow>
          if \<not> ak_active existing \<or> ak_revokedAt existing \<noteq> None then Inr (safeApiKey existing, d)
          else let revoked = existing\<lparr>ak_active := False, ak_revokedAt := Some now\<rparr>;
                   rows = updateApiKey k (\<lambda>r. r\<lparr>ak_active := False, ak_revokedAt := Some now\<rparr>) (apiKeys d)
               in Inr (safeApiKey revoked, add_audit (Some (key_audit p ctx ''api_key.revoked'' revoked)) (d\<lparr>apiKeys := rows\<rparr>)))"

section \<open>Controller\<close>

definition ApiKeysController_create where
  "ApiKeysController_create hmac secret h ctx dto bytes6 bytes32 newId now =
     with_guards hmac secret (Some [API_KEYS_WRITE]) h now (ApiKeysService_create hmac secret ctx dto bytes6 bytes32 newId now)"

definition ApiKeysController_revoke where
  "ApiKeysController_revoke hmac secret h ctx k now =
     with_guards hmac secret (Some [API_KEYS_WRITE]) h now (ApiKeysService_revoke ctx k now)"

text \<open>
  The life of the table: requests to this controller, the guard of any other request, and whatever else happens,
  since no other code writes API keys.
\<close>

inductive key_step :: "hmac \<Rightarrow> string option \<Rightarrow> db \<Rightarrow> db \<Rightarrow> bool" for hmac secret where
  create: "ApiKeysController_create hmac secret h ctx dto bytes6 bytes32 newId now d = (r, d') \<Longrightarrow> key_step hmac secret d d'"
| revoke: "ApiKeysController_revoke hmac secret h ctx k now d = (r, d') \<Longrightarrow> key_step hmac secret d d'"
| guard: "ApiKeyGuard_canActivate hmac secret d isPublic h now = Inr (p, d') \<Longrightarrow> key_step hmac secret d d'"
| other: "apiKeys d' = apiKeys d \<Longrightarrow> key_step hmac secret d d'"

inductive key_reachable :: "hmac \<Rightarrow> string option \<Rightarrow> db \<Rightarrow> db \<Rightarrow> bool" for hmac secret d where
  start: "key_reachable hmac secret d d"
| step: "key_reachable hmac secret d d' \<Longrightarrow> key_step hmac secret d' d'' \<Longrightarrow> key_reachable hmac secret d d''"

section \<open>What the guards do\<close>

lemma case_option_Inr: "(case m of None \<Rightarrow> Inl e | Some x \<Rightarrow> f x) = Inr y \<longleftrightarrow> (\<exists>x. m = Some x \<and> f x = Inr y)"
  by (cases m) auto

lemma if_Inl_Inr: "(if b then Inl e else m) = Inr y \<longleftrightarrow> \<not> b \<and> m = Inr y"
  by simp

lemma hash_secret_Some [simp]: "s \<noteq> [] \<Longrightarrow> hash_secret (Some s) = Inr s"
  by (simp add: hash_secret_def)

lemmas step_Inr = bindE_Inr throwIf_Inr case_option_Inr if_Inl_Inr

definition keys_ok :: "db \<Rightarrow> bool" where
  "keys_ok d \<longleftrightarrow> api_keys_unique (apiKeys d) \<and>
     (\<forall>k \<in> set (apiKeys d). \<exists>t \<in> set (tenants d). tn_id t = ak_tenantId k) \<and> distinct (map tn_id (tenants d))"

text \<open>The specification of authentication: the key a header stands for, if it is in force.\<close>

definition in_force :: "hmac \<Rightarrow> string \<Rightarrow> db \<Rightarrow> header \<Rightarrow> api_key_row \<Rightarrow> bool" where
  "in_force hmac s d h k \<longleftrightarrow> (\<exists>raw. raw_key h = Some raw \<and> raw \<noteq> [] \<and> k \<in> set (apiKeys d) \<and> ak_keyHash k = hmac s raw) \<and>
     ak_active k \<and> ak_revokedAt k = None \<and> (\<exists>t \<in> set (tenants d). tn_id t = ak_tenantId k \<and> tn_status t = ACTIVE)"

lemma findFirst_hash:
  "api_keys_unique rows \<Longrightarrow> findFirst (\<lambda>r. ak_keyHash r = x) rows = Some k \<longleftrightarrow> k \<in> set rows \<and> ak_keyHash k = x"
  using findFirst_key [of ak_keyHash rows k "\<lambda>_. True"] by (auto simp: api_keys_unique_def dest: findFirst_SomeD)

lemma tenant_active_iff:
  assumes "keys_ok d" and "k \<in> set (apiKeys d)"
  shows "tenant_active d k = Inr (\<exists>t \<in> set (tenants d). tn_id t = ak_tenantId k \<and> tn_status t = ACTIVE)"
proof -
  from assms obtain t where t: "t \<in> set (tenants d)" "tn_id t = ak_tenantId k" by (auto simp: keys_ok_def)
  have d: "distinct (map tn_id (tenants d))" using assms by (simp add: keys_ok_def)
  have "findFirst (\<lambda>x. tn_id x = ak_tenantId k) (tenants d) = Some t"
    using findFirst_key [OF d t(1), of "\<lambda>_. True"] t(2) by simp
  moreover have "x = t" if "x \<in> set (tenants d)" "tn_id x = ak_tenantId k" for x
    using inj_onD [of tn_id "set (tenants d)" x t] d that t by (simp add: distinct_map)
  then have "(\<exists>x \<in> set (tenants d). tn_id x = ak_tenantId k \<and> tn_status x = ACTIVE) \<longleftrightarrow> tn_status t = ACTIVE" using t by blast
  ultimately show ?thesis by (simp add: tenant_active_def)
qed

lemma in_force_row:
  assumes "keys_ok d" and "raw_key h = Some raw" and "k \<in> set (apiKeys d)" and "ak_keyHash k = hmac s raw"
  shows "in_force hmac s d h k' \<longleftrightarrow> k' = k \<and> raw \<noteq> [] \<and> ak_active k \<and> ak_revokedAt k = None \<and> tenant_active d k = Inr True"
proof -
  have "k' = k" if "k' \<in> set (apiKeys d)" "ak_keyHash k' = hmac s raw"
    using inj_onD [of ak_keyHash "set (apiKeys d)" k' k] assms that by (simp add: keys_ok_def api_keys_unique_def distinct_map)
  then show ?thesis using assms(2-4) by (auto simp: in_force_def tenant_active_iff [OF assms(1,3)])
qed

lemma guard_Inr:
  assumes "keys_ok d" and "s \<noteq> []"
  shows "ApiKeyGuard_canActivate hmac (Some s) d False h now = Inr (p, d') \<longleftrightarrow>
     (\<exists>k. in_force hmac s d h k \<and> p = Some (principal_of k) \<and> d' = touch_key k now d)"
proof (cases "raw_key h")
  case (Some raw)
  show ?thesis
  proof (cases "findFirst (\<lambda>r. ak_keyHash r = hmac s raw) (apiKeys d)")
    case None
    then have "\<not> in_force hmac s d h k" for k using Some by (auto simp: in_force_def findFirst_None)
    moreover have "ApiKeyGuard_canActivate hmac (Some s) d False h now \<noteq> Inr (p, d')"
      using Some None assms(2) by (simp add: ApiKeyGuard_canActivate_def hashApiKey_def bindE_Inr)
    ultimately show ?thesis by blast
  next
    case k: (Some k)
    then have "k \<in> set (apiKeys d)" "ak_keyHash k = hmac s raw" by (auto dest: findFirst_SomeD)
    note row = in_force_row [where s = s and hmac = hmac, OF assms(1) Some this] tenant_active_iff [OF assms(1) this(1)]
    show ?thesis using Some k assms(2) by (auto simp: ApiKeyGuard_canActivate_def hashApiKey_def row db_simps split: if_split_asm)
  qed
qed (simp add: ApiKeyGuard_canActivate_def in_force_def)

lemma guard_Inl:
  assumes "keys_ok d" and "s \<noteq> []"
  shows "ApiKeyGuard_canActivate hmac (Some s) d False h now = Inl e \<Longrightarrow> (\<exists>m. e = Unauthorized m) \<and> (\<forall>k. \<not> in_force hmac s d h k)"
proof -
  have u: "api_keys_unique (apiKeys d)" using assms by (simp add: keys_ok_def)
  assume a: "ApiKeyGuard_canActivate hmac (Some s) d False h now = Inl e"
  have "\<not> in_force hmac s d h k" for k using a guard_Inr [OF assms, of hmac h now "Some (principal_of k)" "touch_key k now d"] by auto
  moreover have "\<exists>m. e = Unauthorized m" using a assms(2)
    by (auto simp: ApiKeyGuard_canActivate_def INVALID_KEY_def findFirst_hash [OF u] tenant_active_iff [OF assms(1)] hashApiKey_def
      split: option.split_asm if_split_asm)
  ultimately show ?thesis by blast
qed

lemma in_force_unique: "keys_ok d \<Longrightarrow> in_force hmac s d h k \<Longrightarrow> in_force hmac s d h k' \<Longrightarrow> k' = k"
  using in_force_row by (metis in_force_def)

lemma scopes_Inr: "ScopesGuard_canActivate False (Some req) (Some p) = Inr () \<longleftrightarrow> set req \<subseteq> set (ap_scopes p)"
  by (auto simp: ScopesGuard_canActivate_def Let_def filter_empty_conv)

lemma scopes_Inl: "ScopesGuard_canActivate False (Some req) (Some p) = Inl e \<Longrightarrow> (\<exists>m. e = Forbidden m) \<and> \<not> set req \<subseteq> set (ap_scopes p)"
  by (auto simp: ScopesGuard_canActivate_def Let_def filter_empty_conv split: if_split_asm)

section \<open>What the operations do to the table\<close>

lemma touch_key_rows: "apiKeys (touch_key k now d) = apiKeys d \<or>
    apiKeys (touch_key k now d) = updateApiKey (ak_id k) (\<lambda>r. r\<lparr>ak_lastUsedAt := Some now\<rparr>) (apiKeys d)"
  by (simp add: touch_key_def)

lemma api_keys_add_audit [simp]: "apiKeys (add_audit a d) = apiKeys d" "tenants (add_audit a d) = tenants d"
  by (simp_all add: add_audit_def split: option.split)

lemma guard_rows:
  assumes "ApiKeyGuard_canActivate hmac secret d isPublic h now = Inr (p, d')"
  shows "p = None \<and> d' = d \<or> (\<exists>k \<in> set (apiKeys d). p = Some (principal_of k) \<and> d' = touch_key k now d)"
  using assms by (cases isPublic) (auto simp: ApiKeyGuard_canActivate_def step_Inr dest!: findFirst_SomeD)

text \<open>Either the handler did not run, or it ran for a stored key that has the scopes.\<close>

lemma with_guards_cases:
  assumes "with_guards hmac secret (Some req) h now handler d = (r, d')"
  obtains e where "r = Inl e" and "d' = d"
  | k e where "k \<in> set (apiKeys d)" and "r = Inl e" and "d' = touch_key k now d"
  | k x where "k \<in> set (apiKeys d)" and "set req \<subseteq> set (ak_scopes k)" and "handler (principal_of k) (touch_key k now d) = Inr (x, d')" and "r = Inr x"
proof (cases "ApiKeyGuard_canActivate hmac secret d False h now")
  case (Inl e)
  then show ?thesis using assms that(1) [of e] by (simp add: with_guards_def)
next
  case (Inr x)
  obtain q d1 where x: "x = (q, d1)" by (cases x)
  have "q \<noteq> None" using Inr x by (auto simp: ApiKeyGuard_canActivate_def step_Inr)
  then obtain k where k: "k \<in> set (apiKeys d)" "q = Some (principal_of k)" "d1 = touch_key k now d"
    using guard_rows [OF Inr [unfolded x]] by blast
  show ?thesis
  proof (cases "ScopesGuard_canActivate False (Some req) (Some (principal_of k))")
    case (Inl e)
    then show ?thesis using assms that(2) [OF k(1), of e] k by (simp add: with_guards_def Inr x)
  next
    case u: (Inr u)
    then have s: "set req \<subseteq> set (ak_scopes k)" using scopes_Inr [of req "principal_of k"] by (simp add: principal_of_def)
    show ?thesis
    proof (cases "handler (principal_of k) (touch_key k now d)")
      case (Inl e)
      then show ?thesis using assms that(2) [OF k(1), of e] k by (simp add: with_guards_def Inr x u CurrentPrincipal_def)
    next
      case y: (Inr y)
      then show ?thesis using assms that(3) [OF k(1) s] k by (cases y) (simp add: with_guards_def Inr x u CurrentPrincipal_def)
    qed
  qed
qed

lemma create_effect_keys:
  assumes "ApiKeysService_create hmac secret ctx dto bytes6 bytes32 newId now p d = Inr (x, d')"
  shows "\<exists>k. apiKeys d' = apiKeys d @ [k] \<and> tenants d' = tenants d \<and> api_keys_unique (apiKeys d') \<and> ak_tenantId k = ap_tenantId p \<and> set (ak_scopes k) \<subseteq> set (ap_scopes p) \<and>
     ak_active k \<and> ak_revokedAt k = None"
proof -
  obtain rawKey prefix where g: "generateApiKey bytes6 bytes32 = (rawKey, prefix)" by (cases "generateApiKey bytes6 bytes32")
  show ?thesis using assms by (auto simp: ApiKeysService_create_def Let_def g bindE_Inr throwIf_Inr filter_empty_conv split: if_split_asm)
qed

lemma revoke_effect:
  assumes "ApiKeysService_revoke ctx k now p d = Inr (x, d')"
  shows "apiKeys d' = apiKeys d \<and> tenants d' = tenants d \<or>
    apiKeys d' = updateApiKey k (\<lambda>r. r\<lparr>ak_active := False, ak_revokedAt := Some now\<rparr>) (apiKeys d) \<and> tenants d' = tenants d"
  using assms by (auto simp: ApiKeysService_revoke_def Let_def split: option.split_asm if_split_asm)

text \<open>
  Every step keeps the rows, with their identity and scopes, and never makes an inactive one active; a new row has scopes of a key of its
  tenant that may write keys.
\<close>

definition same_key :: "api_key_row \<Rightarrow> api_key_row \<Rightarrow> bool" where
  "same_key k k' \<longleftrightarrow> ak_id k' = ak_id k \<and> ak_tenantId k' = ak_tenantId k \<and> ak_keyHash k' = ak_keyHash k \<and> ak_scopes k' = ak_scopes k \<and>
     (ak_active k' \<longrightarrow> ak_active k) \<and> (ak_active k' \<and> ak_revokedAt k' = None \<longrightarrow> ak_revokedAt k = None)"

definition delegated :: "api_key_row \<Rightarrow> api_key_row \<Rightarrow> bool" where
  "delegated k k' \<longleftrightarrow> ak_tenantId k' = ak_tenantId k \<and> API_KEYS_WRITE \<in> set (ak_scopes k) \<and> set (ak_scopes k') \<subseteq> set (ak_scopes k)"

inductive evolves :: "api_key_row list \<Rightarrow> api_key_row list \<Rightarrow> bool" where
  kept: "list_all2 same_key rows rows' \<Longrightarrow> evolves rows rows'"
| added: "list_all2 same_key rows rows' \<Longrightarrow> k \<in> set rows \<Longrightarrow> delegated k n \<Longrightarrow> api_keys_unique (rows' @ [n]) \<Longrightarrow> evolves rows (rows' @ [n])"

lemma same_key_refl [simp]: "same_key k k"
  by (simp add: same_key_def)

lemma same_keys_refl [simp]: "list_all2 same_key rows rows"
  by (simp add: list.rel_refl)

lemma same_keys_updateApiKey: "(\<And>r. same_key r (f r)) \<Longrightarrow> list_all2 same_key rows (updateApiKey k f rows)"
  by (induction rows) (simp_all add: updateApiKey_def updateMany_def)

lemma same_keys_revoke: "list_all2 same_key rows (updateApiKey k (\<lambda>r. r\<lparr>ak_active := False, ak_revokedAt := Some now\<rparr>) rows)"
  by (rule same_keys_updateApiKey) (simp add: same_key_def)

lemma same_keys_last: "list_all2 same_key rows (updateApiKey k (\<lambda>r. r\<lparr>ak_lastUsedAt := Some now\<rparr>) rows)"
  by (rule same_keys_updateApiKey) (simp add: same_key_def)

lemma same_keys_touch: "list_all2 same_key (apiKeys d) (apiKeys (touch_key k now d))"
  using touch_key_rows [of k now d] same_keys_last by (metis same_keys_refl)

lemma same_key_trans: "same_key a b \<Longrightarrow> same_key b c \<Longrightarrow> same_key a c"
  by (auto simp: same_key_def)

lemma same_keys_trans: "list_all2 same_key xs ys \<Longrightarrow> list_all2 same_key ys zs \<Longrightarrow> list_all2 same_key xs zs"
  by (rule list_all2_trans [OF same_key_trans])

lemma revoke_rows:
  assumes "ApiKeysService_revoke ctx k now p d = Inr (x, d')"
  shows "list_all2 same_key (apiKeys d) (apiKeys d')"
  using revoke_effect [OF assms] by (elim disjE) (simp_all add: same_keys_revoke)

lemma guard_evolves: "ApiKeyGuard_canActivate hmac secret d isPublic h now = Inr (p, d') \<Longrightarrow> evolves (apiKeys d) (apiKeys d')"
  by (drule guard_rows, elim disjE bexE conjE) (simp_all add: evolves.kept same_keys_touch)

lemma key_step_evolves:
  assumes "key_step hmac secret d d'"
  shows "evolves (apiKeys d) (apiKeys d')"
  using assms
proof cases
  case (create h ctx dto bytes6 bytes32 newId now r)
  from create [unfolded ApiKeysController_create_def] show ?thesis
  proof (cases rule: with_guards_cases)
    case (3 k x)
    from create_effect_keys [OF 3(3)] obtain n where n: "apiKeys d' = apiKeys (touch_key k now d) @ [n]" "api_keys_unique (apiKeys d')"
      "ak_tenantId n = ap_tenantId (principal_of k)" "set (ak_scopes n) \<subseteq> set (ap_scopes (principal_of k))" by blast
    have "delegated k n" using n(3,4) 3(2) by (simp add: delegated_def principal_of_def)
    then show ?thesis using evolves.added [OF same_keys_touch 3(1), of n] n(1,2) by simp
  qed (simp_all add: evolves.kept same_keys_touch)
next
  case (revoke h ctx k now r)
  from revoke [unfolded ApiKeysController_revoke_def] show ?thesis
  proof (cases rule: with_guards_cases)
    case (3 k' x)
    show ?thesis by (rule evolves.kept [OF same_keys_trans [OF same_keys_touch revoke_rows [OF 3(3)]]])
  qed (simp_all add: evolves.kept same_keys_touch)
next
  case (guard isPublic h now p)
  then show ?thesis by (rule guard_evolves)
qed (simp add: evolves.kept)

section \<open>The origin and the end of keys\<close>

lemma same_keys_unique: "list_all2 same_key rows rows' \<Longrightarrow> api_keys_unique rows' = api_keys_unique rows"
proof -
  assume "list_all2 same_key rows rows'"
  then have "map ak_id rows' = map ak_id rows" "map ak_keyHash rows' = map ak_keyHash rows"
    by (induction rule: list_all2_induct) (simp_all add: same_key_def)
  then show ?thesis by (simp add: api_keys_unique_def)
qed

lemma list_all2_in_set1: "list_all2 P xs ys \<Longrightarrow> x \<in> set xs \<Longrightarrow> \<exists>y \<in> set ys. P x y"
  by (induction rule: list_all2_induct) auto

lemma list_all2_in_set2: "list_all2 P xs ys \<Longrightarrow> y \<in> set ys \<Longrightarrow> \<exists>x \<in> set xs. P x y"
  by (induction rule: list_all2_induct) auto

definition descends :: "api_key_row list \<Rightarrow> api_key_row \<Rightarrow> bool" where
  "descends roots k \<longleftrightarrow> (\<exists>r \<in> set roots. same_key r k \<or> delegated r k)"

lemma evolves_descends: "evolves rows rows' \<Longrightarrow> k' \<in> set rows' \<Longrightarrow> descends rows k'"
proof (induction rule: evolves.induct)
  case (kept rows rows')
  then show ?case using list_all2_in_set2 [OF kept] by (auto simp: descends_def)
next
  case (added rows rows' k n)
  then show ?case by (auto simp: descends_def dest: list_all2_in_set2)
qed

lemma descends_trans: "descends roots k \<Longrightarrow> same_key k k' \<or> delegated k k' \<Longrightarrow> descends roots k'"
proof -
  assume "descends roots k" and k: "same_key k k' \<or> delegated k k'"
  then obtain r where r: "r \<in> set roots" "same_key r k \<or> delegated r k" by (auto simp: descends_def)
  from r(2) k have "same_key r k' \<or> delegated r k'" by (elim disjE) (auto simp: delegated_def same_key_def)
  with r(1) show ?thesis by (auto simp: descends_def)
qed

lemma key_reachable_descends: "key_reachable hmac secret d d' \<Longrightarrow> k \<in> set (apiKeys d') \<Longrightarrow> descends (apiKeys d) k"
proof (induction arbitrary: k rule: key_reachable.induct)
  case (step d' d'')
  from evolves_descends [OF key_step_evolves [OF step(2)] step(4)] obtain r where "r \<in> set (apiKeys d')" "same_key r k \<or> delegated r k"
    by (auto simp: descends_def)
  then show ?case using step.IH descends_trans by blast
next
  case start
  then show ?case unfolding descends_def by (intro bexI [of _ k]) simp_all
qed

text \<open>A key hash that is out of use stays so.\<close>

definition dead_hash :: "string \<Rightarrow> api_key_row list \<Rightarrow> bool" where
  "dead_hash x rows \<longleftrightarrow> api_keys_unique rows \<and> (\<exists>k \<in> set rows. ak_keyHash k = x \<and> (\<not> ak_active k \<or> ak_revokedAt k \<noteq> None))"

lemma same_keys_dead: "list_all2 same_key rows rows' \<Longrightarrow> dead_hash x rows \<Longrightarrow> dead_hash x rows'"
proof -
  assume a: "list_all2 same_key rows rows'" and d: "dead_hash x rows"
  then obtain k where "k \<in> set rows" "ak_keyHash k = x" "\<not> ak_active k \<or> ak_revokedAt k \<noteq> None" by (auto simp: dead_hash_def)
  moreover from list_all2_in_set1 [OF a this(1)] obtain k' where "k' \<in> set rows'" "same_key k k'" by blast
  ultimately show ?thesis using d same_keys_unique [OF a] by (auto simp: dead_hash_def same_key_def)
qed

lemma evolves_dead: "evolves rows rows' \<Longrightarrow> dead_hash x rows \<Longrightarrow> dead_hash x rows'"
proof (induction rule: evolves.induct)
  case (added rows rows' k n)
  then show ?case using same_keys_dead [OF added(1,5)] by (auto simp: dead_hash_def)
qed (rule same_keys_dead)

lemma key_reachable_dead: "key_reachable hmac secret d d' \<Longrightarrow> dead_hash x (apiKeys d) \<Longrightarrow> dead_hash x (apiKeys d')"
  by (induction rule: key_reachable.induct) (auto intro: evolves_dead key_step_evolves)

lemma dead_hash_refused:
  assumes "dead_hash (hmac s raw) (apiKeys d)" and "raw_key h = Some raw" and "raw \<noteq> []" and "s \<noteq> []"
  shows "ApiKeyGuard_canActivate hmac (Some s) d False h now = Inl INVALID_KEY"
proof -
  from assms(1) obtain k where k: "k \<in> set (apiKeys d)" "ak_keyHash k = hmac s raw" "\<not> ak_active k \<or> ak_revokedAt k \<noteq> None" and
    u: "api_keys_unique (apiKeys d)" by (auto simp: dead_hash_def)
  then have "findFirst (\<lambda>r. ak_keyHash r = hmac s raw) (apiKeys d) = Some k" by (simp add: findFirst_hash)
  then show ?thesis using assms(2-4) k(3) by (simp add: ApiKeyGuard_canActivate_def hashApiKey_def)
qed

lemma revoke_kills:
  assumes "ApiKeysService_revoke ctx k now p d = Inr (x, d')" and "api_keys_unique (apiKeys d)" and "r \<in> set (apiKeys d)" and "ak_id r = k"
  shows "dead_hash (ak_keyHash r) (apiKeys d')"
proof -
  from assms(1) obtain e where e: "findFirst (\<lambda>r. ak_id r = k \<and> ak_tenantId r = ap_tenantId p) (apiKeys d) = Some e"
    by (auto simp: ApiKeysService_revoke_def split: option.split_asm)
  then have "e \<in> set (apiKeys d)" "ak_id e = k" by (auto dest: findFirst_SomeD)
  then have er: "e = r" using assms(2-4) inj_onD [of ak_id "set (apiKeys d)" e r] by (simp add: api_keys_unique_def distinct_map)
  show ?thesis
  proof (cases "\<not> ak_active r \<or> ak_revokedAt r \<noteq> None")
    case True
    then have "d' = d" using assms(1) e er by (simp add: ApiKeysService_revoke_def)
    then show ?thesis using True assms(2,3) by (auto simp: dead_hash_def)
  next
    case False
    let ?f = "\<lambda>r. r\<lparr>ak_active := False, ak_revokedAt := Some now\<rparr>"
    have rows: "apiKeys d' = updateApiKey k ?f (apiKeys d)" using assms(1) e er False by (auto simp: ApiKeysService_revoke_def Let_def)
    have "?f r \<in> set (apiKeys d')" unfolding rows updateApiKey_def set_updateMany using assms(3,4) by (intro image_eqI [of _ _ r]) auto
    moreover have "api_keys_unique (apiKeys d')" unfolding rows using same_keys_unique [OF same_keys_revoke] assms(2) by simp
    ultimately show ?thesis unfolding dead_hash_def by (intro conjI bexI [of _ "?f r"]) simp_all
  qed
qed

lemma with_guards_Inr:
  assumes "keys_ok d" and "s \<noteq> []" and "with_guards hmac (Some s) (Some req) h now handler d = (Inr x, d')"
  shows "\<exists>k. in_force hmac s d h k \<and> set req \<subseteq> set (ak_scopes k) \<and> handler (principal_of k) (touch_key k now d) = Inr (x, d')"
proof -
  from assms(3) obtain q d1 where g: "ApiKeyGuard_canActivate hmac (Some s) d False h now = Inr (q, d1)"
    by (auto simp: with_guards_def split: sum.split_asm)
  with guard_Inr [OF assms(1,2)] obtain k where k: "in_force hmac s d h k" "q = Some (principal_of k)" "d1 = touch_key k now d" by blast
  have "bindE (ScopesGuard_canActivate False (Some req) (Some (principal_of k))) (\<lambda>_. handler (principal_of k) (touch_key k now d)) = Inr (x, d')"
    using assms(3) by (simp add: with_guards_def g k CurrentPrincipal_def split: sum.split_asm prod.split_asm)
  then show ?thesis using k(1) scopes_Inr [of req "principal_of k"] by (auto simp: bindE_Inr principal_of_def)
qed

lemma create_result:
  assumes "ApiKeysService_create hmac (Some s) ctx dto bytes6 bytes32 newId now p d = Inr ((raw, sk), d')" and "s \<noteq> []"
  shows "\<exists>k. apiKeys d' = apiKeys d @ [k] \<and> tenants d' = tenants d \<and> api_keys_unique (apiKeys d') \<and> ak_keyHash k = hmac s raw \<and> raw \<noteq> [] \<and>
     ak_active k \<and> ak_revokedAt k = None \<and> principal_of k = \<lparr>ap_tenantId = ap_tenantId p, ap_apiKeyId = newId, ap_scopes = js_set (ck_scopes dto)\<rparr> \<and>
     sk = safeApiKey k"
  using assms by (auto simp: ApiKeysService_create_def Let_def generateApiKey_def KEY_PREFIX_def hashApiKey_def principal_of_def bindE_Inr throwIf_Inr
    split: if_split_asm)

lemma tenants_touch [simp]: "tenants (touch_key k now d) = tenants d"
  by (simp add: touch_key_def)

lemma keys_ok_snoc:
  assumes "keys_ok d" and "apiKeys d' = rows @ [n]" and "list_all2 same_key (apiKeys d) rows" and "tenants d' = tenants d"
    and "api_keys_unique (apiKeys d')" and "k \<in> set (apiKeys d)" and "ak_tenantId n = ak_tenantId k"
  shows "keys_ok d'"
proof -
  have "\<exists>t \<in> set (tenants d). tn_id t = ak_tenantId r" if "r \<in> set rows" for r
    using list_all2_in_set2 [OF assms(3) that] assms(1) by (auto simp: keys_ok_def same_key_def)
  then show ?thesis using assms by (auto simp: keys_ok_def)
qed

section \<open>Properties\<close>

text \<open>
  C17. The answer of the guards, for a handler that requires the scopes \<open>req\<close>: 401 exactly when the header stands for no key in
  force (unknown, deactivated, revoked, or of a suspended tenant), 403 exactly when it does but the key lacks a scope, and otherwise the
  handler runs as the key's tenant, id and scopes. Nothing else is answered.
\<close>
theorem guards_answer:
  assumes "keys_ok d" and "s \<noteq> []" and r: "fst (with_guards hmac (Some s) (Some req) h now (\<lambda>p d. Inr (p, d)) d) = r"
  shows "((\<exists>m. r = Inl (Unauthorized m)) \<longleftrightarrow> (\<forall>k. \<not> in_force hmac s d h k)) \<and>
     ((\<exists>m. r = Inl (Forbidden m)) \<longleftrightarrow> (\<exists>k. in_force hmac s d h k \<and> \<not> set req \<subseteq> set (ak_scopes k))) \<and>
     (\<forall>p. r = Inr p \<longleftrightarrow> (\<exists>k. in_force hmac s d h k \<and> set req \<subseteq> set (ak_scopes k) \<and> p = principal_of k))"
proof (cases "ApiKeyGuard_canActivate hmac (Some s) d False h now")
  case (Inl e)
  then show ?thesis using guard_Inl [OF assms(1,2) Inl] by (auto simp: r [symmetric] with_guards_def)
next
  case (Inr x)
  obtain q d' where x: "x = (q, d')" by (cases x)
  from Inr guard_Inr [OF assms(1,2)] obtain k where k: "in_force hmac s d h k" "q = Some (principal_of k)" unfolding x by blast
  have one: "in_force hmac s d h k' \<longleftrightarrow> k' = k" for k' using k(1) in_force_unique [OF assms(1) k(1)] by blast
  have r': "r = (case ScopesGuard_canActivate False (Some req) (Some (principal_of k)) of Inl e \<Rightarrow> Inl e | Inr _ \<Rightarrow> Inr (principal_of k))"
    by (simp add: r [symmetric] with_guards_def Inr x k(2) CurrentPrincipal_def split: sum.split)
  show ?thesis
  proof (cases "ScopesGuard_canActivate False (Some req) (Some (principal_of k))")
    case (Inl e)
    then show ?thesis using scopes_Inl [OF Inl] by (auto simp: r' one principal_of_def)
  next
    case (Inr u)
    then have "set req \<subseteq> set (ak_scopes k)" using scopes_Inr [of req "principal_of k"] by (simp add: principal_of_def)
    then show ?thesis by (auto simp: r' Inr one)
  qed
qed

text \<open>
  C18. No privilege is gained. In every later state of the table a key is one of those there were, with the same tenant and scopes, or its
  scopes are among those of one key of its tenant that was there at the start and may write API keys, however long the chain of keys
  that created keys.
\<close>
theorem no_scope_escalation:
  assumes "key_reachable hmac secret d d'" and "k \<in> set (apiKeys d')"
  shows "\<exists>r \<in> set (apiKeys d). ak_tenantId r = ak_tenantId k \<and>
     (ak_id r = ak_id k \<and> ak_scopes r = ak_scopes k \<or> API_KEYS_WRITE \<in> set (ak_scopes r) \<and> set (ak_scopes k) \<subseteq> set (ak_scopes r))"
  using key_reachable_descends [OF assms] by (auto simp: descends_def same_key_def delegated_def)

text \<open>
  C19. Once a request has revoked a key, no request with it is ever authenticated again, whatever requests come in between and whatever
  happens to the other tables.
\<close>
theorem revoked_key_stays_dead:
  assumes "api_keys_unique (apiKeys d)" and "ApiKeysController_revoke hmac (Some s) h ctx k now d = (Inr x, d')"
    and "r \<in> set (apiKeys d)" and "ak_id r = k" and "key_reachable hmac (Some s) d' d''"
    and "s \<noteq> []" and "raw_key h' = Some raw" and "raw \<noteq> []" and "hmac s raw = ak_keyHash r"
  shows "ApiKeyGuard_canActivate hmac (Some s) d'' False h' now' = Inl (Unauthorized ''Invalid or inactive API key'')"
proof -
  from assms(2) [unfolded ApiKeysController_revoke_def] have "dead_hash (ak_keyHash r) (apiKeys d')"
  proof (cases rule: with_guards_cases)
    case (3 k' y)
    from list_all2_in_set1 [OF same_keys_touch assms(3), of k' now] obtain r' where
      r': "r' \<in> set (apiKeys (touch_key k' now d))" "ak_id r' = k" "ak_keyHash r' = ak_keyHash r"
      using assms(4) by (auto simp: same_key_def)
    have "api_keys_unique (apiKeys (touch_key k' now d))" using same_keys_unique [OF same_keys_touch] assms(1) by simp
    from revoke_kills [OF 3(3) this r'(1,2)] show ?thesis unfolding r'(3) .
  qed simp_all
  from key_reachable_dead [OF assms(5) this] have "dead_hash (hmac s raw) (apiKeys d'')" unfolding assms(9) .
  then show ?thesis using dead_hash_refused assms(6-8) unfolding INVALID_KEY_def by blast
qed

text \<open>
  C20. A key that was issued works: the raw key in the answer of a creation authenticates as the new key, with the tenant of the key
  that asked for it and the requested scopes, as long as nothing has happened in between.
\<close>
theorem issued_key_authenticates:
  assumes "keys_ok d" and "s \<noteq> []" and "ApiKeysController_create hmac (Some s) h ctx dto bytes6 bytes32 newId now d = (Inr (raw, sk), d')"
  shows "\<exists>issuer d''. in_force hmac s d h issuer \<and> sk_id sk = newId \<and> sk_scopes sk = js_set (ck_scopes dto) \<and>
     ApiKeyGuard_canActivate hmac (Some s) d' False (HeaderText raw) now' =
       Inr (Some \<lparr>ap_tenantId = ak_tenantId issuer, ap_apiKeyId = newId, ap_scopes = js_set (ck_scopes dto)\<rparr>, d'')"
proof -
  from with_guards_Inr [OF assms(1,2) assms(3) [unfolded ApiKeysController_create_def]] obtain issuer where
    i: "in_force hmac s d h issuer"
    "ApiKeysService_create hmac (Some s) ctx dto bytes6 bytes32 newId now (principal_of issuer) (touch_key issuer now d) = Inr ((raw, sk), d')" by blast
  from create_result [OF i(2) assms(2)] obtain k where k: "apiKeys d' = apiKeys (touch_key issuer now d) @ [k]" "tenants d' = tenants d"
    "api_keys_unique (apiKeys d')" "ak_keyHash k = hmac s raw" "raw \<noteq> []" "ak_active k" "ak_revokedAt k = None" "sk = safeApiKey k" and
    p: "principal_of k = \<lparr>ap_tenantId = ak_tenantId issuer, ap_apiKeyId = newId, ap_scopes = js_set (ck_scopes dto)\<rparr>" by (auto simp: principal_of_def)
  have issuer: "issuer \<in> set (apiKeys d)" "ak_tenantId k = ak_tenantId issuer" using i(1) p by (auto simp: in_force_def principal_of_def)
  have ok: "keys_ok d'" by (rule keys_ok_snoc [OF assms(1) k(1) same_keys_touch k(2,3) issuer])
  have "in_force hmac s d' (HeaderText raw) k" using i(1) k issuer(2) by (auto simp: in_force_def)
  with guard_Inr [OF ok assms(2)] have "ApiKeyGuard_canActivate hmac (Some s) d' False (HeaderText raw) now' =
      Inr (Some (principal_of k), touch_key k now' d')" by blast
  moreover have "sk_id sk = newId" "sk_scopes sk = js_set (ck_scopes dto)" using p k(8) by (simp_all add: principal_of_def safeApiKey_def)
  ultimately show ?thesis using i(1) unfolding p by blast
qed

section \<open>The format of keys\<close>

lemma base64_digits_inj:
  assumes "base64_digits n v = base64_digits n w" and "v < 64 ^ n" and "w < 64 ^ n"
  shows "v = w"
proof -
  have d: "v div 64 ^ i mod 64 = w div 64 ^ i mod 64" if "i < n" for i
  proof -
    have "base64_digits n v ! (n - Suc i) = base64_digits n w ! (n - Suc i)" using assms(1) by simp
    then have "base64url_chars ! (v div 64 ^ i mod 64) = base64url_chars ! (w div 64 ^ i mod 64)" using that by (simp add: base64_digits_def)
    moreover have "distinct base64url_chars" "length base64url_chars = 64" by (simp_all add: base64url_chars_def)
    ultimately show ?thesis by (simp add: nth_eq_iff_index_eq)
  qed
  have "v mod 64 ^ m = w mod 64 ^ m" if "m \<le> n" for m
    using that
  proof (induction m)
    case (Suc m)
    then show ?case using d [of m] by (simp add: mult.commute [of 64] mod_mult2_eq)
  qed simp
  from this [of n] show ?thesis using assms(2,3) by simp
qed

lemma split256: "m * 256 + unat (a :: byte) = n * 256 + unat (b :: byte) \<Longrightarrow> m = n \<and> a = b"
proof -
  assume e: "m * 256 + unat a = n * 256 + unat b"
  have "m = n" using arg_cong [OF e, of "\<lambda>x. x div 256"] by simp
  then show ?thesis using e by (simp add: word_unat_eq_iff)
qed

lemma base64url_inj: "base64url bs = base64url cs \<Longrightarrow> length bs = length cs \<Longrightarrow> bs = cs"
proof (induction bs arbitrary: cs rule: base64url.induct)
  case (2 a)
  then obtain c where c: "cs = [c]" by (cases cs rule: base64url.cases) simp_all
  have "unat a * 16 = unat c * 16" using 2 c unat_byte_less [of a] unat_byte_less [of c] by (intro base64_digits_inj [of 2]) (simp_all del: unat_byte_less)
  then show ?case using c by (simp add: word_unat_eq_iff)
next
  case (3 a b)
  then obtain c e where c: "cs = [c, e]" by (cases cs rule: base64url.cases) simp_all
  have "(unat a * 256 + unat b) * 4 = (unat c * 256 + unat e) * 4"
    using 3 c unat_byte_less [of a] unat_byte_less [of b] unat_byte_less [of c] unat_byte_less [of e] by (intro base64_digits_inj [of 3]) (simp_all del: unat_byte_less)
  then have "unat a * 256 + unat b = unat c * 256 + unat e" by simp
  then have "unat a = unat c \<and> b = e" by (rule split256)
  then show ?case using c by (simp add: word_unat_eq_iff)
next
  case (4 a b c bs)
  then obtain e f g rest where cs: "cs = e # f # g # rest" by (cases cs rule: base64url.cases) simp_all
  have l: "length (base64_digits 4 v) = 4" for v by (simp add: base64_digits_def)
  have d: "base64_digits 4 ((unat a * 256 + unat b) * 256 + unat c) = base64_digits 4 ((unat e * 256 + unat f) * 256 + unat g)"
    and r: "base64url bs = base64url rest" using 4(2) cs l by (simp_all add: append_eq_append_conv)
  have "(unat a * 256 + unat b) * 256 + unat c = (unat e * 256 + unat f) * 256 + unat g"
    using unat_byte_less [of a] unat_byte_less [of b] unat_byte_less [of c] unat_byte_less [of e] unat_byte_less [of f] unat_byte_less [of g]
    by (intro base64_digits_inj [OF d]) (simp_all del: unat_byte_less)
  from split256 [OF this] have "unat a = unat e \<and> b = f \<and> c = g" using split256 by blast
  moreover have "bs = rest" using 4(1) [OF r] 4(3) cs by simp
  ultimately show ?case using cs by (simp add: word_unat_eq_iff)
qed simp

lemma hex_string_inj: "hex_string bs = hex_string cs \<Longrightarrow> bs = cs"
proof (induction bs arbitrary: cs)
  case Nil
  then show ?case by (cases cs) (simp_all add: hex_string_def)
next
  case (Cons a bs)
  then obtain c rest where cs: "cs = c # rest" by (cases cs) (simp_all add: hex_string_def)
  have "distinct hex_chars" "length hex_chars = 16" by (simp_all add: hex_chars_def)
  then have "unat a div 16 = unat c div 16" "unat a mod 16 = unat c mod 16"
    using Cons.prems unat_byte_less [of a] unat_byte_less [of c] by (simp_all add: hex_string_def cs nth_eq_iff_index_eq less_mult_imp_div_less)
  then have "unat a = unat c" by (metis div_mult_mod_eq)
  then show ?case using Cons cs by (simp add: hex_string_def word_unat_eq_iff)
qed

lemma length_hex_string [simp]: "length (hex_string bs) = 2 * length bs"
  by (induction bs) (simp_all add: hex_string_def)

text \<open>A key carries all its random bytes: different bytes give different keys.\<close>

lemma generateApiKey_inj:
  assumes "fst (generateApiKey a b) = fst (generateApiKey c e)" and "length a = 6" and "length c = 6" and "length b = length e"
  shows "a = c \<and> b = e"
  using assms by (auto simp: generateApiKey_def Let_def dest: hex_string_inj base64url_inj)

section \<open>Witnesses\<close>

text \<open>A table with one administrator key, and a stand-in for the hash function.\<close>

definition sample_hmac :: hmac where
  "sample_hmac secret rawKey = secret @ ''.'' @ rawKey"

definition sample_key :: api_key_row where
  "sample_key = \<lparr>ak_id = ''k1'', ak_tenantId = ''t'', ak_name = ''admin'', ak_prefix = ''p'', ak_keyHash = ''S.admin'',
     ak_scopes = [API_KEYS_WRITE, ''messages:read''], ak_active = True, ak_lastUsedAt = None, ak_createdAt = 0, ak_revokedAt = None\<rparr>"

definition sample_key_db :: db where
  "sample_key_db = empty_db\<lparr>apiKeys := [sample_key], tenants := [\<lparr>tn_id = ''t'', tn_status = ACTIVE\<rparr>]\<rparr>"

definition sample_dto :: create_api_key_dto where
  "sample_dto = \<lparr>ck_name = '' crm '', ck_scopes = [''messages:read'', ''messages:read'']\<rparr>"

definition sample_ctx :: AuditRequestContext where
  "sample_ctx = \<lparr>ac_ipAddress = None, ac_userAgent = None\<rparr>"

lemmas sample_key_defs = sample_hmac_def sample_key_def sample_key_db_def sample_dto_def sample_ctx_def empty_db_def

lemma sample_keys_ok: "keys_ok sample_key_db"
  by (simp add: keys_ok_def api_keys_unique_def sample_key_defs)

lemma sample_guard: "ApiKeyGuard_canActivate sample_hmac (Some ''S'') sample_key_db False (HeaderText ''admin'') 5 =
    Inr (Some (principal_of sample_key), touch_key sample_key 5 sample_key_db)"
  by (simp add: ApiKeyGuard_canActivate_def hashApiKey_def tenant_active_def sample_key_defs)

lemma sample_request: "with_guards sample_hmac (Some ''S'') (Some [API_KEYS_WRITE]) (HeaderText ''admin'') 5 handler sample_key_db =
    (case handler (principal_of sample_key) (touch_key sample_key 5 sample_key_db) of
       Inl e \<Rightarrow> (Inl e, touch_key sample_key 5 sample_key_db) | Inr (x, d) \<Rightarrow> (Inr x, d))"
proof -
  have "ScopesGuard_canActivate False (Some [API_KEYS_WRITE]) (Some (principal_of sample_key)) = Inr ()"
    using scopes_Inr [of "[API_KEYS_WRITE]" "principal_of sample_key"] by (simp add: principal_of_def sample_key_def)
  then show ?thesis by (simp add: with_guards_def sample_guard CurrentPrincipal_def)
qed

lemma sample_issue: "\<exists>raw sk d'. ApiKeysController_create sample_hmac (Some ''S'') (HeaderText ''admin'') sample_ctx sample_dto [1] [2] ''k2'' 5 sample_key_db =
    (Inr (raw, sk), d')"
  by (simp add: ApiKeysController_create_def sample_request)
    (simp add: ApiKeysService_create_def sample_key_defs principal_of_def js_set_def hash_secret_def touch_key_def updateApiKey_def updateMany_def
      api_keys_unique_def hashApiKey_def generateApiKey_def KEY_PREFIX_def Let_def)

lemma sample_revoke: "\<exists>sk d'. ApiKeysController_revoke sample_hmac (Some ''S'') (HeaderText ''admin'') sample_ctx ''k1'' 5 sample_key_db = (Inr sk, d')"
  by (simp add: ApiKeysController_revoke_def sample_request)
    (simp add: ApiKeysService_revoke_def sample_key_defs principal_of_def touch_key_def updateApiKey_def updateMany_def Let_def)

theorem guards_answer_witness:
  "\<exists>m. fst (with_guards sample_hmac (Some ''S'') (Some [''audit:read'']) (HeaderText ''admin'') 5 (\<lambda>p d. Inr (p, d)) sample_key_db) = Inl (Forbidden m)"
proof -
  have "in_force sample_hmac ''S'' sample_key_db (HeaderText ''admin'') sample_key" by (simp add: in_force_def sample_key_defs)
  moreover have "\<not> set [''audit:read''] \<subseteq> set (ak_scopes sample_key)" by (simp add: sample_key_def API_KEYS_WRITE_def)
  ultimately show ?thesis
    using guards_answer [OF sample_keys_ok _ refl, of "''S''" sample_hmac "[''audit:read'']" "HeaderText ''admin''" 5] by blast
qed

theorem no_scope_escalation_witness:
  "\<exists>d'. key_step sample_hmac (Some ''S'') sample_key_db d' \<and>
     (\<forall>k \<in> set (apiKeys d'). ak_tenantId k = ''t'' \<and> set (ak_scopes k) \<subseteq> {API_KEYS_WRITE, ''messages:read''})"
proof -
  obtain raw sk d' where c: "ApiKeysController_create sample_hmac (Some ''S'') (HeaderText ''admin'') sample_ctx sample_dto [1] [2] ''k2'' 5 sample_key_db = (Inr (raw, sk), d')"
    using sample_issue by blast
  note s = key_step.create [OF c]
  have "ak_tenantId k = ''t'' \<and> set (ak_scopes k) \<subseteq> {API_KEYS_WRITE, ''messages:read''}" if "k \<in> set (apiKeys d')" for k
    using no_scope_escalation [OF key_reachable.step [OF key_reachable.start s] that] by (cases k) (auto simp: sample_key_defs)
  then show ?thesis using s by blast
qed

theorem revoked_key_stays_dead_witness:
  "\<exists>d'. key_step sample_hmac (Some ''S'') sample_key_db d' \<and>
     ApiKeyGuard_canActivate sample_hmac (Some ''S'') d' False (HeaderText ''admin'') 6 = Inl (Unauthorized ''Invalid or inactive API key'')"
proof -
  obtain sk d' where r: "ApiKeysController_revoke sample_hmac (Some ''S'') (HeaderText ''admin'') sample_ctx ''k1'' 5 sample_key_db = (Inr sk, d')"
    using sample_revoke by blast
  have "api_keys_unique (apiKeys sample_key_db)" "sample_key \<in> set (apiKeys sample_key_db)" "ak_id sample_key = ''k1''"
    using sample_keys_ok by (simp_all add: keys_ok_def sample_key_defs)
  from revoked_key_stays_dead [OF this(1) r this(2,3) key_reachable.start, of "HeaderText ''admin''" "''admin''" 6]
  have "ApiKeyGuard_canActivate sample_hmac (Some ''S'') d' False (HeaderText ''admin'') 6 = Inl (Unauthorized ''Invalid or inactive API key'')"
    by (simp add: sample_key_defs)
  then show ?thesis using key_step.revoke [OF r] by blast
qed

theorem issued_key_authenticates_witness:
  "\<exists>raw sk d' p d''. ApiKeysController_create sample_hmac (Some ''S'') (HeaderText ''admin'') sample_ctx sample_dto [1] [2] ''k2'' 5 sample_key_db = (Inr (raw, sk), d') \<and>
     ApiKeyGuard_canActivate sample_hmac (Some ''S'') d' False (HeaderText raw) 6 = Inr (Some p, d'') \<and> ap_apiKeyId p = ''k2''"
proof -
  obtain raw sk d' where c: "ApiKeysController_create sample_hmac (Some ''S'') (HeaderText ''admin'') sample_ctx sample_dto [1] [2] ''k2'' 5 sample_key_db = (Inr (raw, sk), d')"
    using sample_issue by blast
  from issued_key_authenticates [OF sample_keys_ok _ c, of 6] show ?thesis using c by (auto intro: exI [of _ raw])
qed

end
