(* ===== verification/Realtime.thy ===== *)
theory Realtime
  imports Store Js_Number
begin

text \<open>
  Real-time inbox events (src/src/inbox-events): the events that other instances publish through Redis, the check
  of what arrives, and the streams of server-sent events. The handler of a stream is split where it awaits; between two
  awaits it runs alone, so that the interleavings of streams are sequences of these pieces. The sets of
  listeners are objects that several closures share, and have addresses here. Results: what is published
  arrives unchanged; events reach exactly the streams of their tenant; connections are counted exactly and closed
  streams leave no listener behind.
\<close>

section \<open>Events\<close>

definition INBOX_EVENT_TYPES :: "string list" where
  "INBOX_EVENT_TYPES = [''conversation.created'', ''conversation.updated'', ''conversation.message.created'', ''conversation.note.created'',
     ''canned_response.created'', ''canned_response.updated'']"

definition hex_run :: "nat \<Rightarrow> string \<Rightarrow> bool" where
  "hex_run n s \<longleftrightarrow> length s = n \<and> list_all (is_digit 16) s"

definition UUID_PATTERN :: "string \<Rightarrow> bool" where
  "UUID_PATTERN s \<longleftrightarrow> length s = 36 \<and>
     hex_run 8 (subarray s 0 8) \<and> s ! 8 = CHR ''-'' \<and> hex_run 4 (subarray s 9 4) \<and> s ! 13 = CHR ''-'' \<and>
     s ! 14 \<in> set ''12345'' \<and> hex_run 3 (subarray s 15 3) \<and> s ! 18 = CHR ''-'' \<and>
     s ! 19 \<in> set ''89abAB'' \<and> hex_run 3 (subarray s 20 3) \<and> s ! 23 = CHR ''-'' \<and> hex_run 12 (subarray s 24 12)"

definition CONVERSATION_STATUSES :: "string list" where
  "CONVERSATION_STATUSES = [''OPEN'', ''PENDING'', ''RESOLVED'']"

definition CONVERSATION_PRIORITIES :: "string list" where
  "CONVERSATION_PRIORITIES = [''LOW'', ''NORMAL'', ''HIGH'', ''URGENT'']"

fun json_uuid :: "json \<Rightarrow> bool" where
  "json_uuid (JStr s) = UUID_PATTERN s"
| "json_uuid _ = False"

fun json_one_of :: "string list \<Rightarrow> json \<Rightarrow> bool" where
  "json_one_of xs (JStr s) = (s \<in> set xs)"
| "json_one_of xs _ = False"

fun json_integer_from :: "nat \<Rightarrow> json \<Rightarrow> bool" where
  "json_integer_from least (JNum s) = (case Option.bind (js_number s) rat_nat of None \<Rightarrow> False | Some n \<Rightarrow> least \<le> n)"
| "json_integer_from least _ = False"

fun json_bool :: "json \<Rightarrow> bool" where
  "json_bool (JBool b) = True"
| "json_bool _ = False"

text \<open>The fields \<open>safeData\<close> lets through, in the order of its result, each with its condition.\<close>

definition DATA_FIELDS :: "(string \<times> (json \<Rightarrow> bool)) list" where
  "DATA_FIELDS = [(''conversationId'', json_uuid), (''messageId'', json_uuid), (''noteId'', json_uuid), (''cannedResponseId'', json_uuid),
     (''status'', json_one_of CONVERSATION_STATUSES), (''priority'', json_one_of CONVERSATION_PRIORITIES),
     (''assignedAgentId'', \<lambda>v. v = JNull \<or> json_uuid v), (''assignedTeamId'', \<lambda>v. v = JNull \<or> json_uuid v),
     (''unreadCount'', json_integer_from 0), (''revision'', json_integer_from 1), (''active'', json_bool)]"

type_synonym event_data = "(string \<times> json) list"

fun pick :: "event_data \<Rightarrow> (string \<times> (json \<Rightarrow> bool)) list \<Rightarrow> event_data" where
  "pick fs [] = []"
| "pick fs ((k, ok) # rest) =
     (case map_of fs k of None \<Rightarrow> pick fs rest | Some x \<Rightarrow> if ok x then (k, x) # pick fs rest else pick fs rest)"

definition safeData :: "json \<Rightarrow> event_data" where
  "safeData v = (case v of JObj fs \<Rightarrow> pick fs DATA_FIELDS | _ \<Rightarrow> [])"

record InboxRealtimeEvent =
  ie_id :: string
  ie_type :: string
  ie_occurredAt :: string
  ie_data :: event_data

record InboxRealtimeEnvelope =
  en_tenantId :: string
  en_event :: InboxRealtimeEvent

definition read_uuid :: "json option \<Rightarrow> string option" where
  "read_uuid v = (case v of Some (JStr s) \<Rightarrow> if UUID_PATTERN s then Some s else None | _ \<Rightarrow> None)"

definition event_type :: "json option \<Rightarrow> string option" where
  "event_type v = (case v of Some (JStr s) \<Rightarrow> if s \<in> set INBOX_EVENT_TYPES then Some s else None | _ \<Rightarrow> None)"

text \<open>\<open>isDate\<close> stands for \<open>!Number.isNaN(Date.parse(s))\<close>; the empty string is no date.\<close>

definition occurred_at :: "(string \<Rightarrow> bool) \<Rightarrow> json option \<Rightarrow> string option" where
  "occurred_at isDate v = (case v of Some (JStr s) \<Rightarrow> if isDate s \<and> s \<noteq> [] then Some s else None | _ \<Rightarrow> None)"

definition safeEnvelope :: "(string \<Rightarrow> bool) \<Rightarrow> json \<Rightarrow> InboxRealtimeEnvelope option" where
  "safeEnvelope isDate v =
     (case v of
        JObj fs \<Rightarrow>
          (case (read_uuid (map_of fs ''tenantId''), map_of fs ''event'') of
             (Some tenantId, Some (JObj es)) \<Rightarrow>
               (case (read_uuid (map_of es ''id''), event_type (map_of es ''type''), occurred_at isDate (map_of es ''occurredAt'')) of
                  (Some eid, Some type, Some occurredAt) \<Rightarrow>
                    Some \<lparr>en_tenantId = tenantId, en_event = \<lparr>ie_id = eid, ie_type = type, ie_occurredAt = occurredAt,
                      ie_data = safeData (case map_of es ''data'' of None \<Rightarrow> JNull | Some x \<Rightarrow> x)\<rparr>\<rparr>
                | _ \<Rightarrow> None)
           | _ \<Rightarrow> None)
      | _ \<Rightarrow> None)"

text \<open>The envelope as \<open>publish\<close> serialises it, with the id and the time that the library gave.\<close>

definition event_json :: "InboxRealtimeEvent \<Rightarrow> json" where
  "event_json e = JObj [(''id'', JStr (ie_id e)), (''type'', JStr (ie_type e)), (''occurredAt'', JStr (ie_occurredAt e)), (''data'', JObj (ie_data e))]"

definition envelope_json :: "InboxRealtimeEnvelope \<Rightarrow> json" where
  "envelope_json e = JObj [(''tenantId'', JStr (en_tenantId e)), (''event'', event_json (en_event e))]"

definition published_event :: "string \<Rightarrow> string \<Rightarrow> string \<Rightarrow> event_data \<Rightarrow> InboxRealtimeEvent" where
  "published_event newId type occurredAt data = \<lparr>ie_id = newId, ie_type = type, ie_occurredAt = occurredAt, ie_data = safeData (JObj data)\<rparr>"

definition publish_payload :: "(json \<Rightarrow> string) \<Rightarrow> string \<Rightarrow> string \<Rightarrow> event_data \<Rightarrow> string \<Rightarrow> string \<Rightarrow> string" where
  "publish_payload stringify tenantId type data newId occurredAt =
     stringify (envelope_json \<lparr>en_tenantId = tenantId, en_event = published_event newId type occurredAt data\<rparr>)"

definition frame :: "(json \<Rightarrow> string) \<Rightarrow> InboxRealtimeEvent \<Rightarrow> string" where
  "frame stringify e = ''id: '' @ ie_id e @ [char_of (10 :: nat)] @ ''event: '' @ ie_type e @ [char_of (10 :: nat)] @
     ''data: '' @ stringify (JObj ((''occurredAt'', JStr (ie_occurredAt e)) # ie_data e)) @ [char_of (10 :: nat), char_of (10 :: nat)]"

section \<open>Streams\<close>

text \<open>
  A stream is numbered by its position in \<open>rt_conns\<close>, and its listener and closer by the same number. \<open>Awaiting\<close>: inside
  \<open>ensureSubscriber\<close>; \<open>Added a\<close>: its listener is in the set at address \<open>a\<close>, and the handler has not resumed yet;
  \<open>Started\<close>: the handler has returned.
\<close>

datatype phase = Awaiting | Added nat | Started

record connection =
  cn_tenantId :: string
  cn_phase :: phase
  cn_closed :: bool
  cn_unsubscribe :: "nat option"
  cn_heartbeat :: bool

record realtime =
  rt_listeners :: "string \<rightharpoonup> nat"
  rt_sets :: "nat list list"
  rt_closers :: "nat list"
  rt_active :: nat
  rt_conns :: "connection list"

definition initial_realtime :: realtime where
  "initial_realtime = \<lparr>rt_listeners = Map.empty, rt_sets = [], rt_closers = [], rt_active = 0, rt_conns = []\<rparr>"

definition tryAcquireConnection :: "nat \<Rightarrow> realtime \<Rightarrow> realtime option" where
  "tryAcquireConnection maxConnections st = (if rt_active st \<ge> maxConnections then None else Some (st\<lparr>rt_active := rt_active st + 1\<rparr>))"

definition releaseConnection :: "realtime \<Rightarrow> realtime" where
  "releaseConnection st = st\<lparr>rt_active := rt_active st - 1\<rparr>"

definition set_conn :: "nat \<Rightarrow> (connection \<Rightarrow> connection) \<Rightarrow> realtime \<Rightarrow> realtime" where
  "set_conn i f st = st\<lparr>rt_conns := (rt_conns st)[i := f (rt_conns st ! i)]\<rparr>"

definition unsubscribe :: "string \<Rightarrow> nat \<Rightarrow> nat \<Rightarrow> realtime \<Rightarrow> realtime" where
  "unsubscribe tenantId a i st =
     (let left = removeAll i (rt_sets st ! a); st1 = st\<lparr>rt_sets := (rt_sets st)[a := left]\<rparr>
      in if left = [] then st1\<lparr>rt_listeners := (rt_listeners st)(tenantId := None)\<rparr> else st1)"

definition close :: "nat \<Rightarrow> realtime \<Rightarrow> realtime" where
  "close i st =
     (let c = rt_conns st ! i
      in if cn_closed c then st
         else let st1 = set_conn i (\<lambda>c. c\<lparr>cn_closed := True, cn_heartbeat := False\<rparr>) st;
                  st2 = (case cn_unsubscribe c of None \<Rightarrow> st1 | Some a \<Rightarrow> unsubscribe (cn_tenantId c) a i st1);
                  st3 = st2\<lparr>rt_closers := removeAll i (rt_closers st2)\<rparr>
              in releaseConnection st3)"

text \<open>\<open>write\<close>; \<open>ok\<close> says that the response is open and took the frame.\<close>

definition write_frame :: "nat \<Rightarrow> bool \<Rightarrow> realtime \<Rightarrow> realtime" where
  "write_frame i ok st = (if cn_closed (rt_conns st ! i) \<or> \<not> ok then close i st else st)"

text \<open>\<open>stream\<close> up to its await.\<close>

definition stream_open :: "nat \<Rightarrow> string \<Rightarrow> realtime \<Rightarrow> string + realtime" where
  "stream_open maxConnections tenantId st =
     (case tryAcquireConnection maxConnections st of
        None \<Rightarrow> Inl ''Realtime inbox connection limit reached''
      | Some st1 \<Rightarrow>
          Inr (st1\<lparr>rt_conns := rt_conns st1 @ [\<lparr>cn_tenantId = tenantId, cn_phase = Awaiting, cn_closed = False, cn_unsubscribe = None, cn_heartbeat = False\<rparr>],
            rt_closers := rt_closers st1 @ [length (rt_conns st1)]\<rparr>))"

text \<open>\<open>subscribe\<close> after its await; and the failure of that await, which the handler's \<open>catch\<close> answers.\<close>

definition subscribe_add :: "nat \<Rightarrow> realtime \<Rightarrow> realtime" where
  "subscribe_add i st =
     (let t = cn_tenantId (rt_conns st ! i)
      in case rt_listeners st t of
           Some a \<Rightarrow> set_conn i (\<lambda>c. c\<lparr>cn_phase := Added a\<rparr>) (st\<lparr>rt_sets := (rt_sets st)[a := rt_sets st ! a @ [i]]\<rparr>)
         | None \<Rightarrow> set_conn i (\<lambda>c. c\<lparr>cn_phase := Added (length (rt_sets st))\<rparr>)
             (st\<lparr>rt_listeners := (rt_listeners st)(t \<mapsto> length (rt_sets st)), rt_sets := rt_sets st @ [[i]]\<rparr>))"

definition subscribe_failed :: "nat \<Rightarrow> realtime \<Rightarrow> realtime" where
  "subscribe_failed i st = close i (set_conn i (\<lambda>c. c\<lparr>cn_phase := Started\<rparr>) st)"

text \<open>\<open>stream\<close> after its await. \<open>headers\<close>: setting and flushing the headers did not throw; \<open>ok\<close>: as for the first frame.\<close>

definition stream_resume :: "nat \<Rightarrow> nat \<Rightarrow> bool \<Rightarrow> bool \<Rightarrow> realtime \<Rightarrow> realtime" where
  "stream_resume i a headers ok st =
     (let st1 = set_conn i (\<lambda>c. c\<lparr>cn_phase := Started, cn_unsubscribe := Some a\<rparr>) st
      in if cn_closed (rt_conns st1 ! i) then unsubscribe (cn_tenantId (rt_conns st1 ! i)) a i st1
         else if \<not> headers then close i st1
         else set_conn i (\<lambda>c. c\<lparr>cn_heartbeat := True\<rparr>) (write_frame i ok st1))"

definition recipients :: "realtime \<Rightarrow> string \<Rightarrow> nat list" where
  "recipients st tenantId = (case rt_listeners st tenantId of None \<Rightarrow> [] | Some a \<Rightarrow> rt_sets st ! a)"

text \<open>The calls of listeners that \<open>dispatch\<close> makes. \<open>parse\<close> stands for \<open>JSON.parse\<close>; \<open>None\<close> is its exception.\<close>

definition dispatch_payload :: "(string \<Rightarrow> json option) \<Rightarrow> (string \<Rightarrow> bool) \<Rightarrow> realtime \<Rightarrow> string \<Rightarrow> (nat \<times> InboxRealtimeEvent) list" where
  "dispatch_payload parse isDate st payload =
     (case parse payload of
        None \<Rightarrow> []
      | Some v \<Rightarrow> (case safeEnvelope isDate v of
            None \<Rightarrow> []
          | Some e \<Rightarrow> map (\<lambda>i. (i, en_event e)) (recipients st (en_tenantId e))))"

definition onModuleDestroy :: "realtime \<Rightarrow> realtime" where
  "onModuleDestroy st = (fold close (rt_closers st) st)\<lparr>rt_closers := [], rt_listeners := Map.empty\<rparr>"

definition boundedInteger :: "string option \<Rightarrow> nat \<Rightarrow> nat \<Rightarrow> nat \<Rightarrow> nat" where
  "boundedInteger value fallback minimum maximum =
     (case value of None \<Rightarrow> fallback
      | Some s \<Rightarrow> (case Option.bind (js_number s) rat_nat of
            None \<Rightarrow> fallback | Some n \<Rightarrow> if minimum \<le> n \<and> n \<le> maximum then n else fallback))"

definition maxConnections :: "string option \<Rightarrow> nat" where
  "maxConnections value = boundedInteger value 500 1 100000"

definition heartbeatMs :: "string option \<Rightarrow> nat" where
  "heartbeatMs value = boundedInteger value 15000 5000 60000"

inductive stream_step :: "nat \<Rightarrow> realtime \<Rightarrow> realtime \<Rightarrow> bool" for limit where
  opened: "stream_open limit t st = Inr st' \<Longrightarrow> stream_step limit st st'"
| subscribed: "i < length (rt_conns st) \<Longrightarrow> cn_phase (rt_conns st ! i) = Awaiting \<Longrightarrow> stream_step limit st (subscribe_add i st)"
| failed: "i < length (rt_conns st) \<Longrightarrow> cn_phase (rt_conns st ! i) = Awaiting \<Longrightarrow> stream_step limit st (subscribe_failed i st)"
| resumed: "i < length (rt_conns st) \<Longrightarrow> cn_phase (rt_conns st ! i) = Added a \<Longrightarrow> stream_step limit st (stream_resume i a headers ok st)"
| written: "i < length (rt_conns st) \<Longrightarrow> stream_step limit st (write_frame i ok st)"
| gone: "i < length (rt_conns st) \<Longrightarrow> stream_step limit st (close i st)"

inductive stream_reachable :: "nat \<Rightarrow> realtime \<Rightarrow> bool" for limit where
  start: "stream_reachable limit initial_realtime"
| step: "stream_reachable limit st \<Longrightarrow> stream_step limit st st' \<Longrightarrow> stream_reachable limit st'"

section \<open>What is published arrives\<close>

lemma pick_keys: "fst ` set (pick fs defs) \<subseteq> fst ` set defs"
proof (induction defs)
  case (Cons d defs)
  then show ?case by (cases d) (auto split: option.split)
qed simp

lemma map_of_pick:
  "distinct (map fst defs) \<Longrightarrow> (k, ok) \<in> set defs \<Longrightarrow>
     map_of (pick fs defs) k = (case map_of fs k of None \<Rightarrow> None | Some x \<Rightarrow> if ok x then Some x else None)"
proof (induction defs)
  case (Cons d defs)
  obtain k' ok' where d: "d = (k', ok')" by (cases d)
  show ?case
  proof (cases "k = k'")
    case True
    then have "ok = ok'" using Cons.prems d by (auto simp: image_iff)
    moreover have "map_of (pick fs defs) k = None" using Cons.prems(1) pick_keys [of fs defs] True d by (auto simp: map_of_eq_None_iff)
    ultimately show ?thesis using True by (simp add: d split: option.split)
  next
    case False
    then show ?thesis using Cons by (auto simp: d split: option.split)
  qed
qed simp

lemma pick_cong:
  "(\<And>k ok. (k, ok) \<in> set defs \<Longrightarrow> Option.bind (map_of fs k) (\<lambda>x. if ok x then Some x else None) = Option.bind (map_of gs k) (\<lambda>x. if ok x then Some x else None)) \<Longrightarrow>
     pick fs defs = pick gs defs"
proof (induction defs)
  case (Cons d defs)
  obtain k ok where d: "d = (k, ok)" by (cases d)
  have h: "Option.bind (map_of fs k) (\<lambda>x. if ok x then Some x else None) = Option.bind (map_of gs k) (\<lambda>x. if ok x then Some x else None)"
    by (rule Cons.prems) (simp add: d)
  have "pick fs defs = pick gs defs" by (rule Cons.IH) (simp add: Cons.prems)
  then show ?case using h by (cases "map_of fs k"; cases "map_of gs k") (auto simp: d split: if_split_asm)
qed simp

lemma pick_again: "distinct (map fst defs) \<Longrightarrow> pick (pick fs defs) defs = pick fs defs"
  by (rule pick_cong) (simp add: map_of_pick split: option.split)

lemma safeData_again [simp]: "safeData (JObj (safeData v)) = safeData v"
proof (cases v)
  case (JObj fs)
  have "distinct (map fst DATA_FIELDS)" by (simp add: DATA_FIELDS_def)
  from pick_again [OF this, of fs] show ?thesis by (simp add: safeData_def JObj)
qed (simp_all add: safeData_def DATA_FIELDS_def)

lemma safeEnvelope_published:
  assumes "UUID_PATTERN tenantId" and "UUID_PATTERN newId" and "type \<in> set INBOX_EVENT_TYPES" and "isDate occurredAt" and "occurredAt \<noteq> []"
  shows "safeEnvelope isDate (envelope_json \<lparr>en_tenantId = tenantId, en_event = published_event newId type occurredAt data\<rparr>) =
     Some \<lparr>en_tenantId = tenantId, en_event = published_event newId type occurredAt data\<rparr>"
  using assms by (simp add: safeEnvelope_def envelope_json_def event_json_def published_event_def read_uuid_def event_type_def occurred_at_def)

section \<open>Listeners\<close>

text \<open>The listener of a stream is registered, in the set at \<open>a\<close>.\<close>

definition listening :: "connection \<Rightarrow> nat \<Rightarrow> bool" where
  "listening c a \<longleftrightarrow> cn_phase c = Added a \<or> cn_unsubscribe c = Some a \<and> \<not> cn_closed c"

definition table_ok :: "(string \<rightharpoonup> nat) \<Rightarrow> nat list list \<Rightarrow> connection list \<Rightarrow> bool" where
  "table_ok L S C \<longleftrightarrow> (\<forall>i a. i < length C \<longrightarrow> listening (C ! i) a \<longrightarrow> L (cn_tenantId (C ! i)) = Some a) \<and>
     (\<forall>t a. L t = Some a \<longrightarrow> a < length S \<and> distinct (S ! a) \<and> S ! a \<noteq> [] \<and>
        set (S ! a) = {i. i < length C \<and> cn_tenantId (C ! i) = t \<and> listening (C ! i) a})"

lemma table_okD:
  assumes "table_ok L S C"
  shows "i < length C \<Longrightarrow> listening (C ! i) a \<Longrightarrow> L (cn_tenantId (C ! i)) = Some a"
    and "L t = Some a \<Longrightarrow> a < length S" and "L t = Some a \<Longrightarrow> distinct (S ! a)" and "L t = Some a \<Longrightarrow> S ! a \<noteq> []"
    and "L t = Some a \<Longrightarrow> set (S ! a) = {i. i < length C \<and> cn_tenantId (C ! i) = t \<and> listening (C ! i) a}"
  using assms [unfolded table_ok_def, THEN conjunct1, rule_format, of i a]
    assms [unfolded table_ok_def, THEN conjunct2, rule_format, of t a] by simp_all

lemma table_inj:
  assumes "table_ok L S C" and "L t = Some a" and "L u = Some a"
  shows "t = u"
proof -
  have i: "hd (S ! a) \<in> set (S ! a)" using table_okD(4) [OF assms(1,2)] by (rule hd_in_set)
  have "cn_tenantId (C ! hd (S ! a)) = t" using i unfolding table_okD(5) [OF assms(1,2)] by simp
  moreover have "cn_tenantId (C ! hd (S ! a)) = u" using i unfolding table_okD(5) [OF assms(1,3)] by simp
  ultimately show ?thesis by simp
qed

lemma table_update:
  assumes "table_ok L S C" and "i < length C" and "cn_tenantId c = cn_tenantId (C ! i)" and "\<And>a. listening c a = listening (C ! i) a"
  shows "table_ok L S (C[i := c])"
proof -
  have t: "cn_tenantId (C[i := c] ! j) = cn_tenantId (C ! j)" for j
    using assms(2,3) by (cases "j = i") simp_all
  have l: "listening (C[i := c] ! j) a = listening (C ! j) a" for j a
    using assms(2,4) by (cases "j = i") simp_all
  show ?thesis using assms(1) unfolding table_ok_def length_list_update t l .
qed

lemma table_append:
  assumes "table_ok L S C" and "\<And>a. \<not> listening c a"
  shows "table_ok L S (C @ [c])"
proof -
  have new: "i < length (C @ [c]) \<and> cn_tenantId ((C @ [c]) ! i) = t \<and> listening ((C @ [c]) ! i) a \<longleftrightarrow>
      i < length C \<and> cn_tenantId (C ! i) = t \<and> listening (C ! i) a" for i t a
    using assms(2) by (cases "i < length C") (simp_all add: nth_append less_Suc_eq)
  show ?thesis unfolding table_ok_def
  proof (intro conjI allI impI)
    fix i a assume "i < length (C @ [c])" "listening ((C @ [c]) ! i) a"
    then have "i < length C \<and> cn_tenantId (C ! i) = cn_tenantId ((C @ [c]) ! i) \<and> listening (C ! i) a" using new by blast
    then show "L (cn_tenantId ((C @ [c]) ! i)) = Some a" using table_okD(1) [OF assms(1), of i a] by simp
  next
    fix t a assume a: "L t = Some a"
    show "set (S ! a) = {i. i < length (C @ [c]) \<and> cn_tenantId ((C @ [c]) ! i) = t \<and> listening ((C @ [c]) ! i) a}"
      unfolding new by (rule table_okD(5) [OF assms(1) a])
    show "a < length S" "distinct (S ! a)" "S ! a \<noteq> []" by (rule table_okD(2-4) [OF assms(1) a])+
  qed
qed

lemma table_stop:
  assumes ok: "table_ok L S C" and i: "i < length C" and on: "listening (C ! i) a" and c: "cn_tenantId c = cn_tenantId (C ! i)"
    and off: "\<And>b. \<not> listening c b"
  shows "table_ok (if removeAll i (S ! a) = [] then L(cn_tenantId (C ! i) := None) else L) (S[a := removeAll i (S ! a)]) (C[i := c])"
    (is "table_ok ?L ?S ?C")
proof -
  let ?t = "cn_tenantId (C ! i)"
  have La: "L ?t = Some a" by (rule table_okD(1) [OF ok i on])
  note a = table_okD(2-5) [OF ok La]
  have new: "j < length ?C \<and> cn_tenantId (?C ! j) = t \<and> listening (?C ! j) b \<longleftrightarrow>
      j \<noteq> i \<and> j < length C \<and> cn_tenantId (C ! j) = t \<and> listening (C ! j) b" for j t b
    using i c off by (cases "j = i") simp_all
  have left: "set (removeAll i (S ! a)) = {j. j < length ?C \<and> cn_tenantId (?C ! j) = ?t \<and> listening (?C ! j) a}"
    unfolding set_removeAll a(4) new by blast
  show ?thesis unfolding table_ok_def
  proof (intro conjI allI impI)
    fix j b assume "j < length ?C" "listening (?C ! j) b"
    then have j: "j \<noteq> i" "j < length C" "cn_tenantId (C ! j) = cn_tenantId (?C ! j)" "listening (C ! j) b" using new by blast+
    from table_okD(1) [OF ok j(2,4)] have Lj: "L (cn_tenantId (?C ! j)) = Some b" unfolding j(3) .
    show "?L (cn_tenantId (?C ! j)) = Some b"
    proof (cases "cn_tenantId (?C ! j) = ?t")
      case True
      then have "b = a" using Lj La by simp
      then have "j \<in> set (removeAll i (S ! a))" unfolding left using \<open>j < length ?C\<close> \<open>listening (?C ! j) b\<close> True by simp
      then have "removeAll i (S ! a) \<noteq> []" by force
      then show ?thesis using Lj by simp
    qed (use Lj in simp)
  next
    fix t b assume t: "?L t = Some b"
    then have Lt: "L t = Some b" by (simp split: if_split_asm)
    note b = table_okD(2-5) [OF ok Lt]
    show "b < length ?S" using b(1) by simp
    show "distinct (?S ! b)" using a b by (cases "b = a") (simp_all add: distinct_removeAll)
    show "?S ! b \<noteq> []"
    proof (cases "b = a")
      case True
      then have "t = ?t" using table_inj [OF ok Lt] La by simp
      then show ?thesis using t True a(1) by (simp split: if_split_asm)
    qed (use b in simp)
    show "set (?S ! b) = {j. j < length ?C \<and> cn_tenantId (?C ! j) = t \<and> listening (?C ! j) b}"
    proof (cases "b = a")
      case True
      then have "t = ?t" using table_inj [OF ok Lt] La by simp
      then show ?thesis using left True a(1) by simp
    next
      case False
      then have "?t \<noteq> t" using La Lt by auto
      then show ?thesis unfolding new using b(4) False by auto
    qed
  qed
qed

lemma table_start:
  assumes ok: "table_ok L S C" and i: "i < length C" and off: "\<And>b. \<not> listening (C ! i) b" and c: "cn_tenantId c = cn_tenantId (C ! i)"
    and on: "\<And>b. listening c b \<longleftrightarrow> b = a" and a: "L (cn_tenantId (C ! i)) = Some a"
  shows "table_ok L (S[a := S ! a @ [i]]) (C[i := c])"
    (is "table_ok L ?S ?C")
proof -
  let ?t = "cn_tenantId (C ! i)"
  note A = table_okD(2-5) [OF ok a]
  have new: "j < length ?C \<and> cn_tenantId (?C ! j) = t \<and> listening (?C ! j) b \<longleftrightarrow>
      j = i \<and> t = ?t \<and> b = a \<or> j < length C \<and> cn_tenantId (C ! j) = t \<and> listening (C ! j) b" for j t b
    using i c on off by (cases "j = i") auto
  show ?thesis unfolding table_ok_def
  proof (intro conjI allI impI)
    fix j b assume "j < length ?C" "listening (?C ! j) b"
    then have "j = i \<and> cn_tenantId (?C ! j) = ?t \<and> b = a \<or> j < length C \<and> cn_tenantId (C ! j) = cn_tenantId (?C ! j) \<and> listening (C ! j) b" using new by blast
    then show "L (cn_tenantId (?C ! j)) = Some b" using a i c table_okD(1) [OF ok, of j b] by (elim disjE) simp_all
  next
    fix t b assume Lt: "L t = Some b"
    note b = table_okD(2-5) [OF ok Lt]
    have iS: "i \<notin> set (S ! a)" unfolding A(4) using off by simp
    show "b < length ?S" using b(1) by simp
    show "distinct (?S ! b)" using A b iS by (cases "b = a") simp_all
    show "?S ! b \<noteq> []" using A b by (cases "b = a") simp_all
    show "set (?S ! b) = {j. j < length ?C \<and> cn_tenantId (?C ! j) = t \<and> listening (?C ! j) b}"
    proof (cases "b = a")
      case True
      then have "t = ?t" using table_inj [OF ok Lt] a by simp
      then show ?thesis unfolding new using True A(1,4) by auto
    next
      case False
      then show ?thesis unfolding new using b(4) by simp
    qed
  qed
qed

lemma table_new:
  assumes ok: "table_ok L S C" and i: "i < length C" and off: "\<And>b. \<not> listening (C ! i) b" and c: "cn_tenantId c = cn_tenantId (C ! i)"
    and on: "\<And>b. listening c b \<longleftrightarrow> b = length S" and a: "L (cn_tenantId (C ! i)) = None"
  shows "table_ok (L(cn_tenantId (C ! i) \<mapsto> length S)) (S @ [[i]]) (C[i := c])"
    (is "table_ok ?L ?S ?C")
proof -
  let ?t = "cn_tenantId (C ! i)"
  have new: "j < length ?C \<and> cn_tenantId (?C ! j) = t \<and> listening (?C ! j) b \<longleftrightarrow>
      j = i \<and> t = ?t \<and> b = length S \<or> j < length C \<and> cn_tenantId (C ! j) = t \<and> listening (C ! j) b" for j t b
    using i c on off by (cases "j = i") auto
  have none: "\<not> (j < length C \<and> cn_tenantId (C ! j) = ?t \<and> listening (C ! j) b)" for j b using table_okD(1) [OF ok, of j b] a by auto
  show ?thesis unfolding table_ok_def
  proof (intro conjI allI impI)
    fix j b assume "j < length ?C" "listening (?C ! j) b"
    then have "j = i \<and> cn_tenantId (?C ! j) = ?t \<and> b = length S \<or> j < length C \<and> cn_tenantId (C ! j) = cn_tenantId (?C ! j) \<and> listening (C ! j) b" using new by blast
    then show "?L (cn_tenantId (?C ! j)) = Some b"
    proof
      assume j: "j < length C \<and> cn_tenantId (C ! j) = cn_tenantId (?C ! j) \<and> listening (C ! j) b"
      then have "cn_tenantId (?C ! j) \<noteq> ?t" using none by metis
      then show ?thesis using j table_okD(1) [OF ok, of j b] by simp
    qed (simp add: i c)
  next
    fix t b assume Lt: "?L t = Some b"
    show "set (?S ! b) = {j. j < length ?C \<and> cn_tenantId (?C ! j) = t \<and> listening (?C ! j) b}"
    proof (cases "t = ?t")
      case True
      then show ?thesis unfolding new using Lt none by auto
    next
      case False
      then have L: "L t = Some b" using Lt by simp
      then show ?thesis unfolding new using table_okD(2,5) [OF ok L] False by (simp add: nth_append)
    qed
    show "b < length ?S" "distinct (?S ! b)" "?S ! b \<noteq> []"
      using Lt table_okD(2-4) [OF ok, of t b] by (cases "t = ?t"; simp add: nth_append)+
  qed
qed

section \<open>The invariant\<close>

definition realtime_ok :: "nat \<Rightarrow> realtime \<Rightarrow> bool" where
  "realtime_ok limit st \<longleftrightarrow> table_ok (rt_listeners st) (rt_sets st) (rt_conns st) \<and>
     (\<forall>i < length (rt_conns st). cn_phase (rt_conns st ! i) \<noteq> Started \<longrightarrow> cn_unsubscribe (rt_conns st ! i) = None) \<and>
     distinct (rt_closers st) \<and> set (rt_closers st) = {i. i < length (rt_conns st) \<and> \<not> cn_closed (rt_conns st ! i)} \<and>
     rt_active st = length (rt_closers st) \<and> rt_active st \<le> limit"

lemma unsubscribe_eq:
  "unsubscribe t a i st = st\<lparr>rt_listeners := (if removeAll i (rt_sets st ! a) = [] then (rt_listeners st)(t := None) else rt_listeners st),
     rt_sets := (rt_sets st)[a := removeAll i (rt_sets st ! a)]\<rparr>"
  by (simp add: unsubscribe_def Let_def)

text \<open>Changes of one stream that keep its listener and whether it is open.\<close>

lemma set_conn_ok:
  assumes "realtime_ok limit st" and "i < length (rt_conns st)" and "\<And>c. cn_tenantId (f c) = cn_tenantId c" and "\<And>c. cn_closed (f c) = cn_closed c"
    and "\<And>a. listening (f (rt_conns st ! i)) a = listening (rt_conns st ! i) a"
    and "cn_phase (f (rt_conns st ! i)) = Started \<or> cn_unsubscribe (f (rt_conns st ! i)) = None"
  shows "realtime_ok limit (set_conn i f st)"
proof -
  have "table_ok (rt_listeners st) (rt_sets st) ((rt_conns st)[i := f (rt_conns st ! i)])"
    using assms by (intro table_update) (simp_all add: realtime_ok_def)
  moreover have "cn_closed ((rt_conns st)[i := f (rt_conns st ! i)] ! j) = cn_closed (rt_conns st ! j)" for j
    using assms(2,4) by (cases "j = i") simp_all
  moreover have "cn_phase ((rt_conns st)[i := f (rt_conns st ! i)] ! j) \<noteq> Started \<longrightarrow> cn_unsubscribe ((rt_conns st)[i := f (rt_conns st ! i)] ! j) = None"
    if "j < length (rt_conns st)" for j
    using assms(1,2,6) that by (cases "j = i") (auto simp: realtime_ok_def)
  ultimately show ?thesis using assms(1) by (simp add: realtime_ok_def set_conn_def)
qed

lemma close_ok:
  assumes ok: "realtime_ok limit st" and i: "i < length (rt_conns st)"
  shows "realtime_ok limit (close i st) \<and> length (rt_conns (close i st)) = length (rt_conns st)"
proof (cases "cn_closed (rt_conns st ! i)")
  case True
  then show ?thesis using ok by (simp add: close_def)
next
  case False
  let ?c = "rt_conns st ! i"
  let ?C = "(rt_conns st)[i := ?c\<lparr>cn_closed := True, cn_heartbeat := False\<rparr>]"
  obtain L S where close: "close i st = st\<lparr>rt_listeners := L, rt_sets := S, rt_closers := removeAll i (rt_closers st), rt_active := rt_active st - 1, rt_conns := ?C\<rparr>"
    and table: "table_ok L S ?C"
  proof (cases "cn_unsubscribe ?c")
    case None
    have "table_ok (rt_listeners st) (rt_sets st) ?C"
      using ok i None by (intro table_update) (simp_all add: realtime_ok_def listening_def)
    then show thesis using that [of "rt_sets st" "rt_listeners st"] False None by (simp add: close_def set_conn_def releaseConnection_def)
  next
    case (Some a)
    then have p: "cn_phase ?c = Started" using ok i by (auto simp: realtime_ok_def)
    show thesis
    proof (rule that)
      show "table_ok (if removeAll i (rt_sets st ! a) = [] then (rt_listeners st)(cn_tenantId ?c := None) else rt_listeners st)
          ((rt_sets st)[a := removeAll i (rt_sets st ! a)]) ?C"
        using ok i Some False p by (intro table_stop) (simp_all add: realtime_ok_def listening_def)
    qed (use False Some in \<open>simp add: close_def Let_def set_conn_def releaseConnection_def unsubscribe_eq\<close>)
  qed
  have mem: "i \<in> set (rt_closers st)" "distinct (rt_closers st)" using ok i False by (simp_all add: realtime_ok_def)
  then have "length (removeAll i (rt_closers st)) = length (rt_closers st) - 1"
    by (simp add: distinct_remove1_removeAll [symmetric] length_remove1)
  moreover have "set (removeAll i (rt_closers st)) = {j. j < length ?C \<and> \<not> cn_closed (?C ! j)}"
  proof -
    have "\<not> cn_closed (?C ! j) \<longleftrightarrow> j \<noteq> i \<and> \<not> cn_closed (rt_conns st ! j)" for j using i by (cases "j = i") simp_all
    then show ?thesis using ok by (auto simp: realtime_ok_def)
  qed
  moreover have "cn_phase (?C ! j) \<noteq> Started \<longrightarrow> cn_unsubscribe (?C ! j) = None" if "j < length (rt_conns st)" for j
    using ok i that by (cases "j = i") (auto simp: realtime_ok_def)
  moreover have "length (rt_closers st) - Suc 0 \<le> limit" using ok by (auto simp: realtime_ok_def)
  ultimately show ?thesis using ok table by (simp add: close realtime_ok_def distinct_removeAll)
qed

lemma subscribe_add_ok:
  assumes ok: "realtime_ok limit st" and i: "i < length (rt_conns st)" and p: "cn_phase (rt_conns st ! i) = Awaiting"
  shows "realtime_ok limit (subscribe_add i st)"
proof -
  let ?c = "rt_conns st ! i"
  have u: "cn_unsubscribe ?c = None" using ok i p by (auto simp: realtime_ok_def)
  then have off: "\<not> listening ?c b" for b using p by (simp add: listening_def)
  have T: "table_ok (rt_listeners st) (rt_sets st) (rt_conns st)" using ok by (simp add: realtime_ok_def)
  obtain L S a where add: "subscribe_add i st = st\<lparr>rt_listeners := L, rt_sets := S, rt_conns := (rt_conns st)[i := ?c\<lparr>cn_phase := Added a\<rparr>]\<rparr>"
    and table: "table_ok L S ((rt_conns st)[i := ?c\<lparr>cn_phase := Added a\<rparr>])"
  proof (cases "rt_listeners st (cn_tenantId ?c)")
    case None
    show thesis
    proof (rule that)
      show "table_ok ((rt_listeners st)(cn_tenantId ?c \<mapsto> length (rt_sets st))) (rt_sets st @ [[i]]) ((rt_conns st)[i := ?c\<lparr>cn_phase := Added (length (rt_sets st))\<rparr>])"
        using T i off None u by (intro table_new) (auto simp: listening_def)
    qed (simp add: subscribe_add_def Let_def None set_conn_def)
  next
    case (Some a)
    show thesis
    proof (rule that)
      show "table_ok (rt_listeners st) ((rt_sets st)[a := rt_sets st ! a @ [i]]) ((rt_conns st)[i := ?c\<lparr>cn_phase := Added a\<rparr>])"
        using T i off Some u by (intro table_start) (auto simp: listening_def)
    qed (simp add: subscribe_add_def Let_def Some set_conn_def)
  qed
  have "cn_closed ((rt_conns st)[i := ?c\<lparr>cn_phase := Added a\<rparr>] ! j) = cn_closed (rt_conns st ! j)" for j
    using i by (cases "j = i") simp_all
  moreover have "cn_unsubscribe ((rt_conns st)[i := ?c\<lparr>cn_phase := Added a\<rparr>] ! j) = None"
    if "j < length (rt_conns st)" "cn_phase ((rt_conns st)[i := ?c\<lparr>cn_phase := Added a\<rparr>] ! j) \<noteq> Started" for j
    using ok i that u by (cases "j = i") (auto simp: realtime_ok_def)
  ultimately show ?thesis using ok table by (simp add: add realtime_ok_def)
qed

lemma write_ok: "realtime_ok limit st \<Longrightarrow> i < length (rt_conns st) \<Longrightarrow> realtime_ok limit (write_frame i ok st) \<and> length (rt_conns (write_frame i ok st)) = length (rt_conns st)"
  using close_ok [of limit st i] by (simp add: write_frame_def)

lemma resume_ok:
  assumes ok: "realtime_ok limit st" and i: "i < length (rt_conns st)" and p: "cn_phase (rt_conns st ! i) = Added a"
  shows "realtime_ok limit (stream_resume i a headers written st)"
proof -
  let ?c = "rt_conns st ! i"
  let ?f = "\<lambda>c. c\<lparr>cn_phase := Started, cn_unsubscribe := Some a\<rparr>"
  have u: "cn_unsubscribe ?c = None" using ok i p by (auto simp: realtime_ok_def)
  show ?thesis
  proof (cases "cn_closed ?c")
    case True
    have "table_ok (if removeAll i (rt_sets st ! a) = [] then (rt_listeners st)(cn_tenantId ?c := None) else rt_listeners st)
        ((rt_sets st)[a := removeAll i (rt_sets st ! a)]) ((rt_conns st)[i := ?f ?c])"
      using ok i p True by (intro table_stop) (simp_all add: realtime_ok_def listening_def)
    moreover have "cn_closed ((rt_conns st)[i := ?f ?c] ! j) = cn_closed (rt_conns st ! j)" for j
      using i by (cases "j = i") simp_all
    moreover have "cn_unsubscribe ((rt_conns st)[i := ?f ?c] ! j) = None"
      if "j < length (rt_conns st)" "cn_phase ((rt_conns st)[i := ?f ?c] ! j) \<noteq> Started" for j
      using ok i that by (cases "j = i") (auto simp: realtime_ok_def)
    moreover have "stream_resume i a headers written st =
        st\<lparr>rt_listeners := (if removeAll i (rt_sets st ! a) = [] then (rt_listeners st)(cn_tenantId ?c := None) else rt_listeners st),
          rt_sets := (rt_sets st)[a := removeAll i (rt_sets st ! a)], rt_conns := (rt_conns st)[i := ?f ?c]\<rparr>"
      using True i by (simp add: stream_resume_def Let_def set_conn_def unsubscribe_eq)
    ultimately show ?thesis using ok by (simp add: realtime_ok_def)
  next
    case False
    have st1: "realtime_ok limit (set_conn i ?f st)"
      using False p u by (intro set_conn_ok [OF ok i]) (auto simp: listening_def)
    have l: "i < length (rt_conns (set_conn i ?f st))" using i by (simp add: set_conn_def)
    have "realtime_ok limit (set_conn i (\<lambda>c. c\<lparr>cn_heartbeat := True\<rparr>) (write_frame i written (set_conn i ?f st)))"
      (is "realtime_ok limit (set_conn i ?g ?st2)")
    proof (rule set_conn_ok)
      show s2: "realtime_ok limit ?st2" using write_ok [OF st1 l] by blast
      show l2: "i < length (rt_conns ?st2)" using write_ok [OF st1 l, of written] l by presburger
      have "cn_phase (rt_conns ?st2 ! i) \<noteq> Started \<longrightarrow> cn_unsubscribe (rt_conns ?st2 ! i) = None" using s2 l2 unfolding realtime_ok_def by blast
      then show "cn_phase (?g (rt_conns ?st2 ! i)) = Started \<or> cn_unsubscribe (?g (rt_conns ?st2 ! i)) = None" by auto
    qed (simp_all add: listening_def)
    then show ?thesis using False i close_ok [OF st1 l] by (auto simp: stream_resume_def Let_def set_conn_def)
  qed
qed

lemma stream_open_ok:
  assumes ok: "realtime_ok limit st" and o: "stream_open limit t st = Inr st'"
  shows "realtime_ok limit st'"
proof -
  let ?c = "\<lparr>cn_tenantId = t, cn_phase = Awaiting, cn_closed = False, cn_unsubscribe = None, cn_heartbeat = False\<rparr>"
  have st': "st' = st\<lparr>rt_active := rt_active st + 1, rt_conns := rt_conns st @ [?c], rt_closers := rt_closers st @ [length (rt_conns st)]\<rparr>" and l: "rt_active st < limit"
    using o by (auto simp: stream_open_def tryAcquireConnection_def split: if_split_asm)
  have "table_ok (rt_listeners st) (rt_sets st) (rt_conns st @ [?c])"
    using ok by (intro table_append) (simp_all add: realtime_ok_def listening_def)
  moreover have "insert (length (rt_conns st)) (set (rt_closers st)) = {i. i < Suc (length (rt_conns st)) \<and> \<not> cn_closed ((rt_conns st @ [?c]) ! i)}"
    using ok by (auto simp: realtime_ok_def nth_append less_Suc_eq)
  moreover have "cn_unsubscribe ((rt_conns st @ [?c]) ! i) = None" if "i < Suc (length (rt_conns st))" "cn_phase ((rt_conns st @ [?c]) ! i) \<noteq> Started" for i
    using ok that by (auto simp: realtime_ok_def nth_append less_Suc_eq)
  ultimately show ?thesis using ok l by (simp add: st' realtime_ok_def)
qed

lemma stream_step_ok: "stream_step limit st st' \<Longrightarrow> realtime_ok limit st \<Longrightarrow> realtime_ok limit st'"
proof (induction rule: stream_step.induct)
  case (failed i st)
  have "realtime_ok limit (set_conn i (\<lambda>c. c\<lparr>cn_phase := Started\<rparr>) st)"
    using failed by (intro set_conn_ok) (auto simp: listening_def realtime_ok_def)
  then show ?case using failed(1) by (simp add: subscribe_failed_def close_ok set_conn_def)
qed (blast intro: stream_open_ok subscribe_add_ok resume_ok dest: write_ok close_ok)+

lemma initial_realtime_ok: "realtime_ok limit initial_realtime"
  by (simp add: realtime_ok_def initial_realtime_def table_ok_def)

lemma stream_reachable_ok: "stream_reachable limit st \<Longrightarrow> realtime_ok limit st"
  by (induction rule: stream_reachable.induct) (blast intro: initial_realtime_ok stream_step_ok)+

lemma close_closed:
  assumes "realtime_ok limit st" and "i < length (rt_conns st)"
  shows "j < length (rt_conns st) \<Longrightarrow> cn_closed (rt_conns (close i st) ! j) = (j = i \<or> cn_closed (rt_conns st ! j))"
  using assms(2) by (cases "j = i") (auto simp: close_def Let_def set_conn_def releaseConnection_def unsubscribe_eq split: option.split)

lemma fold_close:
  "realtime_ok limit st \<Longrightarrow> set is \<subseteq> {..<length (rt_conns st)} \<Longrightarrow>
     realtime_ok limit (fold close is st) \<and> length (rt_conns (fold close is st)) = length (rt_conns st) \<and>
     (\<forall>j < length (rt_conns st). cn_closed (rt_conns (fold close is st) ! j) = (j \<in> set is \<or> cn_closed (rt_conns st ! j)))"
proof (induction "is" arbitrary: st)
  case (Cons i "is")
  note c = close_ok [OF Cons.prems(1), of i]
  have i: "i < length (rt_conns st)" using Cons.prems(2) by simp
  have "realtime_ok limit (fold close is (close i st)) \<and> length (rt_conns (fold close is (close i st))) = length (rt_conns (close i st)) \<and>
     (\<forall>j < length (rt_conns (close i st)). cn_closed (rt_conns (fold close is (close i st)) ! j) = (j \<in> set is \<or> cn_closed (rt_conns (close i st) ! j)))"
    using Cons.prems(2) c [OF i] by (intro Cons.IH) simp_all
  then show ?case using c [OF i] close_closed [OF Cons.prems(1) i] by auto
qed simp

section \<open>Properties\<close>

text \<open>
  C22. Real-time events stay with their tenant and arrive as they were published. A published event is given to every stream of its
  tenant that is open, and to those whose listener has just been registered, once each; no stream of another tenant and no
  stream that was closed and has left its set gets it. \<open>JSON.parse\<close> is taken to give back what \<open>JSON.stringify\<close> wrote.
\<close>
theorem events_reach_their_tenant:
  assumes "stream_reachable limit st" and "UUID_PATTERN tenantId" and "UUID_PATTERN newId" and "type \<in> set INBOX_EVENT_TYPES"
    and "isDate occurredAt" and "occurredAt \<noteq> []"
    and "parse (publish_payload stringify tenantId type data newId occurredAt) =
       Some (envelope_json \<lparr>en_tenantId = tenantId, en_event = published_event newId type occurredAt data\<rparr>)"
    and d: "dispatch_payload parse isDate st (publish_payload stringify tenantId type data newId occurredAt) = deliveries"
  shows "distinct (map fst deliveries) \<and> (\<forall>(i, e) \<in> set deliveries. e = published_event newId type occurredAt data) \<and>
     fst ` set deliveries = {i. i < length (rt_conns st) \<and> cn_tenantId (rt_conns st ! i) = tenantId \<and>
       ((\<exists>a. cn_phase (rt_conns st ! i) = Added a) \<or> cn_unsubscribe (rt_conns st ! i) \<noteq> None \<and> \<not> cn_closed (rt_conns st ! i))}"
proof -
  have T: "table_ok (rt_listeners st) (rt_sets st) (rt_conns st)" using stream_reachable_ok [OF assms(1)] by (simp add: realtime_ok_def)
  have ds: "deliveries = map (\<lambda>i. (i, published_event newId type occurredAt data)) (recipients st tenantId)"
    using d by (simp add: dispatch_payload_def assms(7) safeEnvelope_published [where isDate = isDate, OF assms(2-6)])
  have on: "(\<exists>a. cn_phase c = Added a) \<or> cn_unsubscribe c \<noteq> None \<and> \<not> cn_closed c \<longleftrightarrow> (\<exists>a. listening c a)" for c
    by (auto simp: listening_def)
  have "distinct (recipients st tenantId) \<and> set (recipients st tenantId) =
      {i. i < length (rt_conns st) \<and> cn_tenantId (rt_conns st ! i) = tenantId \<and> (\<exists>a. listening (rt_conns st ! i) a)}"
  proof (cases "rt_listeners st tenantId")
    case None
    then show ?thesis using table_okD(1) [OF T] by (auto simp: recipients_def)
  next
    case (Some a)
    have "listening (rt_conns st ! i) b \<Longrightarrow> b = a" if "i < length (rt_conns st)" "cn_tenantId (rt_conns st ! i) = tenantId" for i b
      using table_okD(1) [OF T that(1)] that(2) Some by auto
    then show ?thesis using table_okD(3,5) [OF T Some] by (auto simp: recipients_def Some)
  qed
  then show ?thesis unfolding on ds by (auto simp: comp_def image_image)
qed

text \<open>
  C23. Streams are counted exactly, under every interleaving: the counter is the number of open streams, it never exceeds the limit, a
  request is refused exactly when the limit is reached, every listener belongs to a stream that is open or not yet told that
  it is closed, and shutting down closes every stream and leaves no listener.
\<close>
theorem streams_counted:
  assumes "stream_reachable limit st"
  shows "rt_active st = card {i. i < length (rt_conns st) \<and> \<not> cn_closed (rt_conns st ! i)} \<and> rt_active st \<le> limit \<and>
     ((\<exists>m. stream_open limit t st = Inl m) \<longleftrightarrow> rt_active st = limit) \<and>
     (\<forall>i \<in> set (recipients st t). i < length (rt_conns st) \<and> cn_tenantId (rt_conns st ! i) = t \<and>
        (\<not> cn_closed (rt_conns st ! i) \<or> cn_phase (rt_conns st ! i) \<noteq> Started)) \<and>
     rt_active (onModuleDestroy st) = 0 \<and> recipients (onModuleDestroy st) t = [] \<and> list_all cn_closed (rt_conns (onModuleDestroy st))"
proof -
  note ok = stream_reachable_ok [OF assms]
  have T: "table_ok (rt_listeners st) (rt_sets st) (rt_conns st)" using ok by (simp add: realtime_ok_def)
  have "rt_active st = card {i. i < length (rt_conns st) \<and> \<not> cn_closed (rt_conns st ! i)}" "rt_active st \<le> limit"
    using ok distinct_card [of "rt_closers st"] by (auto simp: realtime_ok_def)
  moreover have "(\<exists>m. stream_open limit t st = Inl m) \<longleftrightarrow> rt_active st = limit"
    using ok by (auto simp: stream_open_def tryAcquireConnection_def realtime_ok_def)
  moreover have "i < length (rt_conns st) \<and> cn_tenantId (rt_conns st ! i) = t \<and> (\<not> cn_closed (rt_conns st ! i) \<or> cn_phase (rt_conns st ! i) \<noteq> Started)"
    if "i \<in> set (recipients st t)" for i
    using that table_okD(5) [OF T] by (auto simp: recipients_def listening_def split: option.split_asm)
  moreover have "rt_active (onModuleDestroy st) = 0 \<and> list_all cn_closed (rt_conns (onModuleDestroy st))"
  proof -
    have c: "set (rt_closers st) = {i. i < length (rt_conns st) \<and> \<not> cn_closed (rt_conns st ! i)}" using ok by (simp add: realtime_ok_def)
    then have f: "realtime_ok limit (fold close (rt_closers st) st)" "length (rt_conns (fold close (rt_closers st) st)) = length (rt_conns st)"
      "\<forall>j < length (rt_conns st). cn_closed (rt_conns (fold close (rt_closers st) st) ! j)"
      using fold_close [OF ok, of "rt_closers st"] by auto
    have "set (rt_closers (fold close (rt_closers st) st)) =
        {i. i < length (rt_conns (fold close (rt_closers st) st)) \<and> \<not> cn_closed (rt_conns (fold close (rt_closers st) st) ! i)}"
      using f(1) by (simp add: realtime_ok_def)
    also have "... = {}" using f(2,3) by auto
    finally have "rt_closers (fold close (rt_closers st) st) = []" by (simp only: set_empty)
    moreover have "rt_active (fold close (rt_closers st) st) = length (rt_closers (fold close (rt_closers st) st))"
      using f(1) by (simp add: realtime_ok_def)
    ultimately have "rt_active (fold close (rt_closers st) st) = 0" by (simp only: list.size)
    then show ?thesis using f(2,3) by (auto simp: onModuleDestroy_def list_all_length)
  qed
  moreover have "recipients (onModuleDestroy st) t = []" by (simp add: onModuleDestroy_def recipients_def)
  ultimately show ?thesis by blast
qed

section \<open>Witnesses\<close>

definition sample_uuid :: string where
  "sample_uuid = ''0a1b2c3d-0a1b-4c2d-8e3f-0a1b2c3d4e5f''"

definition sample_stream :: realtime where
  "sample_stream = stream_resume 0 0 True True (subscribe_add 0
     (case stream_open 2 sample_uuid initial_realtime of Inr st \<Rightarrow> st | Inl _ \<Rightarrow> initial_realtime))"

lemmas stream_defs = stream_open_def tryAcquireConnection_def initial_realtime_def subscribe_add_def set_conn_def stream_resume_def write_frame_def
  close_def releaseConnection_def unsubscribe_def

lemma sample_opened: "stream_open limit t initial_realtime = Inr (case stream_open limit t initial_realtime of Inr st \<Rightarrow> st | Inl _ \<Rightarrow> initial_realtime)" if "0 < limit"
  using that by (simp add: stream_defs)

lemma sample_run: "stream_reachable (Suc n) (stream_resume 0 0 True ok (subscribe_add 0
    (case stream_open (Suc n) t initial_realtime of Inr st \<Rightarrow> st | Inl _ \<Rightarrow> initial_realtime)))"
  by (rule stream_reachable.step [OF stream_reachable.step [OF stream_reachable.step [OF stream_reachable.start stream_step.opened [OF sample_opened]]
      stream_step.subscribed] stream_step.resumed]) (simp_all add: stream_defs)

lemma sample_stream_value: "sample_stream = \<lparr>rt_listeners = [sample_uuid \<mapsto> 0], rt_sets = [[0]], rt_closers = [0], rt_active = 1,
    rt_conns = [\<lparr>cn_tenantId = sample_uuid, cn_phase = Started, cn_closed = False, cn_unsubscribe = Some 0, cn_heartbeat = True\<rparr>]\<rparr>"
  by (simp add: sample_stream_def stream_defs)

lemma sample_stream_reachable: "stream_reachable 2 sample_stream"
  using sample_run [of 1 True sample_uuid] by (simp add: sample_stream_def numeral_2_eq_2)

text \<open>
  A stream whose first frame the response does not take is closed before its heartbeat starts: the timer is
  created all the same, and nothing will clear it.
\<close>

lemma heartbeat_left_behind:
  "\<exists>st. stream_reachable 1 st \<and> (\<exists>c \<in> set (rt_conns st). cn_closed c \<and> cn_heartbeat c)"
  by (rule exI [of _ "stream_resume 0 0 True False (subscribe_add 0
    (case stream_open (Suc 0) t initial_realtime of Inr st \<Rightarrow> st | Inl _ \<Rightarrow> initial_realtime))" for t]) (simp add: sample_run [of 0, simplified], simp add: stream_defs)

theorem events_reach_their_tenant_witness:
  "fst ` set (dispatch_payload (\<lambda>s. Some (envelope_json \<lparr>en_tenantId = sample_uuid, en_event = published_event sample_uuid ''conversation.updated'' s []\<rparr>)) (\<lambda>s. True) sample_stream
     (publish_payload (\<lambda>_. ''now'') sample_uuid ''conversation.updated'' [] sample_uuid ''now'')) = {0}"
proof -
  have u: "UUID_PATTERN sample_uuid" by (simp add: UUID_PATTERN_def sample_uuid_def subarray_def hex_run_def is_digit_def digit_value_def Let_def)
  have p: "publish_payload (\<lambda>_. ''now'') sample_uuid ''conversation.updated'' [] sample_uuid ''now'' = ''now''" by (simp add: publish_payload_def)
  show ?thesis
    using events_reach_their_tenant [OF sample_stream_reachable u u _ _ _ _ refl, of "''conversation.updated''" "\<lambda>s. True" "''now''"
      "\<lambda>s. Some (envelope_json \<lparr>en_tenantId = sample_uuid, en_event = published_event sample_uuid ''conversation.updated'' s []\<rparr>)" "\<lambda>_. ''now''" "[]"]
    by (auto simp: p INBOX_EVENT_TYPES_def sample_stream_value)
qed

theorem streams_counted_witness: "rt_active sample_stream = card {i. i < length (rt_conns sample_stream) \<and> \<not> cn_closed (rt_conns sample_stream ! i)}"
  using streams_counted [OF sample_stream_reachable] by blast

end
