(* ===== verification/Media_File.thy ===== *)
theory Media_File
  imports Prelude
begin

text \<open>
  The file a validator of src/src/media inspects, and what every validator does with it.

  A \<open>handle\<close> is an open file: its bytes, whether \<open>stat().isFile()\<close> holds, and how
  many bytes one \<open>FileHandle.read\<close> call delivers. A single read may be short, so the
  number delivered is a parameter of the handle (at least one byte while there is one to
  deliver); \<open>readExactly\<close>, which every validator has, loops over such reads, and the
  first result is that its value does not depend on how the reads are cut.

  The locales \<open>frame_scanner\<close> and \<open>self_delimiting\<close> are the interface between a
  validator's loop (\<open>while (offset < end && count < MAX)\<close>, one frame per round) and the
  format's grammar of one frame; what the loop accepts is proved once, inside them.
\<close>

section \<open>Open files\<close>

record handle =
  contents :: buffer
  is_file :: bool
  transfer :: "nat \<Rightarrow> nat \<Rightarrow> nat"

abbreviation file_size :: "handle \<Rightarrow> nat" where
  "file_size h \<equiv> length (contents h)"

text \<open>\<open>handle.read(buffer, _, len, pos)\<close>: the bytes it delivers, none at the end of the file.\<close>

definition handle_read :: "handle \<Rightarrow> nat \<Rightarrow> nat \<Rightarrow> buffer" where
  "handle_read h len pos =
     take (min (min len (file_size h - pos)) (max 1 (transfer h pos len))) (drop pos (contents h))"

function readExactly_loop :: "handle \<Rightarrow> nat \<Rightarrow> nat \<Rightarrow> buffer \<Rightarrow> buffer option" where
  "readExactly_loop h len pos buf =
     (if length buf < len
      then (let got = handle_read h (len - length buf) (pos + length buf)
            in if got = [] then None else readExactly_loop h len pos (buf @ got))
      else Some buf)"
  by pat_completeness auto
termination
  by (relation "measure (\<lambda>(h, len, pos, buf). len - length buf)") (auto simp: neq_Nil_conv)

declare readExactly_loop.simps [simp del]

definition readExactly :: "handle \<Rightarrow> nat \<Rightarrow> nat \<Rightarrow> buffer option" where
  "readExactly h len pos = readExactly_loop h len pos []"

lemma handle_read_Nil:
  "handle_read h len pos = [] \<longleftrightarrow> len = 0 \<or> file_size h \<le> pos"
  by (auto simp: handle_read_def min_def max_def split: if_splits)

lemma handle_read_prefix:
  obtains n where "n \<le> len" and "n \<le> file_size h - pos" and "handle_read h len pos = subarray (contents h) pos n"
  by (rule that [of "min (min len (file_size h - pos)) (max 1 (transfer h pos len))"])
    (simp_all add: handle_read_def subarray_def)

lemma readExactly_loop_eq:
  assumes "buf = subarray (contents h) pos (length buf)" and "length buf \<le> len"
  shows "readExactly_loop h len pos buf =
     (if length buf = len \<or> pos + len \<le> file_size h then Some (subarray (contents h) pos len) else None)"
  using assms
proof (induction h len pos buf rule: readExactly_loop.induct)
  case (1 h len pos buf)
  show ?case
  proof (cases "length buf < len")
    case False
    then have "length buf = len" using 1(3) by simp
    with 1(2) show ?thesis
      by (subst readExactly_loop.simps) simp
  next
    case True
    let ?got = "handle_read h (len - length buf) (pos + length buf)"
    obtain n where n: "n \<le> len - length buf" "n \<le> file_size h - (pos + length buf)"
      and got: "?got = subarray (contents h) (pos + length buf) n"
      by (rule handle_read_prefix)
    have len_got: "length ?got = n"
      using n(2) by (simp add: got)
    show ?thesis
    proof (cases "?got = []")
      case True
      then have "file_size h \<le> pos + length buf"
        using \<open>length buf < len\<close> by (simp add: handle_read_Nil)
      then show ?thesis
        using True \<open>length buf < len\<close> by (simp add: readExactly_loop.simps [of h len pos buf])
    next
      case False
      then have "0 < n" using len_got by auto
      have pre: "buf @ ?got = subarray (contents h) pos (length (buf @ ?got))"
        using 1(2) by (simp add: len_got subarray_split got [symmetric])
      have "readExactly_loop h len pos buf = readExactly_loop h len pos (buf @ ?got)"
        using False \<open>length buf < len\<close> by (simp add: readExactly_loop.simps [of h len pos buf] Let_def)
      also have "\<dots> = (if length (buf @ ?got) = len \<or> pos + len \<le> file_size h
                      then Some (subarray (contents h) pos len) else None)"
        using 1(1) [OF \<open>length buf < len\<close> refl False pre] n(1) \<open>length buf < len\<close> by (simp add: len_got)
      also have "\<dots> = (if length buf = len \<or> pos + len \<le> file_size h
                      then Some (subarray (contents h) pos len) else None)"
        using n \<open>0 < n\<close> \<open>length buf < len\<close> by (auto simp: len_got)
      finally show ?thesis .
    qed
  qed
qed

lemma readExactly_eq [buffer_simps]:
  "readExactly h len pos =
     (if len = 0 \<or> pos + len \<le> file_size h then Some (subarray (contents h) pos len) else None)"
  unfolding readExactly_def by (subst readExactly_loop_eq) auto

lemma readExactly_length: "readExactly h len pos = Some b \<Longrightarrow> length b = len"
  by (auto simp: readExactly_eq split: if_splits)

section \<open>Frames\<close>

text \<open>
  \<open>run_frames scan s fs\<close> reads the frames \<open>fs\<close> one after the other, each on its own and
  each filled exactly.
\<close>

fun run_frames :: "('s \<Rightarrow> buffer \<Rightarrow> (nat \<times> 's) option) \<Rightarrow> 's \<Rightarrow> buffer list \<Rightarrow> 's option" where
  "run_frames scan s [] = Some s"
| "run_frames scan s (f # fs) =
     (case scan s f of
        None \<Rightarrow> None
      | Some (n, s') \<Rightarrow> if n = length f then run_frames scan s' fs else None)"

locale frame_scanner =
  fixes scan :: "'s \<Rightarrow> buffer \<Rightarrow> (nat \<times> 's) option"
    and loop :: "handle \<Rightarrow> nat \<Rightarrow> nat \<Rightarrow> nat \<Rightarrow> 's \<Rightarrow> (nat \<times> nat \<times> 's) option"
    and max_frames :: nat
  assumes scan_bounds: "scan s rest = Some (n, s') \<Longrightarrow> 0 < n \<and> n \<le> length rest"
    and loop_unfold: "stop \<le> file_size h \<Longrightarrow>
      loop h stop off k s =
        (if off < stop \<and> k < max_frames
         then (case scan s (subarray (contents h) off (stop - off)) of
                 None \<Rightarrow> None
               | Some (n, s') \<Rightarrow> loop h stop (off + n) (Suc k) s')
         else Some (off, k, s))"
begin

lemma loop_scan:
  assumes "stop \<le> file_size h" and "off < stop" and "k < max_frames"
    and "scan s (subarray (contents h) off (stop - off)) = Some (n, s')"
  shows "loop h stop off k s = loop h stop (off + n) (Suc k) s'" and "0 < n" and "off + n \<le> stop"
proof -
  show "loop h stop off k s = loop h stop (off + n) (Suc k) s'"
    using assms by (simp add: loop_unfold [of stop h off k s])
  show "0 < n" and "off + n \<le> stop"
    using scan_bounds [OF assms(4)] assms(1,2) by auto
qed

text \<open>A loop that ends at \<open>stop\<close> cut the window into as many pieces as it counted.\<close>

lemma loop_pieces:
  assumes "stop \<le> file_size h" and "off \<le> stop" and "loop h stop off k s = Some (off', k', s')"
    and "k \<le> max_frames"
  shows "off \<le> off' \<and> off' \<le> stop \<and> k \<le> k' \<and> k' \<le> max_frames \<and> (off' < stop \<longrightarrow> k' = max_frames)"
  using assms
proof (induction "stop - off" arbitrary: off k s rule: less_induct)
  case less
  show ?case
  proof (cases "off < stop \<and> k < max_frames")
    case False
    with less.prems show ?thesis by (auto simp: loop_unfold [of stop h off k s])
  next
    case True
    with less.prems obtain n t where sc: "scan s (subarray (contents h) off (stop - off)) = Some (n, t)"
      by (auto simp: loop_unfold [of stop h off k s] split: option.splits)
    note ls = loop_scan [OF less.prems(1) _ _ sc, of k]
    have "stop - (off + n) < stop - off" using ls(2) True by linarith
    with less.hyps [of "off + n" "Suc k" t] less.prems True ls show ?thesis by auto
  qed
qed

end

locale self_delimiting = frame_scanner +
  assumes scan_prefix: "scan s rest = Some (n, s') \<Longrightarrow> scan s (take n rest) = Some (n, s')"
    and scan_extend: "scan s f = Some (length f, s') \<Longrightarrow> scan s (f @ rest) = Some (length f, s')"
begin

lemma run_frames_nonempty: "run_frames scan s (f # fs) = Some s' \<Longrightarrow> f \<noteq> []"
  by (auto split: option.splits if_splits dest: scan_bounds)

lemma loop_sound:
  assumes "stop \<le> file_size h" and "off \<le> stop" and "loop h stop off k s = Some (stop, k', s')"
  shows "\<exists>fs. subarray (contents h) off (stop - off) = concat fs \<and> run_frames scan s fs = Some s' \<and> k' = k + length fs"
  using assms
proof (induction "stop - off" arbitrary: off k s rule: less_induct)
  case less
  show ?case
  proof (cases "off < stop \<and> k < max_frames")
    case False
    with less.prems have "off = stop \<and> k' = k \<and> s' = s"
      by (auto simp: loop_unfold [of stop h off k s])
    then show ?thesis by (intro exI [of _ "[]"]) simp
  next
    case True
    let ?rest = "subarray (contents h) off (stop - off)"
    from True less.prems obtain n t where sc: "scan s ?rest = Some (n, t)"
      by (auto simp: loop_unfold [of stop h off k s] split: option.splits)
    note ls = loop_scan [OF less.prems(1) _ _ sc, of k]
    have "stop - (off + n) < stop - off" using ls(2) True by linarith
    with less.hyps [of "off + n" "Suc k" t] less.prems True ls obtain fs
      where fs: "subarray (contents h) (off + n) (stop - (off + n)) = concat fs"
        "run_frames scan t fs = Some s'" "k' = Suc k + length fs"
      by auto
    have cut: "?rest = subarray (contents h) off n @ subarray (contents h) (off + n) (stop - (off + n))"
      using subarray_split [of "contents h" off n "stop - (off + n)"] ls(3) True by simp
    have len: "length (subarray (contents h) off n) = n"
      using ls(3) True less.prems(1) by simp
    have "take n ?rest = subarray (contents h) off n"
      using len by (simp add: cut)
    with scan_prefix [OF sc] have "scan s (subarray (contents h) off n) = Some (n, t)"
      by simp
    then have "run_frames scan s (subarray (contents h) off n # fs) = Some s'"
      using fs(2) len by simp
    with cut fs show ?thesis
      by (intro exI [of _ "subarray (contents h) off n # fs"]) simp
  qed
qed

lemma loop_complete:
  assumes "stop \<le> file_size h" and "off \<le> stop" and "subarray (contents h) off (stop - off) = concat fs"
    and "run_frames scan s fs = Some s'" and "k + length fs \<le> max_frames"
  shows "loop h stop off k s = Some (stop, k + length fs, s')"
  using assms(2-5)
proof (induction fs arbitrary: off k s)
  case Nil
  then have "length (subarray (contents h) off (stop - off)) = 0"
    by (simp del: length_subarray)
  with assms(1) Nil(1) have "off = stop" by (simp add: min_def split: if_splits)
  with Nil show ?case by (simp add: loop_unfold [OF assms(1), of stop])
next
  case (Cons f fs)
  from Cons.prems(3) obtain t where sc: "scan s f = Some (length f, t)" and run: "run_frames scan t fs = Some s'"
    by (auto split: option.splits if_splits)
  have rest: "subarray (contents h) off (stop - off) = f @ concat fs"
    using Cons.prems(2) by simp
  then have "length f \<le> stop - off"
    using assms(1) by (metis length_append length_subarray le_add1 min.bounded_iff)
  moreover have "0 < length f" using sc scan_bounds by blast
  ultimately have off: "off + length f \<le> stop" "off < stop" using Cons.prems(1) by linarith+
  have "stop - off = length f + (stop - (off + length f))" using off by simp
  then have "f @ concat fs = subarray (contents h) off (length f) @ subarray (contents h) (off + length f) (stop - (off + length f))"
    using subarray_split [of "contents h" off "length f" "stop - (off + length f)"] rest by simp
  then have tail: "subarray (contents h) (off + length f) (stop - (off + length f)) = concat fs"
    using off assms(1) by (simp add: append_eq_append_conv)
  have "scan s (subarray (contents h) off (stop - off)) = Some (length f, t)"
    using scan_extend [OF sc] rest by simp
  then have "loop h stop off k s = loop h stop (off + length f) (Suc k) t"
    using loop_scan(1) [OF assms(1) off(2)] Cons.prems(4) by simp
  also have "\<dots> = Some (stop, Suc k + length fs, s')"
    by (rule Cons.IH [OF off(1) tail run]) (use Cons.prems(4) in simp)
  finally show ?case by simp
qed

text \<open>What a validator's loop accepts is what the grammar of one frame generates.\<close>

lemma loop_iff:
  assumes "stop \<le> file_size h" and "off \<le> stop"
  shows "loop h stop off 0 s = Some (stop, k, s') \<longleftrightarrow>
    (\<exists>fs. subarray (contents h) off (stop - off) = concat fs \<and> run_frames scan s fs = Some s' \<and>
          k = length fs \<and> length fs \<le> max_frames)"
proof
  assume "loop h stop off 0 s = Some (stop, k, s')"
  with loop_sound [OF assms this] loop_pieces [OF assms this]
  show "\<exists>fs. subarray (contents h) off (stop - off) = concat fs \<and> run_frames scan s fs = Some s' \<and>
          k = length fs \<and> length fs \<le> max_frames"
    by auto
next
  assume "\<exists>fs. subarray (contents h) off (stop - off) = concat fs \<and> run_frames scan s fs = Some s' \<and>
          k = length fs \<and> length fs \<le> max_frames"
  then show "loop h stop off 0 s = Some (stop, k, s')"
    using loop_complete [OF assms, of _ s s' 0] by auto
qed

text \<open>The cut into frames is unique: a file is read in one way only.\<close>

lemma frames_unique:
  "run_frames scan s fs = Some a \<Longrightarrow> run_frames scan s gs = Some b \<Longrightarrow> concat fs = concat gs \<Longrightarrow> fs = gs"
proof (induction fs arbitrary: s gs)
  case Nil
  then show ?case using run_frames_nonempty by (cases gs) fastforce+
next
  case (Cons f fs)
  then obtain g gs' where gs: "gs = g # gs'"
    using run_frames_nonempty by (cases gs) auto
  from Cons.prems(1) obtain t where f: "scan s f = Some (length f, t)" "run_frames scan t fs = Some a"
    by (auto split: option.splits if_splits)
  from Cons.prems(2) obtain u where g: "scan s g = Some (length g, u)" "run_frames scan u gs' = Some b"
    by (auto simp: gs split: option.splits if_splits)
  have eq: "f @ concat fs = g @ concat gs'" using Cons.prems(3) gs by simp
  have "length f = length g \<and> t = u"
    using scan_extend [OF f(1), of "concat fs"] scan_extend [OF g(1), of "concat gs'"] eq by simp
  then have "f = g" and "concat fs = concat gs'" using eq by auto
  with Cons.IH [of t gs'] f(2) g(2) gs \<open>length f = length g \<and> t = u\<close> show ?case by simp
qed

end

section \<open>Formats without state between frames\<close>

text \<open>
  A format whose frames stand on their own is given by the length of the frame at the head
  of a buffer. It is self-delimiting with the trivial state.
\<close>

lemma run_frames_unit:
  "run_frames (\<lambda>_. map_option (\<lambda>n. (n, ())) \<circ> p) () fs = Some () \<longleftrightarrow> list_all (\<lambda>f. p f = Some (length f)) fs"
  by (induction fs) (auto split: option.splits)

locale stateless_format =
  fixes frame_length :: "buffer \<Rightarrow> nat option"
    and frame_loop :: "handle \<Rightarrow> nat \<Rightarrow> nat \<Rightarrow> nat \<Rightarrow> (nat \<times> nat) option"
    and frame_limit :: nat
  assumes frame_length_bounds: "frame_length rest = Some n \<Longrightarrow> 0 < n \<and> n \<le> length rest"
    and frame_length_local: "frame_length rest = Some n \<Longrightarrow> take n rest = take n other \<Longrightarrow>
      n \<le> length other \<Longrightarrow> frame_length other = Some n"
    and frame_loop_unfold: "stop \<le> file_size h \<Longrightarrow>
      frame_loop h stop off k =
        (if off < stop \<and> k < frame_limit
         then (case frame_length (subarray (contents h) off (stop - off)) of
                 None \<Rightarrow> None
               | Some n \<Rightarrow> frame_loop h stop (off + n) (Suc k))
         else Some (off, k))"

sublocale stateless_format \<subseteq> self_delimiting
  "\<lambda>_. map_option (\<lambda>n. (n, ())) \<circ> frame_length"
  "\<lambda>h stop off k u. map_option (\<lambda>(o', k'). (o', k', u)) (frame_loop h stop off k)"
  frame_limit
proof
  fix s rest n s'
  assume *: "(map_option (\<lambda>n. (n, ())) \<circ> frame_length) rest = Some (n, s')"
  then show "0 < n \<and> n \<le> length rest"
    by (auto dest: frame_length_bounds)
  with * show "(map_option (\<lambda>n. (n, ())) \<circ> frame_length) (take n rest) = Some (n, s')"
    using frame_length_local [of rest n "take n rest"] by auto
next
  fix s f s' rest
  assume "(map_option (\<lambda>n. (n, ())) \<circ> frame_length) f = Some (length f, s')"
  then show "(map_option (\<lambda>n. (n, ())) \<circ> frame_length) (f @ rest) = Some (length f, s')"
    using frame_length_local [of f "length f" "f @ rest"] by auto
next
  fix stop h off k and u :: unit
  assume "stop \<le> file_size h"
  then show "map_option (\<lambda>(o', k'). (o', k', u)) (frame_loop h stop off k) =
      (if off < stop \<and> k < frame_limit
       then case (map_option (\<lambda>n. (n, ())) \<circ> frame_length) (subarray (contents h) off (stop - off)) of None \<Rightarrow> None
            | Some (n, s') \<Rightarrow> map_option (\<lambda>(o', k'). (o', k', s')) (frame_loop h stop (off + n) (Suc k))
       else Some (off, k, u))"
    by (subst frame_loop_unfold) (auto split: option.splits)
qed

context stateless_format
begin

lemma frame_loop_iff:
  assumes "stop \<le> file_size h" and "off \<le> stop"
  shows "frame_loop h stop off 0 = Some (stop, k) \<longleftrightarrow>
    (\<exists>fs. subarray (contents h) off (stop - off) = concat fs \<and>
          list_all (\<lambda>f. frame_length f = Some (length f)) fs \<and> k = length fs \<and> length fs \<le> frame_limit)"
  using loop_iff [OF assms, of "()" k "()"] by (auto simp: run_frames_unit)

text \<open>The validators' verdict: the window is a non-empty sequence of fewer frames than the limit.\<close>

lemma accepts_iff:
  assumes "stop \<le> file_size h" and "off \<le> stop"
  shows "(case frame_loop h stop off 0 of
            None \<Rightarrow> False
          | Some (offset, frames) \<Rightarrow> offset = stop \<and> frames > 0 \<and> frames < frame_limit) \<longleftrightarrow>
    (\<exists>fs. fs \<noteq> [] \<and> length fs < frame_limit \<and> subarray (contents h) off (stop - off) = concat fs \<and>
          list_all (\<lambda>f. frame_length f = Some (length f)) fs)"
proof -
  have "(case frame_loop h stop off 0 of
            None \<Rightarrow> False
          | Some (offset, frames) \<Rightarrow> offset = stop \<and> frames > 0 \<and> frames < frame_limit) \<longleftrightarrow>
      (\<exists>k. frame_loop h stop off 0 = Some (stop, k) \<and> 0 < k \<and> k < frame_limit)"
    by (auto split: option.splits)
  also have "\<dots> \<longleftrightarrow>
    (\<exists>fs. fs \<noteq> [] \<and> length fs < frame_limit \<and> subarray (contents h) off (stop - off) = concat fs \<and>
          list_all (\<lambda>f. frame_length f = Some (length f)) fs)"
    unfolding frame_loop_iff [OF assms] by (auto 0 3 intro: less_imp_le)
  finally show ?thesis .
qed

end

end
