(* ===== verification/Media_Audio.thy ===== *)
theory Media_Audio
  imports Media_File
begin

text \<open>
  The frame-by-frame audio validators of src/src/media/media-audio-structure.ts: ADTS AAC,
  MPEG audio with its ID3 tags, and AMR. Each validator is a check of the file's head and
  a loop over frames; the loop returns \<open>None\<close> where the source returns \<open>false\<close> inside it
  and the values of its variables where the loop condition fails. The Ogg container and
  ADIF have theories of their own.
\<close>

section \<open>ADTS AAC\<close>

definition AAC_ADIF :: buffer where
  "AAC_ADIF = [0x41, 0x44, 0x49, 0x46]"

definition AAC_MAX_FRAMES :: nat where
  "AAC_MAX_FRAMES = 100000"

definition adts_sync :: "buffer \<Rightarrow> bool" where
  "adts_sync header \<longleftrightarrow>
     byte_at header 0 = 0xff \<and> byte_at header 1 AND 0xf0 = 0xf0 \<and> byte_at header 1 AND 0x06 = 0"

definition adts_protection_absent :: "buffer \<Rightarrow> bool" where
  "adts_protection_absent header \<longleftrightarrow> byte_at header 1 AND 0x01 \<noteq> 0"

definition adts_sampling_index :: "buffer \<Rightarrow> nat" where
  "adts_sampling_index header = unat (drop_bit 2 (byte_at header 2) AND 0x0f)"

definition adts_frame_bytes :: "buffer \<Rightarrow> nat" where
  "adts_frame_bytes header =
     (push_bit 11 (unat (byte_at header 3 AND 0x03)) OR push_bit 3 (unat (byte_at header 4)))
       OR drop_bit 5 (unat (byte_at header 5))"

function aac_loop :: "handle \<Rightarrow> nat \<Rightarrow> nat \<Rightarrow> nat \<Rightarrow> (nat \<times> nat) option" where
  "aac_loop h stop offset frames =
     (if offset < stop \<and> frames < AAC_MAX_FRAMES
      then (case readExactly h 7 offset of
              None \<Rightarrow> None
            | Some header \<Rightarrow>
                if \<not> adts_sync header then None
                else let protectionAbsent = adts_protection_absent header
                  in if 13 \<le> adts_sampling_index header then None
                  else let headerBytes = (if protectionAbsent then 7 else 9);
                           frameBytes = adts_frame_bytes header
                    in if frameBytes \<le> headerBytes \<or> offset + frameBytes > stop then None
                    else if \<not> protectionAbsent \<and> readExactly h 2 (offset + 7) = None then None
                    else aac_loop h stop (offset + frameBytes) (frames + 1))
      else Some (offset, frames))"
  by pat_completeness auto
termination
  by (relation "measure (\<lambda>(h, stop, offset, frames). AAC_MAX_FRAMES - frames)") auto

declare aac_loop.simps [simp del]

text \<open>The grammar of one ADTS frame: the length of the frame at the head of \<open>rest\<close>.\<close>

definition adts_frame_length :: "buffer \<Rightarrow> nat option" where
  "adts_frame_length rest =
     (if 7 \<le> length rest \<and> adts_sync rest \<and> adts_sampling_index rest < 13 \<and>
         (if adts_protection_absent rest then 7 else 9) < adts_frame_bytes rest \<and>
         adts_frame_bytes rest \<le> length rest
      then Some (adts_frame_bytes rest) else None)"

text \<open>A header field depends on the first seven bytes only.\<close>

lemma adts_fields_cong:
  assumes "\<And>i. i < 7 \<Longrightarrow> byte_at a i = byte_at b i"
  shows "adts_sync a = adts_sync b" "adts_protection_absent a = adts_protection_absent b"
    "adts_sampling_index a = adts_sampling_index b" "adts_frame_bytes a = adts_frame_bytes b"
  using assms [of 0] assms [of 1] assms [of 2] assms [of 3] assms [of 4] assms [of 5]
  by (simp_all add: adts_sync_def adts_protection_absent_def adts_sampling_index_def adts_frame_bytes_def)

lemma adts_fields_subarray:
  assumes "7 \<le> n"
  shows "adts_sync (subarray c off n) = adts_sync (subarray c off 7)"
    "adts_protection_absent (subarray c off n) = adts_protection_absent (subarray c off 7)"
    "adts_sampling_index (subarray c off n) = adts_sampling_index (subarray c off 7)"
    "adts_frame_bytes (subarray c off n) = adts_frame_bytes (subarray c off 7)"
  by (rule adts_fields_cong; use assms in \<open>simp add: byte_at_subarray\<close>)+

lemma aac_loop_unfold:
  assumes "stop \<le> file_size h"
  shows "aac_loop h stop off k =
    (if off < stop \<and> k < AAC_MAX_FRAMES
     then (case adts_frame_length (subarray (contents h) off (stop - off)) of
             None \<Rightarrow> None
           | Some n \<Rightarrow> aac_loop h stop (off + n) (Suc k))
     else Some (off, k))"
proof (cases "off < stop \<and> k < AAC_MAX_FRAMES")
  case True
  show ?thesis
  proof (cases "off + 7 \<le> stop")
    case fits: True
    then have "7 \<le> stop - off" by simp
    note fields = adts_fields_subarray [OF this, of "contents h" off]
    show ?thesis
      using True fits assms
      by (subst aac_loop.simps)
        (auto simp: readExactly_eq adts_frame_length_def Let_def fields)
  next
    case False
    then have "adts_frame_length (subarray (contents h) off (stop - off)) = None"
      by (simp add: adts_frame_length_def)
    with True False show ?thesis
      by (subst aac_loop.simps) (auto simp: Let_def split: option.splits)
  qed
next
  case False
  then show ?thesis by (subst aac_loop.simps) auto
qed

lemma adts_frame_length_local:
  assumes "adts_frame_length rest = Some n" and "take n rest = take n other" and "n \<le> length other"
  shows "adts_frame_length other = Some n"
proof -
  from assms(1) have n: "7 \<le> length rest" "7 < n" "n \<le> length rest"
    by (auto simp: adts_frame_length_def split: if_splits)
  have "byte_at rest i = byte_at other i" if "i < 7" for i
    using arg_cong [OF assms(2), of "\<lambda>b. byte_at b i"] that n(2) by (simp add: byte_at_take)
  note fields = adts_fields_cong [OF this]
  show ?thesis
    using assms n by (auto simp: adts_frame_length_def fields split: if_splits)
qed

lemma adts_frame_length_bounds: "adts_frame_length rest = Some n \<Longrightarrow> 0 < n \<and> n \<le> length rest"
  by (auto simp: adts_frame_length_def split: if_splits)

interpretation adts: stateless_format adts_frame_length aac_loop AAC_MAX_FRAMES
  by unfold_locales (fact adts_frame_length_bounds adts_frame_length_local aac_loop_unfold)+

section \<open>MPEG audio\<close>

definition MP3_ID3V2 :: buffer where
  "MP3_ID3V2 = [0x49, 0x44, 0x33]"

definition MP3_ID3V1 :: buffer where
  "MP3_ID3V1 = [0x54, 0x41, 0x47]"

definition MP3_ID3V1_BYTES :: nat where
  "MP3_ID3V1_BYTES = 128"

definition MP3_MAX_FRAMES :: nat where
  "MP3_MAX_FRAMES = 100000"

definition MPEG1_LAYER1_BITRATES :: "nat list" where
  "MPEG1_LAYER1_BITRATES = [0, 32, 64, 96, 128, 160, 192, 224, 256, 288, 320, 352, 384, 416, 448, 0]"

definition MPEG1_LAYER2_BITRATES :: "nat list" where
  "MPEG1_LAYER2_BITRATES = [0, 32, 48, 56, 64, 80, 96, 112, 128, 160, 192, 224, 256, 320, 384, 0]"

definition MPEG1_LAYER3_BITRATES :: "nat list" where
  "MPEG1_LAYER3_BITRATES = [0, 32, 40, 48, 56, 64, 80, 96, 112, 128, 160, 192, 224, 256, 320, 0]"

definition MPEG2_LAYER1_BITRATES :: "nat list" where
  "MPEG2_LAYER1_BITRATES = [0, 32, 48, 56, 64, 80, 96, 112, 128, 144, 160, 176, 192, 224, 256, 0]"

definition MPEG2_LAYER23_BITRATES :: "nat list" where
  "MPEG2_LAYER23_BITRATES = [0, 8, 16, 24, 32, 40, 48, 56, 64, 80, 96, 112, 128, 144, 160, 0]"

definition MPEG1_SAMPLE_RATES :: "nat list" where
  "MPEG1_SAMPLE_RATES = [44100, 48000, 32000]"

text \<open>\<open>array[i] ?? 0\<close>, for an array of numbers.\<close>

definition nat_at :: "nat list \<Rightarrow> nat \<Rightarrow> nat" where
  "nat_at xs i = (if i < length xs then xs ! i else 0)"

definition mpegBitrateKbps :: "bool \<Rightarrow> nat \<Rightarrow> nat \<Rightarrow> nat" where
  "mpegBitrateKbps mpeg1 layer index =
     (if mpeg1
      then if layer = 1 then nat_at MPEG1_LAYER1_BITRATES index
           else if layer = 2 then nat_at MPEG1_LAYER2_BITRATES index
           else nat_at MPEG1_LAYER3_BITRATES index
      else if layer = 1 then nat_at MPEG2_LAYER1_BITRATES index
           else nat_at MPEG2_LAYER23_BITRATES index)"

text \<open>
  The source divides in floating point and takes the floor. Numerator and denominator are
  integers far below the precision of a double, where the floor of the rounded quotient
  is the integer quotient; the sampling rates 44100, 48000 and 32000 are divisible by 4.
\<close>

definition mpeg_sample_rate :: "nat \<Rightarrow> nat \<Rightarrow> nat" where
  "mpeg_sample_rate versionBits sampleRateBase =
     (if versionBits = 3 then sampleRateBase
      else if versionBits = 2 then sampleRateBase div 2
      else sampleRateBase div 4)"

definition mpeg_frame_size :: "bool \<Rightarrow> nat \<Rightarrow> nat \<Rightarrow> nat \<Rightarrow> nat \<Rightarrow> nat" where
  "mpeg_frame_size mpeg1 layer bitrate sampleRate padding =
     (if layer = 1 then ((12 * bitrate) div sampleRate + padding) * 4
      else if layer = 3 \<and> \<not> mpeg1 then (72 * bitrate) div sampleRate + padding
      else (144 * bitrate) div sampleRate + padding)"

definition mpegAudioFrameLength :: "buffer \<Rightarrow> nat option" where
  "mpegAudioFrameLength header =
     (if length header < 4 \<or> byte_at header 0 \<noteq> 0xff \<or> byte_at header 1 AND 0xe0 \<noteq> 0xe0 then None
      else let versionBits = unat (drop_bit 3 (byte_at header 1) AND 0x03);
               layerBits = unat (drop_bit 1 (byte_at header 1) AND 0x03);
               bitrateIndex = unat (drop_bit 4 (byte_at header 2) AND 0x0f);
               sampleRateIndex = unat (drop_bit 2 (byte_at header 2) AND 0x03);
               padding = unat (drop_bit 1 (byte_at header 2) AND 0x01);
               emphasis = unat (byte_at header 3 AND 0x03)
        in if versionBits = 1 \<or> layerBits = 0 \<or> bitrateIndex = 0 \<or> bitrateIndex = 0x0f \<or>
              sampleRateIndex = 0x03 \<or> emphasis = 0x02 then None
        else let mpeg1 = (versionBits = 3);
                 layer = 4 - layerBits;
                 bitrateKbps = mpegBitrateKbps mpeg1 layer bitrateIndex;
                 sampleRateBase = nat_at MPEG1_SAMPLE_RATES sampleRateIndex
          in if bitrateKbps = 0 \<or> sampleRateBase = 0 then None
          else Some (mpeg_frame_size mpeg1 layer (bitrateKbps * 1000)
                       (mpeg_sample_rate versionBits sampleRateBase) padding))"

function mpeg_loop :: "handle \<Rightarrow> nat \<Rightarrow> nat \<Rightarrow> nat \<Rightarrow> (nat \<times> nat) option" where
  "mpeg_loop h audioEnd offset frames =
     (if offset < audioEnd \<and> frames < MP3_MAX_FRAMES
      then (case readExactly h 4 offset of
              None \<Rightarrow> None
            | Some header \<Rightarrow>
                (case mpegAudioFrameLength header of
                   None \<Rightarrow> None
                 | Some frameBytes \<Rightarrow>
                     if offset + frameBytes > audioEnd then None
                     else mpeg_loop h audioEnd (offset + frameBytes) (frames + 1)))
      else Some (offset, frames))"
  by pat_completeness auto
termination
  by (relation "measure (\<lambda>(h, audioEnd, offset, frames). MP3_MAX_FRAMES - frames)") auto

declare mpeg_loop.simps [simp del]

text \<open>
  The ID3v2 tag at the file's head: \<open>Some offset\<close> where the audio starts, \<open>None\<close> where
  the source rejects the file; and the end of the audio, before an ID3v1 trailer.
\<close>

definition mpeg_audio_start :: "handle \<Rightarrow> nat option" where
  "mpeg_audio_start h =
     (let firstThree = readExactly h (min 3 (file_size h)) 0
      in if firstThree = Some MP3_ID3V2
         then (case readExactly h 10 0 of
                 None \<Rightarrow> None
               | Some id3Header \<Rightarrow>
                   let majorVersion = byte_at id3Header 3; revision = byte_at id3Header 4
                   in if majorVersion < 2 \<or> majorVersion > 4 \<or> revision = 0xff then None
                   else let sizeBytes = subarray id3Header 6 4
                     in if list_ex (\<lambda>value. value AND 0x80 \<noteq> 0) sizeBytes then None
                     else let tagPayloadBytes =
                                ((push_bit 21 (unat (byte_at sizeBytes 0)) OR push_bit 14 (unat (byte_at sizeBytes 1)))
                                 OR push_bit 7 (unat (byte_at sizeBytes 2))) OR unat (byte_at sizeBytes 3);
                              footerBytes = (if majorVersion = 4 \<and> byte_at id3Header 5 AND 0x10 \<noteq> 0 then 10 else 0);
                              offset = 10 + tagPayloadBytes + footerBytes
                       in if offset > file_size h - 4 then None else Some offset)
         else Some 0)"

definition mpeg_audio_end :: "handle \<Rightarrow> nat \<Rightarrow> nat" where
  "mpeg_audio_end h offset =
     (if file_size h - offset \<ge> MP3_ID3V1_BYTES \<and>
         readExactly h 3 (file_size h - MP3_ID3V1_BYTES) = Some MP3_ID3V1
      then file_size h - MP3_ID3V1_BYTES else file_size h)"

definition matchesMpegAudioStructure :: "handle \<Rightarrow> bool" where
  "matchesMpegAudioStructure h =
     (if \<not> is_file h \<or> file_size h < 4 then False
      else case mpeg_audio_start h of
             None \<Rightarrow> False
           | Some start \<Rightarrow>
               let audioEnd = mpeg_audio_end h start
               in (case mpeg_loop h audioEnd start 0 of
                     None \<Rightarrow> False
                   | Some (offset, frames) \<Rightarrow> offset = audioEnd \<and> frames > 0 \<and> frames < MP3_MAX_FRAMES))"

definition valid_rates :: "nat list \<Rightarrow> bool" where
  "valid_rates xs = list_all (\<lambda>x. x = 0 \<or> 8 \<le> x) xs"

lemma valid_rates_nth: "valid_rates xs \<Longrightarrow> nat_at xs i \<noteq> 0 \<Longrightarrow> 8 \<le> nat_at xs i"
  by (auto simp: valid_rates_def nat_at_def list_all_length split: if_splits)

lemma valid_rates_tables:
  "valid_rates MPEG1_LAYER1_BITRATES" "valid_rates MPEG1_LAYER2_BITRATES" "valid_rates MPEG1_LAYER3_BITRATES"
  "valid_rates MPEG2_LAYER1_BITRATES" "valid_rates MPEG2_LAYER23_BITRATES"
  by (simp_all add: valid_rates_def MPEG1_LAYER1_BITRATES_def MPEG1_LAYER2_BITRATES_def
      MPEG1_LAYER3_BITRATES_def MPEG2_LAYER1_BITRATES_def MPEG2_LAYER23_BITRATES_def)

lemma mpegBitrateKbps_ge: "mpegBitrateKbps m l i \<noteq> 0 \<Longrightarrow> 8 \<le> mpegBitrateKbps m l i"
  unfolding mpegBitrateKbps_def
  by (auto split: if_splits intro!: valid_rates_nth valid_rates_tables)

lemma sample_rate_bounds:
  assumes "nat_at MPEG1_SAMPLE_RATES i \<noteq> 0"
  shows "0 < mpeg_sample_rate v (nat_at MPEG1_SAMPLE_RATES i) \<and> mpeg_sample_rate v (nat_at MPEG1_SAMPLE_RATES i) \<le> 48000"
  using assms
  by (auto simp: mpeg_sample_rate_def nat_at_def MPEG1_SAMPLE_RATES_def nth_Cons split: nat.splits if_splits)

lemma mpeg_frame_size_ge:
  assumes "8 \<le> k" "0 < r" "r \<le> 48000"
  shows "4 \<le> mpeg_frame_size m l (k * 1000) r p"
proof -
  have "c \<le> (a * (k * 1000)) div r" if "c * 48000 \<le> a * 8000" for a c
  proof -
    have "c * r \<le> c * 48000" using assms(3) by simp
    also have "\<dots> \<le> a * (k * 1000)" using that mult_le_mono2 [OF assms(1), of a] by linarith
    finally show ?thesis using assms(2) by (simp add: less_eq_div_iff_mult_less_eq)
  qed
  from this [of 1 12] this [of 4 72] this [of 4 144] show ?thesis
    by (simp add: mpeg_frame_size_def)
qed

text \<open>No frame is shorter than its header.\<close>

lemma mpegAudioFrameLength_ge: "mpegAudioFrameLength header = Some n \<Longrightarrow> 4 \<le> n"
  unfolding mpegAudioFrameLength_def Let_def
  by (auto split: if_splits intro!: mpeg_frame_size_ge mpegBitrateKbps_ge simp: sample_rate_bounds)

text \<open>The grammar of one MPEG audio frame.\<close>

definition mpeg_frame_length :: "buffer \<Rightarrow> nat option" where
  "mpeg_frame_length rest =
     (case mpegAudioFrameLength (take 4 rest) of
        None \<Rightarrow> None
      | Some n \<Rightarrow> if n \<le> length rest then Some n else None)"

lemma mpegAudioFrameLength_short: "length header < 4 \<Longrightarrow> mpegAudioFrameLength header = None"
  by (simp add: mpegAudioFrameLength_def)

lemma mpeg_loop_unfold:
  assumes "stop \<le> file_size h"
  shows "mpeg_loop h stop off k =
    (if off < stop \<and> k < MP3_MAX_FRAMES
     then (case mpeg_frame_length (subarray (contents h) off (stop - off)) of
             None \<Rightarrow> None
           | Some n \<Rightarrow> mpeg_loop h stop (off + n) (Suc k))
     else Some (off, k))"
proof (cases "off + 4 \<le> stop")
  case True
  then have "take 4 (subarray (contents h) off (stop - off)) = subarray (contents h) off 4"
    by (simp add: subarray_def min_def)
  with True assms show ?thesis
    by (subst mpeg_loop.simps) (auto simp: readExactly_eq mpeg_frame_length_def split: option.splits)
next
  case False
  then have "mpeg_frame_length (subarray (contents h) off (stop - off)) = None"
    by (simp add: mpeg_frame_length_def mpegAudioFrameLength_short)
  with False show ?thesis
    by (subst mpeg_loop.simps) (auto split: option.splits dest: mpegAudioFrameLength_ge)
qed

lemma mpeg_frame_length_bounds: "mpeg_frame_length rest = Some n \<Longrightarrow> 0 < n \<and> n \<le> length rest"
  by (auto simp: mpeg_frame_length_def split: option.splits if_splits dest: mpegAudioFrameLength_ge)

lemma mpeg_frame_length_local:
  assumes "mpeg_frame_length rest = Some n" and "take n rest = take n other" and "n \<le> length other"
  shows "mpeg_frame_length other = Some n"
proof -
  from assms(1) have n: "4 \<le> n" "n \<le> length rest"
    by (auto simp: mpeg_frame_length_def split: option.splits if_splits dest: mpegAudioFrameLength_ge)
  have "take 4 rest = take 4 other"
    using arg_cong [OF assms(2), of "take 4"] n(1) by (simp add: min_def)
  with assms show ?thesis
    by (auto simp: mpeg_frame_length_def split: option.splits if_splits)
qed

interpretation mpeg: stateless_format mpeg_frame_length mpeg_loop MP3_MAX_FRAMES
  by unfold_locales (fact mpeg_frame_length_bounds mpeg_frame_length_local mpeg_loop_unfold)+

section \<open>AMR\<close>

definition AMR_NB_MAGIC :: buffer where
  "AMR_NB_MAGIC = [0x23, 0x21, 0x41, 0x4d, 0x52, 0x0a]"

definition AMR_WB_MAGIC :: buffer where
  "AMR_WB_MAGIC = [0x23, 0x21, 0x41, 0x4d, 0x52, 0x2d, 0x57, 0x42, 0x0a]"

definition AMR_MAX_FRAMES :: nat where
  "AMR_MAX_FRAMES = 100000"

definition AMR_NB_FRAME_BITS :: "nat list" where
  "AMR_NB_FRAME_BITS = [95, 103, 118, 134, 148, 159, 204, 244, 39]"

definition AMR_WB_FRAME_BITS :: "nat list" where
  "AMR_WB_FRAME_BITS = [132, 177, 253, 285, 317, 365, 397, 461, 477, 40]"

definition amrFrameBits :: "bool \<Rightarrow> nat \<Rightarrow> nat option" where
  "amrFrameBits wideband frameType =
     (if wideband
      then if frameType \<le> 9
           then (if frameType < length AMR_WB_FRAME_BITS then Some (AMR_WB_FRAME_BITS ! frameType) else None)
           else if frameType = 14 \<or> frameType = 15 then Some 0 else None
      else if frameType \<le> 8
           then (if frameType < length AMR_NB_FRAME_BITS then Some (AMR_NB_FRAME_BITS ! frameType) else None)
           else if frameType = 15 then Some 0 else None)"

text \<open>\<open>Math.ceil(bits / 8)\<close>.\<close>

definition amr_payload_bytes :: "nat \<Rightarrow> nat" where
  "amr_payload_bytes speechBits = (speechBits + 7) div 8"

function amr_loop :: "bool \<Rightarrow> handle \<Rightarrow> nat \<Rightarrow> nat \<Rightarrow> nat \<Rightarrow> (nat \<times> nat) option" where
  "amr_loop wideband h stop offset frames =
     (if offset < stop \<and> frames < AMR_MAX_FRAMES
      then (case readExactly h 1 offset of
              None \<Rightarrow> None
            | Some header \<Rightarrow>
                if byte_at header 0 AND 0x83 \<noteq> 0 then None
                else (case amrFrameBits wideband (unat (drop_bit 3 (byte_at header 0) AND 0x0f)) of
                        None \<Rightarrow> None
                      | Some speechBits \<Rightarrow>
                          let payloadBytes = amr_payload_bytes speechBits
                          in if offset + 1 + payloadBytes > stop then None
                          else if payloadBytes > 0 \<and>
                               (case readExactly h 1 (offset + payloadBytes) of
                                  None \<Rightarrow> True
                                | Some lastPayloadByte \<Rightarrow>
                                    let paddingBits = payloadBytes * 8 - speechBits
                                    in paddingBits > 0 \<and>
                                       byte_at lastPayloadByte 0 AND (push_bit paddingBits 1 - 1) \<noteq> 0)
                          then None
                          else amr_loop wideband h stop (offset + 1 + payloadBytes) (frames + 1)))
      else Some (offset, frames))"
  by pat_completeness auto
termination
  by (relation "measure (\<lambda>(wideband, h, stop, offset, frames). AMR_MAX_FRAMES - frames)") auto

declare amr_loop.simps [simp del]

definition matchesAmrStructure :: "handle \<Rightarrow> bool" where
  "matchesAmrStructure h =
     (if \<not> is_file h \<or> file_size h \<le> length AMR_NB_MAGIC then False
      else case readExactly h (min (length AMR_WB_MAGIC) (file_size h)) 0 of
             None \<Rightarrow> False
           | Some prefix' \<Rightarrow>
               let wideband = (length prefix' \<ge> length AMR_WB_MAGIC \<and>
                               subarray prefix' 0 (length AMR_WB_MAGIC) = AMR_WB_MAGIC);
                   narrowband = (subarray prefix' 0 (length AMR_NB_MAGIC) = AMR_NB_MAGIC)
               in if \<not> wideband \<and> \<not> narrowband then False
                  else (case amr_loop wideband h (file_size h)
                               (if wideband then length AMR_WB_MAGIC else length AMR_NB_MAGIC) 0 of
                          None \<Rightarrow> False
                        | Some (offset, frames) \<Rightarrow>
                            offset = file_size h \<and> frames > 0 \<and> frames < AMR_MAX_FRAMES))"

text \<open>
  The grammar of one AMR frame: a table-of-contents octet with its reserved bits clear, the
  speech bits of its mode rounded up to octets, the padding bits clear.
\<close>

definition amr_frame_length :: "bool \<Rightarrow> buffer \<Rightarrow> nat option" where
  "amr_frame_length wideband rest =
     (if rest = [] \<or> byte_at rest 0 AND 0x83 \<noteq> 0 then None
      else case amrFrameBits wideband (unat (drop_bit 3 (byte_at rest 0) AND 0x0f)) of
             None \<Rightarrow> None
           | Some bits \<Rightarrow>
               let n = amr_payload_bytes bits
               in if n < length rest \<and>
                     (n = 0 \<or> n * 8 = bits \<or> byte_at rest n AND (push_bit (n * 8 - bits) 1 - 1) = 0)
                  then Some (Suc n) else None)"

lemma amr_loop_unfold:
  assumes "stop \<le> file_size h"
  shows "amr_loop w h stop off k =
    (if off < stop \<and> k < AMR_MAX_FRAMES
     then (case amr_frame_length w (subarray (contents h) off (stop - off)) of
             None \<Rightarrow> None
           | Some n \<Rightarrow> amr_loop w h stop (off + n) (Suc k))
     else Some (off, k))"
proof (cases "off < stop \<and> k < AMR_MAX_FRAMES")
  case True
  then have ne: "subarray (contents h) off (stop - off) \<noteq> []" and b0: "byte_at (subarray (contents h) off (stop - off)) 0 = byte_at (contents h) off"
    using assms by (auto simp: byte_at_subarray simp flip: length_0_conv)
  have bits: "bits \<le> amr_payload_bytes bits * 8" for bits
    by (simp add: amr_payload_bytes_def)
  show ?thesis
    using True assms ne b0 bits
    by (subst amr_loop.simps)
      (auto simp: readExactly_eq amr_frame_length_def Let_def byte_at_subarray le_less split: option.splits if_splits)
next
  case False
  then show ?thesis by (subst amr_loop.simps) auto
qed

lemma amr_frame_length_bounds: "amr_frame_length w rest = Some n \<Longrightarrow> 0 < n \<and> n \<le> length rest"
  by (auto simp: amr_frame_length_def Let_def split: option.splits if_splits)

lemma amr_frame_length_local:
  assumes "amr_frame_length w rest = Some n" and "take n rest = take n other" and "n \<le> length other"
  shows "amr_frame_length w other = Some n"
proof -
  have n: "0 < n" "n \<le> length rest"
    using amr_frame_length_bounds [OF assms(1)] by auto
  have b: "byte_at rest i = byte_at other i" if "i < n" for i
    using arg_cong [OF assms(2), of "\<lambda>b. byte_at b i"] that by (simp add: byte_at_take)
  have "other \<noteq> []" using assms(3) n(1) by auto
  with assms(1,3) b [of 0] b [of "n - 1"] n show ?thesis
    by (auto simp: amr_frame_length_def Let_def split: option.splits if_splits)
qed

interpretation amr: stateless_format "amr_frame_length w" "amr_loop w" AMR_MAX_FRAMES for w
  by unfold_locales (fact amr_frame_length_bounds amr_frame_length_local amr_loop_unfold)+

section \<open>Properties\<close>

lemma mpeg_audio_end_bounds: "off \<le> file_size h \<Longrightarrow> off \<le> mpeg_audio_end h off \<and> mpeg_audio_end h off \<le> file_size h"
  by (auto simp: mpeg_audio_end_def)

lemma mpeg_audio_start_bound: "4 \<le> file_size h \<Longrightarrow> mpeg_audio_start h = Some off \<Longrightarrow> off \<le> file_size h"
  by (auto simp: mpeg_audio_start_def Let_def split: if_splits option.splits)

text \<open>
  \<open>matchesMpegAudioStructure\<close>: it accepts exactly the regular files whose bytes between
  the ID3v2 tag (whose declared length is honoured) and the optional 128-byte ID3v1 trailer
  are a non-empty sequence of fewer than 100000 complete MPEG audio frames, each as long as
  its header's bit rate, sampling rate and padding say.
\<close>

theorem matchesMpegAudioStructure_iff:
  "matchesMpegAudioStructure h \<longleftrightarrow>
     is_file h \<and> 4 \<le> file_size h \<and>
     (\<exists>start fs. mpeg_audio_start h = Some start \<and> fs \<noteq> [] \<and> length fs < MP3_MAX_FRAMES \<and>
        list_all (\<lambda>f. mpeg_frame_length f = Some (length f)) fs \<and>
        contents h = take start (contents h) @ concat fs @ drop (mpeg_audio_end h start) (contents h))"
proof -
  have cut: "subarray (contents h) start (mpeg_audio_end h start - start) = concat fs \<longleftrightarrow>
      contents h = take start (contents h) @ concat fs @ drop (mpeg_audio_end h start) (contents h)"
    if "start \<le> file_size h" for start fs
  proof -
    from mpeg_audio_end_bounds [OF that] have
      "contents h = take start (contents h) @ subarray (contents h) start (mpeg_audio_end h start - start) @
        drop (mpeg_audio_end h start) (contents h)"
      by (metis append_take_drop_id drop_drop le_add_diff_inverse2 subarray_def)
    then show ?thesis by (metis append_same_eq same_append_eq)
  qed
  show ?thesis
    using mpeg.accepts_iff [of "mpeg_audio_end h start" h start for start]
    by (auto simp: matchesMpegAudioStructure_def Let_def cut mpeg_audio_end_bounds mpeg_audio_start_bound
        split: option.splits)
qed

lemma length_AMR_magic [simp]: "length AMR_WB_MAGIC = 9" "length AMR_NB_MAGIC = 6"
  by (simp_all add: AMR_WB_MAGIC_def AMR_NB_MAGIC_def)

lemma AMR_magic_disjoint:
  assumes "take 9 c = AMR_WB_MAGIC"
  shows "take 6 c \<noteq> AMR_NB_MAGIC"
proof -
  have "take 6 c = take 6 (take 9 c)" by simp
  then show ?thesis unfolding assms by (simp add: AMR_WB_MAGIC_def AMR_NB_MAGIC_def)
qed

definition amr_frames :: "bool \<Rightarrow> buffer \<Rightarrow> bool" where
  "amr_frames wideband c \<longleftrightarrow> (\<exists>fs. fs \<noteq> [] \<and> length fs < AMR_MAX_FRAMES \<and> c = concat fs \<and>
     list_all (\<lambda>f. amr_frame_length wideband f = Some (length f)) fs)"

lemma amr_frames_Nil [simp]: "\<not> amr_frames w []"
  using amr_frame_length_bounds [of w] by (fastforce simp: amr_frames_def neq_Nil_conv)

lemma amr_loop_accepts:
  "n \<le> file_size h \<Longrightarrow>
     (case amr_loop w h (file_size h) n 0 of
        None \<Rightarrow> False
      | Some (offset, frames) \<Rightarrow> offset = file_size h \<and> frames > 0 \<and> frames < AMR_MAX_FRAMES) \<longleftrightarrow>
     amr_frames w (drop n (contents h))"
  using amr.accepts_iff [of "file_size h" h n w] by (simp add: subarray_def amr_frames_def)

lemma take_eq_append: "length m = n \<Longrightarrow> (\<exists>c. b = m @ c \<and> P c) \<longleftrightarrow> take n b = m \<and> P (drop n b)"
  by (metis append_eq_conv_conj append_take_drop_id)

lemma take_prefix_length: "take n b = m \<Longrightarrow> length m = n \<Longrightarrow> n \<le> length b"
  by (auto simp: min_def split: if_splits)

lemma matchesAmrStructure_heads:
  "matchesAmrStructure h \<longleftrightarrow> is_file h \<and>
     (if take 9 (contents h) = AMR_WB_MAGIC then amr_frames True (drop 9 (contents h))
      else take 6 (contents h) = AMR_NB_MAGIC \<and> amr_frames False (drop 6 (contents h)))"
proof (cases "6 < file_size h")
  case False
  then have "drop 6 (contents h) = []" and "take 9 (contents h) \<noteq> AMR_WB_MAGIC"
    using take_prefix_length [of 9 "contents h" AMR_WB_MAGIC] by auto
  with False show ?thesis
    by (simp add: matchesAmrStructure_def)
next
  case True
  let ?p = "take (min 9 (file_size h)) (contents h)"
  have p: "readExactly h (min 9 (file_size h)) 0 = Some ?p"
    using True by (simp add: readExactly_eq subarray_def)
  have wide: "9 \<le> length ?p \<and> subarray ?p 0 9 = AMR_WB_MAGIC \<longleftrightarrow> take 9 (contents h) = AMR_WB_MAGIC"
    using take_prefix_length [of 9 "contents h" AMR_WB_MAGIC] by (auto simp: subarray_def min_def)
  have narrow: "subarray ?p 0 6 = take 6 (contents h)"
    using True by (simp add: subarray_def min_def)
  show ?thesis
  proof (cases "take 9 (contents h) = AMR_WB_MAGIC")
    case w: True
    then have "9 \<le> file_size h" by (rule take_prefix_length) simp
    with w True show ?thesis
      unfolding matchesAmrStructure_def p option.case Let_def length_AMR_magic wide
      by (simp add: amr_loop_accepts)
  next
    case False
    with True show ?thesis
      unfolding matchesAmrStructure_def p option.case Let_def length_AMR_magic wide narrow
      by (simp add: amr_loop_accepts)
  qed
qed

text \<open>
  \<open>matchesAmrStructure\<close>: it accepts exactly the regular files that are the narrow-band or
  the wide-band magic followed by a non-empty sequence of fewer than 100000 complete AMR
  frames of that band, with reserved and padding bits clear.
\<close>

theorem matchesAmrStructure_iff:
  "matchesAmrStructure h \<longleftrightarrow>
     is_file h \<and>
     (\<exists>wideband c. contents h = (if wideband then AMR_WB_MAGIC else AMR_NB_MAGIC) @ c \<and> amr_frames wideband c)"
  using AMR_magic_disjoint [of "contents h"]
  by (auto simp: matchesAmrStructure_heads ex_bool_eq take_eq_append)

end
