(* ===== verification/Media_Adif.thy ===== *)
theory Media_Adif
  imports Media_Audio
begin

text \<open>
  The bit reader and the ADIF header parser of src/src/media/media-audio-structure.ts, and
  the AAC validator that chooses between ADIF and ADTS. A read that returns \<open>null\<close> always
  ends in \<open>return false\<close> of the parser that asked for it, so the parsers are in the option
  monad: \<open>None\<close> is that verdict.
\<close>

section \<open>The bit reader\<close>

record bit_reader =
  bytes :: buffer
  bit_offset :: nat

definition bit_at :: "buffer \<Rightarrow> nat \<Rightarrow> nat" where
  "bit_at b absolute = unat (drop_bit (7 - absolute mod 8) (byte_at b (absolute div 8)) AND 1)"

text \<open>The loop of \<open>BitReader.read\<close>: \<open>n\<close> rounds left, the next bit at \<open>absolute\<close>.\<close>

fun read_bits :: "buffer \<Rightarrow> nat \<Rightarrow> nat \<Rightarrow> nat \<Rightarrow> nat" where
  "read_bits b absolute 0 value = value"
| "read_bits b absolute (Suc n) value = read_bits b (absolute + 1) n (value * 2 + bit_at b absolute)"

definition bit_skip :: "nat \<Rightarrow> bit_reader \<Rightarrow> bit_reader option" where
  "bit_skip len r =
     (if bit_offset r + len > length (bytes r) * 8 then None
      else Some (r\<lparr>bit_offset := bit_offset r + len\<rparr>))"

definition bit_read :: "nat \<Rightarrow> bit_reader \<Rightarrow> (nat \<times> bit_reader) option" where
  "bit_read len r =
     (if len > 32 \<or> bit_offset r + len > length (bytes r) * 8
      then if len > 32 then map_option (\<lambda>r'. (0, r')) (bit_skip len r) else None
      else Some (read_bits (bytes r) (bit_offset r) len 0, r\<lparr>bit_offset := bit_offset r + len\<rparr>))"

definition alignToByte :: "bit_reader \<Rightarrow> bit_reader" where
  "alignToByte r =
     (let remainder = bit_offset r mod 8
      in if remainder \<noteq> 0 then r\<lparr>bit_offset := bit_offset r + (8 - remainder)\<rparr> else r)"

definition byteOffset :: "bit_reader \<Rightarrow> nat" where
  "byteOffset r = (bit_offset r + 7) div 8"

section \<open>The ADIF header\<close>

text \<open>Reads whose value is dropped: once, if a flag is set, and \<open>count\<close> times.\<close>

definition bit_drop :: "nat \<Rightarrow> bit_reader \<Rightarrow> bit_reader option" where
  "bit_drop len r = map_option snd (bit_read len r)"

definition flagged_drop :: "nat \<Rightarrow> bit_reader \<Rightarrow> bit_reader option" where
  "flagged_drop len r = do { (flag, r) \<leftarrow> bit_read 1 r; if flag = 1 then bit_drop len r else Some r }"

fun repeat_drop :: "nat list \<Rightarrow> nat \<Rightarrow> bit_reader \<Rightarrow> bit_reader option" where
  "repeat_drop lens 0 r = Some r"
| "repeat_drop lens (Suc n) r = do { r \<leftarrow> fold (\<lambda>len acc. acc \<bind> bit_drop len) lens (Some r); repeat_drop lens n r }"

definition parseProgramConfigElement :: "bit_reader \<Rightarrow> bit_reader option" where
  "parseProgramConfigElement r = do {
     r \<leftarrow> bit_drop 4 r;
     r \<leftarrow> bit_drop 2 r;
     (samplingFrequencyIndex, r) \<leftarrow> bit_read 4 r;
     (front, r) \<leftarrow> bit_read 4 r;
     (side, r) \<leftarrow> bit_read 4 r;
     (back, r) \<leftarrow> bit_read 4 r;
     (lfe, r) \<leftarrow> bit_read 2 r;
     (assoc, r) \<leftarrow> bit_read 3 r;
     (validCc, r) \<leftarrow> bit_read 4 r;
     if samplingFrequencyIndex \<ge> 13 \<or> front + side + back + lfe = 0 then None
     else do {
       r \<leftarrow> flagged_drop 4 r;
       r \<leftarrow> flagged_drop 4 r;
       r \<leftarrow> flagged_drop 3 r;
       r \<leftarrow> repeat_drop [1, 4] front r;
       r \<leftarrow> repeat_drop [1, 4] side r;
       r \<leftarrow> repeat_drop [1, 4] back r;
       r \<leftarrow> repeat_drop [4] lfe r;
       r \<leftarrow> repeat_drop [4] assoc r;
       r \<leftarrow> repeat_drop [1, 4] validCc r;
       (commentBytes, r) \<leftarrow> bit_read 8 (alignToByte r);
       bit_skip (commentBytes * 8) r
     }
   }"

fun adif_pce_loop :: "nat \<Rightarrow> nat \<Rightarrow> bit_reader \<Rightarrow> bit_reader option" where
  "adif_pce_loop bitstreamType 0 r = Some r"
| "adif_pce_loop bitstreamType (Suc n) r = do {
     r \<leftarrow> (if bitstreamType = 0 then bit_drop 20 r else Some r);
     r \<leftarrow> parseProgramConfigElement r;
     adif_pce_loop bitstreamType n r
   }"

definition AAC_ADIF_INSPECTION_BYTES :: nat where
  "AAC_ADIF_INSPECTION_BYTES = 64 * 1024"

definition adif_header :: "bit_reader \<Rightarrow> bit_reader option" where
  "adif_header r = do {
     (copyrightPresent, r) \<leftarrow> bit_read 1 r;
     r \<leftarrow> (if copyrightPresent = 1 then bit_drop 72 r else Some r);
     r \<leftarrow> bit_drop 1 r;
     r \<leftarrow> bit_drop 1 r;
     (bitstreamType, r) \<leftarrow> bit_read 1 r;
     r \<leftarrow> bit_drop 23 r;
     (numProgramConfigElements, r) \<leftarrow> bit_read 4 r;
     adif_pce_loop bitstreamType (numProgramConfigElements + 1) r
   }"

definition matchesAdifStructure :: "handle \<Rightarrow> nat \<Rightarrow> bool" where
  "matchesAdifStructure h fileSize =
     (case readExactly h (min fileSize AAC_ADIF_INSPECTION_BYTES) 0 of
        None \<Rightarrow> False
      | Some prefix' \<Rightarrow>
          if subarray prefix' 0 4 \<noteq> AAC_ADIF then False
          else (case adif_header \<lparr>bytes = prefix', bit_offset = 32\<rparr> of
                  None \<Rightarrow> False
                | Some r \<Rightarrow> byteOffset r < fileSize))"

definition matchesAacStructure :: "handle \<Rightarrow> bool" where
  "matchesAacStructure h =
     (if \<not> is_file h \<or> file_size h < 5 then False
      else case readExactly h (min 4 (file_size h)) 0 of
             None \<Rightarrow> False
           | Some prefix' \<Rightarrow>
               if prefix' = AAC_ADIF then matchesAdifStructure h (file_size h)
               else (case aac_loop h (file_size h) 0 0 of
                       None \<Rightarrow> False
                     | Some (offset, frames) \<Rightarrow>
                         offset = file_size h \<and> frames > 0 \<and> frames < AAC_MAX_FRAMES))"

section \<open>What a read returns\<close>

text \<open>A buffer as the list of its bits, most significant first, and the number a list of bits denotes.\<close>

definition byte_bits :: "byte \<Rightarrow> nat list" where
  "byte_bits b = map (\<lambda>i. unat (drop_bit (7 - i) b AND 1)) [0..<8]"

definition buffer_bits :: "buffer \<Rightarrow> nat list" where
  "buffer_bits b = concat (map byte_bits b)"

definition bits_value :: "nat list \<Rightarrow> nat" where
  "bits_value bs = foldl (\<lambda>v b. v * 2 + b) 0 bs"

lemma length_byte_bits [simp]: "length (byte_bits b) = 8"
  by (simp add: byte_bits_def)

lemma length_buffer_bits [simp]: "length (buffer_bits b) = 8 * length b"
  by (induction b) (simp_all add: buffer_bits_def)

lemma buffer_bits_nth: "i < 8 * length b \<Longrightarrow> buffer_bits b ! i = bit_at b i"
proof (induction b arbitrary: i)
  case Nil
  then show ?case by simp
next
  case (Cons x b)
  show ?case
  proof (cases "i < 8")
    case True
    then show ?thesis
      by (simp add: buffer_bits_def nth_append byte_bits_def bit_at_def byte_at_def)
  next
    case False
    then obtain j where j: "i = 8 + j" using le_iff_add [of 8 i] by auto
    with Cons.prems have "j < 8 * length b" by simp
    then have "buffer_bits b ! j = bit_at b j" by (rule Cons.IH)
    moreover have "bit_at (x # b) (8 + j) = bit_at b j"
      by (simp add: bit_at_def byte_at_def div_add_self1)
    ultimately show ?thesis
      using j by (simp add: buffer_bits_def nth_append)
  qed
qed

lemma read_bits_value:
  "off + n \<le> 8 * length b \<Longrightarrow>
     read_bits b off n v = foldl (\<lambda>v b. v * 2 + b) v (take n (drop off (buffer_bits b)))"
proof (induction n arbitrary: off v)
  case 0
  then show ?case by simp
next
  case (Suc n)
  then have "drop off (buffer_bits b) = bit_at b off # drop (Suc off) (buffer_bits b)"
    by (subst Cons_nth_drop_Suc [symmetric]) (simp_all add: buffer_bits_nth)
  with Suc show ?case by simp
qed

lemma bit_at_le_1: "bit_at b i \<le> 1"
proof -
  have "w AND 1 \<le> (1 :: byte)" for w by (rule word_and_le1)
  then show ?thesis unfolding bit_at_def by (simp add: word_le_nat_alt)
qed

lemma read_bits_less: "v < 2 ^ k \<Longrightarrow> read_bits b off n v < 2 ^ (k + n)"
proof (induction n arbitrary: off v k)
  case 0
  then show ?case by simp
next
  case (Suc n)
  then have "v * 2 + bit_at b off < 2 ^ Suc k"
    using bit_at_le_1 [of b off] by simp
  from Suc.IH [OF this] show ?case by simp
qed

section \<open>The parser stays inside the buffer\<close>

text \<open>
  \<open>reads_on r r'\<close>: from \<open>r\<close> the parser moved forward to \<open>r'\<close> over the same bytes and did
  not leave them.
\<close>

definition reads_on :: "bit_reader \<Rightarrow> bit_reader \<Rightarrow> bool" where
  "reads_on r r' \<longleftrightarrow> bytes r' = bytes r \<and> bit_offset r \<le> bit_offset r' \<and>
     (bit_offset r \<le> 8 * length (bytes r) \<longrightarrow> bit_offset r' \<le> 8 * length (bytes r))"

lemma reads_on_refl [simp]: "reads_on r r"
  by (simp add: reads_on_def)

lemma reads_on_trans [trans]: "reads_on a b \<Longrightarrow> reads_on b c \<Longrightarrow> reads_on a c"
  by (auto simp: reads_on_def)

lemma reads_on_skip: "bit_skip len r = Some r' \<Longrightarrow> reads_on r r'"
  by (auto simp: bit_skip_def reads_on_def split: if_splits)

lemma reads_on_read: "bit_read len r = Some (v, r') \<Longrightarrow> reads_on r r'"
  by (auto simp: bit_read_def reads_on_def bit_skip_def split: if_splits)

lemma reads_on_drop: "bit_drop len r = Some r' \<Longrightarrow> reads_on r r'"
  by (auto simp: bit_drop_def dest: reads_on_read)

lemma reads_on_flagged: "flagged_drop len r = Some r' \<Longrightarrow> reads_on r r'"
  unfolding flagged_drop_def
  by (auto simp: bind_eq_Some_conv split: if_splits dest!: reads_on_read reads_on_drop intro: reads_on_trans)

lemma reads_on_align: "reads_on r (alignToByte r)"
proof -
  have "bit_offset r + (8 - bit_offset r mod 8) \<le> 8 * length (bytes r)"
    if "bit_offset r mod 8 \<noteq> 0" "bit_offset r \<le> 8 * length (bytes r)"
    using that by presburger
  then show ?thesis by (auto simp: alignToByte_def reads_on_def Let_def)
qed

lemma fold_bind_None: "fold (\<lambda>len acc. acc \<bind> f len) lens None = None"
  by (induction lens) auto

lemma reads_on_fold:
  "fold (\<lambda>len acc. acc \<bind> bit_drop len) lens (Some r) = Some r' \<Longrightarrow> reads_on r r'"
proof (induction lens arbitrary: r)
  case Nil
  then show ?case by simp
next
  case (Cons len lens)
  then obtain t where "bit_drop len r = Some t"
    by (cases "bit_drop len r") (auto simp: fold_bind_None)
  with Cons show ?case by (auto dest!: reads_on_drop intro: reads_on_trans)
qed

lemma reads_on_repeat: "repeat_drop lens n r = Some r' \<Longrightarrow> reads_on r r'"
  by (induction n arbitrary: r) (auto simp: bind_eq_Some_conv dest!: reads_on_fold intro: reads_on_trans)

text \<open>One step of a parser, then the rest: the elimination rules that walk a \<open>do\<close> block.\<close>

lemma step_read:
  "bit_read n r \<bind> (\<lambda>(v, t). g v t) = Some r' \<Longrightarrow> (\<And>v t. g v t = Some r' \<Longrightarrow> reads_on t r') \<Longrightarrow> reads_on r r'"
  by (auto simp: bind_eq_Some_conv dest!: reads_on_read intro: reads_on_trans)

lemma step_read_aligned:
  "bit_read n (alignToByte r) \<bind> (\<lambda>(v, t). g v t) = Some r' \<Longrightarrow> (\<And>v t. g v t = Some r' \<Longrightarrow> reads_on t r') \<Longrightarrow> reads_on r r'"
  by (blast intro: reads_on_trans reads_on_align step_read)

lemma step_drop:
  "bit_drop n r \<bind> f = Some r' \<Longrightarrow> (\<And>t. f t = Some r' \<Longrightarrow> reads_on t r') \<Longrightarrow> reads_on r r'"
  by (auto simp: bind_eq_Some_conv dest!: reads_on_drop intro: reads_on_trans)

lemma step_drop_if:
  "(if c then bit_drop n r else Some r) \<bind> f = Some r' \<Longrightarrow> (\<And>t. f t = Some r' \<Longrightarrow> reads_on t r') \<Longrightarrow> reads_on r r'"
  by (auto elim: step_drop split: if_splits)

lemma step_flagged:
  "flagged_drop n r \<bind> f = Some r' \<Longrightarrow> (\<And>t. f t = Some r' \<Longrightarrow> reads_on t r') \<Longrightarrow> reads_on r r'"
  by (auto simp: bind_eq_Some_conv dest!: reads_on_flagged intro: reads_on_trans)

lemma step_repeat:
  "repeat_drop lens n r \<bind> f = Some r' \<Longrightarrow> (\<And>t. f t = Some r' \<Longrightarrow> reads_on t r') \<Longrightarrow> reads_on r r'"
  by (auto simp: bind_eq_Some_conv dest!: reads_on_repeat intro: reads_on_trans)

lemma step_guard:
  "(if c then None else m) = Some r' \<Longrightarrow> (m = Some r' \<Longrightarrow> reads_on r r') \<Longrightarrow> reads_on r r'"
  by (simp split: if_splits)

lemmas reader_steps =
  step_read step_read_aligned step_drop step_drop_if step_flagged step_repeat step_guard

lemma reads_on_pce:
  assumes "parseProgramConfigElement r = Some r'"
  shows "reads_on r r'"
  using assms unfolding parseProgramConfigElement_def
  by - (erule reader_steps | erule reads_on_skip)+

lemma reads_on_pce_loop: "adif_pce_loop t n r = Some r' \<Longrightarrow> reads_on r r'"
proof (induction n arbitrary: r)
  case 0
  then show ?case by simp
next
  case (Suc n)
  from Suc.prems have "(if t = 0 then bit_drop 20 r else Some r) \<bind>
      (\<lambda>r. parseProgramConfigElement r \<bind> adif_pce_loop t n) = Some r'"
    by simp
  then show ?case
    by (rule step_drop_if) (auto simp: bind_eq_Some_conv dest!: reads_on_pce Suc.IH intro: reads_on_trans)
qed

lemma reads_on_header:
  assumes "adif_header r = Some r'"
  shows "reads_on r r'"
  using assms unfolding adif_header_def
  by - (erule reader_steps | erule reads_on_pce_loop)+

section \<open>Properties\<close>

text \<open>
  \<open>BitReader.read\<close>. For widths up to 32 a read succeeds exactly when that many bits are
  left, and returns the number those bits denote, most significant bit first; wider reads
  (the 72-bit copyright id) skip their bits and return 0. The reader then stands after the
  bits it read.
\<close>

theorem bit_read_spec:
  "bit_read len r =
     (if bit_offset r + len \<le> length (buffer_bits (bytes r))
      then Some (if len \<le> 32 then bits_value (take len (drop (bit_offset r) (buffer_bits (bytes r)))) else 0,
                 r\<lparr>bit_offset := bit_offset r + len\<rparr>)
      else None)"
  using read_bits_value [of "bit_offset r" len "bytes r" 0]
  by (auto simp: bit_read_def bit_skip_def bits_value_def mult.commute)

text \<open>
  \<open>matchesAacStructure\<close> on an ADTS file (one that does not start with the ADIF magic):
  it accepts exactly the regular files of at least five bytes that are, from the first byte
  to the last, a non-empty sequence of fewer than 100000 complete ADTS frames.
\<close>

theorem matchesAacStructure_adts:
  "matchesAacStructure h \<and> take 4 (contents h) \<noteq> AAC_ADIF \<longleftrightarrow>
     is_file h \<and> 5 \<le> file_size h \<and> take 4 (contents h) \<noteq> AAC_ADIF \<and>
     (\<exists>fs. fs \<noteq> [] \<and> length fs < AAC_MAX_FRAMES \<and> contents h = concat fs \<and>
           list_all (\<lambda>f. adts_frame_length f = Some (length f)) fs)"
  using adts.accepts_iff [of "file_size h" h 0]
  by (auto simp: matchesAacStructure_def readExactly_eq subarray_def min_def split: option.splits)

text \<open>
  \<open>matchesAdifStructure\<close>, through \<open>matchesAacStructure\<close>: an accepted ADIF file has a
  header of whole bytes that starts with the magic, lies within the first 64 KiB that were
  inspected, and leaves at least one byte of the file after it; the header parser never
  reads outside those bytes.
\<close>

theorem matchesAacStructure_adif:
  assumes "matchesAacStructure h" and "take 4 (contents h) = AAC_ADIF"
  shows "\<exists>r. adif_header \<lparr>bytes = take AAC_ADIF_INSPECTION_BYTES (contents h), bit_offset = 32\<rparr> = Some r \<and>
    4 \<le> byteOffset r \<and> byteOffset r < file_size h \<and> byteOffset r \<le> AAC_ADIF_INSPECTION_BYTES"
proof -
  let ?b = "take AAC_ADIF_INSPECTION_BYTES (contents h)"
  have cut: "subarray (contents h) 0 (min (file_size h) AAC_ADIF_INSPECTION_BYTES) = ?b"
    by (simp add: subarray_def min_def)
  from assms obtain r where r: "adif_header \<lparr>bytes = ?b, bit_offset = 32\<rparr> = Some r"
    and size: "byteOffset r < file_size h" "5 \<le> file_size h"
    by (auto simp: matchesAacStructure_def matchesAdifStructure_def readExactly_eq cut
        subarray_def min_def AAC_ADIF_INSPECTION_BYTES_def split: if_splits option.splits)
  have "32 \<le> bit_offset r" and "bit_offset r \<le> 8 * length ?b"
    using reads_on_header [OF r] size(2) by (auto simp: reads_on_def AAC_ADIF_INSPECTION_BYTES_def)
  moreover have "length ?b \<le> AAC_ADIF_INSPECTION_BYTES" by simp
  ultimately have "4 \<le> byteOffset r \<and> byteOffset r \<le> AAC_ADIF_INSPECTION_BYTES"
    unfolding byteOffset_def by linarith
  with r size show ?thesis by auto
qed

end
