(* ===== verification/Media_Crc.thy ===== *)
theory Media_Crc
  imports Prelude
begin

text \<open>
  The two table-driven checksums of src/src/media: the reflected CRC-32 of PNG chunks
  (media-image-structure.ts) and the CRC of Ogg pages (media-audio-structure.ts), each with
  the loop that builds its 256-entry table. JavaScript's \<open>>>> 0\<close> and \<open>^\<close> on numbers are
  arithmetic on 32-bit words. The reference definitions are the bit-serial shift registers
  of the two standards; the tables are an optimisation of them.
\<close>

section \<open>PNG\<close>

definition crc32_step :: "32 word \<Rightarrow> 32 word" where
  "crc32_step value = (if value AND 1 \<noteq> 0 then 0xedb88320 XOR drop_bit 1 value else drop_bit 1 value)"

definition buildCrc32Table :: "32 word list" where
  "buildCrc32Table = map (\<lambda>index. (crc32_step ^^ 8) (word_of_nat index)) [0..<256]"

definition crc32_byte :: "byte \<Rightarrow> 32 word \<Rightarrow> 32 word" where
  "crc32_byte value crc =
     buildCrc32Table ! unat ((crc XOR ucast value) AND 0xff) XOR drop_bit 8 crc"

definition updateCrc32 :: "32 word \<Rightarrow> buffer \<Rightarrow> 32 word" where
  "updateCrc32 initial bs = fold crc32_byte bs initial"

section \<open>Ogg\<close>

definition ogg_crc_step :: "32 word \<Rightarrow> 32 word" where
  "ogg_crc_step value =
     (if value AND 0x80000000 \<noteq> 0 then push_bit 1 value XOR 0x04c11db7 else push_bit 1 value)"

definition buildOggCrcTable :: "32 word list" where
  "buildOggCrcTable = map (\<lambda>index. (ogg_crc_step ^^ 8) (push_bit 24 (word_of_nat index))) [0..<256]"

definition ogg_crc_byte :: "byte \<Rightarrow> 32 word \<Rightarrow> 32 word" where
  "ogg_crc_byte byte crc =
     push_bit 8 crc XOR buildOggCrcTable ! unat ((drop_bit 24 crc XOR ucast byte) AND 0xff)"

text \<open>The loop of \<open>hasValidOggCrc\<close> from \<open>index\<close> on: bytes 22 to 25, the checksum field, count as 0.\<close>

fun ogg_crc_loop :: "nat \<Rightarrow> buffer \<Rightarrow> 32 word \<Rightarrow> 32 word" where
  "ogg_crc_loop index [] crc = crc"
| "ogg_crc_loop index (b # page) crc =
     ogg_crc_loop (index + 1) page (ogg_crc_byte (if index \<ge> 22 \<and> index \<le> 25 then 0 else b) crc)"

section \<open>The shift registers\<close>

text \<open>
  One message bit enters the register: PNG shifts right and takes the bits of a byte from
  the least significant up, Ogg shifts left and takes them from the most significant down.
\<close>

definition crc32_bit :: "bool \<Rightarrow> 32 word \<Rightarrow> 32 word" where
  "crc32_bit b crc = (if bit crc 0 \<noteq> b then 0xedb88320 XOR drop_bit 1 crc else drop_bit 1 crc)"

definition bits_lsb :: "byte \<Rightarrow> bool list" where
  "bits_lsb b = map (bit b) [0..<8]"

definition ogg_crc_bit :: "bool \<Rightarrow> 32 word \<Rightarrow> 32 word" where
  "ogg_crc_bit b crc = (if bit crc 31 \<noteq> b then push_bit 1 crc XOR 0x04c11db7 else push_bit 1 crc)"

definition bits_msb :: "byte \<Rightarrow> bool list" where
  "bits_msb b = rev (bits_lsb b)"

section \<open>Linear steps\<close>

text \<open>Over \<open>XOR\<close> a step of either register is linear; so is any number of steps.\<close>

locale linear_register =
  fixes step :: "32 word \<Rightarrow> 32 word"
  assumes step_xor: "step (x XOR y) = step x XOR step y"
begin

lemma steps_xor: "(step ^^ n) (x XOR y) = (step ^^ n) x XOR (step ^^ n) y"
  by (induction n) (simp_all add: step_xor)

lemma step_zero: "step 0 = 0"
  using step_xor [of 0 0] by simp

end

lemma crc32_step_alt: "crc32_step x = (if bit x 0 then 0xedb88320 else 0) XOR drop_bit 1 x"
proof -
  have "x AND 1 \<noteq> 0 \<longleftrightarrow> bit x 0"
    by (simp add: bit_iff_and_push_bit_not_eq_0)
  then show ?thesis by (simp add: crc32_step_def)
qed

interpretation crc32: linear_register crc32_step
  by unfold_locales (auto simp: crc32_step_alt bit_xor_iff drop_bit_xor xor.assoc xor.left_commute)

lemma ogg_crc_step_alt: "ogg_crc_step x = push_bit 1 x XOR (if bit x 31 then 0x04c11db7 else 0)"
proof -
  have "x AND 0x80000000 \<noteq> 0 \<longleftrightarrow> bit x 31"
    by (simp add: bit_iff_and_push_bit_not_eq_0 push_bit_eq_mult)
  then show ?thesis by (simp add: ogg_crc_step_def)
qed

interpretation ogg_crc: linear_register ogg_crc_step
  by unfold_locales (auto simp: ogg_crc_step_alt bit_xor_iff push_bit_xor xor.assoc xor.left_commute)

section \<open>Eight steps at once\<close>

lemma crc32_steps_shift:
  "(\<And>i. i < n \<Longrightarrow> \<not> bit y i) \<Longrightarrow> (crc32_step ^^ n) y = drop_bit n y"
proof (induction n)
  case 0
  then show ?case by simp
next
  case (Suc n)
  have "\<not> bit (drop_bit n y) 0" using Suc.prems [of n] by (simp add: bit_drop_bit_eq)
  with Suc show ?case by (simp add: crc32_step_alt)
qed

lemma buildCrc32Table_nth: "buildCrc32Table ! unat (x AND 0xff) = (crc32_step ^^ 8) (x AND 0xff)"
proof -
  have "x AND 0xff \<le> (0xff :: 32 word)" by (rule word_and_le1)
  then have "unat (x AND 0xff) < 256" by (simp add: word_le_nat_alt)
  then show ?thesis by (simp add: buildCrc32Table_def)
qed

lemma and_255: "x AND 0xff = take_bit 8 (x :: 32 word)"
proof -
  have "(mask 8 :: 32 word) = 0xff" by (simp add: mask_eq_exp_minus_1)
  then show ?thesis by (simp add: take_bit_eq_mask)
qed

lemma crc32_table_step: "buildCrc32Table ! unat (x AND 0xff) XOR drop_bit 8 x = (crc32_step ^^ 8) x"
proof -
  let ?high = "push_bit 8 (drop_bit 8 x)"
  have split: "x = take_bit 8 x XOR ?high"
    by (rule bit_word_eqI) (auto simp: bit_xor_iff bit_take_bit_iff bit_push_bit_iff bit_drop_bit_eq)
  have "\<not> bit ?high i" if "i < 8" for i
    using that by (simp add: bit_push_bit_iff)
  then have "(crc32_step ^^ 8) ?high = drop_bit 8 ?high"
    by (rule crc32_steps_shift)
  also have "\<dots> = drop_bit 8 x"
    by (rule bit_word_eqI) (auto simp: bit_push_bit_iff bit_drop_bit_eq dest: bit_imp_le_length)
  finally have "(crc32_step ^^ 8) (take_bit 8 x XOR ?high) = (crc32_step ^^ 8) (take_bit 8 x) XOR drop_bit 8 x"
    by (simp only: crc32.steps_xor)
  with split show ?thesis by (simp add: buildCrc32Table_nth [unfolded and_255] and_255)
qed

lemma crc32_byte_steps: "crc32_byte v crc = (crc32_step ^^ 8) (crc XOR ucast v)"
proof -
  have "drop_bit 8 (crc XOR ucast v) = drop_bit 8 crc"
    by (rule bit_word_eqI) (auto simp: bit_drop_bit_eq bit_xor_iff bit_ucast_iff dest: bit_imp_le_length)
  then show ?thesis
    using crc32_table_step [of "crc XOR ucast v"] by (simp add: crc32_byte_def)
qed

text \<open>The register after \<open>n\<close> message bits, against \<open>n\<close> steps on the register with the byte added in.\<close>

lemma crc32_bits_steps:
  "n \<le> 8 \<Longrightarrow> fold crc32_bit (map (bit v) [0..<n]) crc XOR drop_bit n (ucast v) = (crc32_step ^^ n) (crc XOR ucast (v :: byte))"
proof (induction n)
  case 0
  then show ?case by simp
next
  case (Suc n)
  let ?r = "fold crc32_bit (map (bit v) [0..<n]) crc"
  have b: "bit (drop_bit n (ucast v :: 32 word)) 0 = bit v n"
    using Suc.prems by (simp add: bit_drop_bit_eq bit_ucast_iff)
  have "(crc32_step ^^ Suc n) (crc XOR ucast v) = crc32_step (?r XOR drop_bit n (ucast v))"
    using Suc by simp
  also have "\<dots> = crc32_bit (bit v n) ?r XOR drop_bit (Suc n) (ucast v)"
    using b by (auto simp: crc32_step_alt crc32_bit_def bit_xor_iff drop_bit_xor xor.assoc xor.left_commute xor.commute)
  finally show ?case by simp
qed

lemma crc32_byte_bits: "crc32_byte v crc = fold crc32_bit (bits_lsb v) crc"
proof -
  have "drop_bit 8 (ucast v :: 32 word) = 0"
    by (rule bit_word_eqI) (auto simp: bit_drop_bit_eq bit_ucast_iff dest: bit_imp_le_length)
  then show ?thesis
    using crc32_bits_steps [of 8 v crc] by (simp add: crc32_byte_steps bits_lsb_def)
qed

section \<open>Ogg\<close>

lemma ogg_steps_shift:
  "n \<le> 32 \<Longrightarrow> (\<And>i. i < n \<Longrightarrow> \<not> bit y (31 - i)) \<Longrightarrow> (ogg_crc_step ^^ n) y = push_bit n y"
proof (induction n)
  case 0
  then show ?case by simp
next
  case (Suc n)
  have "\<not> bit (push_bit n y) 31" using Suc.prems(2) [of n] Suc.prems(1) by (simp add: bit_push_bit_iff)
  with Suc show ?case by (simp add: ogg_crc_step_alt push_bit_double)
qed

lemma buildOggCrcTable_nth:
  "buildOggCrcTable ! unat (x AND 0xff) = (ogg_crc_step ^^ 8) (push_bit 24 (x AND 0xff))"
proof -
  have "x AND 0xff \<le> (0xff :: 32 word)" by (rule word_and_le1)
  then have "unat (x AND 0xff) < 256" by (simp add: word_le_nat_alt)
  then show ?thesis by (simp add: buildOggCrcTable_def)
qed

lemma ogg_crc_byte_steps: "ogg_crc_byte v crc = (ogg_crc_step ^^ 8) (crc XOR push_bit 24 (ucast v))"
proof -
  let ?i = "drop_bit 24 crc XOR ucast v" and ?low = "take_bit 24 crc"
  have split: "crc XOR push_bit 24 (ucast v) = push_bit 24 (?i AND 0xff) XOR ?low"
    unfolding and_255
    by (rule bit_word_eqI)
      (auto simp: bit_xor_iff bit_push_bit_iff bit_take_bit_iff bit_drop_bit_eq bit_ucast_iff dest: bit_imp_le_length)
  have "(ogg_crc_step ^^ 8) ?low = push_bit 8 ?low"
    by (rule ogg_steps_shift) (auto simp: bit_take_bit_iff)
  moreover have "push_bit 8 ?low = push_bit 8 crc"
    by (rule bit_word_eqI) (auto simp: bit_push_bit_iff bit_take_bit_iff)
  ultimately show ?thesis
    unfolding split ogg_crc.steps_xor by (simp add: ogg_crc_byte_def buildOggCrcTable_nth xor.commute)
qed

lemma ogg_crc_bits_steps:
  "n \<le> 8 \<Longrightarrow> fold ogg_crc_bit (map (\<lambda>i. bit v (7 - i)) [0..<n]) crc XOR push_bit (24 + n) (ucast v) =
     (ogg_crc_step ^^ n) (crc XOR push_bit 24 (ucast (v :: byte)))"
proof (induction n)
  case 0
  then show ?case by simp
next
  case (Suc n)
  let ?r = "fold ogg_crc_bit (map (\<lambda>i. bit v (7 - i)) [0..<n]) crc"
  have b: "bit (push_bit (24 + n) (ucast v :: 32 word)) 31 = bit v (7 - n)"
    using Suc.prems by (auto simp: bit_push_bit_iff bit_ucast_iff)
  have "(ogg_crc_step ^^ Suc n) (crc XOR push_bit 24 (ucast v)) = ogg_crc_step (?r XOR push_bit (24 + n) (ucast v))"
    using Suc by simp
  also have "\<dots> = ogg_crc_bit (bit v (7 - n)) ?r XOR push_bit (24 + Suc n) (ucast v)"
    using b
    by (auto simp: ogg_crc_step_alt ogg_crc_bit_def bit_xor_iff push_bit_xor push_bit_double
        xor.assoc xor.left_commute xor.commute simp del: push_bit_of_1)
  finally show ?case by simp
qed

lemma bits_msb_alt: "bits_msb v = map (\<lambda>i. bit v (7 - i)) [0..<8]"
  by (simp add: bits_msb_def bits_lsb_def upt_rec numeral_eq_Suc)

lemma ogg_crc_byte_bits: "ogg_crc_byte v crc = fold ogg_crc_bit (bits_msb v) crc"
proof -
  have "push_bit 32 (ucast v :: 32 word) = 0"
    by (rule bit_word_eqI) (auto simp: bit_push_bit_iff)
  then show ?thesis
    using ogg_crc_bits_steps [of 8 v crc] by (simp add: ogg_crc_byte_steps bits_msb_alt)
qed

lemma ogg_crc_loop_fold:
  "ogg_crc_loop index page crc =
     fold ogg_crc_byte (map (\<lambda>(i, b). if i \<ge> 22 \<and> i \<le> 25 then 0 else b) (enumerate index page)) crc"
  by (induction index page crc rule: ogg_crc_loop.induct) auto

section \<open>Properties\<close>

text \<open>
  \<open>updateCrc32\<close> and \<open>buildCrc32Table\<close>: folding the table over a buffer is the bit-serial
  CRC-32 register (reflected polynomial \<open>edb88320\<close>) fed with the buffer's bits, least
  significant bit of each byte first.
\<close>

theorem updateCrc32_serial: "updateCrc32 initial bs = fold crc32_bit (concat (map bits_lsb bs)) initial"
  unfolding updateCrc32_def by (induction bs arbitrary: initial) (simp_all add: crc32_byte_bits)

text \<open>
  The checksum loop of \<open>hasValidOggCrc\<close> and \<open>buildOggCrcTable\<close>: on a page of at least 26
  bytes it is the bit-serial CRC register (polynomial \<open>04c11db7\<close>, most significant bit
  first) over the page with its checksum field, bytes 22 to 25, replaced by zeros.
\<close>

theorem ogg_crc_loop_serial:
  assumes "26 \<le> length page"
  shows "ogg_crc_loop 0 page 0 =
    fold ogg_crc_bit (concat (map bits_msb (take 22 page @ [0, 0, 0, 0] @ drop 26 page))) 0"
proof -
  have "(if i \<ge> 22 \<and> i \<le> 25 then 0 else page ! i) = (take 22 page @ replicate 4 0 @ drop 26 page) ! i"
    if "i < length page" for i
    using that assms by (cases "i < 26") (auto simp: nth_append nth_replicate)
  then have "map (\<lambda>(i, b). if i \<ge> 22 \<and> i \<le> 25 then 0 else b) (enumerate 0 page) =
      take 22 page @ replicate 4 0 @ drop 26 page"
    using assms by (intro nth_equalityI) (auto simp: nth_enumerate_eq)
  then have "ogg_crc_loop 0 page 0 = fold ogg_crc_byte (take 22 page @ [0, 0, 0, 0] @ drop 26 page) 0"
    by (simp add: ogg_crc_loop_fold numeral_eq_Suc)
  moreover have "fold ogg_crc_byte bs crc = fold ogg_crc_bit (concat (map bits_msb bs)) crc" for bs crc
    by (induction bs arbitrary: crc) (simp_all add: ogg_crc_byte_bits)
  ultimately show ?thesis by (simp only:)
qed

theorem ogg_crc_loop_serial_witness:
  "ogg_crc_loop 0 (replicate 27 1) 0 = fold ogg_crc_bit (concat (map bits_msb (replicate 22 1 @ [0, 0, 0, 0] @ [1]))) 0"
proof -
  have "26 \<le> length (replicate 27 (1 :: byte))" by simp
  from ogg_crc_loop_serial [OF this] show ?thesis by simp
qed

end
