(* ===== verification/Media_Png.thy ===== *)
theory Media_Png
  imports Media_File Media_Crc
begin

text \<open>
  \<open>matchesPngStructure\<close> of src/src/media/media-image-structure.ts: the chunk loop with the
  flags it keeps, the checks of one chunk, and the checksum read in blocks of 64 KiB. The
  specification side is a PNG file as a list of chunks: how a chunk is written, and which
  lists of chunks are well formed.
\<close>

section \<open>Constants\<close>

definition PNG_SIGNATURE :: buffer where
  "PNG_SIGNATURE = [0x89, 0x50, 0x4e, 0x47, 0x0d, 0x0a, 0x1a, 0x0a]"

definition PNG_MAX_CHUNKS :: nat where
  "PNG_MAX_CHUNKS = 10000"

definition PNG_CRC_READ_BYTES :: nat where
  "PNG_CRC_READ_BYTES = 64 * 1024"

definition IHDR :: buffer where
  "IHDR = [0x49, 0x48, 0x44, 0x52]"

definition PLTE :: buffer where
  "PLTE = [0x50, 0x4c, 0x54, 0x45]"

definition IDAT :: buffer where
  "IDAT = [0x49, 0x44, 0x41, 0x54]"

definition IEND :: buffer where
  "IEND = [0x49, 0x45, 0x4e, 0x44]"

definition PNG_CRITICAL_CHUNKS :: "buffer list" where
  "PNG_CRITICAL_CHUNKS = [IHDR, PLTE, IDAT, IEND]"

section \<open>Checks of one chunk\<close>

definition upper_letter :: "byte \<Rightarrow> bool" where
  "upper_letter b \<longleftrightarrow> b \<ge> 0x41 \<and> b \<le> 0x5a"

definition lower_letter :: "byte \<Rightarrow> bool" where
  "lower_letter b \<longleftrightarrow> b \<ge> 0x61 \<and> b \<le> 0x7a"

definition isPngChunkType :: "buffer \<Rightarrow> bool" where
  "isPngChunkType type \<longleftrightarrow>
     length type = 4 \<and> list_all (\<lambda>value. upper_letter value \<or> lower_letter value) type \<and>
     upper_letter (byte_at type 2)"

definition isUnknownCriticalPngChunk :: "buffer \<Rightarrow> bool" where
  "isUnknownCriticalPngChunk type \<longleftrightarrow>
     upper_letter (byte_at type 0) \<and> type \<notin> set PNG_CRITICAL_CHUNKS"

definition validatePngIhdr :: "buffer \<Rightarrow> bool" where
  "validatePngIhdr ihdr =
     (let width = be_nat (subarray ihdr 0 4); height = be_nat (subarray ihdr 4 4);
          bitDepth = byte_at ihdr 8; colorType = byte_at ihdr 9;
          compressionMethod = byte_at ihdr 10; filterMethod = byte_at ihdr 11; interlaceMethod = byte_at ihdr 12
      in if width = 0 \<or> height = 0 \<or> compressionMethod \<noteq> 0 \<or> filterMethod \<noteq> 0 \<or>
            (interlaceMethod \<noteq> 0 \<and> interlaceMethod \<noteq> 1)
         then False
         else if colorType = 0 then bitDepth \<in> set [1, 2, 4, 8, 16]
         else if colorType = 2 \<or> colorType = 4 \<or> colorType = 6 then bitDepth = 8 \<or> bitDepth = 16
         else if colorType = 3 then bitDepth \<in> set [1, 2, 4, 8]
         else False)"

function png_crc_loop :: "handle \<Rightarrow> nat \<Rightarrow> nat \<Rightarrow> nat \<Rightarrow> 32 word \<Rightarrow> 32 word option" where
  "png_crc_loop h dataOffset dataLength readOffset crc =
     (if readOffset < dataLength
      then (let len = min PNG_CRC_READ_BYTES (dataLength - readOffset)
            in case readExactly h len (dataOffset + readOffset) of
                 None \<Rightarrow> None
               | Some chunk \<Rightarrow> png_crc_loop h dataOffset dataLength (readOffset + len) (updateCrc32 crc chunk))
      else Some crc)"
  by pat_completeness auto
termination
  by (relation "measure (\<lambda>(h, dataOffset, dataLength, readOffset, crc). dataLength - readOffset)")
    (auto simp: PNG_CRC_READ_BYTES_def)

declare png_crc_loop.simps [simp del]

definition validatePngChunkCrc :: "handle \<Rightarrow> buffer \<Rightarrow> nat \<Rightarrow> nat \<Rightarrow> nat \<Rightarrow> bool" where
  "validatePngChunkCrc h typeBytes dataOffset dataLength crcOffset =
     (case png_crc_loop h dataOffset dataLength 0 (updateCrc32 0xffffffff typeBytes) of
        None \<Rightarrow> False
      | Some crc \<Rightarrow>
          (case readExactly h 4 crcOffset of
             None \<Rightarrow> False
           | Some expectedBytes \<Rightarrow> unat (crc XOR 0xffffffff) = be_nat (subarray expectedBytes 0 4)))"

section \<open>The chunk loop\<close>

record png_state =
  seenIhdr :: bool
  seenPlte :: bool
  seenIdat :: bool
  idatClosed :: bool
  colorType :: "byte option"
  bitDepth :: "byte option"

definition png_initial :: png_state where
  "png_initial = \<lparr>seenIhdr = False, seenPlte = False, seenIdat = False, idatClosed = False,
     colorType = None, bitDepth = None\<rparr>"

text \<open>The three blocks of the loop body that look at the chunk's type, in their order.\<close>

definition png_ihdr_block :: "handle \<Rightarrow> buffer \<Rightarrow> nat \<Rightarrow> nat \<Rightarrow> png_state \<Rightarrow> png_state option" where
  "png_ihdr_block h type dataOffset dataLength st =
     (if type = IHDR
      then if seenIhdr st \<or> dataLength \<noteq> 13 then None
           else (case readExactly h dataLength dataOffset of
                   None \<Rightarrow> None
                 | Some ihdr \<Rightarrow>
                     if validatePngIhdr ihdr
                     then Some (st\<lparr>bitDepth := Some (byte_at ihdr 8), colorType := Some (byte_at ihdr 9), seenIhdr := True\<rparr>)
                     else None)
      else if seenIhdr st then Some st else None)"

definition png_plte_block :: "buffer \<Rightarrow> nat \<Rightarrow> png_state \<Rightarrow> png_state option" where
  "png_plte_block type dataLength st =
     (if type = PLTE
      then if seenPlte st \<or> seenIdat st \<or> dataLength = 0 \<or> dataLength > 768 \<or> dataLength mod 3 \<noteq> 0 \<or>
              colorType st = Some 0 \<or> colorType st = Some 4 \<or>
              (colorType st = Some 3 \<and>
               (case bitDepth st of None \<Rightarrow> True | Some d \<Rightarrow> dataLength div 3 > 2 ^ unat d))
           then None else Some (st\<lparr>seenPlte := True\<rparr>)
      else Some st)"

definition png_idat_block :: "buffer \<Rightarrow> png_state \<Rightarrow> png_state option" where
  "png_idat_block type st =
     (if type = IDAT
      then if idatClosed st \<or> (colorType st = Some 3 \<and> \<not> seenPlte st) then None
           else Some (st\<lparr>seenIdat := True\<rparr>)
      else if seenIdat st \<and> type \<noteq> IEND then Some (st\<lparr>idatClosed := True\<rparr>)
      else Some st)"

function png_loop :: "handle \<Rightarrow> nat \<Rightarrow> nat \<Rightarrow> png_state \<Rightarrow> bool" where
  "png_loop h offset chunkCount st =
     (if offset < file_size h \<and> chunkCount < PNG_MAX_CHUNKS
      then (case readExactly h 8 offset of
              None \<Rightarrow> False
            | Some header \<Rightarrow>
                let dataLength = be_nat (subarray header 0 4);
                    typeBytes = subarray header 4 4
                in if \<not> isPngChunkType typeBytes then False
                else let dataOffset = offset + 8;
                         crcOffset = dataOffset + dataLength;
                         nextOffset = crcOffset + 4
                  in if nextOffset > file_size h then False
                  else if chunkCount = 0 \<and> typeBytes \<noteq> IHDR then False
                  else if isUnknownCriticalPngChunk typeBytes then False
                  else (case (do { st \<leftarrow> png_ihdr_block h typeBytes dataOffset dataLength st;
                                   st \<leftarrow> png_plte_block typeBytes dataLength st;
                                   png_idat_block typeBytes st }) of
                          None \<Rightarrow> False
                        | Some st \<Rightarrow>
                            if \<not> validatePngChunkCrc h typeBytes dataOffset dataLength crcOffset then False
                            else if typeBytes = IEND
                            then dataLength = 0 \<and> seenIdat st \<and> nextOffset = file_size h
                            else png_loop h nextOffset (chunkCount + 1) st))
      else False)"
  by pat_completeness auto
termination
  by (relation "measure (\<lambda>(h, offset, chunkCount, st). PNG_MAX_CHUNKS - chunkCount)") auto

declare png_loop.simps [simp del]

definition matchesPngStructure :: "handle \<Rightarrow> bool" where
  "matchesPngStructure h =
     (if \<not> is_file h \<or> file_size h < length PNG_SIGNATURE + 12 then False
      else if readExactly h (length PNG_SIGNATURE) 0 \<noteq> Some PNG_SIGNATURE then False
      else png_loop h (length PNG_SIGNATURE) 0 png_initial)"

section \<open>PNG files as lists of chunks\<close>

record png_chunk =
  chunk_type :: buffer
  chunk_data :: buffer

definition png_chunk_crc :: "png_chunk \<Rightarrow> 32 word" where
  "png_chunk_crc c = updateCrc32 0xffffffff (chunk_type c @ chunk_data c) XOR 0xffffffff"

definition encode_chunk :: "png_chunk \<Rightarrow> buffer" where
  "encode_chunk c =
     be_bytes 4 (length (chunk_data c)) @ chunk_type c @ chunk_data c @ be_bytes 4 (unat (png_chunk_crc c))"

definition png_chunk_wf :: "png_chunk \<Rightarrow> bool" where
  "png_chunk_wf c \<longleftrightarrow> isPngChunkType (chunk_type c) \<and> \<not> isUnknownCriticalPngChunk (chunk_type c) \<and>
     length (chunk_data c) < 2 ^ 32"

definition png_palette_ok :: "png_chunk \<Rightarrow> png_chunk \<Rightarrow> bool" where
  "png_palette_ok ihdr c \<longleftrightarrow>
     (let n = length (chunk_data c); color = byte_at (chunk_data ihdr) 9
      in 0 < n \<and> n \<le> 768 \<and> n mod 3 = 0 \<and> color \<noteq> 0 \<and> color \<noteq> 4 \<and>
         (color = 3 \<longrightarrow> n div 3 \<le> 2 ^ unat (byte_at (chunk_data ihdr) 8)))"

text \<open>
  A well-formed image: a valid header first, then ancillary chunks with at most one palette,
  then the image data without interruption, then ancillary chunks, then the end marker; an
  indexed image has its palette.
\<close>

definition png_image :: "png_chunk list \<Rightarrow> bool" where
  "png_image cs \<longleftrightarrow>
     (\<exists>ihdr pre idats post iend.
        cs = [ihdr] @ pre @ idats @ post @ [iend] \<and>
        list_all png_chunk_wf cs \<and>
        chunk_type ihdr = IHDR \<and> length (chunk_data ihdr) = 13 \<and> validatePngIhdr (chunk_data ihdr) \<and>
        list_all (\<lambda>c. chunk_type c \<notin> {IHDR, IDAT, IEND}) pre \<and>
        length (filter (\<lambda>c. chunk_type c = PLTE) pre) \<le> 1 \<and>
        list_all (\<lambda>c. chunk_type c = PLTE \<longrightarrow> png_palette_ok ihdr c) pre \<and>
        idats \<noteq> [] \<and> list_all (\<lambda>c. chunk_type c = IDAT) idats \<and>
        (byte_at (chunk_data ihdr) 9 = 3 \<longrightarrow> list_ex (\<lambda>c. chunk_type c = PLTE) pre) \<and>
        list_all (\<lambda>c. chunk_type c \<notin> {IHDR, PLTE, IDAT, IEND}) post \<and>
        chunk_type iend = IEND \<and> chunk_data iend = [])"

section \<open>The checksum in blocks\<close>

lemma updateCrc32_append: "updateCrc32 crc (a @ b) = updateCrc32 (updateCrc32 crc a) b"
  by (simp add: updateCrc32_def)

lemma png_crc_loop_eq:
  assumes "dataOffset + dataLength \<le> file_size h" and "readOffset \<le> dataLength"
  shows "png_crc_loop h dataOffset dataLength readOffset crc =
    Some (updateCrc32 crc (subarray (contents h) (dataOffset + readOffset) (dataLength - readOffset)))"
  using assms
proof (induction h dataOffset dataLength readOffset crc rule: png_crc_loop.induct)
  case (1 h dataOffset dataLength readOffset crc)
  show ?case
  proof (cases "readOffset < dataLength")
    case False
    with 1(3) show ?thesis by (subst png_crc_loop.simps) (simp add: updateCrc32_def)
  next
    case True
    let ?len = "min PNG_CRC_READ_BYTES (dataLength - readOffset)"
    let ?block = "subarray (contents h) (dataOffset + readOffset) ?len"
    have read: "readExactly h ?len (dataOffset + readOffset) = Some ?block"
      using 1(2) True by (auto simp: readExactly_eq min_def)
    have "png_crc_loop h dataOffset dataLength readOffset crc =
        png_crc_loop h dataOffset dataLength (readOffset + ?len) (updateCrc32 crc ?block)"
      using True read by (subst png_crc_loop.simps) (simp add: Let_def)
    also have "\<dots> = Some (updateCrc32 (updateCrc32 crc ?block)
        (subarray (contents h) (dataOffset + (readOffset + ?len)) (dataLength - (readOffset + ?len))))"
      using 1(1) [OF True refl read] 1(2) True by simp
    also have "updateCrc32 (updateCrc32 crc ?block)
        (subarray (contents h) (dataOffset + (readOffset + ?len)) (dataLength - (readOffset + ?len))) =
      updateCrc32 crc (subarray (contents h) (dataOffset + readOffset) (dataLength - readOffset))"
      using subarray_split [of "contents h" "dataOffset + readOffset" ?len "dataLength - (readOffset + ?len)"] True
      by (simp add: updateCrc32_append [symmetric] add.assoc)
    finally show ?thesis .
  qed
qed

lemma validatePngChunkCrc_eq:
  assumes "dataOffset + dataLength + 4 \<le> file_size h"
  shows "validatePngChunkCrc h type dataOffset dataLength (dataOffset + dataLength) \<longleftrightarrow>
    be_nat (subarray (contents h) (dataOffset + dataLength) 4) =
    unat (png_chunk_crc \<lparr>chunk_type = type, chunk_data = subarray (contents h) dataOffset dataLength\<rparr>)"
  using assms
  by (auto simp: validatePngChunkCrc_def png_crc_loop_eq readExactly_eq png_chunk_crc_def updateCrc32_append subarray_subarray)

section \<open>The loop over chunks\<close>

text \<open>The loop body and the loop on chunks instead of offsets.\<close>

definition png_step :: "png_state \<Rightarrow> nat \<Rightarrow> png_chunk \<Rightarrow> png_state option" where
  "png_step st count c =
     (if \<not> png_chunk_wf c \<or> count = 0 \<and> chunk_type c \<noteq> IHDR then None
      else do {
        st \<leftarrow> (if chunk_type c = IHDR
               then if seenIhdr st \<or> length (chunk_data c) \<noteq> 13 \<or> \<not> validatePngIhdr (chunk_data c) then None
                    else Some (st\<lparr>bitDepth := Some (byte_at (chunk_data c) 8),
                                  colorType := Some (byte_at (chunk_data c) 9), seenIhdr := True\<rparr>)
               else if seenIhdr st then Some st else None);
        st \<leftarrow> png_plte_block (chunk_type c) (length (chunk_data c)) st;
        png_idat_block (chunk_type c) st })"

fun png_run :: "png_state \<Rightarrow> nat \<Rightarrow> png_chunk list \<Rightarrow> bool" where
  "png_run st count [] = False"
| "png_run st count (c # cs) =
     (case png_step st count c of
        None \<Rightarrow> False
      | Some st' \<Rightarrow>
          if chunk_type c = IEND then chunk_data c = [] \<and> seenIdat st' \<and> cs = []
          else png_run st' (count + 1) cs)"

text \<open>The chunk at an offset of a file, as its length field says.\<close>

definition chunk_at :: "buffer \<Rightarrow> nat \<Rightarrow> png_chunk" where
  "chunk_at b off = \<lparr>chunk_type = subarray b (off + 4) 4,
     chunk_data = subarray b (off + 8) (be_nat (subarray b off 4))\<rparr>"

lemma be_nat_subarray_4: "be_nat (subarray b off 4) < 2 ^ 32"
proof -
  have "be_nat (subarray b off 4) < 256 ^ length (subarray b off 4)" by (rule be_nat_less)
  also have "(256 :: nat) ^ length (subarray b off 4) \<le> 256 ^ 4" by (rule power_increasing) auto
  finally show ?thesis by simp
qed

lemma unat_32_less: "unat (w :: 32 word) < 256 ^ 4"
  using unsigned_less [of w] by simp

lemma length_encode_chunk: "length (chunk_type c) = 4 \<Longrightarrow> length (encode_chunk c) = 12 + length (chunk_data c)"
  by (simp add: encode_chunk_def)

lemma isPngChunkType_length: "isPngChunkType t \<Longrightarrow> length t = 4"
  by (simp add: isPngChunkType_def)

text \<open>Reading back what \<open>encode_chunk\<close> wrote.\<close>

lemma chunk_at_encode:
  assumes "drop off b = encode_chunk c @ rest" and "png_chunk_wf c"
  shows "chunk_at b off = c" and "off + 12 + length (chunk_data c) \<le> length b"
    and "be_nat (subarray b off 4) = length (chunk_data c)"
    and "be_nat (subarray b (off + 8 + length (chunk_data c)) 4) = unat (png_chunk_crc c)"
proof -
  have t: "length (chunk_type c) = 4" and d: "length (chunk_data c) < 256 ^ 4"
    using assms(2) by (simp_all add: png_chunk_wf_def isPngChunkType_length)
  have sub: "subarray b (off + i) n = subarray (encode_chunk c @ rest) i n" for i n
    by (simp add: assms(1) [symmetric] subarray_drop)
  have len: "subarray b off 4 = be_bytes 4 (length (chunk_data c))"
    using sub [of 0 4] t by (simp add: encode_chunk_def subarray_def)
  then show l: "be_nat (subarray b off 4) = length (chunk_data c)"
    using be_nat_be_bytes [OF d] by simp
  show "chunk_at b off = c"
    using sub [of 4 4] sub [of 8 "length (chunk_data c)"] t
    by (simp add: chunk_at_def l) (simp add: encode_chunk_def subarray_def)
  have "length (drop off b) = 12 + length (chunk_data c) + length rest"
    using t by (simp add: assms(1) length_encode_chunk)
  then show "off + 12 + length (chunk_data c) \<le> length b" by simp
  have "subarray b (off + (8 + length (chunk_data c))) 4 = be_bytes 4 (unat (png_chunk_crc c))"
    unfolding sub using t by (simp add: encode_chunk_def subarray_def)
  then show "be_nat (subarray b (off + 8 + length (chunk_data c)) 4) = unat (png_chunk_crc c)"
    using be_nat_be_bytes [OF unat_32_less] by (simp add: add.assoc)
qed

text \<open>And writing back what was read.\<close>

lemma encode_chunk_at:
  assumes fits: "off + 12 + be_nat (subarray b off 4) \<le> length b"
    and crc: "be_nat (subarray b (off + 8 + be_nat (subarray b off 4)) 4) = unat (png_chunk_crc (chunk_at b off))"
  shows "drop off b = encode_chunk (chunk_at b off) @ drop (off + 12 + be_nat (subarray b off 4)) b"
proof -
  let ?n = "be_nat (subarray b off 4)"
  have len: "length (chunk_data (chunk_at b off)) = ?n"
    using fits by (simp add: chunk_at_def)
  have "be_bytes 4 ?n = subarray b off 4"
    using fits by (simp add: be_bytes_be_nat)
  moreover have "be_bytes 4 (unat (png_chunk_crc (chunk_at b off))) = subarray b (off + 8 + ?n) 4"
    using fits by (simp add: crc [symmetric] be_bytes_be_nat)
  ultimately have "encode_chunk (chunk_at b off) =
      subarray b off 4 @ subarray b (off + 4) 4 @ subarray b (off + 8) ?n @ subarray b (off + 8 + ?n) 4"
    unfolding encode_chunk_def len by (simp add: chunk_at_def)
  also have "\<dots> = subarray b off (12 + ?n)"
    using subarray_split [of b off 4 "4 + ?n + 4"] subarray_split [of b "off + 4" 4 "?n + 4"]
      subarray_split [of b "off + 8" ?n 4]
    by (simp add: add.assoc)
  finally show ?thesis
    by (simp add: subarray_def) (metis append_take_drop_id drop_drop add.assoc add.commute)
qed

lemma early_returns:
  "(if \<not> a then False else if b then False else if u then False
    else case body of None \<Rightarrow> False | Some s \<Rightarrow> if \<not> v then False else if e then z \<and> P s else L s) \<longleftrightarrow>
   v \<and> (case (if \<not> (a \<and> \<not> u) \<or> b then None else body) of
            None \<Rightarrow> False | Some s \<Rightarrow> if e then z \<and> P s else L s)"
  by (cases body) auto

text \<open>One round of the loop, seen as a step on the chunk at the offset.\<close>

lemma png_loop_chunk:
  assumes fits: "off + 12 + be_nat (subarray (contents h) off 4) \<le> file_size h" and "count < PNG_MAX_CHUNKS"
  defines "c \<equiv> chunk_at (contents h) off"
  shows "png_loop h off count st \<longleftrightarrow>
    be_nat (subarray (contents h) (off + 8 + length (chunk_data c)) 4) = unat (png_chunk_crc c) \<and>
    (case png_step st count c of
       None \<Rightarrow> False
     | Some st' \<Rightarrow>
         if chunk_type c = IEND
         then chunk_data c = [] \<and> seenIdat st' \<and> off + 12 + length (chunk_data c) = file_size h
         else png_loop h (off + 12 + length (chunk_data c)) (count + 1) st')"
proof -
  let ?n = "be_nat (subarray (contents h) off 4)" and ?t = "subarray (contents h) (off + 4) 4"
  have c: "chunk_type c = ?t" "length (chunk_data c) = ?n" "chunk_data c = subarray (contents h) (off + 8) ?n"
    using fits by (simp_all add: c_def chunk_at_def)
  have wf: "png_chunk_wf c \<longleftrightarrow> isPngChunkType ?t \<and> \<not> isUnknownCriticalPngChunk ?t"
    using be_nat_subarray_4 [of "contents h" off] by (simp add: png_chunk_wf_def c(1,2))
  have crc: "validatePngChunkCrc h ?t (off + 8) ?n (off + 8 + ?n) \<longleftrightarrow>
      be_nat (subarray (contents h) (off + 8 + ?n) 4) = unat (png_chunk_crc c)"
    using validatePngChunkCrc_eq [of "off + 8" ?n h ?t] fits by (simp add: c_def chunk_at_def)
  have ihdr: "png_ihdr_block h ?t (off + 8) ?n st =
      (if ?t = IHDR then if seenIhdr st \<or> ?n \<noteq> 13 \<or> \<not> validatePngIhdr (chunk_data c) then None
         else Some (st\<lparr>bitDepth := Some (byte_at (chunk_data c) 8), colorType := Some (byte_at (chunk_data c) 9), seenIhdr := True\<rparr>)
       else if seenIhdr st then Some st else None)"
    using fits by (simp add: png_ihdr_block_def readExactly_eq c(3))
  have header: "readExactly h 8 off = Some (subarray (contents h) off 8)"
    and fields: "subarray (subarray (contents h) off 8) 0 4 = subarray (contents h) off 4"
      "subarray (subarray (contents h) off 8) 4 4 = ?t"
    using fits by (simp_all add: readExactly_eq subarray_subarray)
  have bounds: "off < file_size h" "\<not> file_size h < off + 8 + ?n + 4" using fits by auto
  have data: "chunk_data c = [] \<longleftrightarrow> ?n = 0" using c(2) by auto
  let ?body = "do { st \<leftarrow> png_ihdr_block h ?t (off + 8) ?n st; st \<leftarrow> png_plte_block ?t ?n st; png_idat_block ?t st }"
  have step: "png_step st count c =
      (if \<not> (isPngChunkType ?t \<and> \<not> isUnknownCriticalPngChunk ?t) \<or> count = 0 \<and> ?t \<noteq> IHDR then None else ?body)"
    unfolding png_step_def wf c(1,2) ihdr ..
  have "png_loop h off count st =
      (if \<not> isPngChunkType ?t then False
       else if count = 0 \<and> ?t \<noteq> IHDR then False
       else if isUnknownCriticalPngChunk ?t then False
       else (case ?body of
               None \<Rightarrow> False
             | Some st \<Rightarrow>
                 if \<not> validatePngChunkCrc h ?t (off + 8) ?n (off + 8 + ?n) then False
                 else if ?t = IEND then ?n = 0 \<and> seenIdat st \<and> off + 8 + ?n + 4 = file_size h
                 else png_loop h (off + 8 + ?n + 4) (count + 1) st))"
    by (subst png_loop.simps) (simp only: assms(2) bounds header fields Let_def option.case if_True if_False simp_thms)
  moreover have "off + 8 + ?n + 4 = off + 12 + ?n" by simp
  ultimately show ?thesis
    unfolding step c(1,2) data crc by (simp only: early_returns)
qed

lemma png_loop_fits:
  assumes "png_loop h off count st"
  shows "count < PNG_MAX_CHUNKS" and "off + 12 + be_nat (subarray (contents h) off 4) \<le> file_size h"
  using assms
  by (subst (asm) png_loop.simps;
      auto simp: readExactly_eq Let_def subarray_subarray split: if_splits option.splits)+

lemma png_step_wf: "png_step st n c = Some st' \<Longrightarrow> png_chunk_wf c"
  by (auto simp: png_step_def split: if_splits)

lemma png_loop_sound:
  "png_loop h off count st \<Longrightarrow>
     \<exists>cs. drop off (contents h) = concat (map encode_chunk cs) \<and> count + length cs \<le> PNG_MAX_CHUNKS \<and> png_run st count cs"
proof (induction "PNG_MAX_CHUNKS - count" arbitrary: off count st rule: less_induct)
  case less
  let ?c = "chunk_at (contents h) off"
  note fits = png_loop_fits [OF less.prems]
  have len: "length (chunk_data ?c) = be_nat (subarray (contents h) off 4)"
    using fits(2) by (simp add: chunk_at_def)
  from less.prems obtain st' where crc: "be_nat (subarray (contents h) (off + 8 + length (chunk_data ?c)) 4) = unat (png_chunk_crc ?c)"
    and step: "png_step st count ?c = Some st'"
    and rest: "if chunk_type ?c = IEND then chunk_data ?c = [] \<and> seenIdat st' \<and> off + 12 + length (chunk_data ?c) = file_size h
       else png_loop h (off + 12 + length (chunk_data ?c)) (count + 1) st'"
    unfolding png_loop_chunk [OF fits(2,1)] by (auto split: option.splits)
  have cut: "drop off (contents h) = encode_chunk ?c @ drop (off + 12 + length (chunk_data ?c)) (contents h)"
    using encode_chunk_at [OF fits(2)] crc by (simp add: len)
  show ?case
  proof (cases "chunk_type ?c = IEND")
    case True
    with rest cut step fits(1) show ?thesis by (intro exI [of _ "[?c]"]) auto
  next
    case False
    with rest have "png_loop h (off + 12 + length (chunk_data ?c)) (count + 1) st'" by simp
    moreover have "PNG_MAX_CHUNKS - (count + 1) < PNG_MAX_CHUNKS - count" using fits(1) by linarith
    ultimately obtain cs
      where "drop (off + 12 + length (chunk_data ?c)) (contents h) = concat (map encode_chunk cs)"
        "count + 1 + length cs \<le> PNG_MAX_CHUNKS" "png_run st' (count + 1) cs"
      using less.hyps by blast
    with cut step False show ?thesis by (intro exI [of _ "?c # cs"]) simp
  qed
qed

lemma png_loop_complete:
  "drop off (contents h) = concat (map encode_chunk cs) \<Longrightarrow> count + length cs \<le> PNG_MAX_CHUNKS \<Longrightarrow>
     png_run st count cs \<Longrightarrow> png_loop h off count st"
proof (induction cs arbitrary: off count st)
  case Nil
  then show ?case by simp
next
  case (Cons c cs)
  from Cons.prems(3) obtain st' where step: "png_step st count c = Some st'"
    and rest: "if chunk_type c = IEND then chunk_data c = [] \<and> seenIdat st' \<and> cs = [] else png_run st' (count + 1) cs"
    by (auto split: option.splits)
  have cut: "drop off (contents h) = encode_chunk c @ concat (map encode_chunk cs)"
    using Cons.prems(1) by simp
  note at = chunk_at_encode [OF cut png_step_wf [OF step]]
  have len: "length (encode_chunk c) = 12 + length (chunk_data c)"
    using png_step_wf [OF step] by (simp add: length_encode_chunk png_chunk_wf_def isPngChunkType_length)
  have next': "drop (off + 12 + length (chunk_data c)) (contents h) = concat (map encode_chunk cs)"
    using arg_cong [OF cut, of "drop (12 + length (chunk_data c))"] by (simp add: len ac_simps)
  have "png_loop h (off + 12 + length (chunk_data c)) (count + 1) st'" if "chunk_type c \<noteq> IEND"
    using Cons.IH [OF next'] that rest Cons.prems(2) by simp
  moreover have "off + 12 + length (chunk_data c) = file_size h" if "chunk_type c = IEND"
    using that rest next' at(2) by simp
  ultimately show ?case
    using png_loop_chunk [of off h count st] at step rest Cons.prems(2) by (simp split: if_splits)
qed

section \<open>Well-formed lists of chunks\<close>

text \<open>The loop in its four phases: before the header, before the image data, in it, after it.\<close>

lemma chunk_names_distinct [simp]:
  "IHDR \<noteq> PLTE" "IHDR \<noteq> IDAT" "IHDR \<noteq> IEND" "PLTE \<noteq> IDAT" "PLTE \<noteq> IEND" "IDAT \<noteq> IEND"
  "PLTE \<noteq> IHDR" "IDAT \<noteq> IHDR" "IEND \<noteq> IHDR" "IDAT \<noteq> PLTE" "IEND \<noteq> PLTE" "IEND \<noteq> IDAT"
  by (simp_all add: IHDR_def PLTE_def IDAT_def IEND_def)

definition png_closed_ok :: "png_chunk list \<Rightarrow> bool" where
  "png_closed_ok cs \<longleftrightarrow> (\<exists>post iend. cs = post @ [iend] \<and> list_all png_chunk_wf cs \<and>
     list_all (\<lambda>c. chunk_type c \<notin> {IHDR, PLTE, IDAT, IEND}) post \<and> chunk_type iend = IEND \<and> chunk_data iend = [])"

lemma png_closed_ok_Cons:
  "png_closed_ok (c # cs) \<longleftrightarrow> png_chunk_wf c \<and>
     (if chunk_type c = IEND then chunk_data c = [] \<and> cs = []
      else chunk_type c \<notin> {IHDR, PLTE, IDAT} \<and> png_closed_ok cs)"
proof (cases "chunk_type c = IEND")
  case True
  then show ?thesis
    by (auto simp: png_closed_ok_def Cons_eq_append_conv)
next
  case False
  then show ?thesis
    by (fastforce simp: png_closed_ok_def Cons_eq_append_conv)
qed

lemma png_run_closed:
  "seenIhdr st \<Longrightarrow> seenIdat st \<Longrightarrow> idatClosed st \<Longrightarrow> 0 < n \<Longrightarrow> png_run st n cs \<longleftrightarrow> png_closed_ok cs"
proof (induction cs arbitrary: st n)
  case Nil
  then show ?case by (simp add: png_closed_ok_def)
next
  case (Cons c cs)
  then show ?case
    by (simp add: png_closed_ok_Cons png_step_def png_plte_block_def png_idat_block_def)
qed

definition png_data_ok :: "png_chunk list \<Rightarrow> bool" where
  "png_data_ok cs \<longleftrightarrow> (\<exists>idats post. cs = idats @ post \<and> list_all png_chunk_wf idats \<and>
     list_all (\<lambda>c. chunk_type c = IDAT) idats \<and> png_closed_ok post)"

lemma png_data_ok_IDAT:
  assumes "chunk_type c = IDAT"
  shows "png_data_ok (c # cs) \<longleftrightarrow> png_chunk_wf c \<and> png_data_ok cs"
proof
  assume "png_data_ok (c # cs)"
  then obtain idats post where p: "c # cs = idats @ post" "list_all png_chunk_wf idats"
    "list_all (\<lambda>c. chunk_type c = IDAT) idats" "png_closed_ok post"
    unfolding png_data_ok_def by blast
  show "png_chunk_wf c \<and> png_data_ok cs"
  proof (cases idats)
    case Nil
    with p(1,4) assms show ?thesis by (auto simp: png_closed_ok_Cons)
  next
    case (Cons x xs)
    with p show ?thesis unfolding png_data_ok_def by auto
  qed
next
  assume "png_chunk_wf c \<and> png_data_ok cs"
  then obtain idats post where "cs = idats @ post" "list_all png_chunk_wf (c # idats)"
    "list_all (\<lambda>c. chunk_type c = IDAT) (c # idats)" "png_closed_ok post"
    unfolding png_data_ok_def using assms by auto
  then show "png_data_ok (c # cs)"
    unfolding png_data_ok_def by (intro exI [of _ "c # idats"] exI [of _ post]) simp
qed

lemma png_data_ok_Cons:
  "png_data_ok (c # cs) \<longleftrightarrow>
     (if chunk_type c = IDAT then png_chunk_wf c \<and> png_data_ok cs else png_closed_ok (c # cs))"
proof (cases "chunk_type c = IDAT")
  case True
  then show ?thesis by (simp add: png_data_ok_IDAT)
next
  case False
  then have "png_data_ok (c # cs) \<Longrightarrow> png_closed_ok (c # cs)"
    by (auto simp: png_data_ok_def Cons_eq_append_conv)
  moreover have "png_closed_ok (c # cs) \<Longrightarrow> png_data_ok (c # cs)"
    unfolding png_data_ok_def by (intro exI [of _ "[]"] exI [of _ "c # cs"]) simp
  ultimately show ?thesis using False by auto
qed

lemma png_run_data:
  "seenIhdr st \<Longrightarrow> seenIdat st \<Longrightarrow> \<not> idatClosed st \<Longrightarrow> 0 < n \<Longrightarrow> colorType st = Some 3 \<longrightarrow> seenPlte st \<Longrightarrow>
     png_run st n cs \<longleftrightarrow> png_data_ok cs"
proof (induction cs arbitrary: st n)
  case Nil
  then show ?case by (simp add: png_data_ok_def png_closed_ok_def)
next
  case (Cons c cs)
  then show ?case
    by (auto simp: png_data_ok_Cons png_closed_ok_Cons png_step_def png_plte_block_def png_idat_block_def
        png_run_closed)
qed

definition png_header_ok :: "png_chunk \<Rightarrow> bool \<Rightarrow> png_chunk list \<Rightarrow> bool" where
  "png_header_ok ihdr plte cs \<longleftrightarrow>
     (\<exists>pre rest. cs = pre @ rest \<and> list_all png_chunk_wf pre \<and>
        list_all (\<lambda>c. chunk_type c \<notin> {IHDR, IDAT, IEND}) pre \<and>
        length (filter (\<lambda>c. chunk_type c = PLTE) pre) \<le> (if plte then 0 else 1) \<and>
        list_all (\<lambda>c. chunk_type c = PLTE \<longrightarrow> png_palette_ok ihdr c) pre \<and>
        (byte_at (chunk_data ihdr) 9 = 3 \<longrightarrow> plte \<or> list_ex (\<lambda>c. chunk_type c = PLTE) pre) \<and>
        (\<exists>c rest'. rest = c # rest' \<and> chunk_type c = IDAT) \<and> png_data_ok rest)"

lemma png_header_ok_Cons:
  "png_header_ok ihdr plte (c # cs) \<longleftrightarrow>
     (if chunk_type c = IDAT
      then png_chunk_wf c \<and> (byte_at (chunk_data ihdr) 9 = 3 \<longrightarrow> plte) \<and> png_data_ok cs
      else png_chunk_wf c \<and> chunk_type c \<notin> {IHDR, IEND} \<and>
           (chunk_type c = PLTE \<longrightarrow> \<not> plte \<and> png_palette_ok ihdr c) \<and>
           png_header_ok ihdr (plte \<or> chunk_type c = PLTE) cs)"
  (is "?L \<longleftrightarrow> ?R")
proof (cases "chunk_type c = IDAT")
  case True
  then have "?L \<Longrightarrow> ?R"
    unfolding png_header_ok_def by (auto simp: Cons_eq_append_conv png_data_ok_IDAT)
  moreover have "?R \<Longrightarrow> ?L"
    unfolding png_header_ok_def using True
    by (intro exI [of _ "[]"] exI [of _ "c # cs"]) (simp add: png_data_ok_IDAT)
  ultimately show ?thesis by blast
next
  case False
  show ?thesis
  proof
    assume ?L
    then obtain pre rest where "c # cs = pre @ rest" and p: "list_all png_chunk_wf pre"
        "list_all (\<lambda>c. chunk_type c \<notin> {IHDR, IDAT, IEND}) pre"
        "length (filter (\<lambda>c. chunk_type c = PLTE) pre) \<le> (if plte then 0 else 1)"
        "list_all (\<lambda>c. chunk_type c = PLTE \<longrightarrow> png_palette_ok ihdr c) pre"
        "byte_at (chunk_data ihdr) 9 = 3 \<longrightarrow> plte \<or> list_ex (\<lambda>c. chunk_type c = PLTE) pre"
        "\<exists>c rest'. rest = c # rest' \<and> chunk_type c = IDAT" "png_data_ok rest"
      unfolding png_header_ok_def by blast
    with False obtain pre' where pre': "pre = c # pre'" "cs = pre' @ rest"
      by (auto simp: Cons_eq_append_conv)
    have "png_header_ok ihdr (plte \<or> chunk_type c = PLTE) cs"
      unfolding png_header_ok_def
      by (rule exI [of _ pre'], rule exI [of _ rest]) (use p pre' in \<open>auto split: if_splits\<close>)
    with p pre' False show ?R by (auto split: if_splits)
  next
    assume R: ?R
    with False obtain pre rest where "cs = pre @ rest" and p: "list_all png_chunk_wf pre"
        "list_all (\<lambda>c. chunk_type c \<notin> {IHDR, IDAT, IEND}) pre"
        "length (filter (\<lambda>c. chunk_type c = PLTE) pre) \<le> (if plte \<or> chunk_type c = PLTE then 0 else 1)"
        "list_all (\<lambda>c. chunk_type c = PLTE \<longrightarrow> png_palette_ok ihdr c) pre"
        "byte_at (chunk_data ihdr) 9 = 3 \<longrightarrow> (plte \<or> chunk_type c = PLTE) \<or> list_ex (\<lambda>c. chunk_type c = PLTE) pre"
        "\<exists>c rest'. rest = c # rest' \<and> chunk_type c = IDAT" "png_data_ok rest"
      unfolding png_header_ok_def by auto
    then show ?L
      unfolding png_header_ok_def
      by (intro exI [of _ "c # pre"] exI [of _ rest]) (use R False in \<open>auto split: if_splits\<close>)
  qed
qed

lemma png_run_header:
  "seenIhdr st \<Longrightarrow> \<not> seenIdat st \<Longrightarrow> \<not> idatClosed st \<Longrightarrow> 0 < n \<Longrightarrow>
     colorType st = Some (byte_at (chunk_data ihdr) 9) \<Longrightarrow> bitDepth st = Some (byte_at (chunk_data ihdr) 8) \<Longrightarrow>
     png_run st n cs \<longleftrightarrow> png_header_ok ihdr (seenPlte st) cs"
proof (induction cs arbitrary: st n)
  case Nil
  then show ?case by (simp add: png_header_ok_def)
next
  case (Cons c cs)
  consider "chunk_type c = IDAT" | "chunk_type c = PLTE" | "chunk_type c \<noteq> IDAT" "chunk_type c \<noteq> PLTE" by blast
  then show ?case
  proof cases
    case 1
    with Cons.prems show ?thesis
      by (auto simp: png_header_ok_Cons png_step_def png_plte_block_def png_idat_block_def png_run_data)
  next
    case 2
    with Cons.prems Cons.IH show ?thesis
      by (auto simp: png_header_ok_Cons png_step_def png_plte_block_def png_idat_block_def png_palette_ok_def
          Let_def not_less)
  next
    case 3
    with Cons.prems Cons.IH show ?thesis
      by (auto simp: png_header_ok_Cons png_step_def png_plte_block_def png_idat_block_def)
  qed
qed

lemma png_data_ok_image:
  "(\<exists>c rest'. rest = c # rest' \<and> chunk_type c = IDAT) \<and> png_data_ok rest \<longleftrightarrow>
     (\<exists>idats post iend. rest = idats @ post @ [iend] \<and> list_all png_chunk_wf rest \<and> idats \<noteq> [] \<and>
        list_all (\<lambda>c. chunk_type c = IDAT) idats \<and> list_all (\<lambda>c. chunk_type c \<notin> {IHDR, PLTE, IDAT, IEND}) post \<and>
        chunk_type iend = IEND \<and> chunk_data iend = [])"
  (is "?L \<longleftrightarrow> ?R")
proof
  assume L: ?L
  then obtain idats tl' where r: "rest = idats @ tl'" "list_all png_chunk_wf idats"
    "list_all (\<lambda>c. chunk_type c = IDAT) idats" "png_closed_ok tl'"
    unfolding png_data_ok_def by blast
  have "idats \<noteq> []"
  proof
    assume "idats = []"
    with L r show False by (auto simp: png_closed_ok_Cons)
  qed
  with r show ?R unfolding png_closed_ok_def by fastforce
next
  assume ?R
  then obtain idats post iend where r: "rest = idats @ post @ [iend]" "list_all png_chunk_wf rest" "idats \<noteq> []"
      "list_all (\<lambda>c. chunk_type c = IDAT) idats" "list_all (\<lambda>c. chunk_type c \<notin> {IHDR, PLTE, IDAT, IEND}) post"
      "chunk_type iend = IEND" "chunk_data iend = []"
    by blast
  then have "png_closed_ok (post @ [iend])"
    unfolding png_closed_ok_def by auto
  with r have "png_data_ok rest"
    unfolding png_data_ok_def by (intro exI [of _ idats] exI [of _ "post @ [iend]"]) simp
  moreover have "\<exists>c rest'. rest = c # rest' \<and> chunk_type c = IDAT"
    using r(1,3,4) by (cases idats) auto
  ultimately show ?L by blast
qed

lemma png_image_header:
  "png_image (ihdr # cs) \<longleftrightarrow> png_chunk_wf ihdr \<and> chunk_type ihdr = IHDR \<and> length (chunk_data ihdr) = 13 \<and>
     validatePngIhdr (chunk_data ihdr) \<and> png_header_ok ihdr False cs"
  (is "?L \<longleftrightarrow> ?R")
proof
  assume ?L
  then obtain pre idats post iend where i: "cs = pre @ idats @ post @ [iend]" "list_all png_chunk_wf (ihdr # cs)"
      "chunk_type ihdr = IHDR" "length (chunk_data ihdr) = 13" "validatePngIhdr (chunk_data ihdr)"
      "list_all (\<lambda>c. chunk_type c \<notin> {IHDR, IDAT, IEND}) pre" "length (filter (\<lambda>c. chunk_type c = PLTE) pre) \<le> 1"
      "list_all (\<lambda>c. chunk_type c = PLTE \<longrightarrow> png_palette_ok ihdr c) pre" "idats \<noteq> []"
      "list_all (\<lambda>c. chunk_type c = IDAT) idats"
      "byte_at (chunk_data ihdr) 9 = 3 \<longrightarrow> list_ex (\<lambda>c. chunk_type c = PLTE) pre"
      "list_all (\<lambda>c. chunk_type c \<notin> {IHDR, PLTE, IDAT, IEND}) post" "chunk_type iend = IEND" "chunk_data iend = []"
    unfolding png_image_def by auto
  let ?rest = "idats @ post @ [iend]"
  have d: "(\<exists>c rest'. ?rest = c # rest' \<and> chunk_type c = IDAT) \<and> png_data_ok ?rest"
    unfolding png_data_ok_image
    by (rule exI [of _ idats], rule exI [of _ post], rule exI [of _ iend]) (use i in simp)
  have "png_header_ok ihdr False cs"
    unfolding png_header_ok_def
    by (rule exI [where x = pre], rule exI [where x = ?rest]) (use i d in simp)
  with i show ?R by simp
next
  assume R: ?R
  then obtain pre rest where i: "cs = pre @ rest" "list_all png_chunk_wf pre"
      "list_all (\<lambda>c. chunk_type c \<notin> {IHDR, IDAT, IEND}) pre"
      "length (filter (\<lambda>c. chunk_type c = PLTE) pre) \<le> (if False then 0 else 1)"
      "list_all (\<lambda>c. chunk_type c = PLTE \<longrightarrow> png_palette_ok ihdr c) pre"
      "byte_at (chunk_data ihdr) 9 = 3 \<longrightarrow> False \<or> list_ex (\<lambda>c. chunk_type c = PLTE) pre"
    and "(\<exists>c rest'. rest = c # rest' \<and> chunk_type c = IDAT) \<and> png_data_ok rest"
    unfolding png_header_ok_def by blast
  then obtain idats post iend where r: "rest = idats @ post @ [iend]" "list_all png_chunk_wf rest" "idats \<noteq> []"
      "list_all (\<lambda>c. chunk_type c = IDAT) idats" "list_all (\<lambda>c. chunk_type c \<notin> {IHDR, PLTE, IDAT, IEND}) post"
      "chunk_type iend = IEND" "chunk_data iend = []"
    unfolding png_data_ok_image by blast
  show ?L
    unfolding png_image_def
    by (rule exI [of _ ihdr], rule exI [of _ pre], rule exI [of _ idats], rule exI [of _ post], rule exI [of _ iend])
      (use R i r in simp)
qed

lemma png_run_initial: "png_run png_initial 0 cs \<longleftrightarrow> png_image cs"
proof (cases cs)
  case Nil
  then show ?thesis by (simp add: png_image_def)
next
  case (Cons ihdr cs')
  let ?st = "png_initial\<lparr>bitDepth := Some (byte_at (chunk_data ihdr) 8),
      colorType := Some (byte_at (chunk_data ihdr) 9), seenIhdr := True\<rparr>"
  have "png_step png_initial 0 ihdr =
      (if png_chunk_wf ihdr \<and> chunk_type ihdr = IHDR \<and> length (chunk_data ihdr) = 13 \<and> validatePngIhdr (chunk_data ihdr)
       then Some ?st else None)"
    by (auto simp: png_step_def png_plte_block_def png_idat_block_def png_initial_def)
  moreover have "png_run ?st 1 cs' \<longleftrightarrow> png_header_ok ihdr False cs'"
    by (subst png_run_header [of _ _ ihdr]) (simp_all add: png_initial_def)
  ultimately show ?thesis
    by (auto simp: Cons png_image_header)
qed

section \<open>Properties\<close>

lemma length_PNG_SIGNATURE [simp]: "length PNG_SIGNATURE = 8"
  by (simp add: PNG_SIGNATURE_def)

lemma png_image_long: "png_image cs \<Longrightarrow> 12 \<le> length (concat (map encode_chunk cs))"
  by (cases cs)
    (auto simp: png_image_header png_chunk_wf_def length_encode_chunk isPngChunkType_length, auto simp: png_image_def)

text \<open>
  C4. \<open>matchesPngStructure\<close>: it accepts exactly the regular files that are the PNG signature
  followed by the written form of a well-formed image of at most 10000 chunks: every chunk
  has its right length and checksum, the header comes first and is valid, the palette obeys
  the colour type, the image data is uninterrupted, and the file ends with the end chunk.
\<close>

theorem matchesPngStructure_iff:
  "matchesPngStructure h \<longleftrightarrow>
     is_file h \<and>
     (\<exists>cs. contents h = PNG_SIGNATURE @ concat (map encode_chunk cs) \<and> png_image cs \<and> length cs \<le> PNG_MAX_CHUNKS)"
proof -
  have loop: "png_loop h 8 0 png_initial \<longleftrightarrow>
      (\<exists>cs. drop 8 (contents h) = concat (map encode_chunk cs) \<and> png_image cs \<and> length cs \<le> PNG_MAX_CHUNKS)"
    using png_loop_sound [of h 8 0 png_initial] png_loop_complete [of 8 h _ 0 png_initial]
    by (auto simp: png_run_initial)
  have split: "contents h = PNG_SIGNATURE @ c \<longleftrightarrow> take 8 (contents h) = PNG_SIGNATURE \<and> drop 8 (contents h) = c" for c
    by (metis append_eq_conv_conj append_take_drop_id length_PNG_SIGNATURE)
  have size: "20 \<le> file_size h" if "contents h = PNG_SIGNATURE @ concat (map encode_chunk cs)" "png_image cs" for cs
    using png_image_long [OF that(2)] by (simp add: that(1))
  have "matchesPngStructure h \<longleftrightarrow> is_file h \<and> 20 \<le> file_size h \<and> take 8 (contents h) = PNG_SIGNATURE \<and> png_loop h 8 0 png_initial"
    by (auto simp: matchesPngStructure_def readExactly_eq subarray_def)
  then show ?thesis
    using size unfolding loop split by blast
qed

end
