(* ===== verification/Media_Jpeg.thy ===== *)
theory Media_Jpeg
  imports Media_File
begin

text \<open>
  \<open>matchesJpegStructure\<close> of src/src/media/media-image-structure.ts, with its marker reader and
  the checks of the frame and scan headers. The specification side is a JPEG file as a list
  of marker segments up to the start of the first scan.
\<close>

section \<open>Markers\<close>

definition JPEG_SOI :: buffer where
  "JPEG_SOI = [0xff, 0xd8]"

definition JPEG_EOI :: buffer where
  "JPEG_EOI = [0xff, 0xd9]"

definition JPEG_MAX_HEADER_MARKERS :: nat where
  "JPEG_MAX_HEADER_MARKERS = 1024"

definition JPEG_SOS :: byte where
  "JPEG_SOS = 0xda"

definition JPEG_EOI_MARKER :: byte where
  "JPEG_EOI_MARKER = 0xd9"

definition isStandaloneJpegMarker :: "byte \<Rightarrow> bool" where
  "isStandaloneJpegMarker code \<longleftrightarrow> code = 0x01 \<or> (code \<ge> 0xd0 \<and> code \<le> 0xd7)"

definition isStartOfFrameMarker :: "byte \<Rightarrow> bool" where
  "isStartOfFrameMarker code \<longleftrightarrow>
     (code \<ge> 0xc0 \<and> code \<le> 0xc3) \<or> (code \<ge> 0xc5 \<and> code \<le> 0xc7) \<or>
     (code \<ge> 0xc9 \<and> code \<le> 0xcb) \<or> (code \<ge> 0xcd \<and> code \<le> 0xcf)"

function jpeg_marker_loop :: "handle \<Rightarrow> nat \<Rightarrow> nat \<Rightarrow> (byte \<times> nat) option" where
  "jpeg_marker_loop h offset fileSize =
     (if offset < fileSize
      then (case readExactly h 1 offset of
              None \<Rightarrow> None
            | Some byte \<Rightarrow>
                if byte_at byte 0 = 0xff then jpeg_marker_loop h (offset + 1) fileSize
                else if byte_at byte 0 = 0 then None
                else Some (byte_at byte 0, offset + 1))
      else None)"
  by pat_completeness auto
termination
  by (relation "measure (\<lambda>(h, offset, fileSize). fileSize - offset)") auto

declare jpeg_marker_loop.simps [simp del]

definition readJpegMarker :: "handle \<Rightarrow> nat \<Rightarrow> nat \<Rightarrow> (byte \<times> nat) option" where
  "readJpegMarker h startOffset fileSize =
     (case readExactly h 1 startOffset of
        None \<Rightarrow> None
      | Some first \<Rightarrow> if byte_at first 0 \<noteq> 0xff then None else jpeg_marker_loop h startOffset fileSize)"

definition validateJpegStartOfFrame :: "handle \<Rightarrow> nat \<Rightarrow> nat \<Rightarrow> bool" where
  "validateJpegStartOfFrame h lengthOffset segmentLength =
     (if segmentLength < 8 then False
      else case readExactly h 8 lengthOffset of
             None \<Rightarrow> False
           | Some fixed \<Rightarrow>
               let height = be_nat (subarray fixed 3 2); width = be_nat (subarray fixed 5 2);
                   components = unat (byte_at fixed 7)
               in width > 0 \<and> height > 0 \<and> components > 0 \<and> segmentLength = 8 + components * 3)"

definition validateJpegStartOfScan :: "handle \<Rightarrow> nat \<Rightarrow> nat \<Rightarrow> bool" where
  "validateJpegStartOfScan h lengthOffset segmentLength =
     (if segmentLength < 8 then False
      else case readExactly h 3 lengthOffset of
             None \<Rightarrow> False
           | Some prefix' \<Rightarrow>
               let components = unat (byte_at prefix' 2)
               in components > 0 \<and> segmentLength = 6 + components * 2)"

section \<open>The marker loop\<close>

function jpeg_loop :: "handle \<Rightarrow> nat \<Rightarrow> nat \<Rightarrow> bool \<Rightarrow> bool" where
  "jpeg_loop h offset markerCount foundStartOfFrame =
     (if offset < file_size h - 2 \<and> markerCount < JPEG_MAX_HEADER_MARKERS
      then (case readJpegMarker h offset (file_size h) of
              None \<Rightarrow> False
            | Some (code, nextOffset) \<Rightarrow>
                if code = JPEG_EOI_MARKER then False
                else if isStandaloneJpegMarker code then jpeg_loop h nextOffset (markerCount + 1) foundStartOfFrame
                else (case readExactly h 2 nextOffset of
                        None \<Rightarrow> False
                      | Some lengthBytes \<Rightarrow>
                          let segmentLength = be_nat (subarray lengthBytes 0 2)
                          in if segmentLength < 2 \<or> nextOffset + segmentLength > file_size h - 2 then False
                          else if isStartOfFrameMarker code \<and> \<not> validateJpegStartOfFrame h nextOffset segmentLength then False
                          else let found = (foundStartOfFrame \<or> isStartOfFrameMarker code)
                            in if code = JPEG_SOS
                               then found \<and> validateJpegStartOfScan h nextOffset segmentLength \<and>
                                    nextOffset + segmentLength < file_size h - 2
                               else jpeg_loop h (nextOffset + segmentLength) (markerCount + 1) found))
      else False)"
  by pat_completeness auto
termination
  by (relation "measure (\<lambda>(h, offset, markerCount, found). JPEG_MAX_HEADER_MARKERS - markerCount)") auto

declare jpeg_loop.simps [simp del]

definition matchesJpegStructure :: "handle \<Rightarrow> bool" where
  "matchesJpegStructure h =
     (if \<not> is_file h \<or> file_size h < 12 then False
      else if readExactly h 2 0 \<noteq> Some JPEG_SOI \<or> readExactly h 2 (file_size h - 2) \<noteq> Some JPEG_EOI then False
      else jpeg_loop h 2 0 False)"

section \<open>JPEG files as segments\<close>

record jpeg_segment =
  fill :: nat
  marker :: byte
  payload :: buffer

definition segment_wf :: "jpeg_segment \<Rightarrow> bool" where
  "segment_wf s \<longleftrightarrow> marker s \<noteq> 0 \<and> marker s \<noteq> 0xff \<and> marker s \<noteq> JPEG_EOI_MARKER \<and>
     (isStandaloneJpegMarker (marker s) \<longrightarrow> payload s = []) \<and> length (payload s) + 2 < 2 ^ 16"

definition encode_segment :: "jpeg_segment \<Rightarrow> buffer" where
  "encode_segment s = replicate (Suc (fill s)) 0xff @ [marker s] @
     (if isStandaloneJpegMarker (marker s) then [] else be_bytes 2 (length (payload s) + 2) @ payload s)"

definition frame_header_ok :: "jpeg_segment \<Rightarrow> bool" where
  "frame_header_ok s \<longleftrightarrow>
     (let height = be_nat (subarray (payload s) 1 2); width = be_nat (subarray (payload s) 3 2);
          components = unat (byte_at (payload s) 5)
      in 0 < height \<and> 0 < width \<and> 0 < components \<and> length (payload s) = 6 + components * 3)"

definition scan_header_ok :: "jpeg_segment \<Rightarrow> bool" where
  "scan_header_ok s \<longleftrightarrow>
     (let components = unat (byte_at (payload s) 0) in 0 < components \<and> length (payload s) = 4 + components * 2)"

definition table_segment :: "jpeg_segment \<Rightarrow> bool" where
  "table_segment s \<longleftrightarrow> segment_wf s \<and> marker s \<noteq> JPEG_SOS \<and> (isStartOfFrameMarker (marker s) \<longrightarrow> frame_header_ok s)"

section \<open>Reading one marker\<close>

lemma byte_at_single: "off < length b \<Longrightarrow> byte_at (subarray b off (Suc 0)) 0 = b ! off"
  by (simp add: byte_at_def nth_subarray)

lemma marker_codes [simp]:
  "\<not> isStandaloneJpegMarker JPEG_SOS" "\<not> isStartOfFrameMarker JPEG_SOS"
  "isStandaloneJpegMarker c \<Longrightarrow> \<not> isStartOfFrameMarker c"
proof -
  show "\<not> isStandaloneJpegMarker JPEG_SOS" "\<not> isStartOfFrameMarker JPEG_SOS"
    by (simp_all add: isStandaloneJpegMarker_def isStartOfFrameMarker_def JPEG_SOS_def)
  show "isStandaloneJpegMarker c \<Longrightarrow> \<not> isStartOfFrameMarker c"
    by (auto simp: isStandaloneJpegMarker_def isStartOfFrameMarker_def word_le_nat_alt)
qed

lemma jpeg_marker_loop_fill:
  "drop off (contents h) = replicate k 0xff @ c # rest \<Longrightarrow> c \<noteq> 0 \<Longrightarrow> c \<noteq> 0xff \<Longrightarrow>
     jpeg_marker_loop h off (file_size h) = Some (c, off + k + 1)"
proof (induction k arbitrary: off)
  case 0
  then have off: "off < file_size h" by (metis append_Nil drop_all list.distinct(1) not_le replicate_0)
  then have "contents h ! off = c"
    using 0 by (metis append_Nil nth_via_drop replicate_0)
  with off 0(2,3) show ?case
    by (subst jpeg_marker_loop.simps) (simp add: readExactly_eq byte_at_single)
next
  case (Suc k)
  then have off: "off < file_size h" by (metis append_Cons drop_all list.distinct(1) not_le replicate_Suc)
  have "contents h ! off = 0xff"
    using Suc.prems(1) by (metis append_Cons nth_via_drop replicate_Suc)
  moreover have "drop (off + 1) (contents h) = replicate k 0xff @ c # rest"
    using arg_cong [OF Suc.prems(1), of tl] by (simp add: drop_Suc tl_drop)
  ultimately show ?case
    using Suc.IH [of "off + 1"] Suc.prems(2,3) off
    by (subst jpeg_marker_loop.simps) (simp add: readExactly_eq byte_at_single)
qed

lemma jpeg_marker_loop_Some:
  "jpeg_marker_loop h off (file_size h) = Some (c, next') \<Longrightarrow>
     \<exists>k. drop off (contents h) = replicate k 0xff @ c # drop next' (contents h) \<and> next' = off + k + 1 \<and> c \<noteq> 0 \<and> c \<noteq> 0xff"
proof (induction "file_size h - off" arbitrary: off rule: less_induct)
  case less
  then have off: "off < file_size h"
    by (subst (asm) jpeg_marker_loop.simps) (simp split: if_splits)
  have hd: "drop off (contents h) = contents h ! off # drop (Suc off) (contents h)"
    using off by (simp add: Cons_nth_drop_Suc)
  show ?case
  proof (cases "contents h ! off = 0xff")
    case True
    then have "jpeg_marker_loop h (off + 1) (file_size h) = Some (c, next')"
      using less.prems off
      by (subst (asm) jpeg_marker_loop.simps) (simp add: readExactly_eq byte_at_single)
    with less.hyps [of "off + 1"] off obtain k
      where "drop (off + 1) (contents h) = replicate k 0xff @ c # drop next' (contents h)" "next' = off + 1 + k + 1"
        "c \<noteq> 0" "c \<noteq> 0xff"
      by (metis diff_less_mono2 less_add_one)
    with hd True show ?thesis by (intro exI [of _ "Suc k"]) simp
  next
    case False
    with less.prems off have "c = contents h ! off \<and> next' = off + 1 \<and> c \<noteq> 0"
      by (subst (asm) jpeg_marker_loop.simps)
        (auto simp: readExactly_eq byte_at_single split: if_splits)
    with hd False show ?thesis by (intro exI [of _ 0]) auto
  qed
qed

text \<open>A marker is one or more fill bytes and a code.\<close>

lemma readJpegMarker_iff:
  "readJpegMarker h off (file_size h) = Some (c, next') \<longleftrightarrow>
     (\<exists>k. drop off (contents h) = replicate (Suc k) 0xff @ c # drop next' (contents h) \<and> next' = off + k + 2 \<and> c \<noteq> 0 \<and> c \<noteq> 0xff)"
  (is "?L \<longleftrightarrow> ?R")
proof
  assume ?R
  then obtain k where k: "drop off (contents h) = replicate (Suc k) 0xff @ c # drop next' (contents h)"
    "next' = off + k + 2" "c \<noteq> 0" "c \<noteq> 0xff" by blast
  from k(1) have "off < file_size h" and "contents h ! off = 0xff"
    by (metis append_Cons drop_all list.distinct(1) not_le replicate_Suc,
        metis append_Cons nth_via_drop replicate_Suc)
  with jpeg_marker_loop_fill [OF k(1,3,4)] k(2) show ?L
    by (simp add: readJpegMarker_def readExactly_eq byte_at_single)
next
  assume L: ?L
  then have off: "off < file_size h" "contents h ! off = 0xff" and "jpeg_marker_loop h off (file_size h) = Some (c, next')"
    by (auto simp: readJpegMarker_def readExactly_eq byte_at_single split: if_splits)
  from jpeg_marker_loop_Some [OF this(3)] obtain k
    where k: "drop off (contents h) = replicate k 0xff @ c # drop next' (contents h)" "next' = off + k + 1" "c \<noteq> 0" "c \<noteq> 0xff"
    by blast
  have "k \<noteq> 0"
  proof
    assume "k = 0"
    with k(1) have "contents h ! off = c" by (metis append_Nil nth_via_drop replicate_0)
    with off(2) k(4) show False by simp
  qed
  then obtain j where "k = Suc j" by (cases k) auto
  with k show ?R by (intro exI [of _ j]) simp
qed

lemma readJpegMarker_bounds:
  "readJpegMarker h off (file_size h) = Some (c, next') \<Longrightarrow> off < next' \<and> next' \<le> file_size h"
proof -
  assume "readJpegMarker h off (file_size h) = Some (c, next')"
  then obtain k where k: "drop off (contents h) = replicate (Suc k) 0xff @ c # drop next' (contents h)" "next' = off + k + 2"
    unfolding readJpegMarker_iff by blast
  from arg_cong [OF k(1), of length] have "file_size h - off = k + 2 + (file_size h - next')" by simp
  with k(2) show ?thesis by linarith
qed

section \<open>Reading one segment\<close>

text \<open>The loop of the validator on a segment list, and the loop's rounds as segments.\<close>

fun jpeg_run :: "jpeg_segment list \<Rightarrow> nat \<Rightarrow> bool \<Rightarrow> bool" where
  "jpeg_run [] k found = False"
| "jpeg_run (s # ss) k found =
     (k < JPEG_MAX_HEADER_MARKERS \<and> segment_wf s \<and> (isStartOfFrameMarker (marker s) \<longrightarrow> frame_header_ok s) \<and>
      (if marker s = JPEG_SOS then (found \<or> isStartOfFrameMarker (marker s)) \<and> scan_header_ok s \<and> ss = []
       else jpeg_run ss (k + 1) (found \<or> isStartOfFrameMarker (marker s))))"

lemma length_encode_segment:
  "length (encode_segment s) = fill s + 2 + (if isStandaloneJpegMarker (marker s) then 0 else 2 + length (payload s))"
  by (simp add: encode_segment_def)

lemma validateJpegStartOfFrame_segment:
  assumes "drop off (contents h) = be_bytes 2 (length (payload s) + 2) @ payload s @ rest"
  shows "validateJpegStartOfFrame h off (length (payload s) + 2) \<longleftrightarrow> frame_header_ok s"
proof (cases "6 \<le> length (payload s)")
  case False
  then show ?thesis by (auto simp: validateJpegStartOfFrame_def frame_header_ok_def Let_def)
next
  case True
  have "off + 8 \<le> file_size h"
    using arg_cong [OF assms, of length] True by simp
  moreover have "subarray (contents h) off 8 = be_bytes 2 (length (payload s) + 2) @ take 6 (payload s)"
    using True by (simp add: subarray_def assms)
  moreover have "subarray (be_bytes 2 n @ take 6 (payload s)) 3 2 = subarray (payload s) 1 2"
    "subarray (be_bytes 2 n @ take 6 (payload s)) 5 2 = subarray (payload s) 3 2"
    "byte_at (be_bytes 2 n @ take 6 (payload s)) 7 = byte_at (payload s) 5" for n
    using subarray_append_right [of "be_bytes 2 n" "take 6 (payload s)" 1 2]
      subarray_append_right [of "be_bytes 2 n" "take 6 (payload s)" 3 2]
    by (simp_all add: subarray_take byte_at_append byte_at_take del: be_bytes.simps)
  ultimately show ?thesis
    using True by (auto simp: validateJpegStartOfFrame_def frame_header_ok_def readExactly_eq Let_def)
qed

lemma validateJpegStartOfScan_segment:
  assumes "drop off (contents h) = be_bytes 2 (length (payload s) + 2) @ payload s @ rest"
  shows "validateJpegStartOfScan h off (length (payload s) + 2) \<longleftrightarrow> scan_header_ok s"
proof (cases "6 \<le> length (payload s)")
  case False
  then show ?thesis by (auto simp: validateJpegStartOfScan_def scan_header_ok_def Let_def)
next
  case True
  have "off + 3 \<le> file_size h"
    using arg_cong [OF assms, of length] True by simp
  moreover have "subarray (contents h) off 3 = be_bytes 2 (length (payload s) + 2) @ take 1 (payload s)"
    using True by (simp add: subarray_def assms)
  moreover have "byte_at (be_bytes 2 n @ take 1 (payload s)) 2 = byte_at (payload s) 0" for n
    by (simp add: byte_at_append byte_at_take del: be_bytes.simps)
  ultimately show ?thesis
    using True by (auto simp: validateJpegStartOfScan_def scan_header_ok_def readExactly_eq Let_def)
qed

lemma jpeg_length_field: "segment_wf s \<Longrightarrow> be_nat (be_bytes 2 (length (payload s) + 2)) = length (payload s) + 2"
  by (rule be_nat_be_bytes) (simp add: segment_wf_def)

lemma jpeg_loop_segment:
  assumes d: "drop off (contents h) = encode_segment s @ rest" and wf: "segment_wf s"
    and off: "off < file_size h - 2" and k: "k < JPEG_MAX_HEADER_MARKERS" and next': "next' = off + length (encode_segment s)"
  shows "jpeg_loop h off k found =
     (if isStandaloneJpegMarker (marker s) then jpeg_loop h next' (k + 1) found
      else next' \<le> file_size h - 2 \<and> (isStartOfFrameMarker (marker s) \<longrightarrow> frame_header_ok s) \<and>
        (if marker s = JPEG_SOS then (found \<or> isStartOfFrameMarker (marker s)) \<and> scan_header_ok s \<and> next' < file_size h - 2
         else jpeg_loop h next' (k + 1) (found \<or> isStartOfFrameMarker (marker s))))"
proof -
  let ?o = "off + fill s + 2"
  let ?tail = "if isStandaloneJpegMarker (marker s) then rest else be_bytes 2 (length (payload s) + 2) @ payload s @ rest"
  have d': "drop off (contents h) = replicate (Suc (fill s)) 0xff @ marker s # ?tail"
    by (simp add: d encode_segment_def del: replicate_Suc be_bytes.simps)
  have "drop (fill s + 2) (drop off (contents h)) = ?tail"
    unfolding d' by (simp add: drop_Cons' del: be_bytes.simps)
  then have tail: "drop ?o (contents h) = ?tail"
    by (simp only: drop_drop add.commute add.left_commute add.assoc)
  have m: "readJpegMarker h off (file_size h) = Some (marker s, ?o)"
    unfolding readJpegMarker_iff
    by (rule exI [of _ "fill s"]) (use d' tail wf in \<open>simp add: segment_wf_def del: replicate_Suc be_bytes.simps\<close>)
  have ne: "marker s \<noteq> JPEG_EOI_MARKER" using wf by (simp add: segment_wf_def)
  show ?thesis
  proof (cases "isStandaloneJpegMarker (marker s)")
    case True
    then have "next' = ?o" by (simp add: next' length_encode_segment)
    with True m ne off k show ?thesis by (subst jpeg_loop.simps) simp
  next
    case False
    let ?L = "length (payload s) + 2"
    have n: "next' = ?o + ?L" using False by (simp add: next' length_encode_segment)
    have dl: "drop ?o (contents h) = be_bytes 2 ?L @ payload s @ rest" using tail False by simp
    from arg_cong [OF dl, of length] have "?o + 2 \<le> file_size h" by simp
    moreover have "subarray (contents h) ?o 2 = be_bytes 2 ?L"
      unfolding subarray_def dl by (simp del: be_bytes.simps)
    ultimately have r: "readExactly h 2 ?o = Some (be_bytes 2 ?L)" by (simp add: readExactly_eq del: be_bytes.simps)
    have f: "be_nat (subarray (be_bytes 2 ?L) 0 2) = ?L"
      using jpeg_length_field [OF wf] by (simp add: subarray_def del: be_bytes.simps)
    have "jpeg_loop h off k found =
        (if ?L < 2 \<or> ?o + ?L > file_size h - 2 then False
         else if isStartOfFrameMarker (marker s) \<and> \<not> validateJpegStartOfFrame h ?o ?L then False
         else if marker s = JPEG_SOS
              then (found \<or> isStartOfFrameMarker (marker s)) \<and> validateJpegStartOfScan h ?o ?L \<and> ?o + ?L < file_size h - 2
              else jpeg_loop h (?o + ?L) (k + 1) (found \<or> isStartOfFrameMarker (marker s)))"
      using False ne off k
      by (subst jpeg_loop.simps) (simp only: m r f option.case prod.case Let_def simp_thms if_True if_False)
    then show ?thesis
      using False unfolding validateJpegStartOfFrame_segment [OF dl] validateJpegStartOfScan_segment [OF dl] n by auto
  qed
qed

lemma drop_cut: "drop i b = subarray b i n @ drop (i + n) b"
  by (simp add: subarray_def flip: drop_drop add.commute [of n])

lemma jpeg_loop_reads_segment:
  assumes "jpeg_loop h off k found"
  shows "off < file_size h - 2 \<and> k < JPEG_MAX_HEADER_MARKERS \<and>
    (\<exists>s rest. drop off (contents h) = encode_segment s @ rest \<and> segment_wf s)"
proof -
  have c: "off < file_size h - 2 \<and> k < JPEG_MAX_HEADER_MARKERS"
    using assms by (subst (asm) jpeg_loop.simps) (simp split: if_splits)
  then obtain code o' where m: "readJpegMarker h off (file_size h) = Some (code, o')"
    using assms by (subst (asm) jpeg_loop.simps) (auto split: option.splits)
  then obtain j where j: "drop off (contents h) = replicate (Suc j) 0xff @ code # drop o' (contents h)"
    and code: "code \<noteq> 0" "code \<noteq> 0xff"
    unfolding readJpegMarker_iff by blast
  have eoi: "code \<noteq> JPEG_EOI_MARKER"
    using assms c m by (subst (asm) jpeg_loop.simps) (auto split: if_splits)
  show ?thesis
  proof (cases "isStandaloneJpegMarker code")
    case True
    let ?s = "\<lparr>fill = j, marker = code, payload = []\<rparr>"
    have "drop off (contents h) = encode_segment ?s @ drop o' (contents h) \<and> segment_wf ?s"
      using j code eoi True by (simp add: encode_segment_def segment_wf_def del: replicate_Suc)
    with c show ?thesis by blast
  next
    case False
    then obtain b where b: "readExactly h 2 o' = Some b"
      using assms c m eoi by (subst (asm) jpeg_loop.simps) (auto split: option.splits if_splits)
    let ?L = "be_nat (subarray b 0 2)"
    have L: "\<not> (?L < 2 \<or> o' + ?L > file_size h - 2)"
      using assms c m b False eoi by (subst (asm) jpeg_loop.simps) (auto simp: Let_def split: if_splits)
    let ?s = "\<lparr>fill = j, marker = code, payload = subarray (contents h) (o' + 2) (?L - 2)\<rparr>"
    have lb: "length b = 2" using readExactly_length [OF b] .
    then have lb': "subarray b 0 2 = b" by (simp add: subarray_def)
    have "?L < 2 ^ 16" using be_nat_less [of b] lb lb' by simp
    have o2: "o' + 2 \<le> file_size h" and bb: "b = subarray (contents h) o' 2"
      using b by (auto simp: readExactly_eq split: if_splits)
    have pl: "length (payload ?s) = ?L - 2" using L o2 by auto
    have "be_bytes 2 ?L = b" using be_bytes_be_nat [OF lb] lb' by simp
    moreover have "drop o' (contents h) = b @ payload ?s @ drop (o' + ?L) (contents h)"
    proof -
      have "drop o' (contents h) = b @ drop (o' + 2) (contents h)"
        using drop_cut [of o' "contents h" 2] bb by simp
      moreover have "o' + 2 + (?L - 2) = o' + ?L" using L by linarith
      then have "drop (o' + 2) (contents h) = payload ?s @ drop (o' + ?L) (contents h)"
        using drop_cut [of "o' + 2" "contents h" "?L - 2"] by (simp only: jpeg_segment.select_convs)
      ultimately show ?thesis by metis
    qed
    ultimately have "drop o' (contents h) = be_bytes 2 ?L @ payload ?s @ drop (o' + ?L) (contents h)"
      by metis
    moreover have "length (payload ?s) + 2 = ?L" using pl L by linarith
    ultimately have "drop off (contents h) = encode_segment ?s @ drop (o' + ?L) (contents h)"
      unfolding j encode_segment_def using False
      by (simp only: jpeg_segment.select_convs if_False append.assoc append_Cons append_Nil)
    moreover have "segment_wf ?s"
      using code eoi False \<open>?L < 2 ^ 16\<close> \<open>length (payload ?s) + 2 = ?L\<close> by (simp add: segment_wf_def)
    ultimately show ?thesis using c by blast
  qed
qed

section \<open>The header as a list of segments\<close>

lemma jpeg_loop_sound:
  "jpeg_loop h off k found \<Longrightarrow>
     \<exists>ss tail. drop off (contents h) = concat (map encode_segment ss) @ tail \<and> 2 < length tail \<and> jpeg_run ss k found"
proof (induction "JPEG_MAX_HEADER_MARKERS - k" arbitrary: off k found rule: less_induct)
  case less
  from jpeg_loop_reads_segment [OF less.prems] obtain s rest
    where c: "off < file_size h - 2" "k < JPEG_MAX_HEADER_MARKERS"
      and s: "drop off (contents h) = encode_segment s @ rest" "segment_wf s"
    by blast
  let ?n = "off + length (encode_segment s)"
  let ?f = "found \<or> isStartOfFrameMarker (marker s)"
  note step = jpeg_loop_segment [OF s c refl, of found]
  have rest: "drop ?n (contents h) = rest" using s(1) by (metis append_eq_conv_conj drop_drop add.commute)
  show ?case
  proof (cases "marker s = JPEG_SOS")
    case True
    with step less.prems have ok: "?f" "scan_header_ok s" "?n < file_size h - 2" by auto
    from arg_cong [OF rest, of length] ok(3) have "2 < length rest" by simp
    with True ok s c(2) show ?thesis by (intro exI [of _ "[s]"] exI [of _ rest]) simp
  next
    case False
    with step less.prems have l: "jpeg_loop h ?n (k + 1) ?f" and f: "isStartOfFrameMarker (marker s) \<longrightarrow> frame_header_ok s"
      by (auto split: if_splits)
    from c(2) less.hyps [OF _ l] obtain ss tail where "rest = concat (map encode_segment ss) @ tail" "2 < length tail"
      "jpeg_run ss (k + 1) ?f"
      unfolding rest by (metis diff_less_mono2 less_add_one)
    with False f s c(2) show ?thesis by (intro exI [of _ "s # ss"] exI [of _ tail]) simp
  qed
qed

lemma jpeg_loop_complete:
  "jpeg_run ss k found \<Longrightarrow> drop off (contents h) = concat (map encode_segment ss) @ tail \<Longrightarrow> 2 < length tail \<Longrightarrow>
     jpeg_loop h off k found"
proof (induction ss arbitrary: off k found)
  case Nil
  then show ?case by simp
next
  case (Cons s ss)
  let ?n = "off + length (encode_segment s)"
  have d: "drop off (contents h) = encode_segment s @ concat (map encode_segment ss) @ tail" using Cons.prems by simp
  have rest: "drop ?n (contents h) = concat (map encode_segment ss) @ tail"
    using d by (metis append_eq_conv_conj drop_drop add.commute)
  have n: "?n < file_size h - 2" using arg_cong [OF rest, of length] Cons.prems(3) by simp
  have k: "segment_wf s" "k < JPEG_MAX_HEADER_MARKERS" using Cons.prems(1) by auto
  have off: "off < file_size h - 2" using n by linarith
  show ?case
    using Cons.prems(1) Cons.IH [OF _ rest Cons.prems(3)] n
    unfolding jpeg_loop_segment [OF d k(1) off k(2) refl] by (auto split: if_splits)
qed

definition jpeg_header_ok :: "nat \<Rightarrow> bool \<Rightarrow> jpeg_segment list \<Rightarrow> jpeg_segment \<Rightarrow> bool" where
  "jpeg_header_ok k found segs sos \<longleftrightarrow> list_all table_segment segs \<and> segment_wf sos \<and> marker sos = JPEG_SOS \<and>
     scan_header_ok sos \<and> (found \<or> list_ex (isStartOfFrameMarker \<circ> marker) segs) \<and>
     k + length segs < JPEG_MAX_HEADER_MARKERS"

lemma jpeg_header_ok_Cons:
  "jpeg_header_ok k found (s # segs) sos \<longleftrightarrow>
     table_segment s \<and> jpeg_header_ok (k + 1) (found \<or> isStartOfFrameMarker (marker s)) segs sos"
  by (auto simp: jpeg_header_ok_def)

lemma jpeg_header_ok_bound: "jpeg_header_ok k found segs sos \<Longrightarrow> k < JPEG_MAX_HEADER_MARKERS"
  by (simp add: jpeg_header_ok_def)

lemma jpeg_run_iff: "jpeg_run ss k found \<longleftrightarrow> (\<exists>segs sos. ss = segs @ [sos] \<and> jpeg_header_ok k found segs sos)"
proof (induction ss arbitrary: k found)
  case Nil
  show ?case by simp
next
  case (Cons s ss)
  show ?case
  proof (cases "marker s = JPEG_SOS")
    case True
    then have t: "\<not> table_segment s" by (simp add: table_segment_def)
    have "jpeg_run (s # ss) k found \<longleftrightarrow> ss = [] \<and> jpeg_header_ok k found [] s"
      using True by (auto simp: jpeg_header_ok_def)
    also have "\<dots> \<longleftrightarrow> (\<exists>segs sos. s # ss = segs @ [sos] \<and> jpeg_header_ok k found segs sos)"
      using t by (auto simp: Cons_eq_append_conv jpeg_header_ok_Cons)
    finally show ?thesis .
  next
    case False
    then have n: "\<not> jpeg_header_ok k found [] s" by (simp add: jpeg_header_ok_def)
    have "jpeg_run (s # ss) k found \<longleftrightarrow> table_segment s \<and> k < JPEG_MAX_HEADER_MARKERS \<and>
        jpeg_run ss (k + 1) (found \<or> isStartOfFrameMarker (marker s))"
      using False by (auto simp: table_segment_def)
    also have "\<dots> \<longleftrightarrow> (\<exists>segs sos. s # ss = segs @ [sos] \<and> jpeg_header_ok k found segs sos)"
      unfolding Cons.IH using n
      by (auto simp: Cons_eq_append_conv jpeg_header_ok_Cons dest: jpeg_header_ok_bound)
    finally show ?thesis .
  qed
qed

section \<open>Properties\<close>

lemma length_JPEG_ends [simp]: "length JPEG_SOI = 2" "length JPEG_EOI = 2"
  by (simp_all add: JPEG_SOI_def JPEG_EOI_def)

lemma jpeg_ends:
  "2 \<le> file_size h \<Longrightarrow> readExactly h 2 (file_size h - 2) = Some JPEG_EOI \<longleftrightarrow> (\<exists>b. contents h = b @ JPEG_EOI)"
  by (auto simp: readExactly_eq subarray_def) (metis append_take_drop_id)

text \<open>
  C40. \<open>matchesJpegStructure\<close>: it accepts exactly the regular files of at least 12 bytes that
  are the start marker, fewer than 1024 header segments each of the declared length among
  which there is a valid frame header, a valid scan header, at least one byte of scan data and the end marker.
\<close>

theorem matchesJpegStructure_iff:
  "matchesJpegStructure h \<longleftrightarrow>
     is_file h \<and> 12 \<le> file_size h \<and>
     (\<exists>segs sos scan.
        contents h = JPEG_SOI @ concat (map encode_segment segs) @ encode_segment sos @ scan @ JPEG_EOI \<and> scan \<noteq> [] \<and>
        list_all table_segment segs \<and> list_ex (isStartOfFrameMarker \<circ> marker) segs \<and>
        segment_wf sos \<and> marker sos = JPEG_SOS \<and> scan_header_ok sos \<and> length segs < JPEG_MAX_HEADER_MARKERS)"
  (is "_ \<longleftrightarrow> _ \<and> _ \<and> ?R")
proof (cases "is_file h \<and> 12 \<le> file_size h")
  case False
  then show ?thesis by (auto simp: matchesJpegStructure_def)
next
  case True
  have loop: "jpeg_loop h 2 0 False \<longleftrightarrow> (\<exists>segs sos tail. drop 2 (contents h) = concat (map encode_segment segs) @ encode_segment sos @ tail \<and>
      2 < length tail \<and> list_all table_segment segs \<and> list_ex (isStartOfFrameMarker \<circ> marker) segs \<and>
      segment_wf sos \<and> marker sos = JPEG_SOS \<and> scan_header_ok sos \<and> length segs < JPEG_MAX_HEADER_MARKERS)"
    (is "_ \<longleftrightarrow> ?S")
  proof
    assume "jpeg_loop h 2 0 False"
    from jpeg_loop_sound [OF this] show ?S unfolding jpeg_run_iff jpeg_header_ok_def by fastforce
  next
    assume ?S
    then obtain segs sos tail where "jpeg_run (segs @ [sos]) 0 False"
      "drop 2 (contents h) = concat (map encode_segment (segs @ [sos])) @ tail" "2 < length tail"
      unfolding jpeg_run_iff jpeg_header_ok_def by auto
    then show "jpeg_loop h 2 0 False" by (rule jpeg_loop_complete)
  qed
  have m: "matchesJpegStructure h \<longleftrightarrow> take 2 (contents h) = JPEG_SOI \<and> (\<exists>b. contents h = b @ JPEG_EOI) \<and> ?S"
    using True jpeg_ends [of h] loop by (auto simp: matchesJpegStructure_def readExactly_eq subarray_def)
  have "?R \<longleftrightarrow> take 2 (contents h) = JPEG_SOI \<and> (\<exists>b. contents h = b @ JPEG_EOI) \<and> ?S"
  proof
    assume ?R
    then show "take 2 (contents h) = JPEG_SOI \<and> (\<exists>b. contents h = b @ JPEG_EOI) \<and> ?S"
      by (elim exE conjE) (intro conjI exI, auto)
  next
    assume L: "take 2 (contents h) = JPEG_SOI \<and> (\<exists>b. contents h = b @ JPEG_EOI) \<and> ?S"
    then obtain b segs sos tail where p: "take 2 (contents h) = JPEG_SOI" "contents h = b @ JPEG_EOI"
      "drop 2 (contents h) = concat (map encode_segment segs) @ encode_segment sos @ tail" "2 < length tail"
      "list_all table_segment segs" "list_ex (isStartOfFrameMarker \<circ> marker) segs"
      "segment_wf sos" "marker sos = JPEG_SOS" "scan_header_ok sos" "length segs < JPEG_MAX_HEADER_MARKERS"
      by blast
    have whole: "contents h = (JPEG_SOI @ concat (map encode_segment segs) @ encode_segment sos) @ tail"
      using p(1,3) by (metis append_take_drop_id append.assoc)
    let ?scan = "take (length tail - 2) tail"
    have "drop (length (contents h) - 2) (contents h) = JPEG_EOI" using p(2) by simp
    then have "drop (length tail - 2) tail = JPEG_EOI" using whole p(4) by simp
    then have "tail = ?scan @ JPEG_EOI" by (metis append_take_drop_id)
    moreover have "?scan \<noteq> []" using p(4) by auto
    ultimately obtain scan where "tail = scan @ JPEG_EOI" "scan \<noteq> []" by blast
    with whole p(5-10) show ?R by (intro exI [of _ segs] exI [of _ sos] exI [of _ scan]) simp
  qed
  with m True show ?thesis by blast
qed

end
