(* ===== verification/Media_Opus.thy ===== *)
theory Media_Opus
  imports Prelude
begin

text \<open>
  src/src/media/media-ogg-opus-profile.ts: the framing of an Opus packet (\<open>matchesOpusPacketFraming\<close>) and the comment
  header (\<open>matchesOpusTags\<close>). The framing is proved to be the grammar of RFC 6716, section 3: a packet is accepted exactly
  when it is the encoding of a list of frames of at most 1275 bytes in one of the four packings.
\<close>

section \<open>The checks\<close>

definition MAX_TAG_BYTES :: nat where
  "MAX_TAG_BYTES = 64 * 1024"

definition MAX_AUDIO_PACKET_BYTES :: nat where
  "MAX_AUDIO_PACKET_BYTES = 61440"

definition MAX_FRAME_BYTES :: nat where
  "MAX_FRAME_BYTES = 1275"

definition OPUS_TAGS :: buffer where
  "OPUS_TAGS = [0x4f, 0x70, 0x75, 0x73, 0x54, 0x61, 0x67, 0x73]"

text \<open>The loop over the comments, from \<open>offset\<close> on.\<close>

fun opus_comments :: "buffer \<Rightarrow> nat \<Rightarrow> nat \<Rightarrow> bool" where
  "opus_comments packet offset 0 = True"
| "opus_comments packet offset (Suc n) =
     (if offset + 4 > length packet then False
      else let len = le_nat (subarray packet offset 4)
           in if len > length packet - (offset + 4) then False else opus_comments packet (offset + 4 + len) n)"

definition matchesOpusTags :: "buffer \<Rightarrow> bool" where
  "matchesOpusTags packet =
     (if length packet < 16 \<or> subarray packet 0 8 \<noteq> OPUS_TAGS then False
      else let vendorLength = le_nat (subarray packet 8 4)
           in if vendorLength > length packet - 16 then False
              else let count = le_nat (subarray packet (12 + vendorLength) 4); offset = 12 + vendorLength + 4
                   in if count > (length packet - offset) div 4 then False else opus_comments packet offset count)"

definition samplesPerFrame :: "byte \<Rightarrow> nat" where
  "samplesPerFrame toc =
     (let config = unat (drop_bit 3 toc)
      in if config \<ge> 16 then 120 * 2 ^ (config mod 4)
         else if config \<ge> 12 then 480 * 2 ^ (config mod 2)
         else if config mod 4 = 3 then 2880 else 480 * 2 ^ (config mod 4))"

text \<open>The \<open>do\<close> loop over the padding lengths: the offset behind them, and the end of the frames; \<open>None\<close> is \<open>return false\<close>.\<close>

function opus_padding :: "buffer \<Rightarrow> nat \<Rightarrow> nat \<Rightarrow> (nat \<times> nat) option" where
  "opus_padding packet offset stop =
     (if offset \<ge> stop \<or> offset \<ge> length packet then None
      else let paddingByte = unat (packet ! offset); pad = (if paddingByte = 255 then 254 else paddingByte)
           in if offset + 1 + pad > stop then None
              else if paddingByte = 255 then opus_padding packet (offset + 1) (stop - pad) else Some (offset + 1, stop - pad))"
  by pat_completeness auto
termination by (relation "measure (\<lambda>(packet, offset, stop). length packet - offset)") auto

declare opus_padding.simps [simp del]

text \<open>The loop over the declared frame lengths: the offset behind them and their sum.\<close>

fun opus_lengths :: "buffer \<Rightarrow> nat \<Rightarrow> nat \<Rightarrow> nat \<Rightarrow> nat \<Rightarrow> (nat \<times> nat) option" where
  "opus_lengths packet stop offset declaredBytes 0 = Some (offset, declaredBytes)"
| "opus_lengths packet stop offset declaredBytes (Suc n) =
     (if offset \<ge> stop then None
      else let first = unat (packet ! offset)
           in if first \<ge> 252
              then if offset + 1 \<ge> stop then None
                   else let len = first + 4 * unat (packet ! (offset + 1)); declared = declaredBytes + len
                        in if declared > stop - (offset + 2) then None else opus_lengths packet stop (offset + 2) declared n
              else let declared = declaredBytes + first
                   in if declared > stop - (offset + 1) then None else opus_lengths packet stop (offset + 1) declared n)"

definition opus_last_frame :: "(nat \<times> nat) option \<Rightarrow> nat \<Rightarrow> bool" where
  "opus_last_frame r stop =
     (case r of None \<Rightarrow> False | Some (offset, declaredBytes) \<Rightarrow> stop - offset - declaredBytes \<le> MAX_FRAME_BYTES)"

definition matchesOpusPacketFraming :: "buffer \<Rightarrow> bool" where
  "matchesOpusPacketFraming packet =
     (if packet = [] \<or> length packet > MAX_AUDIO_PACKET_BYTES then False
      else let toc = packet ! 0; code = unat (toc AND 3)
      in if code = 0 then length packet - 1 \<le> MAX_FRAME_BYTES
         else if code = 1 then (length packet - 1) mod 2 = 0 \<and> (length packet - 1) div 2 \<le> MAX_FRAME_BYTES
         else if code = 2 then opus_last_frame (opus_lengths packet (length packet) 1 0 1) (length packet)
         else if length packet \<le> 1 then False
         else let control = packet ! 1; frames = unat (control AND 0x3f)
              in if frames = 0 \<or> samplesPerFrame toc * frames > 5760 then False
                 else case (if control AND 0x40 \<noteq> 0 then opus_padding packet 2 (length packet) else Some (2, length packet)) of
                        None \<Rightarrow> False
                      | Some (offset, stop) \<Rightarrow>
                          if control AND 0x80 = 0 then (stop - offset) mod frames = 0 \<and> (stop - offset) div frames \<le> MAX_FRAME_BYTES
                          else opus_last_frame (opus_lengths packet stop offset 0 (frames - 1)) stop)"

section \<open>The grammar of RFC 6716\<close>

text \<open>A frame length in one or two bytes, and the padding length of 254 for each byte 255 and the value of the last byte.\<close>

definition length_code :: "nat \<Rightarrow> buffer" where
  "length_code n = (if n < 252 then [word_of_nat n] else [word_of_nat (252 + n mod 4), word_of_nat ((n - (252 + n mod 4)) div 4)])"

definition padding_code :: "nat \<Rightarrow> nat \<Rightarrow> buffer" where
  "padding_code full rest = replicate full 255 @ [word_of_nat rest]"

text \<open>The bytes behind the TOC byte, of a packing with its frames and its padding.\<close>

datatype packing =
    One buffer
  | Two_equal buffer buffer
  | Two buffer buffer
  | Constant byte "buffer list" "(nat \<times> nat \<times> buffer) option"
  | Variable byte "buffer list" buffer "(nat \<times> nat \<times> buffer) option"

fun padding_bytes :: "(nat \<times> nat \<times> buffer) option \<Rightarrow> buffer" where
  "padding_bytes None = []"
| "padding_bytes (Some (full, rest, p)) = padding_code full rest"

fun padding_tail :: "(nat \<times> nat \<times> buffer) option \<Rightarrow> buffer" where
  "padding_tail None = []"
| "padding_tail (Some (full, rest, p)) = p"

fun padding_ok :: "(nat \<times> nat \<times> buffer) option \<Rightarrow> bool" where
  "padding_ok None = True"
| "padding_ok (Some (full, rest, p)) = (rest < 255 \<and> length p = 254 * full + rest)"

fun encode_packing :: "packing \<Rightarrow> buffer" where
  "encode_packing (One f) = f"
| "encode_packing (Two_equal f g) = f @ g"
| "encode_packing (Two f g) = length_code (length f) @ f @ g"
| "encode_packing (Constant control fs pad) = control # padding_bytes pad @ concat fs @ padding_tail pad"
| "encode_packing (Variable control fs l pad) = control # padding_bytes pad @ concat (map (length_code \<circ> length) fs) @ concat fs @ l @ padding_tail pad"

fun packing_ok :: "byte \<Rightarrow> packing \<Rightarrow> bool" where
  "packing_ok toc (One f) = (toc AND 3 = 0 \<and> length f \<le> MAX_FRAME_BYTES)"
| "packing_ok toc (Two_equal f g) = (toc AND 3 = 1 \<and> length f = length g \<and> length f \<le> MAX_FRAME_BYTES)"
| "packing_ok toc (Two f g) = (toc AND 3 = 2 \<and> length f \<le> MAX_FRAME_BYTES \<and> length g \<le> MAX_FRAME_BYTES)"
| "packing_ok toc (Constant control fs pad) =
     (toc AND 3 = 3 \<and> control AND 0x80 = 0 \<and> (control AND 0x40 \<noteq> 0) = (pad \<noteq> None) \<and> padding_ok pad \<and>
      unat (control AND 0x3f) = length fs \<and> fs \<noteq> [] \<and> samplesPerFrame toc * length fs \<le> 5760 \<and>
      (\<exists>n \<le> MAX_FRAME_BYTES. \<forall>f \<in> set fs. length f = n))"
| "packing_ok toc (Variable control fs l pad) =
     (toc AND 3 = 3 \<and> control AND 0x80 \<noteq> 0 \<and> (control AND 0x40 \<noteq> 0) = (pad \<noteq> None) \<and> padding_ok pad \<and>
      unat (control AND 0x3f) = Suc (length fs) \<and> samplesPerFrame toc * Suc (length fs) \<le> 5760 \<and>
      (\<forall>f \<in> set fs. length f \<le> MAX_FRAME_BYTES) \<and> length l \<le> MAX_FRAME_BYTES)"

definition opus_packet :: "buffer \<Rightarrow> bool" where
  "opus_packet packet \<longleftrightarrow> (\<exists>toc p. packet = toc # encode_packing p \<and> packing_ok toc p)"

section \<open>The checks accept the grammar\<close>

lemma unat_word_small: "n < 256 \<Longrightarrow> unat (word_of_nat n :: byte) = n"
  by (simp add: unsigned_of_nat take_bit_nat_eq_self)

lemma length_code_two:
  assumes "252 \<le> n" and "n \<le> 1275"
  obtains b c where "length_code n = [b, c]" and "unat b = 252 + n mod 4" and "unat b + 4 * unat c = n"
proof
  show "length_code n = [word_of_nat (252 + n mod 4), word_of_nat ((n - (252 + n mod 4)) div 4)]" using assms by (simp add: length_code_def)
  have q: "n = 4 * (n div 4) + n mod 4" by simp
  have b: "unat (word_of_nat (252 + n mod 4) :: byte) = 252 + n mod 4" by (rule unat_word_small) simp
  have "n - (252 + n mod 4) = 4 * (n div 4) - 4 * 63" using q by linarith
  then have e: "(n - (252 + n mod 4)) div 4 = n div 4 - 63" unfolding diff_mult_distrib2 [symmetric] by simp
  have c: "unat (word_of_nat ((n - (252 + n mod 4)) div 4) :: byte) = n div 4 - 63" unfolding e using assms(2) by (intro unat_word_small) linarith
  show "unat (word_of_nat (252 + n mod 4) :: byte) = 252 + n mod 4" by (rule b)
  show "unat (word_of_nat (252 + n mod 4) :: byte) + 4 * unat (word_of_nat ((n - (252 + n mod 4)) div 4) :: byte) = n"
    unfolding b c using assms(1) q by linarith
qed

lemma length_code_bytes:
  "unat b < 252 \<Longrightarrow> length_code (unat b) = [b]"
  "252 \<le> unat b \<Longrightarrow> length_code (unat b + 4 * unat c) = [b, c]"
proof -
  show "unat b < 252 \<Longrightarrow> length_code (unat b) = [b]" by (simp add: length_code_def)
  assume b: "252 \<le> unat b"
  have "unat b < 256" by simp
  with b have "unat b = 252 \<or> unat b = 253 \<or> unat b = 254 \<or> unat b = 255" by linarith
  then have m: "252 + (unat b + 4 * unat c) mod 4 = unat b" by (elim disjE) simp_all
  show "length_code (unat b + 4 * unat c) = [b, c]" unfolding length_code_def m using b by simp
qed

lemma nth_subarray_hd: "off < stop \<Longrightarrow> stop \<le> length b \<Longrightarrow> subarray b off (stop - off) = b ! off # subarray b (Suc off) (stop - Suc off)"
  by (simp add: subarray_def Cons_nth_drop_Suc [symmetric] take_Cons' Suc_diff_Suc)

text \<open>Both loops, on the bytes between the offset and the end.\<close>

lemma opus_lengths_sound:
  assumes "opus_lengths packet stop off d n = Some (off', d')" and "stop \<le> length packet" and "off \<le> stop" and "d \<le> stop - off"
  shows "\<exists>ns. length ns = n \<and> (\<forall>m \<in> set ns. m \<le> 1275) \<and> d' = d + sum_list ns \<and> off' \<le> stop \<and> d' \<le> stop - off' \<and>
     subarray packet off (stop - off) = concat (map length_code ns) @ subarray packet off' (stop - off')"
  using assms
proof (induction n arbitrary: off d)
  case (Suc n)
  then have o: "off < stop" by (auto split: if_split_asm)
  note hd = nth_subarray_hd [OF o Suc.prems(2)]
  let ?b = "packet ! off"
  show ?case
  proof (cases "unat ?b \<ge> 252")
    case True
    with Suc.prems(1) o have o1: "off + 1 < stop" and le: "d + (unat ?b + 4 * unat (packet ! (off + 1))) \<le> stop - (off + 2)" and
      r: "opus_lengths packet stop (off + 2) (d + (unat ?b + 4 * unat (packet ! (off + 1)))) n = Some (off', d')"
      by (auto simp: Let_def split: if_split_asm)
    from Suc.IH [OF r Suc.prems(2) _ le] o1 obtain ns where ns: "length ns = n" "\<forall>m \<in> set ns. m \<le> 1275" "d' = d + (unat ?b + 4 * unat (packet ! (off + 1))) + sum_list ns"
      "off' \<le> stop" "d' \<le> stop - off'" "subarray packet (off + 2) (stop - (off + 2)) = concat (map length_code ns) @ subarray packet off' (stop - off')" by auto
    have "unat ?b < 256" "unat (packet ! (off + 1)) < 256" by simp_all
    then have "unat ?b + 4 * unat (packet ! (off + 1)) \<le> 1275" by linarith
    moreover have "subarray packet off (stop - off) = length_code (unat ?b + 4 * unat (packet ! (off + 1))) @ subarray packet (off + 2) (stop - (off + 2))"
      using hd nth_subarray_hd [of "Suc off" stop packet] o1 Suc.prems(2) length_code_bytes(2) [OF True] by simp
    ultimately show ?thesis using ns by (intro exI [of _ "(unat ?b + 4 * unat (packet ! (off + 1))) # ns"]) simp
  next
    case False
    with Suc.prems(1) o have le: "d + unat ?b \<le> stop - (off + 1)" and
      r: "opus_lengths packet stop (off + 1) (d + unat ?b) n = Some (off', d')" by (auto simp: Let_def split: if_split_asm)
    from Suc.IH [OF r Suc.prems(2) _ le] o obtain ns where ns: "length ns = n" "\<forall>m \<in> set ns. m \<le> 1275" "d' = d + unat ?b + sum_list ns"
      "off' \<le> stop" "d' \<le> stop - off'" "subarray packet (off + 1) (stop - (off + 1)) = concat (map length_code ns) @ subarray packet off' (stop - off')" by auto
    then show ?thesis using hd False length_code_bytes(1) [of ?b] by (intro exI [of _ "unat ?b # ns"]) simp
  qed
qed (intro exI [of _ "[]"], simp)

lemma length_length_code: "length (length_code n) = (if n < 252 then 1 else 2)"
  by (simp add: length_code_def)

lemma opus_lengths_complete:
  assumes "packet = pre @ concat (map length_code ns) @ body @ tail" and "\<forall>m \<in> set ns. m \<le> 1275" and "d + sum_list ns \<le> length body"
    and "stop = length pre + length (concat (map length_code ns)) + length body"
  shows "opus_lengths packet stop (length pre) d (length ns) = Some (length pre + length (concat (map length_code ns)), d + sum_list ns)"
  using assms
proof (induction ns arbitrary: pre d)
  case (Cons m ns)
  have IH: "opus_lengths packet stop (length pre + length (length_code m)) (d + m) (length ns) =
      Some (length pre + length (concat (map length_code (m # ns))), d + sum_list (m # ns))"
    using Cons.IH [of "pre @ length_code m" "d + m"] Cons.prems by (simp add: algebra_simps)
  have le: "d + m \<le> stop - (length pre + length (length_code m))" using Cons.prems(3,4) by simp
  show ?case
  proof (cases "m < 252")
    case True
    then have "packet ! length pre = word_of_nat m" using Cons.prems(1) by (simp add: length_code_def)
    then have b: "unat (packet ! length pre) = m" using True by (simp add: unat_word_small)
    show ?thesis using True b IH le Cons.prems(4) by (simp add: length_length_code Let_def)
  next
    case False
    then obtain b c where bc: "length_code m = [b, c]" "unat b = 252 + m mod 4" "unat b + 4 * unat c = m"
      using length_code_two [of m] Cons.prems(2) by auto
    have "packet ! length pre = b" "packet ! Suc (length pre) = c" using Cons.prems(1) bc(1) by (simp_all add: nth_append)
    then show ?thesis using False bc IH le Cons.prems(4) by (simp add: Let_def)
  qed
qed simp

lemma opus_padding_sound:
  assumes "opus_padding packet off stop = Some (off', stop')" and "stop \<le> length packet"
  shows "\<exists>full rest. rest < 255 \<and> off' \<le> stop' \<and> stop = stop' + (254 * full + rest) \<and>
     subarray packet off (stop' - off) = padding_code full rest @ subarray packet off' (stop' - off')"
  using assms
proof (induction packet off stop rule: opus_padding.induct)
  case (1 packet off stop)
  let ?b = "packet ! off"
  have o: "off < stop" using 1(2) by (subst (asm) opus_padding.simps) (auto split: if_split_asm)
  show ?case
  proof (cases "unat ?b = 255")
    case True
    have r: "opus_padding packet (off + 1) (stop - 254) = Some (off', stop')" and l: "off + 255 \<le> stop"
      using 1(2,3) o True by (subst (asm) opus_padding.simps, simp add: Let_def split: if_split_asm)+
    have "\<exists>full rest. rest < 255 \<and> off' \<le> stop' \<and> stop - 254 = stop' + (254 * full + rest) \<and>
        subarray packet (off + 1) (stop' - (off + 1)) = padding_code full rest @ subarray packet off' (stop' - off')"
      using 1(1) [OF _ refl refl] r l o True 1(3) by simp
    then obtain full rest where f: "rest < 255" "off' \<le> stop'" "stop - 254 = stop' + (254 * full + rest)"
      "subarray packet (off + 1) (stop' - (off + 1)) = padding_code full rest @ subarray packet off' (stop' - off')" by blast
    have "?b = 255" using True by (simp add: word_unat_eq_iff)
    moreover have "off < stop'"
    proof (rule ccontr)
      assume "\<not> off < stop'"
      then have "padding_code full rest = []" using f(4) by simp
      then show False by (simp add: padding_code_def)
    qed
    moreover have "stop' \<le> length packet" using f(3) 1(3) by linarith
    ultimately have "subarray packet off (stop' - off) = padding_code (Suc full) rest @ subarray packet off' (stop' - off')"
      using nth_subarray_hd [of off stop' packet] f(4) by (simp add: padding_code_def)
    then show ?thesis using f l by (intro exI [of _ "Suc full"] exI [of _ rest]) simp
  next
    case False
    then have v: "off' = off + 1" "stop' = stop - unat ?b" and l: "off + 1 + unat ?b \<le> stop"
      using 1(2,3) o by (subst (asm) opus_padding.simps, simp add: Let_def split: if_split_asm)+
    have "unat ?b < 256" by simp
    then have "unat ?b < 255" using False by linarith
    moreover have "subarray packet off (stop' - off) = padding_code 0 (unat ?b) @ subarray packet off' (stop' - off')"
      using nth_subarray_hd [of off stop' packet] v l 1(3) by (simp add: padding_code_def)
    ultimately show ?thesis using v l by (intro exI [of _ 0] exI [of _ "unat ?b"]) simp
  qed
qed

lemma opus_padding_complete:
  assumes "packet = pre @ padding_code full rest @ tail" and "rest < 255" and "stop \<le> length packet"
    and "length pre + full + 1 + (254 * full + rest) \<le> stop"
  shows "opus_padding packet (length pre) stop = Some (length pre + full + 1, stop - (254 * full + rest))"
  using assms
proof (induction full arbitrary: pre stop)
  case 0
  then have "unat (packet ! length pre) = rest" by (simp add: padding_code_def unat_word_small)
  then show ?case using 0 by (subst opus_padding.simps) (auto simp: Let_def padding_code_def)
next
  case (Suc full)
  have "packet ! length pre = 255" using Suc.prems(1) by (simp add: padding_code_def)
  then have b: "unat (packet ! length pre) = 255" by simp
  have "opus_padding packet (length (pre @ [255])) (stop - 254) = Some (length (pre @ [255]) + full + 1, stop - 254 - (254 * full + rest))"
    using Suc.prems by (intro Suc.IH) (simp_all add: padding_code_def)
  moreover have "length pre < length packet" using Suc.prems(3,4) by linarith
  moreover have "stop - 254 - (254 * full + rest) = stop - (254 * Suc full + rest)" by simp
  ultimately show ?case using Suc.prems(4) b by (subst opus_padding.simps) (simp add: Let_def)
qed

lemma cut_frames: "sum_list ns \<le> length b \<Longrightarrow> \<exists>fs. map length fs = ns \<and> b = concat fs @ drop (sum_list ns) b"
proof (induction ns arbitrary: b)
  case (Cons n ns)
  have "sum_list ns \<le> length (drop n b)" using Cons.prems by simp
  from Cons.IH [OF this] obtain fs where "map length fs = ns" "drop n b = concat fs @ drop (sum_list ns) (drop n b)" by blast
  then have "map length (take n b # fs) = n # ns" "b = concat (take n b # fs) @ drop (sum_list (n # ns)) b"
    using Cons.prems by (auto simp: add.commute) (metis append_take_drop_id)
  then show ?case by (intro exI [of _ "take n b # fs"] conjI)
qed simp

lemma vbr_iff:
  assumes "packet = pre @ mid @ tail" and "off = length pre" and "stop = off + length mid"
  shows "opus_last_frame (opus_lengths packet stop off 0 n) stop \<longleftrightarrow>
     (\<exists>fs l. mid = concat (map (length_code \<circ> length) fs) @ concat fs @ l \<and> length fs = n \<and>
        (\<forall>f \<in> set fs. length f \<le> MAX_FRAME_BYTES) \<and> length l \<le> MAX_FRAME_BYTES)"
proof
  assume a: "opus_last_frame (opus_lengths packet stop off 0 n) stop"
  then obtain off' d where r: "opus_lengths packet stop off 0 n = Some (off', d)" and l: "stop - off' - d \<le> MAX_FRAME_BYTES"
    by (auto simp: opus_last_frame_def split: option.split_asm)
  have st: "stop \<le> length packet" "off \<le> stop" using assms by simp_all
  from opus_lengths_sound [OF r st] obtain ns where ns: "length ns = n" "\<forall>m \<in> set ns. m \<le> 1275" "d = sum_list ns" "off' \<le> stop" "d \<le> stop - off'"
    "subarray packet off (stop - off) = concat (map length_code ns) @ subarray packet off' (stop - off')" by auto
  have mid: "mid = concat (map length_code ns) @ subarray packet off' (stop - off')" using ns(6) assms by (simp add: subarray_def)
  have len: "length (subarray packet off' (stop - off')) = stop - off'" using st by simp
  have "sum_list ns \<le> length (subarray packet off' (stop - off'))" unfolding len using ns(3,5) by simp
  from cut_frames [OF this] obtain fs where fs: "map length fs = ns"
    "subarray packet off' (stop - off') = concat fs @ drop (sum_list ns) (subarray packet off' (stop - off'))" by blast
  let ?l = "drop (sum_list ns) (subarray packet off' (stop - off'))"
  have "mid = concat (map (length_code \<circ> length) fs) @ concat fs @ ?l" using mid fs by (metis map_map)
  moreover have "length fs = n" using fs(1) ns(1) by auto
  moreover have "\<forall>f \<in> set fs. length f \<le> MAX_FRAME_BYTES" using ns(2) fs(1) by (auto simp: MAX_FRAME_BYTES_def)
  moreover have "length ?l \<le> MAX_FRAME_BYTES" using l ns(3) len by simp
  ultimately show "\<exists>fs l. mid = concat (map (length_code \<circ> length) fs) @ concat fs @ l \<and> length fs = n \<and>
        (\<forall>f \<in> set fs. length f \<le> MAX_FRAME_BYTES) \<and> length l \<le> MAX_FRAME_BYTES" by blast
next
  assume "\<exists>fs l. mid = concat (map (length_code \<circ> length) fs) @ concat fs @ l \<and> length fs = n \<and>
        (\<forall>f \<in> set fs. length f \<le> MAX_FRAME_BYTES) \<and> length l \<le> MAX_FRAME_BYTES"
  then obtain fs l where m: "mid = concat (map length_code (map length fs)) @ concat fs @ l" "length fs = n"
    "\<forall>f \<in> set fs. length f \<le> MAX_FRAME_BYTES" "length l \<le> MAX_FRAME_BYTES" by auto
  have "opus_lengths packet stop (length pre) 0 (length (map length fs)) =
      Some (length pre + length (concat (map length_code (map length fs))), 0 + sum_list (map length fs))"
    using assms m by (intro opus_lengths_complete [where body = "concat fs @ l" and tail = tail]) (auto simp: MAX_FRAME_BYTES_def length_concat)
  then have "opus_lengths packet stop off 0 n = Some (off + length (concat (map length_code (map length fs))), sum_list (map length fs))"
    using m(2) assms(2) by simp
  then show "opus_last_frame (opus_lengths packet stop off 0 n) stop"
    unfolding opus_last_frame_def using assms(2,3) m(1,4) by (simp add: length_concat)
qed

lemma cbr_iff:
  assumes "0 < n"
  shows "length mid mod n = 0 \<and> length mid div n \<le> MAX_FRAME_BYTES \<longleftrightarrow>
     (\<exists>fs. mid = concat fs \<and> length fs = n \<and> (\<exists>m \<le> MAX_FRAME_BYTES. \<forall>f \<in> set fs. length f = m))"
proof
  assume a: "length mid mod n = 0 \<and> length mid div n \<le> MAX_FRAME_BYTES"
  let ?m = "length mid div n"
  have s: "sum_list (replicate n ?m) = length mid" using a by (auto simp: sum_list_replicate dest: dvd_imp_mod_0)
  from cut_frames [of "replicate n ?m" mid] s obtain fs where fs: "map length fs = replicate n ?m" "mid = concat fs" by auto
  have "length fs = n" using arg_cong [OF fs(1), of length] by simp
  moreover have "\<forall>f \<in> set fs. length f = ?m" using arg_cong [OF fs(1), of set] assms by auto
  ultimately show "\<exists>fs. mid = concat fs \<and> length fs = n \<and> (\<exists>m \<le> MAX_FRAME_BYTES. \<forall>f \<in> set fs. length f = m)" using a fs(2) by blast
next
  assume "\<exists>fs. mid = concat fs \<and> length fs = n \<and> (\<exists>m \<le> MAX_FRAME_BYTES. \<forall>f \<in> set fs. length f = m)"
  then obtain fs m where f: "mid = concat fs" "length fs = n" "m \<le> MAX_FRAME_BYTES" "\<forall>f \<in> set fs. length f = m" by blast
  then have "map length fs = map (\<lambda>_. m) fs" by simp
  then have "map length fs = replicate n m" using f(2) by (simp only: map_replicate_const)
  then have "length mid = n * m" using f(1) by (simp add: length_concat sum_list_replicate)
  then show "length mid mod n = 0 \<and> length mid div n \<le> MAX_FRAME_BYTES" using assms f(3) by simp
qed

text \<open>The padding of the third packing, of a packet \<open>toc # control # r\<close>.\<close>

lemma padding_iff:
  assumes "packet = toc # control # r"
  shows "(if control AND 0x40 \<noteq> 0 then opus_padding packet 2 (length packet) else Some (2, length packet)) = Some (off, stop) \<longleftrightarrow>
     (\<exists>pad mid. (control AND 0x40 \<noteq> 0) = (pad \<noteq> None) \<and> padding_ok pad \<and> r = padding_bytes pad @ mid @ padding_tail pad \<and>
        off = 2 + length (padding_bytes pad) \<and> stop = off + length mid)"
proof (cases "control AND 0x40 = 0")
  case True
  show ?thesis
  proof
    assume "(if control AND 0x40 \<noteq> 0 then opus_padding packet 2 (length packet) else Some (2, length packet)) = Some (off, stop)"
    then show "\<exists>pad mid. (control AND 0x40 \<noteq> 0) = (pad \<noteq> None) \<and> padding_ok pad \<and> r = padding_bytes pad @ mid @ padding_tail pad \<and>
        off = 2 + length (padding_bytes pad) \<and> stop = off + length mid"
      using True assms by (intro exI [of _ None] exI [of _ r]) simp
  next
    assume "\<exists>pad mid. (control AND 0x40 \<noteq> 0) = (pad \<noteq> None) \<and> padding_ok pad \<and> r = padding_bytes pad @ mid @ padding_tail pad \<and>
        off = 2 + length (padding_bytes pad) \<and> stop = off + length mid"
    then obtain pad mid where m: "pad = None" "r = padding_bytes pad @ mid @ padding_tail pad" "off = 2 + length (padding_bytes pad)" "stop = off + length mid"
      using True by blast
    show "(if control AND 0x40 \<noteq> 0 then opus_padding packet 2 (length packet) else Some (2, length packet)) = Some (off, stop)"
      using True assms m(2-4) unfolding m(1) by simp
  qed
next
  case False
  show ?thesis
  proof
    assume "(if control AND 0x40 \<noteq> 0 then opus_padding packet 2 (length packet) else Some (2, length packet)) = Some (off, stop)"
    then have "opus_padding packet 2 (length packet) = Some (off, stop)" using False by simp
    from opus_padding_sound [OF this order_refl] obtain full rest where f: "rest < 255" "off \<le> stop" "length packet = stop + (254 * full + rest)"
      "subarray packet 2 (stop - 2) = padding_code full rest @ subarray packet off (stop - off)" by blast
    let ?p = "drop stop packet" and ?mid = "subarray packet off (stop - off)"
    have lp: "length ?p = 254 * full + rest" using f(3) by simp
    have l: "stop - 2 = length (padding_code full rest) + (stop - off)" using arg_cong [OF f(4), of length] f(3) by simp
    have c: "length (padding_code full rest) = full + 1" by (simp add: padding_code_def)
    have st: "2 \<le> stop" using l c by linarith
    have "r = subarray packet 2 (stop - 2) @ ?p"
      using st assms append_take_drop_id [of "stop - 2" r] by (simp add: subarray_def numeral_2_eq_2 Suc_diff_Suc drop_Cons' split: nat.split)
    then have "r = padding_bytes (Some (full, rest, ?p)) @ ?mid @ padding_tail (Some (full, rest, ?p))" using f(4) by simp
    moreover have "off = 2 + length (padding_bytes (Some (full, rest, ?p)))" using l c st f(2) by simp
    moreover have "stop = off + length ?mid" using f(2,3) by simp
    ultimately show "\<exists>pad mid. (control AND 0x40 \<noteq> 0) = (pad \<noteq> None) \<and> padding_ok pad \<and> r = padding_bytes pad @ mid @ padding_tail pad \<and>
        off = 2 + length (padding_bytes pad) \<and> stop = off + length mid" using False f(1) lp by (metis option.discI padding_ok.simps(2))
  next
    assume "\<exists>pad mid. (control AND 0x40 \<noteq> 0) = (pad \<noteq> None) \<and> padding_ok pad \<and> r = padding_bytes pad @ mid @ padding_tail pad \<and>
        off = 2 + length (padding_bytes pad) \<and> stop = off + length mid"
    then obtain full rest p mid where m: "rest < 255" "length p = 254 * full + rest" "r = padding_code full rest @ mid @ p"
      "off = 2 + (full + 1)" "stop = off + length mid" using False by (auto simp: padding_code_def)
    have "opus_padding packet (length [toc, control]) (length packet) = Some (length [toc, control] + full + 1, length packet - (254 * full + rest))"
      using assms m by (intro opus_padding_complete [where tail = "mid @ p"]) (simp_all add: padding_code_def)
    then show "(if control AND 0x40 \<noteq> 0 then opus_padding packet 2 (length packet) else Some (2, length packet)) = Some (off, stop)"
      using False assms m by (simp add: padding_code_def numeral_2_eq_2)
  qed
qed

lemma case_pair_iff: "(case m of None \<Rightarrow> False | Some (a, b) \<Rightarrow> Q a b) \<longleftrightarrow> (\<exists>a b. m = Some (a, b) \<and> Q a b)"
  by (cases m) auto

lemma toc_codes: "unat (toc AND 3) = 0 \<longleftrightarrow> toc AND 3 = 0" "unat (toc AND 3) = 1 \<longleftrightarrow> toc AND 3 = 1" "unat (toc AND 3) = 2 \<longleftrightarrow> toc AND 3 = 2"
  "toc AND 3 \<noteq> 0 \<Longrightarrow> toc AND 3 \<noteq> 1 \<Longrightarrow> toc AND 3 \<noteq> 2 \<Longrightarrow> toc AND 3 = 3" for toc :: byte
proof -
  show "unat (toc AND 3) = 0 \<longleftrightarrow> toc AND 3 = 0" "unat (toc AND 3) = 1 \<longleftrightarrow> toc AND 3 = 1" "unat (toc AND 3) = 2 \<longleftrightarrow> toc AND 3 = 2"
    by (simp_all add: word_unat_eq_iff)
  assume "toc AND 3 \<noteq> 0" "toc AND 3 \<noteq> 1" "toc AND 3 \<noteq> 2"
  moreover have "unat (toc AND 3) \<le> 3" using word_and_le1 [of toc 3] by (simp add: word_le_nat_alt)
  ultimately show "toc AND 3 = 3" by (simp add: word_unat_eq_iff)
qed

lemma codes_distinct: "(0 :: byte) \<noteq> 1" "(0 :: byte) \<noteq> 2" "(0 :: byte) \<noteq> 3" "(1 :: byte) \<noteq> 2" "(1 :: byte) \<noteq> 3" "(2 :: byte) \<noteq> 3"
  by simp_all

text \<open>The packings that belong to a code.\<close>

lemma packing_code:
  "toc AND 3 = 0 \<Longrightarrow> (\<exists>p. r = encode_packing p \<and> packing_ok toc p) \<longleftrightarrow> length r \<le> MAX_FRAME_BYTES"
  "toc AND 3 = 1 \<Longrightarrow> (\<exists>p. r = encode_packing p \<and> packing_ok toc p) \<longleftrightarrow> length r mod 2 = 0 \<and> length r div 2 \<le> MAX_FRAME_BYTES"
  "toc AND 3 = 2 \<Longrightarrow> (\<exists>p. r = encode_packing p \<and> packing_ok toc p) \<longleftrightarrow>
     (\<exists>fs l. r = concat (map (length_code \<circ> length) fs) @ concat fs @ l \<and> length fs = 1 \<and> (\<forall>f \<in> set fs. length f \<le> MAX_FRAME_BYTES) \<and> length l \<le> MAX_FRAME_BYTES)"
proof -
  assume c: "toc AND 3 = 0"
  show "(\<exists>p. r = encode_packing p \<and> packing_ok toc p) \<longleftrightarrow> length r \<le> MAX_FRAME_BYTES"
  proof
    assume "\<exists>p. r = encode_packing p \<and> packing_ok toc p"
    then obtain p where "r = encode_packing p" "packing_ok toc p" by blast
    then show "length r \<le> MAX_FRAME_BYTES" using c by (cases p) simp_all
  qed (use c in \<open>auto intro: exI [of _ "One r"]\<close>)
next
  assume c: "toc AND 3 = 1"
  show "(\<exists>p. r = encode_packing p \<and> packing_ok toc p) \<longleftrightarrow> length r mod 2 = 0 \<and> length r div 2 \<le> MAX_FRAME_BYTES"
  proof
    assume "\<exists>p. r = encode_packing p \<and> packing_ok toc p"
    then obtain p where "r = encode_packing p" "packing_ok toc p" by blast
    then show "length r mod 2 = 0 \<and> length r div 2 \<le> MAX_FRAME_BYTES" using c by (cases p) simp_all
  next
    assume a: "length r mod 2 = 0 \<and> length r div 2 \<le> MAX_FRAME_BYTES"
    then have "length r = length r div 2 + length r div 2" by presburger
    then have "length (take (length r div 2) r) = length (drop (length r div 2) r)" unfolding length_take length_drop by linarith
    then show "\<exists>p. r = encode_packing p \<and> packing_ok toc p"
      using c a by (intro exI [of _ "Two_equal (take (length r div 2) r) (drop (length r div 2) r)"]) simp
  qed
next
  assume c: "toc AND 3 = 2"
  show "(\<exists>p. r = encode_packing p \<and> packing_ok toc p) \<longleftrightarrow>
     (\<exists>fs l. r = concat (map (length_code \<circ> length) fs) @ concat fs @ l \<and> length fs = 1 \<and> (\<forall>f \<in> set fs. length f \<le> MAX_FRAME_BYTES) \<and> length l \<le> MAX_FRAME_BYTES)"
  proof
    assume "\<exists>p. r = encode_packing p \<and> packing_ok toc p"
    then obtain p where p: "r = encode_packing p" "packing_ok toc p" by blast
    then obtain f g where "p = Two f g" using c by (cases p) simp_all
    then show "\<exists>fs l. r = concat (map (length_code \<circ> length) fs) @ concat fs @ l \<and> length fs = 1 \<and> (\<forall>f \<in> set fs. length f \<le> MAX_FRAME_BYTES) \<and> length l \<le> MAX_FRAME_BYTES"
      using p by (intro exI [of _ "[f]"] exI [of _ g]) simp
  next
    assume "\<exists>fs l. r = concat (map (length_code \<circ> length) fs) @ concat fs @ l \<and> length fs = 1 \<and> (\<forall>f \<in> set fs. length f \<le> MAX_FRAME_BYTES) \<and> length l \<le> MAX_FRAME_BYTES"
    then obtain f l where "r = length_code (length f) @ f @ l" "length f \<le> MAX_FRAME_BYTES" "length l \<le> MAX_FRAME_BYTES"
      by (auto simp: length_Suc_conv)
    then show "\<exists>p. r = encode_packing p \<and> packing_ok toc p" using c by (intro exI [of _ "Two f l"]) simp
  qed
qed

text \<open>The third code, with the control byte.\<close>

definition control_ok :: "byte \<Rightarrow> byte \<Rightarrow> buffer \<Rightarrow> bool" where
  "control_ok toc control mid \<longleftrightarrow>
     (if control AND 0x80 = 0
      then \<exists>fs. mid = concat fs \<and> length fs = unat (control AND 0x3f) \<and> (\<exists>m \<le> MAX_FRAME_BYTES. \<forall>f \<in> set fs. length f = m)
      else \<exists>fs l. mid = concat (map (length_code \<circ> length) fs) @ concat fs @ l \<and> length fs = unat (control AND 0x3f) - 1 \<and>
        (\<forall>f \<in> set fs. length f \<le> MAX_FRAME_BYTES) \<and> length l \<le> MAX_FRAME_BYTES)"

lemma packing_code3:
  assumes "toc AND 3 = 3"
  shows "(\<exists>p. control # r = encode_packing p \<and> packing_ok toc p) \<longleftrightarrow>
     unat (control AND 0x3f) \<noteq> 0 \<and> samplesPerFrame toc * unat (control AND 0x3f) \<le> 5760 \<and>
     (\<exists>pad mid. (control AND 0x40 \<noteq> 0) = (pad \<noteq> None) \<and> padding_ok pad \<and> r = padding_bytes pad @ mid @ padding_tail pad \<and> control_ok toc control mid)"
    (is "?L \<longleftrightarrow> ?R")
proof
  assume ?L
  then obtain p where p: "control # r = encode_packing p" "packing_ok toc p" by blast
  then consider c fs pad where "p = Constant c fs pad" | c fs l pad where "p = Variable c fs l pad" using assms by (cases p) simp_all
  then show ?R
  proof cases
    case 1
    then have "control_ok toc control (concat fs)" using p by (auto simp: control_ok_def)
    moreover have "unat (control AND 0x3f) \<noteq> 0" using p 1 by auto
    ultimately show ?thesis using p 1 by (intro conjI exI [of _ pad] exI [of _ "concat fs"]) simp_all
  next
    case 2
    then have "control_ok toc control (concat (map (length_code \<circ> length) fs) @ concat fs @ l)" using p by (auto simp: control_ok_def)
    then show ?thesis using p 2 by (intro conjI exI [of _ pad] exI [of _ "concat (map (length_code \<circ> length) fs) @ concat fs @ l"]) simp_all
  qed
next
  assume R: ?R
  then obtain pad mid where m: "(control AND 0x40 \<noteq> 0) = (pad \<noteq> None)" "padding_ok pad" "r = padding_bytes pad @ mid @ padding_tail pad" "control_ok toc control mid" by blast
  show ?L
  proof (cases "control AND 0x80 = 0")
    case True
    then obtain fs where f: "mid = concat fs" "length fs = unat (control AND 0x3f)" "\<exists>m \<le> MAX_FRAME_BYTES. \<forall>f \<in> set fs. length f = m"
      using m(4) by (auto simp: control_ok_def)
    then have "packing_ok toc (Constant control fs pad)" using assms True m R by auto
    then show ?thesis using m(3) f(1) by (intro exI [of _ "Constant control fs pad"]) simp
  next
    case False
    then obtain fs l where f: "mid = concat (map (length_code \<circ> length) fs) @ concat fs @ l" "length fs = unat (control AND 0x3f) - 1"
      "\<forall>f \<in> set fs. length f \<le> MAX_FRAME_BYTES" "length l \<le> MAX_FRAME_BYTES" using m(4) by (auto simp: control_ok_def)
    then have "packing_ok toc (Variable control fs l pad)" using assms False m R by simp
    then show ?thesis using m(3) f(1) by (intro exI [of _ "Variable control fs l pad"]) simp
  qed
qed

lemma framing_code3:
  assumes "packet = toc # control # r'" and "toc AND 3 = 3"
  shows "matchesOpusPacketFraming packet \<longleftrightarrow> length packet \<le> MAX_AUDIO_PACKET_BYTES \<and> (\<exists>p. control # r' = encode_packing p \<and> packing_ok toc p)"
proof -
  let ?P = "if control AND 0x40 \<noteq> 0 then opus_padding packet 2 (length packet) else Some (2, length packet)"
  let ?n = "unat (control AND 0x3f)"
  have body: "(if control AND 0x80 = 0 then (stop - off) mod ?n = 0 \<and> (stop - off) div ?n \<le> MAX_FRAME_BYTES
       else opus_last_frame (opus_lengths packet stop off 0 (?n - 1)) stop) \<longleftrightarrow> control_ok toc control mid"
    if "0 < ?n" "r' = padding_bytes pad @ mid @ padding_tail pad" "off = 2 + length (padding_bytes pad)" "stop = off + length mid" for off stop pad mid
    using that cbr_iff [OF that(1), of mid] vbr_iff [of packet "toc # control # padding_bytes pad" mid "padding_tail pad" off stop "?n - 1"]
    by (auto simp: control_ok_def assms(1))
  have "(case ?P of None \<Rightarrow> False | Some (off, stop) \<Rightarrow>
          if control AND 0x80 = 0 then (stop - off) mod ?n = 0 \<and> (stop - off) div ?n \<le> MAX_FRAME_BYTES
          else opus_last_frame (opus_lengths packet stop off 0 (?n - 1)) stop) \<longleftrightarrow>
      (\<exists>off stop. ?P = Some (off, stop) \<and> (if control AND 0x80 = 0 then (stop - off) mod ?n = 0 \<and> (stop - off) div ?n \<le> MAX_FRAME_BYTES
          else opus_last_frame (opus_lengths packet stop off 0 (?n - 1)) stop))" by (rule case_pair_iff)
  also have "... \<longleftrightarrow> (\<exists>pad mid. (control AND 0x40 \<noteq> 0) = (pad \<noteq> None) \<and> padding_ok pad \<and> r' = padding_bytes pad @ mid @ padding_tail pad \<and> control_ok toc control mid)"
    if "0 < ?n" unfolding padding_iff [OF assms(1)] using body [OF that] by blast
  finally have V: "0 < ?n \<Longrightarrow> (case ?P of None \<Rightarrow> False | Some (off, stop) \<Rightarrow>
          if control AND 0x80 = 0 then (stop - off) mod ?n = 0 \<and> (stop - off) div ?n \<le> MAX_FRAME_BYTES
          else opus_last_frame (opus_lengths packet stop off 0 (?n - 1)) stop) \<longleftrightarrow>
      (\<exists>pad mid. (control AND 0x40 \<noteq> 0) = (pad \<noteq> None) \<and> padding_ok pad \<and> r' = padding_bytes pad @ mid @ padding_tail pad \<and> control_ok toc control mid)" .
  have h: "packet \<noteq> []" "packet ! 0 = toc" "packet ! 1 = control" "\<not> length packet \<le> 1" "unat (toc AND 3) = 3" by (simp_all add: assms)
  have "matchesOpusPacketFraming packet \<longleftrightarrow> length packet \<le> MAX_AUDIO_PACKET_BYTES \<and> ?n \<noteq> 0 \<and> samplesPerFrame toc * ?n \<le> 5760 \<and>
      (case ?P of None \<Rightarrow> False | Some (off, stop) \<Rightarrow>
          if control AND 0x80 = 0 then (stop - off) mod ?n = 0 \<and> (stop - off) div ?n \<le> MAX_FRAME_BYTES
          else opus_last_frame (opus_lengths packet stop off 0 (?n - 1)) stop)"
    unfolding matchesOpusPacketFraming_def Let_def h using h(1,4) by (simp add: not_less)
  then show ?thesis unfolding packing_code3 [OF assms(2)] using V by blast
qed

text \<open>
  The Opus packet framing of RFC 6716: \<open>matchesOpusPacketFraming\<close> accepts exactly the packets of at most 61440 bytes that are the encoding of
  frames of at most 1275 bytes in one of the four packings (one frame; two of equal size; two with a length; an
  explicit count of frames of constant or of declared sizes, with padding), with at most 120 ms of audio in the last.
\<close>
theorem matchesOpusPacketFraming_iff:
  "matchesOpusPacketFraming packet \<longleftrightarrow> length packet \<le> MAX_AUDIO_PACKET_BYTES \<and> opus_packet packet"
proof (cases packet)
  case Nil
  then show ?thesis by (simp add: matchesOpusPacketFraming_def opus_packet_def)
next
  case (Cons toc r)
  have packet: "opus_packet packet \<longleftrightarrow> (\<exists>p. r = encode_packing p \<and> packing_ok toc p)" by (auto simp: opus_packet_def Cons)
  consider "toc AND 3 = 0" | "toc AND 3 = 1" | "toc AND 3 = 2" | "toc AND 3 = 3" using toc_codes(4) by blast
  then show ?thesis
  proof cases
    case 1
    then show ?thesis unfolding packet packing_code(1) [OF 1] by (auto simp: matchesOpusPacketFraming_def Cons)
  next
    case 2
    then show ?thesis unfolding packet packing_code(2) [OF 2] by (auto simp: matchesOpusPacketFraming_def Cons)
  next
    case 3
    have "opus_last_frame (opus_lengths packet (length packet) 1 0 1) (length packet) \<longleftrightarrow> opus_packet packet"
      unfolding packet packing_code(3) [OF 3] by (rule vbr_iff [where pre = "[toc]" and tail = "[]"]) (simp_all add: Cons)
    then show ?thesis using 3 by (auto simp: matchesOpusPacketFraming_def Cons Let_def)
  next
    case 4
    show ?thesis
    proof (cases r)
      case Nil
      have "\<not> packing_ok toc p" if "[] = encode_packing p" for p using that 4 by (cases p) auto
      then show ?thesis unfolding packet using Nil 4 by (auto simp: matchesOpusPacketFraming_def Cons)
    next
      case r: (Cons control r')
      show ?thesis unfolding packet r by (rule framing_code3 [OF Cons [unfolded r] 4])
    qed
  qed
qed

end
