(* ===== verification/Media_Ogg.thy ===== *)
theory Media_Ogg
  imports Media_Crc Media_File Media_Opus "HOL-Library.AList"
begin

text \<open>
  The Ogg check of src/src/media/media-audio-structure.ts (\<open>matchesOggStructure\<close>), which walks over the pages of a file, and the
  bounded Opus profile it feeds them to (src/src/media/media-ogg-opus-profile.ts, \<open>OggOpusProfile\<close>). The walk is an
  instance of the locale \<open>self_delimiting\<close>, so that the accepted files are the sequences of pages its grammar generates; and what is
  accepted as Opus is one stream of consecutive pages whose packets are the identification header, the comment header and
  well-framed audio packets.
\<close>

section \<open>The profile\<close>

definition OPUS_HEAD :: buffer where
  "OPUS_HEAD = [0x4f, 0x70, 0x75, 0x73, 0x48, 0x65, 0x61, 0x64]"

definition MAX_AUDIO_PACKETS :: nat where
  "MAX_AUDIO_PACKETS = 100000"

datatype opus_phase = Head | Tags | Audio

text \<open>The first \<open>packetBytes\<close> bytes of the buffer \<open>packet\<close>, which is never filled beyond its size, are \<open>op_packet\<close>.\<close>

record OggOpusProfile =
  op_serial :: "nat option"
  op_phase :: opus_phase
  op_packet :: buffer
  op_audioPackets :: nat
  op_ended :: bool

definition initial_profile :: OggOpusProfile where
  "initial_profile = \<lparr>op_serial = None, op_phase = Head, op_packet = [], op_audioPackets = 0, op_ended = False\<rparr>"

definition isComplete :: "OggOpusProfile \<Rightarrow> bool" where
  "isComplete st \<longleftrightarrow> op_ended st \<and> op_phase st = Audio \<and> op_audioPackets st > 0 \<and> op_packet st = []"

text \<open>\<open>readBigInt64LE\<close>\<close>

definition le_int64 :: "buffer \<Rightarrow> int" where
  "le_int64 bs = (let n = le_nat bs in if n \<ge> 2 ^ 63 then int n - 2 ^ 64 else int n)"

text \<open>The loop over the lacing values, with the part of the body that is left; the second result is \<open>completedOnPage\<close>.\<close>

fun opus_segments :: "int \<Rightarrow> buffer \<Rightarrow> buffer \<Rightarrow> OggOpusProfile \<Rightarrow> bool \<Rightarrow> (OggOpusProfile \<times> bool) option" where
  "opus_segments granule [] body st completed = Some (st, completed)"
| "opus_segments granule (l # lacing) body st completed =
     (let len = unat l; limit = (if op_phase st = Tags then MAX_TAG_BYTES else MAX_AUDIO_PACKET_BYTES)
      in if length (op_packet st) + len > limit then None
         else let packet = op_packet st @ take len body; rest = drop len body
              in if len = 255 then opus_segments granule lacing rest (st\<lparr>op_packet := packet\<rparr>) completed
                 else if op_phase st = Tags
                 then if lacing \<noteq> [] \<or> granule \<noteq> 0 \<or> \<not> matchesOpusTags packet then None
                      else opus_segments granule lacing rest (st\<lparr>op_phase := Audio, op_packet := []\<rparr>) True
                 else if op_audioPackets st \<ge> MAX_AUDIO_PACKETS \<or> \<not> matchesOpusPacketFraming packet then None
                 else opus_segments granule lacing rest (st\<lparr>op_audioPackets := op_audioPackets st + 1, op_packet := []\<rparr>) True)"

definition lacing_sum :: "buffer \<Rightarrow> nat" where
  "lacing_sum lacing = sum_list (map unat lacing)"

definition page_segmentCount :: "buffer \<Rightarrow> nat" where
  "page_segmentCount page = unat (byte_at page 26)"

definition page_lacing :: "buffer \<Rightarrow> buffer" where
  "page_lacing page = subarray page 27 (page_segmentCount page)"

definition page_body :: "buffer \<Rightarrow> buffer" where
  "page_body page = drop (27 + page_segmentCount page) page"

definition page_serial :: "buffer \<Rightarrow> nat" where
  "page_serial page = le_nat (subarray page 14 4)"

text \<open>The identification header: version 1, mapping family 0, one channel, alone on its page.\<close>

definition opus_head_page :: "buffer \<Rightarrow> bool" where
  "opus_head_page page \<longleftrightarrow>
     byte_at page 5 = 0x02 \<and> le_int64 (subarray page 6 8) = 0 \<and> page_segmentCount page = 1 \<and> byte_at (page_lacing page) 0 = 19 \<and>
     subarray (page_body page) 0 8 = OPUS_HEAD \<and> byte_at (page_body page) 8 = 1 \<and> byte_at (page_body page) 9 = 1 \<and> byte_at (page_body page) 18 = 0"

definition acceptPage :: "OggOpusProfile \<Rightarrow> buffer \<Rightarrow> OggOpusProfile option" where
  "acceptPage st page =
     (if op_ended st \<or> length page < 27 then None
      else if length page < 27 + page_segmentCount page then None
      else if op_serial st \<noteq> None \<and> op_serial st \<noteq> Some (page_serial page) then None
      else let st1 = st\<lparr>op_serial := Some (page_serial page)\<rparr>; flags = byte_at page 5; granule = le_int64 (subarray page 6 8)
      in if lacing_sum (page_lacing page) \<noteq> length (page_body page) then None
      else if op_phase st1 = Head
      then if opus_head_page page then Some (st1\<lparr>op_phase := Tags\<rparr>) else None
      else if page_segmentCount page = 0 then None
      else case opus_segments granule (page_lacing page) (page_body page) st1 False of
             None \<Rightarrow> None
           | Some (st2, completedOnPage) \<Rightarrow>
               if (\<not> completedOnPage \<and> granule \<noteq> -1) \<or> (completedOnPage \<and> granule < 0) then None
               else let st3 = st2\<lparr>op_ended := (flags AND 0x04 \<noteq> 0)\<rparr>
                    in if \<not> op_ended st3 \<or> isComplete st3 then Some st3 else None)"

section \<open>The walk over the pages\<close>

definition OGG_CAPTURE :: buffer where
  "OGG_CAPTURE = [0x4f, 0x67, 0x67, 0x53]"

definition OGG_FIXED_HEADER_BYTES :: nat where
  "OGG_FIXED_HEADER_BYTES = 27"

definition OGG_MAX_PAGE_BYTES :: nat where
  "OGG_MAX_PAGE_BYTES = 65307"

definition OGG_MAX_PAGES :: nat where
  "OGG_MAX_PAGES = 100000"

definition hasValidOggCrc :: "buffer \<Rightarrow> bool" where
  "hasValidOggCrc page = (if length page < OGG_FIXED_HEADER_BYTES then False else unat (ogg_crc_loop 0 page 0) = le_nat (subarray page 22 4))"

record OggStreamState =
  nextSequence :: nat
  continuedPacket :: bool
  stream_ended :: bool

record ogg_walk =
  ow_streams :: "(nat \<times> OggStreamState) list"
  ow_opus :: "OggOpusProfile option"
  ow_sawPayload :: bool

text \<open>The checks of one page once it is read.\<close>

definition ogg_page :: "ogg_walk \<Rightarrow> buffer \<Rightarrow> ogg_walk option" where
  "ogg_page st page =
     (let headerType = byte_at page 5; segmentCount = page_segmentCount page; lacing = page_lacing page;
          serial = page_serial page; sequence = le_nat (subarray page 18 4);
          bos = headerType AND 0x02 \<noteq> 0; eos = headerType AND 0x04 \<noteq> 0; continued = headerType AND 0x01 \<noteq> 0
      in if continued \<and> segmentCount = 0 then None
      else if (case map_of (ow_streams st) serial of
                 None \<Rightarrow> \<not> bos \<or> continued \<or> sequence \<noteq> 0
               | Some prior \<Rightarrow> stream_ended prior \<or> bos \<or> sequence \<noteq> nextSequence prior \<or> continued \<noteq> continuedPacket prior) then None
      else let continuesToNextPage = (segmentCount > 0 \<and> byte_at lacing (segmentCount - 1) = 255)
           in if eos \<and> continuesToNextPage then None
              else case (case ow_opus st of None \<Rightarrow> Some None | Some op \<Rightarrow> map_option Some (acceptPage op page)) of
                     None \<Rightarrow> None
                   | Some opus \<Rightarrow> Some \<lparr>ow_streams = AList.update serial
                       \<lparr>nextSequence = (sequence + 1) mod 2 ^ 32, continuedPacket = continuesToNextPage, stream_ended = eos\<rparr> (ow_streams st),
                       ow_opus = opus, ow_sawPayload = (ow_sawPayload st \<or> lacing_sum lacing > 0)\<rparr>)"

function ogg_loop :: "handle \<Rightarrow> nat \<Rightarrow> nat \<Rightarrow> nat \<Rightarrow> ogg_walk \<Rightarrow> (nat \<times> nat \<times> ogg_walk) option" where
  "ogg_loop h stop offset pages st =
     (if offset < stop \<and> pages < OGG_MAX_PAGES
      then case readExactly h OGG_FIXED_HEADER_BYTES offset of
             None \<Rightarrow> None
           | Some fixed \<Rightarrow>
               if subarray fixed 0 4 \<noteq> OGG_CAPTURE \<or> byte_at fixed 4 \<noteq> 0 then None
               else if byte_at fixed 5 AND 0xf8 \<noteq> 0 then None
               else case readExactly h (unat (byte_at fixed 26)) (offset + OGG_FIXED_HEADER_BYTES) of
                      None \<Rightarrow> None
                    | Some lacing \<Rightarrow>
                        let pageBytes = OGG_FIXED_HEADER_BYTES + unat (byte_at fixed 26) + lacing_sum lacing
                        in if pageBytes > OGG_MAX_PAGE_BYTES \<or> offset + pageBytes > stop then None
                        else case readExactly h pageBytes offset of
                               None \<Rightarrow> None
                             | Some page \<Rightarrow>
                                 if \<not> hasValidOggCrc page then None
                                 else case ogg_page st page of
                                        None \<Rightarrow> None
                                      | Some st' \<Rightarrow> ogg_loop h stop (offset + pageBytes) (pages + 1) st'
      else Some (offset, pages, st))"
  by pat_completeness auto
termination by (relation "measure (\<lambda>(h, stop, offset, pages, st). stop - offset)") (auto simp: OGG_FIXED_HEADER_BYTES_def)

declare ogg_loop.simps [simp del]

definition initial_walk :: "bool \<Rightarrow> ogg_walk" where
  "initial_walk requireOpusProfile = \<lparr>ow_streams = [], ow_opus = (if requireOpusProfile then Some initial_profile else None), ow_sawPayload = False\<rparr>"

definition walk_complete :: "ogg_walk \<Rightarrow> bool" where
  "walk_complete st \<longleftrightarrow> ow_sawPayload st \<and> ow_streams st \<noteq> [] \<and> (case ow_opus st of None \<Rightarrow> True | Some op \<Rightarrow> isComplete op) \<and>
     list_all (\<lambda>(serial, s). stream_ended s \<and> \<not> continuedPacket s) (ow_streams st)"

definition matchesOggStructure :: "handle \<Rightarrow> bool \<Rightarrow> bool" where
  "matchesOggStructure h requireOpusProfile =
     (if \<not> is_file h \<or> file_size h < OGG_FIXED_HEADER_BYTES + 1 then False
      else case ogg_loop h (file_size h) 0 0 (initial_walk requireOpusProfile) of
             None \<Rightarrow> False
           | Some (offset, pages, st) \<Rightarrow> offset = file_size h \<and> pages > 0 \<and> pages < OGG_MAX_PAGES \<and> walk_complete st)"

section \<open>The grammar of pages\<close>

text \<open>The page at the head of a buffer: its length, when its header, its checksum and its place in the streams are right.\<close>

definition page_length :: "buffer \<Rightarrow> nat" where
  "page_length b = 27 + page_segmentCount b + lacing_sum (page_lacing b)"

definition page_ok :: "buffer \<Rightarrow> bool" where
  "page_ok b \<longleftrightarrow> subarray b 0 4 = OGG_CAPTURE \<and> byte_at b 4 = 0 \<and> byte_at b 5 AND 0xf8 = 0 \<and> page_length b \<le> OGG_MAX_PAGE_BYTES \<and>
     27 + page_segmentCount b \<le> length b \<and> page_length b \<le> length b \<and> hasValidOggCrc (take (page_length b) b)"

definition ogg_scan :: "ogg_walk \<Rightarrow> buffer \<Rightarrow> (nat \<times> ogg_walk) option" where
  "ogg_scan st b = (if page_ok b then map_option (\<lambda>st'. (page_length b, st')) (ogg_page st (take (page_length b) b)) else None)"

lemma page_take:
  assumes "27 \<le> n"
  shows "page_segmentCount (take n b) = page_segmentCount b"
    and "27 + page_segmentCount b \<le> n \<Longrightarrow> page_lacing (take n b) = page_lacing b"
    and "27 + page_segmentCount b \<le> n \<Longrightarrow> page_length (take n b) = page_length b"
proof -
  show s: "page_segmentCount (take n b) = page_segmentCount b" using assms by (simp add: page_segmentCount_def byte_at_take)
  show l: "page_lacing (take n b) = page_lacing b" if "27 + page_segmentCount b \<le> n" using that s by (simp add: page_lacing_def subarray_take)
  show "page_length (take n b) = page_length b" if "27 + page_segmentCount b \<le> n" using that s l by (simp add: page_length_def)
qed

lemma page_ok_take:
  assumes "27 + page_segmentCount b \<le> n" and "page_length b \<le> n" and "n \<le> length b"
  shows "page_ok (take n b) = page_ok b"
proof -
  have "27 \<le> n" using assms(1) by simp
  note t = page_take [OF this, of b]
  have "subarray (take n b) 0 4 = subarray b 0 4" "byte_at (take n b) 4 = byte_at b 4" "byte_at (take n b) 5 = byte_at b 5"
    using \<open>27 \<le> n\<close> by (simp_all add: subarray_take byte_at_take)
  then show ?thesis using assms by (simp add: page_ok_def t min_def)
qed

lemma page_local:
  assumes "page_ok b" and "take (page_length b) b = take (page_length b) c" and "page_length b \<le> length c"
  shows "page_ok c \<and> page_length c = page_length b"
proof -
  let ?n = "page_length b"
  have n: "27 + page_segmentCount b \<le> ?n" "27 \<le> ?n" "?n \<le> length b" using assms(1) by (simp_all add: page_ok_def page_length_def)
  have s: "page_segmentCount c = page_segmentCount b"
    using page_take(1) [OF n(2), of b] page_take(1) [OF n(2), of c] assms(2) by simp
  have l: "page_length c = ?n"
    using page_take(3) [OF n(2), of b] page_take(3) [OF n(2), of c] assms(2) n(1) s by simp
  have "page_ok (take ?n c)" using page_ok_take [OF n(1) order_refl n(3)] assms(1,2) by simp
  then show ?thesis using page_ok_take [of c ?n] n(1) s l assms(3) by simp
qed

lemma ogg_scan_bounds: "ogg_scan st rest = Some (n, st') \<Longrightarrow> 0 < n \<and> n \<le> length rest"
  by (auto simp: ogg_scan_def page_ok_def page_length_def split: if_split_asm)

lemma ogg_scanD:
  assumes "ogg_scan st b = Some (n, st')"
  shows "page_ok b" and "page_length b = n" and "ogg_page st (take n b) = Some st'"
proof -
  show ok: "page_ok b" using assms unfolding ogg_scan_def by (rule contrapos_pp) simp
  then have "map_option (\<lambda>st'. (page_length b, st')) (ogg_page st (take (page_length b) b)) = Some (n, st')" using assms by (simp only: ogg_scan_def if_True)
  then have "ogg_page st (take (page_length b) b) = Some st' \<and> page_length b = n" by (cases "ogg_page st (take (page_length b) b)") simp_all
  then show "page_length b = n" and "ogg_page st (take n b) = Some st'" by (elim conjE, simp)+
qed

lemma ogg_scanI: "page_ok b \<Longrightarrow> page_length b = n \<Longrightarrow> ogg_page st (take n b) = Some st' \<Longrightarrow> ogg_scan st b = Some (n, st')"
  by (simp only: ogg_scan_def if_True option.map)

lemma ogg_scan_local:
  assumes "ogg_scan st b = Some (n, st')" and "take n b = take n c" and "n \<le> length c"
  shows "ogg_scan st c = Some (n, st')"
proof -
  note b = ogg_scanD [OF assms(1)]
  have "page_ok c \<and> page_length c = page_length b" by (rule page_local) (use assms(2,3) b in \<open>simp_all only:\<close>)
  then show ?thesis using b(2,3) assms(2) by (intro ogg_scanI) (simp_all only:)
qed

lemma ogg_loop_unfold:
  assumes "stop \<le> file_size h"
  shows "ogg_loop h stop off k st =
    (if off < stop \<and> k < OGG_MAX_PAGES
     then case ogg_scan st (subarray (contents h) off (stop - off)) of
            None \<Rightarrow> None
          | Some (n, st') \<Rightarrow> ogg_loop h stop (off + n) (Suc k) st'
     else Some (off, k, st))"
proof (cases "off < stop \<and> k < OGG_MAX_PAGES")
  case False
  then show ?thesis by (subst ogg_loop.simps) auto
next
  case True
  let ?rest = "subarray (contents h) off (stop - off)"
  have len: "length ?rest = stop - off" using assms True by simp
  show ?thesis
  proof (cases "27 \<le> stop - off")
    case False
    then have "ogg_scan st ?rest = None" using len by (simp add: ogg_scan_def page_ok_def)
    moreover have "ogg_loop h stop off k st = None"
      using True False by (subst ogg_loop.simps) (auto simp: OGG_FIXED_HEADER_BYTES_def Let_def split: option.split)
    ultimately show ?thesis using True by simp
  next
    case ge: True
    let ?fixed = "subarray (contents h) off 27"
    have fixed: "readExactly h 27 off = Some ?fixed" using ge assms by (simp add: readExactly_eq)
    have f: "?fixed = take 27 ?rest" using ge by (simp add: subarray_def min_def)
    have fb: "byte_at ?fixed 4 = byte_at ?rest 4" "byte_at ?fixed 5 = byte_at ?rest 5" unfolding f by (simp_all add: byte_at_take)
    have f4: "subarray ?fixed 0 4 = subarray ?rest 0 4" unfolding f by (simp add: subarray_take)
    let ?seg = "page_segmentCount ?rest"
    have seg: "unat (byte_at ?fixed 26) = ?seg" unfolding f by (simp add: byte_at_take page_segmentCount_def)
    show ?thesis
    proof (cases "27 + ?seg \<le> stop - off")
      case False
      then have "ogg_scan st ?rest = None" using len by (simp add: ogg_scan_def page_ok_def)
      moreover have "ogg_loop h stop off k st = None"
        using True False by (subst ogg_loop.simps) (auto simp: fixed seg OGG_FIXED_HEADER_BYTES_def Let_def split: option.split)
      ultimately show ?thesis using True by simp
    next
      case seg_fits: True
      have lacing: "readExactly h ?seg (off + 27) = Some (page_lacing ?rest)"
      proof -
        have "off + 27 + ?seg \<le> file_size h" using seg_fits assms True by linarith
        then show ?thesis using seg_fits ge by (simp add: readExactly_eq page_lacing_def subarray_subarray)
      qed
      show ?thesis
      proof (cases "page_length ?rest \<le> stop - off")
        case False
        then have "ogg_scan st ?rest = None" using len by (simp add: ogg_scan_def page_ok_def)
        moreover have "ogg_loop h stop off k st = None"
          using True False by (subst ogg_loop.simps) (auto simp: fixed fb f4 seg lacing page_length_def OGG_FIXED_HEADER_BYTES_def Let_def split: option.split)
        ultimately show ?thesis using True by simp
      next
        case fits: True
        have page: "readExactly h (page_length ?rest) off = Some (take (page_length ?rest) ?rest)"
        proof -
          have "off + page_length ?rest \<le> file_size h" using fits assms True by linarith
          then show ?thesis using fits by (simp add: readExactly_eq subarray_def min_def)
        qed
        have "27 + ?seg + lacing_sum (page_lacing ?rest) = page_length ?rest" by (simp add: page_length_def)
        then show ?thesis using True fits seg_fits len
          by (subst ogg_loop.simps) (auto simp: fixed fb f4 seg lacing page ogg_scan_def page_ok_def OGG_FIXED_HEADER_BYTES_def Let_def split: option.split)
      qed
    qed
  qed
qed

interpretation ogg: self_delimiting ogg_scan ogg_loop OGG_MAX_PAGES
proof
  show "0 < n \<and> n \<le> length rest" if "ogg_scan st rest = Some (n, st')" for st rest n st' using that by (rule ogg_scan_bounds)
  show "ogg_scan st (take n rest) = Some (n, st')" if "ogg_scan st rest = Some (n, st')" for st rest n st'
    by (rule ogg_scan_local [OF that]) (use ogg_scan_bounds [OF that] in \<open>simp_all add: min_def\<close>)
  show "ogg_scan st (f @ rest) = Some (length f, st')" if "ogg_scan st f = Some (length f, st')" for st f rest st'
    by (rule ogg_scan_local [OF that]) simp_all
qed (rule ogg_loop_unfold)

text \<open>
  The Ogg walk: a file is accepted exactly when it is a sequence of fewer than 100000 pages, each with a right header and checksum and in its
  place in its stream, that ends all its streams, has some payload, and satisfies the Opus profile when that is required.
\<close>
lemma ogg_accepts:
  "matchesOggStructure h requireOpus \<longleftrightarrow> is_file h \<and> 28 \<le> file_size h \<and>
     (\<exists>ps st. contents h = concat ps \<and> ps \<noteq> [] \<and> length ps < OGG_MAX_PAGES \<and> run_frames ogg_scan (initial_walk requireOpus) ps = Some st \<and> walk_complete st)"
proof -
  have loop: "ogg_loop h (file_size h) 0 0 s = Some (file_size h, k, st) \<longleftrightarrow>
      (\<exists>ps. contents h = concat ps \<and> run_frames ogg_scan s ps = Some st \<and> k = length ps \<and> length ps \<le> OGG_MAX_PAGES)" for s k st
    using ogg.loop_iff [of "file_size h" h 0 s k st] by simp
  have "(case ogg_loop h (file_size h) 0 0 (initial_walk requireOpus) of None \<Rightarrow> False
      | Some (offset, pages, st) \<Rightarrow> offset = file_size h \<and> pages > 0 \<and> pages < OGG_MAX_PAGES \<and> walk_complete st) \<longleftrightarrow>
      (\<exists>k st. ogg_loop h (file_size h) 0 0 (initial_walk requireOpus) = Some (file_size h, k, st) \<and> 0 < k \<and> k < OGG_MAX_PAGES \<and> walk_complete st)"
    by (auto split: option.split)
  also have "\<dots> \<longleftrightarrow> (\<exists>ps st. contents h = concat ps \<and> ps \<noteq> [] \<and> length ps < OGG_MAX_PAGES \<and>
      run_frames ogg_scan (initial_walk requireOpus) ps = Some st \<and> walk_complete st)"
    unfolding loop by (metis length_greater_0_conv less_imp_le)
  finally show ?thesis unfolding matchesOggStructure_def OGG_FIXED_HEADER_BYTES_def by (cases "is_file h \<and> 28 \<le> file_size h") (simp_all only: not_less, auto)
qed

lemma run_pages_ok: "run_frames ogg_scan st ps = Some st' \<Longrightarrow> list_all (\<lambda>p. page_ok p \<and> page_length p = length p) ps"
  by (induction ps arbitrary: st) (auto split: option.split_asm if_split_asm dest: ogg_scanD)

section \<open>The packets of a stream\<close>

text \<open>
  The packets that pages carry, after RFC 3533: a packet is a run of segments up to the first that is shorter than 255 bytes, and may
  go on over a page boundary. The second component is the part of a packet that is still open.
\<close>

fun cut_segments :: "buffer \<Rightarrow> buffer \<Rightarrow> buffer \<Rightarrow> buffer list \<times> buffer" where
  "cut_segments carry [] body = ([], carry)"
| "cut_segments carry (l # lacing) body =
     (let packet = carry @ take (unat l) body; rest = drop (unat l) body
      in if unat l = 255 then cut_segments packet lacing rest
         else case cut_segments [] lacing rest of (ps, c) \<Rightarrow> (packet # ps, c))"

fun stream_packets :: "buffer \<Rightarrow> buffer list \<Rightarrow> buffer list \<times> buffer" where
  "stream_packets carry [] = ([], carry)"
| "stream_packets carry (p # pages) =
     (case cut_segments carry (page_lacing p) (page_body p) of
        (ps, c) \<Rightarrow> case stream_packets c pages of (qs, d) \<Rightarrow> (ps @ qs, d))"

definition opus_head :: "buffer \<Rightarrow> bool" where
  "opus_head packet \<longleftrightarrow> length packet = 19 \<and> take 8 packet = OPUS_HEAD \<and> byte_at packet 8 = 1 \<and> byte_at packet 9 = 1 \<and> byte_at packet 18 = 0"

definition page_sequence :: "buffer \<Rightarrow> nat" where
  "page_sequence page = le_nat (subarray page 18 4)"

lemma stream_packets_snoc:
  "stream_packets c (pages @ [p]) =
     (fst (stream_packets c pages) @ fst (cut_segments (snd (stream_packets c pages)) (page_lacing p) (page_body p)),
      snd (cut_segments (snd (stream_packets c pages)) (page_lacing p) (page_body p)))"
  by (induction pages arbitrary: c) (simp_all split: prod.split)

lemma opus_segments_frame:
  "opus_segments g lacing body st c = Some (st', c') \<Longrightarrow>
     op_serial st' = op_serial st \<and> op_ended st' = op_ended st \<and> op_packet st' = snd (cut_segments (op_packet st) lacing body)"
  by (induction g lacing body st c rule: opus_segments.induct) (auto simp: Let_def split: if_split_asm prod.split)

lemma opus_segments_audio:
  "opus_segments g lacing body st c = Some (st', c') \<Longrightarrow> op_phase st = Audio \<Longrightarrow>
     op_phase st' = Audio \<and> list_all matchesOpusPacketFraming (fst (cut_segments (op_packet st) lacing body)) \<and>
     op_audioPackets st' = op_audioPackets st + length (fst (cut_segments (op_packet st) lacing body))"
  by (induction g lacing body st c rule: opus_segments.induct) (auto simp: Let_def split: if_split_asm prod.split)

lemma opus_segments_count:
  "opus_segments g lacing body st c = Some (st', c') \<Longrightarrow> op_audioPackets st \<le> MAX_AUDIO_PACKETS \<Longrightarrow> op_audioPackets st' \<le> MAX_AUDIO_PACKETS"
  by (induction g lacing body st c rule: opus_segments.induct) (auto simp: Let_def split: if_split_asm)

lemma opus_segments_tags:
  "opus_segments g lacing body st c = Some (st', c') \<Longrightarrow> op_phase st = Tags \<Longrightarrow> op_audioPackets st' = op_audioPackets st \<and>
     (op_phase st' = Tags \<and> fst (cut_segments (op_packet st) lacing body) = [] \<or>
      op_phase st' = Audio \<and> (\<exists>t. fst (cut_segments (op_packet st) lacing body) = [t] \<and> matchesOpusTags t))"
  by (induction g lacing body st c rule: opus_segments.induct) (auto simp: Let_def split: if_split_asm prod.split)

text \<open>What the profile has seen, as the packets of the stream so far.\<close>

definition opus_seen :: "OggOpusProfile \<Rightarrow> buffer list \<Rightarrow> bool" where
  "opus_seen st packets =
     (case op_phase st of
        Head \<Rightarrow> packets = [] \<and> op_packet st = [] \<and> op_audioPackets st = 0
      | Tags \<Rightarrow> (\<exists>h. packets = [h] \<and> opus_head h) \<and> op_audioPackets st = 0
      | Audio \<Rightarrow> (\<exists>h t as. packets = h # t # as \<and> opus_head h \<and> matchesOpusTags t \<and> list_all matchesOpusPacketFraming as \<and>
          op_audioPackets st = length as \<and> length as \<le> MAX_AUDIO_PACKETS))"

lemma opus_seen_cong:
  "op_phase st' = op_phase st \<Longrightarrow> op_packet st' = op_packet st \<Longrightarrow> op_audioPackets st' = op_audioPackets st \<Longrightarrow> opus_seen st' = opus_seen st"
  by (rule ext) (simp add: opus_seen_def split: opus_phase.split)

lemma opus_segments_seen:
  assumes "opus_segments g lacing body st c = Some (st', c')" and "opus_seen st packets" and "op_phase st \<noteq> Head"
  shows "opus_seen st' (packets @ fst (cut_segments (op_packet st) lacing body))"
proof (cases "op_phase st")
  case Tags
  with opus_segments_tags [OF assms(1) Tags] assms(2) show ?thesis by (auto simp: opus_seen_def)
next
  case Audio
  then obtain h t as where "packets = h # t # as" "opus_head h" "matchesOpusTags t" "list_all matchesOpusPacketFraming as"
    "op_audioPackets st = length as" "length as \<le> MAX_AUDIO_PACKETS" using assms(2) by (auto simp: opus_seen_def)
  with opus_segments_audio [OF assms(1) Audio] opus_segments_count [OF assms(1)] show ?thesis by (simp add: opus_seen_def)
qed (use assms in simp)

lemma head_page_packet:
  assumes "opus_head_page page" and "lacing_sum (page_lacing page) = length (page_body page)" and "27 + page_segmentCount page \<le> length page"
  shows "\<exists>h. cut_segments [] (page_lacing page) (page_body page) = ([h], []) \<and> opus_head h"
proof -
  have "length (page_lacing page) = 1" using assms(1,3) by (simp add: opus_head_page_def page_lacing_def)
  then obtain l where l: "page_lacing page = [l]" by (auto simp: length_Suc_conv)
  then have "l = 19" using assms(1) by (simp add: opus_head_page_def byte_at_def)
  then have "length (page_body page) = 19" using assms(2) l by (simp add: lacing_sum_def)
  then show ?thesis using assms(1) l \<open>l = 19\<close> by (simp add: opus_head_def opus_head_page_def subarray_def)
qed

lemma acceptPage_seen:
  assumes "acceptPage st page = Some st'" and "opus_seen st packets"
  shows "opus_seen st' (packets @ fst (cut_segments (op_packet st) (page_lacing page) (page_body page))) \<and>
     op_packet st' = snd (cut_segments (op_packet st) (page_lacing page) (page_body page)) \<and>
     op_serial st' = Some (page_serial page) \<and> (op_serial st = None \<or> op_serial st = Some (page_serial page))"
proof (cases "op_phase st = Head")
  case True
  then have h: "opus_head_page page" "lacing_sum (page_lacing page) = length (page_body page)" "27 + page_segmentCount page \<le> length page"
    and st': "st' = st\<lparr>op_serial := Some (page_serial page), op_phase := Tags\<rparr>" and "op_serial st = None \<or> op_serial st = Some (page_serial page)"
    using assms(1) by (auto simp: acceptPage_def Let_def split: if_split_asm)
  moreover have "packets = []" "op_packet st = []" "op_audioPackets st = 0" using assms(2) True by (simp_all add: opus_seen_def)
  ultimately show ?thesis using head_page_packet [OF h] by (auto simp: opus_seen_def)
next
  case False
  let ?st = "st\<lparr>op_serial := Some (page_serial page)\<rparr>"
  obtain st2 c where seg: "opus_segments (le_int64 (subarray page 6 8)) (page_lacing page) (page_body page) ?st False = Some (st2, c)"
    and st': "st' = st2\<lparr>op_ended := op_ended st'\<rparr>" and s: "op_serial st = None \<or> op_serial st = Some (page_serial page)"
    using assms(1) False by (auto simp: acceptPage_def Let_def split: if_split_asm option.split_asm)
  have "opus_seen ?st packets" using assms(2) opus_seen_cong [of ?st st] by simp
  from opus_segments_seen [OF seg this] False have "opus_seen st2 (packets @ fst (cut_segments (op_packet st) (page_lacing page) (page_body page)))" by simp
  moreover have "op_phase st' = op_phase st2" "op_packet st' = op_packet st2" "op_audioPackets st' = op_audioPackets st2" "op_serial st' = op_serial st2"
    by (subst st', simp)+
  ultimately show ?thesis using opus_segments_frame [OF seg] s opus_seen_cong [of st' st2] by simp
qed

text \<open>After the pages of an Opus file: one stream, counted from 0, whose packets the profile has seen.\<close>

definition opus_inv :: "ogg_walk \<Rightarrow> buffer list \<Rightarrow> bool" where
  "opus_inv st pages \<longleftrightarrow> (\<exists>op. ow_opus st = Some op \<and> op_packet op = snd (stream_packets [] pages) \<and> opus_seen op (fst (stream_packets [] pages)) \<and>
     (case op_serial op of
        None \<Rightarrow> pages = [] \<and> ow_streams st = []
      | Some s \<Rightarrow> (\<exists>q. map_of (ow_streams st) s = Some q \<and> nextSequence q = length pages) \<and> list_all (\<lambda>p. page_serial p = s) pages \<and>
          map page_sequence pages = [0..<length pages]))"

lemma ogg_page_opus:
  assumes "ogg_page st page = Some st'" and "ow_opus st = Some op"
  obtains op' q where "acceptPage op page = Some op'" and "ow_opus st' = Some op'"
    and "ow_streams st' = AList.update (page_serial page) q (ow_streams st)" and "nextSequence q = (page_sequence page + 1) mod 2 ^ 32"
    and "case map_of (ow_streams st) (page_serial page) of None \<Rightarrow> page_sequence page = 0 | Some prior \<Rightarrow> page_sequence page = nextSequence prior"
proof -
  obtain op' where a: "acceptPage op page = Some op'"
    using assms by (auto simp: ogg_page_def Let_def split: if_split_asm option.split_asm)
  have c: "case map_of (ow_streams st) (page_serial page) of None \<Rightarrow> page_sequence page = 0 | Some prior \<Rightarrow> page_sequence page = nextSequence prior"
    using assms by (auto simp: ogg_page_def page_sequence_def Let_def split: if_split_asm option.split_asm)
  have "ow_opus st' = Some op' \<and> (\<exists>q. ow_streams st' = AList.update (page_serial page) q (ow_streams st) \<and> nextSequence q = (page_sequence page + 1) mod 2 ^ 32)"
    using assms a by (auto simp: ogg_page_def page_sequence_def Let_def split: if_split_asm)
  with a c that show ?thesis by blast
qed

lemma opus_inv_step:
  assumes "opus_inv st pages" and "ogg_page st p = Some st'" and "length pages < OGG_MAX_PAGES"
  shows "opus_inv st' (pages @ [p])"
proof -
  obtain op where op: "ow_opus st = Some op" "op_packet op = snd (stream_packets [] pages)" "opus_seen op (fst (stream_packets [] pages))"
    and ser: "case op_serial op of
        None \<Rightarrow> pages = [] \<and> ow_streams st = []
      | Some s \<Rightarrow> (\<exists>q. map_of (ow_streams st) s = Some q \<and> nextSequence q = length pages) \<and> list_all (\<lambda>p. page_serial p = s) pages \<and>
          map page_sequence pages = [0..<length pages]"
    using assms(1) unfolding opus_inv_def by blast
  from ogg_page_opus [OF assms(2) op(1)] obtain op' q where a: "acceptPage op p = Some op'" and o: "ow_opus st' = Some op'"
    and u: "ow_streams st' = AList.update (page_serial p) q (ow_streams st)" and n: "nextSequence q = (page_sequence p + 1) mod 2 ^ 32"
    and c: "case map_of (ow_streams st) (page_serial p) of None \<Rightarrow> page_sequence p = 0 | Some prior \<Rightarrow> page_sequence p = nextSequence prior"
    by blast
  note seen = acceptPage_seen [OF a op(3)]
  have seq: "page_sequence p = length pages" and all: "list_all (\<lambda>x. page_serial x = page_serial p) pages" and up: "map page_sequence pages = [0..<length pages]"
    using ser c seen by (auto split: option.split_asm)
  have "nextSequence q = length (pages @ [p])" using n seq assms(3) by (simp add: OGG_MAX_PAGES_def)
  moreover have "map_of (ow_streams st') (page_serial p) = Some q" by (simp add: u update_conv)
  ultimately show ?thesis using seen all up seq op(2) by (auto simp: opus_inv_def o stream_packets_snoc)
qed

lemma opus_inv_run:
  "run_frames ogg_scan st ps = Some st' \<Longrightarrow> opus_inv st pages \<Longrightarrow> length pages + length ps \<le> OGG_MAX_PAGES \<Longrightarrow> opus_inv st' (pages @ ps)"
proof (induction ps arbitrary: st pages)
  case (Cons p ps)
  obtain st1 where s: "ogg_scan st p = Some (length p, st1)" and r: "run_frames ogg_scan st1 ps = Some st'"
    using Cons.prems(1) by (auto split: option.split_asm if_split_asm)
  have "ogg_page st p = Some st1" using ogg_scanD(3) [OF s] by simp
  then have "opus_inv st1 (pages @ [p])" using Cons.prems(2,3) by (intro opus_inv_step) simp_all
  then show ?case using Cons.IH [OF r, of "pages @ [p]"] Cons.prems(3) by simp
qed simp

text \<open>
  C9. What is accepted as Ogg Opus is a playable mono stream: pages of one serial number, numbered from 0 without a gap, whose packets are
  the identification header, the comment header and then between one and 100000 audio packets that have the framing of RFC 6716
  (\<open>opus_packet\<close>), with nothing left open at the end.
\<close>
theorem opus_file_packets:
  assumes "matchesOggStructure h True"
  shows "\<exists>pages serial head tags audio. contents h = concat pages \<and> list_all (\<lambda>p. page_ok p \<and> page_length p = length p \<and> page_serial p = serial) pages \<and>
     map page_sequence pages = [0..<length pages] \<and> stream_packets [] pages = (head # tags # audio, []) \<and> opus_head head \<and>
     matchesOpusTags tags \<and> audio \<noteq> [] \<and> length audio \<le> MAX_AUDIO_PACKETS \<and> list_all opus_packet audio"
proof -
  obtain ps st where ps: "contents h = concat ps" "ps \<noteq> []" "length ps < OGG_MAX_PAGES"
    and r: "run_frames ogg_scan (initial_walk True) ps = Some st" and w: "walk_complete st"
    using assms unfolding ogg_accepts by blast
  have "opus_inv (initial_walk True) []" by (simp add: opus_inv_def initial_walk_def initial_profile_def opus_seen_def)
  from opus_inv_run [OF r this] ps(3) have "opus_inv st ps" by simp
  then obtain op where op: "ow_opus st = Some op" "op_packet op = snd (stream_packets [] ps)" "opus_seen op (fst (stream_packets [] ps))"
    and ser: "case op_serial op of None \<Rightarrow> ps = [] \<and> ow_streams st = []
      | Some s \<Rightarrow> (\<exists>q. map_of (ow_streams st) s = Some q \<and> nextSequence q = length ps) \<and> list_all (\<lambda>p. page_serial p = s) ps \<and> map page_sequence ps = [0..<length ps]"
    unfolding opus_inv_def by blast
  from w op(1) have c: "op_phase op = Audio" "0 < op_audioPackets op" "op_packet op = []" by (simp_all add: walk_complete_def isComplete_def)
  from op(3) c(1) obtain head tags audio where k: "fst (stream_packets [] ps) = head # tags # audio" "opus_head head" "matchesOpusTags tags"
    "list_all matchesOpusPacketFraming audio" "op_audioPackets op = length audio" "length audio \<le> MAX_AUDIO_PACKETS"
    by (auto simp: opus_seen_def)
  have framed: "list_all opus_packet audio" using k(4) by (simp add: list_all_iff matchesOpusPacketFraming_iff)
  have e: "stream_packets [] ps = (head # tags # audio, [])" using k(1) op(2) c(3) by (simp add: prod_eq_iff)
  obtain s where s: "list_all (\<lambda>p. page_serial p = s) ps" "map page_sequence ps = [0..<length ps]" using ser ps(2) by (auto split: option.split_asm)
  have "list_all (\<lambda>p. page_ok p \<and> page_length p = length p) ps" by (rule run_pages_ok [OF r])
  with s(1) have "list_all (\<lambda>p. page_ok p \<and> page_length p = length p \<and> page_serial p = s) ps" by (simp add: list_all_iff)
  moreover have "audio \<noteq> []" using c(2) k(5) by auto
  ultimately show ?thesis using ps(1) s(2) e k(2,3,6) framed by blast
qed

section \<open>A sample file\<close>

text \<open>The checksum on integers, for the evaluation of concrete pages.\<close>

definition crc_int_step :: "int \<Rightarrow> int" where
  "crc_int_step c = (if odd (c div 2147483648) then ((2 * c) mod 4294967296) XOR 79764919 else (2 * c) mod 4294967296)"

definition crc_int_byte :: "int \<Rightarrow> int \<Rightarrow> int" where
  "crc_int_byte b c = crc_int_step (crc_int_step (crc_int_step (crc_int_step (crc_int_step (crc_int_step (crc_int_step (crc_int_step (c XOR b * 16777216))))))))"

lemma crc_int_step: "word_of_int (crc_int_step c) = ogg_crc_step (word_of_int c)"
proof -
  have m: "(word_of_int (x mod 4294967296) :: 32 word) = word_of_int x" for x
    by (rule word_of_int_eq_iff [THEN iffD2]) (simp add: take_bit_eq_mod)
  have b: "bit (word_of_int c :: 32 word) 31 \<longleftrightarrow> odd (c div 2147483648)" using bit_iff_odd [of c 31] by (simp add: bit_word_of_int_iff)
  have p: "push_bit 1 (word_of_int c :: 32 word) = word_of_int (2 * c)" by (simp add: push_bit_eq_mult)
  show ?thesis unfolding ogg_crc_step_alt crc_int_step_def b p by (simp add: m of_int_xor_eq del: of_int_mult)
qed

lemma crc_int_byte: "word_of_int (crc_int_byte (uint v) c) = ogg_crc_byte v (word_of_int c)"
proof -
  have "push_bit 24 (ucast v :: 32 word) = word_of_int (uint v * 16777216)" by (simp add: push_bit_eq_mult)
  then have e: "word_of_int c XOR push_bit 24 (ucast v :: 32 word) = word_of_int (c XOR uint v * 16777216)" by (simp only: of_int_xor_eq)
  have f: "(f ^^ 8) x = f (f (f (f (f (f (f (f x)))))))" for f :: "'b \<Rightarrow> 'b" and x by (simp add: eval_nat_numeral)
  show ?thesis unfolding ogg_crc_byte_steps e f crc_int_byte_def crc_int_step by (rule refl)
qed

lemma crc_int: "fold ogg_crc_byte page (word_of_int c) = word_of_int (fold crc_int_byte (map uint page) c)"
  by (induction page arbitrary: c) (simp_all add: crc_int_byte [symmetric])


lemma ogg_crc_loop_int:
  "ogg_crc_loop 0 page 0 = word_of_int (fold crc_int_byte (map (\<lambda>(i, b). uint (if i \<ge> 22 \<and> i \<le> 25 then 0 else b)) (enumerate 0 page)) 0)"
proof -
  have "ogg_crc_loop 0 page 0 = fold ogg_crc_byte (map (\<lambda>(i, b). if i \<ge> 22 \<and> i \<le> 25 then 0 else b) (enumerate 0 page)) (word_of_int 0)"
    by (simp add: ogg_crc_loop_fold)
  also have "\<dots> = word_of_int (fold crc_int_byte (map uint (map (\<lambda>(i, b). if i \<ge> 22 \<and> i \<le> 25 then 0 else b) (enumerate 0 page))) 0)" by (rule crc_int)
  finally show ?thesis by (simp add: comp_def case_prod_unfold)
qed

definition sample_head_page :: buffer where
  "sample_head_page = [79, 103, 103, 83, 0, 2, 0, 0, 0, 0, 0, 0, 0, 0, 1, 0, 0, 0, 0, 0, 0, 0, 132, 108, 217, 36, 1, 19, 79, 112, 117, 115, 72, 101, 97, 100, 1, 1, 0, 0, 128, 187, 0, 0, 0, 0, 0]"

definition sample_tags_page :: buffer where
  "sample_tags_page = [79, 103, 103, 83, 0, 0, 0, 0, 0, 0, 0, 0, 0, 0, 1, 0, 0, 0, 1, 0, 0, 0, 135, 88, 96, 26, 1, 16, 79, 112, 117, 115, 84, 97, 103, 115, 0, 0, 0, 0, 0, 0, 0, 0]"

definition sample_audio_page :: buffer where
  "sample_audio_page = [79, 103, 103, 83, 0, 4, 0, 0, 0, 0, 0, 0, 0, 0, 1, 0, 0, 0, 2, 0, 0, 0, 251, 1, 149, 10, 1, 1, 0]"

definition sample_opus :: handle where
  "sample_opus = \<lparr>contents = sample_head_page @ sample_tags_page @ sample_audio_page, is_file = True, transfer = (\<lambda>_ n. n)\<rparr>"

lemmas sample_pages = sample_head_page_def sample_tags_page_def sample_audio_page_def

lemma sample_crcs:
  "ogg_crc_loop 0 sample_head_page 0 = 618228868"
  "ogg_crc_loop 0 sample_tags_page 0 = 442521735"
  "ogg_crc_loop 0 sample_audio_page 0 = 177537531"
  unfolding ogg_crc_loop_int by (simp_all add: sample_pages crc_int_byte_def crc_int_step_def)

lemma sample_lengths: "length sample_head_page = 47" "length sample_tags_page = 44" "length sample_audio_page = 29"
  "page_length sample_head_page = 47" "page_length sample_tags_page = 44" "page_length sample_audio_page = 29"
  by (simp_all add: page_length_def page_segmentCount_def page_lacing_def lacing_sum_def sample_pages byte_at_def subarray_def)

lemma sample_checksums:
  "le_nat (subarray sample_head_page 22 4) = 618228868" "le_nat (subarray sample_tags_page 22 4) = 442521735"
  "le_nat (subarray sample_audio_page 22 4) = 177537531"
  by (simp_all add: sample_pages subarray_def le_nat_def be_nat_def)

lemma sample_pages_ok: "page_ok sample_head_page" "page_ok sample_tags_page" "page_ok sample_audio_page"
proof -
  have c: "hasValidOggCrc sample_head_page" "hasValidOggCrc sample_tags_page" "hasValidOggCrc sample_audio_page"
    by (simp_all add: hasValidOggCrc_def sample_lengths sample_crcs sample_checksums OGG_FIXED_HEADER_BYTES_def)
  show "page_ok sample_head_page" "page_ok sample_tags_page" "page_ok sample_audio_page"
    using c unfolding page_ok_def sample_lengths
    by (simp_all add: OGG_MAX_PAGE_BYTES_def sample_lengths) (simp_all add: OGG_CAPTURE_def page_segmentCount_def sample_pages byte_at_def subarray_def)
qed

lemmas page_eval = ogg_page_def acceptPage_def initial_walk_def initial_profile_def opus_head_page_def page_segmentCount_def page_lacing_def page_body_def
  page_serial_def lacing_sum_def le_int64_def le_nat_def be_nat_def OPUS_HEAD_def subarray_def byte_at_def Let_def

definition sample_profile :: "opus_phase \<Rightarrow> nat \<Rightarrow> bool \<Rightarrow> OggOpusProfile" where
  "sample_profile phase audio ended = \<lparr>op_serial = Some 1, op_phase = phase, op_packet = [], op_audioPackets = audio, op_ended = ended\<rparr>"

definition sample_state :: "nat \<Rightarrow> bool \<Rightarrow> OggOpusProfile \<Rightarrow> ogg_walk" where
  "sample_state n ended op = \<lparr>ow_streams = [(1, \<lparr>nextSequence = n, continuedPacket = False, stream_ended = ended\<rparr>)], ow_opus = Some op, ow_sawPayload = True\<rparr>"

lemma sample_steps:
  "ogg_page (initial_walk True) sample_head_page = Some (sample_state 1 False (sample_profile Tags 0 False))"
  "ogg_page (sample_state 1 False (sample_profile Tags 0 False)) sample_tags_page = Some (sample_state 2 False (sample_profile Audio 0 False))"
  "ogg_page (sample_state 2 False (sample_profile Audio 0 False)) sample_audio_page = Some (sample_state 3 True (sample_profile Audio 1 True))"
  subgoal by (simp add: page_eval sample_head_page_def sample_profile_def sample_state_def)
  subgoal by (simp add: page_eval sample_tags_page_def sample_profile_def sample_state_def MAX_TAG_BYTES_def matchesOpusTags_def OPUS_TAGS_def)
  subgoal by (simp add: page_eval sample_audio_page_def sample_profile_def sample_state_def MAX_AUDIO_PACKET_BYTES_def MAX_AUDIO_PACKETS_def isComplete_def
      matchesOpusPacketFraming_def MAX_FRAME_BYTES_def)
  done

lemma sample_walk: "\<exists>st. run_frames ogg_scan (initial_walk True) [sample_head_page, sample_tags_page, sample_audio_page] = Some st \<and> walk_complete st"
proof -
  have scan: "page_ok p \<Longrightarrow> page_length p = length p \<Longrightarrow> ogg_page st p = Some st' \<Longrightarrow> ogg_scan st p = Some (length p, st')" for p st st'
    by (rule ogg_scanI) simp_all
  have "run_frames ogg_scan (initial_walk True) [sample_head_page, sample_tags_page, sample_audio_page] = Some (sample_state 3 True (sample_profile Audio 1 True))"
    using scan [OF sample_pages_ok(1) _ sample_steps(1)] scan [OF sample_pages_ok(2) _ sample_steps(2)] scan [OF sample_pages_ok(3) _ sample_steps(3)]
    by (simp add: sample_lengths)
  moreover have "walk_complete (sample_state 3 True (sample_profile Audio 1 True))" by (simp add: walk_complete_def sample_state_def sample_profile_def isComplete_def)
  ultimately show ?thesis by blast
qed

lemma sample_opus_accepted: "matchesOggStructure sample_opus True"
proof -
  obtain st where "run_frames ogg_scan (initial_walk True) [sample_head_page, sample_tags_page, sample_audio_page] = Some st" "walk_complete st"
    using sample_walk by blast
  moreover have "contents sample_opus = concat [sample_head_page, sample_tags_page, sample_audio_page]" "is_file sample_opus" "28 \<le> file_size sample_opus"
    by (simp_all add: sample_opus_def sample_pages)
  moreover have "length [sample_head_page, sample_tags_page, sample_audio_page] < OGG_MAX_PAGES" by (simp add: OGG_MAX_PAGES_def)
  ultimately show ?thesis unfolding ogg_accepts by blast
qed

theorem opus_file_packets_witness:
  "\<exists>pages serial head tags audio. contents sample_opus = concat pages \<and> list_all (\<lambda>p. page_ok p \<and> page_length p = length p \<and> page_serial p = serial) pages \<and>
     map page_sequence pages = [0..<length pages] \<and> stream_packets [] pages = (head # tags # audio, []) \<and> opus_head head \<and>
     matchesOpusTags tags \<and> audio \<noteq> [] \<and> length audio \<le> MAX_AUDIO_PACKETS \<and> list_all opus_packet audio"
  by (rule opus_file_packets [OF sample_opus_accepted])

end
