(* ===== verification/Media_Text.thy ===== *)
theory Media_Text
  imports Media_File
begin

text \<open>
  Buffers as text: \<open>toString("latin1")\<close> and \<open>toString("utf8")\<close> of Node's buffers, which the container checks of src/src/media use.
  Latin-1 is a bijection. UTF-8 replaces what is not well formed, so that different bytes may give the same text; the
  results say that an ASCII text nevertheless has a single encoding.
\<close>

section \<open>Latin-1\<close>

definition latin1 :: "buffer \<Rightarrow> string" where
  "latin1 bs = map (\<lambda>b. char_of (unat b)) bs"

definition of_latin1 :: "string \<Rightarrow> buffer" where
  "of_latin1 s = map of_char s"

lemma length_latin1 [simp]: "length (latin1 bs) = length bs" by (simp add: latin1_def)

lemma length_of_latin1 [simp]: "length (of_latin1 s) = length s" by (simp add: of_latin1_def)

lemma latin1_append: "latin1 (a @ b) = latin1 a @ latin1 b" by (simp add: latin1_def)

lemma latin1_take: "latin1 (take n a) = take n (latin1 a)" by (simp add: latin1_def take_map)

lemma latin1_drop: "latin1 (drop n a) = drop n (latin1 a)" by (simp add: latin1_def drop_map)

lemma of_char_byte: "unat (of_char c :: byte) = of_char c"
proof -
  have "(of_char c :: nat) < 256" by (metis mod_less_divisor of_char_mod_256 zero_less_numeral)
  moreover have "(of_char c :: byte) = word_of_nat (of_char c)" by (simp add: of_nat_of_char)
  ultimately show ?thesis by (simp add: unat_of_nat)
qed

lemma latin1_of_latin1 [simp]: "latin1 (of_latin1 s) = s"
  by (induction s) (simp_all add: latin1_def of_latin1_def of_char_byte)

lemma of_latin1_latin1 [simp]: "of_latin1 (latin1 bs) = bs"
proof -
  have "(of_char (char_of (unat b)) :: byte) = b" for b :: byte
  proof -
    have "(of_char (char_of (unat b)) :: nat) = unat b" using unat_byte_less [of b] by simp
    then have "unat (of_char (char_of (unat b)) :: byte) = unat b" by (simp add: of_char_byte)
    then show ?thesis by (rule unsigned_word_eqI)
  qed
  then show ?thesis by (simp add: latin1_def of_latin1_def comp_def map_idI)
qed

lemma latin1_inject [simp]: "latin1 a = latin1 b \<longleftrightarrow> a = b"
  by (metis of_latin1_latin1)

lemma latin1_eq_iff: "latin1 a = s \<longleftrightarrow> a = of_latin1 s"
  by (metis of_latin1_latin1 latin1_of_latin1)

section \<open>UTF-8\<close>

text \<open>
  The decoder of the WHATWG encoding standard: what a lead byte asks for (the number of bytes that follow, the bounds of the
  first of them, the bits it contributes); a sequence that breaks off gives one replacement character, and the byte that
  broke it is read again.
\<close>

definition utf8_lead :: "nat \<Rightarrow> (nat \<times> nat \<times> nat \<times> nat) option" where
  "utf8_lead b =
     (if 0xC2 \<le> b \<and> b \<le> 0xDF then Some (1, 0x80, 0xBF, b - 0xC0)
      else if 0xE0 \<le> b \<and> b \<le> 0xEF then Some (2, if b = 0xE0 then 0xA0 else 0x80, if b = 0xED then 0x9F else 0xBF, b - 0xE0)
      else if 0xF0 \<le> b \<and> b \<le> 0xF4 then Some (3, if b = 0xF0 then 0x90 else 0x80, if b = 0xF4 then 0x8F else 0xBF, b - 0xF0)
      else None)"

fun utf8_tail :: "nat \<Rightarrow> nat \<Rightarrow> nat \<Rightarrow> nat \<Rightarrow> buffer \<Rightarrow> nat \<times> buffer" where
  "utf8_tail 0 lower upper code bs = (code, bs)"
| "utf8_tail (Suc n) lower upper code [] = (0xFFFD, [])"
| "utf8_tail (Suc n) lower upper code (b # bs) =
     (if lower \<le> unat b \<and> unat b \<le> upper then utf8_tail n 0x80 0xBF (code * 64 + (unat b - 0x80)) bs else (0xFFFD, b # bs))"

lemma utf8_tail_shorter: "length (snd (utf8_tail n lower upper code bs)) \<le> length bs"
  by (induction n lower upper code bs rule: utf8_tail.induct) auto

function utf8_decode :: "buffer \<Rightarrow> nat list" where
  "utf8_decode [] = []"
| "utf8_decode (b # bs) =
     (if unat b < 0x80 then unat b # utf8_decode bs
      else case utf8_lead (unat b) of
             None \<Rightarrow> 0xFFFD # utf8_decode bs
           | Some (n, lower, upper, bits) \<Rightarrow> let r = utf8_tail n lower upper bits bs in fst r # utf8_decode (snd r))"
  by pat_completeness auto
termination by (relation "measure length") (auto simp: le_imp_less_Suc utf8_tail_shorter)

lemma utf8_tail_code:
  "0x80 \<le> lower \<Longrightarrow> upper \<le> 0xBF \<Longrightarrow> (n = 1 \<longrightarrow> 2 \<le> code) \<Longrightarrow> (n = 2 \<longrightarrow> 1 \<le> code \<or> 0xA0 \<le> lower) \<Longrightarrow> (n = 3 \<longrightarrow> 1 \<le> code \<or> 0x90 \<le> lower) \<Longrightarrow>
     n \<le> 3 \<Longrightarrow> (n = 0 \<longrightarrow> 0x80 \<le> code) \<Longrightarrow> 0x80 \<le> fst (utf8_tail n lower upper code bs)"
proof (induction n lower upper code bs rule: utf8_tail.induct)
  case (3 n lower upper code b bs)
  show ?case
  proof (cases "lower \<le> unat b \<and> unat b \<le> upper")
    case True
    have "0x80 \<le> fst (utf8_tail n 0x80 0xBF (code * 64 + (unat b - 0x80)) bs)"
      using 3(2-) True by (intro 3(1)) auto
    then show ?thesis using True by simp
  next
    case False
    then show ?thesis by auto
  qed
qed auto

text \<open>Code points below 128 come from the byte itself, so an ASCII text has one encoding only.\<close>

lemma utf8_decode_ascii:
  "list_all (\<lambda>c. c < 0x80) cs \<Longrightarrow> utf8_decode bs = cs \<longleftrightarrow> map unat bs = cs"
proof (induction bs arbitrary: cs rule: utf8_decode.induct)
  case (2 b bs)
  show ?case
  proof (cases "unat b < 0x80")
    case True
    then show ?thesis using 2(1)[OF True] "2.prems" by (cases cs) auto
  next
    case False
    have "0x80 \<le> hd (utf8_decode (b # bs))"
    proof (cases "utf8_lead (unat b)")
      case (Some l)
      obtain n lower upper bits where l: "l = (n, lower, upper, bits)" by (cases l)
      have "0x80 \<le> fst (utf8_tail n lower upper bits bs)"
        using Some False unfolding l utf8_lead_def by (intro utf8_tail_code) (auto split: if_split_asm)
      then show ?thesis using Some False l by (simp add: Let_def)
    qed (use False in simp)
    moreover have "utf8_decode (b # bs) \<noteq> []" by (simp add: Let_def split: option.split prod.split)
    ultimately have "\<not> list_all (\<lambda>c. c < 0x80) (utf8_decode (b # bs))" by (cases "utf8_decode (b # bs)") auto
    then have "utf8_decode (b # bs) \<noteq> cs" using "2.prems" by blast
    moreover have "map unat (b # bs) \<noteq> cs" using False "2.prems" by (cases cs) auto
    ultimately show ?thesis by blast
  qed
qed auto

definition code_points :: "string \<Rightarrow> nat list" where
  "code_points s = map of_char s"

lemma utf8_decode_literal:
  assumes "list_all (\<lambda>c. of_char c < (0x80 :: nat)) s"
  shows "utf8_decode bs = code_points s \<longleftrightarrow> bs = of_latin1 s"
proof -
  have "utf8_decode bs = code_points s \<longleftrightarrow> map unat bs = map of_char s"
    unfolding code_points_def using assms by (intro utf8_decode_ascii) (simp add: list_all_iff)
  also have "\<dots> \<longleftrightarrow> map unat bs = map unat (of_latin1 s)" by (simp add: of_latin1_def comp_def of_char_byte)
  also have "\<dots> \<longleftrightarrow> bs = of_latin1 s" by (rule inj_map_eq_map) (blast intro: injI unsigned_word_eqI)
  finally show ?thesis .
qed

end
