(* ===== verification/Media_Isobmff.thy ===== *)
theory Media_Isobmff
  imports Media_Text
begin

text \<open>
  The ISO base media check of src/src/media/media-isobmff-structure.ts: the walk over the top-level boxes of an MP4 or 3GPP file and the
  look at the first bytes (\<open>matchesIsoBmffFileTypeSignature\<close>). A box of size 0 reaches to the end of the file, so
  the format is not self-delimiting, and only the locale \<open>frame_scanner\<close> applies. Result: the accepted files are the
  encodings of the sequences of boxes with one file type box of the right family, a movie box and a media data box.
\<close>

section \<open>Headers and brands\<close>

definition FILE_TYPE_BOX :: string where "FILE_TYPE_BOX = ''ftyp''"

definition MOVIE_BOX :: string where "MOVIE_BOX = ''moov''"

definition MEDIA_DATA_BOX :: string where "MEDIA_DATA_BOX = ''mdat''"

definition MAX_FILE_TYPE_BOX_BYTES :: nat where "MAX_FILE_TYPE_BOX_BYTES = 4096"

definition MAX_TOP_LEVEL_BOXES :: nat where "MAX_TOP_LEVEL_BOXES = 4096"

definition LEADING_BOX_TYPES :: "string list" where "LEADING_BOX_TYPES = [''free'', ''skip'', ''wide'']"

definition MP4_BRANDS :: "string list" where
  "MP4_BRANDS = [''isom'', ''mp41'', ''mp42'', ''avc1'', ''M4A '', ''M4B '', ''M4V '', ''dash'', ''piff'', ''dby1'', ''MSNV'', ''XAVC'']"

definition isPrintableFourCc :: "string \<Rightarrow> bool" where
  "isPrintableFourCc s \<longleftrightarrow> length s = 4 \<and> list_all (\<lambda>c. 0x20 \<le> (of_char c :: nat) \<and> (of_char c :: nat) \<le> 0x7e) s"

definition isMp4Brand :: "string \<Rightarrow> bool" where
  "isMp4Brand brand \<longleftrightarrow> brand \<in> set MP4_BRANDS \<or> list_ex (\<lambda>c. brand = ''iso'' @ [c]) ''23456789abcd'' \<or> list_ex (\<lambda>c. brand = ''cmf'' @ [c]) ''2cfls''"

definition alphanumeric :: "char \<Rightarrow> bool" where
  "alphanumeric c \<longleftrightarrow> (let n = of_char c :: nat in (48 \<le> n \<and> n \<le> 57) \<or> (65 \<le> n \<and> n \<le> 90) \<or> (97 \<le> n \<and> n \<le> 122))"

definition is3gppBrand :: "string \<Rightarrow> bool" where
  "is3gppBrand brand \<longleftrightarrow> length brand = 4 \<and> list_ex (\<lambda>c. take 3 brand = ''3g'' @ [c]) ''preghmstv'' \<and> alphanumeric (brand ! 3)"

record BoxHeader =
  bh_type :: string
  bh_size :: nat
  bh_headerBytes :: nat

definition MAX_SAFE_INTEGER :: nat where "MAX_SAFE_INTEGER = 9007199254740991"

definition parseBoxHeader :: "buffer \<Rightarrow> nat \<Rightarrow> nat \<Rightarrow> bool \<Rightarrow> BoxHeader option" where
  "parseBoxHeader bytes offset available allowZeroToEnd =
     (if offset + 8 > length bytes then None
      else let size32 = be_nat (subarray bytes offset 4); type = latin1 (subarray bytes (offset + 4) 4)
      in if \<not> isPrintableFourCc type then None
      else if size32 = 0
      then if \<not> allowZeroToEnd \<or> available < 8 then None else Some \<lparr>bh_type = type, bh_size = available, bh_headerBytes = 8\<rparr>
      else if size32 = 1
      then if offset + 16 > length bytes then None
           else let size64 = be_nat (subarray bytes (offset + 8) 8)
                in if size64 > MAX_SAFE_INTEGER then None
                   else if size64 < 16 \<or> size64 > available then None
                   else Some \<lparr>bh_type = type, bh_size = size64, bh_headerBytes = 16\<rparr>
      else if size32 < 8 \<or> size32 > available then None
      else Some \<lparr>bh_type = type, bh_size = size32, bh_headerBytes = 8\<rparr>)"

record FileTypeIdentity =
  majorBrand :: string
  compatibleBrands :: "string list"

function file_type_brands :: "buffer \<Rightarrow> nat \<Rightarrow> string list option" where
  "file_type_brands box offset =
     (if offset < length box
      then let brand = latin1 (subarray box offset 4)
           in if isPrintableFourCc brand then map_option (\<lambda>bs. brand # bs) (file_type_brands box (offset + 4)) else None
      else Some [])"
  by pat_completeness auto
termination by (relation "measure (\<lambda>(box, offset). length box - offset)") auto

declare file_type_brands.simps [simp del]

definition parseFileTypeBox :: "buffer \<Rightarrow> nat \<Rightarrow> FileTypeIdentity option" where
  "parseFileTypeBox box headerBytes =
     (let payloadBytes = length box - headerBytes; major = latin1 (subarray box headerBytes 4)
      in if payloadBytes < 8 \<or> (payloadBytes - 8) mod 4 \<noteq> 0 then None
         else if \<not> isPrintableFourCc major then None
         else map_option (\<lambda>bs. \<lparr>majorBrand = major, compatibleBrands = bs\<rparr>) (file_type_brands box (headerBytes + 8)))"

definition matchesMimeFamily :: "FileTypeIdentity \<Rightarrow> string \<Rightarrow> bool" where
  "matchesMimeFamily identity mimeType =
     (let brands = majorBrand identity # compatibleBrands identity
      in if mimeType = ''video/3gpp'' then list_ex is3gppBrand brands else list_ex isMp4Brand brands)"

section \<open>The first bytes\<close>

function file_type_scan :: "buffer \<Rightarrow> string \<Rightarrow> nat \<Rightarrow> nat \<Rightarrow> bool" where
  "file_type_scan sample mimeType offset leadingBoxes =
     (if offset + 8 \<le> length sample \<and> leadingBoxes \<le> 8
      then case parseBoxHeader sample offset (length sample - offset) False of
             None \<Rightarrow> False
           | Some header \<Rightarrow>
               if offset + bh_size header > length sample then False
               else if bh_type header = FILE_TYPE_BOX
               then if bh_size header > MAX_FILE_TYPE_BOX_BYTES then False
                    else (case parseFileTypeBox (subarray sample offset (bh_size header)) (bh_headerBytes header) of
                            None \<Rightarrow> False | Some identity \<Rightarrow> matchesMimeFamily identity mimeType)
               else if bh_type header \<notin> set LEADING_BOX_TYPES then False
               else file_type_scan sample mimeType (offset + bh_size header) (leadingBoxes + 1)
      else False)"
  by pat_completeness auto
termination by (relation "measure (\<lambda>(sample, mimeType, offset, leadingBoxes). 9 - leadingBoxes)") auto

declare file_type_scan.simps [simp del]

definition matchesIsoBmffFileTypeSignature :: "buffer \<Rightarrow> string \<Rightarrow> bool" where
  "matchesIsoBmffFileTypeSignature sample mimeType = file_type_scan sample mimeType 0 0"

section \<open>The walk over the boxes\<close>

record iso_walk =
  foundFileType :: bool
  foundMovie :: bool
  foundMediaData :: bool

text \<open>The checks of one box: \<open>box\<close> is what \<open>readExactly(handle, header.size, offset)\<close> gives, used for the file type box only.\<close>

definition iso_box :: "string \<Rightarrow> BoxHeader \<Rightarrow> buffer option \<Rightarrow> iso_walk \<Rightarrow> iso_walk option" where
  "iso_box mimeType header box st =
     (case (if \<not> foundFileType st
            then if bh_type header \<noteq> FILE_TYPE_BOX \<and> bh_type header \<notin> set LEADING_BOX_TYPES then None
                 else if bh_type header = FILE_TYPE_BOX
                 then if bh_size header > MAX_FILE_TYPE_BOX_BYTES then None
                      else (case box of
                              None \<Rightarrow> None
                            | Some b \<Rightarrow> (case parseFileTypeBox b (bh_headerBytes header) of
                                None \<Rightarrow> None
                              | Some identity \<Rightarrow> if matchesMimeFamily identity mimeType then Some (st\<lparr>foundFileType := True\<rparr>) else None))
                 else Some st
            else if bh_type header = FILE_TYPE_BOX then None
            else Some st) of
        None \<Rightarrow> None
      | Some st1 \<Rightarrow> Some (st1\<lparr>foundMovie := (foundMovie st1 \<or> bh_type header = MOVIE_BOX), foundMediaData := (foundMediaData st1 \<or> bh_type header = MEDIA_DATA_BOX)\<rparr>))"

lemma parseBoxHeader_size: "parseBoxHeader bytes offset available z = Some header \<Longrightarrow> 8 \<le> bh_size header \<and> bh_size header \<le> available"
  by (auto simp: parseBoxHeader_def Let_def split: if_split_asm)

function iso_loop :: "string \<Rightarrow> handle \<Rightarrow> nat \<Rightarrow> nat \<Rightarrow> nat \<Rightarrow> iso_walk \<Rightarrow> (nat \<times> nat \<times> iso_walk) option" where
  "iso_loop mimeType h stop offset boxCount st =
     (if offset < stop \<and> boxCount < MAX_TOP_LEVEL_BOXES
      then case readExactly h (min 16 (stop - offset)) offset of
             None \<Rightarrow> None
           | Some fixedHeader \<Rightarrow>
               if length fixedHeader < 8 then None
               else case parseBoxHeader fixedHeader 0 (stop - offset) True of
                      None \<Rightarrow> None
                    | Some header \<Rightarrow>
                        (case iso_box mimeType header (readExactly h (bh_size header) offset) st of
                           None \<Rightarrow> None
                         | Some st' \<Rightarrow> iso_loop mimeType h stop (offset + bh_size header) (boxCount + 1) st')
      else Some (offset, boxCount, st))"
  by pat_completeness auto
termination by (relation "measure (\<lambda>(mimeType, h, stop, offset, boxCount, st). MAX_TOP_LEVEL_BOXES - boxCount)") auto

declare iso_loop.simps [simp del]

definition matchesIsoBmffStructure :: "handle \<Rightarrow> string \<Rightarrow> bool" where
  "matchesIsoBmffStructure h mimeType =
     (if \<not> is_file h \<or> file_size h < 24 then False
      else case iso_loop mimeType h (file_size h) 0 0 \<lparr>foundFileType = False, foundMovie = False, foundMediaData = False\<rparr> of
             None \<Rightarrow> False
           | Some (offset, boxCount, st) \<Rightarrow>
               offset = file_size h \<and> boxCount > 0 \<and> boxCount \<le> MAX_TOP_LEVEL_BOXES \<and> foundFileType st \<and> foundMovie st \<and> foundMediaData st)"

section \<open>The grammar of boxes\<close>

text \<open>A box with a size of 32 bits, with a size of 64 bits, or reaching to the end of the file.\<close>

datatype size_field = Compact | Extended | To_End

record box =
  box_field :: size_field
  box_type :: string
  box_payload :: buffer

definition box_header :: "box \<Rightarrow> buffer" where
  "box_header b =
     (case box_field b of
        Compact \<Rightarrow> be_bytes 4 (8 + length (box_payload b)) @ of_latin1 (box_type b)
      | Extended \<Rightarrow> be_bytes 4 1 @ of_latin1 (box_type b) @ be_bytes 8 (16 + length (box_payload b))
      | To_End \<Rightarrow> be_bytes 4 0 @ of_latin1 (box_type b))"

definition box_encode :: "box \<Rightarrow> buffer" where
  "box_encode b = box_header b @ box_payload b"

definition box_ok :: "box \<Rightarrow> bool" where
  "box_ok b \<longleftrightarrow> isPrintableFourCc (box_type b) \<and>
     (box_field b = Compact \<longrightarrow> 8 + length (box_payload b) < 2 ^ 32) \<and> (box_field b = Extended \<longrightarrow> 16 + length (box_payload b) \<le> MAX_SAFE_INTEGER)"

definition file_type_ok :: "string \<Rightarrow> buffer \<Rightarrow> bool" where
  "file_type_ok mimeType payload \<longleftrightarrow>
     (\<exists>major minor brands. payload = of_latin1 major @ minor @ concat (map of_latin1 brands) \<and> length minor = 4 \<and>
        list_all isPrintableFourCc (major # brands) \<and>
        (if mimeType = ''video/3gpp'' then list_ex is3gppBrand (major # brands) else list_ex isMp4Brand (major # brands)))"

text \<open>Free space, one file type box that names the family, then other boxes, among them a movie and its data.\<close>

definition iso_file :: "string \<Rightarrow> box list \<Rightarrow> bool" where
  "iso_file mimeType boxes \<longleftrightarrow> list_all box_ok boxes \<and> list_all (\<lambda>b. box_field b \<noteq> To_End) (butlast boxes) \<and> length boxes \<le> MAX_TOP_LEVEL_BOXES \<and>
     (\<exists>leading ftyp rest. boxes = leading @ ftyp # rest \<and> list_all (\<lambda>b. box_type b \<in> set LEADING_BOX_TYPES) leading \<and>
        box_type ftyp = FILE_TYPE_BOX \<and> length (box_encode ftyp) \<le> MAX_FILE_TYPE_BOX_BYTES \<and> file_type_ok mimeType (box_payload ftyp) \<and>
        list_all (\<lambda>b. box_type b \<noteq> FILE_TYPE_BOX) rest \<and> list_ex (\<lambda>b. box_type b = MOVIE_BOX) rest \<and> list_ex (\<lambda>b. box_type b = MEDIA_DATA_BOX) rest)"

section \<open>Headers of boxes\<close>

definition header_of :: "box \<Rightarrow> BoxHeader" where
  "header_of b = \<lparr>bh_type = box_type b, bh_size = length (box_encode b), bh_headerBytes = length (box_header b)\<rparr>"

lemma four_cc_length: "isPrintableFourCc s \<Longrightarrow> length s = 4"
  by (simp add: isPrintableFourCc_def)

lemma box_header_length: "box_ok b \<Longrightarrow> length (box_header b) = (if box_field b = Extended then 16 else 8)"
  by (cases "box_field b") (simp_all add: box_header_def box_ok_def four_cc_length)

lemma be_nat_4: "n < 2 ^ 32 \<Longrightarrow> be_nat (be_bytes 4 n) = n"
  by (rule be_nat_be_bytes) simp

lemma be_nat_8: "n \<le> MAX_SAFE_INTEGER \<Longrightarrow> be_nat (be_bytes 8 n) = n"
  by (rule be_nat_be_bytes) (simp add: MAX_SAFE_INTEGER_def)

lemma header_fields:
  assumes "box_ok b"
  shows "subarray (box_header b @ x) 0 4 = (case box_field b of Compact \<Rightarrow> be_bytes 4 (8 + length (box_payload b)) | Extended \<Rightarrow> be_bytes 4 1 | To_End \<Rightarrow> be_bytes 4 0)"
    and "latin1 (subarray (box_header b @ x) 4 4) = box_type b"
    and "box_field b = Extended \<Longrightarrow> subarray (box_header b @ x) 8 8 = be_bytes 8 (16 + length (box_payload b))"
  using assms by (cases "box_field b"; simp add: box_header_def box_ok_def four_cc_length subarray_def)+

lemma parse_encoded:
  assumes "box_ok b" and "box_field b = To_End \<longrightarrow> tail = []"
  shows "parseBoxHeader (take 16 (box_encode b @ tail)) 0 (length (box_encode b @ tail)) True = Some (header_of b)"
proof -
  define r where "r = box_encode b @ tail"
  have t: "subarray (take 16 r) i n = subarray r i n" if "i + n \<le> 16" for i n using that by (rule subarray_take)
  have f: "subarray r 0 4 = (case box_field b of Compact \<Rightarrow> be_bytes 4 (8 + length (box_payload b)) | Extended \<Rightarrow> be_bytes 4 1 | To_End \<Rightarrow> be_bytes 4 0)"
    "latin1 (subarray r 4 4) = box_type b" "box_field b = Extended \<Longrightarrow> subarray r 8 8 = be_bytes 8 (16 + length (box_payload b))"
    unfolding r_def box_encode_def append_assoc by (fact header_fields [OF assms(1)])+
  have ty: "isPrintableFourCc (box_type b)" using assms(1) by (simp add: box_ok_def)
  have l: "length (box_header b) = (if box_field b = Extended then 16 else 8)" by (rule box_header_length [OF assms(1)])
  have len: "length r = length (box_header b) + length (box_payload b) + length tail" by (simp add: r_def box_encode_def)
  have e: "length (box_encode b) = length (box_header b) + length (box_payload b)" by (simp add: box_encode_def)
  have "parseBoxHeader (take 16 r) 0 (length r) True = Some (header_of b)"
  proof (cases "box_field b")
    case Compact
    then have "be_nat (subarray r 0 4) = 8 + length (box_payload b)" using f(1) assms(1) by (simp add: be_nat_4 box_ok_def)
    then show ?thesis using Compact l ty f(2) len by (simp add: parseBoxHeader_def Let_def t e header_of_def)
  next
    case Extended
    have "be_nat (subarray r 0 4) = 1" using f(1) Extended by (simp add: be_nat_4)
    moreover have "be_nat (subarray r 8 8) = 16 + length (box_payload b)" "16 + length (box_payload b) \<le> MAX_SAFE_INTEGER"
      using f(3) Extended assms(1) by (simp_all add: be_nat_8 box_ok_def)
    ultimately show ?thesis using Extended l ty f(2) len by (simp add: parseBoxHeader_def Let_def t e header_of_def)
  next
    case To_End
    have "be_nat (subarray r 0 4) = 0" using f(1) To_End by (simp add: be_nat_4)
    then show ?thesis using To_End l ty f(2) assms(2) len by (simp add: parseBoxHeader_def Let_def t e header_of_def)
  qed
  then show ?thesis by (simp only: r_def)
qed

lemma cut_4: "subarray r 0 4 @ subarray r 4 4 @ drop 8 r = r"
proof -
  have "subarray r 0 4 @ subarray r 4 4 = take 8 r" using subarray_split [of r 0 4 4] by (simp add: subarray_def)
  then have "(subarray r 0 4 @ subarray r 4 4) @ drop 8 r = take 8 r @ drop 8 r" by (rule arg_cong)
  then show ?thesis by simp
qed

lemma parse_decoded:
  assumes "parseBoxHeader (take 16 rest) 0 (length rest) True = Some header"
  obtains b tail where "rest = box_encode b @ tail" and "box_ok b" and "box_field b = To_End \<longrightarrow> tail = []" and "header = header_of b"
proof -
  have t: "subarray (take 16 rest) i n = subarray rest i n" if "i + n \<le> 16" for i n using that by (simp add: subarray_take)
  let ?type = "latin1 (subarray rest 4 4)" and ?size = "be_nat (subarray rest 0 4)"
  have l: "8 \<le> length rest" and ty: "isPrintableFourCc ?type" using assms by (auto simp: parseBoxHeader_def Let_def t split: if_split_asm)
  have w: "be_bytes 4 ?size = subarray rest 0 4" using l by (simp add: be_bytes_be_nat)
  have rest: "rest = be_bytes 4 ?size @ of_latin1 ?type @ drop 8 rest" unfolding w by (simp add: cut_4)
  have sz: "?size < 2 ^ 32" using be_nat_less [of "subarray rest 0 4"] l by simp
  have take_drop: "drop 8 rest = take n (drop 8 rest) @ drop (8 + n) rest" for n by (metis append_take_drop_id drop_drop add.commute)
  consider (zero) "?size = 0" | (one) "?size = 1" | (more) "?size \<noteq> 0" "?size \<noteq> 1" by blast
  then show ?thesis
  proof cases
    case zero
    let ?b = "\<lparr>box_field = To_End, box_type = ?type, box_payload = drop 8 rest\<rparr>"
    have e: "rest = box_encode ?b @ []" using rest zero by (simp add: box_encode_def box_header_def)
    have ok: "box_ok ?b" using ty by (simp add: box_ok_def)
    have "header = header_of ?b" using parse_encoded [OF ok, of "[]"] e assms by simp
    with e ok show ?thesis by (intro that [of ?b "[]"]) simp_all
  next
    case one
    let ?n = "be_nat (subarray rest 8 8)"
    have n: "16 \<le> length rest" "?n \<le> MAX_SAFE_INTEGER" "16 \<le> ?n" "?n \<le> length rest"
      using assms one ty by (auto simp: parseBoxHeader_def Let_def t split: if_split_asm)
    let ?b = "\<lparr>box_field = Extended, box_type = ?type, box_payload = subarray rest 16 (?n - 16)\<rparr>"
    have p: "length (box_payload ?b) = ?n - 16" using n by simp
    have "be_bytes 8 ?n = subarray rest 8 8" using n by (simp add: be_bytes_be_nat)
    moreover have "drop 8 rest = subarray rest 8 8 @ subarray rest 16 (?n - 16) @ drop ?n rest"
    proof -
      have "subarray rest 8 8 @ subarray rest 16 (?n - 16) = subarray rest 8 (?n - 8)" using subarray_split [of rest 8 8 "?n - 16"] n(3) by simp
      moreover have "drop 8 rest = subarray rest 8 (?n - 8) @ drop ?n rest" using take_drop [of "?n - 8"] n(3) by (simp add: subarray_def)
      ultimately show ?thesis by simp
    qed
    ultimately have e: "rest = box_encode ?b @ drop ?n rest" using rest one p n(3) by (simp add: box_encode_def box_header_def)
    have ok: "box_ok ?b" using ty n by (simp add: box_ok_def)
    have "header = header_of ?b" using parse_encoded [OF ok, of "drop ?n rest"] e assms by simp
    with e ok show ?thesis by (intro that [of ?b "drop ?n rest"]) simp_all
  next
    case more
    have n: "8 \<le> ?size" "?size \<le> length rest"
      using assms more ty by (auto simp: parseBoxHeader_def Let_def t split: if_split_asm)
    let ?b = "\<lparr>box_field = Compact, box_type = ?type, box_payload = subarray rest 8 (?size - 8)\<rparr>"
    have p: "length (box_payload ?b) = ?size - 8" using n by simp
    have "drop 8 rest = subarray rest 8 (?size - 8) @ drop ?size rest" using take_drop [of "?size - 8"] n by (simp add: subarray_def)
    then have e: "rest = box_encode ?b @ drop ?size rest" using rest p n by (simp add: box_encode_def box_header_def)
    have ok: "box_ok ?b" using ty p n sz by (simp add: box_ok_def)
    have "header = header_of ?b" using parse_encoded [OF ok, of "drop ?size rest"] e assms by simp
    with e ok show ?thesis by (intro that [of ?b "drop ?size rest"]) simp_all
  qed
qed

section \<open>The file type box\<close>

lemma file_type_brands_iff:
  "file_type_brands box off = Some bs \<longleftrightarrow> drop off box = concat (map of_latin1 bs) \<and> list_all isPrintableFourCc bs"
proof (induction "length box - off" arbitrary: off bs rule: less_induct)
  case less
  show ?case
  proof (cases "off < length box")
    case False
    then show ?thesis by (cases bs) (auto simp: file_type_brands.simps [of box off] isPrintableFourCc_def of_latin1_def)
  next
    case True
    let ?c = "latin1 (subarray box off 4)"
    have d: "drop off box = subarray box off 4 @ drop (off + 4) box" by (metis append_take_drop_id drop_drop add.commute subarray_def)
    have ne: "drop off box \<noteq> []" using True by simp
    show ?thesis
    proof (cases bs)
      case Nil
      then show ?thesis using True ne by (auto simp: file_type_brands.simps [of box off] Let_def)
    next
      case (Cons c cs)
      have IH: "file_type_brands box (off + 4) = Some cs \<longleftrightarrow> drop (off + 4) box = concat (map of_latin1 cs) \<and> list_all isPrintableFourCc cs"
        using True by (intro less) simp
      have "(\<exists>ds. file_type_brands box (off + 4) = Some ds \<and> ?c # ds = bs) \<longleftrightarrow> ?c = c \<and> file_type_brands box (off + 4) = Some cs" by (auto simp: Cons)
      then have L: "file_type_brands box off = Some bs \<longleftrightarrow> isPrintableFourCc ?c \<and> ?c = c \<and> file_type_brands box (off + 4) = Some cs"
        using True by (simp add: file_type_brands.simps [of box off] Let_def)
      show ?thesis
      proof
        assume "file_type_brands box off = Some bs"
        then show "drop off box = concat (map of_latin1 bs) \<and> list_all isPrintableFourCc bs" using L IH d by (auto simp: Cons)
      next
        assume r: "drop off box = concat (map of_latin1 bs) \<and> list_all isPrintableFourCc bs"
        then have "length c = 4" by (simp add: Cons four_cc_length)
        then have "subarray box off 4 = of_latin1 c" "drop (off + 4) box = concat (map of_latin1 cs)"
          using r by (simp_all add: Cons subarray_def) (metis append_eq_conv_conj drop_drop add.commute length_of_latin1)
        then show "file_type_brands box off = Some bs" using L IH r by (simp add: Cons)
      qed
    qed
  qed
qed

definition check_file_type :: "string \<Rightarrow> buffer \<Rightarrow> nat \<Rightarrow> bool" where
  "check_file_type mimeType b headerBytes = (case parseFileTypeBox b headerBytes of None \<Rightarrow> False | Some identity \<Rightarrow> matchesMimeFamily identity mimeType)"

lemma concat_4: "list_all isPrintableFourCc bs \<Longrightarrow> length (concat (map of_latin1 bs)) = 4 * length bs"
  by (induction bs) (simp_all add: four_cc_length)

lemma check_file_type_iff: "check_file_type mimeType (hb @ payload) (length hb) \<longleftrightarrow> file_type_ok mimeType payload"
proof
  assume "check_file_type mimeType (hb @ payload) (length hb)"
  then obtain bs where l: "8 \<le> length payload" and m: "isPrintableFourCc (latin1 (take 4 payload))"
    and b: "file_type_brands (hb @ payload) (length hb + 8) = Some bs"
    and f: "matchesMimeFamily \<lparr>majorBrand = latin1 (take 4 payload), compatibleBrands = bs\<rparr> mimeType"
    by (auto simp: check_file_type_def parseFileTypeBox_def Let_def subarray_def split: if_split_asm option.split_asm)
  have d: "drop 8 payload = concat (map of_latin1 bs)" "list_all isPrintableFourCc bs" using b by (simp_all add: file_type_brands_iff)
  have "payload = take 4 payload @ subarray payload 4 4 @ drop 8 payload" using cut_4 [of payload] by (simp add: subarray_def)
  then have "payload = of_latin1 (latin1 (take 4 payload)) @ subarray payload 4 4 @ concat (map of_latin1 bs)" using d(1) by simp
  moreover have "length (subarray payload 4 4) = 4" using l by simp
  ultimately show "file_type_ok mimeType payload" unfolding file_type_ok_def using m d(2) f
    by (intro exI [of _ "latin1 (take 4 payload)"] exI [of _ "subarray payload 4 4"] exI [of _ bs]) (simp add: matchesMimeFamily_def Let_def split: if_split_asm)
next
  assume "file_type_ok mimeType payload"
  then obtain major minor bs where p: "payload = of_latin1 major @ minor @ concat (map of_latin1 bs)" "length minor = 4"
    and l: "list_all isPrintableFourCc (major # bs)"
    and f: "if mimeType = ''video/3gpp'' then list_ex is3gppBrand (major # bs) else list_ex isMp4Brand (major # bs)"
    unfolding file_type_ok_def by blast
  have m: "length major = 4" using l by (simp add: four_cc_length)
  have n: "length payload = 8 + 4 * length bs" using p m l by (simp add: concat_4)
  have "file_type_brands (hb @ payload) (length hb + 8) = Some bs" unfolding file_type_brands_iff using p m l by simp
  moreover have "latin1 (subarray (hb @ payload) (length hb) 4) = major" using p m by (simp add: subarray_def)
  ultimately show "check_file_type mimeType (hb @ payload) (length hb)" using n l f
    by (simp add: check_file_type_def parseFileTypeBox_def Let_def matchesMimeFamily_def)
qed

section \<open>What the walk accepts\<close>

definition iso_scan :: "string \<Rightarrow> iso_walk \<Rightarrow> buffer \<Rightarrow> (nat \<times> iso_walk) option" where
  "iso_scan mimeType st rest =
     (case parseBoxHeader (take 16 rest) 0 (length rest) True of
        None \<Rightarrow> None
      | Some header \<Rightarrow> map_option (\<lambda>st'. (bh_size header, st')) (iso_box mimeType header (Some (take (bh_size header) rest)) st))"

definition iso_step :: "string \<Rightarrow> iso_walk \<Rightarrow> box \<Rightarrow> iso_walk option" where
  "iso_step mimeType st b = iso_box mimeType (header_of b) (Some (box_encode b)) st"

fun iso_run :: "string \<Rightarrow> iso_walk \<Rightarrow> box list \<Rightarrow> iso_walk option" where
  "iso_run mimeType st [] = Some st"
| "iso_run mimeType st (b # bs) = (case iso_step mimeType st b of None \<Rightarrow> None | Some st' \<Rightarrow> iso_run mimeType st' bs)"

lemma iso_scan_encoded:
  assumes "box_ok b" and "box_field b = To_End \<longrightarrow> tail = []"
  shows "iso_scan mimeType st (box_encode b @ tail) = map_option (\<lambda>st'. (length (box_encode b), st')) (iso_step mimeType st b)"
  using parse_encoded [OF assms] by (simp only: iso_scan_def option.case) (simp add: iso_step_def header_of_def)

lemma iso_scan_decoded:
  assumes "iso_scan mimeType st rest = Some (n, st')"
  obtains b tail where "rest = box_encode b @ tail" and "box_ok b" and "box_field b = To_End \<longrightarrow> tail = []"
    and "n = length (box_encode b)" and "iso_step mimeType st b = Some st'"
proof -
  obtain header where p: "parseBoxHeader (take 16 rest) 0 (length rest) True = Some header"
    using assms by (auto simp: iso_scan_def split: option.split_asm)
  from parse_decoded [OF p] obtain b tail where b: "rest = box_encode b @ tail" "box_ok b" "box_field b = To_End \<longrightarrow> tail = []" by metis
  have "map_option (\<lambda>st'. (length (box_encode b), st')) (iso_step mimeType st b) = Some (n, st')"
    using assms iso_scan_encoded [OF b(2,3)] unfolding b(1) by simp
  then show ?thesis using b that by (cases "iso_step mimeType st b") simp_all
qed

lemma box_encode_length: "box_ok b \<Longrightarrow> 8 \<le> length (box_encode b)"
  using box_header_length [of b] by (simp add: box_encode_def split: if_split_asm)

lemma iso_scan_bounds:
  assumes "iso_scan mimeType st rest = Some (n, st')"
  shows "0 < n \<and> n \<le> length rest"
proof -
  from iso_scan_decoded [OF assms] obtain b tail where "rest = box_encode b @ tail" "box_ok b" "n = length (box_encode b)" by metis
  then show ?thesis using box_encode_length [of b] by auto
qed

lemma parseBoxHeader_short: "length bytes < 8 \<Longrightarrow> parseBoxHeader bytes 0 available z = None"
  by (simp add: parseBoxHeader_def)

lemma iso_loop_unfold:
  assumes "stop \<le> file_size h"
  shows "iso_loop mimeType h stop off k st =
    (if off < stop \<and> k < MAX_TOP_LEVEL_BOXES
     then case iso_scan mimeType st (subarray (contents h) off (stop - off)) of
            None \<Rightarrow> None
          | Some (n, st') \<Rightarrow> iso_loop mimeType h stop (off + n) (Suc k) st'
     else Some (off, k, st))"
proof (cases "off < stop \<and> k < MAX_TOP_LEVEL_BOXES")
  case False
  then show ?thesis by (subst iso_loop.simps) auto
next
  case True
  let ?rest = "subarray (contents h) off (stop - off)"
  have len: "length ?rest = stop - off" using assms True by simp
  have r: "readExactly h n off = Some (take n ?rest)" if "n \<le> stop - off" for n
  proof -
    have "off + n \<le> file_size h" using that assms True by linarith
    then show ?thesis using that by (simp add: readExactly_eq subarray_def min_def)
  qed
  have f: "readExactly h (min 16 (stop - off)) off = Some (take 16 ?rest)"
    using r [of "min 16 (stop - off)"] len by (simp add: min_def)
  note short = parseBoxHeader_short [of "take 16 ?rest" "stop - off" True]
  show ?thesis
  proof (cases "parseBoxHeader (take 16 ?rest) 0 (stop - off) True")
    case None
    then show ?thesis using True by (subst iso_loop.simps) (simp only: f option.case iso_scan_def len, simp)
  next
    case (Some header)
    have "readExactly h (bh_size header) off = Some (take (bh_size header) ?rest)" using parseBoxHeader_size [OF Some] by (intro r) simp
    moreover have "\<not> length (take 16 ?rest) < 8" using short Some by auto
    ultimately show ?thesis using True Some
      by (subst iso_loop.simps) (simp only: f option.case iso_scan_def len if_False, simp split: option.split)
  qed
qed

interpretation iso: frame_scanner "iso_scan mimeType" "iso_loop mimeType" MAX_TOP_LEVEL_BOXES for mimeType
  by unfold_locales (fact iso_scan_bounds iso_loop_unfold)+

definition boxes_of :: "buffer \<Rightarrow> box list \<Rightarrow> bool" where
  "boxes_of rest bs \<longleftrightarrow> rest = concat (map box_encode bs) \<and> list_all box_ok bs \<and> list_all (\<lambda>b. box_field b \<noteq> To_End) (butlast bs)"

lemma boxes_of_Cons:
  "boxes_of rest (b # bs) \<longleftrightarrow> (\<exists>tail. rest = box_encode b @ tail \<and> box_ok b \<and> (box_field b = To_End \<longrightarrow> tail = []) \<and> boxes_of tail bs)"
  using box_encode_length by (cases bs) (fastforce simp: boxes_of_def)+

lemma iso_loop_iff:
  assumes "off \<le> file_size h" and "k \<le> MAX_TOP_LEVEL_BOXES"
  shows "iso_loop mimeType h (file_size h) off k st = Some (file_size h, k', st') \<longleftrightarrow>
    (\<exists>bs. boxes_of (drop off (contents h)) bs \<and> k' = k + length bs \<and> k' \<le> MAX_TOP_LEVEL_BOXES \<and> iso_run mimeType st bs = Some st')"
  using assms
proof (induction "file_size h - off" arbitrary: off k st rule: less_induct)
  case less
  let ?rest = "drop off (contents h)"
  have s: "subarray (contents h) off (file_size h - off) = ?rest" by (simp add: subarray_def)
  note u = iso.loop_unfold [OF order_refl, of mimeType h off k st, unfolded s]
  show ?case
  proof (cases "off < file_size h \<and> k < MAX_TOP_LEVEL_BOXES")
    case False
    have "boxes_of ?rest bs \<longleftrightarrow> off = file_size h \<and> bs = []" if "k + length bs \<le> MAX_TOP_LEVEL_BOXES" for bs
    proof (cases bs)
      case (Cons b cs)
      then have "off = file_size h" using False that less.prems by auto
      then show ?thesis using box_encode_length [of b] by (auto simp: Cons boxes_of_Cons)
    qed (use less.prems in \<open>auto simp: boxes_of_def\<close>)
    moreover have "iso_loop mimeType h (file_size h) off k st = Some (off, k, st)" using u False by auto
    ultimately show ?thesis using less.prems(2) by fastforce
  next
    case True
    have ne: "\<not> boxes_of ?rest []" using True by (simp add: boxes_of_def)
    have step: "iso_loop mimeType h (file_size h) (off + length (box_encode b)) (Suc k) st1 = Some (file_size h, k', st') \<longleftrightarrow>
        (\<exists>bs. boxes_of tail bs \<and> k' = Suc k + length bs \<and> k' \<le> MAX_TOP_LEVEL_BOXES \<and> iso_run mimeType st1 bs = Some st')"
      if "?rest = box_encode b @ tail" "box_ok b" for b tail st1
    proof -
      have "drop (off + length (box_encode b)) (contents h) = tail" using that(1) by (metis add.commute append_eq_conv_conj drop_drop)
      moreover have "off + length (box_encode b) \<le> file_size h"
        using arg_cong [OF that(1), of length] True unfolding length_drop length_append by linarith
      moreover have "file_size h - (off + length (box_encode b)) < file_size h - off" using box_encode_length [OF that(2)] True by linarith
      ultimately show ?thesis using less.hyps [of "off + length (box_encode b)" "Suc k" st1] True by simp
    qed
    show ?thesis
    proof
      assume "iso_loop mimeType h (file_size h) off k st = Some (file_size h, k', st')"
      then obtain n st1 where sc: "iso_scan mimeType st ?rest = Some (n, st1)"
        and l: "iso_loop mimeType h (file_size h) (off + n) (Suc k) st1 = Some (file_size h, k', st')"
        using u True by (auto split: option.split_asm)
      from iso_scan_decoded [OF sc] obtain b tail where b: "?rest = box_encode b @ tail" "box_ok b" "box_field b = To_End \<longrightarrow> tail = []"
        "n = length (box_encode b)" "iso_step mimeType st b = Some st1" by metis
      from step [OF b(1,2), of st1] l b(4) obtain bs where "boxes_of tail bs" "k' = Suc k + length bs" "k' \<le> MAX_TOP_LEVEL_BOXES" "iso_run mimeType st1 bs = Some st'" by auto
      then show "\<exists>bs. boxes_of ?rest bs \<and> k' = k + length bs \<and> k' \<le> MAX_TOP_LEVEL_BOXES \<and> iso_run mimeType st bs = Some st'"
        using b by (intro exI [of _ "b # bs"]) (auto simp: boxes_of_Cons)
    next
      assume "\<exists>bs. boxes_of ?rest bs \<and> k' = k + length bs \<and> k' \<le> MAX_TOP_LEVEL_BOXES \<and> iso_run mimeType st bs = Some st'"
      then obtain b bs where bs: "boxes_of ?rest (b # bs)" "k' = k + length (b # bs)" "k' \<le> MAX_TOP_LEVEL_BOXES" "iso_run mimeType st (b # bs) = Some st'"
        using ne by (metis neq_Nil_conv)
      from bs(1) obtain tail where b: "?rest = box_encode b @ tail" "box_ok b" "box_field b = To_End \<longrightarrow> tail = []" "boxes_of tail bs" by (auto simp: boxes_of_Cons)
      obtain st1 where st1: "iso_step mimeType st b = Some st1" "iso_run mimeType st1 bs = Some st'" using bs(4) by (auto split: option.split_asm)
      have "iso_scan mimeType st ?rest = Some (length (box_encode b), st1)" using iso_scan_encoded [OF b(2,3)] st1(1) b(1) by simp
      then show "iso_loop mimeType h (file_size h) off k st = Some (file_size h, k', st')"
        using u True step [OF b(1,2), of st1] b(4) bs(2,3) st1(2) by auto
    qed
  qed
qed

text \<open>The verdict over the boxes: the part before the file type box, and the part after it.\<close>

abbreviation iso_start :: iso_walk where
  "iso_start \<equiv> \<lparr>foundFileType = False, foundMovie = False, foundMediaData = False\<rparr>"

lemma iso_step_ftyp:
  "iso_step mimeType iso_start b = Some st \<longleftrightarrow>
     (box_type b \<in> set LEADING_BOX_TYPES \<and> st = iso_start) \<or>
     (box_type b = FILE_TYPE_BOX \<and> length (box_encode b) \<le> MAX_FILE_TYPE_BOX_BYTES \<and> file_type_ok mimeType (box_payload b) \<and> st = iso_start\<lparr>foundFileType := True\<rparr>)"
proof -
  have c: "(case parseFileTypeBox (box_encode b) (length (box_header b)) of None \<Rightarrow> None
      | Some identity \<Rightarrow> if matchesMimeFamily identity mimeType then Some x else None) = (if file_type_ok mimeType (box_payload b) then Some x else None)" for x :: iso_walk
    using check_file_type_iff [of mimeType "box_header b" "box_payload b"] by (auto simp: box_encode_def check_file_type_def split: option.split)
  have d: "FILE_TYPE_BOX \<notin> set LEADING_BOX_TYPES" "MOVIE_BOX \<notin> set LEADING_BOX_TYPES" "MEDIA_DATA_BOX \<notin> set LEADING_BOX_TYPES"
    "FILE_TYPE_BOX \<noteq> MOVIE_BOX" "FILE_TYPE_BOX \<noteq> MEDIA_DATA_BOX"
    by (simp_all add: FILE_TYPE_BOX_def LEADING_BOX_TYPES_def MOVIE_BOX_def MEDIA_DATA_BOX_def)
  then show ?thesis by (auto simp: iso_step_def iso_box_def header_of_def c split: if_split_asm)
qed

lemma iso_run_rest:
  "foundFileType st \<Longrightarrow> iso_run mimeType st bs = Some st' \<longleftrightarrow> list_all (\<lambda>b. box_type b \<noteq> FILE_TYPE_BOX) bs \<and>
     st' = st\<lparr>foundMovie := (foundMovie st \<or> list_ex (\<lambda>b. box_type b = MOVIE_BOX) bs), foundMediaData := (foundMediaData st \<or> list_ex (\<lambda>b. box_type b = MEDIA_DATA_BOX) bs)\<rparr>"
  by (induction bs arbitrary: st) (auto simp: iso_step_def iso_box_def header_of_def)

lemma iso_run_iff:
  "(\<exists>st. iso_run mimeType iso_start bs = Some st \<and> foundFileType st \<and> foundMovie st \<and> foundMediaData st) \<longleftrightarrow>
   (\<exists>leading ftyp rest. bs = leading @ ftyp # rest \<and> list_all (\<lambda>b. box_type b \<in> set LEADING_BOX_TYPES) leading \<and>
        box_type ftyp = FILE_TYPE_BOX \<and> length (box_encode ftyp) \<le> MAX_FILE_TYPE_BOX_BYTES \<and> file_type_ok mimeType (box_payload ftyp) \<and>
        list_all (\<lambda>b. box_type b \<noteq> FILE_TYPE_BOX) rest \<and> list_ex (\<lambda>b. box_type b = MOVIE_BOX) rest \<and> list_ex (\<lambda>b. box_type b = MEDIA_DATA_BOX) rest)"
  (is "?run bs \<longleftrightarrow> ?split bs")
proof
  show "?run bs \<Longrightarrow> ?split bs"
  proof (induction bs)
    case (Cons b bs)
    then obtain st1 st where s: "iso_step mimeType iso_start b = Some st1" "iso_run mimeType st1 bs = Some st" and f: "foundFileType st" "foundMovie st" "foundMediaData st"
      by (auto split: option.split_asm)
    from s(1) [unfolded iso_step_ftyp] show ?case
    proof (elim disjE conjE)
      assume b: "box_type b \<in> set LEADING_BOX_TYPES" and "st1 = iso_start"
      then have "?split bs" using s(2) f by (intro Cons.IH) auto
      then obtain leading ftyp rest where "bs = leading @ ftyp # rest" "list_all (\<lambda>b. box_type b \<in> set LEADING_BOX_TYPES) leading"
        "box_type ftyp = FILE_TYPE_BOX" "length (box_encode ftyp) \<le> MAX_FILE_TYPE_BOX_BYTES" "file_type_ok mimeType (box_payload ftyp)"
        "list_all (\<lambda>b. box_type b \<noteq> FILE_TYPE_BOX) rest" "list_ex (\<lambda>b. box_type b = MOVIE_BOX) rest" "list_ex (\<lambda>b. box_type b = MEDIA_DATA_BOX) rest" by blast
      then show ?case using b by (intro exI [of _ "b # leading"] exI [of _ ftyp] exI [of _ rest]) simp
    next
      assume "box_type b = FILE_TYPE_BOX" "length (box_encode b) \<le> MAX_FILE_TYPE_BOX_BYTES" "file_type_ok mimeType (box_payload b)" "st1 = iso_start\<lparr>foundFileType := True\<rparr>"
      then show ?case using s(2) f iso_run_rest [of st1 mimeType bs st] by (intro exI [of _ "[]"] exI [of _ b] exI [of _ bs]) auto
    qed
  qed simp
next
  assume "?split bs"
  then obtain leading ftyp rest where e: "bs = leading @ ftyp # rest" and l: "list_all (\<lambda>b. box_type b \<in> set LEADING_BOX_TYPES) leading"
    and f: "box_type ftyp = FILE_TYPE_BOX" "length (box_encode ftyp) \<le> MAX_FILE_TYPE_BOX_BYTES" "file_type_ok mimeType (box_payload ftyp)"
    and r: "list_all (\<lambda>b. box_type b \<noteq> FILE_TYPE_BOX) rest" "list_ex (\<lambda>b. box_type b = MOVIE_BOX) rest" "list_ex (\<lambda>b. box_type b = MEDIA_DATA_BOX) rest" by blast
  have "iso_run mimeType iso_start (leading @ ys) = iso_run mimeType iso_start ys" for ys
    using l
  proof (induction leading)
    case (Cons b leading)
    then have "iso_step mimeType iso_start b = Some iso_start" by (simp add: iso_step_ftyp)
    with Cons show ?case by simp
  qed simp
  moreover have "iso_step mimeType iso_start ftyp = Some (iso_start\<lparr>foundFileType := True\<rparr>)" using f by (simp add: iso_step_ftyp)
  ultimately have "iso_run mimeType iso_start bs = iso_run mimeType (iso_start\<lparr>foundFileType := True\<rparr>) rest" by (simp add: e)
  moreover have "iso_run mimeType (iso_start\<lparr>foundFileType := True\<rparr>) rest = Some \<lparr>foundFileType = True, foundMovie = True, foundMediaData = True\<rparr>"
    using r by (subst iso_run_rest) auto
  ultimately show "?run bs" by auto
qed

text \<open>
  C7. The check of MP4 and 3GPP files accepts exactly the files of at least 24 bytes that are the encoding of at most 4096 boxes: free space, one file
  type box of at most 4096 bytes whose brands include one of the declared family, then other boxes with a movie box and a media data
  box among them; only the last box may leave its size open.
\<close>
theorem matchesIsoBmffStructure_iff:
  "matchesIsoBmffStructure h mimeType \<longleftrightarrow> is_file h \<and> 24 \<le> file_size h \<and> (\<exists>boxes. contents h = concat (map box_encode boxes) \<and> iso_file mimeType boxes)"
proof -
  let ?found = "\<lambda>st. foundFileType st \<and> foundMovie st \<and> foundMediaData st"
  have loop: "iso_loop mimeType h (file_size h) 0 0 iso_start = Some (file_size h, k, st) \<longleftrightarrow>
      (\<exists>bs. boxes_of (contents h) bs \<and> k = length bs \<and> k \<le> MAX_TOP_LEVEL_BOXES \<and> iso_run mimeType iso_start bs = Some st)" for k st
    using iso_loop_iff [of 0 h 0 mimeType iso_start k st] by simp
  have "(case iso_loop mimeType h (file_size h) 0 0 iso_start of None \<Rightarrow> False
      | Some (offset, boxCount, st) \<Rightarrow> offset = file_size h \<and> boxCount > 0 \<and> boxCount \<le> MAX_TOP_LEVEL_BOXES \<and> foundFileType st \<and> foundMovie st \<and> foundMediaData st) \<longleftrightarrow>
    (\<exists>k st. iso_loop mimeType h (file_size h) 0 0 iso_start = Some (file_size h, k, st) \<and> k > 0 \<and> k \<le> MAX_TOP_LEVEL_BOXES \<and> ?found st)"
    by (auto split: option.split)
  also have "\<dots> \<longleftrightarrow> (\<exists>bs. boxes_of (contents h) bs \<and> length bs \<le> MAX_TOP_LEVEL_BOXES \<and> 0 < length bs \<and> (\<exists>st. iso_run mimeType iso_start bs = Some st \<and> ?found st))"
    unfolding loop by blast
  also have "\<dots> \<longleftrightarrow> (\<exists>bs. contents h = concat (map box_encode bs) \<and> iso_file mimeType bs)"
    unfolding iso_run_iff boxes_of_def iso_file_def length_greater_0_conv by (intro ex_cong1) blast
  finally show ?thesis by (cases "is_file h \<and> 24 \<le> file_size h") (auto simp: matchesIsoBmffStructure_def)
qed

end
