(* ===== verification/Media_Zip.thy ===== *)
theory Media_Zip
  imports Media_Text
begin

text \<open>
  The check of Office Open XML packages of src/src/media/media-content-signature.ts (\<open>matchesOoxmlPackageIdentity\<close>): the search for the end record of
  the ZIP archive, the central directory and the two local headers it looks at. Result: the accepted files are the archives whose
  parts fit together, with the entries that identify the declared family and none of another.
\<close>

section \<open>The package check\<close>

definition ZIP_LOCAL_HEADER_SIGNATURE :: nat where "ZIP_LOCAL_HEADER_SIGNATURE = 0x04034b50"

definition ZIP_CENTRAL_HEADER_SIGNATURE :: nat where "ZIP_CENTRAL_HEADER_SIGNATURE = 0x02014b50"

definition ZIP_END_OF_CENTRAL_DIRECTORY_SIGNATURE :: nat where "ZIP_END_OF_CENTRAL_DIRECTORY_SIGNATURE = 0x06054b50"

definition ZIP_MAX_EOCD_SEARCH_BYTES :: nat where "ZIP_MAX_EOCD_SEARCH_BYTES = 22 + 65535"

definition OOXML_MAX_CENTRAL_DIRECTORY_BYTES :: nat where "OOXML_MAX_CENTRAL_DIRECTORY_BYTES = 4 * 1024 * 1024"

definition OOXML_MAX_ENTRIES :: nat where "OOXML_MAX_ENTRIES = 10000"

definition ZIP16_MAX :: nat where "ZIP16_MAX = 0xffff"

definition ZIP32_MAX :: nat where "ZIP32_MAX = 0xffffffff"

definition OOXML_REQUIRED_ENTRY_BY_MIME :: "(string \<times> string) list" where
  "OOXML_REQUIRED_ENTRY_BY_MIME =
     [(''application/vnd.openxmlformats-officedocument.wordprocessingml.document'', ''word/document.xml''),
      (''application/vnd.openxmlformats-officedocument.spreadsheetml.sheet'', ''xl/workbook.xml''),
      (''application/vnd.openxmlformats-officedocument.presentationml.presentation'', ''ppt/presentation.xml'')]"

definition OOXML_CONTENT_TYPES_ENTRY :: string where
  "OOXML_CONTENT_TYPES_ENTRY = ''[Content_Types].xml''"

definition u16 :: "buffer \<Rightarrow> nat \<Rightarrow> nat" where
  "u16 b i = le_nat (subarray b i 2)"

definition u32 :: "buffer \<Rightarrow> nat \<Rightarrow> nat" where
  "u32 b i = le_nat (subarray b i 4)"

record ZipEndOfCentralDirectory =
  absoluteOffset :: nat
  centralDirectoryOffset :: nat
  centralDirectorySize :: nat
  totalEntries :: nat

text \<open>The loop of \<open>parseEndOfCentralDirectory\<close>, from \<open>offset\<close> down; the buffer has 22 bytes from each offset on.\<close>

fun eocd_scan :: "buffer \<Rightarrow> nat \<Rightarrow> nat \<Rightarrow> ZipEndOfCentralDirectory option" where
  "eocd_scan tail base offset =
     (if u32 tail offset \<noteq> ZIP_END_OF_CENTRAL_DIRECTORY_SIGNATURE \<or> offset + 22 + u16 tail (offset + 20) \<noteq> length tail
      then (case offset of 0 \<Rightarrow> None | Suc prev \<Rightarrow> eocd_scan tail base prev)
      else if u16 tail (offset + 4) \<noteq> 0 \<or> u16 tail (offset + 6) \<noteq> 0 \<or> u16 tail (offset + 8) \<noteq> u16 tail (offset + 10) \<or>
          u16 tail (offset + 8) = ZIP16_MAX \<or> u16 tail (offset + 10) = ZIP16_MAX \<or>
          u32 tail (offset + 12) = ZIP32_MAX \<or> u32 tail (offset + 16) = ZIP32_MAX then None
      else Some \<lparr>absoluteOffset = base + offset, centralDirectoryOffset = u32 tail (offset + 16), centralDirectorySize = u32 tail (offset + 12),
        totalEntries = u16 tail (offset + 10)\<rparr>)"

declare eocd_scan.simps [simp del]

definition parseEndOfCentralDirectory :: "buffer \<Rightarrow> nat \<Rightarrow> ZipEndOfCentralDirectory option" where
  "parseEndOfCentralDirectory tail base = (if length tail < 22 then None else eocd_scan tail base (length tail - 22))"

text \<open>Entries by name, each with the offset of its local header; names are texts, that is lists of code points.\<close>

type_synonym zip_entries = "(nat list \<times> nat) list"

fun central_loop :: "buffer \<Rightarrow> nat \<Rightarrow> nat \<Rightarrow> zip_entries \<Rightarrow> (nat \<times> zip_entries) option" where
  "central_loop directory 0 offset entries = Some (offset, entries)"
| "central_loop directory (Suc n) offset entries =
     (if offset + 46 > length directory then None
      else if u32 directory offset \<noteq> ZIP_CENTRAL_HEADER_SIGNATURE then None
      else let flags = u16 directory (offset + 8); fileNameLength = u16 directory (offset + 28);
               recordLength = 46 + fileNameLength + u16 directory (offset + 30) + u16 directory (offset + 32);
               localHeaderOffset = u32 directory (offset + 42)
      in if odd flags \<or> u32 directory (offset + 20) = ZIP32_MAX \<or> u32 directory (offset + 24) = ZIP32_MAX \<or> localHeaderOffset = ZIP32_MAX \<or>
          u16 directory (offset + 34) \<noteq> 0 \<or> fileNameLength = 0 \<or> offset + recordLength > length directory then None
      else let fileNameBytes = subarray directory (offset + 46) fileNameLength; name = utf8_decode fileNameBytes
      in if 0 \<in> set fileNameBytes then None
      else if name \<in> fst ` set entries then None
      else central_loop directory n (offset + recordLength) (entries @ [(name, localHeaderOffset)]))"

definition parseCentralDirectory :: "buffer \<Rightarrow> nat \<Rightarrow> zip_entries option" where
  "parseCentralDirectory directory expectedEntries =
     (case central_loop directory expectedEntries 0 [] of
        None \<Rightarrow> None | Some (offset, entries) \<Rightarrow> if offset = length directory then Some entries else None)"

definition matchesLocalHeader :: "handle \<Rightarrow> nat list \<Rightarrow> nat \<Rightarrow> nat \<Rightarrow> bool" where
  "matchesLocalHeader h name localHeaderOffset directoryOffset =
     (if localHeaderOffset + 30 > directoryOffset then False
      else case readExactly h 30 localHeaderOffset of
             None \<Rightarrow> False
           | Some fixedHeader \<Rightarrow>
               if u32 fixedHeader 0 \<noteq> ZIP_LOCAL_HEADER_SIGNATURE then False
               else let fileNameLength = u16 fixedHeader 26; headerEnd = localHeaderOffset + 30 + fileNameLength + u16 fixedHeader 28
               in if odd (u16 fixedHeader 6) \<or> fileNameLength = 0 \<or> headerEnd > directoryOffset then False
               else case readExactly h fileNameLength (localHeaderOffset + 30) of
                      None \<Rightarrow> False
                    | Some fileNameBytes \<Rightarrow> if 0 \<in> set fileNameBytes then False else utf8_decode fileNameBytes = name)"

definition matchesOoxmlPackageIdentity :: "handle \<Rightarrow> string \<Rightarrow> bool" where
  "matchesOoxmlPackageIdentity h mimeType =
     (case map_of OOXML_REQUIRED_ENTRY_BY_MIME mimeType of
        None \<Rightarrow> False
      | Some expectedFamilyEntry \<Rightarrow>
          if \<not> is_file h \<or> file_size h < 22 then False
          else let tailLength = min (file_size h) ZIP_MAX_EOCD_SEARCH_BYTES; tailOffset = file_size h - tailLength
          in case readExactly h tailLength tailOffset of
               None \<Rightarrow> False
             | Some tail \<Rightarrow>
          (case parseEndOfCentralDirectory tail tailOffset of
             None \<Rightarrow> False
           | Some eocd \<Rightarrow>
               if totalEntries eocd < 1 \<or> totalEntries eocd > OOXML_MAX_ENTRIES \<or> centralDirectorySize eocd < 1 \<or>
                  centralDirectorySize eocd > OOXML_MAX_CENTRAL_DIRECTORY_BYTES \<or>
                  centralDirectoryOffset eocd + centralDirectorySize eocd \<noteq> absoluteOffset eocd then False
               else case readExactly h (centralDirectorySize eocd) (centralDirectoryOffset eocd) of
                      None \<Rightarrow> False
                    | Some directory \<Rightarrow>
               (case parseCentralDirectory directory (totalEntries eocd) of
                  None \<Rightarrow> False
                | Some entries \<Rightarrow>
                    (case (map_of entries (code_points OOXML_CONTENT_TYPES_ENTRY), map_of entries (code_points expectedFamilyEntry)) of
                       (Some contentTypes, Some expectedFamily) \<Rightarrow>
                         if list_ex (\<lambda>familyEntry. familyEntry \<noteq> expectedFamilyEntry \<and> map_of entries (code_points familyEntry) \<noteq> None)
                              (map snd OOXML_REQUIRED_ENTRY_BY_MIME) then False
                         else matchesLocalHeader h (code_points OOXML_CONTENT_TYPES_ENTRY) contentTypes (centralDirectoryOffset eocd) \<and>
                              matchesLocalHeader h (code_points expectedFamilyEntry) expectedFamily (centralDirectoryOffset eocd)
                     | _ \<Rightarrow> False))))"

section \<open>The format\<close>

definition is_end_record :: "buffer \<Rightarrow> bool" where
  "is_end_record t \<longleftrightarrow> 22 \<le> length t \<and> u32 t 0 = ZIP_END_OF_CENTRAL_DIRECTORY_SIGNATURE \<and> 22 + u16 t 20 = length t"

definition single_disk :: "buffer \<Rightarrow> bool" where
  "single_disk t \<longleftrightarrow> u16 t 4 = 0 \<and> u16 t 6 = 0 \<and> u16 t 8 = u16 t 10 \<and> u16 t 10 \<noteq> ZIP16_MAX \<and> u32 t 12 \<noteq> ZIP32_MAX \<and> u32 t 16 \<noteq> ZIP32_MAX"

definition record_name :: "buffer \<Rightarrow> buffer" where
  "record_name r = subarray r 46 (u16 r 28)"

definition central_record :: "buffer \<Rightarrow> bool" where
  "central_record r \<longleftrightarrow> 46 \<le> length r \<and> u32 r 0 = ZIP_CENTRAL_HEADER_SIGNATURE \<and> length r = 46 + u16 r 28 + u16 r 30 + u16 r 32 \<and>
     even (u16 r 8) \<and> u32 r 20 \<noteq> ZIP32_MAX \<and> u32 r 24 \<noteq> ZIP32_MAX \<and> u32 r 42 \<noteq> ZIP32_MAX \<and> u16 r 34 = 0 \<and>
     record_name r \<noteq> [] \<and> 0 \<notin> set (record_name r)"

text \<open>The local header of an entry, in the part of the file before the central directory.\<close>

definition local_header :: "buffer \<Rightarrow> string \<Rightarrow> nat \<Rightarrow> bool" where
  "local_header body name off \<longleftrightarrow> off + 30 + u16 body (off + 26) + u16 body (off + 28) \<le> length body \<and>
     u32 body off = ZIP_LOCAL_HEADER_SIGNATURE \<and> even (u16 body (off + 6)) \<and> subarray body (off + 30) (u16 body (off + 26)) = of_latin1 name"

definition ooxml_package :: "string \<Rightarrow> buffer \<Rightarrow> buffer list \<Rightarrow> buffer \<Rightarrow> bool" where
  "ooxml_package family body records trailer \<longleftrightarrow>
     is_end_record trailer \<and> (\<forall>i. 0 < i \<longrightarrow> \<not> is_end_record (drop i trailer)) \<and> single_disk trailer \<and>
     u16 trailer 10 = length records \<and> u32 trailer 12 = length (concat records) \<and> u32 trailer 16 = length body \<and>
     1 \<le> length records \<and> length records \<le> OOXML_MAX_ENTRIES \<and> length (concat records) \<le> OOXML_MAX_CENTRAL_DIRECTORY_BYTES \<and>
     list_all central_record records \<and> distinct (map (\<lambda>r. utf8_decode (record_name r)) records) \<and>
     (\<forall>name \<in> {OOXML_CONTENT_TYPES_ENTRY, family}. \<exists>r \<in> set records. record_name r = of_latin1 name \<and> local_header body name (u32 r 42)) \<and>
     (\<forall>other \<in> snd ` set OOXML_REQUIRED_ENTRY_BY_MIME. other \<noteq> family \<longrightarrow> of_latin1 other \<notin> record_name ` set records)"

section \<open>The end record\<close>

lemma u_drop: "u16 (drop k b) i = u16 b (k + i)" "u32 (drop k b) i = u32 b (k + i)"
  by (simp_all add: u16_def u32_def subarray_drop)

lemma u_append: "i + 2 \<le> length a \<Longrightarrow> u16 (a @ b) i = u16 a i" "i + 4 \<le> length a \<Longrightarrow> u32 (a @ b) i = u32 a i"
  by (simp_all add: u16_def u32_def subarray_append_left)

lemma u_take: "i + 2 \<le> n \<Longrightarrow> u16 (take n b) i = u16 b i" "i + 4 \<le> n \<Longrightarrow> u32 (take n b) i = u32 b i"
  by (simp_all add: u16_def u32_def subarray_take)

lemma u16_less: "u16 b i < 65536"
proof -
  have "be_nat (rev (subarray b i 2)) < 256 ^ length (rev (subarray b i 2))" by (rule be_nat_less)
  also have "\<dots> \<le> 256 ^ 2" by (rule power_increasing) simp_all
  finally show ?thesis by (simp add: u16_def le_nat_def)
qed

definition end_record_of :: "nat \<Rightarrow> buffer \<Rightarrow> ZipEndOfCentralDirectory" where
  "end_record_of pos t = \<lparr>absoluteOffset = pos, centralDirectoryOffset = u32 t 16, centralDirectorySize = u32 t 12, totalEntries = u16 t 10\<rparr>"

lemma eocd_scan_step:
  assumes "n + 22 \<le> length tail"
  shows "eocd_scan tail base n =
    (if is_end_record (drop n tail) then if single_disk (drop n tail) then Some (end_record_of (base + n) (drop n tail)) else None
     else case n of 0 \<Rightarrow> None | Suc prev \<Rightarrow> eocd_scan tail base prev)"
proof -
  have e: "is_end_record (drop n tail) \<longleftrightarrow> \<not> (u32 tail n \<noteq> ZIP_END_OF_CENTRAL_DIRECTORY_SIGNATURE \<or> n + 22 + u16 tail (n + 20) \<noteq> length tail)"
    using assms by (auto simp: is_end_record_def u_drop)
  have d: "single_disk (drop n tail) \<longleftrightarrow> \<not> (u16 tail (n + 4) \<noteq> 0 \<or> u16 tail (n + 6) \<noteq> 0 \<or> u16 tail (n + 8) \<noteq> u16 tail (n + 10) \<or>
      u16 tail (n + 8) = ZIP16_MAX \<or> u16 tail (n + 10) = ZIP16_MAX \<or> u32 tail (n + 12) = ZIP32_MAX \<or> u32 tail (n + 16) = ZIP32_MAX)"
    by (auto simp: single_disk_def u_drop)
  show ?thesis by (subst eocd_scan.simps) (simp only: e d if_not_P if_P not_not end_record_of_def u_drop split: if_split, simp)
qed

definition last_end_record :: "buffer \<Rightarrow> nat \<Rightarrow> nat \<Rightarrow> bool" where
  "last_end_record tail n m \<longleftrightarrow> m \<le> n \<and> is_end_record (drop m tail) \<and> (\<forall>p. m < p \<and> p \<le> n \<longrightarrow> \<not> is_end_record (drop p tail))"

lemma last_end_record_Suc:
  "last_end_record tail (Suc n) m \<longleftrightarrow> (if is_end_record (drop (Suc n) tail) then m = Suc n else last_end_record tail n m)"
proof (cases "is_end_record (drop (Suc n) tail)")
  case True
  have "m = Suc n" if "last_end_record tail (Suc n) m"
  proof (rule ccontr)
    assume "m \<noteq> Suc n"
    then have "m < Suc n" using that by (simp add: last_end_record_def)
    then show False using that True by (simp add: last_end_record_def)
  qed
  moreover have "last_end_record tail (Suc n) (Suc n)" using True by (auto simp: last_end_record_def)
  ultimately show ?thesis using True by auto
next
  case False
  then have "m \<noteq> Suc n" if "is_end_record (drop m tail)" using that by metis
  then show ?thesis using False by (auto simp: last_end_record_def le_Suc_eq)
qed

lemma eocd_scan_iff:
  "n + 22 \<le> length tail \<Longrightarrow> eocd_scan tail base n = Some e \<longleftrightarrow>
     (\<exists>m. last_end_record tail n m \<and> single_disk (drop m tail) \<and> e = end_record_of (base + m) (drop m tail))"
proof (induction n)
  case 0
  show ?case unfolding eocd_scan_step [OF 0] by (auto simp: last_end_record_def)
next
  case (Suc n)
  then have "eocd_scan tail base n = Some e \<longleftrightarrow> (\<exists>m. last_end_record tail n m \<and> single_disk (drop m tail) \<and> e = end_record_of (base + m) (drop m tail))" by simp
  then show ?case unfolding eocd_scan_step [OF Suc.prems] last_end_record_Suc nat.case by (cases "is_end_record (drop (Suc n) tail)") auto
qed

text \<open>The end record that the search finds in the last bytes of the file is the last one of the whole file.\<close>

lemma end_record_window: "is_end_record (drop i b) \<Longrightarrow> length b - (22 + 65535) \<le> i"
  using u16_less [of "drop i b" 20] by (auto simp: is_end_record_def)

lemma parseEndOfCentralDirectory_iff:
  fixes b :: buffer
  assumes "22 \<le> length b"
  defines "off \<equiv> length b - min (length b) ZIP_MAX_EOCD_SEARCH_BYTES"
  shows "parseEndOfCentralDirectory (drop off b) off = Some e \<longleftrightarrow>
    (\<exists>m. is_end_record (drop m b) \<and> (\<forall>p > m. \<not> is_end_record (drop p b)) \<and> single_disk (drop m b) \<and> e = end_record_of m (drop m b))"
proof -
  have off: "off = length b - (22 + 65535)" by (simp add: off_def ZIP_MAX_EOCD_SEARCH_BYTES_def min_def)
  have l: "22 \<le> length (drop off b)" using assms(1) by (simp add: off)
  have win: "is_end_record (drop p b) \<Longrightarrow> off \<le> p \<and> p \<le> length b - 22" for p
    using end_record_window [of p b] by (auto simp: off is_end_record_def)
  have n: "length (drop off b) - 22 + 22 \<le> length (drop off b)" using l by simp
  show ?thesis
  proof
    assume "parseEndOfCentralDirectory (drop off b) off = Some e"
    then obtain m where m: "is_end_record (drop (off + m) b)" "\<forall>p. m < p \<and> p \<le> length (drop off b) - 22 \<longrightarrow> \<not> is_end_record (drop (off + p) b)"
      "single_disk (drop (off + m) b)" "e = end_record_of (off + m) (drop (off + m) b)"
      using l eocd_scan_iff [OF n, of off e] by (auto simp: parseEndOfCentralDirectory_def last_end_record_def add.commute)
    have "\<not> is_end_record (drop p b)" if "off + m < p" for p
    proof
      assume p: "is_end_record (drop p b)"
      then have "m < p - off" "p - off \<le> length (drop off b) - 22" using win [OF p] that by auto
      with m(2) have "\<not> is_end_record (drop (off + (p - off)) b)" by blast
      with p win [OF p] show False by simp
    qed
    with m show "\<exists>m. is_end_record (drop m b) \<and> (\<forall>p > m. \<not> is_end_record (drop p b)) \<and> single_disk (drop m b) \<and> e = end_record_of m (drop m b)" by blast
  next
    assume "\<exists>m. is_end_record (drop m b) \<and> (\<forall>p > m. \<not> is_end_record (drop p b)) \<and> single_disk (drop m b) \<and> e = end_record_of m (drop m b)"
    then obtain m where m: "is_end_record (drop m b)" "\<forall>p > m. \<not> is_end_record (drop p b)" "single_disk (drop m b)" "e = end_record_of m (drop m b)" by blast
    have w: "off \<le> m" "m \<le> length b - 22" using win [OF m(1)] by auto
    have d: "drop (m - off) (drop off b) = drop m b" using w by simp
    have "last_end_record (drop off b) (length (drop off b) - 22) (m - off)"
      unfolding last_end_record_def d
    proof (intro conjI allI impI)
      fix p assume "m - off < p \<and> p \<le> length (drop off b) - 22"
      then have "m < p + off" using w by linarith
      then show "\<not> is_end_record (drop p (drop off b))" using m(2) by (simp add: add.commute)
    qed (use w m in auto)
    moreover have "off + (m - off) = m" using w by simp
    ultimately have "\<exists>k. last_end_record (drop off b) (length (drop off b) - 22) k \<and> single_disk (drop k (drop off b)) \<and> e = end_record_of (off + k) (drop k (drop off b))"
      using m(3,4) d by (intro exI [of _ "m - off"]) simp
    then show "parseEndOfCentralDirectory (drop off b) off = Some e" using l eocd_scan_iff [OF n, of off e] by (simp add: parseEndOfCentralDirectory_def)
  qed
qed

section \<open>The central directory\<close>

definition record_length :: "buffer \<Rightarrow> nat" where
  "record_length b = 46 + u16 b 28 + u16 b 30 + u16 b 32"

definition record_entry :: "buffer \<Rightarrow> nat list \<times> nat" where
  "record_entry r = (utf8_decode (record_name r), u32 r 42)"

definition starts_record :: "buffer \<Rightarrow> bool" where
  "starts_record b \<longleftrightarrow> 46 \<le> length b \<and> record_length b \<le> length b \<and> central_record (take (record_length b) b)"

lemma record_length_append: "46 \<le> length r \<Longrightarrow> record_length (r @ x) = record_length r"
  by (simp add: record_length_def u_append)

lemma central_record_length: "central_record r \<Longrightarrow> record_length r = length r"
  by (simp add: central_record_def record_length_def)

lemma starts_record_iff: "starts_record b \<longleftrightarrow> (\<exists>r x. b = r @ x \<and> central_record r)"
proof
  assume "starts_record b"
  then show "\<exists>r x. b = r @ x \<and> central_record r" unfolding starts_record_def by (metis append_take_drop_id)
next
  assume "\<exists>r x. b = r @ x \<and> central_record r"
  then obtain r x where r: "b = r @ x" "central_record r" by blast
  then have "record_length b = length r" "46 \<le> length r" using record_length_append [of r x] central_record_length by (auto simp: central_record_def)
  then show "starts_record b" using r by (simp add: starts_record_def)
qed

lemma starts_record_fields:
  "starts_record b \<longleftrightarrow> 46 \<le> length b \<and> record_length b \<le> length b \<and> u32 b 0 = ZIP_CENTRAL_HEADER_SIGNATURE \<and> even (u16 b 8) \<and>
     u32 b 20 \<noteq> ZIP32_MAX \<and> u32 b 24 \<noteq> ZIP32_MAX \<and> u32 b 42 \<noteq> ZIP32_MAX \<and> u16 b 34 = 0 \<and> u16 b 28 \<noteq> 0 \<and> 0 \<notin> set (record_name b)"
proof (cases "46 \<le> length b \<and> record_length b \<le> length b")
  case True
  let ?r = "take (record_length b) b"
  have l: "46 \<le> record_length b" by (simp add: record_length_def)
  have f: "u32 ?r 0 = u32 b 0" "u16 ?r 8 = u16 b 8" "u32 ?r 20 = u32 b 20" "u32 ?r 24 = u32 b 24" "u32 ?r 42 = u32 b 42"
    "u16 ?r 34 = u16 b 34" "u16 ?r 28 = u16 b 28" "u16 ?r 30 = u16 b 30" "u16 ?r 32 = u16 b 32"
    using l by (simp_all add: u_take)
  have "46 + u16 b 28 \<le> record_length b" by (simp add: record_length_def)
  then have n: "record_name ?r = record_name b" by (simp add: record_name_def f subarray_take)
  have "record_name b = [] \<longleftrightarrow> u16 b 28 = 0" using True by (auto simp: record_name_def record_length_def subarray_def)
  moreover have "length ?r = record_length b" using True by simp
  ultimately show ?thesis using True l unfolding starts_record_def central_record_def n f by (auto simp: record_length_def)
qed (auto simp: starts_record_def)

lemma central_loop_step:
  "central_loop directory (Suc n) off entries =
     (let rest = drop off directory; r = take (record_length rest) rest
      in if starts_record rest \<and> fst (record_entry r) \<notin> fst ` set entries
         then central_loop directory n (off + record_length rest) (entries @ [record_entry r]) else None)"
proof (cases "starts_record (drop off directory)")
  case False
  then have "\<not> (46 \<le> length directory - off \<and> record_length (drop off directory) \<le> length directory - off \<and> u32 directory off = ZIP_CENTRAL_HEADER_SIGNATURE \<and>
      even (u16 directory (off + 8)) \<and> u32 directory (off + 20) \<noteq> ZIP32_MAX \<and> u32 directory (off + 24) \<noteq> ZIP32_MAX \<and> u32 directory (off + 42) \<noteq> ZIP32_MAX \<and>
      u16 directory (off + 34) = 0 \<and> u16 directory (off + 28) \<noteq> 0 \<and> 0 \<notin> set (subarray directory (off + 46) (u16 directory (off + 28))))"
    by (simp add: starts_record_fields u_drop record_name_def subarray_drop)
  moreover have "record_length (drop off directory) = 46 + u16 directory (off + 28) + u16 directory (off + 30) + u16 directory (off + 32)" by (simp add: record_length_def u_drop)
  ultimately have "central_loop directory (Suc n) off entries = None" by (auto simp: Let_def)
  then show ?thesis using False by (simp only: Let_def if_False simp_thms)
next
  case True
  let ?rest = "drop off directory" and ?r = "take (record_length (drop off directory)) (drop off directory)"
  have f: "46 \<le> length directory - off" "record_length ?rest \<le> length directory - off" "u32 directory off = ZIP_CENTRAL_HEADER_SIGNATURE"
    "even (u16 directory (off + 8))" "u32 directory (off + 20) \<noteq> ZIP32_MAX" "u32 directory (off + 24) \<noteq> ZIP32_MAX" "u32 directory (off + 42) \<noteq> ZIP32_MAX"
    "u16 directory (off + 34) = 0" "u16 directory (off + 28) \<noteq> 0" "0 \<notin> set (subarray directory (off + 46) (u16 directory (off + 28)))"
    using True by (simp_all add: starts_record_fields u_drop record_name_def subarray_drop)
  have l: "record_length ?rest = 46 + u16 directory (off + 28) + u16 directory (off + 30) + u16 directory (off + 32)" by (simp add: record_length_def u_drop)
  have "46 \<le> record_length ?rest" "46 + u16 ?rest 28 \<le> record_length ?rest" by (simp_all add: record_length_def)
  then have "record_entry ?r = (utf8_decode (subarray directory (off + 46) (u16 directory (off + 28))), u32 directory (off + 42))"
    by (simp add: record_entry_def record_name_def u_take subarray_take u_drop subarray_drop)
  moreover have "off + 46 \<le> length directory" "off + record_length ?rest \<le> length directory" using f(1,2) by linarith+
  ultimately show ?thesis using True f(3-) by (simp add: Let_def l not_less)
qed

declare central_loop.simps(2) [simp del]

lemma central_loop_iff:
  assumes "off \<le> length directory" and "distinct (map fst entries)"
  shows "central_loop directory n off entries = Some (off', entries') \<longleftrightarrow>
    (\<exists>rs. length rs = n \<and> drop off directory = concat rs @ drop off' directory \<and> off' = off + length (concat rs) \<and> off' \<le> length directory \<and>
       list_all central_record rs \<and> entries' = entries @ map record_entry rs \<and> distinct (map fst entries'))"
  using assms
proof (induction n arbitrary: off entries)
  case 0
  then show ?case by auto
next
  case (Suc n)
  let ?rest = "drop off directory" and ?r = "take (record_length (drop off directory)) (drop off directory)"
  let ?off = "off + record_length ?rest" and ?es = "entries @ [record_entry ?r]"
  show ?case
  proof (cases "starts_record ?rest \<and> fst (record_entry ?r) \<notin> fst ` set entries")
    case True
    then have r: "central_record ?r" "record_length ?rest \<le> length directory - off" by (simp_all add: starts_record_def)
    have cut: "?rest = ?r @ drop ?off directory" by (metis append_take_drop_id drop_drop add.commute)
    have len: "length ?r = record_length ?rest" using r(2) by simp
    have o: "?off \<le> length directory" using r(2) Suc.prems(1) by linarith
    have d: "distinct (map fst ?es)" using True Suc.prems(2) by simp
    note IH = Suc.IH [OF o d]
    have "central_loop directory (Suc n) off entries = central_loop directory n ?off ?es" using True by (simp add: central_loop_step Let_def)
    also have "\<dots> = Some (off', entries') \<longleftrightarrow>
      (\<exists>rs. length rs = n \<and> drop ?off directory = concat rs @ drop off' directory \<and> off' = ?off + length (concat rs) \<and> off' \<le> length directory \<and>
         list_all central_record rs \<and> entries' = ?es @ map record_entry rs \<and> distinct (map fst entries'))" by (rule IH)
    also have "\<dots> \<longleftrightarrow> (\<exists>rs. length rs = Suc n \<and> ?rest = concat rs @ drop off' directory \<and> off' = off + length (concat rs) \<and> off' \<le> length directory \<and>
       list_all central_record rs \<and> entries' = entries @ map record_entry rs \<and> distinct (map fst entries'))" (is "(\<exists>rs. ?L rs) \<longleftrightarrow> (\<exists>rs. ?R rs)")
    proof
      assume "\<exists>rs. ?L rs"
      then obtain rs where "?L rs" ..
      then have L: "length rs = n" "drop ?off directory = concat rs @ drop off' directory" "off' = ?off + length (concat rs)" "off' \<le> length directory"
        "list_all central_record rs" "entries' = ?es @ map record_entry rs" "distinct (map fst entries')" by - (elim conjE, assumption)+
      have "concat (?r # rs) @ drop off' directory = ?r @ drop ?off directory" by (simp only: L(2) concat.simps append_assoc)
      then have R1: "?rest = concat (?r # rs) @ drop off' directory" by (rule trans [OF cut sym])
      have R2: "off' = off + length (concat (?r # rs))" using L(3) len by (simp only: concat.simps length_append add.assoc)
      have R3: "entries' = entries @ map record_entry (?r # rs)" using L(6) by (simp only: list.map append_assoc append.simps)
      have R4: "length (?r # rs) = Suc n" "list_all central_record (?r # rs)" using L(1,5) r(1) by simp_all
      have "?R (?r # rs)" by (intro conjI) (fact R1 R2 R3 R4 L(4,7))+
      then show "\<exists>rs. ?R rs" by (rule exI)
    next
      assume "\<exists>rs. ?R rs"
      then obtain qs where qs: "?R qs" ..
      then obtain q rs where e: "qs = q # rs" by (cases qs) simp_all
      have R: "length rs = n" "off' = off + (length q + length (concat rs))" "off' \<le> length directory" "central_record q" "list_all central_record rs"
        "entries' = entries @ record_entry q # map record_entry rs"
        using qs unfolding e by simp_all
      have R5: "distinct (map fst entries')" using qs by - (elim conjE, assumption)
      have rest: "?rest = q @ concat rs @ drop off' directory" using qs unfolding e by simp
      have l: "record_length ?rest = length q" using R(4) record_length_append [of q] central_record_length [OF R(4)] by (simp add: rest central_record_def)
      have L1: "?r = q" unfolding l by (simp add: rest)
      have L2: "drop ?off directory = concat rs @ drop off' directory"
        using l rest by (metis add.commute append_eq_conv_conj drop_drop)
      have L3: "off' = ?off + length (concat rs)" using R(2) l by simp
      have L4: "entries' = ?es @ map record_entry rs" unfolding L1 using R(6) by simp
      have "?L rs" by (intro conjI) (fact L2 L3 L4 R R5)+
      then show "\<exists>rs. ?L rs" by (rule exI)
    qed
    finally show ?thesis .
  next
    case False
    have "\<not> (\<exists>rs. length rs = Suc n \<and> ?rest = concat rs @ drop off' directory \<and> off' = off + length (concat rs) \<and> off' \<le> length directory \<and>
       list_all central_record rs \<and> entries' = entries @ map record_entry rs \<and> distinct (map fst entries'))"
    proof
      assume "\<exists>rs. length rs = Suc n \<and> ?rest = concat rs @ drop off' directory \<and> off' = off + length (concat rs) \<and> off' \<le> length directory \<and>
       list_all central_record rs \<and> entries' = entries @ map record_entry rs \<and> distinct (map fst entries')"
      then obtain qs where qs: "length qs = Suc n" "?rest = concat qs @ drop off' directory" "list_all central_record qs" "entries' = entries @ map record_entry qs"
        "distinct (map fst entries')" by (elim exE conjE)
      from qs(1) obtain q rs where e: "qs = q # rs" by (cases qs) simp_all
      have q: "?rest = concat (q # rs) @ drop off' directory" "list_all central_record (q # rs)" "distinct (map fst (entries @ map record_entry (q # rs)))"
        using qs(2,3) qs(5) [unfolded qs(4)] by (simp_all only: e)
      then have c: "central_record q" "?rest = q @ concat rs @ drop off' directory" by simp_all
      then have "starts_record ?rest" unfolding starts_record_iff by blast
      moreover have "record_length ?rest = length q" using c record_length_append [of q] central_record_length [OF c(1)] by (simp add: central_record_def)
      then have "?r = q" using c(2) by simp
      then have "fst (record_entry ?r) \<notin> fst ` set entries" using q(3) by auto
      ultimately show False using False by blast
    qed
    moreover have "central_loop directory (Suc n) off entries = None" using False by (auto simp: central_loop_step Let_def)
    ultimately show ?thesis by simp
  qed
qed

lemma parseCentralDirectory_iff:
  "parseCentralDirectory directory n = Some entries \<longleftrightarrow>
     (\<exists>rs. length rs = n \<and> directory = concat rs \<and> list_all central_record rs \<and> distinct (map (\<lambda>r. utf8_decode (record_name r)) rs) \<and> entries = map record_entry rs)"
proof -
  have d: "map fst (map record_entry rs) = map (\<lambda>r. utf8_decode (record_name r)) rs" for rs by (simp add: record_entry_def comp_def)
  have "parseCentralDirectory directory n = Some entries \<longleftrightarrow> central_loop directory n 0 [] = Some (length directory, entries)"
    by (auto simp: parseCentralDirectory_def split: option.split)
  also have "\<dots> \<longleftrightarrow> (\<exists>rs. length rs = n \<and> directory = concat rs \<and> list_all central_record rs \<and> distinct (map (\<lambda>r. utf8_decode (record_name r)) rs) \<and> entries = map record_entry rs)"
    by (subst central_loop_iff) (simp_all add: d [symmetric], auto)
  finally show ?thesis .
qed

section \<open>Packages\<close>

lemma literal_names:
  "list_all (\<lambda>c. of_char c < (0x80 :: nat)) OOXML_CONTENT_TYPES_ENTRY"
  "(mimeType, entry) \<in> set OOXML_REQUIRED_ENTRY_BY_MIME \<Longrightarrow> list_all (\<lambda>c. of_char c < (0x80 :: nat)) entry"
  by (auto simp: OOXML_CONTENT_TYPES_ENTRY_def OOXML_REQUIRED_ENTRY_BY_MIME_def)

lemma map_of_records:
  assumes "distinct (map (\<lambda>r. utf8_decode (record_name r)) rs)" and "list_all (\<lambda>c. of_char c < (0x80 :: nat)) name"
  shows "map_of (map record_entry rs) (code_points name) = Some off \<longleftrightarrow> (\<exists>r \<in> set rs. record_name r = of_latin1 name \<and> u32 r 42 = off)"
proof -
  have "distinct (map fst (map record_entry rs))" using assms(1) by (simp add: record_entry_def comp_def)
  then have "map_of (map record_entry rs) (code_points name) = Some off \<longleftrightarrow> (code_points name, off) \<in> set (map record_entry rs)" by simp
  also have "\<dots> \<longleftrightarrow> (\<exists>r \<in> set rs. utf8_decode (record_name r) = code_points name \<and> u32 r 42 = off)" by (simp add: record_entry_def image_iff) metis
  finally show ?thesis by (simp add: utf8_decode_literal [OF assms(2)])
qed

lemma matchesLocalHeader_iff:
  assumes "contents h = body @ rest" and "list_all (\<lambda>c. of_char c < (0x80 :: nat)) name" and "name \<noteq> []" and "CHR 0x00 \<notin> set name"
  shows "matchesLocalHeader h (code_points name) off (length body) \<longleftrightarrow> local_header body name off"
proof (cases "off + 30 \<le> length body")
  case False
  then show ?thesis by (simp add: matchesLocalHeader_def local_header_def)
next
  case True
  let ?n = "u16 body (off + 26)"
  have f: "readExactly h 30 off = Some (subarray body off 30)" using True assms(1) by (simp add: readExactly_eq subarray_append_left)
  have u: "u32 (subarray body off 30) 0 = u32 body off" "u16 (subarray body off 30) 6 = u16 body (off + 6)" "u16 (subarray body off 30) 26 = ?n"
    "u16 (subarray body off 30) 28 = u16 body (off + 28)"
    by (simp_all add: u16_def u32_def subarray_subarray)
  have z: "0 \<notin> set (of_latin1 name)"
  proof
    assume "0 \<in> set (of_latin1 name)"
    then obtain c where c: "c \<in> set name" "(of_char c :: byte) = 0" by (auto simp: of_latin1_def)
    then have "(of_char c :: nat) = 0" using of_char_byte [of c] by simp
    then have "c = CHR 0x00" by (simp add: of_char_eq_iff [symmetric, where ?'a = nat] flip: of_char_eq_iff)
    with c(1) assms(4) show False by simp
  qed
  show ?thesis
  proof (cases "off + 30 + ?n + u16 body (off + 28) \<le> length body")
    case False
    then show ?thesis using True by (auto simp: matchesLocalHeader_def local_header_def f u Let_def)
  next
    case fits: True
    have r: "readExactly h ?n (off + 30) = Some (subarray body (off + 30) ?n)" using fits assms(1) by (simp add: readExactly_eq subarray_append_left)
    have n: "?n \<noteq> 0" if "subarray body (off + 30) ?n = of_latin1 name" 
      by (rule notI) (use that assms(3) in \<open>simp add: of_latin1_def\<close>)
    show ?thesis using True fits n z
      by (auto simp: matchesLocalHeader_def local_header_def f u r Let_def utf8_decode_literal [OF assms(2)])
  qed
qed

lemma entry_names:
  "OOXML_CONTENT_TYPES_ENTRY \<noteq> []" "CHR 0x00 \<notin> set OOXML_CONTENT_TYPES_ENTRY"
  "map_of OOXML_REQUIRED_ENTRY_BY_MIME mimeType = Some entry \<Longrightarrow> entry \<noteq> [] \<and> CHR 0x00 \<notin> set entry \<and> (mimeType, entry) \<in> set OOXML_REQUIRED_ENTRY_BY_MIME"
  by (auto simp: OOXML_CONTENT_TYPES_ENTRY_def OOXML_REQUIRED_ENTRY_BY_MIME_def split: if_split_asm)

text \<open>What the check does with the entries of the directory.\<close>

lemma entries_verdict:
  assumes "contents h = body @ rest" and "distinct (map (\<lambda>r. utf8_decode (record_name r)) rs)" and fam: "map_of OOXML_REQUIRED_ENTRY_BY_MIME mimeType = Some family"
  shows "(case (map_of (map record_entry rs) (code_points OOXML_CONTENT_TYPES_ENTRY), map_of (map record_entry rs) (code_points family)) of
       (Some contentTypes, Some expectedFamily) \<Rightarrow>
         if list_ex (\<lambda>other. other \<noteq> family \<and> map_of (map record_entry rs) (code_points other) \<noteq> None) (map snd OOXML_REQUIRED_ENTRY_BY_MIME) then False
         else matchesLocalHeader h (code_points OOXML_CONTENT_TYPES_ENTRY) contentTypes (length body) \<and>
              matchesLocalHeader h (code_points family) expectedFamily (length body)
     | _ \<Rightarrow> False) \<longleftrightarrow>
   (\<forall>name \<in> {OOXML_CONTENT_TYPES_ENTRY, family}. \<exists>r \<in> set rs. record_name r = of_latin1 name \<and> local_header body name (u32 r 42)) \<and>
     (\<forall>other \<in> snd ` set OOXML_REQUIRED_ENTRY_BY_MIME. other \<noteq> family \<longrightarrow> of_latin1 other \<notin> record_name ` set rs)"
proof -
  note fam' = entry_names(3) [OF fam]
  let ?m = "map_of (map record_entry rs)"
  have lh: "(\<exists>off. ?m (code_points name) = Some off \<and> matchesLocalHeader h (code_points name) off (length body)) \<longleftrightarrow>
      (\<exists>r \<in> set rs. record_name r = of_latin1 name \<and> local_header body name (u32 r 42))"
    if "list_all (\<lambda>c. of_char c < (0x80 :: nat)) name" "name \<noteq> []" "CHR 0x00 \<notin> set name" for name
    using map_of_records [OF assms(2) that(1)] matchesLocalHeader_iff [OF assms(1) that] by auto
  have absent: "?m (code_points other) = None \<longleftrightarrow> of_latin1 other \<notin> record_name ` set rs" if "other \<in> snd ` set OOXML_REQUIRED_ENTRY_BY_MIME" for other
  proof -
    have "list_all (\<lambda>c. of_char c < (0x80 :: nat)) other" using that literal_names(2) by auto
    from map_of_records [OF assms(2) this] show ?thesis by (metis (no_types, lifting) image_iff not_None_eq)
  qed
  have o: "list_ex (\<lambda>other. other \<noteq> family \<and> ?m (code_points other) \<noteq> None) (map snd OOXML_REQUIRED_ENTRY_BY_MIME) \<longleftrightarrow>
      \<not> (\<forall>other \<in> snd ` set OOXML_REQUIRED_ENTRY_BY_MIME. other \<noteq> family \<longrightarrow> of_latin1 other \<notin> record_name ` set rs)"
  proof -
    have "list_ex (\<lambda>other. other \<noteq> family \<and> ?m (code_points other) \<noteq> None) (map snd OOXML_REQUIRED_ENTRY_BY_MIME) \<longleftrightarrow>
        (\<exists>other \<in> snd ` set OOXML_REQUIRED_ENTRY_BY_MIME. other \<noteq> family \<and> ?m (code_points other) \<noteq> None)" by (simp only: list_ex_iff set_map)
    also have "\<dots> \<longleftrightarrow> (\<exists>other \<in> snd ` set OOXML_REQUIRED_ENTRY_BY_MIME. other \<noteq> family \<and> of_latin1 other \<in> record_name ` set rs)"
      by (rule bex_cong [OF refl]) (simp only: absent not_not)
    finally show ?thesis by (simp only: bex_simps ball_simps not_imp not_not simp_thms)
  qed
  have "(case (?m (code_points OOXML_CONTENT_TYPES_ENTRY), ?m (code_points family)) of (Some a, Some b) \<Rightarrow> if X then False else P a \<and> Q b | _ \<Rightarrow> False) \<longleftrightarrow>
      (\<exists>a. ?m (code_points OOXML_CONTENT_TYPES_ENTRY) = Some a \<and> P a) \<and> (\<exists>b. ?m (code_points family) = Some b \<and> Q b) \<and> \<not> X" for P Q X
    by (auto split: option.split)
  note case_eq = this [of "list_ex (\<lambda>other. other \<noteq> family \<and> ?m (code_points other) \<noteq> None) (map snd OOXML_REQUIRED_ENTRY_BY_MIME)"]
  have l2: "(\<exists>off. ?m (code_points family) = Some off \<and> matchesLocalHeader h (code_points family) off (length body)) \<longleftrightarrow>
      (\<exists>r \<in> set rs. record_name r = of_latin1 family \<and> local_header body family (u32 r 42))"
    using fam' literal_names(2) by (intro lh) blast+
  show ?thesis unfolding case_eq by (simp only: o lh [OF literal_names(1) entry_names(1,2)] l2 not_not Set.ball_simps(5,7) simp_thms conj_assoc)
qed

text \<open>The steps of the check, one existential for each value that it reads.\<close>

definition verdict :: "handle \<Rightarrow> string \<Rightarrow> zip_entries \<Rightarrow> nat \<Rightarrow> bool" where
  "verdict h family entries directoryOffset =
     (case (map_of entries (code_points OOXML_CONTENT_TYPES_ENTRY), map_of entries (code_points family)) of
        (Some contentTypes, Some expectedFamily) \<Rightarrow>
          if list_ex (\<lambda>other. other \<noteq> family \<and> map_of entries (code_points other) \<noteq> None) (map snd OOXML_REQUIRED_ENTRY_BY_MIME) then False
          else matchesLocalHeader h (code_points OOXML_CONTENT_TYPES_ENTRY) contentTypes directoryOffset \<and>
               matchesLocalHeader h (code_points family) expectedFamily directoryOffset
      | _ \<Rightarrow> False)"

lemma package_steps:
  assumes fam: "map_of OOXML_REQUIRED_ENTRY_BY_MIME mimeType = Some family" and f: "is_file h" "22 \<le> file_size h"
  shows "matchesOoxmlPackageIdentity h mimeType \<longleftrightarrow>
    (\<exists>e directory entries.
       parseEndOfCentralDirectory (drop (file_size h - min (file_size h) ZIP_MAX_EOCD_SEARCH_BYTES) (contents h)) (file_size h - min (file_size h) ZIP_MAX_EOCD_SEARCH_BYTES) = Some e \<and>
       1 \<le> totalEntries e \<and> totalEntries e \<le> OOXML_MAX_ENTRIES \<and> 1 \<le> centralDirectorySize e \<and> centralDirectorySize e \<le> OOXML_MAX_CENTRAL_DIRECTORY_BYTES \<and>
       centralDirectoryOffset e + centralDirectorySize e = absoluteOffset e \<and>
       readExactly h (centralDirectorySize e) (centralDirectoryOffset e) = Some directory \<and>
       parseCentralDirectory directory (totalEntries e) = Some entries \<and> verdict h family entries (centralDirectoryOffset e))"
proof -
  let ?off = "file_size h - min (file_size h) ZIP_MAX_EOCD_SEARCH_BYTES"
  have t: "readExactly h (min (file_size h) ZIP_MAX_EOCD_SEARCH_BYTES) ?off = Some (drop ?off (contents h))"
    by (simp add: readExactly_eq subarray_def)
  have "(case x of None \<Rightarrow> False | Some e \<Rightarrow>
      if totalEntries e < 1 \<or> totalEntries e > OOXML_MAX_ENTRIES \<or> centralDirectorySize e < 1 \<or> centralDirectorySize e > OOXML_MAX_CENTRAL_DIRECTORY_BYTES \<or>
         centralDirectoryOffset e + centralDirectorySize e \<noteq> absoluteOffset e then False
      else case readExactly h (centralDirectorySize e) (centralDirectoryOffset e) of None \<Rightarrow> False
         | Some directory \<Rightarrow> (case parseCentralDirectory directory (totalEntries e) of None \<Rightarrow> False | Some entries \<Rightarrow> verdict h family entries (centralDirectoryOffset e))) \<longleftrightarrow>
      (\<exists>e directory entries. x = Some e \<and>
       1 \<le> totalEntries e \<and> totalEntries e \<le> OOXML_MAX_ENTRIES \<and> 1 \<le> centralDirectorySize e \<and> centralDirectorySize e \<le> OOXML_MAX_CENTRAL_DIRECTORY_BYTES \<and>
       centralDirectoryOffset e + centralDirectorySize e = absoluteOffset e \<and>
       readExactly h (centralDirectorySize e) (centralDirectoryOffset e) = Some directory \<and>
       parseCentralDirectory directory (totalEntries e) = Some entries \<and> verdict h family entries (centralDirectoryOffset e))" for x
    by (cases x) (auto simp: not_less Suc_le_eq split: option.split)
  note steps = this [of "parseEndOfCentralDirectory (drop ?off (contents h)) ?off", unfolded verdict_def]
  have "\<not> (\<not> is_file h \<or> file_size h < 22)" using f by simp
  then show ?thesis unfolding matchesOoxmlPackageIdentity_def fam option.case Let_def t verdict_def steps [symmetric] by (simp only: if_False)
qed

text \<open>
  C6. The check of Office Open XML packages accepts exactly the ZIP archives that consist of a body, a central directory and one end record, the last in the file,
  that describes the directory; the directory has at most 10000 records, all unencrypted and with different names, among them, found by their exact bytes,
  \<open>[Content_Types].xml\<close> and the main part of the declared family, both with a matching local header in the body, and no main
  part of another family.
\<close>
theorem matchesOoxmlPackageIdentity_iff:
  "matchesOoxmlPackageIdentity h mimeType \<longleftrightarrow> is_file h \<and>
     (\<exists>family body records trailer. (mimeType, family) \<in> set OOXML_REQUIRED_ENTRY_BY_MIME \<and> contents h = body @ concat records @ trailer \<and>
        ooxml_package family body records trailer)"
proof
  assume a: "matchesOoxmlPackageIdentity h mimeType"
  from a obtain family where fam: "map_of OOXML_REQUIRED_ENTRY_BY_MIME mimeType = Some family" and f: "is_file h" "22 \<le> file_size h"
    by (auto simp: matchesOoxmlPackageIdentity_def split: option.split_asm if_split_asm)
  from a [unfolded package_steps [OF fam f]] obtain e directory entries where
    e: "parseEndOfCentralDirectory (drop (file_size h - min (file_size h) ZIP_MAX_EOCD_SEARCH_BYTES) (contents h)) (file_size h - min (file_size h) ZIP_MAX_EOCD_SEARCH_BYTES) = Some e"
    and c: "1 \<le> totalEntries e" "totalEntries e \<le> OOXML_MAX_ENTRIES" "1 \<le> centralDirectorySize e" "centralDirectorySize e \<le> OOXML_MAX_CENTRAL_DIRECTORY_BYTES"
      "centralDirectoryOffset e + centralDirectorySize e = absoluteOffset e"
    and d: "readExactly h (centralDirectorySize e) (centralDirectoryOffset e) = Some directory" "parseCentralDirectory directory (totalEntries e) = Some entries"
    and v: "verdict h family entries (centralDirectoryOffset e)" by (elim exE conjE)
  from e [unfolded parseEndOfCentralDirectory_iff [OF f(2)]] obtain m where m: "is_end_record (drop m (contents h))" "\<forall>p > m. \<not> is_end_record (drop p (contents h))"
    "single_disk (drop m (contents h))" "e = end_record_of m (drop m (contents h))" by (elim exE conjE)
  let ?t = "drop m (contents h)" and ?o = "centralDirectoryOffset e"
  have fields: "absoluteOffset e = m" "?o = u32 ?t 16" "centralDirectorySize e = u32 ?t 12" "totalEntries e = u16 ?t 10" by (simp_all add: m(4) end_record_of_def)
  from d(2) [unfolded parseCentralDirectory_iff] obtain rs where rs: "length rs = totalEntries e" "directory = concat rs" "list_all central_record rs"
    "distinct (map (\<lambda>r. utf8_decode (record_name r)) rs)" "entries = map record_entry rs" by (elim exE conjE)
  have dir: "directory = subarray (contents h) ?o (centralDirectorySize e)" and fits: "?o + centralDirectorySize e \<le> file_size h"
    using d(1) c(3) by (auto simp: readExactly_eq split: if_split_asm)
  have len: "length (concat rs) = centralDirectorySize e" unfolding rs(2) [symmetric] dir length_subarray using fits by simp
  let ?body = "take ?o (contents h)"
  have body: "length ?body = ?o" using fits by simp
  have mid: "concat rs @ ?t = drop ?o (contents h)"
  proof -
    have "drop ?o (contents h) = subarray (contents h) ?o (centralDirectorySize e) @ drop (centralDirectorySize e) (drop ?o (contents h))" by (simp only: subarray_def append_take_drop_id)
    moreover have "drop (centralDirectorySize e) (drop ?o (contents h)) = ?t" using c(5) fields(1) by (simp add: add.commute)
    ultimately show ?thesis by (simp only: dir [symmetric] rs(2))
  qed
  have "\<not> is_end_record (drop i ?t)" if "0 < i" for i
  proof -
    have "drop i ?t = drop (m + i) (contents h)" by (simp add: add.commute)
    then show ?thesis using m(2) that by (metis less_add_same_cancel1)
  qed
  moreover have "(\<forall>name \<in> {OOXML_CONTENT_TYPES_ENTRY, family}. \<exists>r \<in> set rs. record_name r = of_latin1 name \<and> local_header ?body name (u32 r 42)) \<and>
     (\<forall>other \<in> snd ` set OOXML_REQUIRED_ENTRY_BY_MIME. other \<noteq> family \<longrightarrow> of_latin1 other \<notin> record_name ` set rs)"
    using entries_verdict [where h = h and body = ?body and rest = "drop ?o (contents h)", OF _ rs(4) fam] v by (simp only: body verdict_def rs(5) append_take_drop_id simp_thms)
  moreover have "u16 ?t 10 = length rs \<and> u32 ?t 12 = length (concat rs) \<and> u32 ?t 16 = length ?body" using rs(1) fields len body by simp
  moreover have "1 \<le> length rs \<and> length rs \<le> OOXML_MAX_ENTRIES \<and> length (concat rs) \<le> OOXML_MAX_CENTRAL_DIRECTORY_BYTES" using rs(1) len c by simp
  ultimately have "ooxml_package family ?body rs ?t" unfolding ooxml_package_def using m(1,3) rs(3,4) by (elim conjE) (intro conjI allI impI; assumption)
  moreover have "contents h = ?body @ concat rs @ ?t" unfolding mid by simp
  moreover have "(mimeType, family) \<in> set OOXML_REQUIRED_ENTRY_BY_MIME" using entry_names(3) [OF fam] by blast
  ultimately show "is_file h \<and> (\<exists>family body records trailer. (mimeType, family) \<in> set OOXML_REQUIRED_ENTRY_BY_MIME \<and> contents h = body @ concat records @ trailer \<and>
        ooxml_package family body records trailer)" using f(1) by (intro conjI exI)
next
  assume "is_file h \<and> (\<exists>family body records trailer. (mimeType, family) \<in> set OOXML_REQUIRED_ENTRY_BY_MIME \<and> contents h = body @ concat records @ trailer \<and>
        ooxml_package family body records trailer)"
  then obtain family body rs trailer where fil: "is_file h" and mf: "(mimeType, family) \<in> set OOXML_REQUIRED_ENTRY_BY_MIME"
    and b: "contents h = body @ concat rs @ trailer" and p: "ooxml_package family body rs trailer" by (elim exE conjE)
  have fam: "map_of OOXML_REQUIRED_ENTRY_BY_MIME mimeType = Some family" using mf by (auto simp: OOXML_REQUIRED_ENTRY_BY_MIME_def)
  note p = p [unfolded ooxml_package_def]
  let ?m = "length body + length (concat rs)"
  have t: "drop ?m (contents h) = trailer" by (simp add: b)
  have er: "is_end_record trailer" "single_disk trailer" and none: "\<And>i. 0 < i \<Longrightarrow> \<not> is_end_record (drop i trailer)" using p by simp_all
  have n: "1 \<le> length rs" "length rs \<le> OOXML_MAX_ENTRIES" "length (concat rs) \<le> OOXML_MAX_CENTRAL_DIRECTORY_BYTES" and rec: "list_all central_record rs"
    and dist: "distinct (map (\<lambda>r. utf8_decode (record_name r)) rs)" and fields: "u16 trailer 10 = length rs" "u32 trailer 12 = length (concat rs)" "u32 trailer 16 = length body"
    using p by simp_all
  have len22: "22 \<le> file_size h" using er(1) by (simp add: b is_end_record_def)
  let ?e = "end_record_of ?m trailer"
  have e: "parseEndOfCentralDirectory (drop (file_size h - min (file_size h) ZIP_MAX_EOCD_SEARCH_BYTES) (contents h)) (file_size h - min (file_size h) ZIP_MAX_EOCD_SEARCH_BYTES) = Some ?e"
    unfolding parseEndOfCentralDirectory_iff [OF len22]
  proof (intro exI [of _ ?m] conjI allI impI)
    fix q assume q: "?m < q"
    then have "drop q (contents h) = drop (q - ?m) trailer" unfolding t [symmetric] by simp
    then show "\<not> is_end_record (drop q (contents h))" using none [of "q - ?m"] q by simp
  qed (simp_all only: t er)
  have dir: "subarray (contents h) (length body) (length (concat rs)) = concat rs" by (simp add: b subarray_def)
  have pos: "1 \<le> length (concat rs)"
  proof -
    obtain r where "r \<in> set rs" using n(1) by (cases rs) auto
    then have "central_record r" using rec by (auto simp: list_all_iff)
    then have "46 \<le> length r" by (simp add: central_record_def)
    moreover have "length r \<le> length (concat rs)" using \<open>r \<in> set rs\<close> by (auto simp: length_concat intro!: member_le_sum_list)
    ultimately show ?thesis by simp
  qed
  have "readExactly h (length (concat rs)) (length body) = Some (concat rs)" using dir by (simp add: readExactly_eq b)
  moreover have "parseCentralDirectory (concat rs) (length rs) = Some (map record_entry rs)" unfolding parseCentralDirectory_iff using rec dist by blast
  moreover have "verdict h family (map record_entry rs) (length body)"
    unfolding verdict_def entries_verdict [OF b dist fam] using p by (elim conjE) (rule conjI)
  ultimately show "matchesOoxmlPackageIdentity h mimeType" unfolding package_steps [OF fam fil len22] using e n pos
    by (intro exI [of _ ?e] exI [of _ "concat rs"] exI [of _ "map record_entry rs"]) (simp add: end_record_of_def fields)
qed

end
