(* ===== verification/Media_Pdf.thy ===== *)
theory Media_Pdf
  imports Media_Text Js_Number
begin

text \<open>
  The PDF check of src/src/media/media-pdf-structure.ts. Its regular expressions are runs of disjoint classes of characters, so that greedy matching never
  has to back up, and each is a function that cuts the runs off. Result: what the search for the final section finds is the
  one section that ends the file up to white space, and the check accepts exactly the files with a versioned header in the
  first kilobyte whose final section points at a cross-reference table or stream.
\<close>

section \<open>The check\<close>

definition PDF_HEADER_SEARCH_BYTES :: nat where "PDF_HEADER_SEARCH_BYTES = 1024"

definition PDF_TAIL_SEARCH_BYTES :: nat where "PDF_TAIL_SEARCH_BYTES = 64 * 1024"

definition PDF_XREF_TARGET_BYTES :: nat where "PDF_XREF_TARGET_BYTES = 128"

definition PDF_WHITESPACE_BYTES :: "byte list" where "PDF_WHITESPACE_BYTES = [0x00, 0x09, 0x0a, 0x0c, 0x0d, 0x20]"

text \<open>\<open>toString("latin1").replaceAll("\0", " ")\<close>\<close>

definition pdf_text :: "buffer \<Rightarrow> string" where
  "pdf_text bs = map (\<lambda>c. if c = CHR 0x00 then CHR '' '' else c) (latin1 bs)"

definition starts_with :: "string \<Rightarrow> string \<Rightarrow> bool" where
  "starts_with p s \<longleftrightarrow> take (length p) s = p"

text \<open>\<open>^%PDF-(?:1\.[0-9]|2\.0)(?:\r\n|\r|\n)\<close>; the line end is read as \<open>\r\<close> or \<open>\n\<close>, since \<open>\r\n\<close> begins with \<open>\r\<close>.\<close>

definition PDF_VERSION_HEADER :: "string \<Rightarrow> bool" where
  "PDF_VERSION_HEADER s \<longleftrightarrow> starts_with ''%PDF-'' s \<and>
     (case drop 5 s of
        major # dot # minor # eol # rest \<Rightarrow>
          (major = CHR ''1'' \<and> dot = CHR ''.'' \<and> is_digit 10 minor \<or> major = CHR ''2'' \<and> dot = CHR ''.'' \<and> minor = CHR ''0'') \<and>
          (eol = CHR 0x0D \<or> eol = CHR 0x0A)
      | _ \<Rightarrow> False)"

fun index_of :: "string \<Rightarrow> string \<Rightarrow> nat option" where
  "index_of p [] = (if p = [] then Some 0 else None)"
| "index_of p (c # s) = (if starts_with p (c # s) then Some 0 else map_option Suc (index_of p s))"

definition hasVersionedHeader :: "buffer \<Rightarrow> bool" where
  "hasVersionedHeader prefix =
     (let text = latin1 prefix
      in case index_of ''%PDF-'' text of None \<Rightarrow> False | Some headerOffset \<Rightarrow> PDF_VERSION_HEADER (drop headerOffset text))"

text \<open>\<open>startxref\s+([0-9]+)\s+%%EOF\<close> at the head of a text: the length of the match and its group.\<close>

definition PDF_FINAL_SECTION :: "string \<Rightarrow> (nat \<times> string) option" where
  "PDF_FINAL_SECTION s =
     (if \<not> starts_with ''startxref'' s then None
      else let s1 = drop 9 s; ws1 = takeWhile js_space s1; s2 = dropWhile js_space s1;
               ds = takeWhile (is_digit 10) s2; s3 = dropWhile (is_digit 10) s2;
               ws2 = takeWhile js_space s3; s4 = dropWhile js_space s3
      in if ws1 = [] \<or> ds = [] \<or> ws2 = [] \<or> \<not> starts_with ''%%EOF'' s4 then None
         else Some (9 + length ws1 + length ds + length ws2 + 5, ds))"

lemma starts_with_literals:
  "starts_with ''startxref'' s \<longleftrightarrow> take 9 s = ''startxref''" "starts_with ''%%EOF'' s \<longleftrightarrow> take 5 s = ''%%EOF''"
  by (simp_all add: starts_with_def eval_nat_numeral)

lemma PDF_FINAL_SECTION_length:
  assumes "PDF_FINAL_SECTION s = Some (n, ds)"
  shows "0 < n" and "s \<noteq> []"
  using assms by (auto simp: PDF_FINAL_SECTION_def starts_with_literals Let_def split: if_split_asm)

lemma PDF_FINAL_SECTION_shrinks: "PDF_FINAL_SECTION s = Some (n, ds) \<Longrightarrow> length s - n < length s"
  using PDF_FINAL_SECTION_length [of s n ds] by simp

text \<open>The matches that successive calls of \<open>exec\<close> give, with their places.\<close>

function exec_all :: "string \<Rightarrow> nat \<Rightarrow> (nat \<times> nat \<times> string) list" where
  "exec_all s i =
     (case PDF_FINAL_SECTION s of
        Some (n, ds) \<Rightarrow> (i, n, ds) # exec_all (drop n s) (i + n)
      | None \<Rightarrow> (case s of [] \<Rightarrow> [] | c # rest \<Rightarrow> exec_all rest (i + 1)))"
  by pat_completeness auto
termination
  by (relation "measure (\<lambda>(s, i). length s)") (auto dest: PDF_FINAL_SECTION_shrinks)

declare exec_all.simps [simp del]

definition isPdfWhitespace :: "buffer \<Rightarrow> bool" where
  "isPdfWhitespace bs \<longleftrightarrow> list_all (\<lambda>b. b \<in> set PDF_WHITESPACE_BYTES) bs"

definition findFinalSection :: "buffer \<Rightarrow> nat option" where
  "findFinalSection tail =
     foldl (\<lambda>accepted (i, n, ds). if isPdfWhitespace (drop (i + n) tail) then Some (digits_value 10 ds) else accepted)
       None (exec_all (pdf_text tail) 0)"

definition PDF_XREF_TABLE :: "string \<Rightarrow> bool" where
  "PDF_XREF_TABLE s \<longleftrightarrow> starts_with ''xref'' s \<and> (case drop 4 s of [] \<Rightarrow> False | c # rest \<Rightarrow> js_space c)"

text \<open>\<open>^[0-9]+\s+[0-9]+\s+obj(?:\s|<)\<close>\<close>

definition PDF_XREF_STREAM_OBJECT :: "string \<Rightarrow> bool" where
  "PDF_XREF_STREAM_OBJECT s =
     (let d1 = takeWhile (is_digit 10) s; s1 = dropWhile (is_digit 10) s; w1 = takeWhile js_space s1; s2 = dropWhile js_space s1;
          d2 = takeWhile (is_digit 10) s2; s3 = dropWhile (is_digit 10) s2; w2 = takeWhile js_space s3; s4 = dropWhile js_space s3
      in d1 \<noteq> [] \<and> w1 \<noteq> [] \<and> d2 \<noteq> [] \<and> w2 \<noteq> [] \<and> starts_with ''obj'' s4 \<and>
         (case drop 3 s4 of [] \<Rightarrow> False | c # rest \<Rightarrow> js_space c \<or> c = CHR ''<''))"

definition matchesPdfStructure :: "handle \<Rightarrow> bool" where
  "matchesPdfStructure h =
     (if \<not> is_file h \<or> file_size h < 20 then False
      else case readExactly h (min (file_size h) PDF_HEADER_SEARCH_BYTES) 0 of
             None \<Rightarrow> False
           | Some prefix \<Rightarrow>
               if \<not> hasVersionedHeader prefix then False
               else let tailLength = min (file_size h) PDF_TAIL_SEARCH_BYTES; tailOffset = file_size h - tailLength
               in case readExactly h tailLength tailOffset of
                    None \<Rightarrow> False
                  | Some tail \<Rightarrow>
               (case findFinalSection tail of
                  None \<Rightarrow> False
                | Some xrefOffset \<Rightarrow>
                    if xrefOffset > 9007199254740991 \<or> xrefOffset \<ge> file_size h then False
                    else case readExactly h (min PDF_XREF_TARGET_BYTES (file_size h - xrefOffset)) xrefOffset of
                           None \<Rightarrow> False
                         | Some xrefTarget \<Rightarrow> PDF_XREF_TABLE (pdf_text xrefTarget) \<or> PDF_XREF_STREAM_OBJECT (pdf_text xrefTarget)))"

section \<open>Final sections\<close>

text \<open>The text that the expression describes, without an order of matching.\<close>

definition final_section :: "string \<Rightarrow> string \<Rightarrow> bool" where
  "final_section ds t \<longleftrightarrow> (\<exists>ws1 ws2. t = ''startxref'' @ ws1 @ ds @ ws2 @ ''%%EOF'' \<and> ws1 \<noteq> [] \<and> list_all js_space ws1 \<and> ds \<noteq> [] \<and>
     list_all (is_digit 10) ds \<and> ws2 \<noteq> [] \<and> list_all js_space ws2)"

lemma cut_run: "list_all P a \<Longrightarrow> r = [] \<or> \<not> P (hd r) \<Longrightarrow> takeWhile P (a @ r) = a \<and> dropWhile P (a @ r) = r"
  by (induction a) (auto simp: takeWhile_eq_Nil_iff dropWhile_eq_self_iff)

lemma classes_disjoint: "is_digit 10 c \<Longrightarrow> \<not> js_space c" "\<not> js_space CHR ''%''" "\<not> is_digit 10 CHR ''%''" "\<not> js_space CHR ''s''" "\<not> is_digit 10 CHR ''s''"
  by (auto simp: js_space_def is_digit_def digit_value_def split: if_split_asm)

lemma PDF_FINAL_SECTION_sound:
  assumes "PDF_FINAL_SECTION s = Some (n, ds)"
  shows "n \<le> length s \<and> final_section ds (take n s)"
proof -
  define s1 where "s1 = drop 9 s"
  define ws1 where "ws1 = takeWhile js_space s1"
  define s2 where "s2 = dropWhile js_space s1"
  define s3 where "s3 = dropWhile (is_digit 10) s2"
  define ws2 where "ws2 = takeWhile js_space s3"
  define s4 where "s4 = dropWhile js_space s3"
  note defs = s1_def ws1_def s2_def s3_def ws2_def s4_def
  have a: "take 9 s = ''startxref''" "take 5 s4 = ''%%EOF''" "ws1 \<noteq> []" "ds \<noteq> []" "ws2 \<noteq> []" "ds = takeWhile (is_digit 10) s2"
    "n = 9 + length ws1 + length ds + length ws2 + 5"
    using assms by (auto simp: PDF_FINAL_SECTION_def starts_with_literals Let_def defs split: if_split_asm)
  have "s = ''startxref'' @ s1" using a(1) by (metis append_take_drop_id s1_def)
  moreover have "s1 = ws1 @ s2" "s2 = ds @ s3" "s3 = ws2 @ s4" by (simp_all add: defs a(6))
  moreover have "s4 = ''%%EOF'' @ drop 5 s4" using a(2) by (metis append_take_drop_id)
  ultimately have s: "s = (''startxref'' @ ws1 @ ds @ ws2 @ ''%%EOF'') @ drop 5 s4" by (metis append_assoc)
  have n: "n = length (''startxref'' @ ws1 @ ds @ ws2 @ ''%%EOF'')" by (simp add: a(7))
  have t: "take n s = ''startxref'' @ ws1 @ ds @ ws2 @ ''%%EOF''" using s unfolding n by (metis append_eq_conv_conj)
  have len: "n \<le> length s" unfolding n by (subst s) (simp only: length_append le_add1)
  have run: "list_all P (takeWhile P xs)" for P :: "char \<Rightarrow> bool" and xs by (auto simp: list_all_iff dest: set_takeWhileD)
  have "list_all js_space ws1" "list_all js_space ws2" "list_all (is_digit 10) ds" unfolding ws1_def ws2_def a(6) by (rule run)+
  with len t a(3-5) show ?thesis unfolding final_section_def by blast
qed

lemma PDF_FINAL_SECTION_complete:
  assumes "final_section ds t"
  shows "PDF_FINAL_SECTION (t @ rest) = Some (length t, ds)"
proof -
  obtain ws1 ws2 where t: "t = ''startxref'' @ ws1 @ ds @ ws2 @ ''%%EOF''" and ws: "ws1 \<noteq> []" "list_all js_space ws1" "ds \<noteq> []"
     "list_all (is_digit 10) ds" "ws2 \<noteq> []" "list_all js_space ws2" using assms by (auto simp: final_section_def)
  have s: "drop 9 (t @ rest) = ws1 @ ds @ ws2 @ ''%%EOF'' @ rest" by (simp add: t)
  have "\<not> js_space (hd ds)" using ws(3,4) classes_disjoint(1) by (cases ds) auto
  then have 1: "takeWhile js_space (ws1 @ ds @ ws2 @ ''%%EOF'' @ rest) = ws1" "dropWhile js_space (ws1 @ ds @ ws2 @ ''%%EOF'' @ rest) = ds @ ws2 @ ''%%EOF'' @ rest"
    using cut_run [OF ws(2), of "ds @ ws2 @ ''%%EOF'' @ rest"] ws(3) by (auto simp: hd_append)
  have "\<not> is_digit 10 (hd ws2)" using ws(5,6) classes_disjoint(1) by (cases ws2) auto
  then have 2: "takeWhile (is_digit 10) (ds @ ws2 @ ''%%EOF'' @ rest) = ds" "dropWhile (is_digit 10) (ds @ ws2 @ ''%%EOF'' @ rest) = ws2 @ ''%%EOF'' @ rest"
    using cut_run [OF ws(4), of "ws2 @ ''%%EOF'' @ rest"] ws(5) by (auto simp: hd_append)
  have 3: "takeWhile js_space (ws2 @ ''%%EOF'' @ rest) = ws2" "dropWhile js_space (ws2 @ ''%%EOF'' @ rest) = ''%%EOF'' @ rest"
    using cut_run [OF ws(6), of "''%%EOF'' @ rest"] classes_disjoint(2) by auto
  have "starts_with ''startxref'' (t @ rest)" by (simp add: starts_with_def t)
  moreover have "starts_with ''%%EOF'' (''%%EOF'' @ rest)" by (simp add: starts_with_def)
  moreover have "length t = 9 + length ws1 + length ds + length ws2 + 5" by (simp add: t)
  ultimately show ?thesis unfolding PDF_FINAL_SECTION_def Let_def s 1 2 3 using ws(1,3,5) by simp
qed

text \<open>The letter \<open>s\<close> begins a section and does not occur again in it, so sections do not overlap.\<close>

lemma section_no_s: "final_section ds t \<Longrightarrow> 0 < j \<Longrightarrow> j < length t \<Longrightarrow> t ! j \<noteq> CHR ''s''"
proof -
  assume "final_section ds t" and j: "0 < j" "j < length t"
  then obtain ws1 ws2 where t: "t = ''startxref'' @ ws1 @ ds @ ws2 @ ''%%EOF''" and ws: "list_all js_space ws1" "list_all (is_digit 10) ds" "list_all js_space ws2"
    by (auto simp: final_section_def)
  define X where "X = ''tartxref'' @ ws1 @ ds @ ws2 @ ''%%EOF''"
  have "CHR ''s'' \<notin> set X" using ws classes_disjoint(4,5) by (auto simp: list_all_iff X_def)
  moreover have tX: "t = CHR ''s'' # X" by (simp add: t X_def)
  moreover obtain j' where "j = Suc j'" "j' < length X" using j tX by (cases j) auto
  ultimately show ?thesis using nth_mem [of j' X] by (metis nth_Cons_Suc)
qed

lemma section_at_s: "PDF_FINAL_SECTION s = Some m \<Longrightarrow> s \<noteq> [] \<and> hd s = CHR ''s''"
  by (cases s) (auto simp: PDF_FINAL_SECTION_def starts_with_def split: if_split_asm)

lemma section_shape: "final_section ds t \<Longrightarrow> 14 < length t \<and> hd t = CHR ''s''"
  by (auto simp: final_section_def)

lemma exec_all_iff:
  "(i, n, ds) \<in> set (exec_all s off) \<longleftrightarrow> (\<exists>k. i = off + k \<and> PDF_FINAL_SECTION (drop k s) = Some (n, ds))"
proof (induction "length s" arbitrary: s off rule: less_induct)
  case less
  show ?case
  proof (cases "PDF_FINAL_SECTION s")
    case None
    show ?thesis
    proof (cases s)
      case Nil
      then show ?thesis using None by (simp add: exec_all.simps [of "[]"])
    next
      case (Cons c rest)
      have "(i, n, ds) \<in> set (exec_all s off) \<longleftrightarrow> (\<exists>k. i = off + 1 + k \<and> PDF_FINAL_SECTION (drop k rest) = Some (n, ds))"
        using None Cons less [of rest "off + 1"] by (simp add: exec_all.simps [of "c # rest"])
      also have "\<dots> \<longleftrightarrow> (\<exists>k. i = off + Suc k \<and> PDF_FINAL_SECTION (drop (Suc k) s) = Some (n, ds))" by (simp add: Cons)
      also have "\<dots> \<longleftrightarrow> (\<exists>k. i = off + k \<and> PDF_FINAL_SECTION (drop k s) = Some (n, ds))"
        using None by (metis drop0 not0_implies_Suc option.distinct(1))
      finally show ?thesis .
    qed
  next
    case (Some m)
    obtain l es where m: "m = (l, es)" by (cases m)
    note sec = PDF_FINAL_SECTION_sound [OF Some [unfolded m]]
    have l: "14 < l" "l \<le> length s" using sec section_shape [of es "take l s"] by auto
    have inside: "PDF_FINAL_SECTION (drop k s) = None" if "0 < k" "k < l" for k
    proof (rule ccontr)
      assume "PDF_FINAL_SECTION (drop k s) \<noteq> None"
      then have "hd (drop k s) = CHR ''s''" using section_at_s by blast
      moreover have "take l s ! k \<noteq> CHR ''s''" using section_no_s [of es "take l s" k] sec that l by simp
      ultimately show False using that l by (simp add: hd_drop_conv_nth)
    qed
    have IH: "(i, n, ds) \<in> set (exec_all (drop l s) (off + l)) \<longleftrightarrow> (\<exists>k. i = off + l + k \<and> PDF_FINAL_SECTION (drop k (drop l s)) = Some (n, ds))"
      using l by (intro less) simp
    have "(i, n, ds) \<in> set (exec_all s off) \<longleftrightarrow> (i, n, ds) = (off, l, es) \<or> (\<exists>k. i = off + l + k \<and> PDF_FINAL_SECTION (drop (l + k) s) = Some (n, ds))"
      using IH Some m by (simp add: exec_all.simps [of s] add.commute)
    also have "\<dots> \<longleftrightarrow> (\<exists>k. i = off + k \<and> PDF_FINAL_SECTION (drop k s) = Some (n, ds))" (is "?A \<longleftrightarrow> ?B")
    proof
      assume ?A
      then show ?B
      proof
        assume "(i, n, ds) = (off, l, es)"
        then show ?B using Some m by (intro exI [of _ 0]) simp
      next
        assume "\<exists>k. i = off + l + k \<and> PDF_FINAL_SECTION (drop (l + k) s) = Some (n, ds)"
        then show ?B by (metis add.assoc)
      qed
    next
      assume ?B
      then obtain k where k: "i = off + k" "PDF_FINAL_SECTION (drop k s) = Some (n, ds)" by blast
      show ?A
      proof (cases "k = 0")
        case True
        then show ?thesis using k Some m by simp
      next
        case False
        then have "l \<le> k" using inside [of k] k(2) by (metis linorder_not_le neq0_conv option.distinct(1))
        then show ?thesis using k by (metis add.assoc le_add_diff_inverse)
      qed
    qed
    finally show ?thesis .
  qed
qed

text \<open>
  The section that the search returns: the only one that white space follows up to the end.
\<close>

lemma pdf_text_append: "pdf_text (a @ b) = pdf_text a @ pdf_text b" by (simp add: pdf_text_def latin1_append)

lemma length_pdf_text [simp]: "length (pdf_text a) = length a" by (simp add: pdf_text_def)

lemma pdf_text_take: "pdf_text (take n a) = take n (pdf_text a)" by (simp add: pdf_text_def latin1_take take_map)

lemma pdf_text_drop: "pdf_text (drop n a) = drop n (pdf_text a)" by (simp add: pdf_text_def latin1_drop drop_map)

lemma whitespace_no_s: "isPdfWhitespace b \<Longrightarrow> CHR ''s'' \<notin> set (pdf_text b)"
  by (induction b) (auto simp: isPdfWhitespace_def PDF_WHITESPACE_BYTES_def pdf_text_def latin1_def char_of_def split: if_split_asm)

definition section_at :: "buffer \<Rightarrow> nat \<Rightarrow> nat \<Rightarrow> string \<Rightarrow> bool" where
  "section_at tail i n ds \<longleftrightarrow> i + n \<le> length tail \<and> final_section ds (pdf_text (subarray tail i n))"

lemma section_at_iff: "section_at tail i n ds \<longleftrightarrow> PDF_FINAL_SECTION (drop i (pdf_text tail)) = Some (n, ds)"
proof
  assume a: "section_at tail i n ds"
  have "drop i (pdf_text tail) = pdf_text (subarray tail i n) @ drop n (drop i (pdf_text tail))"
    by (simp only: subarray_def pdf_text_take pdf_text_drop append_take_drop_id)
  moreover have "n \<le> length tail - i" using a unfolding section_at_def by linarith
  then have "length (pdf_text (subarray tail i n)) = n" by simp
  ultimately show "PDF_FINAL_SECTION (drop i (pdf_text tail)) = Some (n, ds)"
    using PDF_FINAL_SECTION_complete [of ds "pdf_text (subarray tail i n)" "drop n (drop i (pdf_text tail))"] a by (simp add: section_at_def)
next
  assume "PDF_FINAL_SECTION (drop i (pdf_text tail)) = Some (n, ds)"
  from PDF_FINAL_SECTION_sound [OF this] PDF_FINAL_SECTION_length [OF this] have "i + n \<le> length tail" "final_section ds (take n (drop i (pdf_text tail)))" by auto
  then show "section_at tail i n ds" by (simp add: section_at_def subarray_def pdf_text_take pdf_text_drop)
qed

lemma accepted_section_unique:
  assumes "section_at tail i n ds" and "isPdfWhitespace (drop (i + n) tail)" and "section_at tail j m es" and "isPdfWhitespace (drop (j + m) tail)"
  shows "ds = es"
proof -
  have no: "\<not> k < l" if k: "section_at tail k n1 d1" "isPdfWhitespace (drop (k + n1) tail)" and l: "section_at tail l n2 d2" for k l n1 n2 d1 d2
  proof
    assume "k < l"
    have s: "pdf_text tail ! l = CHR ''s''" "l < length tail"
      using section_at_s [of "drop l (pdf_text tail)"] l by (auto simp: section_at_iff hd_drop_conv_nth)
    show False
    proof (cases "l < k + n1")
      case True
      have "pdf_text (subarray tail k n1) ! (l - k) \<noteq> CHR ''s''"
        using k(1) True \<open>k < l\<close> by (intro section_no_s [of d1]) (auto simp: section_at_def)
      moreover have "pdf_text (subarray tail k n1) ! (l - k) = pdf_text tail ! l"
        using True \<open>k < l\<close> k(1) by (simp add: subarray_def pdf_text_take pdf_text_drop section_at_def)
      ultimately show ?thesis using s(1) by simp
    next
      case False
      have "pdf_text tail ! l = pdf_text (drop (k + n1) tail) ! (l - (k + n1))" using False s(2) by (simp add: pdf_text_drop)
      moreover have "l - (k + n1) < length (pdf_text (drop (k + n1) tail))" using False s(2) by simp
      ultimately have "CHR ''s'' \<in> set (pdf_text (drop (k + n1) tail))" using s(1) by (metis nth_mem)
      then show ?thesis using whitespace_no_s [OF k(2)] by blast
    qed
  qed
  have "i = j" using no [OF assms(1,2,3)] no [OF assms(3,4,1)] by linarith
  then show ?thesis using assms(1,3) by (simp add: section_at_iff)
qed

lemma foldl_accept:
  "(\<And>i n ds. (i, n, ds) \<in> set xs \<Longrightarrow> P i n \<Longrightarrow> f ds = v) \<Longrightarrow>
     foldl (\<lambda>acc (i, n, ds). if P i n then Some (f ds) else acc) a xs = (if \<exists>(i, n, ds) \<in> set xs. P i n then Some v else a)"
proof (induction xs arbitrary: a)
  case (Cons x xs)
  obtain i n ds where x: "x = (i, n, ds)" by (cases x)
  have IH: "foldl (\<lambda>acc (i, n, ds). if P i n then Some (f ds) else acc) b xs = (if \<exists>(i, n, ds) \<in> set xs. P i n then Some v else b)" for b
    using Cons.prems by (intro Cons.IH) auto
  show ?case using Cons.prems [of i n ds] by (auto simp: x IH)
qed simp

lemma cut_three: "xs = take i xs @ subarray xs i n @ drop (i + n) xs"
  by (metis append_take_drop_id drop_drop add.commute subarray_def)

lemma findFinalSection_iff:
  "findFinalSection tail = Some v \<longleftrightarrow> (\<exists>i n ds. section_at tail i n ds \<and> isPdfWhitespace (drop (i + n) tail) \<and> v = digits_value 10 ds)"
proof -
  let ?xs = "exec_all (pdf_text tail) 0"
  have mem: "(i, n, ds) \<in> set ?xs \<longleftrightarrow> section_at tail i n ds" for i n ds by (simp add: exec_all_iff section_at_iff)
  show ?thesis
  proof (cases "\<exists>i n ds. section_at tail i n ds \<and> isPdfWhitespace (drop (i + n) tail)")
    case True
    then obtain i n ds where s: "section_at tail i n ds" "isPdfWhitespace (drop (i + n) tail)" by blast
    have "findFinalSection tail = (if \<exists>(i, n, ds) \<in> set ?xs. isPdfWhitespace (drop (i + n) tail) then Some (digits_value 10 ds) else None)"
      unfolding findFinalSection_def by (rule foldl_accept) (auto simp: mem dest: accepted_section_unique [OF s])
    moreover have "\<exists>(i, n, ds) \<in> set ?xs. isPdfWhitespace (drop (i + n) tail)" using mem s by blast
    ultimately have "findFinalSection tail = Some (digits_value 10 ds)" by simp
    moreover have "es = ds" if "section_at tail j m es" "isPdfWhitespace (drop (j + m) tail)" for j m es
      using accepted_section_unique [OF s that] by simp
    ultimately show ?thesis using s by (metis option.inject)
  next
    case False
    have "findFinalSection tail = (if \<exists>(i, n, ds) \<in> set ?xs. isPdfWhitespace (drop (i + n) tail) then Some v else None)"
      unfolding findFinalSection_def using False mem by (intro foldl_accept) blast
    moreover have "\<not> (\<exists>(i, n, ds) \<in> set ?xs. isPdfWhitespace (drop (i + n) tail))" using False mem by blast
    ultimately have "findFinalSection tail = None" by simp
    then show ?thesis using False by auto
  qed
qed

text \<open>
  C8. The PDF check accepts exactly the files of at least 20 bytes whose first kilobyte contains a header, the first of them with a supported version and a line end, and whose last
  64 kilobytes end, up to white space, in a section \<open>startxref\<close>, a number and \<open>%%EOF\<close>, where the number is a place in the file
  at which a cross-reference table or a numbered object begins.
\<close>
theorem matchesPdfStructure_iff:
  "matchesPdfStructure h \<longleftrightarrow> is_file h \<and> 20 \<le> file_size h \<and>
     (\<exists>k. index_of ''%PDF-'' (latin1 (take 1024 (contents h))) = Some k \<and> PDF_VERSION_HEADER (drop k (latin1 (take 1024 (contents h))))) \<and>
     (\<exists>start part rest ds. contents h = start @ part @ rest \<and> length (part @ rest) \<le> 65536 \<and> final_section ds (pdf_text part) \<and> isPdfWhitespace rest \<and>
        digits_value 10 ds \<le> 9007199254740991 \<and> digits_value 10 ds < file_size h \<and>
        (let target = pdf_text (take 128 (drop (digits_value 10 ds) (contents h))) in PDF_XREF_TABLE target \<or> PDF_XREF_STREAM_OBJECT target))"
proof -
  let ?b = "contents h"
  let ?l = "min (length ?b) PDF_TAIL_SEARCH_BYTES"
  let ?tail = "drop (length ?b - ?l) ?b"
  let ?target = "\<lambda>v. pdf_text (take 128 (drop v ?b))"
  let ?good = "\<lambda>v. v \<le> 9007199254740991 \<and> v < length ?b \<and> (PDF_XREF_TABLE (?target v) \<or> PDF_XREF_STREAM_OBJECT (?target v))"
  have p: "readExactly h (min (length ?b) PDF_HEADER_SEARCH_BYTES) 0 = Some (take 1024 ?b)"
    by (simp add: readExactly_eq subarray_def PDF_HEADER_SEARCH_BYTES_def min_def)
  have t: "readExactly h ?l (length ?b - ?l) = Some ?tail" by (simp add: readExactly_eq subarray_def)
  have x: "readExactly h (min PDF_XREF_TARGET_BYTES (length ?b - v)) v = Some (take 128 (drop v ?b))" if "v < length ?b" for v
  proof -
    have "v + min 128 (length ?b - v) \<le> length ?b" using that by linarith
    moreover have "take (min 128 (length ?b - v)) (drop v ?b) = take 128 (drop v ?b)" by (simp add: min_def)
    ultimately show ?thesis by (simp only: readExactly_eq subarray_def PDF_XREF_TARGET_BYTES_def if_True simp_thms)
  qed
  have tail: "(\<exists>v. findFinalSection ?tail = Some v \<and> ?good v) \<longleftrightarrow>
      (\<exists>start part rest ds. ?b = start @ part @ rest \<and> length (part @ rest) \<le> 65536 \<and> final_section ds (pdf_text part) \<and> isPdfWhitespace rest \<and> ?good (digits_value 10 ds))"
    (is "?A \<longleftrightarrow> ?B")
  proof
    assume ?A
    then obtain i n ds where s: "section_at ?tail i n ds" "isPdfWhitespace (drop (i + n) ?tail)" and g: "?good (digits_value 10 ds)"
      unfolding findFinalSection_iff by blast
    let ?part = "subarray ?tail i n" and ?rest = "drop (i + n) ?tail"
    note e = cut_three [of ?tail i n]
    have "?b = (take (length ?b - ?l) ?b @ take i ?tail) @ ?part @ ?rest" by (simp only: append_assoc e [symmetric] append_take_drop_id)
    moreover have "length (?part @ ?rest) \<le> length ?tail" using arg_cong [OF e, of length] unfolding length_append by linarith
    then have "length (?part @ ?rest) \<le> 65536" by (simp add: PDF_TAIL_SEARCH_BYTES_def min_def split: if_split_asm)
    ultimately show ?B using s g unfolding section_at_def by blast
  next
    assume ?B
    then obtain start part rest ds where b: "?b = start @ part @ rest" and l: "length (part @ rest) \<le> 65536"
      and f: "final_section ds (pdf_text part)" "isPdfWhitespace rest" "?good (digits_value 10 ds)" by blast
    define i where "i = length start - (length ?b - ?l)"
    have i: "length start = (length ?b - ?l) + i" using l by (simp add: i_def b PDF_TAIL_SEARCH_BYTES_def min_def)
    have d: "drop i ?tail = part @ rest" using i by (metis add.commute append_eq_conv_conj b drop_drop)
    have "length start \<le> length ?b" by (simp add: b)
    then have li: "i \<le> length ?tail" using i unfolding length_drop by linarith
    have "i + length part \<le> length ?tail" using arg_cong [OF d, of length] li unfolding length_drop length_append by linarith
    moreover have "subarray ?tail i (length part) = part" unfolding subarray_def d by simp
    moreover have "drop (i + length part) ?tail = rest" using d by (metis add.commute append_eq_conv_conj drop_drop)
    ultimately have "section_at ?tail i (length part) ds \<and> isPdfWhitespace (drop (i + length part) ?tail)" using f by (simp add: section_at_def)
    then show ?A unfolding findFinalSection_iff using f(3) by blast
  qed
  have step: "(case findFinalSection ?tail of None \<Rightarrow> False | Some v \<Rightarrow>
      if v > 9007199254740991 \<or> v \<ge> length ?b then False
      else case readExactly h (min PDF_XREF_TARGET_BYTES (length ?b - v)) v of None \<Rightarrow> False
         | Some target \<Rightarrow> PDF_XREF_TABLE (pdf_text target) \<or> PDF_XREF_STREAM_OBJECT (pdf_text target)) \<longleftrightarrow> (\<exists>v. findFinalSection ?tail = Some v \<and> ?good v)"
    by (auto simp: x not_less split: option.split)
  have h: "hasVersionedHeader (take 1024 ?b) \<longleftrightarrow> (\<exists>k. index_of ''%PDF-'' (latin1 (take 1024 ?b)) = Some k \<and> PDF_VERSION_HEADER (drop k (latin1 (take 1024 ?b))))"
    by (auto simp: hasVersionedHeader_def Let_def split: option.split)
  show ?thesis unfolding matchesPdfStructure_def p t option.case Let_def step tail h by (auto simp: not_less)
qed

end
