(* ===== verification/Media_Signature.thy ===== *)
theory Media_Signature
  imports Media_Adif Media_Png Media_Jpeg Media_Ogg Media_Isobmff Media_Zip Media_Pdf
begin

text \<open>
  The content check of uploads, src/src/media/media-content-signature.ts: the look at the first bytes (\<open>matchesMimeSignature\<close>) and the structure
  check of each format (\<open>assertMediaContentSignature\<close>), with the dispatch of the audio formats and the upload policy of
  src/src/media/media-upload.policy.ts. Results: a file passes as at most one kind of media, and what passes has a policy.
\<close>

section \<open>The first bytes\<close>

definition INSPECTION_BYTES :: nat where "INSPECTION_BYTES = 8192"

definition PDF_HEADER :: buffer where "PDF_HEADER = of_latin1 ''%PDF-''"

definition OLE_SIGNATURE :: buffer where "OLE_SIGNATURE = [0xd0, 0xcf, 0x11, 0xe0, 0xa1, 0xb1, 0x1a, 0xe1]"

definition ZIP_LOCAL_HEADER :: buffer where "ZIP_LOCAL_HEADER = [0x50, 0x4b, 0x03, 0x04]"

definition LEGACY_OFFICE_MIME_TYPES :: "string list" where
  "LEGACY_OFFICE_MIME_TYPES = [''application/msword'', ''application/vnd.ms-excel'', ''application/vnd.ms-powerpoint'']"

definition OOXML_MIME_TYPES :: "string list" where "OOXML_MIME_TYPES = map fst OOXML_REQUIRED_ENTRY_BY_MIME"

text \<open>\<open>toString("ascii")\<close> drops the highest bit of each byte.\<close>

definition ascii_text :: "buffer \<Rightarrow> string" where
  "ascii_text bs = map (\<lambda>b. char_of (unat b mod 128)) bs"

definition startsWith :: "buffer \<Rightarrow> buffer \<Rightarrow> bool" where
  "startsWith sample expected = (if length sample < length expected then False else list_all (\<lambda>i. sample ! i = expected ! i) [0..<length expected])"

definition startsWithBuffer :: "buffer \<Rightarrow> buffer \<Rightarrow> bool" where
  "startsWithBuffer sample signature \<longleftrightarrow> length sample \<ge> length signature \<and> subarray sample 0 (length signature) = signature"

definition isAdtsAac :: "buffer \<Rightarrow> bool" where
  "isAdtsAac sample = (if length sample < 2 then False else sample ! 0 = 0xff \<and> sample ! 1 AND 0xf6 = 0xf0)"

definition isMp3 :: "buffer \<Rightarrow> bool" where
  "isMp3 sample =
     (if length sample \<ge> 3 \<and> ascii_text (subarray sample 0 3) = ''ID3'' then True
      else if length sample < 2 \<or> sample ! 0 \<noteq> 0xff \<or> sample ! 1 AND 0xe0 \<noteq> 0xe0 then False
      else sample ! 1 AND 0x06 \<noteq> 0)"

fun buffer_contains :: "buffer \<Rightarrow> buffer \<Rightarrow> bool" where
  "buffer_contains p [] \<longleftrightarrow> p = []"
| "buffer_contains p (b # bs) \<longleftrightarrow> take (length p) (b # bs) = p \<or> buffer_contains p bs"

definition matchesMimeSignature :: "buffer \<Rightarrow> string \<Rightarrow> bool" where
  "matchesMimeSignature sample mimeType =
     (if sample = [] then False
      else if mimeType = ''image/jpeg'' then startsWith sample [0xff, 0xd8, 0xff]
      else if mimeType = ''image/png'' then startsWithBuffer sample PNG_SIGNATURE
      else if mimeType = ''application/pdf'' then buffer_contains PDF_HEADER (subarray sample 0 (min (length sample) 1024))
      else if mimeType = ''audio/ogg'' then ascii_text (subarray sample 0 4) = ''OggS''
      else if mimeType = ''audio/aac'' then isAdtsAac sample \<or> ascii_text (subarray sample 0 4) = ''ADIF''
      else if mimeType = ''audio/mpeg'' then isMp3 sample
      else if mimeType = ''audio/amr''
      then ascii_text (subarray sample 0 6) = ''#!AMR'' @ [CHR 0x0A] \<or> ascii_text (subarray sample 0 9) = ''#!AMR-WB'' @ [CHR 0x0A]
      else if mimeType = ''audio/mp4'' \<or> mimeType = ''video/mp4'' \<or> mimeType = ''video/3gpp'' then matchesIsoBmffFileTypeSignature sample mimeType
      else if mimeType = ''text/plain'' then 0 \<notin> set sample
      else if mimeType \<in> set LEGACY_OFFICE_MIME_TYPES then startsWithBuffer sample OLE_SIGNATURE
      else if mimeType \<in> set OOXML_MIME_TYPES then startsWithBuffer sample ZIP_LOCAL_HEADER
      else False)"

section \<open>The whole check\<close>

text \<open>A single read, which may be short.\<close>

definition readPrefix :: "handle \<Rightarrow> buffer" where
  "readPrefix h = handle_read h INSPECTION_BYTES 0"

definition isStructuredAudioMimeType :: "string \<Rightarrow> bool" where
  "isStructuredAudioMimeType m \<longleftrightarrow> m = ''audio/ogg'' \<or> m = ''audio/aac'' \<or> m = ''audio/mpeg'' \<or> m = ''audio/amr''"

definition isIsoBmffMediaMimeType :: "string \<Rightarrow> bool" where
  "isIsoBmffMediaMimeType m \<longleftrightarrow> m = ''audio/mp4'' \<or> m = ''video/mp4'' \<or> m = ''video/3gpp''"

definition matchesAudioStructure :: "handle \<Rightarrow> string \<Rightarrow> bool" where
  "matchesAudioStructure h mimeType =
     (if mimeType = ''audio/ogg'' then matchesOggStructure h True
      else if mimeType = ''audio/aac'' then matchesAacStructure h
      else if mimeType = ''audio/mpeg'' then matchesMpegAudioStructure h
      else mimeType = ''audio/amr'' \<and> matchesAmrStructure h)"

text \<open>The error carries the MIME type.\<close>

datatype signature_error = MediaContentSignatureError string

definition assertMediaContentSignature :: "handle \<Rightarrow> string \<Rightarrow> signature_error + unit" where
  "assertMediaContentSignature h mimeType =
     (let normalizedMimeType = js_lower (js_trim mimeType); sample = readPrefix h; fail = Inl (MediaContentSignatureError normalizedMimeType)
      in if \<not> matchesMimeSignature sample normalizedMimeType then fail
         else if normalizedMimeType = ''image/jpeg'' \<and> \<not> matchesJpegStructure h then fail
         else if normalizedMimeType = ''image/png'' \<and> \<not> matchesPngStructure h then fail
         else if isStructuredAudioMimeType normalizedMimeType \<and> \<not> matchesAudioStructure h normalizedMimeType then fail
         else if normalizedMimeType = ''application/pdf'' \<and> \<not> matchesPdfStructure h then fail
         else if isIsoBmffMediaMimeType normalizedMimeType \<and> \<not> matchesIsoBmffStructure h normalizedMimeType then fail
         else if normalizedMimeType \<in> set OOXML_MIME_TYPES \<and> \<not> matchesOoxmlPackageIdentity h normalizedMimeType then fail
         else Inr ())"

section \<open>The upload policy\<close>

datatype MediaUploadCategory = IMAGE | VIDEO | AUDIO | DOCUMENT

record MediaUploadPolicy =
  up_category :: MediaUploadCategory
  up_mimeType :: string
  up_maxBytes :: nat
  up_providerFilename :: string

definition MB :: nat where "MB = 1000000"

definition policy_entry :: "string \<Rightarrow> MediaUploadCategory \<Rightarrow> nat \<Rightarrow> string \<Rightarrow> string \<times> MediaUploadPolicy" where
  "policy_entry m c n f = (m, \<lparr>up_category = c, up_mimeType = m, up_maxBytes = n * MB, up_providerFilename = f\<rparr>)"

definition POLICIES :: "(string \<times> MediaUploadPolicy) list" where
  "POLICIES =
     [policy_entry ''image/jpeg'' IMAGE 5 ''upload.jpg'', policy_entry ''image/png'' IMAGE 5 ''upload.png'',
      policy_entry ''audio/aac'' AUDIO 16 ''upload.aac'', policy_entry ''audio/mp4'' AUDIO 16 ''upload.m4a'',
      policy_entry ''audio/mpeg'' AUDIO 16 ''upload.mp3'', policy_entry ''audio/amr'' AUDIO 16 ''upload.amr'',
      policy_entry ''audio/ogg'' AUDIO 16 ''upload.ogg'', policy_entry ''video/mp4'' VIDEO 16 ''upload.mp4'',
      policy_entry ''video/3gpp'' VIDEO 16 ''upload.3gp'', policy_entry ''text/plain'' DOCUMENT 100 ''upload.txt'',
      policy_entry ''application/pdf'' DOCUMENT 100 ''upload.pdf'', policy_entry ''application/msword'' DOCUMENT 100 ''upload.doc'',
      policy_entry ''application/vnd.ms-excel'' DOCUMENT 100 ''upload.xls'', policy_entry ''application/vnd.ms-powerpoint'' DOCUMENT 100 ''upload.ppt'',
      policy_entry ''application/vnd.openxmlformats-officedocument.wordprocessingml.document'' DOCUMENT 100 ''upload.docx'',
      policy_entry ''application/vnd.openxmlformats-officedocument.spreadsheetml.sheet'' DOCUMENT 100 ''upload.xlsx'',
      policy_entry ''application/vnd.openxmlformats-officedocument.presentationml.presentation'' DOCUMENT 100 ''upload.pptx'']"

datatype upload_reason = EMPTY_FILE | UNSUPPORTED_MIME | FILE_TOO_LARGE

text \<open>
  \<open>POLICIES[m]\<close> also finds what the table inherits as an object: for two names in lower case the result is not a policy, which \<open>None\<close> stands for, and
  its \<open>maxBytes\<close> is undefined, so that no size exceeds it. The size is a length that the upload counted, so it is a natural number.
\<close>

definition inherited_names :: "string list" where "inherited_names = [''constructor'', ''__proto__'']"

definition resolveMediaUploadPolicy :: "string \<Rightarrow> nat \<Rightarrow> upload_reason + MediaUploadPolicy option" where
  "resolveMediaUploadPolicy mimeType nbytes =
     (let normalizedMimeType = js_lower (js_trim mimeType)
      in if nbytes > MAX_SAFE_INTEGER \<or> nbytes = 0 then Inl EMPTY_FILE
         else if normalizedMimeType \<in> set inherited_names then Inr None
         else case map_of POLICIES normalizedMimeType of
                None \<Rightarrow> Inl UNSUPPORTED_MIME
              | Some policy \<Rightarrow> if nbytes > up_maxBytes policy then Inl FILE_TOO_LARGE else Inr (Some policy))"

section \<open>What the first bytes say\<close>

definition media_kind :: "string \<Rightarrow> string" where
  "media_kind m = (if isIsoBmffMediaMimeType m then ''isobmff'' else if m \<in> set LEGACY_OFFICE_MIME_TYPES then ''ole'' else if m \<in> set OOXML_MIME_TYPES then ''zip'' else m)"

definition sniff :: "buffer \<Rightarrow> string" where
  "sniff s =
     (let a = s ! 0
      in if a = 0 then ''isobmff'' else if a = 0x89 then ''image/png'' else if a = 0xd0 then ''ole'' else if a = 0x50 then ''zip''
         else if unat a mod 128 = 0x4f then ''audio/ogg'' else if unat a mod 128 = 0x41 then ''audio/aac''
         else if unat a mod 128 = 0x49 then ''audio/mpeg'' else if unat a mod 128 = 0x23 then ''audio/amr''
         else if s ! 1 = 0xd8 then ''image/jpeg'' else if s ! 1 AND 0x06 = 0 then ''audio/aac'' else ''audio/mpeg'')"

lemma ascii_first:
  assumes "ascii_text (subarray s 0 n) = c # cs"
  shows "unat (s ! 0) mod 128 = of_char c"
proof -
  obtain b bs where s: "s = b # bs" using assms by (cases s) (auto simp: ascii_text_def subarray_def)
  have "char_of (unat b mod 128) = c" using assms by (cases n) (simp_all add: s ascii_text_def subarray_def)
  then have "of_char c = (unat b mod 128) mod 256" by (metis of_char_of)
  moreover have "unat b mod 128 < 256" by (simp add: less_trans [OF mod_less_divisor])
  ultimately show ?thesis by (simp add: s)
qed

lemma starts_first: "startsWithBuffer s (b # bs) \<Longrightarrow> s \<noteq> [] \<and> s ! 0 = b"
  by (cases s) (auto simp: startsWithBuffer_def subarray_def)

lemma high_byte_zero: "((a * 256 + b) * 256 + c) * 256 + d \<le> (8192 :: nat) \<Longrightarrow> a = 0"
  by (rule ccontr) (simp add: distrib_right)

lemma iso_first:
  assumes "matchesIsoBmffFileTypeSignature s m" and "length s \<le> 8192"
  shows "s \<noteq> [] \<and> s ! 0 = 0"
proof -
  have "8 \<le> length s" using assms(1) unfolding matchesIsoBmffFileTypeSignature_def by (subst (asm) file_type_scan.simps) (simp split: if_split_asm)
  then obtain a b c d rest where s: "s = a # b # c # d # rest" by (auto simp: Suc_le_length_iff numeral_eq_Suc)
  obtain header where "parseBoxHeader s 0 (length s) False = Some header"
    using assms(1) unfolding matchesIsoBmffFileTypeSignature_def by (subst (asm) file_type_scan.simps) (auto split: if_split_asm option.split_asm)
  then have "be_nat (subarray s 0 4) \<le> 8192" using assms(2) by (auto simp: parseBoxHeader_def Let_def split: if_split_asm)
  then have "((unat a * 256 + unat b) * 256 + unat c) * 256 + unat d \<le> 8192" by (simp add: s subarray_def be_nat_def)
  then have "unat a = 0" by (rule high_byte_zero)
  then show ?thesis using s by (simp add: unsigned_eq_0_iff)
qed

lemma jpeg_first: "startsWith s [0xff, 0xd8, 0xff] \<Longrightarrow> s ! 0 = 0xff \<and> s ! 1 = 0xd8"
  by (auto simp: startsWith_def upt_rec split: if_split_asm)

lemma adts_first: "isAdtsAac s \<Longrightarrow> s ! 0 = 0xff \<and> s ! 1 \<noteq> 0xd8 \<and> s ! 1 AND 0x06 = 0"
proof -
  assume a: "isAdtsAac s"
  then have m: "s ! 1 AND 0xf6 = 0xf0" "s ! 0 = 0xff" by (auto simp: isAdtsAac_def split: if_split_asm)
  have "s ! 1 AND 0x06 = (s ! 1 AND 0xf6) AND 0x06" by (simp add: and.assoc)
  also have "\<dots> = 0xf0 AND 0x06" by (simp only: m(1))
  finally have "s ! 1 AND 0x06 = 0" by simp
  moreover have "s ! 1 \<noteq> 0xd8" by (rule notI) (use m(1) in simp)
  ultimately show ?thesis using m(2) by simp
qed

lemma if_False_else: "(if A then False else B) \<Longrightarrow> \<not> A \<and> B"
  by (simp split: if_split_asm)

lemma mp3_first:
  assumes "isMp3 s"
  shows "unat (s ! 0) mod 128 = 0x49 \<or> s ! 0 = 0xff \<and> s ! 1 \<noteq> 0xd8 \<and> s ! 1 AND 0x06 \<noteq> 0"
proof (cases "length s \<ge> 3 \<and> ascii_text (subarray s 0 3) = ''ID3''")
  case True
  then have "unat (s ! 0) mod 128 = of_char CHR ''I''" by (intro ascii_first) blast
  then show ?thesis by simp
next
  case False
  then have "\<not> (length s < 2 \<or> s ! 0 \<noteq> 0xff \<or> s ! 1 AND 0xe0 \<noteq> 0xe0)" "s ! 1 AND 0x06 \<noteq> 0"
    using if_False_else [OF assms [unfolded isMp3_def if_not_P [OF False]]] by - (elim conjE, assumption)+
  then have m: "s ! 0 = 0xff" "s ! 1 AND 0xe0 = 0xe0" "s ! 1 AND 0x06 \<noteq> 0" by blast+
  have "s ! 1 \<noteq> 0xd8" by (rule notI) (use m(2) in simp)
  then show ?thesis using m by blast
qed

lemma sniff_ascii:
  assumes "(unat (s ! 0) mod 128, k) \<in> {(0x4f, ''audio/ogg''), (0x41, ''audio/aac''), (0x49, ''audio/mpeg''), (0x23, ''audio/amr'')}"
  shows "sniff s = k"
proof -
  have "s ! 0 \<notin> {0, 0x89, 0xd0, 0x50}" using assms by auto
  then show ?thesis using assms by (auto simp: sniff_def Let_def)
qed

lemma kinds:
  "media_kind ''image/jpeg'' = ''image/jpeg''" "media_kind ''image/png'' = ''image/png''" "media_kind ''audio/ogg'' = ''audio/ogg''"
  "media_kind ''audio/aac'' = ''audio/aac''" "media_kind ''audio/mpeg'' = ''audio/mpeg''" "media_kind ''audio/amr'' = ''audio/amr''"
  by (simp_all add: media_kind_def isIsoBmffMediaMimeType_def LEGACY_OFFICE_MIME_TYPES_def OOXML_MIME_TYPES_def OOXML_REQUIRED_ENTRY_BY_MIME_def)

lemma signature_kind:
  assumes "matchesMimeSignature s m" and "m \<noteq> ''application/pdf''" and "m \<noteq> ''text/plain''" and "length s \<le> 8192"
  shows "sniff s = media_kind m"
proof -
  consider (jpeg) "m = ''image/jpeg''" "startsWith s [0xff, 0xd8, 0xff]" | (png) "m = ''image/png''" "startsWithBuffer s PNG_SIGNATURE"
    | (ogg) "m = ''audio/ogg''" "ascii_text (subarray s 0 4) = ''OggS''" | (adts) "m = ''audio/aac''" "isAdtsAac s"
    | (adif) "m = ''audio/aac''" "ascii_text (subarray s 0 4) = ''ADIF''"
    | (mpeg) "m = ''audio/mpeg''" "isMp3 s" | (amr) "m = ''audio/amr''" "ascii_text (subarray s 0 6) = ''#!AMR'' @ [CHR 0x0A]"
    | (amrwb) "m = ''audio/amr''" "ascii_text (subarray s 0 9) = ''#!AMR-WB'' @ [CHR 0x0A]" | (iso) "isIsoBmffMediaMimeType m" "matchesIsoBmffFileTypeSignature s m"
    | (ole) "m \<in> set LEGACY_OFFICE_MIME_TYPES" "startsWithBuffer s OLE_SIGNATURE" | (zip) "m \<in> set OOXML_MIME_TYPES" "startsWithBuffer s ZIP_LOCAL_HEADER"
    using assms(1-3) unfolding matchesMimeSignature_def isIsoBmffMediaMimeType_def by (auto split: if_split_asm)
  then show ?thesis
  proof cases
    case jpeg
    then show ?thesis using jpeg_first [OF jpeg(2)] by (simp add: sniff_def Let_def kinds)
  next
    case png
    then show ?thesis using starts_first [of s "0x89"] by (simp add: PNG_SIGNATURE_def sniff_def Let_def kinds)
  next
    case ogg
    then show ?thesis by (intro sniff_ascii) (auto simp: kinds dest: ascii_first)
  next
    case adts
    then show ?thesis using adts_first [OF adts(2)] by (simp add: sniff_def Let_def kinds)
  next
    case adif
    then show ?thesis by (intro sniff_ascii) (auto simp: kinds dest: ascii_first)
  next
    case mpeg
    from mp3_first [OF mpeg(2)] show ?thesis
    proof
      assume "unat (s ! 0) mod 128 = 0x49"
      then show ?thesis using mpeg(1) by (intro sniff_ascii) (simp_all add: kinds)
    qed (use mpeg(1) in \<open>simp add: sniff_def Let_def kinds\<close>)
  next
    case amr
    then show ?thesis by (intro sniff_ascii) (auto simp: kinds dest: ascii_first)
  next
    case amrwb
    then show ?thesis by (intro sniff_ascii) (auto simp: kinds dest: ascii_first)
  next
    case iso
    then show ?thesis using iso_first [OF iso(2) assms(4)] by (simp add: sniff_def Let_def media_kind_def)
  next
    case ole
    then show ?thesis using starts_first [of s "0xd0"] by (auto simp: OLE_SIGNATURE_def sniff_def Let_def media_kind_def isIsoBmffMediaMimeType_def LEGACY_OFFICE_MIME_TYPES_def)
  next
    case zip
    then show ?thesis using starts_first [of s "0x50"]
      by (auto simp: ZIP_LOCAL_HEADER_def sniff_def Let_def media_kind_def isIsoBmffMediaMimeType_def LEGACY_OFFICE_MIME_TYPES_def OOXML_MIME_TYPES_def OOXML_REQUIRED_ENTRY_BY_MIME_def)
  qed
qed

section \<open>One kind of media\<close>

lemma policy_types: "fst ` set POLICIES = {''image/jpeg'', ''image/png'', ''audio/aac'', ''audio/mp4'', ''audio/mpeg'', ''audio/amr'', ''audio/ogg'', ''video/mp4'',
    ''video/3gpp'', ''text/plain'', ''application/pdf''} \<union> set LEGACY_OFFICE_MIME_TYPES \<union> set OOXML_MIME_TYPES"
  by (simp add: POLICIES_def policy_entry_def LEGACY_OFFICE_MIME_TYPES_def OOXML_MIME_TYPES_def OOXML_REQUIRED_ENTRY_BY_MIME_def insert_commute)

lemma signature_mime: "matchesMimeSignature s m \<Longrightarrow> m \<in> fst ` set POLICIES"
  unfolding policy_types matchesMimeSignature_def by (auto split: if_split_asm)

lemma no_short_type: "m \<in> fst ` set POLICIES \<Longrightarrow> m \<notin> {''isobmff'', ''ole'', ''zip''}"
  unfolding policy_types by (auto simp: LEGACY_OFFICE_MIME_TYPES_def OOXML_MIME_TYPES_def OOXML_REQUIRED_ENTRY_BY_MIME_def)

lemma readPrefix_length: "length (readPrefix h) \<le> 8192"
  by (simp add: readPrefix_def handle_read_def INSPECTION_BYTES_def)

text \<open>A package is of one family: the entries that identify one exclude the others.\<close>

lemma verdict_unique:
  assumes "verdict h f1 entries off" and "verdict h f2 entries off" and "f1 \<in> snd ` set OOXML_REQUIRED_ENTRY_BY_MIME"
  shows "f1 = f2"
proof (rule ccontr)
  assume "f1 \<noteq> f2"
  have "map_of entries (code_points f1) \<noteq> None" using assms(1) by (auto simp: verdict_def split: option.split_asm)
  then have "list_ex (\<lambda>other. other \<noteq> f2 \<and> map_of entries (code_points other) \<noteq> None) (map snd OOXML_REQUIRED_ENTRY_BY_MIME)"
    unfolding list_ex_iff set_map using assms(3) \<open>f1 \<noteq> f2\<close> by blast
  then show False using assms(2) by (simp add: verdict_def split: option.split_asm)
qed

lemma package_family_unique:
  assumes "matchesOoxmlPackageIdentity h m1" and "matchesOoxmlPackageIdentity h m2"
  shows "m1 = m2"
proof -
  have fam: "\<exists>f. map_of OOXML_REQUIRED_ENTRY_BY_MIME m = Some f \<and> is_file h \<and> 22 \<le> file_size h" if "matchesOoxmlPackageIdentity h m" for m
    using that by (auto simp: matchesOoxmlPackageIdentity_def split: option.split_asm if_split_asm)
  obtain f1 where f1: "map_of OOXML_REQUIRED_ENTRY_BY_MIME m1 = Some f1" "is_file h" "22 \<le> file_size h" using fam [OF assms(1)] by blast
  obtain f2 where f2: "map_of OOXML_REQUIRED_ENTRY_BY_MIME m2 = Some f2" using fam [OF assms(2)] by blast
  obtain e1 d1 n1 where 1: "parseEndOfCentralDirectory (drop (file_size h - min (file_size h) ZIP_MAX_EOCD_SEARCH_BYTES) (contents h)) (file_size h - min (file_size h) ZIP_MAX_EOCD_SEARCH_BYTES) = Some e1"
    "readExactly h (centralDirectorySize e1) (centralDirectoryOffset e1) = Some d1" "parseCentralDirectory d1 (totalEntries e1) = Some n1" "verdict h f1 n1 (centralDirectoryOffset e1)"
    using assms(1) unfolding package_steps [OF f1] by (elim exE conjE)
  obtain e2 d2 n2 where 2: "parseEndOfCentralDirectory (drop (file_size h - min (file_size h) ZIP_MAX_EOCD_SEARCH_BYTES) (contents h)) (file_size h - min (file_size h) ZIP_MAX_EOCD_SEARCH_BYTES) = Some e2"
    "readExactly h (centralDirectorySize e2) (centralDirectoryOffset e2) = Some d2" "parseCentralDirectory d2 (totalEntries e2) = Some n2" "verdict h f2 n2 (centralDirectoryOffset e2)"
    using assms(2) unfolding package_steps [OF f2 f1(2,3)] by (elim exE conjE)
  have e: "e2 = e1" using 1(1) 2(1) by simp
  have "d2 = d1" using 1(2) 2(2) unfolding e by simp
  then have "n2 = n1" using 1(3) 2(3) unfolding e by simp
  then have v: "verdict h f1 n1 (centralDirectoryOffset e1)" "verdict h f2 n1 (centralDirectoryOffset e1)" using 1(4) 2(4) unfolding e by simp_all
  have f: "f1 \<in> snd ` set OOXML_REQUIRED_ENTRY_BY_MIME" using f1(1) by (metis imageI map_of_SomeD snd_conv)
  have "f1 = f2" using v f by (rule verdict_unique)
  then show ?thesis using f1(1) f2 by (auto simp: OOXML_REQUIRED_ENTRY_BY_MIME_def split: if_split_asm)
qed

definition upload_kind :: "string \<Rightarrow> string" where
  "upload_kind m = (if isIsoBmffMediaMimeType m then ''isobmff'' else if m \<in> set LEGACY_OFFICE_MIME_TYPES then ''ole'' else m)"

lemma accepted_parts:
  assumes "assertMediaContentSignature h mimeType = Inr ()"
  shows "matchesMimeSignature (readPrefix h) (js_lower (js_trim mimeType))"
    and "js_lower (js_trim mimeType) \<in> set OOXML_MIME_TYPES \<Longrightarrow> matchesOoxmlPackageIdentity h (js_lower (js_trim mimeType))"
  using assms by (auto simp: assertMediaContentSignature_def Let_def split: if_split_asm)

text \<open>
  C5. No file passes for two kinds of media. If the content check accepts a file under two MIME types, neither of them PDF (whose header may stand anywhere in the first
  kilobyte) nor plain text, then the types are the same, or both are types of the ISO base media format, or both are of the old
  Office format. In particular an image cannot be sent as audio, and a text document not as a spreadsheet.
\<close>
theorem content_kind_unique:
  assumes "assertMediaContentSignature h m1 = Inr ()" and "assertMediaContentSignature h m2 = Inr ()"
    and "js_lower (js_trim m1) \<notin> {''application/pdf'', ''text/plain''}" and "js_lower (js_trim m2) \<notin> {''application/pdf'', ''text/plain''}"
  shows "upload_kind (js_lower (js_trim m1)) = upload_kind (js_lower (js_trim m2))"
proof -
  let ?n1 = "js_lower (js_trim m1)" and ?n2 = "js_lower (js_trim m2)"
  have k: "media_kind ?n1 = media_kind ?n2"
    using signature_kind [OF accepted_parts(1) [OF assms(1)] _ _ readPrefix_length] signature_kind [OF accepted_parts(1) [OF assms(2)] _ _ readPrefix_length] assms(3,4) by simp
  show ?thesis
  proof (cases "?n1 \<in> set OOXML_MIME_TYPES \<and> ?n2 \<in> set OOXML_MIME_TYPES")
    case True
    then have "?n1 = ?n2" using package_family_unique accepted_parts(2) [OF assms(1)] accepted_parts(2) [OF assms(2)] by blast
    then show ?thesis by simp
  next
    case False
    have "?n1 \<in> fst ` set POLICIES" "?n2 \<in> fst ` set POLICIES" using accepted_parts(1) assms(1,2) by (blast intro: signature_mime)+
    then have "?n1 \<notin> {''isobmff'', ''ole'', ''zip''}" "?n2 \<notin> {''isobmff'', ''ole'', ''zip''}" using no_short_type by blast+
    then show ?thesis using k False by (auto simp: media_kind_def upload_kind_def split: if_split_asm)
  qed
qed

lemma accepted_has_policy: "assertMediaContentSignature h mimeType = Inr () \<Longrightarrow> map_of POLICIES (js_lower (js_trim mimeType)) \<noteq> None"
  by (simp add: map_of_eq_None_iff signature_mime [OF accepted_parts(1)])

section \<open>Witnesses\<close>

definition sample_ole :: handle where
  "sample_ole = \<lparr>contents = OLE_SIGNATURE, is_file = True, transfer = (\<lambda>_ n. n)\<rparr>"

lemma sample_ole_sample: "readPrefix sample_ole = OLE_SIGNATURE"
  by (simp add: readPrefix_def handle_read_def sample_ole_def INSPECTION_BYTES_def OLE_SIGNATURE_def)

lemma ole_accepted:
  assumes "js_lower (js_trim m) = m" and "m \<in> set LEGACY_OFFICE_MIME_TYPES"
  shows "assertMediaContentSignature sample_ole m = Inr ()"
proof -
  have t: "startsWithBuffer OLE_SIGNATURE OLE_SIGNATURE" "OLE_SIGNATURE \<noteq> []" by (simp_all add: startsWithBuffer_def OLE_SIGNATURE_def subarray_def)
  have "m \<notin> set OOXML_MIME_TYPES" using assms(2) by (auto simp: OOXML_MIME_TYPES_def OOXML_REQUIRED_ENTRY_BY_MIME_def LEGACY_OFFICE_MIME_TYPES_def)
  moreover have "m \<noteq> ''image/jpeg''" "m \<noteq> ''image/png''" "m \<noteq> ''audio/aac''" "m \<noteq> ''audio/mp4''" "m \<noteq> ''audio/mpeg''" "m \<noteq> ''audio/amr''" "m \<noteq> ''audio/ogg''" "m \<noteq> ''video/mp4''"
    "m \<noteq> ''video/3gpp''" "m \<noteq> ''text/plain''" "m \<noteq> ''application/pdf''" using assms(2) by (auto simp: LEGACY_OFFICE_MIME_TYPES_def)
  ultimately show ?thesis using assms(2) t
    by (simp add: assertMediaContentSignature_def assms(1) sample_ole_sample Let_def matchesMimeSignature_def isStructuredAudioMimeType_def isIsoBmffMediaMimeType_def)
qed

lemma sample_types:
  "js_lower (js_trim ''application/msword'') = ''application/msword''" "js_lower (js_trim ''application/vnd.ms-excel'') = ''application/vnd.ms-excel''"
  by code_simp+

theorem content_kind_unique_witness: "upload_kind ''application/msword'' = upload_kind ''application/vnd.ms-excel''"
  using content_kind_unique [OF ole_accepted [OF sample_types(1)] ole_accepted [OF sample_types(2)]] by (simp add: sample_types LEGACY_OFFICE_MIME_TYPES_def)

end
