(* ===== verification/Spec2Isabelle.thy ===== *)
theory Spec2Isabelle
  imports Dispatcher Webhooks Campaign_Runs Inbox_Runs Listings Canned_Responses Api_Keys Realtime Media_Signature
begin

text \<open>
  A verification development of apiWhatsApp, a multi-tenant gateway to the WhatsApp Cloud API written in TypeScript on NestJS,
  Prisma (PostgreSQL), RabbitMQ and Redis. All paths below are under src/src unless they say otherwise.

  \<^bold>\<open>How the program works.\<close> A request carries an API key; two global guards authenticate it and check its scopes. A
  message request is checked against consent, the 24-hour service window, the template catalogue and the media rules, and
  then stored together with an outbox event in one transaction. The outbox publisher claims due events and puts their
  messages on the queue of their traffic class. A worker takes a message from the queue, claims the row under a lease, waits for a slot
  of the sender's rate limit, maps the row to the provider's payload, sends it and records the outcome; failures go through
  retry queues to a dead-letter queue. Webhooks of the provider are stored after their signature is checked; a
  processor claims them and hands each to three services (status reports, messages of customers, template changes). Messages
  of customers move the service window and open conversations, which agents of the inbox claim, are routed to, answer, annotate and
  resolve. Campaigns snapshot an audience of opted-in contacts into recipients, which a processor turns into messages. Inbox events
  reach the browser through Redis and server-sent events. Uploaded media are inspected byte by byte before they are accepted.

  \<^bold>\<open>Conventions.\<close> The database is the record \<open>db\<close> of \<open>Store\<close>, a list of rows per table; a service method is a function from the
  database and its arguments to an error (\<open>Inl\<close>, the exceptions of the source) or a result with the new database. A
  transaction that locks the rows it decides on is one step. A method that reads before its transaction takes two
  databases, the one its reads see and the one it writes, because other requests may commit in between; the
  interleavings are step relations (\<open>worker_step\<close>, \<open>campaign_step\<close>, \<open>inbox_step\<close>, \<open>conversation_step\<close>, \<open>canned_step\<close>,
  \<open>key_step\<close>, \<open>stream_step\<close>) with their reachable states, and the invariants are proved by rule induction. Generated ids, clocks, random
  bytes, configuration values, the keyed hash, the network, the broker, the URL and date parsers are arguments. Definitions have the names of the source,
  prefixed by the class where two services share a name (\<open>MessagesService_list\<close>).

  \<^bold>\<open>Shared ground.\<close>
  \<^item> \<open>Prelude\<close>: byte buffers and the numbers in them (Node's \<open>readUInt\<close> family), JavaScript's string operations, and the collections
    of simplification rules.
  \<^item> \<open>Js_Number\<close>: \<open>Number(s)\<close> of a string.
  \<^item> \<open>Store\<close>: the rows of prisma/schema.prisma, the Prisma queries the services use, and the locale \<open>keyed_table\<close> (lookup and
    update by a unique column), interpreted for every table.
  \<^item> \<open>Leases\<close>: the batch claim with \<open>FOR UPDATE SKIP LOCKED\<close> and a lease, and the locale \<open>lease_queue\<close> in which the
    exclusivity of claims is proved; interpreted for the outbox, the webhook events and the campaign recipients.
  \<^item> \<open>Paging\<close>: cursor pages, and the locale \<open>paged_list\<close> in which following the cursors is shown to visit every row once. \<open>Listings\<close> interprets it
    for conversations, messages, notes, campaigns and recipients (inbox, messages, campaigns), \<open>Canned_Responses\<close> for its own listing.

  \<^bold>\<open>Sending.\<close>
  \<^item> \<open>Contacts\<close> (contacts/contacts.service.ts, phone.util.ts): numbers and the consent log; the status of a contact is always that of the decision in force.
  \<^item> \<open>Senders\<close> (phone-numbers/phone-numbers.service.ts, audit/audit-write.util.ts): a tenant's active senders have exactly one default.
  \<^item> \<open>Templates\<close> (templates/templates.service.ts): synchronisation refines the provider's catalogue.
  \<^item> \<open>Messages\<close> (messages/messages.service.ts, outbound-policy.service.ts, media-payload.util.ts, traffic-class.util.ts): \<open>create\<close> with every check;
    policy, idempotency, and the outbox event of every message.
  \<^item> \<open>Outbox\<close> (outbox/outbox-publisher.service.ts) and \<open>Queue\<close> (queue/messaging-queue.service.ts): claim and publication, acknowledgement only
    after a handler or a confirmed replacement, the budget of retries.
  \<^item> \<open>Rate_Limiter\<close> (worker/distributed-rate-limiter.service.ts): the Redis script, the shares of the classes, and the wait.
  \<^item> \<open>Meta\<close> (meta/meta-message.mapper.ts, meta-graph-url.util.ts, meta-whatsapp.client.ts, meta-template.client.ts): the payload, the call and its errors, the
    pages of the catalogue.
  \<^item> \<open>Dispatcher\<close> (worker/message-dispatcher.service.ts, meta/meta-sender-resolver.service.ts): any number of workers; a message is sent once
    if workers end before their leases do.

  \<^bold>\<open>Receiving.\<close>
  \<^item> \<open>Webhook_Status\<close>, \<open>Inbound\<close>, \<open>Webhooks\<close> (webhooks/webhook-status.service.ts, inbound-message.service.ts, template-status-webhook.service.ts,
    webhook-event-processor.service.ts, webhooks.controller.ts): the status after any sequence of reports, idempotent processing of inbound messages, and what a poll
    leaves behind.
  \<^item> \<open>Conversations\<close> (inbox/conversation-activity.service.ts, inbox-response-sla-escalation.service.ts and two migrations): the response cycle and its check
    constraint.

  \<^bold>\<open>Inbox.\<close>
  \<^item> \<open>Inbox_Teams\<close>, \<open>Inbox_Skills\<close>, \<open>Inbox\<close> (inbox/inbox-teams.service.ts, inbox-skills.service.ts, inbox-conversation-skills.service.ts,
    inbox-skill-admission.ts, inbox-capacity-admission.ts, inbox.service.ts, conversation-notes.service.ts): who may hold a conversation, least-loaded routing.
  \<^item> \<open>Inbox_Runs\<close>: all of these in any order; the invariant \<open>inbox_ok\<close> and the admission rule.
  \<^item> \<open>Canned_Responses\<close> (canned-responses): the text policy on UTF-16 code units, optimistic revisions, no lost update.
  \<^item> \<open>Realtime\<close> (inbox-events): publication, decoding, and the streams of server-sent events with their shared sets of listeners at explicit
    addresses.

  \<^bold>\<open>Campaigns.\<close>
  \<^item> \<open>Segments\<close> (segments): definitions and their normal form. \<open>Personalization\<close> (campaigns/campaign-personalization.util.ts): what was accepted renders.
  \<^item> \<open>Campaigns\<close> (campaigns/campaigns.service.ts), \<open>Campaign_Processor\<close> (campaign-processor.service.ts), \<open>Campaign_Runs\<close>: the operations, the poll, and their
    interleaving; life cycles, totals, exclusive claims, and a run after which a campaign is never completed.

  \<^bold>\<open>Access.\<close> \<open>Api_Keys\<close> (auth, api-keys): which error answers which request, round trip of a new key, no escalation of scopes, revocation.

  \<^bold>\<open>Media.\<close> \<open>Media_File\<close> (open files, exact reads, and the locales \<open>frame_scanner\<close>, \<open>self_delimiting\<close> and \<open>stateless_format\<close> for the loops over
  frames, pages and boxes), \<open>Media_Text\<close> (buffers as text), \<open>Media_Crc\<close> (both table-driven checksums equal bitwise division, through the locale
  \<open>linear_register\<close>), then a theory per format, each with a grammar of the format and the theorem that the code accepts its sentences: \<open>Media_Audio\<close> and \<open>Media_Adif\<close> (ADTS, MPEG,
  AMR, ADIF), \<open>Media_Opus\<close> and \<open>Media_Ogg\<close> (media-audio-structure.ts, media-ogg-opus-profile.ts), \<open>Media_Png\<close> and \<open>Media_Jpeg\<close> (media-image-structure.ts),
  \<open>Media_Isobmff\<close> (media-isobmff-structure.ts), \<open>Media_Pdf\<close> (media-pdf-structure.ts), \<open>Media_Zip\<close> and \<open>Media_Signature\<close> (media-content-signature.ts,
  media-upload.policy.ts): a file passes as one kind of media only.

  \<^bold>\<open>Bounds and fuel.\<close> The limits are those of the code: 100000 audio frames, Ogg pages and packets, 4096 boxes, 10000 PNG chunks and ZIP entries, 1024 JPEG
  markers, 100 catalogue pages, 1000 nodes, 50 tokens and depth 20 of campaign components. The loops are total functions whose measure is the rest of the file or of the
  buffer. Two functions have fuel. \<open>walk_pages\<close> models a client that follows cursors; \<open>Suc (length rows)\<close> is enough, and the theorems state the result
  with that fuel. \<open>waitForOutboundSlot\<close> repeats without a bound in the source, and other workers can keep it waiting; its theorems are about every single attempt and
  about the delay between two, and the dispatcher takes the length of the wait as given.

  \<^bold>\<open>Not modelled.\<close> Controllers that only forward, modules, decorators and DTO validation classes (the checks a service relies on are hypotheses or part
  of the request's type); connections, timers and tracing; health reports, metrics and exporters, which only read; the validation of environment variables; the
  storage of media (file system and S3), the malware scanner's socket, retention, and the upload of media to the provider; the analytics report of campaigns; listings that have no
  cursor; release and capacity scripts. HMAC-SHA-256, Node's URL and date parsers, PostgreSQL, RabbitMQ and Redis are represented by what the code observes of them.
\<close>

end
